(* ===== verification/GoPrelude.thy ===== *)
theory GoPrelude
  imports Main "HOL-Library.Word"
begin

text \<open>
  Shared vocabulary of the development: the pieces of the Go language and of its
  standard library (packages \<open>strings\<close>, \<open>strconv\<close>, \<open>bufio\<close>) that the modelled
  program uses, with the generic lemmas every component proof rests on.  A Go string
  is a sequence of bytes, which is what HOL's \<open>string\<close> (a list of 8-bit characters)
  is; a Go run-time panic is the left side of a sum.  White space and letter case
  are modelled for ASCII, the alphabet of the host names, addresses and rule files
  the program handles.
\<close>

section \<open>Types and fact collections\<close>

type_synonym byte = "8 word"
type_synonym bytes = "byte list"

datatype panic = IndexOutOfRange | TypeAssertion | NilDereference | DivideByZero | ZeroReflectValue

type_synonym 'a go = "panic + 'a"

named_theorems str_simps "rewrite rules of the string library"
named_theorems net_simps "rewrite rules of the address library"

definition bytes_of :: "string \<Rightarrow> bytes" where
  "bytes_of s = map of_char s"

definition string_of :: "bytes \<Rightarrow> string" where
  "string_of bs = map (\<lambda>b. char_of (unat b)) bs"

lemma char_byte_roundtrip [simp]: "char_of (unat (of_char c :: byte)) = c"
proof -
  have "unat (of_char c :: byte) = of_char c"
  proof -
    have "(of_char c :: byte) = of_nat (of_char c)"
      by (simp add: of_nat_of_char)
    moreover have "(of_char c :: nat) < 2 ^ 8" by simp
    ultimately show ?thesis by (simp add: unat_of_nat)
  qed
  then show ?thesis by simp
qed

lemma byte_char_roundtrip [simp]: "(of_char (char_of (unat b)) :: byte) = b"
proof -
  have "(of_char (char_of (unat b)) :: byte) = of_nat (of_char (char_of (unat b)))"
    by (simp only: of_nat_of_char)
  also have "of_char (char_of (unat b)) = (unat b :: nat)"
    using unsigned_less [of b, where ?'a = nat] by simp
  finally show ?thesis by simp
qed

lemma string_bytes_roundtrip [simp]: "string_of (bytes_of s) = s"
  by (simp add: string_of_def bytes_of_def o_def)

lemma bytes_string_roundtrip [simp]: "bytes_of (string_of b) = b"
  by (simp add: string_of_def bytes_of_def o_def)

lemma length_bytes_of [simp]: "length (bytes_of s) = length s"
  by (simp add: bytes_of_def)

lemma length_string_of [simp]: "length (string_of b) = length b"
  by (simp add: string_of_def)

section \<open>Package strings\<close>

definition has_prefix :: "string \<Rightarrow> string \<Rightarrow> bool" where
  "has_prefix s p \<longleftrightarrow> take (length p) s = p"

definition has_suffix :: "string \<Rightarrow> string \<Rightarrow> bool" where
  "has_suffix s p \<longleftrightarrow> length p \<le> length s \<and> drop (length s - length p) s = p"

lemma has_prefix_append [simp]: "has_prefix (p @ s) p"
  by (simp add: has_prefix_def)

lemma has_prefix_iff: "has_prefix s p \<longleftrightarrow> (\<exists>t. s = p @ t)"
  by (metis append_take_drop_id append_eq_conv_conj has_prefix_def)

lemma has_suffix_iff: "has_suffix s p \<longleftrightarrow> (\<exists>t. s = t @ p)"
proof
  assume "has_suffix s p"
  then have "s = take (length s - length p) s @ p"
    by (metis append_take_drop_id has_suffix_def)
  then show "\<exists>t. s = t @ p" by blast
next
  assume "\<exists>t. s = t @ p"
  then show "has_suffix s p" by (auto simp: has_suffix_def)
qed

fun contains :: "string \<Rightarrow> string \<Rightarrow> bool" where
  "contains [] sub \<longleftrightarrow> sub = []"
| "contains (x # s) sub \<longleftrightarrow> has_prefix (x # s) sub \<or> contains s sub"

lemma contains_iff: "contains s sub \<longleftrightarrow> (\<exists>u v. s = u @ sub @ v)"
proof (induction s)
  case (Cons x s)
  show ?case
  proof
    assume "contains (x # s) sub"
    then consider v where "x # s = sub @ v" | u v where "s = u @ sub @ v"
      using Cons.IH by (auto simp: has_prefix_iff)
    then show "\<exists>u v. x # s = u @ sub @ v"
    proof cases
      case 1
      then have "x # s = [] @ sub @ v" by simp
      then show ?thesis by blast
    next
      case (2 u v)
      then have "x # s = (x # u) @ sub @ v" by simp
      then show ?thesis by blast
    qed
  next
    assume "\<exists>u v. x # s = u @ sub @ v"
    then obtain u v where uv: "x # s = u @ sub @ v" by blast
    show "contains (x # s) sub"
    proof (cases u)
      case Nil
      with uv have "has_prefix (x # s) sub" by simp
      then show ?thesis by simp
    next
      case (Cons a u')
      with uv have "s = u' @ sub @ v" by simp
      then show ?thesis using Cons.IH by auto
    qed
  qed
qed simp

text \<open>\<open>strings.IndexByte\<close> and \<open>strings.Index\<close>: the position of the first occurrence.\<close>

fun index_byte :: "string \<Rightarrow> char \<Rightarrow> nat option" where
  "index_byte [] c = None"
| "index_byte (x # xs) c =
     (if x = c then Some 0 else map_option Suc (index_byte xs c))"

lemma index_byte_None [simp]: "index_byte s c = None \<longleftrightarrow> c \<notin> set s"
  by (induction s) auto

lemma index_byte_Some:
  "index_byte s c = Some i \<Longrightarrow>
     i < length s \<and> s ! i = c \<and> c \<notin> set (take i s) \<and> s = take i s @ c # drop (Suc i) s"
  by (induction s arbitrary: i) (auto split: if_splits)

lemma index_byte_append [simp]: "c \<notin> set s \<Longrightarrow> index_byte (s @ c # t) c = Some (length s)"
  by (induction s) auto

fun last_index_byte :: "string \<Rightarrow> char \<Rightarrow> nat option" where
  "last_index_byte [] c = None"
| "last_index_byte (x # xs) c =
     (case last_index_byte xs c of
        Some i \<Rightarrow> Some (Suc i)
      | None \<Rightarrow> (if x = c then Some 0 else None))"

lemma last_index_byte_None [simp]: "last_index_byte s c = None \<longleftrightarrow> c \<notin> set s"
  by (induction s) (auto split: option.splits)

lemma last_index_byte_append [simp]:
  "c \<notin> set t \<Longrightarrow> last_index_byte (s @ c # t) c = Some (length s)"
  by (induction s) (auto split: option.splits)

text \<open>\<open>strings.Split\<close> and \<open>strings.SplitN(s, sep, 2)\<close> for a one-byte separator.\<close>

fun split_on :: "char \<Rightarrow> string \<Rightarrow> string list" where
  "split_on c [] = [[]]"
| "split_on c (x # xs) =
     (if x = c then [] # split_on c xs
      else (case split_on c xs of [] \<Rightarrow> [[x]] | y # ys \<Rightarrow> (x # y) # ys))"

fun join_with :: "char \<Rightarrow> string list \<Rightarrow> string" where
  "join_with c [] = []"
| "join_with c [x] = x"
| "join_with c (x # xs) = x @ c # join_with c xs"

lemma split_on_ne [simp]: "split_on c s \<noteq> []"
  by (induction s) (auto split: list.splits)

lemma join_split [simp]: "join_with c (split_on c s) = s"
proof (induction s)
  case (Cons x s)
  obtain y ys where "split_on c s = y # ys"
    using split_on_ne [of c s] by (cases "split_on c s") auto
  with Cons show ?case by (cases ys) auto
qed simp

lemma split_on_no_sep: "p \<in> set (split_on c s) \<Longrightarrow> c \<notin> set p"
  by (induction s arbitrary: p) (auto split: if_splits list.splits)

lemma split_on_notin [simp]: "c \<notin> set s \<Longrightarrow> split_on c s = [s]"
  by (induction s) auto

lemma split_on_append_sep: "c \<notin> set x \<Longrightarrow> split_on c (x @ c # s) = x # split_on c s"
  by (induction x) auto

lemma split_join:
  "xs \<noteq> [] \<Longrightarrow> (\<And>x. x \<in> set xs \<Longrightarrow> c \<notin> set x) \<Longrightarrow> split_on c (join_with c xs) = xs"
proof (induction xs)
  case (Cons x xs)
  then show ?case by (cases xs) (auto simp: split_on_append_sep)
qed simp

definition splitn2 :: "char \<Rightarrow> string \<Rightarrow> string list" where
  "splitn2 c s =
     (case index_byte s c of None \<Rightarrow> [s] | Some i \<Rightarrow> [take i s, drop (Suc i) s])"

text \<open>\<open>strings.TrimSpace\<close>, \<open>strings.Fields\<close>: ASCII white space.\<close>

definition is_space :: "char \<Rightarrow> bool" where
  "is_space c \<longleftrightarrow> (of_char c :: nat) \<in> {9, 10, 11, 12, 13, 32}"

definition trim_left :: "string \<Rightarrow> string" where
  "trim_left s = dropWhile is_space s"

definition trim_space :: "string \<Rightarrow> string" where
  "trim_space s = rev (trim_left (rev (trim_left s)))"

lemma trim_left_id: "s = [] \<or> \<not> is_space (hd s) \<Longrightarrow> trim_left s = s"
  by (cases s) (auto simp: trim_left_def)

lemma trim_space_id:
  "s = [] \<or> (\<not> is_space (hd s) \<and> \<not> is_space (last s)) \<Longrightarrow> trim_space s = s"
  by (auto simp: trim_space_def trim_left_id hd_rev)

lemma trim_space_ends:
  "trim_space s = [] \<or> (\<not> is_space (hd (trim_space s)) \<and> \<not> is_space (last (trim_space s)))"
proof (cases "trim_space s = []")
  case False
  let ?t = "trim_left s" and ?r = "trim_left (rev (trim_left s))"
  from False have r: "?r \<noteq> []" by (simp add: trim_space_def)
  then have "\<not> is_space (hd ?r)"
    unfolding trim_left_def by (rule hd_dropWhile)
  moreover have "?t \<noteq> []"
    using r by (metis dropWhile.simps(1) rev.simps(1) trim_left_def)
  then have "\<not> is_space (hd ?t)"
    unfolding trim_left_def by (rule hd_dropWhile)
  moreover obtain u where "rev ?t = u @ ?r"
    by (metis takeWhile_dropWhile_id trim_left_def)
  then have "?t = rev ?r @ rev u" by (metis rev_append rev_rev_ident)
  then have "hd ?t = hd (rev ?r)"
    using r by (metis hd_append2 rev_is_Nil_conv)
  ultimately show ?thesis using r by (simp add: trim_space_def last_rev)
qed simp

lemma trim_space_idem [simp]: "trim_space (trim_space s) = trim_space s"
  using trim_space_ends by (intro trim_space_id) blast

function str_fields :: "string \<Rightarrow> string list" where
  "str_fields [] = []"
| "str_fields (x # xs) =
     (if is_space x then str_fields xs
      else takeWhile (\<lambda>c. \<not> is_space c) (x # xs)
             # str_fields (dropWhile (\<lambda>c. \<not> is_space c) xs))"
  by pat_completeness auto
termination
  by (relation "measure length") (auto intro: le_imp_less_Suc length_dropWhile_le)

text \<open>\<open>strings.ToLower\<close> and \<open>strings.EqualFold\<close> on ASCII letters.\<close>

definition lower_char :: "char \<Rightarrow> char" where
  "lower_char c = (let n = of_char c in if 65 \<le> n \<and> n \<le> 90 then char_of (n + 32 :: nat) else c)"

definition to_lower :: "string \<Rightarrow> string" where
  "to_lower s = map lower_char s"

definition equal_fold :: "string \<Rightarrow> string \<Rightarrow> bool" where
  "equal_fold s t \<longleftrightarrow> to_lower s = to_lower t"

lemma lower_char_idem [simp]: "lower_char (lower_char c) = lower_char c"
  by (auto simp: lower_char_def Let_def)

lemma to_lower_idem [simp]: "to_lower (to_lower s) = to_lower s"
  by (simp add: to_lower_def)

lemma to_lower_append [simp]: "to_lower (s @ t) = to_lower s @ to_lower t"
  by (simp add: to_lower_def)

lemma length_to_lower [simp]: "length (to_lower s) = length s"
  by (simp add: to_lower_def)

lemma to_lower_Cons [simp]: "to_lower (c # s) = lower_char c # to_lower s"
  by (simp add: to_lower_def)

lemma to_lower_Nil [simp]: "to_lower [] = []"
  by (simp add: to_lower_def)

definition is_upper :: "char \<Rightarrow> bool" where
  "is_upper c \<longleftrightarrow> (let n = (of_char c :: nat) in 65 \<le> n \<and> n \<le> 90)"

lemma lower_char_not_upper [simp]: "\<not> is_upper (lower_char c)"
  by (auto simp: lower_char_def is_upper_def Let_def)

lemma lower_char_id: "\<not> is_upper c \<Longrightarrow> lower_char c = c"
  by (auto simp: lower_char_def is_upper_def Let_def)

lemma to_lower_id: "(\<forall>c \<in> set s. \<not> is_upper c) \<Longrightarrow> to_lower s = s"
  by (simp add: to_lower_def lower_char_id map_idI)

lemma to_lower_no_upper: "c \<in> set (to_lower s) \<Longrightarrow> \<not> is_upper c"
  by (auto simp: to_lower_def)

text \<open>\<open>strings.Replace(s, old, new, 1)\<close>: the first occurrence only.\<close>

fun replace1 :: "string \<Rightarrow> string \<Rightarrow> string \<Rightarrow> string" where
  "replace1 [] old new = (if old = [] then new else [])"
| "replace1 (x # s) old new =
     (if has_prefix (x # s) old then new @ drop (length old) (x # s)
      else x # replace1 s old new)"

lemma replace1_absent: "\<not> contains s old \<Longrightarrow> replace1 s old new = s"
  by (induction s) auto

section \<open>Package strconv\<close>

definition is_digit :: "char \<Rightarrow> bool" where
  "is_digit c \<longleftrightarrow> (let n = (of_char c :: nat) in 48 \<le> n \<and> n \<le> 57)"

definition digit_val :: "char \<Rightarrow> nat" where
  "digit_val c = of_char c - 48"

definition digit_char :: "nat \<Rightarrow> char" where
  "digit_char n = char_of (n + 48)"

lemma digit_char_ok [simp]:
  "n < 10 \<Longrightarrow> is_digit (digit_char n)"
  "n < 10 \<Longrightarrow> digit_val (digit_char n) = n"
  by (simp_all add: is_digit_def digit_char_def digit_val_def Let_def)

fun itoa :: "nat \<Rightarrow> string" where
  "itoa n = (if n < 10 then [digit_char n] else itoa (n div 10) @ [digit_char (n mod 10)])"

declare itoa.simps [simp del]

definition digits_val :: "string \<Rightarrow> nat" where
  "digits_val s = foldl (\<lambda>a c. 10 * a + digit_val c) 0 s"

lemma digits_val_snoc [simp]: "digits_val (s @ [c]) = 10 * digits_val s + digit_val c"
  by (simp add: digits_val_def)

lemma itoa_digits: "c \<in> set (itoa n) \<Longrightarrow> is_digit c"
proof (induction n rule: itoa.induct)
  case (1 n)
  then show ?case
    by (cases "n < 10") (auto simp: itoa.simps [of n])
qed

lemma itoa_ne [simp]: "itoa n \<noteq> []"
  by (subst itoa.simps) simp

lemma digits_val_itoa [simp]: "digits_val (itoa n) = n"
proof (induction n rule: itoa.induct)
  case (1 n)
  show ?case
  proof (cases "n < 10")
    case True
    then show ?thesis by (simp add: itoa.simps [of n] digits_val_def)
  next
    case False
    with 1 show ?thesis by (simp add: itoa.simps [of n])
  qed
qed

lemma itoa_inject [simp]: "itoa m = itoa n \<longleftrightarrow> m = n"
  by (metis digits_val_itoa)

text \<open>
  \<open>strconv.ParseUint(s, 10, bits)\<close> reads digit by digit and reports the first of the two
  errors it meets; \<open>strconv.ParseInt(s, 10, bits)\<close> returns its nearest bound together with
  a range error, and callers that drop the error see that bound.
\<close>

datatype num_err = ErrSyntax | ErrRange

fun parse_uint_loop :: "nat \<Rightarrow> nat \<Rightarrow> string \<Rightarrow> num_err + nat" where
  "parse_uint_loop maxVal n [] = Inr n"
| "parse_uint_loop maxVal n (c # s) =
     (if \<not> is_digit c then Inl ErrSyntax
      else let m = 10 * n + digit_val c
           in if maxVal < m then Inl ErrRange else parse_uint_loop maxVal m s)"

definition parse_uint :: "nat \<Rightarrow> string \<Rightarrow> num_err + nat" where
  "parse_uint bits s =
     (if s = [] then Inl ErrSyntax else parse_uint_loop (2 ^ bits - 1) 0 s)"

definition parse_int :: "nat \<Rightarrow> string \<Rightarrow> int \<times> num_err option" where
  "parse_int bits s =
     (if s = [] then (0, Some ErrSyntax)
      else let neg = (hd s = CHR ''-'');
               u = (if hd s = CHR ''-'' \<or> hd s = CHR ''+'' then tl s else s);
               cutoff = 2 ^ (bits - 1)
           in case parse_uint bits u of
                Inl ErrSyntax \<Rightarrow> (0, Some ErrSyntax)
              | r \<Rightarrow>
                  (let un = (case r of Inr n \<Rightarrow> n | Inl _ \<Rightarrow> 2 ^ bits - 1) in
                   if \<not> neg \<and> cutoff \<le> un then (int cutoff - 1, Some ErrRange)
                   else if neg \<and> cutoff < un then (- int cutoff, Some ErrRange)
                   else (if neg then - int un else int un,
                         case r of Inl e \<Rightarrow> Some e | Inr _ \<Rightarrow> None)))"

lemma foldl_digits_ge: "m \<le> foldl (\<lambda>a c. 10 * a + digit_val c) m s"
proof (induction s arbitrary: m)
  case (Cons c s)
  have "m \<le> 10 * m + digit_val c" by simp
  also have "\<dots> \<le> foldl (\<lambda>a c. 10 * a + digit_val c) (10 * m + digit_val c) s"
    by (rule Cons.IH)
  finally show ?case by simp
qed simp

lemma parse_uint_loop_Inr:
  "parse_uint_loop mx n s = Inr v \<longleftrightarrow>
     list_all is_digit s \<and> v = foldl (\<lambda>a c. 10 * a + digit_val c) n s \<and> (s = [] \<or> v \<le> mx)"
proof (induction s arbitrary: n)
  case (Cons c s)
  define m where "m = 10 * n + digit_val c"
  define f where "f = foldl (\<lambda>a c. 10 * a + digit_val c) m s"
  have "m \<le> f" unfolding f_def by (rule foldl_digits_ge)
  moreover have "s = [] \<Longrightarrow> f = m" by (simp add: f_def)
  ultimately have "m \<le> mx \<and> (s = [] \<or> f \<le> mx) \<longleftrightarrow> f \<le> mx" by auto
  then show ?case
    using Cons.IH [of m] unfolding f_def m_def by (auto simp only: parse_uint_loop.simps
      Let_def list.pred_inject foldl_Cons not_less split: if_splits)
qed auto

lemma parse_uint_Inr:
  "parse_uint bits s = Inr v \<longleftrightarrow>
     s \<noteq> [] \<and> list_all is_digit s \<and> v = digits_val s \<and> v < 2 ^ bits"
proof -
  have "v \<le> 2 ^ bits - 1 \<longleftrightarrow> v < 2 ^ bits" for v :: nat
    using less_Suc_eq_le [of v "2 ^ bits - 1"] by simp
  then show ?thesis
    by (auto simp: parse_uint_def parse_uint_loop_Inr digits_val_def)
qed

lemma parse_uint_itoa: "n < 2 ^ bits \<Longrightarrow> parse_uint bits (itoa n) = Inr n"
  by (auto simp: parse_uint_Inr list_all_iff dest: itoa_digits)

section \<open>Signed 64-bit arithmetic\<close>

text \<open>Go's \<open>int\<close>, \<open>int64\<close> and \<open>time.Duration\<close> are 64-bit two's complement and wrap.\<close>

definition wrap64 :: "int \<Rightarrow> int" where
  "wrap64 n = signed_take_bit 63 n"

lemma wrap64_id: "- (2 ^ 63) \<le> n \<Longrightarrow> n < 2 ^ 63 \<Longrightarrow> wrap64 n = n"
  unfolding wrap64_def by (rule signed_take_bit_int_eq_self) simp_all

lemma wrap64_bounds: "- (2 ^ 63) \<le> wrap64 n" "wrap64 n < 2 ^ 63"
  unfolding wrap64_def
  using signed_take_bit_int_greater_eq_minus_exp [of 63 n] signed_take_bit_int_less_exp [of 63 n]
  by simp_all

section \<open>Package bufio: line scanning\<close>

text \<open>
  \<open>bufio.Scanner\<close> with the default split function and buffer: the lines of the input
  without their line ends, cut off at the first line that does not fit the 64 KiB
  buffer (the scan then ends with an error the program never looks at).
\<close>

definition drop_cr :: "string \<Rightarrow> string" where
  "drop_cr s = (if s \<noteq> [] \<and> last s = CHR 0x0D then butlast s else s)"

definition raw_lines :: "string \<Rightarrow> string list" where
  "raw_lines s = (let ls = split_on (CHR 0x0A) s in if last ls = [] then butlast ls else ls)"

definition scan_lines :: "string \<Rightarrow> string list" where
  "scan_lines s = map drop_cr (takeWhile (\<lambda>l. length l < 65536) (raw_lines s))"

section \<open>Sums used as results\<close>

definition is_ok :: "'e + 'a \<Rightarrow> bool" where
  "is_ok r \<longleftrightarrow> (case r of Inl _ \<Rightarrow> False | Inr _ \<Rightarrow> True)"

lemma is_ok_simps [simp]: "is_ok (Inr a)" "\<not> is_ok (Inl e)"
  by (simp_all add: is_ok_def)

lemma is_ok_iff: "is_ok r \<longleftrightarrow> (\<exists>a. r = Inr a)"
  by (cases r) auto

definition go_bind :: "'e + 'a \<Rightarrow> ('a \<Rightarrow> 'e + 'b) \<Rightarrow> 'e + 'b" where
  "go_bind m f = (case m of Inl e \<Rightarrow> Inl e | Inr a \<Rightarrow> f a)"

lemma go_bind_simps [simp]: "go_bind (Inl e) f = Inl e" "go_bind (Inr a) f = f a"
  by (simp_all add: go_bind_def)

lemma go_bind_Inr: "go_bind m f = Inr b \<longleftrightarrow> (\<exists>a. m = Inr a \<and> f a = Inr b)"
  by (cases m) auto

lemma go_bind_Inl: "go_bind m f = Inl e \<longleftrightarrow> m = Inl e \<or> (\<exists>a. m = Inr a \<and> f a = Inl e)"
  by (cases m) auto

text \<open>\<open>io.ReadFull\<close>: the bytes and the rest, or an error when there are too few.\<close>

definition read_full :: "nat \<Rightarrow> bytes \<Rightarrow> (bytes \<times> bytes) option" where
  "read_full n inp = (if length inp < n then None else Some (take n inp, drop n inp))"

lemma read_full_append: "length x = n \<Longrightarrow> read_full n (x @ r) = Some (x, r)"
  by (simp add: read_full_def)

lemma read_full_1: "read_full (Suc 0) (b # r) = Some ([b], r)"
  by (simp add: read_full_def)

lemma read_full_2: "read_full 2 (a # b # r) = Some ([a, b], r)"
  by (simp add: read_full_def)

lemma read_full_4: "read_full 4 (a # b # c # d # r) = Some ([a, b, c, d], r)"
  by (simp add: read_full_def)

lemmas read_full_simps = read_full_append read_full_1 read_full_2 read_full_4

lemma unat_byte: "n < 256 \<Longrightarrow> unat (of_nat n :: byte) = n"
  by (simp add: unat_of_nat)

end
