(* ===== verification/AppConfig.thy ===== *)
theory AppConfig
  imports GoPrelude
begin

text \<open>
  \<open>config/config.go\<close>: the option record, \<open>ReadFile\<close> and \<open>Parse\<close>, which replaces the
  global configuration by the decoded file and fills in defaults.  The two globals of the
  file (the remembered path and the configuration) form the state; the operating system
  and the HTTP client answer through the environment \<open>cfg_env\<close>, and the YAML decoder (a
  third-party package) is a component of it.
\<close>

record RuleProvidersConfig =
  rp_ChinaDomain :: "string list"
  rp_ChinaIP :: "string list"

text \<open>\<open>ServerUrl\<close> is compared with nil, so a nil slice is told apart from an empty one.\<close>

record ConfigOptions =
  ServerUrl :: "string list option"
  Domain :: string
  Port :: string
  Request :: string
  CronInterval :: "64 word"
  ShowRemoteSpeed :: bool
  HealthCheckTimeout :: int
  HealthCheckConnection :: int
  SpeedTest :: bool
  SpeedConnection :: int
  SpeedTimeout :: int
  RetryWithProxy :: bool
  RetryMaxProxies :: int
  ProxyPort :: int
  RouteStrategy :: string
  RuleProviders :: RuleProvidersConfig

definition zero_config :: ConfigOptions where
  "zero_config =
     \<lparr>ServerUrl = None, Domain = [], Port = [], Request = [], CronInterval = 0,
      ShowRemoteSpeed = False, HealthCheckTimeout = 0, HealthCheckConnection = 0,
      SpeedTest = False, SpeedConnection = 0, SpeedTimeout = 0, RetryWithProxy = False,
      RetryMaxProxies = 0, ProxyPort = 0, RouteStrategy = [],
      RuleProviders = \<lparr>rp_ChinaDomain = [], rp_ChinaIP = []\<rparr>\<rparr>"

record config_state =
  configFilePath :: string
  Config :: ConfigOptions

datatype config_err =
    HttpGetFail
  | ReadErr string
  | YamlErr string
  | NoServerUrl

text \<open>
  \<open>cfg_http\<close> is the HTTP GET (left: the request failed, right: what reading the body
  gave), \<open>cfg_missing\<close> is \<open>os.IsNotExist\<close> of \<open>os.Stat\<close> (with the error), \<open>cfg_file\<close> is
  \<open>ioutil.ReadFile\<close>, and \<open>cfg_yaml\<close> decodes into the given record: what it holds
  afterwards and the error, if any.
\<close>

record cfg_env =
  cfg_http :: "string \<Rightarrow> string + (string + string)"
  cfg_missing :: "string \<Rightarrow> string option"
  cfg_file :: "string \<Rightarrow> string + string"
  cfg_yaml :: "string \<Rightarrow> ConfigOptions \<Rightarrow> ConfigOptions \<times> string option"

definition ReadFile :: "cfg_env \<Rightarrow> string \<Rightarrow> config_err + string" where
  "ReadFile env path =
     (if has_prefix path ''http://'' \<or> has_prefix path ''https://'' then
        (case cfg_http env path of
           Inl _ \<Rightarrow> Inl HttpGetFail
         | Inr (Inl e) \<Rightarrow> Inl (ReadErr e)
         | Inr (Inr body) \<Rightarrow> Inr body)
      else
        (case cfg_missing env path of
           Some e \<Rightarrow> Inl (ReadErr e)
         | None \<Rightarrow>
             (case cfg_file env path of Inl e \<Rightarrow> Inl (ReadErr e) | Inr d \<Rightarrow> Inr d)))"

definition china_domain_url :: string where
  "china_domain_url = ''https://raw.githubusercontent.com/blackmatrix7/ios_rule_script/master/rule/Clash/China/China_Domain.txt''"

definition china_ip_url :: string where
  "china_ip_url = ''https://raw.githubusercontent.com/17mon/china_ip_list/master/china_ip_list.txt''"

text \<open>
  The block of conditional assignments that ends \<open>Parse\<close>, in its order; each
  \<open>if F == zero { F = d }\<close> looks at and sets one field only.
\<close>

definition or_default :: "'a \<Rightarrow> 'a \<Rightarrow> 'a \<Rightarrow> 'a" where
  "or_default zero d v = (if v = zero then d else v)"

definition default_providers :: "RuleProvidersConfig \<Rightarrow> RuleProvidersConfig" where
  "default_providers r =
     r\<lparr>rp_ChinaDomain := or_default [] [china_domain_url] (rp_ChinaDomain r),
       rp_ChinaIP := or_default [] [china_ip_url] (rp_ChinaIP r)\<rparr>"

definition set_defaults :: "ConfigOptions \<Rightarrow> ConfigOptions" where
  "set_defaults c =
     c\<lparr>Domain := or_default [] ''127.0.0.1'' (Domain c),
       Port := or_default [] ''80'' (Port c),
       CronInterval := or_default 0 15 (CronInterval c),
       Request := or_default [] ''http'' (Request c),
       HealthCheckTimeout := or_default 0 5 (HealthCheckTimeout c),
       HealthCheckConnection := or_default 0 100 (HealthCheckConnection c),
       SpeedConnection := or_default 0 15 (SpeedConnection c),
       SpeedTimeout := or_default 0 10 (SpeedTimeout c),
       RetryMaxProxies := or_default 0 10 (RetryMaxProxies c),
       ProxyPort := or_default 0 7890 (ProxyPort c),
       RouteStrategy := or_default [] ''china_bypass'' (RouteStrategy c),
       RuleProviders := default_providers (RuleProviders c)\<rparr>"

definition Parse :: "cfg_env \<Rightarrow> string \<Rightarrow> config_state \<Rightarrow> config_err option \<times> config_state" where
  "Parse env path0 s0 =
     (let path = (if path0 = [] then configFilePath s0 else path0);
          s = (if path0 = [] then s0 else s0\<lparr>configFilePath := path0\<rparr>)
      in case ReadFile env path of
           Inl e \<Rightarrow> (Some e, s)
         | Inr fileData \<Rightarrow>
             (case cfg_yaml env fileData zero_config of
                (c, Some e) \<Rightarrow> (Some (YamlErr e), s\<lparr>Config := c\<rparr>)
              | (c, None) \<Rightarrow>
                  (if ServerUrl c = None then (Some NoServerUrl, s\<lparr>Config := c\<rparr>)
                   else (None, s\<lparr>Config := set_defaults c\<rparr>))))"

section \<open>Defaults\<close>

text \<open>What a configuration the program may run with looks like.\<close>

definition config_wf :: "ConfigOptions \<Rightarrow> bool" where
  "config_wf c \<longleftrightarrow>
     ServerUrl c \<noteq> None \<and> Domain c \<noteq> [] \<and> Port c \<noteq> [] \<and> Request c \<noteq> [] \<and>
     CronInterval c \<noteq> 0 \<and> HealthCheckTimeout c \<noteq> 0 \<and> HealthCheckConnection c \<noteq> 0 \<and>
     SpeedConnection c \<noteq> 0 \<and> SpeedTimeout c \<noteq> 0 \<and> RetryMaxProxies c \<noteq> 0 \<and>
     ProxyPort c \<noteq> 0 \<and> RouteStrategy c \<noteq> [] \<and>
     rp_ChinaDomain (RuleProviders c) \<noteq> [] \<and> rp_ChinaIP (RuleProviders c) \<noteq> []"

lemma or_default_ne: "d \<noteq> zero \<Longrightarrow> or_default zero d v \<noteq> zero"
  by (simp add: or_default_def)

lemma or_default_id: "v \<noteq> zero \<Longrightarrow> or_default zero d v = v"
  by (simp add: or_default_def)

lemma set_defaults_wf: "ServerUrl c \<noteq> None \<Longrightarrow> config_wf (set_defaults c)"
  by (simp add: config_wf_def set_defaults_def default_providers_def or_default_ne
      china_domain_url_def china_ip_url_def)

lemma set_defaults_id: "config_wf c \<Longrightarrow> set_defaults c = c"
  by (simp add: config_wf_def set_defaults_def default_providers_def or_default_id)

text \<open>A well-formed configuration is exactly one that defaulting leaves alone.\<close>

lemma config_wf_iff: "config_wf c \<longleftrightarrow> ServerUrl c \<noteq> None \<and> set_defaults c = c"
  using set_defaults_id set_defaults_wf by (metis config_wf_def)

lemma ServerUrl_set_defaults [simp]: "ServerUrl (set_defaults c) = ServerUrl c"
  by (simp add: set_defaults_def)

lemma Parse_state:
  "snd (Parse env p s) =
     \<lparr>configFilePath = (if p = [] then configFilePath s else p),
      Config = Config (snd (Parse env p s))\<rparr>"
  by (simp add: Parse_def Let_def split: sum.splits prod.splits option.splits)

lemma Parse_ok_iff:
  "fst (Parse env p s) = None \<longleftrightarrow>
     (\<exists>d c. ReadFile env (if p = [] then configFilePath s else p) = Inr d \<and>
        cfg_yaml env d zero_config = (c, None) \<and> ServerUrl c \<noteq> None \<and>
        Config (snd (Parse env p s)) = set_defaults c)"
  by (auto simp: Parse_def Let_def split: sum.splits prod.splits option.splits)

text \<open>
  A parse that reports no error leaves a configuration with a server list in which
  every option with a default is set, whatever the decoder delivered, and parsing again
  with the empty path (the cron task's reload of the remembered file), in the same
  environment, succeeds and changes nothing.
\<close>

theorem Parse_ok_wf:
  assumes "Parse env p s = (None, s')"
  shows "config_wf (Config s') \<and> Parse env [] s' = (None, s')"
proof -
  let ?path = "if p = [] then configFilePath s else p"
  obtain d c where r: "ReadFile env ?path = Inr d" and y: "cfg_yaml env d zero_config = (c, None)"
    and u: "ServerUrl c \<noteq> None" and c: "Config s' = set_defaults c"
    using Parse_ok_iff [of env p s] assms by auto
  have path: "configFilePath s' = ?path"
    using Parse_state [of env p s] assms by (metis config_state.select_convs(1) snd_conv)
  have "config_wf (Config s')" using u by (simp add: c set_defaults_wf)
  moreover have "Parse env [] s' = (None, s'\<lparr>Config := set_defaults c\<rparr>)"
    using r y u by (simp add: Parse_def path Let_def)
  ultimately show ?thesis by (simp add: c [symmetric])
qed

theorem Parse_ok_wf_witness:
  "\<exists>s'. Parse \<lparr>cfg_http = (\<lambda>u. Inl ''refused''), cfg_missing = (\<lambda>p. None), cfg_file = Inr,
        cfg_yaml = (\<lambda>d c. (c\<lparr>ServerUrl := Some [d]\<rparr>, None))\<rparr> ''config.yaml''
      \<lparr>configFilePath = [], Config = zero_config\<rparr> = (None, s') \<and> config_wf (Config s')"
proof -
  let ?env = "\<lparr>cfg_http = (\<lambda>u. Inl ''refused''), cfg_missing = (\<lambda>p. None), cfg_file = Inr,
        cfg_yaml = (\<lambda>d c. (c\<lparr>ServerUrl := Some [d]\<rparr>, None))\<rparr>"
  obtain s' where p: "Parse ?env ''config.yaml'' \<lparr>configFilePath = [], Config = zero_config\<rparr> = (None, s')"
    by (simp add: Parse_def ReadFile_def has_prefix_def Let_def)
  with Parse_ok_wf [OF p] show ?thesis by blast
qed

lemma ReadFile_NoServerUrl [simp]: "ReadFile env p \<noteq> Inl NoServerUrl"
  by (auto simp: ReadFile_def split: sum.splits option.splits)

text \<open>A file without a server list replaces the configuration by one without defaults.\<close>

lemma Parse_NoServerUrl:
  assumes "ReadFile env (if p = [] then configFilePath s else p) = Inr d"
    and "cfg_yaml env d zero_config = (c, None)" and "ServerUrl c = None"
  shows "Parse env p s =
    (Some NoServerUrl, \<lparr>configFilePath = (if p = [] then configFilePath s else p), Config = c\<rparr>)"
  using assms by (cases s; cases "p = []") (simp_all add: Parse_def)

end
