(* ===== verification/GoNet.thy ===== *)
theory GoNet
  imports GoPrelude
begin

unbundle bit_operations_syntax

text \<open>
  The part of Go's package \<open>net\<close> the program relies on: \<open>ParseIP\<close> with its IPv4 and
  IPv6 parsers, \<open>ParseCIDR\<close>, \<open>IPNet.Contains\<close>, \<open>IP.String\<close>, \<open>IP.To4\<close>,
  \<open>SplitHostPort\<close> and \<open>JoinHostPort\<close>.  A \<open>net.IP\<close> is a byte slice, of length 4 or 16,
  and the nil address is \<open>None\<close> where the code compares with nil.  The lemmas are the
  facts routing decisions need: \<open>Contains\<close> is agreement on the prefix bits, an IPv4
  address survives printing and parsing, and splitting undoes joining.
\<close>

section \<open>IPv4 text form\<close>

definition big :: nat where "big = 0xFFFFFF"

fun dtoi_loop :: "nat \<Rightarrow> nat \<Rightarrow> string \<Rightarrow> nat \<times> nat \<times> bool" where
  "dtoi_loop n i [] = (n, i, i \<noteq> 0)"
| "dtoi_loop n i (c # s) =
     (if is_digit c
      then let m = 10 * n + digit_val c
           in if big \<le> m then (big, i, False) else dtoi_loop m (Suc i) s
      else (n, i, i \<noteq> 0))"

definition dtoi :: "string \<Rightarrow> nat \<times> nat \<times> bool" where
  "dtoi s = dtoi_loop 0 0 s"

fun parse_v4_loop :: "nat \<Rightarrow> bool \<Rightarrow> string \<Rightarrow> bytes \<Rightarrow> bytes option" where
  "parse_v4_loop 0 first s p = (if s = [] then Some p else None)"
| "parse_v4_loop (Suc k) first s p =
     (if s = [] then None
      else if \<not> first \<and> hd s \<noteq> CHR ''.'' then None
      else let s1 = (if first then s else tl s);
               (n, c, ok) = dtoi s1
           in if \<not> ok \<or> 0xFF < n then None
              else if 1 < c \<and> hd s1 = CHR ''0'' then None
              else parse_v4_loop k False (drop c s1) (p @ [of_nat n]))"

definition v4_in_v6_prefix :: bytes where
  "v4_in_v6_prefix = replicate 10 0 @ [255, 255]"

definition parse_ipv4 :: "string \<Rightarrow> bytes option" where
  "parse_ipv4 s = map_option (\<lambda>p. v4_in_v6_prefix @ p) (parse_v4_loop 4 True s [])"

definition to4 :: "bytes \<Rightarrow> bytes option" where
  "to4 ip =
     (if length ip = 4 then Some ip
      else if length ip = 16 \<and> take 12 ip = v4_in_v6_prefix then Some (drop 12 ip)
      else None)"

definition to16 :: "bytes \<Rightarrow> bytes option" where
  "to16 ip =
     (if length ip = 4 then Some (v4_in_v6_prefix @ ip)
      else if length ip = 16 then Some ip
      else None)"

section \<open>IPv6 text form\<close>

definition hex_val :: "char \<Rightarrow> nat option" where
  "hex_val c =
     (let n = of_char c in
      if 48 \<le> n \<and> n \<le> 57 then Some (n - 48)
      else if 97 \<le> n \<and> n \<le> 102 then Some (n - 87)
      else if 65 \<le> n \<and> n \<le> 70 then Some (n - 55)
      else None)"

fun xtoi_loop :: "nat \<Rightarrow> nat \<Rightarrow> string \<Rightarrow> nat \<times> nat \<times> bool" where
  "xtoi_loop n i [] = (n, i, i \<noteq> 0)"
| "xtoi_loop n i (c # s) =
     (case hex_val c of
        Some d \<Rightarrow> (let m = 16 * n + d
                   in if big \<le> m then (0, i, False) else xtoi_loop m (Suc i) s)
      | None \<Rightarrow> (n, i, i \<noteq> 0))"

definition xtoi :: "string \<Rightarrow> nat \<times> nat \<times> bool" where
  "xtoi s = xtoi_loop 0 0 s"

text \<open>
  The loop of \<open>parseIPv6\<close>.  It runs while fewer than 16 bytes are filled, two per
  round, so the counter starts at 8; the bytes written so far are the list \<open>ip\<close>.
\<close>

fun parse_v6_loop ::
  "nat \<Rightarrow> bytes \<Rightarrow> nat option \<Rightarrow> string \<Rightarrow> (bytes \<times> nat option \<times> string) option" where
  "parse_v6_loop 0 ip ell s = Some (ip, ell, s)"
| "parse_v6_loop (Suc k) ip ell s =
     (let (n, c, ok) = xtoi s in
      if \<not> ok \<or> 0xFFFF < n then None
      else if c < length s \<and> s ! c = CHR ''.'' then
        (if ell = None \<and> length ip \<noteq> 12 then None
         else if 16 < length ip + 4 then None
         else map_option (\<lambda>ip4. (ip @ drop 12 ip4, ell, [])) (parse_ipv4 s))
      else
        (let ip1 = ip @ [of_nat (n div 256), of_nat n]; s1 = drop c s in
         if s1 = [] then Some (ip1, ell, [])
         else if hd s1 \<noteq> CHR '':'' \<or> length s1 = 1 then None
         else
           (let s2 = tl s1 in
            if hd s2 = CHR '':'' then
              (if ell \<noteq> None then None
               else if tl s2 = [] then Some (ip1, Some (length ip1), [])
               else parse_v6_loop k ip1 (Some (length ip1)) (tl s2))
            else parse_v6_loop k ip1 ell s2)))"

definition parse_v6_finish :: "bytes \<times> nat option \<times> string \<Rightarrow> bytes option" where
  "parse_v6_finish r =
     (case r of (ip, ell, s) \<Rightarrow>
        if s \<noteq> [] then None
        else if length ip < 16 then
          (case ell of
             None \<Rightarrow> None
           | Some e \<Rightarrow> Some (take e ip @ replicate (16 - length ip) 0 @ drop e ip))
        else if ell \<noteq> None then None
        else Some ip)"

definition parse_ipv6 :: "string \<Rightarrow> bytes option" where
  "parse_ipv6 s =
     (if 2 \<le> length s \<and> hd s = CHR '':'' \<and> s ! 1 = CHR '':''
      then if drop 2 s = [] then Some (replicate 16 0)
           else Option.bind (parse_v6_loop 8 [] (Some 0) (drop 2 s)) parse_v6_finish
      else Option.bind (parse_v6_loop 8 [] None s) parse_v6_finish)"

fun parse_ip_scan :: "string \<Rightarrow> string \<Rightarrow> bytes option" where
  "parse_ip_scan s [] = None"
| "parse_ip_scan s (c # r) =
     (if c = CHR ''.'' then parse_ipv4 s
      else if c = CHR '':'' then parse_ipv6 s
      else parse_ip_scan s r)"

definition parse_ip :: "string \<Rightarrow> bytes option" where
  "parse_ip s = parse_ip_scan s s"

section \<open>Networks\<close>

record IPNet =
  net_ip :: bytes
  net_mask :: bytes

fun cidr_mask_bytes :: "nat \<Rightarrow> nat \<Rightarrow> bytes" where
  "cidr_mask_bytes 0 n = []"
| "cidr_mask_bytes (Suc l) n =
     (if 8 \<le> n then 255 # cidr_mask_bytes l (n - 8)
      else NOT (drop_bit n 255) # cidr_mask_bytes l 0)"

definition and_bytes :: "bytes \<Rightarrow> bytes \<Rightarrow> bytes" where
  "and_bytes a b = map2 (\<lambda>x y. x AND y) a b"

definition ip_mask :: "bytes \<Rightarrow> bytes \<Rightarrow> bytes" where
  "ip_mask ip msk =
     (let m = (if length msk = 16 \<and> length ip = 4 \<and> take 12 msk = replicate 12 255
               then drop 12 msk else msk);
          i = (if length m = 4 \<and> length ip = 16 \<and> take 12 ip = v4_in_v6_prefix
               then drop 12 ip else ip)
      in if length i \<noteq> length m then [] else and_bytes i m)"

definition parse_cidr :: "string \<Rightarrow> IPNet option" where
  "parse_cidr s =
     (case index_byte s (CHR ''/'') of
        None \<Rightarrow> None
      | Some i \<Rightarrow>
          (let addr = take i s; msk = drop (Suc i) s;
               (iplen, ip) = (case parse_ipv4 addr of
                                Some p \<Rightarrow> (4, Some p)
                              | None \<Rightarrow> (16, parse_ipv6 addr));
               (n, k, ok) = dtoi msk
           in case ip of
                None \<Rightarrow> None
              | Some p \<Rightarrow>
                  if \<not> ok \<or> k \<noteq> length msk \<or> 8 * iplen < n then None
                  else let m = cidr_mask_bytes iplen n
                       in Some \<lparr>net_ip = ip_mask p m, net_mask = m\<rparr>))"

definition network_number_and_mask :: "IPNet \<Rightarrow> bytes \<times> bytes" where
  "network_number_and_mask n =
     (case (case to4 (net_ip n) of
              Some p \<Rightarrow> Some p
            | None \<Rightarrow> (if length (net_ip n) = 16 then Some (net_ip n) else None)) of
        None \<Rightarrow> ([], [])
      | Some ip \<Rightarrow>
          (let m = net_mask n in
           if length m = 4 then (if length ip \<noteq> 4 then ([], []) else (ip, m))
           else if length m = 16 then (if length ip = 4 then (ip, drop 12 m) else (ip, m))
           else ([], [])))"

definition net_contains :: "IPNet \<Rightarrow> bytes \<Rightarrow> bool" where
  "net_contains n ip =
     (let (nn, m) = network_number_and_mask n;
          x = (case to4 ip of Some p \<Rightarrow> p | None \<Rightarrow> ip)
      in length x = length nn \<and> and_bytes nn m = and_bytes x m)"

section \<open>Printing addresses\<close>

definition hex_char :: "nat \<Rightarrow> char" where
  "hex_char d = (if d < 10 then char_of (d + 48) else char_of (d + 87))"

fun hex_str :: "nat \<Rightarrow> string" where
  "hex_str n = (if n < 16 then [hex_char n] else hex_str (n div 16) @ [hex_char (n mod 16)])"

declare hex_str.simps [simp del]

definition v4_string :: "bytes \<Rightarrow> string" where
  "v4_string p = join_with (CHR ''.'') (map (\<lambda>b. itoa (unat b)) p)"

text \<open>The 16-bit groups of an IPv6 address and the longest run of zero groups.\<close>

fun v6_groups :: "bytes \<Rightarrow> nat list" where
  "v6_groups (a # b # r) = (unat a * 256 + unat b) # v6_groups r"
| "v6_groups _ = []"

fun zero_run :: "nat list \<Rightarrow> nat" where
  "zero_run (0 # gs) = Suc (zero_run gs)"
| "zero_run _ = 0"

text \<open>
  The search keeps the first longest run as \<open>(start, length)\<close>; as in the source, a run
  that improves on the best moves the index past it (\<open>skip\<close> counts the groups still to
  pass over).
\<close>

fun longest_zeros :: "nat \<Rightarrow> nat \<Rightarrow> nat list \<Rightarrow> nat \<times> nat \<Rightarrow> nat \<times> nat" where
  "longest_zeros i skip [] best = best"
| "longest_zeros i (Suc skip) (g # gs) best = longest_zeros (Suc i) skip gs best"
| "longest_zeros i 0 (g # gs) best =
     (let z = zero_run (g # gs)
      in if 0 < z \<and> snd best < z then longest_zeros (Suc i) z gs (i, z)
         else longest_zeros (Suc i) 0 gs best)"

fun v6_print :: "nat \<Rightarrow> nat \<times> nat \<Rightarrow> nat \<Rightarrow> nat list \<Rightarrow> string" where
  "v6_print i run skip [] = []"
| "v6_print i run (Suc skip) (g # gs) = v6_print (Suc i) run skip gs"
| "v6_print i run 0 (g # gs) =
     (if 2 \<le> snd run \<and> i = fst run
      then ''::'' @ v6_print (Suc i) run (snd run - 1) gs
      else (if 0 < i \<and> \<not> (2 \<le> snd run \<and> i = fst run + snd run) then '':'' else [])
             @ hex_str g @ v6_print (Suc i) run 0 gs)"

definition ip_string :: "bytes \<Rightarrow> string" where
  "ip_string ip =
     (if ip = [] then ''<nil>''
      else case to4 ip of
        Some p \<Rightarrow> v4_string p
      | None \<Rightarrow>
          (if length ip \<noteq> 16 then ''?'' @ concat (map (\<lambda>b. [hex_char (unat b div 16), hex_char (unat b mod 16)]) ip)
           else let gs = v6_groups ip in v6_print 0 (longest_zeros 0 0 gs (0, 0)) 0 gs))"

section \<open>Host and port\<close>

datatype addr_err = MissingPort | TooManyColons | MissingBracket | UnexpectedOpen | UnexpectedClose

definition brackets_check :: "string \<Rightarrow> nat \<Rightarrow> nat \<Rightarrow> nat \<Rightarrow> string \<Rightarrow> addr_err + string \<times> string" where
  "brackets_check hp i j k host =
     (if CHR ''['' \<in> set (drop j hp) then Inl UnexpectedOpen
      else if CHR '']'' \<in> set (drop k hp) then Inl UnexpectedClose
      else Inr (host, drop (Suc i) hp))"

definition split_host_port :: "string \<Rightarrow> addr_err + string \<times> string" where
  "split_host_port hp =
     (case last_index_byte hp (CHR '':'') of
        None \<Rightarrow> Inl MissingPort
      | Some i \<Rightarrow>
          (if hd hp = CHR ''['' then
             (case index_byte hp (CHR '']'') of
                None \<Rightarrow> Inl MissingBracket
              | Some e \<Rightarrow>
                  (if Suc e = length hp then Inl MissingPort
                   else if Suc e = i then brackets_check hp i 1 (Suc e) (take (e - 1) (drop 1 hp))
                   else if hp ! Suc e = CHR '':'' then Inl TooManyColons
                   else Inl MissingPort))
           else if CHR '':'' \<in> set (take i hp) then Inl TooManyColons
           else brackets_check hp i 0 0 (take i hp)))"

definition join_host_port :: "string \<Rightarrow> string \<Rightarrow> string" where
  "join_host_port h p =
     (if CHR '':'' \<in> set h then ''['' @ h @ '']:'' @ p else h @ '':'' @ p)"

section \<open>An IPv4 address survives printing and parsing\<close>

lemma dtoi_loop_digits:
  "list_all is_digit s \<Longrightarrow> r = [] \<or> \<not> is_digit (hd r) \<Longrightarrow>
   foldl (\<lambda>a c. 10 * a + digit_val c) n s < big \<Longrightarrow>
   dtoi_loop n i (s @ r) =
     (foldl (\<lambda>a c. 10 * a + digit_val c) n s, i + length s, i + length s \<noteq> 0)"
proof (induction s arbitrary: n i)
  case Nil
  then show ?case by (cases r) auto
next
  case (Cons c s)
  have "10 * n + digit_val c < big"
    using Cons.prems(3) foldl_digits_ge [of "10 * n + digit_val c" s] by simp
  with Cons show ?case by (auto simp: Let_def)
qed

lemma dtoi_itoa:
  "n < big \<Longrightarrow> r = [] \<or> \<not> is_digit (hd r) \<Longrightarrow>
     dtoi (itoa n @ r) = (n, length (itoa n), True)"
  using dtoi_loop_digits [of "itoa n" r 0 0] digits_val_itoa [of n]
  by (auto simp: dtoi_def digits_val_def list_all_iff dest: itoa_digits)

lemma itoa_hd_nonzero: "0 < n \<Longrightarrow> hd (itoa n) \<noteq> CHR ''0''"
proof (induction n rule: itoa.induct)
  case (1 n)
  show ?case
  proof (cases "n < 10")
    case True
    with 1 have "digit_val (digit_char n) \<noteq> digit_val CHR ''0''"
      by (simp add: digit_val_def [of "CHR ''0''"])
    then have "digit_char n \<noteq> CHR ''0''" by metis
    with True show ?thesis by (simp add: itoa.simps [of n])
  next
    case False
    with 1 show ?thesis by (simp add: itoa.simps [of n])
  qed
qed

lemma itoa_no_leading_zero: "Suc 0 < length (itoa n) \<Longrightarrow> hd (itoa n) \<noteq> CHR ''0''"
  by (cases "n = 0") (auto simp: itoa.simps [of 0] itoa_hd_nonzero)

lemma is_digit_dot [simp]: "\<not> is_digit (CHR ''.'')" "\<not> is_digit (CHR '':'')" "\<not> is_digit (CHR ''/'')"
  by (simp_all add: is_digit_def)

lemma byte_lt_256 [simp]: "unat (b :: byte) < 256"
  using unsigned_less [of b, where ?'a = nat] by simp

lemma byte_not_gt [simp]: "\<not> 255 < unat (b :: byte)"
  using byte_lt_256 [of b] by linarith

lemma byte_octet:
  fixes b :: byte
  assumes "r = [] \<or> \<not> is_digit (hd r)"
  shows "dtoi (itoa (unat b) @ r) = (unat b, length (itoa (unat b)), True)"
proof -
  have "unat b < big"
    unfolding big_def using byte_lt_256 [of b] by linarith
  then show ?thesis using assms by (rule dtoi_itoa)
qed

lemma parse_v4_octets:
  assumes "length p = 4"
  shows "parse_v4_loop 4 True (v4_string p) [] = Some p"
proof -
  from assms obtain a b c d where p: "p = [a, b, c, d]"
    by (auto simp: numeral_eq_Suc length_Suc_conv)
  have step: "parse_v4_loop (Suc k) False (CHR ''.'' # itoa (unat x) @ r) q =
      parse_v4_loop k False r (q @ [x])"
    if "r = [] \<or> \<not> is_digit (hd r)" for k x r q
    using that by (auto simp: byte_octet Let_def not_less dest: itoa_no_leading_zero)
  have first: "parse_v4_loop (Suc k) True (itoa (unat x) @ r) q = parse_v4_loop k False r (q @ [x])"
    if "r = [] \<or> \<not> is_digit (hd r)" for k x r q
    using that by (auto simp: byte_octet Let_def not_less dest: itoa_no_leading_zero)
  have four: "(4::nat) = Suc (Suc (Suc (Suc 0)))" by simp
  show ?thesis
    unfolding p v4_string_def four
    using step [where r = "[]", simplified]
    by (simp only: list.map join_with.simps)
       (subst first, simp, (subst step, simp)+, simp add: step)
qed

lemma parse_ipv4_string [net_simps]:
  "length p = 4 \<Longrightarrow> parse_ipv4 (v4_string p) = Some (v4_in_v6_prefix @ p)"
  by (simp add: parse_ipv4_def parse_v4_octets)

lemma itoa_not_sep [simp]:
  "CHR ''.'' \<notin> set (itoa n)" "CHR '':'' \<notin> set (itoa n)"
  "CHR ''['' \<notin> set (itoa n)" "CHR '']'' \<notin> set (itoa n)"
  by (auto dest!: itoa_digits simp: is_digit_def)

lemma parse_ip_scan_dot:
  "CHR '':'' \<notin> set u \<Longrightarrow> CHR ''.'' \<notin> set u \<Longrightarrow>
     parse_ip_scan s (u @ CHR ''.'' # v) = parse_ipv4 s"
  by (induction u) auto

lemma v4_string_Cons: "p \<noteq> [] \<Longrightarrow> v4_string (a # p) = itoa (unat a) @ CHR ''.'' # v4_string p"
  by (cases p) (auto simp: v4_string_def)

lemma parse_ip_v4_string [net_simps]:
  assumes "length p = 4"
  shows "parse_ip (v4_string p) = Some (v4_in_v6_prefix @ p)"
proof -
  from assms obtain a b q where p: "p = a # b # q" by (auto simp: numeral_eq_Suc length_Suc_conv)
  then have "parse_ip (v4_string p) = parse_ipv4 (v4_string p)"
    by (simp add: parse_ip_def v4_string_Cons parse_ip_scan_dot)
  with assms show ?thesis by (simp add: parse_ipv4_string)
qed

lemma length_v4_in_v6_prefix [simp]: "length v4_in_v6_prefix = 12"
  by (simp add: v4_in_v6_prefix_def)

lemma to4_mapped [net_simps]: "length p = 4 \<Longrightarrow> to4 (v4_in_v6_prefix @ p) = Some p"
  by (simp add: to4_def)

lemma to4_length: "to4 ip = Some p \<Longrightarrow> length p = 4"
  by (auto simp: to4_def split: if_splits)

text \<open>Every address the parsers return has 16 bytes.\<close>

lemma parse_v4_loop_length:
  "parse_v4_loop k first s p = Some q \<Longrightarrow> length q = length p + k"
  by (induction k first s p rule: parse_v4_loop.induct)
     (auto simp: Let_def split: if_splits prod.splits)

lemma parse_ipv4_length: "parse_ipv4 s = Some ip \<Longrightarrow> length ip = 16"
  by (auto simp: parse_ipv4_def dest: parse_v4_loop_length)

definition ell_ok :: "nat option \<Rightarrow> bytes \<Rightarrow> bool" where
  "ell_ok ell ip \<longleftrightarrow> length ip \<le> 16 \<and> (\<forall>e. ell = Some e \<longrightarrow> e \<le> length ip)"

lemma ell_ok_append: "ell_ok ell ip \<Longrightarrow> length (ip @ x) \<le> 16 \<Longrightarrow> ell_ok ell (ip @ x)"
  by (auto simp: ell_ok_def trans_le_add1)

lemma parse_v6_loop_ok:
  "parse_v6_loop k ip ell s = Some (ip', ell', s') \<Longrightarrow> length ip + 2 * k = 16 \<Longrightarrow>
   ell_ok ell ip \<Longrightarrow> ell_ok ell' ip'"
proof (induction k arbitrary: ip ell s)
  case (Suc k)
  obtain n c ok where x: "xtoi s = (n, c, ok)" by (cases "xtoi s") auto
  let ?ip1 = "ip @ [of_nat (n div 256), of_nat n]"
  have ok1: "ell_ok ell ?ip1" "ell_ok (Some (length ?ip1)) ?ip1"
    using Suc.prems(2,3) by (auto simp: ell_ok_append ell_ok_def)
  have len1: "length ?ip1 + 2 * k = 16" using Suc.prems(2) by simp
  show ?case
  proof (cases "c < length s \<and> s ! c = CHR ''.''")
    case True
    with Suc.prems x show ?thesis
      by (auto split: if_splits intro!: ell_ok_append dest: parse_ipv4_length)
  next
    case False
    note IH = Suc.IH [OF _ len1 ok1(1)] Suc.IH [OF _ len1 ok1(2)]
    from False Suc.prems(1) x have
      "ip' = ?ip1 \<and> (ell' = ell \<or> ell' = Some (length ?ip1)) \<or>
       (\<exists>t. parse_v6_loop k ?ip1 ell t = Some (ip', ell', s')) \<or>
       (\<exists>t. parse_v6_loop k ?ip1 (Some (length ?ip1)) t = Some (ip', ell', s'))"
      by (auto simp: Let_def split: if_splits)
    then show ?thesis using ok1 IH by blast
  qed
qed simp

lemma parse_v6_finish_length:
  "parse_v6_finish (ip, ell, s) = Some r \<Longrightarrow> ell_ok ell ip \<Longrightarrow> length r = 16"
  by (auto simp: parse_v6_finish_def ell_ok_def split: if_splits option.splits)

lemma parse_ipv6_length: "parse_ipv6 s = Some ip \<Longrightarrow> length ip = 16"
  using parse_v6_loop_ok [of 8 "[]"]
  by (auto simp: parse_ipv6_def bind_eq_Some_conv ell_ok_def split: if_splits
           elim!: parse_v6_finish_length)

lemma parse_ip_length: "parse_ip s = Some ip \<Longrightarrow> length ip = 16"
proof -
  have "parse_ip_scan t u = Some ip \<Longrightarrow> length ip = 16" for t u
    by (induction u) (auto split: if_splits dest: parse_ipv4_length parse_ipv6_length)
  then show "parse_ip s = Some ip \<Longrightarrow> length ip = 16" by (simp add: parse_ip_def)
qed

lemma split_join_host_port [net_simps]:
  assumes "CHR ''['' \<notin> set h" "CHR '']'' \<notin> set h"
    and "CHR '':'' \<notin> set p" "CHR ''['' \<notin> set p" "CHR '']'' \<notin> set p"
  shows "split_host_port (join_host_port h p) = Inr (h, p)"
proof (cases "CHR '':'' \<in> set h")
  case True
  let ?hp = "''['' @ h @ '']'' @ CHR '':'' # p"
  have "last_index_byte ?hp (CHR '':'') = Some (length h + 2)"
    using last_index_byte_append [of "CHR '':''" p "''['' @ h @ '']''"] assms(3) by simp
  moreover have "index_byte ?hp (CHR '']'') = Some (length h + 1)"
    using index_byte_append [of "CHR '']''" "''['' @ h" "CHR '':'' # p"] assms(2) by simp
  ultimately show ?thesis
    using True assms
    by (simp add: split_host_port_def join_host_port_def brackets_check_def)
next
  case False
  then have "last_index_byte (h @ CHR '':'' # p) (CHR '':'') = Some (length h)"
    using assms(3) by simp
  moreover have "hd (h @ CHR '':'' # p) \<noteq> CHR ''[''"
    using assms(1) by (cases h) auto
  ultimately show ?thesis
    using False assms
    by (simp add: split_host_port_def join_host_port_def brackets_check_def)
qed

section \<open>Contains is agreement on the prefix\<close>

definition addr_bit :: "bytes \<Rightarrow> nat \<Rightarrow> bool" where
  "addr_bit ip i = bit (ip ! (i div 8)) (7 - i mod 8)"

lemma cidr_mask_length [simp]: "length (cidr_mask_bytes l n) = l"
  by (induction l n rule: cidr_mask_bytes.induct) auto

lemma bit_255: "bit (255 :: byte) m \<longleftrightarrow> m < 8"
proof -
  have "(255 :: byte) = mask 8" by (simp add: mask_eq_exp_minus_1)
  then show ?thesis by (simp only: bit_mask_iff) simp
qed

lemma cidr_mask_bit:
  "i < 8 * l \<Longrightarrow> n \<le> 8 * l \<Longrightarrow> addr_bit (cidr_mask_bytes l n) i \<longleftrightarrow> i < n"
proof (induction l n arbitrary: i rule: cidr_mask_bytes.induct)
  case (2 l n)
  show ?case
  proof (cases "i < 8")
    case True
    then have "bit (255 :: byte) (7 - i)" by (simp only: bit_255)
    moreover have "bit (255 :: byte) (n + (7 - i)) \<longleftrightarrow> n \<le> i"
      using True by (simp only: bit_255) auto
    ultimately show ?thesis
      using True by (auto simp: addr_bit_def bit_not_iff bit_drop_bit_eq)
  next
    case False
    have "addr_bit (x # xs) i = addr_bit xs (i - 8)" for x xs
    proof -
      have "addr_bit (x # xs) (j + 8) = addr_bit xs j" for j
        by (simp add: addr_bit_def div_add_self2)
      from this [of "i - 8"] False show ?thesis by simp
    qed
    then show ?thesis using 2 False by auto
  qed
qed simp

lemma and_bytes_eq_iff:
  assumes "length a = length m" "length b = length m"
  shows "and_bytes a m = and_bytes b m \<longleftrightarrow>
    (\<forall>i < 8 * length m. addr_bit m i \<longrightarrow> addr_bit a i = addr_bit b i)"
proof -
  have "and_bytes a m = and_bytes b m \<longleftrightarrow> (\<forall>j < length m. a ! j AND m ! j = b ! j AND m ! j)"
    using assms by (auto simp: and_bytes_def list_eq_iff_nth_eq)
  also have "\<dots> \<longleftrightarrow> (\<forall>j < length m. \<forall>k < 8. bit (m ! j) k \<longrightarrow> bit (a ! j) k = bit (b ! j) k)"
    by (auto simp: bit_eq_iff bit_and_iff dest: bit_imp_possible_bit)
  also have "\<dots> \<longleftrightarrow> (\<forall>i < 8 * length m. addr_bit m i \<longrightarrow> addr_bit a i = addr_bit b i)"
    (is "?L \<longleftrightarrow> ?R")
  proof
    assume ?R
    show ?L
    proof (intro allI impI)
      fix j k assume "j < length m" "k < (8::nat)" "bit (m ! j) k"
      moreover from this have "(8 * j + (7 - k)) div 8 = j" "(8 * j + (7 - k)) mod 8 = 7 - k"
        by (simp_all only: div_mult_self4 mod_mult_self4) auto
      ultimately show "bit (a ! j) k = bit (b ! j) k"
        using \<open>?R\<close> [rule_format, of "8 * j + (7 - k)"] unfolding addr_bit_def by auto
    qed
  qed (auto simp: addr_bit_def)
  finally show ?thesis .
qed


lemma and_bytes_bit:
  assumes "length a = length m" "i < 8 * length m"
  shows "addr_bit (and_bytes a m) i \<longleftrightarrow> addr_bit a i \<and> addr_bit m i"
proof -
  from assms(2) have "i div 8 < length m" by auto
  with assms(1) show ?thesis by (simp add: addr_bit_def and_bytes_def bit_and_iff)
qed

lemma length_and_bytes [simp]: "length (and_bytes a m) = min (length a) (length m)"
  by (simp add: and_bytes_def)

lemma masked_eq_iff_prefix:
  assumes "length p = l" "length q = l" "n \<le> 8 * l" and m: "m = cidr_mask_bytes l n"
  shows "and_bytes (and_bytes p m) m = and_bytes q m \<longleftrightarrow>
    (\<forall>i < n. addr_bit p i = addr_bit q i)"
proof -
  have len: "length (and_bytes p m) = length m" "length q = length m"
    using assms by auto
  have "i < 8 * length m \<and> addr_bit m i \<longleftrightarrow> i < n" for i
    using assms(3) cidr_mask_bit [of i l n] by (auto simp: m)
  moreover have "addr_bit (and_bytes p m) i = addr_bit p i" if "i < n" for i
    using that assms cidr_mask_bit [of i l n] by (subst and_bytes_bit) auto
  ultimately show ?thesis
    unfolding and_bytes_eq_iff [OF len] by blast
qed

text \<open>
  An address lies in a network of prefix length \<open>n\<close> exactly when it has the network's
  family and agrees with it on the first \<open>n\<close> bits.
\<close>

definition v4_net :: "bytes \<Rightarrow> nat \<Rightarrow> IPNet" where
  "v4_net p n = \<lparr>net_ip = and_bytes p (cidr_mask_bytes 4 n), net_mask = cidr_mask_bytes 4 n\<rparr>"

lemma v4_net_contains:
  assumes "length p = 4" "n \<le> 32"
  shows "net_contains (v4_net p n) ip \<longleftrightarrow>
    (\<exists>q. to4 ip = Some q \<and> (\<forall>i < n. addr_bit p i = addr_bit q i))"
proof -
  let ?m = "cidr_mask_bytes 4 n"
  have nn: "network_number_and_mask (v4_net p n) = (and_bytes p ?m, ?m)"
    using assms by (simp add: network_number_and_mask_def v4_net_def to4_def Let_def)
  show ?thesis
  proof (cases "to4 ip")
    case None
    then show ?thesis
      using assms by (auto simp: net_contains_def nn to4_def split: if_splits)
  next
    case (Some q)
    then have "length q = 4" by (rule to4_length)
    then show ?thesis
      using Some assms masked_eq_iff_prefix [of p 4 q n ?m] by (simp add: net_contains_def nn)
  qed
qed

text \<open>\<open>ParseCIDR\<close> on an IPv4 prefix yields that network.\<close>

lemma index_byte_v4_slash: "index_byte (v4_string p @ CHR ''/'' # r) (CHR ''/'') = Some (length (v4_string p))"
proof -
  have "CHR ''/'' \<notin> set (v4_string p)"
  proof (induction p)
    case (Cons a p)
    then show ?case
      by (cases p) (auto simp: v4_string_def is_digit_def dest!: itoa_digits)
  qed (simp add: v4_string_def)
  then show ?thesis by simp
qed

lemma ip_mask_v4:
  "length p = 4 \<Longrightarrow> length m = 4 \<Longrightarrow> ip_mask (v4_in_v6_prefix @ p) m = and_bytes p m"
  by (simp add: ip_mask_def)

lemma parse_cidr_v4 [net_simps]:
  assumes "length p = 4" "n \<le> 32"
  shows "parse_cidr (v4_string p @ CHR ''/'' # itoa n) = Some (v4_net p n)"
proof -
  have "n < big" using assms(2) by (simp add: big_def)
  then have "dtoi (itoa n) = (n, length (itoa n), True)"
    using dtoi_itoa [of n "[]"] by simp
  with assms show ?thesis
    by (simp add: parse_cidr_def index_byte_v4_slash parse_ipv4_string ip_mask_v4 v4_net_def Let_def)
qed

end
