(* ===== verification/AppRules.thy ===== *)
theory AppRules
  imports GoNet
begin

text \<open>
  \<open>internal/app/rules.go\<close>: the domain suffix matcher, the CIDR matcher, the rule manager
  and its routing decision \<open>ShouldDirect\<close>.  The set of a matcher is a Go map with empty
  values, that is a set of strings; a reader is the text it delivers.  The mutexes make
  every operation one atomic step on its record.
\<close>

section \<open>Rule files\<close>

text \<open>One round of the loop in \<open>parseLines\<close>: the payload flag and the entry appended.\<close>

definition plain_entry :: "bool \<Rightarrow> string \<Rightarrow> string option" where
  "plain_entry inPayload line =
     (if inPayload \<and> \<not> has_prefix line ''#'' then Some line
      else if \<not> has_prefix line ''#'' \<and> \<not> has_prefix line ''payload:'' then Some line
      else None)"

definition parse_line :: "bool \<Rightarrow> string \<Rightarrow> bool \<times> string option" where
  "parse_line inPayload text =
     (let line = trim_space text in
      if line = [] then (inPayload, None)
      else if line = ''payload:'' then (True, None)
      else if has_prefix line ''- '' then
        (let line = drop 2 line; parts = splitn2 (CHR '','') line in
         case parts of
           [p0, p1] \<Rightarrow>
             (let ruleType = trim_space p0; val = trim_space p1 in
              (inPayload, if ruleType = ''DOMAIN-SUFFIX'' \<or> ruleType = ''DOMAIN''
                          then Some val else None))
         | _ \<Rightarrow> (inPayload, plain_entry inPayload line))
      else (inPayload, plain_entry inPayload line))"

fun parse_lines_loop :: "bool \<Rightarrow> string list \<Rightarrow> string list" where
  "parse_lines_loop inPayload [] = []"
| "parse_lines_loop inPayload (t # ts) =
     (case parse_line inPayload t of
        (p, None) \<Rightarrow> parse_lines_loop p ts
      | (p, Some e) \<Rightarrow> e # parse_lines_loop p ts)"

definition parseLines :: "string \<Rightarrow> string list" where
  "parseLines r = parse_lines_loop False (scan_lines r)"

section \<open>DomainMatcher\<close>

record DomainMatcher =
  dm_domains :: "string set"

definition NewDomainMatcher :: DomainMatcher where
  "NewDomainMatcher = \<lparr>dm_domains = {''.cn''}\<rparr>"

definition DomainMatcher_LoadFromReader :: "string \<Rightarrow> DomainMatcher \<Rightarrow> DomainMatcher" where
  "DomainMatcher_LoadFromReader r dm =
     dm\<lparr>dm_domains := dm_domains dm \<union> set (map (\<lambda>e. CHR ''.'' # e) (parseLines r))\<rparr>"

function domain_match_loop :: "string set \<Rightarrow> string \<Rightarrow> bool" where
  "domain_match_loop D host =
     (case index_byte host (CHR ''.'') of
        None \<Rightarrow> False
      | Some idx \<Rightarrow>
          (let host = drop (Suc idx) host in
           if CHR ''.'' # host \<in> D then True else domain_match_loop D host))"
  by pat_completeness auto
termination
  by (relation "measure (\<lambda>(D, h). length h)") (auto dest: index_byte_Some)

declare domain_match_loop.simps [simp del]

definition DomainMatcher_Match :: "DomainMatcher \<Rightarrow> string \<Rightarrow> bool" where
  "DomainMatcher_Match dm h =
     (let host = to_lower (trim_space h) in
      if CHR ''.'' # host \<in> dm_domains dm then True
      else domain_match_loop (dm_domains dm) host)"

section \<open>IPMatcher\<close>

record IPMatcher =
  im_cidrs :: "IPNet list"

definition china_blocks :: "string list" where
  "china_blocks =
    [''1.0.0.0/8'', ''14.0.0.0/8'', ''27.0.0.0/8'', ''36.0.0.0/8'',
     ''39.0.0.0/8'', ''42.0.0.0/8'', ''49.0.0.0/8'', ''58.0.0.0/8'',
     ''59.0.0.0/8'', ''60.0.0.0/8'', ''61.0.0.0/8'', ''101.0.0.0/8'',
     ''103.0.0.0/8'', ''106.0.0.0/8'', ''110.0.0.0/8'', ''111.0.0.0/8'',
     ''112.0.0.0/8'', ''113.0.0.0/8'', ''114.0.0.0/8'', ''115.0.0.0/8'',
     ''116.0.0.0/8'', ''117.0.0.0/8'', ''118.0.0.0/8'', ''119.0.0.0/8'',
     ''120.0.0.0/8'', ''121.0.0.0/8'', ''122.0.0.0/8'', ''123.0.0.0/8'',
     ''124.0.0.0/8'', ''125.0.0.0/8'', ''175.0.0.0/8'', ''180.0.0.0/8'',
     ''182.0.0.0/8'', ''183.0.0.0/8'', ''202.0.0.0/8'', ''203.0.0.0/8'',
     ''210.0.0.0/8'', ''211.0.0.0/8'', ''218.0.0.0/8'', ''219.0.0.0/8'',
     ''220.0.0.0/8'', ''221.0.0.0/8'', ''222.0.0.0/8'', ''223.0.0.0/8'']"

definition defaultChinaCIDRs :: "IPNet list" where
  "defaultChinaCIDRs = List.map_filter parse_cidr china_blocks"

definition NewIPMatcher :: IPMatcher where
  "NewIPMatcher = \<lparr>im_cidrs = defaultChinaCIDRs\<rparr>"

definition cidr_line :: "string \<Rightarrow> IPNet option" where
  "cidr_line text =
     (let line = trim_space text in
      if line = [] \<or> has_prefix line ''#'' then None
      else if contains line ''/'' then parse_cidr line
      else None)"

definition IPMatcher_LoadFromReader :: "string \<Rightarrow> IPMatcher \<Rightarrow> IPMatcher" where
  "IPMatcher_LoadFromReader r im =
     (let list = List.map_filter cidr_line (scan_lines r)
      in if list = [] then im else im\<lparr>im_cidrs := list\<rparr>)"

definition IPMatcher_Match :: "IPMatcher \<Rightarrow> bytes \<Rightarrow> bool" where
  "IPMatcher_Match im ip = list_ex (\<lambda>cidr. net_contains cidr ip) (im_cidrs im)"

section \<open>RuleManager\<close>

record RuleManager =
  rm_domains :: DomainMatcher
  rm_ips :: IPMatcher
  rm_strategy :: string

definition globalRuleManager :: RuleManager where
  "globalRuleManager =
     \<lparr>rm_domains = NewDomainMatcher, rm_ips = NewIPMatcher, rm_strategy = ''china_bypass''\<rparr>"

definition SetStrategy :: "string \<Rightarrow> RuleManager \<Rightarrow> RuleManager" where
  "SetStrategy s rm = rm\<lparr>rm_strategy := s\<rparr>"

definition GetStrategy :: "RuleManager \<Rightarrow> string" where
  "GetStrategy rm = rm_strategy rm"

definition ShouldDirect :: "RuleManager \<Rightarrow> string \<Rightarrow> bool" where
  "ShouldDirect rm hostport =
     (if rm_strategy rm \<noteq> ''china_bypass'' then False
      else
        let host = (case split_host_port hostport of Inr (h, _) \<Rightarrow> h | Inl _ \<Rightarrow> hostport) in
        case parse_ip host of
          Some ip \<Rightarrow> IPMatcher_Match (rm_ips rm) ip
        | None \<Rightarrow> DomainMatcher_Match (rm_domains rm) host)"

section \<open>Facts about the matchers\<close>

text \<open>A rule \<open>e\<close> covers a host that is \<open>e\<close> or ends in a dot and \<open>e\<close>.\<close>

definition covers :: "string \<Rightarrow> string \<Rightarrow> bool" where
  "covers e host \<longleftrightarrow> has_suffix (CHR ''.'' # host) (CHR ''.'' # e)"

lemma covers_iff: "covers e host \<longleftrightarrow> host = e \<or> (\<exists>u. host = u @ CHR ''.'' # e)"
proof -
  have "CHR ''.'' # host = t @ CHR ''.'' # e \<longleftrightarrow>
      (t = [] \<and> host = e) \<or> (\<exists>u. t = CHR ''.'' # u \<and> host = u @ CHR ''.'' # e)" for t
    by (cases t) auto
  then show ?thesis by (auto simp: covers_def has_suffix_iff)
qed

lemma covers_to_lower: "covers e (to_lower h) \<Longrightarrow> to_lower e = e"
proof -
  assume "covers e (to_lower h)"
  then have "set e \<subseteq> set (to_lower h)" by (auto simp: covers_iff)
  then have "\<forall>c \<in> set e. \<not> is_upper c" using to_lower_no_upper by blast
  then show ?thesis by (rule to_lower_id)
qed

lemma suffix_after_dot:
  assumes "c \<notin> set x"
  shows "(\<exists>u. x @ c # s = u @ c # e) \<longleftrightarrow> s = e \<or> (\<exists>u. s = u @ c # e)"
proof
  assume "\<exists>u. x @ c # s = u @ c # e"
  then obtain u where u: "x @ c # s = u @ c # e" by blast
  then show "s = e \<or> (\<exists>u. s = u @ c # e)"
  proof (cases "length u \<le> length x")
    case True
    then obtain v where "x = u @ v" and v: "v @ c # s = c # e"
      using u by (auto simp: append_eq_append_conv2)
    with assms have "v = []" by (cases v) auto
    with v show ?thesis by simp
  next
    case False
    then obtain w where "c # s = w @ c # e" "w \<noteq> []"
      using u by (auto simp: append_eq_append_conv2)
    then show ?thesis by (cases w) auto
  qed
next
  assume "s = e \<or> (\<exists>u. s = u @ c # e)"
  then show "\<exists>u. x @ c # s = u @ c # e"
  proof
    assume "\<exists>u. s = u @ c # e"
    then obtain u where "s = u @ c # e" by blast
    then have "x @ c # s = (x @ c # u) @ c # e" by simp
    then show ?thesis by blast
  qed blast
qed

lemma domain_match_loop_iff:
  "domain_match_loop D host \<longleftrightarrow>
     (\<exists>e. CHR ''.'' # e \<in> D \<and> (\<exists>u. host = u @ CHR ''.'' # e))"
proof (induction D host rule: domain_match_loop.induct)
  case (1 D host)
  show ?case
  proof (cases "index_byte host (CHR ''.'')")
    case None
    then have "\<not> domain_match_loop D host"
      by (subst domain_match_loop.simps) (simp only: option.case not_False_eq_True)
    with None show ?thesis by auto
  next
    case (Some i)
    define x s where "x = take i host" and "s = drop (Suc i) host"
    have host: "host = x @ CHR ''.'' # s" and x: "CHR ''.'' \<notin> set x"
      using index_byte_Some [OF Some] by (simp_all add: x_def s_def)
    have "domain_match_loop D host \<longleftrightarrow> CHR ''.'' # s \<in> D \<or> domain_match_loop D s"
      using Some by (simp add: domain_match_loop.simps [of D host] s_def Let_def)
    also have "\<dots> \<longleftrightarrow> (\<exists>e. CHR ''.'' # e \<in> D \<and> (s = e \<or> (\<exists>u. s = u @ CHR ''.'' # e)))"
    proof (cases "CHR ''.'' # s \<in> D")
      case False
      then have "domain_match_loop D s \<longleftrightarrow>
          (\<exists>e. CHR ''.'' # e \<in> D \<and> (\<exists>u. s = u @ CHR ''.'' # e))"
        using 1 Some unfolding s_def by blast
      with False show ?thesis by blast
    qed blast
    also have "\<dots> \<longleftrightarrow> (\<exists>e. CHR ''.'' # e \<in> D \<and> (\<exists>u. host = u @ CHR ''.'' # e))"
      unfolding host suffix_after_dot [OF x] ..
    finally show ?thesis .
  qed
qed

lemma DomainMatcher_Match_iff:
  "DomainMatcher_Match dm h \<longleftrightarrow>
     (\<exists>e. CHR ''.'' # e \<in> dm_domains dm \<and> covers e (to_lower (trim_space h)))"
  by (auto simp: DomainMatcher_Match_def Let_def domain_match_loop_iff covers_iff)

lemma DomainMatcher_Match_load:
  "DomainMatcher_Match (DomainMatcher_LoadFromReader r dm) h \<longleftrightarrow>
     DomainMatcher_Match dm h \<or>
     (\<exists>e \<in> set (parseLines r). covers e (to_lower (trim_space h)))"
  by (auto simp: DomainMatcher_Match_iff DomainMatcher_LoadFromReader_def)

section \<open>The built-in networks\<close>

text \<open>The first octets of the built-in networks, all of prefix length 8.\<close>

definition china_octets :: "nat list" where
  "china_octets = [1, 14, 27, 36, 39, 42, 49, 58, 59, 60, 61, 101, 103, 106] @ [110..<126] @
     [175, 180, 182, 183, 202, 203, 210, 211, 218, 219, 220, 221, 222, 223]"

lemma china_blocks_octets: "china_blocks = map (\<lambda>k. itoa k @ ''.0.0.0/8'') china_octets"
  by code_simp

lemma china_octets_small: "k \<in> set china_octets \<Longrightarrow> k < 256"
  by (auto simp: china_octets_def)

lemma parse_block:
  assumes "k < 256"
  shows "parse_cidr (itoa k @ ''.0.0.0/8'') = Some (v4_net [of_nat k, 0, 0, 0] 8)"
proof -
  have "unat (of_nat k :: byte) = k" using assms by (simp add: unat_of_nat)
  moreover have "itoa 0 = ''0''" "itoa 8 = ''8''" by code_simp+
  ultimately have "v4_string [of_nat k, 0, 0, 0] @ CHR ''/'' # itoa 8 = itoa k @ ''.0.0.0/8''"
    by (simp add: v4_string_def)
  then show ?thesis
    using parse_cidr_v4 [of "[of_nat k, 0, 0, 0]" 8] by simp
qed

lemma defaultChinaCIDRs_eq:
  "defaultChinaCIDRs = map (\<lambda>k. v4_net [of_nat k, 0, 0, 0] 8) china_octets"
proof -
  have "List.map_filter parse_cidr (map (\<lambda>k. itoa k @ ''.0.0.0/8'') ks) =
      map (\<lambda>k. v4_net [of_nat k, 0, 0, 0] 8) ks" if "\<forall>k \<in> set ks. k < 256" for ks
    using that by (induction ks) (simp_all add: parse_block List.map_filter_def)
  then show ?thesis
    using china_octets_small by (simp add: defaultChinaCIDRs_def china_blocks_octets)
qed

lemma first_octet_bits: "(\<forall>i < 8. addr_bit (a # p) i = addr_bit (b # q) i) \<longleftrightarrow> a = b"
proof
  assume h: "\<forall>i < 8. addr_bit (a # p) i = addr_bit (b # q) i"
  show "a = b"
  proof (rule bit_eqI)
    fix n assume "possible_bit TYPE(byte) n"
    then have "n < 8" by (simp add: possible_bit_word)
    then show "bit a n = bit b n"
      using h [rule_format, of "7 - n"] by (simp add: addr_bit_def)
  qed
qed (simp add: addr_bit_def)

lemma NewIPMatcher_Match_iff:
  "IPMatcher_Match NewIPMatcher ip \<longleftrightarrow>
     (\<exists>q. to4 ip = Some q \<and> unat (hd q) \<in> set china_octets)"
proof -
  have "net_contains (v4_net [of_nat k, 0, 0, 0] 8) ip \<longleftrightarrow>
      (\<exists>q. to4 ip = Some q \<and> unat (hd q) = k)" if k: "k < 256" for k
  proof -
    have "(\<forall>i < 8. addr_bit [of_nat k, 0, 0, 0] i = addr_bit q i) \<longleftrightarrow> unat (hd q) = k"
      if ip: "to4 ip = Some q" for q
    proof -
      obtain a r where "q = a # r" using to4_length [OF ip] by (cases q) auto
      moreover have "of_nat k = a \<longleftrightarrow> unat a = k"
        using k by (auto simp: unat_of_nat)
      ultimately show ?thesis by (simp add: first_octet_bits)
    qed
    then show ?thesis by (auto simp: v4_net_contains)
  qed
  then show ?thesis
    using china_octets_small
    by (auto simp: IPMatcher_Match_def NewIPMatcher_def defaultChinaCIDRs_eq list_ex_iff)
qed

lemma IPMatcher_load_nonempty:
  "im_cidrs im \<noteq> [] \<Longrightarrow> im_cidrs (IPMatcher_LoadFromReader r im) \<noteq> []"
  by (simp add: IPMatcher_LoadFromReader_def Let_def)

section \<open>The routing decision\<close>

text \<open>What the strategy promises for a host, without its port.\<close>

definition direct_host :: "RuleManager \<Rightarrow> string \<Rightarrow> bool" where
  "direct_host rm host \<longleftrightarrow> rm_strategy rm = ''china_bypass'' \<and>
     (case parse_ip host of
        Some ip \<Rightarrow> (\<exists>cidr \<in> set (im_cidrs (rm_ips rm)). net_contains cidr ip)
      | None \<Rightarrow> (\<exists>e. CHR ''.'' # e \<in> dm_domains (rm_domains rm) \<and>
                    covers e (to_lower (trim_space host))))"

lemma ShouldDirect_split:
  "split_host_port hp = Inr (h, p) \<Longrightarrow> ShouldDirect rm hp = direct_host rm h"
  by (auto simp: ShouldDirect_def direct_host_def IPMatcher_Match_def list_ex_iff
      DomainMatcher_Match_iff split: option.splits)

text \<open>
  C3. The routing decision taken on an address built by \<open>net.JoinHostPort\<close> is the
  decision for its host: under \<open>china_bypass\<close> an IP literal goes direct exactly when a
  loaded network contains it, any other host exactly when a loaded entry is the host or a
  dot-separated suffix of it (letter case aside); under any other strategy nothing does.
\<close>

theorem ShouldDirect_join:
  assumes "CHR ''['' \<notin> set h" "CHR '']'' \<notin> set h"
    and "CHR '':'' \<notin> set p" "CHR ''['' \<notin> set p" "CHR '']'' \<notin> set p"
  shows "ShouldDirect rm (join_host_port h p) = direct_host rm h"
  using assms by (intro ShouldDirect_split [where p = p]) (rule split_join_host_port)

theorem ShouldDirect_join_witness:
  "ShouldDirect globalRuleManager (join_host_port ''WWW.Baidu.CN'' ''443'') \<and>
   \<not> ShouldDirect globalRuleManager (join_host_port ''example.com'' ''443'')"
proof -
  have parse: "parse_ip ''WWW.Baidu.CN'' = None" "parse_ip ''example.com'' = None"
    by code_simp+
  have low: "to_lower (trim_space ''WWW.Baidu.CN'') = ''www.baidu.cn''"
    "to_lower (trim_space ''example.com'') = ''example.com''"
    by code_simp+
  have "covers ''cn'' ''www.baidu.cn''" "\<not> covers ''cn'' ''example.com''"
    by code_simp+
  then have "direct_host globalRuleManager ''WWW.Baidu.CN''"
    "\<not> direct_host globalRuleManager ''example.com''"
    by (simp_all add: direct_host_def globalRuleManager_def NewDomainMatcher_def parse low)
  then show ?thesis
    using ShouldDirect_join [of "''WWW.Baidu.CN''" "''443''" globalRuleManager]
      ShouldDirect_join [of "''example.com''" "''443''" globalRuleManager] by simp
qed

text \<open>
  Loading a rule file adds to the hosts the matcher accepts exactly those one of the
  file's entries covers, and no host accepted before is lost.
\<close>

theorem DomainMatcher_load_spec:
  "DomainMatcher_Match (DomainMatcher_LoadFromReader r dm) h =
     (DomainMatcher_Match dm h \<or> (\<exists>e \<in> set (parseLines r). covers e (to_lower (trim_space h))))"
  by (rule DomainMatcher_Match_load)

text \<open>
  The host is lower-cased before the lookup and the entries of a rule file are not: an
  entry with an upper-case letter has no effect on any host.
\<close>

lemma uppercase_entry_inert:
  assumes "c \<in> set e" and "is_upper c"
  shows "DomainMatcher_Match (dm\<lparr>dm_domains := insert (CHR ''.'' # e) (dm_domains dm)\<rparr>) h
       = DomainMatcher_Match dm h"
proof -
  have "\<not> covers e (to_lower h)" for h
  proof
    assume "covers e (to_lower h)"
    then have "to_lower e = e" by (rule covers_to_lower)
    with assms show False by (metis to_lower_no_upper)
  qed
  then show ?thesis by (auto simp: DomainMatcher_Match_iff)
qed

lemma uppercase_entry_inert_witness:
  "DomainMatcher_Match (NewDomainMatcher\<lparr>dm_domains := insert ''.Example.com'' (dm_domains NewDomainMatcher)\<rparr>) ''Example.com''
     = DomainMatcher_Match NewDomainMatcher ''Example.com''"
  using uppercase_entry_inert [of "CHR ''E''" "''Example.com''" NewDomainMatcher "''Example.com''"]
  by (simp add: is_upper_def)

text \<open>
  All 44 built-in blocks parse, and a new address matcher accepts exactly the IPv4
  addresses (also in their IPv6-mapped form) whose first octet is one of the 44.
\<close>

theorem NewIPMatcher_spec:
  "length (im_cidrs NewIPMatcher) = 44 \<and>
   IPMatcher_Match NewIPMatcher ip =
     (\<exists>q. to4 ip = Some q \<and> unat (hd q) \<in> set china_octets)"
  using NewIPMatcher_Match_iff [of ip]
  by (simp add: NewIPMatcher_def defaultChinaCIDRs_eq china_octets_def)

section \<open>Rule files the parser accepts\<close>

definition unlines :: "string list \<Rightarrow> string" where
  "unlines ls = concat (map (\<lambda>l. l @ [CHR 0x0A]) ls)"

lemma split_unlines: "(\<And>l. l \<in> set ls \<Longrightarrow> CHR 0x0A \<notin> set l) \<Longrightarrow> split_on (CHR 0x0A) (unlines ls) = ls @ [[]]"
  by (induction ls) (auto simp: unlines_def split_on_append_sep)

lemma scan_unlines:
  assumes "\<And>l. l \<in> set ls \<Longrightarrow> CHR 0x0A \<notin> set l \<and> CHR 0x0D \<notin> set l \<and> length l < 65536"
  shows "scan_lines (unlines ls) = ls"
proof -
  have "raw_lines (unlines ls) = ls"
    using assms by (simp add: raw_lines_def split_unlines)
  moreover have "takeWhile (\<lambda>l. length l < 65536) ls = ls" using assms by simp
  moreover have "map drop_cr ls = ls"
    using assms last_in_set by (intro map_idI) (fastforce simp: drop_cr_def)
  ultimately show ?thesis by (simp only: scan_lines_def)
qed

text \<open>An entry that no special form of the file format captures.\<close>

definition plain_rule :: "string \<Rightarrow> bool" where
  "plain_rule d \<longleftrightarrow> d \<noteq> [] \<and> list_all (\<lambda>c. \<not> is_space c) d \<and>
     \<not> has_prefix d ''#'' \<and> \<not> has_prefix d ''payload:'' \<and> length d < 65000"

lemma plain_rule_trim: "plain_rule d \<Longrightarrow> trim_space d = d"
  by (intro trim_space_id) (auto simp: plain_rule_def list_all_iff)

lemma plain_rule_line: "plain_rule d \<Longrightarrow> parse_line p d = (p, Some d)"
proof -
  assume d: "plain_rule d"
  then have "\<not> has_prefix d ''- ''"
    by (auto simp: plain_rule_def has_prefix_iff is_space_def)
  moreover have "d \<noteq> ''payload:''" using d by (auto simp: plain_rule_def has_prefix_def)
  ultimately show ?thesis
    using d plain_rule_trim [OF d] by (auto simp: parse_line_def plain_entry_def plain_rule_def Let_def)
qed

definition suffix_rule_line :: "string \<Rightarrow> string" where
  "suffix_rule_line d = ''  - DOMAIN-SUFFIX,'' @ d"

lemma suffix_rule_parse: "plain_rule d \<Longrightarrow> parse_line p (suffix_rule_line d) = (p, Some d)"
proof -
  assume d: "plain_rule d"
  then have "\<not> is_space (last d)" "d \<noteq> []" by (auto simp: plain_rule_def list_all_iff)
  then have t: "trim_space (suffix_rule_line d) = ''- DOMAIN-SUFFIX,'' @ d"
    by (simp add: trim_space_def trim_left_def suffix_rule_line_def is_space_def dropWhile_eq_self_iff hd_rev)
  have "splitn2 (CHR '','') (''DOMAIN-SUFFIX,'' @ d) = [''DOMAIN-SUFFIX'', d]"
    by (simp add: splitn2_def)
  moreover have "trim_space ''DOMAIN-SUFFIX'' = ''DOMAIN-SUFFIX''" by code_simp
  ultimately show ?thesis
    using plain_rule_trim [OF d] by (simp add: parse_line_def t has_prefix_def)
qed

lemma parse_lines_loop_map:
  "(\<And>d. d \<in> set ds \<Longrightarrow> parse_line p (f d) = (p, Some d)) \<Longrightarrow> parse_lines_loop p (map f ds) = ds"
  by (induction ds) auto

lemma plain_rule_no_eol: "plain_rule d \<Longrightarrow> CHR 0x0A \<notin> set d \<and> CHR 0x0D \<notin> set d \<and> length d < 65000"
  by (auto simp: plain_rule_def list_all_iff is_space_def)

text \<open>
  Both file forms deliver the listed domains unchanged and in order: one domain per
  line, and the Clash payload form with a \<open>DOMAIN-SUFFIX\<close> rule per line under the header.
\<close>

theorem parseLines_roundtrip:
  assumes "\<And>d. d \<in> set ds \<Longrightarrow> plain_rule d"
  shows "parseLines (unlines ds) = ds \<and>
    parseLines (unlines (''payload:'' # map suffix_rule_line ds)) = ds"
proof
  have "scan_lines (unlines ds) = ds"
    using assms plain_rule_no_eol by (intro scan_unlines) force
  then show "parseLines (unlines ds) = ds"
    using parse_lines_loop_map [of ds False "\<lambda>d. d"] assms
    by (simp add: parseLines_def plain_rule_line)
  let ?ls = "''payload:'' # map suffix_rule_line ds"
  have "scan_lines (unlines ?ls) = ?ls"
    using assms plain_rule_no_eol by (intro scan_unlines) (force simp: suffix_rule_line_def)
  moreover have "parse_line False ''payload:'' = (True, None)" by code_simp
  ultimately show "parseLines (unlines ?ls) = ds"
    using parse_lines_loop_map [of ds True suffix_rule_line] assms
    by (simp add: parseLines_def suffix_rule_parse)
qed

theorem parseLines_roundtrip_witness:
  "parseLines (unlines [''qq.com'', ''baidu.com'']) = [''qq.com'', ''baidu.com'']"
proof -
  have "plain_rule ''qq.com''" "plain_rule ''baidu.com''"
    by (simp_all add: plain_rule_def is_space_def has_prefix_def)
  then show ?thesis
    using parseLines_roundtrip [of "[''qq.com'', ''baidu.com'']"] by auto
qed

end
