(* ===== verification/ClashConstant.thy ===== *)
theory ClashConstant
  imports GoNet
begin

text \<open>
  The vocabulary of the embedded clash library: \<open>constant/metadata.go\<close>,
  \<open>constant/dns.go\<close>, \<open>constant/rule.go\<close>, \<open>constant/adapters.go\<close> (the type tags and
  chains), \<open>tunnel/mode.go\<close> and \<open>log/level.go\<close>.  The integer-valued enumerations have a
  last constructor for the values outside the named ones, the source's \<open>default\<close>
  branches.  The locale \<open>enum_text\<close> is the contract their name tables share.
\<close>

section \<open>Enumerations with names\<close>

datatype DNSMode = DNSNormal | DNSFakeIP | DNSMapping | DNSModeOther int

fun DNSMode_String :: "DNSMode \<Rightarrow> string" where
  "DNSMode_String DNSNormal = ''normal''"
| "DNSMode_String DNSFakeIP = ''fake-ip''"
| "DNSMode_String DNSMapping = ''redir-host''"
| "DNSMode_String (DNSModeOther _) = ''unknown''"

definition DNSModeMapping :: "string \<rightharpoonup> DNSMode" where
  "DNSModeMapping = map_of (map (\<lambda>m. (DNSMode_String m, m)) [DNSNormal, DNSFakeIP, DNSMapping])"

text \<open>The decoder argument is what decoding into a string gave: an error or the text.\<close>

definition DNSMode_UnmarshalYAML :: "string + string \<Rightarrow> DNSMode \<Rightarrow> string option \<times> DNSMode" where
  "DNSMode_UnmarshalYAML dec e =
     (case dec of
        Inl err \<Rightarrow> (Some err, e)
      | Inr tp \<Rightarrow> (case DNSModeMapping tp of None \<Rightarrow> (Some ''invalid mode'', e) | Some m \<Rightarrow> (None, m)))"

definition DNSMode_MarshalYAML :: "DNSMode \<Rightarrow> string" where
  "DNSMode_MarshalYAML e = DNSMode_String e"

text \<open>Here the decoding error is dropped, and the text stays empty on an error.\<close>

definition DNSMode_UnmarshalJSON :: "string + string \<Rightarrow> DNSMode \<Rightarrow> string option \<times> DNSMode" where
  "DNSMode_UnmarshalJSON dec e =
     (let tp = (case dec of Inl _ \<Rightarrow> [] | Inr t \<Rightarrow> t)
      in case DNSModeMapping tp of None \<Rightarrow> (Some ''invalid mode'', e) | Some m \<Rightarrow> (None, m))"

datatype TunnelMode = Global | Rule | Direct | TunnelModeOther int

fun TunnelMode_String :: "TunnelMode \<Rightarrow> string" where
  "TunnelMode_String Global = ''global''"
| "TunnelMode_String Rule = ''rule''"
| "TunnelMode_String Direct = ''direct''"
| "TunnelMode_String (TunnelModeOther _) = ''Unknown''"

definition ModeMapping :: "string \<rightharpoonup> TunnelMode" where
  "ModeMapping = map_of (map (\<lambda>m. (TunnelMode_String m, m)) [Global, Rule, Direct])"

definition TunnelMode_Unmarshal :: "string + string \<Rightarrow> TunnelMode \<Rightarrow> string option \<times> TunnelMode" where
  "TunnelMode_Unmarshal dec m =
     (let tp = (case dec of Inl _ \<Rightarrow> [] | Inr t \<Rightarrow> t)
      in case ModeMapping (to_lower tp) of None \<Rightarrow> (Some ''invalid mode'', m) | Some v \<Rightarrow> (None, v))"

datatype LogLevel = DEBUG | INFO | WARNING | ERROR | SILENT | LogLevelOther int

fun LogLevel_String :: "LogLevel \<Rightarrow> string" where
  "LogLevel_String INFO = ''info''"
| "LogLevel_String WARNING = ''warning''"
| "LogLevel_String ERROR = ''error''"
| "LogLevel_String DEBUG = ''debug''"
| "LogLevel_String SILENT = ''silent''"
| "LogLevel_String (LogLevelOther _) = ''unknown''"

definition LogLevelMapping :: "string \<rightharpoonup> LogLevel" where
  "LogLevelMapping =
     map_of (map (\<lambda>l. (LogLevel_String l, l)) [ERROR, WARNING, INFO, DEBUG, SILENT])"

definition LogLevel_Unmarshal :: "string + string \<Rightarrow> LogLevel \<Rightarrow> string option \<times> LogLevel" where
  "LogLevel_Unmarshal dec l =
     (let tp = (case dec of Inl _ \<Rightarrow> [] | Inr t \<Rightarrow> t)
      in case LogLevelMapping tp of None \<Rightarrow> (Some ''invalid mode'', l) | Some v \<Rightarrow> (None, v))"

text \<open>
  A name table built from the \<open>String\<close> method of a list of values: distinct names make
  it the inverse of \<open>String\<close> on those values; \<open>norm\<close> is what a decoder applies to the
  text before the lookup.
\<close>

locale enum_text =
  fixes str :: "'e \<Rightarrow> string" and vals :: "'e list" and norm :: "string \<Rightarrow> string"
  assumes names_distinct: "distinct (map str vals)"
    and norm_name: "v \<in> set vals \<Longrightarrow> norm (str v) = str v"
begin

lemma lookup_name:
  assumes "v \<in> set vals"
  shows "map_of (map (\<lambda>v. (str v, v)) vals) (norm (str v)) = Some v"
proof -
  have "distinct (map fst (map (\<lambda>v. (str v, v)) vals))"
    using names_distinct by (simp add: o_def)
  moreover have "(str v, v) \<in> set (map (\<lambda>v. (str v, v)) vals)" using assms by auto
  ultimately show ?thesis using assms by (simp add: norm_name map_of_eq_Some_iff)
qed

lemma lookup_sound:
  "map_of (map (\<lambda>v. (str v, v)) vals) s = Some v \<Longrightarrow> v \<in> set vals \<and> str v = s"
  by (drule map_of_SomeD) auto

lemma lookup_iff:
  "map_of (map (\<lambda>v. (str v, v)) vals) s = Some v \<longleftrightarrow> v \<in> set vals \<and> str v = s"
  using lookup_sound lookup_name norm_name by metis

end

interpretation dns_mode: enum_text DNSMode_String "[DNSNormal, DNSFakeIP, DNSMapping]" "\<lambda>s. s"
  by unfold_locales auto

interpretation tunnel_mode: enum_text TunnelMode_String "[Global, Rule, Direct]" to_lower
  by unfold_locales (auto simp: to_lower_def lower_char_def)

interpretation log_level: enum_text LogLevel_String "[ERROR, WARNING, INFO, DEBUG, SILENT]" "\<lambda>s. s"
  by unfold_locales auto

text \<open>The order of the levels is that of their integer values.\<close>

fun LogLevel_int :: "LogLevel \<Rightarrow> int" where
  "LogLevel_int DEBUG = 0"
| "LogLevel_int INFO = 1"
| "LogLevel_int WARNING = 2"
| "LogLevel_int ERROR = 3"
| "LogLevel_int SILENT = 4"
| "LogLevel_int (LogLevelOther n) = n"

instantiation LogLevel :: preorder
begin

definition less_eq_LogLevel :: "LogLevel \<Rightarrow> LogLevel \<Rightarrow> bool" where
  "less_eq_LogLevel a b \<longleftrightarrow> LogLevel_int a \<le> LogLevel_int b"

definition less_LogLevel :: "LogLevel \<Rightarrow> LogLevel \<Rightarrow> bool" where
  "less_LogLevel a b \<longleftrightarrow> LogLevel_int a < LogLevel_int b"

instance
  by standard (auto simp: less_eq_LogLevel_def less_LogLevel_def)

end

section \<open>Rule and adapter tags\<close>

datatype RuleType =
    RT_Domain | RT_DomainSuffix | RT_DomainKeyword | RT_GEOIP | RT_IPCIDR | RT_SrcIPCIDR
  | RT_SrcPort | RT_DstPort | RT_Process | RT_MATCH | RT_Other int

fun RuleType_String :: "RuleType \<Rightarrow> string" where
  "RuleType_String RT_Domain = ''Domain''"
| "RuleType_String RT_DomainSuffix = ''DomainSuffix''"
| "RuleType_String RT_DomainKeyword = ''DomainKeyword''"
| "RuleType_String RT_GEOIP = ''GeoIP''"
| "RuleType_String RT_IPCIDR = ''IPCIDR''"
| "RuleType_String RT_SrcIPCIDR = ''SrcIPCIDR''"
| "RuleType_String RT_SrcPort = ''SrcPort''"
| "RuleType_String RT_DstPort = ''DstPort''"
| "RuleType_String RT_Process = ''Process''"
| "RuleType_String RT_MATCH = ''Match''"
| "RuleType_String (RT_Other _) = ''Unknown''"

datatype AdapterType =
    AT_Direct | AT_Reject
  | AT_Shadowsocks | AT_ShadowsocksR | AT_Snell | AT_Socks5 | AT_Http | AT_Vmess | AT_Trojan
  | AT_Relay | AT_Selector | AT_Fallback | AT_URLTest | AT_LoadBalance
  | AT_Other int

fun AdapterType_String :: "AdapterType \<Rightarrow> string" where
  "AdapterType_String AT_Direct = ''Direct''"
| "AdapterType_String AT_Reject = ''Reject''"
| "AdapterType_String AT_Shadowsocks = ''Shadowsocks''"
| "AdapterType_String AT_ShadowsocksR = ''ShadowsocksR''"
| "AdapterType_String AT_Snell = ''Snell''"
| "AdapterType_String AT_Socks5 = ''Socks5''"
| "AdapterType_String AT_Http = ''Http''"
| "AdapterType_String AT_Vmess = ''Vmess''"
| "AdapterType_String AT_Trojan = ''Trojan''"
| "AdapterType_String AT_Relay = ''Relay''"
| "AdapterType_String AT_Selector = ''Selector''"
| "AdapterType_String AT_Fallback = ''Fallback''"
| "AdapterType_String AT_URLTest = ''URLTest''"
| "AdapterType_String AT_LoadBalance = ''LoadBalance''"
| "AdapterType_String (AT_Other _) = ''Unknown''"

type_synonym Chain = "string list"

definition Chain_String :: "Chain \<Rightarrow> string" where
  "Chain_String c =
     (case c of
        [] \<Rightarrow> []
      | [x] \<Rightarrow> x
      | x # _ \<Rightarrow> last c @ ''['' @ x @ '']'')"

definition Chain_Last :: "Chain \<Rightarrow> string" where
  "Chain_Last c = (case c of [] \<Rightarrow> [] | x # _ \<Rightarrow> x)"

section \<open>Metadata\<close>

text \<open>
  The constants of the first block of \<open>metadata.go\<close>: \<open>iota\<close> counts the lines of the whole
  block, so \<open>TCP\<close> is 3 and \<open>HTTP\<close> is 5.
\<close>

abbreviation (input) AtypIPv4 :: int where "AtypIPv4 \<equiv> 1"
abbreviation (input) AtypDomainName :: int where "AtypDomainName \<equiv> 3"
abbreviation (input) AtypIPv6 :: int where "AtypIPv6 \<equiv> 4"
abbreviation (input) TCP :: int where "TCP \<equiv> 3"
abbreviation (input) UDP :: int where "UDP \<equiv> 4"

definition NetWork_String :: "int \<Rightarrow> string" where
  "NetWork_String n = (if n = TCP then ''tcp'' else ''udp'')"

definition Type_String :: "int \<Rightarrow> string" where
  "Type_String t =
     (if t = 5 then ''HTTP'' else if t = 6 then ''HTTP Connect'' else if t = 7 then ''Socks4''
      else if t = 8 then ''Socks5'' else if t = 9 then ''Redir'' else if t = 10 then ''TProxy''
      else ''Unknown'')"

record Metadata =
  md_NetWork :: int
  md_Type :: int
  md_SrcIP :: "bytes option"
  md_DstIP :: "bytes option"
  md_SrcPort :: string
  md_DstPort :: string
  md_AddrType :: int
  md_Host :: string
  md_DNSMode :: DNSMode

definition zero_metadata :: Metadata where
  "zero_metadata =
     \<lparr>md_NetWork = 0, md_Type = 0, md_SrcIP = None, md_DstIP = None, md_SrcPort = [],
      md_DstPort = [], md_AddrType = 0, md_Host = [], md_DNSMode = DNSNormal\<rparr>"

definition nil_ip_string :: "bytes option \<Rightarrow> string" where
  "nil_ip_string ip = (case ip of None \<Rightarrow> ''<nil>'' | Some b \<Rightarrow> ip_string b)"

definition Metadata_String :: "Metadata \<Rightarrow> string" where
  "Metadata_String m =
     (if md_Host m \<noteq> [] then md_Host m
      else case md_DstIP m of Some ip \<Rightarrow> ip_string ip | None \<Rightarrow> ''<nil>'')"

definition RemoteAddress :: "Metadata \<Rightarrow> string" where
  "RemoteAddress m = join_host_port (Metadata_String m) (md_DstPort m)"

definition SourceAddress :: "Metadata \<Rightarrow> string" where
  "SourceAddress m = join_host_port (nil_ip_string (md_SrcIP m)) (md_SrcPort m)"

definition Resolved :: "Metadata \<Rightarrow> bool" where
  "Resolved m \<longleftrightarrow> md_DstIP m \<noteq> None"

definition Pure :: "Metadata \<Rightarrow> Metadata" where
  "Pure m =
     (case md_DstIP m of
        Some ip \<Rightarrow>
          (if md_DNSMode m = DNSMapping then
             (let c = m\<lparr>md_Host := []\<rparr> in
              if to4 ip \<noteq> None then c\<lparr>md_AddrType := AtypIPv4\<rparr>
              else c\<lparr>md_AddrType := AtypIPv6\<rparr>)
           else m)
      | None \<Rightarrow> m)"

record UDPAddr =
  ua_IP :: bytes
  ua_Port :: int

definition Metadata_UDPAddr :: "Metadata \<Rightarrow> UDPAddr option" where
  "Metadata_UDPAddr m =
     (case md_DstIP m of
        None \<Rightarrow> None
      | Some ip \<Rightarrow>
          (if md_NetWork m \<noteq> UDP then None
           else Some \<lparr>ua_IP = ip, ua_Port = fst (parse_int 16 (md_DstPort m))\<rparr>))"

definition Valid :: "Metadata \<Rightarrow> bool" where
  "Valid m \<longleftrightarrow> md_Host m \<noteq> [] \<or> md_DstIP m \<noteq> None"

section \<open>Properties\<close>

text \<open>
  The texts of the three configuration enumerations decode to what they were made
  from, the tunnel mode also in any letter case, and a text that is no name is an error
  that leaves the previous value in place.
\<close>

lemma enum_texts_roundtrip:
  "(m \<in> {DNSNormal, DNSFakeIP, DNSMapping} \<longrightarrow>
      DNSMode_UnmarshalYAML (Inr (DNSMode_MarshalYAML m)) d = (None, m)) \<and>
   (t \<in> {Global, Rule, Direct} \<and> to_lower s = TunnelMode_String t \<longrightarrow> TunnelMode_Unmarshal (Inr s) u = (None, t)) \<and>
   (l \<in> {DEBUG, INFO, WARNING, ERROR, SILENT} \<longrightarrow> LogLevel_Unmarshal (Inr (LogLevel_String l)) k = (None, l)) \<and>
   (x \<notin> DNSMode_String ` {DNSNormal, DNSFakeIP, DNSMapping} \<longrightarrow>
      DNSMode_UnmarshalYAML (Inr x) d = (Some ''invalid mode'', d))"
proof (intro conjI impI)
  show "DNSMode_UnmarshalYAML (Inr (DNSMode_MarshalYAML m)) d = (None, m)"
    if "m \<in> {DNSNormal, DNSFakeIP, DNSMapping}"
    using dns_mode.lookup_name [of m] that
    by (simp add: DNSMode_UnmarshalYAML_def DNSMode_MarshalYAML_def DNSModeMapping_def del: list.map map_of.simps)
  show "TunnelMode_Unmarshal (Inr s) u = (None, t)"
    if "t \<in> {Global, Rule, Direct} \<and> to_lower s = TunnelMode_String t"
    using tunnel_mode.lookup_iff [of "to_lower s" t] that
    by (simp add: TunnelMode_Unmarshal_def ModeMapping_def Let_def del: list.map map_of.simps)
  show "LogLevel_Unmarshal (Inr (LogLevel_String l)) k = (None, l)"
    if "l \<in> {DEBUG, INFO, WARNING, ERROR, SILENT}"
    using log_level.lookup_name [of l] that
    by (simp add: LogLevel_Unmarshal_def LogLevelMapping_def Let_def insert_commute del: list.map map_of.simps)
  show "DNSMode_UnmarshalYAML (Inr x) d = (Some ''invalid mode'', d)"
    if "x \<notin> DNSMode_String ` {DNSNormal, DNSFakeIP, DNSMapping}"
  proof -
    have "DNSModeMapping x = None"
      using dns_mode.lookup_sound [of x] that unfolding DNSModeMapping_def
      by (cases "map_of (map (\<lambda>m. (DNSMode_String m, m)) [DNSNormal, DNSFakeIP, DNSMapping]) x")
         (auto simp del: list.map map_of.simps)
    then show ?thesis by (simp add: DNSMode_UnmarshalYAML_def)
  qed
qed

lemma enum_texts_roundtrip_witness:
  "TunnelMode_Unmarshal (Inr ''RULE'') Global = (None, Rule) \<and>
   DNSMode_UnmarshalYAML (Inr ''fakeip'') DNSNormal = (Some ''invalid mode'', DNSNormal)"
proof -
  have "to_lower ''RULE'' = TunnelMode_String Rule" by code_simp
  then show ?thesis
    using enum_texts_roundtrip [of DNSNormal DNSNormal Rule "''RULE''" Global INFO DEBUG "''fakeip''"] by simp
qed

lemma itoa_no_sign: "hd (itoa n) \<noteq> CHR ''-'' \<and> hd (itoa n) \<noteq> CHR ''+''"
proof -
  have "hd (itoa n) \<in> set (itoa n)" by simp
  then have "is_digit (hd (itoa n))" by (rule itoa_digits)
  then show ?thesis by (auto simp: is_digit_def)
qed

lemma parse_int_itoa:
  assumes "n < 2 ^ bits" "0 < bits"
  shows "fst (parse_int bits (itoa n)) = min (int n) (2 ^ (bits - 1) - 1)"
  using assms itoa_no_sign [of n]
  by (auto simp: parse_int_def Let_def parse_uint_itoa min_def not_le of_nat_less_iff [symmetric]
      simp del: of_nat_less_iff)

text \<open>
  The UDP address made from metadata has the destination address, but not always the
  destination port: the port is parsed as a signed 16-bit number and the range error is
  dropped, so every port from 32768 on becomes 32767.
\<close>

lemma UDPAddr_port_clamped:
  assumes "md_NetWork m = UDP" "md_DstIP m = Some ip" "md_DstPort m = itoa port" "port < 65536"
  shows "Metadata_UDPAddr m = Some \<lparr>ua_IP = ip, ua_Port = min (int port) 32767\<rparr>"
  using assms parse_int_itoa [of port 16] by (simp add: Metadata_UDPAddr_def)

lemma UDPAddr_port_clamped_witness:
  "map_option ua_Port (Metadata_UDPAddr (zero_metadata\<lparr>md_NetWork := UDP, md_DstIP := Some [10, 0, 0, 1],
     md_DstPort := itoa 51820\<rparr>)) = Some 32767"
  using UDPAddr_port_clamped [of "zero_metadata\<lparr>md_NetWork := UDP, md_DstIP := Some [10, 0, 0, 1],
     md_DstPort := itoa 51820\<rparr>" "[10, 0, 0, 1]" 51820] by simp

end
