(* ===== verification/AppEnv.thy ===== *)
theory AppEnv
  imports Complex_Main AppConfig AppRules ClashConstant
begin

text \<open>
  The state the packages \<open>internal/app\<close>, \<open>internal/cache\<close> and \<open>api\<close> share, and the
  environment they run in.  The environment collects what is not code of this repository:
  the packages \<open>proxypool/pkg/proxy\<close>, \<open>pkg/healthcheck\<close> and \<open>pkg/provider\<close>, the
  store \<open>go-cache\<close>, the YAML and JSON decoders, the network, the clock and the disk.  It
  is a parameter of every definition below; effects on the outside pass through a world of
  type \<open>'w\<close>.  The clash adapter constructor \<open>adapter.ParseProxy\<close> and the dialer of the
  adapter it builds are components of the environment, too.
\<close>

section \<open>JSON values\<close>

text \<open>
  What \<open>encoding/json\<close> puts in an interface: \<open>JNum\<close> is a \<open>float64\<close>; \<open>JInt\<close> is a Go
  \<open>int\<close>, which a decoder never yields but the code stores.  An object has one value per key.
\<close>

datatype jvalue =
    JNull | JBool bool | JNum rat | JInt int | JStr string
  | JArr "jvalue list" | JObj "(string \<times> jvalue) list"

text \<open>Conversion of a \<open>float64\<close> to \<open>int\<close> drops the fraction.\<close>

definition float_to_int :: "rat \<Rightarrow> int" where
  "float_to_int r = (if 0 \<le> r then \<lfloor>r\<rfloor> else \<lceil>r\<rceil>)"

section \<open>The environment\<close>

datatype 'p cache_val = VProxies "'p list" | VString string

record 'p provider_base =
  pb_Proxies :: "'p list"
  pb_Types :: string
  pb_Country :: string
  pb_NotCountry :: string
  pb_Speed :: string
  pb_Filter :: string

text \<open>The package variables of \<open>healthcheck\<close> that \<open>InitApp\<close> sets; durations in nanoseconds.\<close>

record hc_settings =
  DelayConn :: int
  DelayTimeout :: int
  SpeedConn :: int
  SpeedTimeoutD :: int

text \<open>
  An HTTP GET yields an error or the body read and whether reading it broke off.
  \<open>env_cfg\<close> is what \<open>config.Parse\<close> sees of the world.  \<open>hc_Configure\<close> sets the package
  variables of \<open>healthcheck\<close>; the measurements the health check and the speed test leave
  behind are part of the world, too, and the providers read them there.
\<close>

record ('w, 'c, 'p, 'cp, 'conn) env =
  env_cfg :: "'w \<Rightarrow> cfg_env"
  json_Unmarshal :: "string \<Rightarrow> jvalue option"
  proxy_Unmarshal :: "string \<Rightarrow> string \<Rightarrow> 'p option"
  proxy_TypeName :: "'p \<Rightarrow> string"
  proxy_Name :: "'p \<Rightarrow> string"
  proxy_Port :: "'p \<Rightarrow> int"
  proxy_SetName :: "string \<Rightarrow> 'p \<Rightarrow> 'p"
  proxy_String :: "'p \<Rightarrow> string"
  list_Derive :: "'p list \<Rightarrow> 'p list"
  list_Deduplication :: "'p list \<Rightarrow> 'p list"
  list_TypeLen :: "'p list \<Rightarrow> string \<Rightarrow> int"
  hc_Configure :: "hc_settings \<Rightarrow> 'w \<Rightarrow> 'w"
  hc_CleanBadProxies :: "'p list \<Rightarrow> 'w \<Rightarrow> 'p list \<times> 'w"
  hc_HTTPGetViaProxy :: "'cp \<Rightarrow> string \<Rightarrow> int \<Rightarrow> 'w \<Rightarrow> (string + string) \<times> 'w"
  hc_SpeedTestAll :: "'p list \<Rightarrow> 'w \<Rightarrow> 'w"
  hc_StatsFind :: "'w \<Rightarrow> 'p \<Rightarrow> int option"
  clash_Provide :: "'p provider_base \<Rightarrow> 'w \<Rightarrow> string"
  surge_Provide :: "'p provider_base \<Rightarrow> 'w \<Rightarrow> string"
  ParseProxy :: "(string \<rightharpoonup> jvalue) \<Rightarrow> string + 'cp"
  cache_Get :: "'c \<Rightarrow> string \<Rightarrow> 'p cache_val option"
  cache_Set :: "string \<Rightarrow> 'p cache_val \<Rightarrow> 'c \<Rightarrow> 'c"
  http_Get :: "string \<Rightarrow> int \<Rightarrow> 'w \<Rightarrow> (string + string \<times> bool) \<times> 'w"
  os_ReadFile :: "'w \<Rightarrow> string \<Rightarrow> string option"
  os_WriteFile :: "string \<Rightarrow> string \<Rightarrow> 'w \<Rightarrow> 'w"
  time_Now :: "'w \<Rightarrow> string"
  proxy_Dial :: "'cp \<Rightarrow> Metadata \<Rightarrow> 'w \<Rightarrow> (string + 'conn) \<times> 'w"
  net_Dial :: "string \<Rightarrow> 'w \<Rightarrow> (string + 'conn) \<times> 'w"

section \<open>The application state\<close>

text \<open>\<open>internal/cache/vars.go\<close>\<close>

record cache_vars =
  AllProxiesCount :: int
  SSRProxiesCount :: int
  SSProxiesCount :: int
  VmessProxiesCount :: int
  TrojanProxiesCount :: int
  UsableProxiesCount :: int
  LastCrawlTime :: string

definition init_vars :: cache_vars where
  "init_vars =
     \<lparr>AllProxiesCount = 0, SSRProxiesCount = 0, SSProxiesCount = 0, VmessProxiesCount = 0,
      TrojanProxiesCount = 0, UsableProxiesCount = 0,
      LastCrawlTime = ''Loading'' @ concat (replicate 2 [CHR 0xE2, CHR 0x80, CHR 0xA6])\<rparr>"

record 'c app =
  app_cfg :: config_state
  app_cache :: 'c
  app_vars :: cache_vars
  app_rm :: RuleManager
  app_selected :: string

section \<open>The object cache\<close>

text \<open>\<open>internal/cache/cache.go\<close>; a value of the wrong dynamic type is a panic.\<close>

definition GetProxies :: "('w, 'c, 'p, 'cp, 'conn) env \<Rightarrow> 'c \<Rightarrow> string \<Rightarrow> 'p list go" where
  "GetProxies E c key =
     (case cache_Get E c key of
        Some (VProxies ps) \<Rightarrow> Inr ps
      | Some _ \<Rightarrow> Inl TypeAssertion
      | None \<Rightarrow> Inr [])"

definition SetProxies :: "('w, 'c, 'p, 'cp, 'conn) env \<Rightarrow> string \<Rightarrow> 'p list \<Rightarrow> 'c \<Rightarrow> 'c" where
  "SetProxies E key proxies c = cache_Set E key (VProxies proxies) c"

definition SetString :: "('w, 'c, 'p, 'cp, 'conn) env \<Rightarrow> string \<Rightarrow> string \<Rightarrow> 'c \<Rightarrow> 'c" where
  "SetString E key v c = cache_Set E key (VString v) c"

definition GetString :: "('w, 'c, 'p, 'cp, 'conn) env \<Rightarrow> 'c \<Rightarrow> string \<Rightarrow> string go" where
  "GetString E c key =
     (case cache_Get E c key of
        Some (VString s) \<Rightarrow> Inr s
      | Some _ \<Rightarrow> Inl TypeAssertion
      | None \<Rightarrow> Inr [])"

section \<open>What the code relies on\<close>

text \<open>
  Entries stored without expiry are found again under their key, and only there; renaming
  changes the name a proxy reports and nothing of its type or port.
\<close>

definition cache_laws :: "('w, 'c, 'p, 'cp, 'conn) env \<Rightarrow> bool" where
  "cache_laws E \<longleftrightarrow>
     (\<forall>c k v k'. cache_Get E (cache_Set E k v c) k' = (if k' = k then Some v else cache_Get E c k'))"

definition name_laws :: "('w, 'c, 'p, 'cp, 'conn) env \<Rightarrow> bool" where
  "name_laws E \<longleftrightarrow>
     (\<forall>n p. proxy_Name E (proxy_SetName E n p) = n \<and>
            proxy_TypeName E (proxy_SetName E n p) = proxy_TypeName E p \<and>
            proxy_Port E (proxy_SetName E n p) = proxy_Port E p)"

lemma cache_Get_Set:
  "cache_laws E \<Longrightarrow>
     cache_Get E (cache_Set E k v c) k' = (if k' = k then Some v else cache_Get E c k')"
  by (simp add: cache_laws_def)

lemma GetProxies_SetProxies:
  "cache_laws E \<Longrightarrow>
     GetProxies E (SetProxies E k ps c) k' = (if k' = k then Inr ps else GetProxies E c k')"
  by (simp add: GetProxies_def SetProxies_def cache_Get_Set)

lemma GetProxies_SetString:
  "cache_laws E \<Longrightarrow> k' \<noteq> k \<Longrightarrow> GetProxies E (SetString E k v c) k' = GetProxies E c k'"
  by (simp add: GetProxies_def SetString_def cache_Get_Set)

lemma GetString_SetString:
  "cache_laws E \<Longrightarrow>
     GetString E (SetString E k v c) k' = (if k' = k then Inr v else GetString E c k')"
  by (simp add: GetString_def SetString_def cache_Get_Set)

lemma GetString_SetProxies:
  "cache_laws E \<Longrightarrow> k' \<noteq> k \<Longrightarrow> GetString E (SetProxies E k ps c) k' = GetString E c k'"
  by (simp add: GetString_def SetProxies_def cache_Get_Set)

lemmas cache_simps = GetProxies_SetProxies GetProxies_SetString GetString_SetString
  GetString_SetProxies

section \<open>A concrete environment\<close>

text \<open>
  A small environment that satisfies the laws, used to show that hypotheses about
  environments can be met.  Its world counts requests made through proxies and holds the
  files; a proxy is a type and a name, written \<open>type:name\<close>; one server answers.
\<close>

type_synonym demo_world = "nat \<times> (string \<rightharpoonup> string)"

definition demo_json :: "string \<Rightarrow> jvalue option" where
  "demo_json s =
     (if s = ''null'' then Some JNull
      else case splitn2 (CHR '':'') s of
        [t, n] \<Rightarrow> Some (JObj [(''type'', JStr t), (''name'', JStr n), (''port'', JNum 1080)])
      | _ \<Rightarrow> None)"

definition demo_proxy :: "string \<Rightarrow> string \<Rightarrow> (string \<times> string) option" where
  "demo_proxy t s = (case splitn2 (CHR '':'') s of [_, n] \<Rightarrow> Some (t, n) | _ \<Rightarrow> None)"

definition demo_answer :: string where
  "demo_answer = ''proxies:'' @ CHR 0x0A # ''- ss:one'' @ CHR 0x0A # ''- vmess:two''"

definition demo_config :: ConfigOptions where
  "demo_config = set_defaults (zero_config\<lparr>ServerUrl := Some [''http://a'', ''http://b'']\<rparr>)"

definition demo_cfg_env :: cfg_env where
  "demo_cfg_env =
     \<lparr>cfg_http = (\<lambda>u. Inl ''refused''), cfg_missing = (\<lambda>p. None), cfg_file = (\<lambda>p. Inr p),
      cfg_yaml = (\<lambda>d c. (if d = ''empty.yaml'' then (c, None)
                         else (c\<lparr>ServerUrl := Some [''http://a'', ''http://b'']\<rparr>, None)))\<rparr>"

definition demo_env ::
  "(demo_world, string \<rightharpoonup> (string \<times> string) cache_val, string \<times> string, string, string) env" where
  "demo_env =
     \<lparr>env_cfg = (\<lambda>w. demo_cfg_env),
      json_Unmarshal = demo_json,
      proxy_Unmarshal = demo_proxy,
      proxy_TypeName = fst,
      proxy_Name = snd,
      proxy_Port = (\<lambda>p. 1080),
      proxy_SetName = (\<lambda>n p. (fst p, n)),
      proxy_String = (\<lambda>p. fst p @ '':'' @ snd p),
      list_Derive = (\<lambda>ps. ps),
      list_Deduplication = remdups,
      list_TypeLen = (\<lambda>ps t. int (length (filter (\<lambda>p. fst p = t) ps))),
      hc_Configure = (\<lambda>h w. w),
      hc_CleanBadProxies = (\<lambda>ps w. (filter (\<lambda>p. snd p \<noteq> ''dead'') ps, w)),
      hc_HTTPGetViaProxy = (\<lambda>cp u t w. (Inl ''timeout'', (Suc (fst w), snd w))),
      hc_SpeedTestAll = (\<lambda>ps w. w),
      hc_StatsFind = (\<lambda>w p. None),
      clash_Provide = (\<lambda>b w. concat (map snd (pb_Proxies b))),
      surge_Provide = (\<lambda>b w. concat (map snd (pb_Proxies b))),
      ParseProxy = (\<lambda>m. case m ''name'' of Some (JStr n) \<Rightarrow> Inr n | _ \<Rightarrow> Inl ''no name''),
      cache_Get = (\<lambda>c. c),
      cache_Set = (\<lambda>k v c. c(k \<mapsto> v)),
      http_Get = (\<lambda>u t w. (if u = ''http://a/clash/proxies'' then Inr (demo_answer, False)
                           else Inl ''refused'', w)),
      os_ReadFile = (\<lambda>w p. snd w p),
      os_WriteFile = (\<lambda>p d w. (fst w, (snd w)(p \<mapsto> d))),
      time_Now = (\<lambda>w. ''2024-01-01 00:00:00''),
      proxy_Dial = (\<lambda>cp m w. (Inr cp, w)),
      net_Dial = (\<lambda>a w. (Inr a, w))\<rparr>"

lemma demo_laws: "cache_laws demo_env \<and> name_laws demo_env"
  by (simp add: cache_laws_def name_laws_def demo_env_def)

end
