(* ===== verification/AppFetch.thy ===== *)
theory AppFetch
  imports AppEnv
begin

text \<open>
  \<open>internal/app/get.go\<close> and \<open>internal/app/retry.go\<close>: building the list URL of a
  server, fetching and decoding its proxies, converting a proxy to a clash adapter, and
  fetching the failed URLs again through proxies that already passed the health check.
  A panic of the source aborts the whole computation and is the left side of the result.
\<close>

section \<open>get.go\<close>

definition second :: int where "second = 1000000000"

definition default_server :: string where
  "default_server = ''http://127.0.0.1:8080''"

definition add_endpoint :: "string \<Rightarrow> string go" where
  "add_endpoint url =
     (let urls = split_on (CHR ''/'') url in
      if length urls < 2 then Inl IndexOutOfRange
      else if urls ! (length urls - 2) \<noteq> ''clash'' then Inr (url @ ''/clash/proxies'')
      else Inr url)"

definition formatURL :: "string \<Rightarrow> string go" where
  "formatURL value =
     (if value \<noteq> default_server then
        (if value = [] then Inl IndexOutOfRange
         else add_endpoint (if last value = CHR ''/'' then butlast value else value))
      else add_endpoint default_server)"

definition getProxies ::
  "('w, 'c, 'p, 'cp, 'conn) env \<Rightarrow> string \<Rightarrow> 'w \<Rightarrow> (string + string list) \<times> 'w" where
  "getProxies E url w =
     (case http_Get E url (5 * second) w of
        (Inl err, w') \<Rightarrow> (Inl err, w')
      | (Inr (body, _), w') \<Rightarrow>
          (let proxyJson = split_on (CHR 0x0A) body in
           (if length proxyJson < 2 then Inl (''no proxy on '' @ url) else Inr proxyJson, w')))"

text \<open>The result \<open>None\<close> stands for \<open>(nil, false)\<close>.\<close>

definition convert2Proxy :: "('w, 'c, 'p, 'cp, 'conn) env \<Rightarrow> string \<Rightarrow> 'p option go" where
  "convert2Proxy E pjson =
     (case json_Unmarshal E pjson of
        None \<Rightarrow> Inr None
      | Some (JObj jsnMap) \<Rightarrow>
          (case map_of jsnMap ''type'' of
             Some (JStr t) \<Rightarrow>
               (if t \<in> {''ss'', ''ssr'', ''vmess'', ''trojan''}
                then Inr (proxy_Unmarshal E t pjson) else Inr None)
           | _ \<Rightarrow> Inl TypeAssertion)
      | Some _ \<Rightarrow> Inl TypeAssertion)"

text \<open>One round of the loop over the lines of a server's answer.\<close>

definition get_line ::
  "('w, 'c, 'p, 'cp, 'conn) env \<Rightarrow> bool \<Rightarrow> nat \<Rightarrow> string \<Rightarrow> 'p option go" where
  "get_line E showRemoteSpeed i p =
     (if i = 0 \<or> length p < 2 then Inr None
      else go_bind (convert2Proxy E (drop 2 p))
        (\<lambda>r. case r of
           None \<Rightarrow> Inr None
         | Some pp \<Rightarrow>
             (if i = 1 \<and> proxy_Name E pp = ''NULL'' then Inr None
              else if showRemoteSpeed
                   then Inr (Some (proxy_SetName E (replace1 (proxy_Name E pp) '' |'' ''_'') pp))
                   else Inr (Some pp))))"

fun get_lines ::
  "('w, 'c, 'p, 'cp, 'conn) env \<Rightarrow> bool \<Rightarrow> nat \<Rightarrow> string list \<Rightarrow> 'p list go" where
  "get_lines E s i [] = Inr []"
| "get_lines E s i (p # ps) =
     go_bind (get_line E s i p)
       (\<lambda>r. go_bind (get_lines E s (Suc i) ps)
          (\<lambda>qs. Inr (case r of None \<Rightarrow> qs | Some q \<Rightarrow> q # qs)))"

fun get_servers ::
  "('w, 'c, 'p, 'cp, 'conn) env \<Rightarrow> bool \<Rightarrow> string list \<Rightarrow> 'w \<Rightarrow> ('p list \<times> string list) go \<times> 'w" where
  "get_servers E s [] w = (Inr ([], []), w)"
| "get_servers E s (v # vs) w =
     (case formatURL v of
        Inl pn \<Rightarrow> (Inl pn, w)
      | Inr url \<Rightarrow>
          (case getProxies E url w of
             (Inl err, w') \<Rightarrow>
               (case get_servers E s vs w' of
                  (Inl pn, w'') \<Rightarrow> (Inl pn, w'')
                | (Inr (ps, failed), w'') \<Rightarrow> (Inr (ps, url # failed), w''))
           | (Inr pjson, w') \<Rightarrow>
               (case get_lines E s 0 pjson of
                  Inl pn \<Rightarrow> (Inl pn, w')
                | Inr qs \<Rightarrow>
                    (case get_servers E s vs w' of
                       (Inl pn, w'') \<Rightarrow> (Inl pn, w'')
                     | (Inr (ps, failed), w'') \<Rightarrow> (Inr (qs @ ps, failed), w'')))))"

definition no_proxy_err :: string where
  "no_proxy_err = ''no proxy fetched from any server''"

text \<open>The three results of \<open>getAllProxies\<close>: proxies, failed URLs and the error, if any.\<close>

definition getAllProxies ::
  "('w, 'c, 'p, 'cp, 'conn) env \<Rightarrow> ConfigOptions \<Rightarrow> 'w \<Rightarrow>
     ('p list \<times> string list \<times> string option) go \<times> 'w" where
  "getAllProxies E cfg w =
     (case get_servers E (ShowRemoteSpeed cfg)
             (case ServerUrl cfg of None \<Rightarrow> [] | Some us \<Rightarrow> us) w of
        (Inl pn, w') \<Rightarrow> (Inl pn, w')
      | (Inr (proxylist, failedURLs), w') \<Rightarrow>
          (if proxylist = [] then (Inr ([], failedURLs, Some no_proxy_err), w')
           else (Inr (proxylist, failedURLs, None), w')))"

section \<open>retry.go\<close>

definition proxyToClash :: "('w, 'c, 'p, 'cp, 'conn) env \<Rightarrow> 'p \<Rightarrow> (string + 'cp) go" where
  "proxyToClash E p =
     (case json_Unmarshal E (proxy_String E p) of
        Some (JObj m) \<Rightarrow>
          (case map_of m ''port'' of
             Some (JNum r) \<Rightarrow>
               (let pmap = (map_of m)(''port'' \<mapsto> JInt (float_to_int r)) in
                if proxy_TypeName E p = ''vmess'' then
                  (case pmap ''alterId'' of
                     Some (JNum a) \<Rightarrow> Inr (ParseProxy E (pmap(''alterId'' \<mapsto> JInt (float_to_int a))))
                   | _ \<Rightarrow> Inl TypeAssertion)
                else Inr (ParseProxy E pmap))
           | _ \<Rightarrow> Inl TypeAssertion)
      | Some JNull \<Rightarrow> Inl TypeAssertion
      | _ \<Rightarrow> Inr (Inl ''json error''))"

text \<open>
  The timeout is computed in \<open>time.Duration\<close>, a signed 64-bit count of nanoseconds, and
  raised to 15 seconds when it is below that.
\<close>

definition retry_timeout :: "int \<Rightarrow> int" where
  "retry_timeout healthCheckTimeout =
     (let t = wrap64 (wrap64 (healthCheckTimeout * 3) * second)
      in if t < 15 * second then 15 * second else t)"

text \<open>The inner loop: the first answer any of the admitted proxies gives.\<close>

fun retry_proxies ::
  "('w, 'c, 'p, 'cp, 'conn) env \<Rightarrow> int \<Rightarrow> int \<Rightarrow> string \<Rightarrow> int \<Rightarrow> 'p list \<Rightarrow> 'w \<Rightarrow>
     string option go \<times> 'w" where
  "retry_proxies E maxTries tmo url i [] w = (Inr None, w)"
| "retry_proxies E maxTries tmo url i (p # ps) w =
     (if maxTries \<le> i then (Inr None, w)
      else case proxyToClash E p of
        Inl pn \<Rightarrow> (Inl pn, w)
      | Inr (Inl err) \<Rightarrow> retry_proxies E maxTries tmo url (i + 1) ps w
      | Inr (Inr cp) \<Rightarrow>
          (case hc_HTTPGetViaProxy E cp url tmo w of
             (Inl err, w') \<Rightarrow> retry_proxies E maxTries tmo url (i + 1) ps w'
           | (Inr body, w') \<Rightarrow> (Inr (Some body), w')))"

text \<open>The loop over the lines of that answer, with the count it keeps for the log.\<close>

fun retry_lines ::
  "('w, 'c, 'p, 'cp, 'conn) env \<Rightarrow> bool \<Rightarrow> nat \<Rightarrow> string list \<Rightarrow> 'p list \<Rightarrow> nat \<Rightarrow> ('p list \<times> nat) go" where
  "retry_lines E s i [] newProxies count = Inr (newProxies, count)"
| "retry_lines E s i (line # ls) newProxies count =
     (if i = 0 \<or> length line < 2 then retry_lines E s (Suc i) ls newProxies count
      else case convert2Proxy E (drop 2 line) of
        Inl pn \<Rightarrow> Inl pn
      | Inr None \<Rightarrow> retry_lines E s (Suc i) ls newProxies count
      | Inr (Some pp) \<Rightarrow>
          (if i = 1 \<and> proxy_Name E pp = ''NULL'' then retry_lines E s (Suc i) ls newProxies count
           else let q = (if s then proxy_SetName E (replace1 (proxy_Name E pp) '' |'' ''_'') pp else pp)
                in retry_lines E s (Suc i) ls (newProxies @ [q]) (count + 1)))"

fun retry_urls ::
  "('w, 'c, 'p, 'cp, 'conn) env \<Rightarrow> ConfigOptions \<Rightarrow> 'p list \<Rightarrow> string list \<Rightarrow> 'p list \<Rightarrow> 'w \<Rightarrow>
     'p list go \<times> 'w" where
  "retry_urls E cfg usable [] newProxies w = (Inr newProxies, w)"
| "retry_urls E cfg usable (url # urls) newProxies w =
     (case retry_proxies E (RetryMaxProxies cfg) (retry_timeout (HealthCheckTimeout cfg)) url 0 usable w of
        (Inl pn, w') \<Rightarrow> (Inl pn, w')
      | (Inr None, w') \<Rightarrow> retry_urls E cfg usable urls newProxies w'
      | (Inr (Some body), w') \<Rightarrow>
          (case retry_lines E (ShowRemoteSpeed cfg) 0 (split_on (CHR 0x0A) body) newProxies 0 of
             Inl pn \<Rightarrow> (Inl pn, w')
           | Inr (ps, _) \<Rightarrow> retry_urls E cfg usable urls ps w'))"

definition retryFailedURLs ::
  "('w, 'c, 'p, 'cp, 'conn) env \<Rightarrow> ConfigOptions \<Rightarrow> string list \<Rightarrow> 'p list \<Rightarrow> 'w \<Rightarrow> 'p list go \<times> 'w" where
  "retryFailedURLs E cfg failedURLs usable w = retry_urls E cfg usable failedURLs [] w"

section \<open>Facts about the list URL\<close>

lemma split_on_append: "split_on c (s @ c # t) = split_on c s @ split_on c t"
proof (induction s)
  case (Cons x s)
  then show ?case
    using split_on_ne [of c s] by (auto split: list.splits simp: Cons_eq_append_conv)
qed simp

definition endpoint_segment :: "string \<Rightarrow> string" where
  "endpoint_segment url =
     (let urls = split_on (CHR ''/'') url in urls ! (length urls - 2))"

lemma split_endpoint:
  "split_on (CHR ''/'') (url @ ''/clash/proxies'') =
     split_on (CHR ''/'') url @ [''clash'', ''proxies'']"
  using split_on_append [of "CHR ''/''" url "''clash/proxies''"] by simp

lemma endpoint_segment_added: "endpoint_segment (url @ ''/clash/proxies'') = ''clash''"
proof -
  have "xs @ [a, b] ! (length xs + 2 - 2) = xs @ [a, b] ! length xs" for xs :: "string list" and a b
    by simp
  then show ?thesis
    by (simp only: endpoint_segment_def split_endpoint Let_def) (simp add: nth_append)
qed

lemma add_endpoint_segment: "add_endpoint url = Inr u \<Longrightarrow> endpoint_segment u = ''clash''"
  by (auto simp: add_endpoint_def Let_def endpoint_segment_added split: if_splits)
     (simp add: endpoint_segment_def Let_def)

lemma length_split_ge2: "2 \<le> length (split_on c s) \<longleftrightarrow> c \<in> set s"
proof (cases "c \<in> set s")
  case True
  then obtain x y where "s = x @ c # y" by (auto dest: split_list)
  then have "length (split_on c s) = length (split_on c x) + length (split_on c y)"
    by (simp add: split_on_append)
  moreover have "0 < length (split_on c x)" "0 < length (split_on c y)" by simp_all
  ultimately show ?thesis using True by linarith
qed simp

lemma add_endpoint_panic: "add_endpoint url = Inl pn \<longleftrightarrow> pn = IndexOutOfRange \<and> CHR ''/'' \<notin> set url"
  using length_split_ge2 [of "CHR ''/''" url]
  by (auto simp: add_endpoint_def Let_def not_less)

lemma add_endpoint_again: "add_endpoint url = Inr u \<Longrightarrow> add_endpoint u = Inr u"
proof -
  assume u: "add_endpoint url = Inr u"
  then have "endpoint_segment u = ''clash''" by (rule add_endpoint_segment)
  moreover have "2 \<le> length (split_on (CHR ''/'') u)"
    using u by (auto simp: add_endpoint_def Let_def split_endpoint split: if_splits)
  ultimately show ?thesis by (simp add: add_endpoint_def endpoint_segment_def Let_def)
qed

lemma default_endpoint: "add_endpoint default_server = Inr ''http://127.0.0.1:8080/clash/proxies''"
  by (simp add: add_endpoint_def default_server_def)

lemma add_endpoint_clean_end:
  "add_endpoint url = Inr u \<Longrightarrow> last u \<noteq> CHR ''/'' \<or> last url = CHR ''/''"
  by (auto simp: add_endpoint_def Let_def split: if_splits)

lemma add_endpoint_not_default: "add_endpoint url = Inr u \<Longrightarrow> u \<noteq> default_server \<and> u \<noteq> []"
  using add_endpoint_again [of url u] default_endpoint
  by (auto simp: default_server_def) (simp add: add_endpoint_def)

text \<open>
  The URL \<open>formatURL\<close> builds always names the list endpoint: its last but one path
  segment is \<open>clash\<close>, so a server given as a bare address is asked for \<open>/clash/proxies\<close>.
  Unless the configured value ends in two slashes, formatting the URL again does
  not change it.
\<close>

lemma formatURL_names_endpoint:
  assumes "formatURL v = Inr u"
  shows "endpoint_segment u = ''clash'' \<and>
    (\<not> has_suffix v ''//'' \<longrightarrow> formatURL u = Inr u)"
proof (intro conjI impI)
  obtain url where url: "add_endpoint url = Inr u"
    and shape: "url = default_server \<or> v \<noteq> [] \<and> url = (if last v = CHR ''/'' then butlast v else v)"
    using assms by (auto simp: formatURL_def split: if_splits)
  from url show "endpoint_segment u = ''clash''" by (rule add_endpoint_segment)
  assume v: "\<not> has_suffix v ''//''"
  have "last url \<noteq> CHR ''/''"
  proof
    assume "last url = CHR ''/''"
    with shape have "v \<noteq> []" "last v = CHR ''/''" "last (butlast v) = CHR ''/''"
      by (auto simp: default_server_def split: if_splits)
    moreover from this shape url have "butlast v \<noteq> []"
      using \<open>last url = CHR ''/''\<close>
      by (auto simp: default_server_def add_endpoint_def Let_def split: if_splits)
    ultimately have "v = butlast (butlast v) @ ''//''"
      by (metis append_Cons append_Nil append_assoc append_butlast_last_id)
    with v show False by (auto simp: has_suffix_iff)
  qed
  with url have "last u \<noteq> CHR ''/''" using add_endpoint_clean_end by blast
  then show "formatURL u = Inr u"
    using add_endpoint_not_default [OF url] add_endpoint_again [OF url] by (simp add: formatURL_def)
qed

lemma formatURL_names_endpoint_witness:
  "endpoint_segment ''https://a.example/clash/proxies'' = ''clash'' \<and>
   formatURL ''https://a.example/clash/proxies'' = Inr ''https://a.example/clash/proxies''"
proof -
  have "formatURL ''https://a.example/'' = Inr ''https://a.example/clash/proxies''" by code_simp
  moreover have "\<not> has_suffix ''https://a.example/'' ''//''" by code_simp
  ultimately show ?thesis using formatURL_names_endpoint [of "''https://a.example/''"] by simp
qed

text \<open>
  \<open>formatURL\<close> panics with an index out of range exactly on the values that, less one
  final slash, have no slash left; in particular on the blank server the README
  documents as a way to select the default address.
\<close>

lemma formatURL_panics_iff:
  "formatURL v = Inl pn \<longleftrightarrow> pn = IndexOutOfRange \<and>
     CHR ''/'' \<notin> set (if last v = CHR ''/'' then butlast v else v)"
proof (cases "v = default_server")
  case True
  then show ?thesis
    using default_endpoint by (simp add: formatURL_def default_server_def)
next
  case False
  then show ?thesis by (auto simp: formatURL_def add_endpoint_panic)
qed

section \<open>Facts about the line loops\<close>

lemma get_lines_append_acc:
  "retry_lines E s i ls acc n =
     go_bind (get_lines E s i ls) (\<lambda>ps. Inr (acc @ ps, n + length ps))"
proof (induction ls arbitrary: i acc n)
  case (Cons l ls)
  show ?case
  proof (cases "i = 0 \<or> length l < 2")
    case True
    then show ?thesis
      by (simp only: retry_lines.simps get_lines.simps get_line_def if_True go_bind_simps Cons.IH)
         (cases "get_lines E s (Suc i) ls"; simp)
  next
    case False
    then show ?thesis
      by (cases "convert2Proxy E (drop 2 l)"; cases "get_lines E s (Suc i) ls")
         (auto simp: get_line_def Cons.IH Let_def split: option.splits)
  qed
qed simp

text \<open>
  The loop that reads the answer of a retried URL yields the proxies the loop of the
  first fetch yields on the same lines, in the same order, appended to those found so far;
  the count it logs is their number, and it panics exactly where the first loop does.
\<close>

theorem retry_lines_eq_get_lines:
  "retry_lines E s 0 ls acc 0 =
     (case get_lines E s 0 ls of
        Inl pn \<Rightarrow> Inl pn
      | Inr ps \<Rightarrow> Inr (acc @ ps, length ps))"
  by (simp add: get_lines_append_acc go_bind_def split: sum.splits)

text \<open>
  The timeout of a retry is at least 15 seconds and a valid duration for every
  configured health check timeout, also where the 64-bit multiplication wraps around; for
  timeouts from 5 to 3000 million seconds it is exactly three times the configured one.
\<close>

lemma retry_timeout_bounds:
  "15 * second \<le> retry_timeout h \<and> retry_timeout h < 2 ^ 63 \<and>
   (5 \<le> h \<and> h \<le> 3000000000 \<longrightarrow> retry_timeout h = 3 * h * second)"
proof (intro conjI impI)
  show "15 * second \<le> retry_timeout h" by (simp add: retry_timeout_def Let_def)
  show "retry_timeout h < 2 ^ 63"
    using wrap64_bounds [of "wrap64 (h * 3) * second"]
    by (simp add: retry_timeout_def Let_def second_def)
  assume h: "5 \<le> h \<and> h \<le> 3000000000"
  then have "wrap64 (h * 3) = h * 3" by (intro wrap64_id) auto
  moreover from h have "wrap64 (h * 3 * second) = h * 3 * second"
    by (intro wrap64_id) (auto simp: second_def)
  ultimately show "retry_timeout h = 3 * h * second"
    using h by (simp add: retry_timeout_def Let_def second_def)
qed

lemma retry_timeout_bounds_witness: "retry_timeout 7 = 21000000000"
  using retry_timeout_bounds [of 7] by (simp add: second_def)

text \<open>A panic in one line is a panic of the whole answer.\<close>

lemma get_lines_panic:
  "get_lines E s i ls = Inl pn \<longleftrightarrow>
     (\<exists>k < length ls. get_line E s (i + k) (ls ! k) = Inl pn \<and>
        (\<forall>j < k. is_ok (get_line E s (i + j) (ls ! j))))"
proof (induction ls arbitrary: i)
  case (Cons l ls)
  show ?case
  proof (cases "get_line E s i l")
    case (Inl q)
    then show ?thesis by (auto intro!: exI [of _ 0]) (metis Inl add.right_neutral is_ok_simps(2) neq0_conv nth_Cons_0 sum.inject(1))
  next
    case (Inr r)
    have "get_lines E s i (l # ls) = Inl pn \<longleftrightarrow> get_lines E s (Suc i) ls = Inl pn"
      using Inr by (cases "get_lines E s (Suc i) ls") auto
    also have "\<dots> \<longleftrightarrow> (\<exists>k < length ls. get_line E s (i + Suc k) ((l # ls) ! Suc k) = Inl pn \<and>
        (\<forall>j < Suc k. is_ok (get_line E s (i + j) ((l # ls) ! j))))"
      using Inr by (simp add: Cons.IH All_less_Suc2)
    also have "\<dots> \<longleftrightarrow> (\<exists>k < length (l # ls). get_line E s (i + k) ((l # ls) ! k) = Inl pn \<and>
        (\<forall>j < k. is_ok (get_line E s (i + j) ((l # ls) ! j))))"
      using Inr by (simp add: Ex_less_Suc2)
    finally show ?thesis .
  qed
qed simp

lemma convert2Proxy_panic_iff:
  "convert2Proxy E pjson = Inl pn \<longleftrightarrow> pn = TypeAssertion \<and>
     (\<exists>v. json_Unmarshal E pjson = Some v \<and>
        \<not> (\<exists>m t. v = JObj m \<and> map_of m ''type'' = Some (JStr t)))"
  by (auto simp: convert2Proxy_def split: option.splits jvalue.splits)

section \<open>How often a failed URL is retried\<close>

text \<open>
  \<open>m\<close> counts requests: whatever a world counts, one request through a proxy adds at
  most one to it.
\<close>

definition counts_requests :: "('w, 'c, 'p, 'cp, 'conn) env \<Rightarrow> ('w \<Rightarrow> nat) \<Rightarrow> bool" where
  "counts_requests E m \<longleftrightarrow>
     (\<forall>cp url tmo w. m (snd (hc_HTTPGetViaProxy E cp url tmo w)) \<le> Suc (m w))"

lemma retry_proxies_requests:
  assumes "counts_requests E m"
  shows "m (snd (retry_proxies E mx tmo url i ps w)) \<le> m w + min (nat (mx - i)) (length ps)"
proof (induction ps arbitrary: i w)
  case (Cons p ps)
  show ?case
  proof (cases "mx \<le> i")
    case False
    then have n: "nat (mx - i) = Suc (nat (mx - (i + 1)))" by simp
    have step: "m (snd (retry_proxies E mx tmo url (i + 1) ps v)) \<le>
        m w + min (nat (mx - i)) (length (p # ps))" if "m v \<le> Suc (m w)" for v
      using Cons.IH [of "i + 1" v] that unfolding n by simp
    show ?thesis
    proof (cases "proxyToClash E p")
      case (Inr r)
      show ?thesis
      proof (cases r)
        case (Inr cp)
        obtain a v where hc: "hc_HTTPGetViaProxy E cp url tmo w = (a, v)" by force
        then have "m v \<le> Suc (m w)"
          using assms by (metis counts_requests_def snd_conv)
        then show ?thesis
          using False \<open>proxyToClash E p = Inr r\<close> Inr hc step [of v] n by (cases a) auto
      qed (use False Inr step [of w] in auto)
    qed (use False in auto)
  qed simp
qed simp

lemma retry_urls_requests:
  assumes "counts_requests E m"
  shows "m (snd (retry_urls E cfg usable urls acc w)) \<le>
    m w + length urls * min (nat (RetryMaxProxies cfg)) (length usable)"
proof (induction urls arbitrary: acc w)
  case (Cons url urls)
  let ?b = "min (nat (RetryMaxProxies cfg)) (length usable)"
  obtain r v where rp: "retry_proxies E (RetryMaxProxies cfg)
      (retry_timeout (HealthCheckTimeout cfg)) url 0 usable w = (r, v)" by force
  then have v: "m v \<le> m w + ?b"
    using retry_proxies_requests [OF assms, of "RetryMaxProxies cfg" _ url 0 usable w] by (metis diff_zero snd_conv)
  have "m (snd (retry_urls E cfg usable urls acc' v)) \<le> m w + length (url # urls) * ?b" for acc'
    using Cons.IH [of acc' v] v by simp
  then show ?case
    using rp v by (auto split: sum.splits option.splits prod.splits)
qed simp

text \<open>
  Retrying asks at most \<open>min retry_max_proxies (number of usable proxies)\<close> proxies
  for each failed URL; a non-positive maximum allows none.
\<close>

theorem retryFailedURLs_requests:
  assumes "counts_requests E m"
  shows "m (snd (retryFailedURLs E cfg failed usable w)) \<le>
    m w + length failed * min (nat (RetryMaxProxies cfg)) (length usable)"
  using retry_urls_requests [OF assms] by (simp add: retryFailedURLs_def)

theorem retryFailedURLs_requests_witness:
  "counts_requests demo_env fst \<and>
   fst (snd (retryFailedURLs demo_env demo_config [''u'', ''v''] [(''ss'', ''p''), (''ss'', ''q'')] (0, Map.empty))) \<le> 4"
proof -
  have c: "counts_requests demo_env fst" by (simp add: counts_requests_def demo_env_def)
  then show ?thesis
    using retryFailedURLs_requests [OF c, of demo_config "[''u'', ''v'']"
        "[(''ss'', ''p''), (''ss'', ''q'')]" "(0, Map.empty)"]
    by (simp add: demo_config_def set_defaults_def or_default_def zero_config_def)
qed

section \<open>What one update fetches\<close>

text \<open>The lines a server answers with, if its answer counts as a success.\<close>

definition answer_lines :: "string + string \<times> bool \<Rightarrow> string list option" where
  "answer_lines r =
     (case r of
        Inl _ \<Rightarrow> None
      | Inr (body, _) \<Rightarrow>
          (let ls = split_on (CHR 0x0A) body in if length ls < 2 then None else Some ls))"

lemma getProxies_answer:
  "http_Get E url (5 * second) w = (r, w') \<Longrightarrow>
     (case answer_lines r of
        None \<Rightarrow> \<exists>e. getProxies E url w = (Inl e, w')
      | Some ls \<Rightarrow> getProxies E url w = (Inr ls, w'))"
  by (auto simp: getProxies_def answer_lines_def Let_def split: sum.splits prod.splits)

lemma get_servers_spec:
  assumes net: "\<And>url w. http_Get E url (5 * second) w = (f url, w)"
    and urls: "map formatURL vs = map Inr us"
    and ok: "\<And>u ls. u \<in> set us \<Longrightarrow> answer_lines (f u) = Some ls \<Longrightarrow> get_lines E s 0 ls = Inr (L u)"
  shows "get_servers E s vs w =
    (Inr (concat (map L (filter (\<lambda>u. answer_lines (f u) \<noteq> None) us)),
          filter (\<lambda>u. answer_lines (f u) = None) us), w)"
  using urls ok
proof (induction vs arbitrary: us)
  case (Cons v vs)
  then obtain u us' where us: "us = u # us'" and v: "formatURL v = Inr u" by auto
  have IH: "get_servers E s vs w =
    (Inr (concat (map L (filter (\<lambda>u. answer_lines (f u) \<noteq> None) us')),
          filter (\<lambda>u. answer_lines (f u) = None) us'), w)"
    using Cons.prems us by (intro Cons.IH) auto
  show ?case
  proof (cases "answer_lines (f u)")
    case None
    then obtain e where "getProxies E u w = (Inl e, w)"
      using getProxies_answer [OF net, of u w] by auto
    with v IH None show ?thesis by (simp add: us)
  next
    case (Some ls)
    then have "getProxies E u w = (Inr ls, w)"
      using getProxies_answer [OF net, of u w] by simp
    moreover have "get_lines E s 0 ls = Inr (L u)" using Cons.prems(2) us Some by simp
    ultimately show ?thesis using v IH Some by (simp add: us)
  qed
qed simp


text \<open>
  A server whose answer holds, at a line the loop reaches, a JSON value without a
  string under \<open>type\<close> (a number, a list, \<open>null\<close>, an object without the key) does not
  lead to an error: the conversion panics, and with it the whole update.
\<close>

theorem malformed_line_panics:
  assumes "ServerUrl cfg = Some (v # vs)" and "formatURL v = Inr url"
    and "http_Get E url (5 * second) w = (Inr (body, b), w')"
    and ls: "ls = split_on (CHR 0x0A) body"
    and k: "0 < k" "k < length ls" "2 \<le> length (ls ! k)"
    and before: "\<And>j. j < k \<Longrightarrow> is_ok (get_line E (ShowRemoteSpeed cfg) j (ls ! j))"
    and bad: "json_Unmarshal E (drop 2 (ls ! k)) = Some val"
             "\<not> (\<exists>m t. val = JObj m \<and> map_of m ''type'' = Some (JStr t))"
  shows "getAllProxies E cfg w = (Inl TypeAssertion, w')"
proof -
  have "convert2Proxy E (drop 2 (ls ! k)) = Inl TypeAssertion"
    using bad by (auto simp: convert2Proxy_panic_iff)
  with k have "get_line E (ShowRemoteSpeed cfg) k (ls ! k) = Inl TypeAssertion"
    by (simp add: get_line_def)
  with k before have "get_lines E (ShowRemoteSpeed cfg) 0 ls = Inl TypeAssertion"
    unfolding get_lines_panic by auto
  moreover have "getProxies E url w = (Inr ls, w')"
    using assms(3) k by (simp add: getProxies_def ls Let_def)
  ultimately show ?thesis using assms(1,2) by (simp add: getAllProxies_def)
qed


definition demo_net :: "string \<Rightarrow> string + string \<times> bool" where
  "demo_net u = (if u = ''http://a/clash/proxies'' then Inr (demo_answer, False) else Inl ''refused'')"

lemma demo_facts:
  "http_Get demo_env u t w = (demo_net u, w)"
  "ServerUrl demo_config = Some [''http://a'', ''http://b'']"
  "ShowRemoteSpeed demo_config = False"
  "formatURL ''http://a'' = Inr ''http://a/clash/proxies''"
  "formatURL ''http://b'' = Inr ''http://b/clash/proxies''"
  "answer_lines (demo_net ''http://a/clash/proxies'') = Some [''proxies:'', ''- ss:one'', ''- vmess:two'']"
  "answer_lines (demo_net ''http://b/clash/proxies'') = None"
  "get_lines demo_env False 0 [''proxies:'', ''- ss:one'', ''- vmess:two''] =
     Inr [(''ss'', ''one''), (''vmess'', ''two'')]"
  subgoal by (simp add: demo_env_def demo_net_def)
  subgoal by (simp add: demo_config_def set_defaults_def)
  subgoal by (simp add: demo_config_def set_defaults_def zero_config_def)
  subgoal by code_simp
  subgoal by code_simp
  subgoal by code_simp
  subgoal by code_simp
  subgoal by code_simp
  done


theorem malformed_line_panics_witness:
  "getAllProxies (demo_env\<lparr>http_Get := (\<lambda>u t w. (Inr (CHR 0x0A # ''- null'', False), w))\<rparr>) demo_config (0, Map.empty) =
     (Inl TypeAssertion, (0, Map.empty))"
proof (rule malformed_line_panics [where k = 1 and ls = "[[], ''- null'']" and val = JNull
      and v = "''http://a''" and vs = "[''http://b'']" and url = "''http://a/clash/proxies''"
      and body = "CHR 0x0A # ''- null''" and b = False])
  show "is_ok (get_line (demo_env\<lparr>http_Get := (\<lambda>u t w. (Inr (CHR 0x0A # ''- null'', False), w))\<rparr>)
      (ShowRemoteSpeed demo_config) j ([[], ''- null''] ! j))" if "j < 1" for j
    using that by (simp add: get_line_def)
qed (simp_all add: demo_facts demo_env_def demo_json_def)

end
