(* ===== verification/AppDownload.thy ===== *)
theory AppDownload
  imports AppFetch
begin

text \<open>
  \<open>internal/app/rules_download.go\<close> and \<open>internal/app/selector.go\<close>: fetching the rule
  files directly or through usable proxies, their copies on disk, the selected proxy and
  the persisted routing strategy.  Creating the directories \<open>data\<close> and \<open>state\<close> has no
  effect of its own; a failed write is an \<open>os_WriteFile\<close> that leaves the world as it is.
\<close>

section \<open>selector.go\<close>

definition SelectProxyName :: "string \<Rightarrow> 'c app \<Rightarrow> 'c app" where
  "SelectProxyName name a = a\<lparr>app_selected := name\<rparr>"

definition GetSelectedProxyName :: "'c app \<Rightarrow> string" where
  "GetSelectedProxyName a = app_selected a"

definition UnselectProxy :: "'c app \<Rightarrow> 'c app" where
  "UnselectProxy a = a\<lparr>app_selected := []\<rparr>"

definition strategyStateFile :: string where
  "strategyStateFile = ''state/strategy''"

definition LoadStrategy :: "('w, 'c, 'p, 'cp, 'conn) env \<Rightarrow> 'w \<Rightarrow> RuleManager \<Rightarrow> RuleManager" where
  "LoadStrategy E w rm =
     (case os_ReadFile E w strategyStateFile of
        None \<Rightarrow> rm
      | Some data \<Rightarrow>
          (let s = trim_space data in
           if s = ''china_bypass'' \<or> s = ''all_proxy'' then SetStrategy s rm else rm))"

definition SaveStrategy :: "('w, 'c, 'p, 'cp, 'conn) env \<Rightarrow> string \<Rightarrow> 'w \<Rightarrow> 'w" where
  "SaveStrategy E s w = os_WriteFile E strategyStateFile s w"

section \<open>rules_download.go\<close>

text \<open>\<open>filepath.Join\<close> of the directory and a plain file name.\<close>

definition ruleCachePath :: "string \<Rightarrow> string" where
  "ruleCachePath name = ''data'' @ ''/'' @ name"

text \<open>The loop over the proxies: \<open>None\<close> when it ends without an acceptable body.\<close>

fun download_proxies ::
  "('w, 'c, 'p, 'cp, 'conn) env \<Rightarrow> int \<Rightarrow> int \<Rightarrow> string \<Rightarrow> int \<Rightarrow> 'p list \<Rightarrow> 'w \<Rightarrow>
     string option go \<times> 'w" where
  "download_proxies E maxTries tmo url i [] w = (Inr None, w)"
| "download_proxies E maxTries tmo url i (p # ps) w =
     (if maxTries \<le> i then (Inr None, w)
      else case proxyToClash E p of
        Inl pn \<Rightarrow> (Inl pn, w)
      | Inr (Inl err) \<Rightarrow> download_proxies E maxTries tmo url (i + 1) ps w
      | Inr (Inr cp) \<Rightarrow>
          (case hc_HTTPGetViaProxy E cp url tmo w of
             (Inl err, w') \<Rightarrow> download_proxies E maxTries tmo url (i + 1) ps w'
           | (Inr body, w') \<Rightarrow>
               (if 100 < length body then (Inr (Some body), w')
                else download_proxies E maxTries tmo url (i + 1) ps w')))"

definition max_tries :: "ConfigOptions \<Rightarrow> int" where
  "max_tries cfg = (if RetryMaxProxies cfg \<le> 0 then 10 else RetryMaxProxies cfg)"

definition downloadWithRetry ::
  "('w, 'c, 'p, 'cp, 'conn) env \<Rightarrow> ConfigOptions \<Rightarrow> string \<Rightarrow> 'p list \<Rightarrow> 'w \<Rightarrow>
     (string + string) go \<times> 'w" where
  "downloadWithRetry E cfg url proxies w =
     (let (resp, w) = http_Get E url (15 * second) w;
          direct = (case resp of
                      Inr (body, broke) \<Rightarrow> if \<not> broke \<and> 100 < length body then Some body else None
                    | Inl err \<Rightarrow> None) in
      case direct of
        Some body \<Rightarrow> (Inr (Inr body), w)
      | None \<Rightarrow>
          (case download_proxies E (max_tries cfg) (retry_timeout (HealthCheckTimeout cfg)) url 0 proxies w of
             (Inl pn, w') \<Rightarrow> (Inl pn, w')
           | (Inr (Some body), w') \<Rightarrow> (Inr (Inr body), w')
           | (Inr None, w') \<Rightarrow> (Inr (Inl (''all download attempts failed for '' @ url)), w')))"

text \<open>The two loops of \<open>DownloadAndLoad\<close>, each left at the first URL that answers.\<close>

fun download_domains ::
  "('w, 'c, 'p, 'cp, 'conn) env \<Rightarrow> ConfigOptions \<Rightarrow> 'p list \<Rightarrow> string list \<Rightarrow>
     RuleManager \<Rightarrow> 'w \<Rightarrow> unit go \<times> RuleManager \<times> 'w" where
  "download_domains E cfg proxies [] rm w = (Inr (), rm, w)"
| "download_domains E cfg proxies (url # urls) rm w =
     (case downloadWithRetry E cfg url proxies w of
        (Inl pn, w') \<Rightarrow> (Inl pn, rm, w')
      | (Inr (Inl err), w') \<Rightarrow> download_domains E cfg proxies urls rm w'
      | (Inr (Inr data), w') \<Rightarrow>
          (Inr (), rm\<lparr>rm_domains := DomainMatcher_LoadFromReader data (rm_domains rm)\<rparr>,
           os_WriteFile E (ruleCachePath ''china_domain.txt'') data w'))"

fun download_ips ::
  "('w, 'c, 'p, 'cp, 'conn) env \<Rightarrow> ConfigOptions \<Rightarrow> 'p list \<Rightarrow> string list \<Rightarrow>
     RuleManager \<Rightarrow> 'w \<Rightarrow> unit go \<times> RuleManager \<times> 'w" where
  "download_ips E cfg proxies [] rm w = (Inr (), rm, w)"
| "download_ips E cfg proxies (url # urls) rm w =
     (case downloadWithRetry E cfg url proxies w of
        (Inl pn, w') \<Rightarrow> (Inl pn, rm, w')
      | (Inr (Inl err), w') \<Rightarrow> download_ips E cfg proxies urls rm w'
      | (Inr (Inr data), w') \<Rightarrow>
          (Inr (), rm\<lparr>rm_ips := IPMatcher_LoadFromReader data (rm_ips rm)\<rparr>,
           os_WriteFile E (ruleCachePath ''china_ip.txt'') data w'))"

definition DownloadAndLoad ::
  "('w, 'c, 'p, 'cp, 'conn) env \<Rightarrow> ConfigOptions \<Rightarrow> 'p list \<Rightarrow> RuleManager \<Rightarrow> 'w \<Rightarrow>
     unit go \<times> RuleManager \<times> 'w" where
  "DownloadAndLoad E cfg proxies rm w =
     (case download_domains E cfg proxies (rp_ChinaDomain (RuleProviders cfg)) rm w of
        (Inl pn, rm', w') \<Rightarrow> (Inl pn, rm', w')
      | (Inr _, rm', w') \<Rightarrow> download_ips E cfg proxies (rp_ChinaIP (RuleProviders cfg)) rm' w')"

definition LoadCache :: "('w, 'c, 'p, 'cp, 'conn) env \<Rightarrow> 'w \<Rightarrow> RuleManager \<Rightarrow> RuleManager" where
  "LoadCache E w rm =
     (let rm = (case os_ReadFile E w (ruleCachePath ''china_domain.txt'') of
                  None \<Rightarrow> rm
                | Some data \<Rightarrow> rm\<lparr>rm_domains := DomainMatcher_LoadFromReader data (rm_domains rm)\<rparr>)
      in case os_ReadFile E w (ruleCachePath ''china_ip.txt'') of
           None \<Rightarrow> rm
         | Some data \<Rightarrow> rm\<lparr>rm_ips := IPMatcher_LoadFromReader data (rm_ips rm)\<rparr>)"

section \<open>The rule manager's invariant\<close>

text \<open>
  What the decision relies on: one of the two strategies is set, the built-in suffix is
  never lost, and the list of networks is never empty.
\<close>

definition rm_ok :: "RuleManager \<Rightarrow> bool" where
  "rm_ok rm \<longleftrightarrow> rm_strategy rm \<in> {''china_bypass'', ''all_proxy''} \<and>
     ''.cn'' \<in> dm_domains (rm_domains rm) \<and> im_cidrs (rm_ips rm) \<noteq> []"

named_theorems rm_intros

lemma rm_ok_global [rm_intros]: "rm_ok globalRuleManager"
  by (simp add: rm_ok_def globalRuleManager_def NewDomainMatcher_def NewIPMatcher_def
      defaultChinaCIDRs_eq china_octets_def)

lemma rm_ok_SetStrategy [rm_intros]:
  "rm_ok rm \<Longrightarrow> s = ''china_bypass'' \<or> s = ''all_proxy'' \<Longrightarrow> rm_ok (SetStrategy s rm)"
  by (auto simp: rm_ok_def SetStrategy_def)

lemma rm_ok_domains [rm_intros]:
  "rm_ok rm \<Longrightarrow> rm_ok (rm\<lparr>rm_domains := DomainMatcher_LoadFromReader d (rm_domains rm)\<rparr>)"
  by (simp add: rm_ok_def DomainMatcher_LoadFromReader_def)

lemma rm_ok_ips [rm_intros]:
  "rm_ok rm \<Longrightarrow> rm_ok (rm\<lparr>rm_ips := IPMatcher_LoadFromReader d (rm_ips rm)\<rparr>)"
  by (simp add: rm_ok_def IPMatcher_load_nonempty)

lemma rm_ok_LoadStrategy [rm_intros]: "rm_ok rm \<Longrightarrow> rm_ok (LoadStrategy E w rm)"
  by (auto simp: LoadStrategy_def Let_def split: option.splits intro!: rm_intros)

lemma rm_ok_LoadCache [rm_intros]: "rm_ok rm \<Longrightarrow> rm_ok (LoadCache E w rm)"
  unfolding LoadCache_def Let_def
  by (cases "os_ReadFile E w (ruleCachePath ''china_domain.txt'')";
      cases "os_ReadFile E w (ruleCachePath ''china_ip.txt'')")
     (simp_all only: option.case rm_ok_domains rm_ok_ips)

lemma rm_ok_download_domains:
  "rm_ok rm \<Longrightarrow> rm_ok (fst (snd (download_domains E cfg ps urls rm w)))"
  by (induction urls arbitrary: w) (auto split: sum.splits prod.splits intro: rm_intros)

lemma rm_ok_download_ips:
  "rm_ok rm \<Longrightarrow> rm_ok (fst (snd (download_ips E cfg ps urls rm w)))"
  by (induction urls arbitrary: w) (auto split: sum.splits prod.splits intro: rm_intros)

lemma rm_ok_DownloadAndLoad [rm_intros]:
  assumes "rm_ok rm"
  shows "rm_ok (fst (snd (DownloadAndLoad E cfg ps rm w)))"
proof -
  obtain r rm1 w1 where d: "download_domains E cfg ps (rp_ChinaDomain (RuleProviders cfg)) rm w = (r, rm1, w1)"
    by (metis prod_cases3)
  then have "rm_ok rm1" using rm_ok_download_domains [OF assms] by (metis fst_conv snd_conv)
  then show ?thesis
    using d rm_ok_download_ips by (cases r) (simp_all add: DownloadAndLoad_def)
qed

section \<open>The persisted strategy\<close>

text \<open>
  What is relied on of the disk: a file just written holds what was written, the other
  files are as before, and network requests leave every file alone.
\<close>

definition disk_laws :: "('w, 'c, 'p, 'cp, 'conn) env \<Rightarrow> bool" where
  "disk_laws E \<longleftrightarrow>
     (\<forall>p d w q. os_ReadFile E (os_WriteFile E p d w) q = (if q = p then Some d else os_ReadFile E w q)) \<and>
     (\<forall>url t w. os_ReadFile E (snd (http_Get E url t w)) = os_ReadFile E w) \<and>
     (\<forall>cp url t w. os_ReadFile E (snd (hc_HTTPGetViaProxy E cp url t w)) = os_ReadFile E w)"

lemma read_write:
  "disk_laws E \<Longrightarrow> os_ReadFile E (os_WriteFile E p d w) q = (if q = p then Some d else os_ReadFile E w q)"
  by (simp add: disk_laws_def)

lemma demo_disk: "disk_laws demo_env"
  by (auto simp: disk_laws_def demo_env_def fun_eq_iff)

lemma LoadStrategy_written:
  assumes "os_ReadFile E w strategyStateFile = Some d"
  shows "LoadStrategy E w rm =
    (if trim_space d \<in> {''china_bypass'', ''all_proxy''} then SetStrategy (trim_space d) rm else rm)"
  using assms by (simp add: LoadStrategy_def Let_def)

lemma trim_strategies:
  "trim_space ''china_bypass'' = ''china_bypass''" "trim_space ''all_proxy'' = ''all_proxy''"
  by code_simp+

text \<open>
  A strategy the API accepts survives a restart: saving it and loading it in a fresh
  process selects it and changes nothing else, while the file of any other content (also
  one written by hand, with surrounding blanks trimmed) leaves the manager as it was unless
  it names one of the two strategies.
\<close>

lemma strategy_roundtrip:
  assumes "disk_laws E"
  shows "(s \<in> {''china_bypass'', ''all_proxy''} \<longrightarrow>
            LoadStrategy E (SaveStrategy E s w) rm = SetStrategy s rm \<and>
            GetStrategy (LoadStrategy E (SaveStrategy E s w) rm) = s) \<and>
         (trim_space s \<notin> {''china_bypass'', ''all_proxy''} \<longrightarrow>
            LoadStrategy E (SaveStrategy E s w) rm = rm)"
proof -
  have "os_ReadFile E (SaveStrategy E s w) strategyStateFile = Some s"
    using assms by (simp add: SaveStrategy_def read_write)
  note LoadStrategy_written [OF this, of rm]
  then show ?thesis by (auto simp: trim_strategies GetStrategy_def SetStrategy_def)
qed

lemma strategy_roundtrip_witness:
  "GetStrategy (LoadStrategy demo_env (SaveStrategy demo_env ''all_proxy'' (0, Map.empty))
     globalRuleManager) = ''all_proxy''"
  using strategy_roundtrip [OF demo_disk, of "''all_proxy''" "(0, Map.empty)" globalRuleManager]
  by (simp add: GetStrategy_def SetStrategy_def)

section \<open>Downloads\<close>

lemma download_proxies_body:
  assumes "download_proxies E mx tmo url i ps w = (Inr (Some body), w')"
  shows "100 < length body \<and>
    (\<exists>k cp v. k < length ps \<and> i + int k < mx \<and> proxyToClash E (ps ! k) = Inr (Inr cp) \<and>
       fst (hc_HTTPGetViaProxy E cp url tmo v) = Inr body)"
  using assms
proof (induction ps arbitrary: i w)
  case (Cons p ps)
  have later: ?case if d: "download_proxies E mx tmo url (i + 1) ps v = (Inr (Some body), w')" for v
  proof -
    obtain k cp u where "100 < length body" "k < length ps" "i + 1 + int k < mx"
      "proxyToClash E (ps ! k) = Inr (Inr cp)" "fst (hc_HTTPGetViaProxy E cp url tmo u) = Inr body"
      using Cons.IH [OF d] by auto
    then show ?thesis by (auto intro!: exI [of _ "Suc k"])
  qed
  show ?case
  proof (cases "proxyToClash E p")
    case (Inr r)
    show ?thesis
    proof (cases r)
      case (Inl e)
      then show ?thesis using Cons.prems \<open>proxyToClash E p = Inr r\<close> later by (auto split: if_splits)
    next
      case (Inr cp)
      obtain a v where hc: "hc_HTTPGetViaProxy E cp url tmo w = (a, v)" by force
      have mx: "i < mx" using Cons.prems by (auto split: if_splits)
      have "(\<exists>b. a = Inr b \<and> 100 < length b \<and> b = body) \<or>
          download_proxies E mx tmo url (i + 1) ps v = (Inr (Some body), w')"
        using Cons.prems \<open>proxyToClash E p = Inr r\<close> Inr hc by (auto split: if_splits sum.splits)
      then show ?thesis
      proof
        assume "\<exists>b. a = Inr b \<and> 100 < length b \<and> b = body"
        then show ?thesis
          using \<open>proxyToClash E p = Inr r\<close> Inr hc mx
          by (auto intro!: exI [of _ 0] exI [of _ cp] exI [of _ w])
      qed (rule later)
    qed
  qed (use Cons.prems in \<open>auto split: if_splits\<close>)
qed simp

lemma downloadWithRetry_cases:
  "http_Get E url (15 * second) w = (resp, v) \<Longrightarrow>
   downloadWithRetry E cfg url ps w =
     (if \<exists>body. resp = Inr (body, False) \<and> 100 < length body
      then (Inr (Inr (fst (projr resp))), v)
      else case download_proxies E (max_tries cfg) (retry_timeout (HealthCheckTimeout cfg)) url 0 ps v of
             (Inl pn, w') \<Rightarrow> (Inl pn, w')
           | (Inr (Some body), w') \<Rightarrow> (Inr (Inr body), w')
           | (Inr None, w') \<Rightarrow> (Inr (Inl (''all download attempts failed for '' @ url)), w'))"
  by (auto simp: downloadWithRetry_def Let_def split: sum.splits prod.splits)

text \<open>
  A rule file is accepted only with more than 100 bytes, whole, from a direct request
  or through one of the first \<open>retry_max_proxies\<close> usable proxies (ten when that option is
  not positive), with the timeout of the retries.
\<close>

theorem downloadWithRetry_accepts:
  assumes "downloadWithRetry E cfg url ps w = (Inr (Inr body), w')"
  shows "100 < length body \<and>
    (fst (http_Get E url (15 * second) w) = Inr (body, False) \<or>
     (\<exists>k cp v. k < length ps \<and> int k < max_tries cfg \<and> proxyToClash E (ps ! k) = Inr (Inr cp) \<and>
        fst (hc_HTTPGetViaProxy E cp url (retry_timeout (HealthCheckTimeout cfg)) v) = Inr body))"
proof -
  obtain resp v where get: "http_Get E url (15 * second) w = (resp, v)" by force
  show ?thesis
  proof (cases "\<exists>b. resp = Inr (b, False) \<and> 100 < length b")
    case True
    then show ?thesis using assms by (auto simp: downloadWithRetry_cases [OF get] get)
  next
    case False
    with assms have "(case download_proxies E (max_tries cfg)
          (retry_timeout (HealthCheckTimeout cfg)) url 0 ps v of
        (Inl pn, w') \<Rightarrow> (Inl pn, w')
      | (Inr (Some body), w') \<Rightarrow> (Inr (Inr body), w')
      | (Inr None, w') \<Rightarrow> (Inr (Inl (''all download attempts failed for '' @ url)), w')) =
        (Inr (Inr body), w')"
      unfolding downloadWithRetry_cases [OF get] by (simp only: if_False)
    then have "download_proxies E (max_tries cfg) (retry_timeout (HealthCheckTimeout cfg)) url 0 ps v =
        (Inr (Some body), w')"
      by (auto split: sum.splits prod.splits option.splits)
    from download_proxies_body [OF this] show ?thesis by auto
  qed
qed

theorem downloadWithRetry_accepts_witness:
  "\<exists>body. fst (downloadWithRetry (demo_env\<lparr>http_Get := (\<lambda>u t w. (Inr (replicate 101 CHR ''x'', False), w))\<rparr>)
     demo_config ''u'' [] (0, Map.empty)) = Inr (Inr body) \<and> 100 < length body"
proof -
  let ?E = "demo_env\<lparr>http_Get := (\<lambda>u t w. (Inr (replicate 101 CHR ''x'', False), w))\<rparr>"
  have d: "downloadWithRetry ?E demo_config ''u'' [] (0, Map.empty) =
      (Inr (Inr (replicate 101 CHR ''x'')), (0, Map.empty))"
    by (simp add: downloadWithRetry_def Let_def)
  from downloadWithRetry_accepts [OF d] d show ?thesis by simp
qed

section \<open>Memory and disk\<close>

lemma download_proxies_disk:
  assumes "disk_laws E"
  shows "os_ReadFile E (snd (download_proxies E mx tmo url i ps w)) = os_ReadFile E w"
proof (induction ps arbitrary: i w)
  case (Cons p ps)
  have hc: "os_ReadFile E v = os_ReadFile E w" if "hc_HTTPGetViaProxy E cp url tmo w = (a, v)" for cp a v
    using assms that by (metis disk_laws_def snd_conv)
  show ?case
    by (auto simp: Cons.IH split: sum.splits prod.splits dest: hc)
qed simp

lemma downloadWithRetry_disk:
  assumes "disk_laws E"
  shows "os_ReadFile E (snd (downloadWithRetry E cfg url ps w)) = os_ReadFile E w"
proof -
  obtain resp v where get: "http_Get E url (15 * second) w = (resp, v)" by force
  have "os_ReadFile E v = os_ReadFile E w" using assms get by (metis disk_laws_def snd_conv)
  moreover have "os_ReadFile E u = os_ReadFile E v"
    if "download_proxies E mx tmo url i ps v = (r, u)" for mx tmo i r u
    using download_proxies_disk [OF assms, of mx tmo url i ps v] that by simp
  ultimately show ?thesis
    by (auto simp: downloadWithRetry_cases [OF get] split: sum.splits prod.splits option.splits)
qed

text \<open>A matcher that has taken in a file is not changed by loading the file again.\<close>

lemma DomainMatcher_load_again:
  "DomainMatcher_LoadFromReader d (DomainMatcher_LoadFromReader d dm) = DomainMatcher_LoadFromReader d dm"
  by (simp add: DomainMatcher_LoadFromReader_def Un_assoc)

lemma IPMatcher_load_again:
  "IPMatcher_LoadFromReader d (IPMatcher_LoadFromReader d im) = IPMatcher_LoadFromReader d im"
  by (simp add: IPMatcher_LoadFromReader_def Let_def)

definition domains_synced :: "('w, 'c, 'p, 'cp, 'conn) env \<Rightarrow> 'w \<Rightarrow> RuleManager \<Rightarrow> bool" where
  "domains_synced E w rm \<longleftrightarrow>
     (\<forall>d. os_ReadFile E w (ruleCachePath ''china_domain.txt'') = Some d \<longrightarrow>
        DomainMatcher_LoadFromReader d (rm_domains rm) = rm_domains rm)"

definition ips_synced :: "('w, 'c, 'p, 'cp, 'conn) env \<Rightarrow> 'w \<Rightarrow> RuleManager \<Rightarrow> bool" where
  "ips_synced E w rm \<longleftrightarrow>
     (\<forall>d. os_ReadFile E w (ruleCachePath ''china_ip.txt'') = Some d \<longrightarrow>
        IPMatcher_LoadFromReader d (rm_ips rm) = rm_ips rm)"

lemma LoadCache_synced: "domains_synced E w rm \<and> ips_synced E w rm \<Longrightarrow> LoadCache E w rm = rm"
  by (auto simp: domains_synced_def ips_synced_def LoadCache_def Let_def split: option.splits)

lemma synced_LoadCache: "domains_synced E w (LoadCache E w rm) \<and> ips_synced E w (LoadCache E w rm)"
  by (auto simp: domains_synced_def ips_synced_def LoadCache_def Let_def DomainMatcher_load_again
      IPMatcher_load_again split: option.splits)

lemma download_domains_synced:
  assumes "disk_laws E" "domains_synced E w rm" "ips_synced E w rm"
    and "download_domains E cfg ps urls rm w = (r, rm', w')"
  shows "domains_synced E w' rm' \<and> ips_synced E w' rm'"
  using assms(2-4)
proof (induction urls arbitrary: w)
  case (Cons url urls)
  obtain r v where d: "downloadWithRetry E cfg url ps w = (r, v)" by force
  then have v: "os_ReadFile E v = os_ReadFile E w"
    using downloadWithRetry_disk [OF assms(1), of cfg url ps w] by simp
  have s: "domains_synced E v rm" "ips_synced E v rm"
    using Cons.prems by (simp_all add: domains_synced_def ips_synced_def v)
  show ?case
  proof (cases "\<exists>e. r = Inr (Inl e)")
    case True
    then show ?thesis using Cons.IH [OF s] Cons.prems(3) d by auto
  next
    case False
    then show ?thesis
      using Cons.prems d s
      by (auto simp: domains_synced_def ips_synced_def read_write [OF assms(1)] ruleCachePath_def
          DomainMatcher_load_again split: sum.splits)
  qed
qed simp

lemma download_ips_synced:
  assumes "disk_laws E" "domains_synced E w rm" "ips_synced E w rm"
    and "download_ips E cfg ps urls rm w = (r, rm', w')"
  shows "domains_synced E w' rm' \<and> ips_synced E w' rm'"
  using assms(2-4)
proof (induction urls arbitrary: w)
  case (Cons url urls)
  obtain r v where d: "downloadWithRetry E cfg url ps w = (r, v)" by force
  then have v: "os_ReadFile E v = os_ReadFile E w"
    using downloadWithRetry_disk [OF assms(1), of cfg url ps w] by simp
  have s: "domains_synced E v rm" "ips_synced E v rm"
    using Cons.prems by (simp_all add: domains_synced_def ips_synced_def v)
  show ?case
  proof (cases "\<exists>e. r = Inr (Inl e)")
    case True
    then show ?thesis using Cons.IH [OF s] Cons.prems(3) d by auto
  next
    case False
    then show ?thesis
      using Cons.prems d s
      by (auto simp: domains_synced_def ips_synced_def read_write [OF assms(1)] ruleCachePath_def
          IPMatcher_load_again split: sum.splits)
  qed
qed simp

lemma DownloadAndLoad_synced:
  assumes "disk_laws E" "domains_synced E w rm" "ips_synced E w rm"
    and d: "DownloadAndLoad E cfg ps rm w = (r, rm', w')"
  shows "domains_synced E w' rm' \<and> ips_synced E w' rm'"
proof -
  obtain q rm1 w1 where
    1: "download_domains E cfg ps (rp_ChinaDomain (RuleProviders cfg)) rm w = (q, rm1, w1)"
    by (metis prod_cases3)
  then have s: "domains_synced E w1 rm1" "ips_synced E w1 rm1"
    using download_domains_synced [OF assms(1-3) 1] by simp_all
  show ?thesis
  proof (cases q)
    case (Inl pn)
    then show ?thesis using d 1 s by (simp add: DownloadAndLoad_def)
  next
    case (Inr u)
    then have "download_ips E cfg ps (rp_ChinaIP (RuleProviders cfg)) rm1 w1 = (r, rm', w')"
      using d 1 by (simp add: DownloadAndLoad_def)
    then show ?thesis by (rule download_ips_synced [OF assms(1) s])
  qed
qed

lemma download_strategy:
  shows "rm_strategy (fst (snd (download_domains E cfg ps urls rm w))) = rm_strategy rm"
    and "rm_strategy (fst (snd (download_ips E cfg ps urls rm w))) = rm_strategy rm"
  by (induction urls arbitrary: w) (simp_all split: sum.split prod.split)

lemma DownloadAndLoad_strategy:
  assumes "DownloadAndLoad E cfg ps rm w = (r, rm', w')"
  shows "rm_strategy rm' = rm_strategy rm"
proof -
  obtain q rm1 w1 where
    1: "download_domains E cfg ps (rp_ChinaDomain (RuleProviders cfg)) rm w = (q, rm1, w1)"
    by (metis prod_cases3)
  then have "rm_strategy rm1 = rm_strategy rm" using download_strategy(1) by (metis fst_conv snd_conv)
  moreover have "rm_strategy rm' = rm_strategy rm1"
    using assms download_strategy(2) [of E cfg ps "rp_ChinaIP (RuleProviders cfg)" rm1 w1]
    by (cases q) (simp_all add: DownloadAndLoad_def 1)
  ultimately show ?thesis by simp
qed



end
