(* ===== verification/AppTask.thy ===== *)
theory AppTask
  imports AppDownload
begin

text \<open>
  \<open>internal/app/task.go\<close> and \<open>internal/cron/cron.go\<close>: one update of the proxy list in its
  three phases, and the periodic task that reloads the configuration and runs it.  The
  application state is returned also when a call panics, because the web server recovers
  from panics of its handlers and goes on with the state as it is then.
\<close>

section \<open>task.go\<close>

definition updateProxyStats ::
  "('w, 'c, 'p, 'cp, 'conn) env \<Rightarrow> 'p list \<Rightarrow> 'w \<Rightarrow> cache_vars \<Rightarrow> cache_vars" where
  "updateProxyStats E proxies w v =
     v\<lparr>AllProxiesCount := int (length proxies),
       SSProxiesCount := list_TypeLen E proxies ''ss'',
       SSRProxiesCount := list_TypeLen E proxies ''ssr'',
       VmessProxiesCount := list_TypeLen E proxies ''vmess'',
       TrojanProxiesCount := list_TypeLen E proxies ''trojan'',
       LastCrawlTime := time_Now E w\<rparr>"

text \<open>The first statements: rules and strategy from disk, health check settings.\<close>

definition init_settings :: "ConfigOptions \<Rightarrow> hc_settings" where
  "init_settings cfg =
     \<lparr>DelayConn = HealthCheckConnection cfg,
      DelayTimeout = wrap64 (HealthCheckTimeout cfg * second),
      SpeedConn = SpeedConnection cfg,
      SpeedTimeoutD = wrap64 (SpeedTimeout cfg * second)\<rparr>"

definition init_prepare ::
  "('w, 'c, 'p, 'cp, 'conn) env \<Rightarrow> 'c app \<Rightarrow> 'w \<Rightarrow> 'c app \<times> 'w" where
  "init_prepare E a w =
     (a\<lparr>app_rm := LoadStrategy E w (LoadCache E w (app_rm a))\<rparr>,
      hc_Configure E (init_settings (Config (app_cfg a))) w)"

text \<open>
  Phase 2: the failed URLs are tried again through the proxies that passed the check.  The
  second component of the result is the merged list.
\<close>

definition init_retry ::
  "('w, 'c, 'p, 'cp, 'conn) env \<Rightarrow> string list \<Rightarrow> 'p list \<Rightarrow> 'c app \<Rightarrow> 'w \<Rightarrow>
     'p list go \<times> 'c app \<times> 'w" where
  "init_retry E failedURLs proxies a w =
     (if RetryWithProxy (Config (app_cfg a)) \<and> failedURLs \<noteq> [] \<and> proxies \<noteq> [] then
        (case retryFailedURLs E (Config (app_cfg a)) failedURLs proxies w of
           (Inl pn, w') \<Rightarrow> (Inl pn, a, w')
         | (Inr new, w') \<Rightarrow>
             (if new = [] then (Inr proxies, a, w')
              else
                let (new, w'') = hc_CleanBadProxies E new w' in
                if new = [] then (Inr proxies, a, w'')
                else
                  let merged = list_Deduplication E (list_Derive E (proxies @ new)) in
                  (Inr merged, a\<lparr>app_vars := updateProxyStats E merged w'' (app_vars a)\<rparr>, w'')))
      else (Inr proxies, a, w))"

definition plain_base :: "'p list \<Rightarrow> 'p provider_base" where
  "plain_base ps =
     \<lparr>pb_Proxies = ps, pb_Types = [], pb_Country = [], pb_NotCountry = [], pb_Speed = [], pb_Filter = []\<rparr>"

text \<open>The end of \<open>InitApp\<close>: publish the list, measure it, publish the two texts.\<close>

definition init_publish ::
  "('w, 'c, 'p, 'cp, 'conn) env \<Rightarrow> 'p list \<Rightarrow> 'c app \<Rightarrow> 'w \<Rightarrow> 'c app \<times> 'w" where
  "init_publish E proxies a w =
     (let a = a\<lparr>app_cache := SetProxies E ''proxies'' proxies (app_cache a),
                app_vars := (app_vars a)\<lparr>UsableProxiesCount := int (length proxies)\<rparr>\<rparr>;
          w = (if SpeedTest (Config (app_cfg a)) then hc_SpeedTestAll E proxies w else w);
          a = a\<lparr>app_cache := SetString E ''clashproxies'' (clash_Provide E (plain_base proxies) w) (app_cache a)\<rparr>;
          a = a\<lparr>app_cache := SetString E ''surgeproxies'' (surge_Provide E (plain_base proxies) w) (app_cache a)\<rparr>
      in (a, w))"

text \<open>Phase 2 to the end, for the proxies of phase 1.\<close>

definition init_finish ::
  "('w, 'c, 'p, 'cp, 'conn) env \<Rightarrow> string list \<Rightarrow> 'p list \<Rightarrow> 'c app \<Rightarrow> 'w \<Rightarrow>
     string option go \<times> 'c app \<times> 'w" where
  "init_finish E failedURLs proxies a w =
     (case init_retry E failedURLs proxies a w of
        (Inl pn, a', w') \<Rightarrow> (Inl pn, a', w')
      | (Inr proxies', a', w') \<Rightarrow>
          (case DownloadAndLoad E (Config (app_cfg a')) proxies' (app_rm a') w' of
             (Inl pn, rm, w'') \<Rightarrow> (Inl pn, a'\<lparr>app_rm := rm\<rparr>, w'')
           | (Inr _, rm, w'') \<Rightarrow>
               (let (a'', w3) = init_publish E proxies' (a'\<lparr>app_rm := rm\<rparr>) w''
                in (Inr None, a'', w3))))"

text \<open>
  The error of \<open>InitApp\<close>, if any; \<open>fmt.Sprint\<close> puts no blank between the time and the error.
\<close>

definition InitApp ::
  "('w, 'c, 'p, 'cp, 'conn) env \<Rightarrow> 'c app \<Rightarrow> 'w \<Rightarrow> string option go \<times> 'c app \<times> 'w" where
  "InitApp E a w =
     (let (a, w) = init_prepare E a w in
      case getAllProxies E (Config (app_cfg a)) w of
        (Inl pn, w') \<Rightarrow> (Inl pn, a, w')
      | (Inr (proxies, failedURLs, Some err), w') \<Rightarrow>
          (Inr (Some err), a\<lparr>app_vars := (app_vars a)\<lparr>LastCrawlTime := time_Now E w' @ err\<rparr>\<rparr>, w')
      | (Inr (proxies, failedURLs, None), w') \<Rightarrow>
          (let proxies = list_Deduplication E (list_Derive E proxies);
               a = a\<lparr>app_vars := updateProxyStats E proxies w' (app_vars a)\<rparr>;
               (proxies, w'') = hc_CleanBadProxies E proxies w'
           in init_finish E failedURLs proxies a w''))"

section \<open>cron.go\<close>

text \<open>
  The task gocron runs: an error of the reload is only logged, a failed update is tried
  once more two minutes later.
\<close>

definition appTask ::
  "('w, 'c, 'p, 'cp, 'conn) env \<Rightarrow> 'c app \<Rightarrow> 'w \<Rightarrow> unit go \<times> 'c app \<times> 'w" where
  "appTask E a w =
     (let (err, cfg) = Parse (env_cfg E w) [] (app_cfg a);
          a = a\<lparr>app_cfg := cfg\<rparr> in
      case InitApp E a w of
        (Inl pn, a', w') \<Rightarrow> (Inl pn, a', w')
      | (Inr None, a', w') \<Rightarrow> (Inr (), a', w')
      | (Inr (Some e), a', w') \<Rightarrow>
          (case InitApp E a' w' of
             (Inl pn, a'', w'') \<Rightarrow> (Inl pn, a'', w'')
           | (Inr _, a'', w'') \<Rightarrow> (Inr (), a'', w'')))"

section \<open>What an update does\<close>

lemma init_retry_state:
  assumes "init_retry E failed ps a w = (r, a', w')"
  shows "app_cfg a' = app_cfg a" "app_rm a' = app_rm a" "app_cache a' = app_cache a"
    "app_selected a' = app_selected a"
    "UsableProxiesCount (app_vars a') = UsableProxiesCount (app_vars a)"
  using assms
  by (auto simp: init_retry_def Let_def updateProxyStats_def split: if_splits sum.splits prod.splits)

text \<open>The three texts and lists of the cache, as the handlers of the web server read them.\<close>

definition published :: "('w, 'c, 'p, 'cp, 'conn) env \<Rightarrow> 'p list \<Rightarrow> string \<Rightarrow> string \<Rightarrow> 'c \<Rightarrow> bool" where
  "published E ps clash surge c \<longleftrightarrow>
     GetProxies E c ''proxies'' = Inr ps \<and>
     GetString E c ''clashproxies'' = Inr clash \<and>
     GetString E c ''surgeproxies'' = Inr surge"

lemma init_publish_spec:
  assumes "cache_laws E" and "init_publish E ps a w = (a', w')"
  shows "published E ps (clash_Provide E (plain_base ps) w') (surge_Provide E (plain_base ps) w') (app_cache a')
    \<and> UsableProxiesCount (app_vars a') = int (length ps)
    \<and> app_cfg a' = app_cfg a \<and> app_rm a' = app_rm a \<and> app_selected a' = app_selected a"
  using assms(2)
  by (auto simp: init_publish_def Let_def published_def cache_simps [OF assms(1)])

lemma init_finish_cases:
  assumes "init_finish E failed ps a w = (r, a', w')"
  obtains (retry_panic) pn where "init_retry E failed ps a w = (Inl pn, a', w')" "r = Inl pn"
  | (rules_panic) pn ps1 a1 w1 rm where "init_retry E failed ps a w = (Inr ps1, a1, w1)"
      "DownloadAndLoad E (Config (app_cfg a1)) ps1 (app_rm a1) w1 = (Inl pn, rm, w')"
      "r = Inl pn" "a' = a1\<lparr>app_rm := rm\<rparr>"
  | (finished) ps1 a1 w1 rm w2 u where "init_retry E failed ps a w = (Inr ps1, a1, w1)"
      "DownloadAndLoad E (Config (app_cfg a1)) ps1 (app_rm a1) w1 = (Inr u, rm, w2)"
      "r = Inr None" "init_publish E ps1 (a1\<lparr>app_rm := rm\<rparr>) w2 = (a', w')"
proof -
  obtain q a1 w1 where 1: "init_retry E failed ps a w = (q, a1, w1)" by (metis prod_cases3)
  show ?thesis
  proof (cases q)
    case (Inl pn)
    then show ?thesis using assms 1 retry_panic by (simp add: init_finish_def)
  next
    case (Inr ps1)
    obtain d rm w2 where 2: "DownloadAndLoad E (Config (app_cfg a1)) ps1 (app_rm a1) w1 = (d, rm, w2)"
      by (metis prod_cases3)
    show ?thesis
    proof (cases d)
      case (Inl pn)
      then show ?thesis using assms 1 2 Inr rules_panic by (simp add: init_finish_def)
    next
      case (Inr u)
      then show ?thesis
        using assms 1 2 \<open>q = Inr ps1\<close> finished by (auto simp: init_finish_def Let_def split: prod.splits)
    qed
  qed
qed

lemma InitApp_cases:
  assumes "InitApp E a w = (r, a', w')"
  obtains (fetch_panic) pn where "r = Inl pn" "a' = fst (init_prepare E a w)"
  | (fetch_error) e v where "r = Inr (Some e)" "a' = fst (init_prepare E a w)\<lparr>app_vars :=
        (app_vars a)\<lparr>LastCrawlTime := time_Now E v @ e\<rparr>\<rparr>"
  | (fetched) qs failed w1 ps w2 where
      "getAllProxies E (Config (app_cfg a)) (snd (init_prepare E a w)) = (Inr (qs, failed, None), w1)"
      "hc_CleanBadProxies E (list_Deduplication E (list_Derive E qs)) w1 = (ps, w2)"
      "init_finish E failed ps (fst (init_prepare E a w)\<lparr>app_vars :=
          updateProxyStats E (list_Deduplication E (list_Derive E qs)) w1 (app_vars a)\<rparr>) w2 = (r, a', w')"
proof -
  obtain b v where p: "init_prepare E a w = (b, v)" by force
  then have b: "app_cfg b = app_cfg a" "app_vars b = app_vars a" by (auto simp: init_prepare_def)
  obtain g w1 where g: "getAllProxies E (Config (app_cfg a)) v = (g, w1)" by force
  show ?thesis
  proof (cases g)
    case (Inl pn)
    then show ?thesis using assms p b g fetch_panic [of pn] by (simp add: InitApp_def)
  next
    case (Inr t)
    obtain qs failed e where t: "t = (qs, failed, e)" by (metis prod_cases3)
    show ?thesis
    proof (cases e)
      case None
      then show ?thesis
        using assms p b g Inr t fetched by (auto simp: InitApp_def Let_def split: prod.splits)
    next
      case (Some e)
      then show ?thesis using assms p b g Inr t fetch_error by (simp add: InitApp_def) metis
    qed
  qed
qed

lemma init_prepare_state:
  "app_cfg (fst (init_prepare E a w)) = app_cfg a"
  "app_vars (fst (init_prepare E a w)) = app_vars a"
  "app_cache (fst (init_prepare E a w)) = app_cache a"
  "app_selected (fst (init_prepare E a w)) = app_selected a"
  "app_rm (fst (init_prepare E a w)) = LoadStrategy E w (LoadCache E w (app_rm a))"
  by (simp_all add: init_prepare_def)

lemma init_finish_outcome:
  assumes "cache_laws E" and fin: "init_finish E failed ps a w = (r, a', w')"
  shows "(case r of
       Inr None \<Rightarrow> \<exists>qs. published E qs (clash_Provide E (plain_base qs) w') (surge_Provide E (plain_base qs) w')
                        (app_cache a') \<and> UsableProxiesCount (app_vars a') = int (length qs)
     | Inr (Some e) \<Rightarrow> False
     | Inl pn \<Rightarrow> app_cache a' = app_cache a \<and>
                 UsableProxiesCount (app_vars a') = UsableProxiesCount (app_vars a))
   \<and> app_cfg a' = app_cfg a \<and> app_selected a' = app_selected a
   \<and> (rm_ok (app_rm a) \<longrightarrow> rm_ok (app_rm a'))"
  using fin
proof (cases rule: init_finish_cases)
  case (retry_panic pn)
  then show ?thesis using init_retry_state [OF retry_panic(1)] by simp
next
  case (rules_panic pn ps1 a1 w1 rm)
  then show ?thesis
    using init_retry_state [OF rules_panic(1)] rm_ok_DownloadAndLoad [of "app_rm a1" E _ ps1 w1]
    by simp (metis fst_conv snd_conv)
next
  case (finished ps1 a1 w1 rm w2 u)
  have "rm_ok (app_rm a) \<longrightarrow> rm_ok rm"
    using init_retry_state [OF finished(1)] rm_ok_DownloadAndLoad [of "app_rm a1" E _ ps1 w1] finished(2)
    by (metis fst_conv snd_conv)
  then show ?thesis
    using init_publish_spec [OF assms(1) finished(4)] init_retry_state [OF finished(1)] finished(3) by auto
qed

lemma InitApp_outcome_lemma:
  assumes "cache_laws E" and "InitApp E a w = (r, a', w')"
  shows "(case r of
       Inr None \<Rightarrow> \<exists>ps. published E ps (clash_Provide E (plain_base ps) w') (surge_Provide E (plain_base ps) w')
                        (app_cache a') \<and> UsableProxiesCount (app_vars a') = int (length ps)
     | Inr (Some e) \<Rightarrow> app_cache a' = app_cache a \<and>
                        (\<exists>t. app_vars a' = (app_vars a)\<lparr>LastCrawlTime := t @ e\<rparr>)
     | Inl pn \<Rightarrow> app_cache a' = app_cache a \<and>
                 UsableProxiesCount (app_vars a') = UsableProxiesCount (app_vars a))
   \<and> app_cfg a' = app_cfg a \<and> app_selected a' = app_selected a
   \<and> (rm_ok (app_rm a) \<longrightarrow> rm_ok (app_rm a'))"
  using assms(2)
proof (cases rule: InitApp_cases)
  case (fetched qs failed w1 ps w2)
  show ?thesis
    using init_finish_outcome [OF assms(1) fetched(3)] init_prepare_state [of E a w]
    by (auto simp: rm_ok_LoadStrategy rm_ok_LoadCache updateProxyStats_def split: sum.splits option.splits)
qed (auto simp: init_prepare_state rm_ok_LoadStrategy rm_ok_LoadCache)

text \<open>
  C2. An update either succeeds, and then the list, the two texts made from it and the
  number of usable proxies are published together and agree, or it fails or panics, and
  then everything that was published, and their number, stays as it was: the web server goes on serving the
  last good list.  No outcome touches the configuration or the selected proxy, and the
  rule manager keeps its invariant.
\<close>

theorem InitApp_outcome:
  assumes "cache_laws E" and "InitApp E a w = (r, a', w')"
  shows "(case r of
       Inr None \<Rightarrow> \<exists>ps. published E ps (clash_Provide E (plain_base ps) w') (surge_Provide E (plain_base ps) w')
                        (app_cache a') \<and> UsableProxiesCount (app_vars a') = int (length ps)
     | Inr (Some e) \<Rightarrow> app_cache a' = app_cache a \<and>
                        (\<exists>t. app_vars a' = (app_vars a)\<lparr>LastCrawlTime := t @ e\<rparr>)
     | Inl pn \<Rightarrow> app_cache a' = app_cache a \<and>
                 UsableProxiesCount (app_vars a') = UsableProxiesCount (app_vars a))
   \<and> app_cfg a' = app_cfg a \<and> app_selected a' = app_selected a
   \<and> (rm_ok (app_rm a) \<longrightarrow> rm_ok (app_rm a'))"
  using assms by (rule InitApp_outcome_lemma)

definition demo_app :: "(string \<rightharpoonup> (string \<times> string) cache_val) app" where
  "demo_app =
     \<lparr>app_cfg = \<lparr>configFilePath = ''config.yaml'', Config = demo_config\<rparr>, app_cache = Map.empty,
      app_vars = init_vars, app_rm = globalRuleManager, app_selected = []\<rparr>"

lemma demo_laws': "cache_laws demo_env" using demo_laws by simp

definition demo_ok ::
  "(demo_world, string \<rightharpoonup> (string \<times> string) cache_val, string \<times> string, string, string) env" where
  "demo_ok = demo_env\<lparr>http_Get := (\<lambda>u t w.
     (Inr (replicate 100 CHR ''x'' @ CHR 0x0A # ''- ss:one'', False), w))\<rparr>"

definition demo_body :: string where
  "demo_body = replicate 100 CHR ''x'' @ CHR 0x0A # ''- ss:one''"

lemma demo_ok_facts:
  "init_prepare demo_ok a w = (a\<lparr>app_rm := LoadStrategy demo_ok w (LoadCache demo_ok w (app_rm a))\<rparr>, w)"
  "http_Get demo_ok u t w = (Inr (demo_body, False), w)"
  "hc_CleanBadProxies demo_ok [(''ss'', ''one'')] w = ([(''ss'', ''one'')], w)"
  "list_Deduplication demo_ok (list_Derive demo_ok [(''ss'', ''one''), (''ss'', ''one'')]) = [(''ss'', ''one'')]"
  "SpeedTest demo_config = False" "RetryWithProxy demo_config = False"
  "RuleProviders demo_config = \<lparr>rp_ChinaDomain = [china_domain_url], rp_ChinaIP = [china_ip_url]\<rparr>"
  by (simp_all add: demo_ok_def demo_env_def demo_body_def init_prepare_def demo_config_def
      set_defaults_def zero_config_def or_default_def default_providers_def)

lemma demo_ok_lines: "get_lines demo_ok False 0 (split_on (CHR 0x0A) demo_body) = Inr [(''ss'', ''one'')]"
proof -
  have "split_on (CHR 0x0A) demo_body = [replicate 100 CHR ''x'', ''- ss:one'']"
    by (simp add: demo_body_def split_on_append_sep)
  moreover have "convert2Proxy demo_ok ''ss:one'' = Inr (Some (''ss'', ''one''))"
    "proxy_Name demo_ok (''ss'', ''one'') = ''one''"
    by (simp_all add: demo_ok_def demo_env_def convert2Proxy_def demo_json_def demo_proxy_def splitn2_def)
  ultimately show ?thesis by (simp add: get_line_def)
qed

lemma demo_ok_fetch:
  "getAllProxies demo_ok demo_config w = (Inr ([(''ss'', ''one''), (''ss'', ''one'')], [], None), w)"
proof -
  have "getProxies demo_ok u w = (Inr (split_on (CHR 0x0A) demo_body), w)" for u
  proof -
    have "length (split_on (CHR 0x0A) demo_body) = 2"
      by (simp add: demo_body_def split_on_append_sep)
    then show ?thesis by (simp add: getProxies_def demo_ok_facts Let_def)
  qed
  then show ?thesis
    by (simp add: getAllProxies_def demo_facts demo_ok_lines)
qed

lemma demo_ok_run: "\<exists>a w'. InitApp demo_ok demo_app w = (Inr None, a, w')"
proof -
  have d: "downloadWithRetry demo_ok cfg u ps w = (Inr (Inr demo_body), w)" for cfg u ps w
    by (simp add: downloadWithRetry_def demo_ok_facts Let_def) (simp add: demo_body_def)
  show ?thesis
    by (simp add: InitApp_def demo_ok_facts demo_app_def demo_ok_fetch init_finish_def init_retry_def
        DownloadAndLoad_def d Let_def) (metis surj_pair)
qed

lemma demo_ok_laws: "cache_laws demo_ok"
  by (simp add: cache_laws_def demo_ok_def demo_env_def)

theorem InitApp_outcome_witness:
  "\<exists>ps a' w'. InitApp demo_ok demo_app (0, Map.empty) = (Inr None, a', w') \<and>
     GetProxies demo_ok (app_cache a') ''proxies'' = Inr ps \<and>
     UsableProxiesCount (app_vars a') = int (length ps) \<and> rm_ok (app_rm a')"
proof -
  obtain a' w' where i: "InitApp demo_ok demo_app (0, Map.empty) = (Inr None, a', w')"
    using demo_ok_run by blast
  from InitApp_outcome [OF demo_ok_laws i] i show ?thesis
    by (auto simp: published_def demo_app_def rm_ok_global)
qed

section \<open>Only checked proxies are published\<close>

lemma init_retry_checked:
  assumes hc: "\<And>ps w. \<forall>p \<in> set (fst (hc_CleanBadProxies E ps w)). P p"
    and dd: "\<And>ps. \<forall>p \<in> set ps. P p \<Longrightarrow> \<forall>p \<in> set (list_Deduplication E (list_Derive E ps)). P p"
    and ps: "\<forall>p \<in> set ps. P p"
    and r: "init_retry E failed ps a w = (Inr ps', a', w')"
  shows "\<forall>p \<in> set ps'. P p"
proof -
  have new: "\<forall>p \<in> set ns. P p" if "hc_CleanBadProxies E qs v = (ns, u)" for qs v ns u
    using hc [of qs v] that by simp
  from r have "ps' = ps \<or>
      (\<exists>qs v ns u. hc_CleanBadProxies E qs v = (ns, u) \<and> ps' = list_Deduplication E (list_Derive E (ps @ ns)))"
    by (simp add: init_retry_def Let_def split: if_splits sum.splits prod.splits) metis+
  then show ?thesis
  proof (elim disjE exE conjE)
    fix qs v ns u assume n: "hc_CleanBadProxies E qs v = (ns, u)"
      and "ps' = list_Deduplication E (list_Derive E (ps @ ns))"
    moreover have "\<forall>p \<in> set (ps @ ns). P p" using ps new [OF n] by auto
    ultimately show ?thesis using dd by blast
  qed (simp add: ps)
qed



section \<open>The periodic task and the configuration\<close>

lemma getAllProxies_no_servers:
  "ServerUrl cfg = None \<Longrightarrow> getAllProxies E cfg w = (Inr ([], [], Some no_proxy_err), w)"
  by (simp add: getAllProxies_def)

lemma InitApp_no_servers:
  assumes "ServerUrl (Config (app_cfg a)) = None"
  shows "\<exists>a' w'. InitApp E a w = (Inr (Some no_proxy_err), a', w') \<and>
    app_cfg a' = app_cfg a \<and> app_cache a' = app_cache a"
  using assms by (simp add: InitApp_def init_prepare_def getAllProxies_no_servers)

text \<open>
  C9. The task reloads the configuration into the running one.  If the file has lost its
  server list, the reload is only logged, yet it has already replaced the whole
  configuration, without defaults: both update attempts then fail without a request, and
  the broken configuration stays in force while the old proxies are served.
\<close>

theorem appTask_config_wiped:
  assumes read: "ReadFile (env_cfg E w) (configFilePath (app_cfg a)) = Inr d"
    and yaml: "cfg_yaml (env_cfg E w) d zero_config = (c, None)"
    and servers: "ServerUrl c = None"
  shows "\<exists>a' w'. appTask E a w = (Inr (), a', w') \<and>
    Config (app_cfg a') = c \<and> app_cache a' = app_cache a"
proof -
  have p: "Parse (env_cfg E w) [] (app_cfg a) =
      (Some NoServerUrl, \<lparr>configFilePath = configFilePath (app_cfg a), Config = c\<rparr>)"
    using Parse_NoServerUrl [of "env_cfg E w" "[]" "app_cfg a" d c] assms by simp
  let ?b = "a\<lparr>app_cfg := \<lparr>configFilePath = configFilePath (app_cfg a), Config = c\<rparr>\<rparr>"
  obtain a1 w1 where 1: "InitApp E ?b w = (Inr (Some no_proxy_err), a1, w1)"
    and a1: "app_cfg a1 = app_cfg ?b" "app_cache a1 = app_cache a"
    using InitApp_no_servers [of ?b E w] servers by auto
  obtain a2 w2 where 2: "InitApp E a1 w1 = (Inr (Some no_proxy_err), a2, w2)"
    and a2: "app_cfg a2 = app_cfg a1" "app_cache a2 = app_cache a1"
    using InitApp_no_servers [of a1 E w1] servers a1 by auto
  have "appTask E a w = (Inr (), a2, w2)" by (simp add: appTask_def p 1 2)
  then show ?thesis using a1 a2 by auto
qed

theorem appTask_config_wiped_witness:
  "\<exists>a' w'. appTask demo_env (demo_app\<lparr>app_cfg := \<lparr>configFilePath = ''empty.yaml'', Config = demo_config\<rparr>\<rparr>)
       (0, Map.empty) = (Inr (), a', w') \<and> Config (app_cfg a') = zero_config"
proof -
  let ?a = "demo_app\<lparr>app_cfg := \<lparr>configFilePath = ''empty.yaml'', Config = demo_config\<rparr>\<rparr>"
  have "\<exists>a' w'. appTask demo_env ?a (0, Map.empty) = (Inr (), a', w') \<and>
      Config (app_cfg a') = zero_config \<and> app_cache a' = app_cache ?a"
    by (rule appTask_config_wiped [where d = "''empty.yaml''"])
       (simp_all add: demo_env_def demo_cfg_env_def ReadFile_def has_prefix_def zero_config_def)
  then show ?thesis by blast
qed

text \<open>
  A configuration that cannot be read or decoded is no obstacle: the task keeps the
  remembered path, and where reading fails also the configuration, and updates with it.
\<close>

lemma appTask_unreadable_config:
  assumes "ReadFile (env_cfg E w) (configFilePath (app_cfg a)) = Inl e"
  shows "appTask E a w =
    (case InitApp E a w of
       (Inr (Some err), a', w') \<Rightarrow>
          (case InitApp E a' w' of (r, a'', w'') \<Rightarrow> (map_sum id (\<lambda>_. ()) r, a'', w''))
     | (r, a', w') \<Rightarrow> (map_sum id (\<lambda>_. ()) r, a', w'))"
proof -
  have "Parse (env_cfg E w) [] (app_cfg a) = (Some e, app_cfg a)"
    using assms by (simp add: Parse_def)
  then show ?thesis
    by (auto simp: appTask_def split: sum.splits prod.splits option.splits)
qed

end
