(* ===== verification/AppMixed.thy ===== *)
theory AppMixed
  imports AppTask
begin

text \<open>
  \<open>internal/app/mixed_server.go\<close>: the local port that speaks SOCKS5 and HTTP CONNECT.  A
  client is the bytes it sends until it closes or is given up on; a handler yields what it
  writes to the client in order, and the relay it starts, if any: the connection dialled
  and the client's bytes not consumed yet.
\<close>

section \<open>Dialling\<close>

datatype dial_err = NoProxySelected | NotInCache string | ConvertProxy string | DialFailed string

definition resolveTarget :: "string \<Rightarrow> string \<Rightarrow> Metadata" where
  "resolveTarget host portStr =
     (let meta = zero_metadata\<lparr>md_NetWork := TCP, md_DstPort := portStr\<rparr> in
      case parse_ip host of
        Some ip \<Rightarrow>
          (if to4 ip \<noteq> None then meta\<lparr>md_AddrType := AtypIPv4, md_DstIP := Some ip\<rparr>
           else meta\<lparr>md_AddrType := AtypIPv6, md_DstIP := Some ip\<rparr>)
      | None \<Rightarrow> meta\<lparr>md_AddrType := AtypDomainName, md_Host := host\<rparr>)"

fun find_name :: "('w, 'c, 'p, 'cp, 'conn) env \<Rightarrow> string \<Rightarrow> 'p list \<Rightarrow> 'p option" where
  "find_name E name [] = None"
| "find_name E name (p # ps) = (if proxy_Name E p = name then Some p else find_name E name ps)"

definition dialSelectedProxy ::
  "('w, 'c, 'p, 'cp, 'conn) env \<Rightarrow> 'c app \<Rightarrow> Metadata \<Rightarrow> 'w \<Rightarrow> (dial_err + 'conn) go \<times> 'w" where
  "dialSelectedProxy E a meta w =
     (let name = GetSelectedProxyName a in
      if name = [] then (Inr (Inl NoProxySelected), w)
      else case GetProxies E (app_cache a) ''proxies'' of
        Inl pn \<Rightarrow> (Inl pn, w)
      | Inr proxies \<Rightarrow>
          (case find_name E name proxies of
             None \<Rightarrow> (Inr (Inl (NotInCache name)), w)
           | Some p \<Rightarrow>
               (case proxyToClash E p of
                  Inl pn \<Rightarrow> (Inl pn, w)
                | Inr (Inl err) \<Rightarrow> (Inr (Inl (ConvertProxy err)), w)
                | Inr (Inr cp) \<Rightarrow>
                    (case proxy_Dial E cp meta w of
                       (Inl err, w') \<Rightarrow> (Inr (Inl (DialFailed err)), w')
                     | (Inr conn, w') \<Rightarrow> (Inr (Inr conn), w')))))"

definition dialSelectedOrDirect ::
  "('w, 'c, 'p, 'cp, 'conn) env \<Rightarrow> 'c app \<Rightarrow> string \<Rightarrow> string \<Rightarrow> 'w \<Rightarrow> (dial_err + 'conn) go \<times> 'w" where
  "dialSelectedOrDirect E a host portStr w =
     (let addr = join_host_port host portStr in
      if ShouldDirect (app_rm a) addr then
        (case net_Dial E addr w of
           (Inl err, w') \<Rightarrow> (Inr (Inl (DialFailed err)), w')
         | (Inr conn, w') \<Rightarrow> (Inr (Inr conn), w'))
      else dialSelectedProxy E a (resolveTarget host portStr) w)"

section \<open>SOCKS5\<close>

text \<open>What a handler did: the writes to the client and the relay.\<close>

record 'conn served =
  sv_writes :: "bytes list"
  sv_relay :: "('conn \<times> bytes) option"

definition closed :: "bytes list \<Rightarrow> 'conn served" where
  "closed ws = \<lparr>sv_writes = ws, sv_relay = None\<rparr>"

definition socks5_address :: "byte \<Rightarrow> bytes \<Rightarrow> (string \<times> bytes) option" where
  "socks5_address atyp inp =
     (if atyp = 1 then map_option (\<lambda>(ip, r). (ip_string ip, r)) (read_full 4 inp)
      else if atyp = 3 then
        (case read_full 1 inp of
           None \<Rightarrow> None
         | Some (lenByte, r) \<Rightarrow>
             map_option (\<lambda>(domain, r). (string_of domain, r)) (read_full (unat (lenByte ! 0)) r))
      else if atyp = 4 then map_option (\<lambda>(ip, r). (ip_string ip, r)) (read_full 16 inp)
      else None)"

definition socks5_reply :: "byte \<Rightarrow> bytes" where
  "socks5_reply code = [5, code, 0, 1, 0, 0, 0, 0, 0, 0]"

text \<open>From the dial to the end of \<open>handleSOCKS5\<close>.\<close>

definition socks5_connect ::
  "('w, 'c, 'p, 'cp, 'conn) env \<Rightarrow> 'c app \<Rightarrow> string \<Rightarrow> string \<Rightarrow> bytes \<Rightarrow> 'w \<Rightarrow> 'conn served go \<times> 'w" where
  "socks5_connect E a host portStr rest w =
     (case dialSelectedOrDirect E a host portStr w of
        (Inl pn, w') \<Rightarrow> (Inl pn, w')
      | (Inr (Inl err), w') \<Rightarrow> (Inr (closed [[5, 0], socks5_reply 4]), w')
      | (Inr (Inr target), w') \<Rightarrow>
          (Inr \<lparr>sv_writes = [[5, 0], socks5_reply 0], sv_relay = Some (target, rest)\<rparr>, w'))"

definition handleSOCKS5 ::
  "('w, 'c, 'p, 'cp, 'conn) env \<Rightarrow> 'c app \<Rightarrow> bytes \<Rightarrow> 'w \<Rightarrow> 'conn served go \<times> 'w" where
  "handleSOCKS5 E a inp w =
     (case read_full 2 inp of
        None \<Rightarrow> (Inr (closed []), w)
      | Some (header, r) \<Rightarrow>
          if header ! 0 \<noteq> 5 then (Inr (closed []), w)
          else case read_full (unat (header ! 1)) r of
            None \<Rightarrow> (Inr (closed []), w)
          | Some (methods, r) \<Rightarrow>
              (case read_full 4 r of
                 None \<Rightarrow> (Inr (closed [[5, 0]]), w)
               | Some (req, r) \<Rightarrow>
                   if req ! 0 \<noteq> 5 \<or> req ! 1 \<noteq> 1 then (Inr (closed [[5, 0]]), w)
                   else case socks5_address (req ! 3) r of
                     None \<Rightarrow> (Inr (closed [[5, 0]]), w)
                   | Some (host, r) \<Rightarrow>
                       (case read_full 2 r of
                          None \<Rightarrow> (Inr (closed [[5, 0]]), w)
                        | Some (portBytes, r) \<Rightarrow>
                            socks5_connect E a host
                              (itoa (unat (portBytes ! 0) * 256 + unat (portBytes ! 1))) r w)))"

section \<open>HTTP CONNECT\<close>

text \<open>\<open>bufio.Reader.ReadString('\n')\<close>: the line with its newline and the rest.\<close>

definition read_string :: "string \<Rightarrow> (string \<times> string) option" where
  "read_string s = map_option (\<lambda>i. (take (Suc i) s, drop (Suc i) s)) (index_byte s (CHR 0x0A))"

function read_request_loop :: "string \<Rightarrow> string \<Rightarrow> (string \<times> string) option" where
  "read_request_loop buf s =
     (case read_string s of
        None \<Rightarrow> None
      | Some (line, r) \<Rightarrow>
          (let buf = buf @ line in
           if line = [CHR 0x0D, CHR 0x0A] \<or> line = [CHR 0x0A] then Some (buf, r)
           else read_request_loop buf r))"
  by pat_completeness auto
termination
  by (relation "measure (\<lambda>(b, s). length s)") (auto simp: read_string_def dest: index_byte_Some)

declare read_request_loop.simps [simp del]

definition readHTTPRequest :: "string \<Rightarrow> (string \<times> string) option" where
  "readHTTPRequest s = read_request_loop [] s"

definition http_502 :: bytes where
  "http_502 = bytes_of (''HTTP/1.1 502 Bad Gateway'' @ [CHR 0x0D, CHR 0x0A, CHR 0x0D, CHR 0x0A])"

definition http_200 :: bytes where
  "http_200 = bytes_of (''HTTP/1.1 200 Connection established'' @ [CHR 0x0D, CHR 0x0A, CHR 0x0D, CHR 0x0A])"

definition handleHTTP ::
  "('w, 'c, 'p, 'cp, 'conn) env \<Rightarrow> 'c app \<Rightarrow> bytes \<Rightarrow> 'w \<Rightarrow> 'conn served go \<times> 'w" where
  "handleHTTP E a inp w =
     (case readHTTPRequest (string_of inp) of
        None \<Rightarrow> (Inr (closed []), w)
      | Some (req, rest) \<Rightarrow>
          if \<not> has_prefix req ''CONNECT '' then (Inr (closed []), w)
          else
            let parts = str_fields req in
            if length parts < 2 then (Inr (closed []), w)
            else
              let targetAddr = (if contains (parts ! 1) '':'' then parts ! 1 else parts ! 1 @ '':80'') in
              case split_host_port targetAddr of
                Inl err \<Rightarrow> (Inr (closed []), w)
              | Inr (host, portStr) \<Rightarrow>
                  (case dialSelectedOrDirect E a host portStr w of
                     (Inl pn, w') \<Rightarrow> (Inl pn, w')
                   | (Inr (Inl err), w') \<Rightarrow> (Inr (closed [http_502]), w')
                   | (Inr (Inr target), w') \<Rightarrow>
                       (Inr \<lparr>sv_writes = [http_200], sv_relay = Some (target, bytes_of rest)\<rparr>, w')))"

definition handleMixedConn ::
  "('w, 'c, 'p, 'cp, 'conn) env \<Rightarrow> 'c app \<Rightarrow> bytes \<Rightarrow> 'w \<Rightarrow> 'conn served go \<times> 'w" where
  "handleMixedConn E a inp w =
     (case inp of
        [] \<Rightarrow> (Inr (closed []), w)
      | b # _ \<Rightarrow> if b = 5 then handleSOCKS5 E a inp w else handleHTTP E a inp w)"

section \<open>A client of the SOCKS5 port\<close>

text \<open>What a client sends, as RFC 1928 lays it out.\<close>

datatype socks_addr = SAddr4 bytes | SDomain string | SAddr6 bytes

primrec addr_bytes :: "socks_addr \<Rightarrow> bytes" where
  "addr_bytes (SAddr4 p) = 1 # p"
| "addr_bytes (SDomain d) = 3 # of_nat (length d) # bytes_of d"
| "addr_bytes (SAddr6 p) = 4 # p"

primrec addr_host :: "socks_addr \<Rightarrow> string" where
  "addr_host (SAddr4 p) = ip_string p"
| "addr_host (SDomain d) = d"
| "addr_host (SAddr6 p) = ip_string p"

primrec addr_ok :: "socks_addr \<Rightarrow> bool" where
  "addr_ok (SAddr4 p) = (length p = 4)"
| "addr_ok (SDomain d) = (length d < 256)"
| "addr_ok (SAddr6 p) = (length p = 16)"

definition client_hello :: "bytes \<Rightarrow> bytes" where
  "client_hello methods = 5 # of_nat (length methods) # methods"

definition client_connect :: "socks_addr \<Rightarrow> nat \<Rightarrow> bytes" where
  "client_connect addr port = [5, 1, 0] @ addr_bytes addr @ [of_nat (port div 256), of_nat (port mod 256)]"

lemma socks5_address_decode:
  assumes "addr_ok addr"
  shows "\<exists>t r'. addr_bytes addr @ r = t # r' \<and> socks5_address t r' = Some (addr_host addr, r)"
proof (cases addr)
  case (SDomain d)
  then have "read_full (unat (of_nat (length d) :: byte)) (bytes_of d @ r) = Some (bytes_of d, r)"
    using assms by (simp add: unat_byte read_full_simps)
  with SDomain show ?thesis
    by (simp add: socks5_address_def read_full_1)
qed (use assms in \<open>simp_all add: socks5_address_def read_full_append\<close>)

lemma hello_read:
  assumes "length methods < 256"
  shows "handleSOCKS5 E a (client_hello methods @ inp) w =
    (case read_full 4 inp of
       None \<Rightarrow> (Inr (closed [[5, 0]]), w)
     | Some (req, r) \<Rightarrow>
         if req ! 0 \<noteq> 5 \<or> req ! 1 \<noteq> 1 then (Inr (closed [[5, 0]]), w)
         else case socks5_address (req ! 3) r of
           None \<Rightarrow> (Inr (closed [[5, 0]]), w)
         | Some (host, r) \<Rightarrow>
             (case read_full 2 r of
                None \<Rightarrow> (Inr (closed [[5, 0]]), w)
              | Some (portBytes, r) \<Rightarrow>
                  socks5_connect E a host
                    (itoa (unat (portBytes ! 0) * 256 + unat (portBytes ! 1))) r w))"
  using assms by (simp add: handleSOCKS5_def client_hello_def read_full_2 read_full_append unat_byte)

lemma mixed_hello:
  "handleMixedConn E a (client_hello methods @ inp) w = handleSOCKS5 E a (client_hello methods @ inp) w"
  by (simp add: handleMixedConn_def client_hello_def)

text \<open>
  C5. The server decodes what a SOCKS5 client encodes: after any offer of methods, a
  CONNECT request for an IPv4 address, a name or an IPv6 address and any port leads to
  exactly one dial, of that host and that port, and a successful dial to a relay that
  starts with the very bytes the client sent behind its request.
\<close>

theorem socks5_connect_decodes:
  assumes m: "length methods < 256" and addr: "addr_ok addr" and port: "port < 65536"
  shows "handleMixedConn E a (client_hello methods @ client_connect addr port @ rest) w =
    (case dialSelectedOrDirect E a (addr_host addr) (itoa port) w of
       (Inl pn, w') \<Rightarrow> (Inl pn, w')
     | (Inr (Inl err), w') \<Rightarrow> (Inr (closed [[5, 0], socks5_reply 4]), w')
     | (Inr (Inr target), w') \<Rightarrow>
         (Inr \<lparr>sv_writes = [[5, 0], socks5_reply 0], sv_relay = Some (target, rest)\<rparr>, w'))"
proof -
  let ?p = "[of_nat (port div 256), of_nat (port mod 256)] :: bytes"
  obtain t r where t: "addr_bytes addr @ ?p @ rest = t # r"
    and dec: "socks5_address t r = Some (addr_host addr, ?p @ rest)"
    using socks5_address_decode [OF addr, of "?p @ rest"] by blast
  have req: "client_connect addr port @ rest = 5 # 1 # 0 # t # r"
    using t by (simp add: client_connect_def)
  have "unat (of_nat (port div 256) :: byte) = port div 256"
    "unat (of_nat (port mod 256) :: byte) = port mod 256"
    using port by (simp_all add: unat_byte del: of_nat_mod)
  then have "itoa (unat (?p ! 0) * 256 + unat (?p ! 1)) = itoa port" by simp
  then have "handleMixedConn E a (client_hello methods @ client_connect addr port @ rest) w =
      socks5_connect E a (addr_host addr) (itoa port) rest w"
    using dec by (simp only: mixed_hello hello_read [OF m] req read_full_4)
       (simp add: read_full_2)
  then show ?thesis by (simp add: socks5_connect_def)
qed

text \<open>A state that forwards everything, with a selection that is not in the cache.\<close>

definition demo_forward :: "(string \<rightharpoonup> (string \<times> string) cache_val) app" where
  "demo_forward = demo_app\<lparr>app_selected := ''none'', app_rm := SetStrategy ''all_proxy'' globalRuleManager\<rparr>"

lemma demo_forward_dial:
  "dialSelectedOrDirect demo_env demo_forward h p w = (Inr (Inl (NotInCache ''none'')), w)"
  by (simp add: dialSelectedOrDirect_def ShouldDirect_def demo_forward_def demo_app_def SetStrategy_def
      dialSelectedProxy_def GetSelectedProxyName_def GetProxies_def demo_env_def)

theorem socks5_connect_decodes_witness:
  "handleMixedConn demo_env demo_forward
     (client_hello [0] @ client_connect (SDomain ''a.example'') 443 @ [22, 3]) (0, Map.empty) =
   (Inr (closed [[5, 0], socks5_reply 4]), (0, Map.empty))"
  using socks5_connect_decodes [of "[0]" "SDomain ''a.example''" 443 demo_env
      demo_forward "[22, 3]" "(0, Map.empty)"]
  by (simp add: demo_forward_dial)

text \<open>
  Everything else is refused before anything is dialled: with a command other than
  CONNECT, an unknown address type or a request cut short the connection is closed after
  the method reply, and the world is as before.
\<close>

theorem socks5_refuses:
  assumes m: "length methods < 256"
    and bad: "length inp < 4 \<or> inp ! 0 \<noteq> 5 \<or> inp ! 1 \<noteq> 1 \<or> inp ! 3 \<notin> {1, 3, 4} \<or> length inp < 7"
  shows "handleMixedConn E a (client_hello methods @ inp) w = (Inr (closed [[5, 0]]), w)"
proof (cases "length inp < 4 \<or> inp ! 0 \<noteq> 5 \<or> inp ! 1 \<noteq> 1")
  case True
  then show ?thesis
    by (auto simp: mixed_hello hello_read [OF m] read_full_def nth_take)
next
  case False
  then have ok: "read_full 4 inp = Some (take 4 inp, drop 4 inp)" by (simp add: read_full_def)
  have "socks5_address (take 4 inp ! 3) (drop 4 inp) = None \<or>
      (\<exists>h r. socks5_address (take 4 inp ! 3) (drop 4 inp) = Some (h, r) \<and> read_full 2 r = None)"
    using False bad by (auto simp: socks5_address_def read_full_def)
  then show ?thesis
    using False by (auto simp: mixed_hello hello_read [OF m] ok nth_take)
qed

theorem socks5_refuses_witness:
  "handleMixedConn demo_env demo_forward (client_hello [] @ [5, 2, 0, 1, 127, 0, 0, 1, 0, 80]) (0, Map.empty) =
     (Inr (closed [[5, 0]]), (0, Map.empty))"
  using socks5_refuses [of "[]" "[5, 2, 0, 1, 127, 0, 0, 1, 0, 80]" demo_env demo_forward "(0, Map.empty)"] by simp

section \<open>A client of the HTTP port\<close>

text \<open>A header line: no line feed in it, closed by CR LF.\<close>

definition crlf :: string where "crlf = [CHR 0x0D, CHR 0x0A]"

definition http_lines :: "string list \<Rightarrow> string" where
  "http_lines ls = concat (map (\<lambda>l. l @ crlf) ls)"

lemma read_string_line: "CHR 0x0A \<notin> set l \<Longrightarrow> read_string (l @ crlf @ r) = Some (l @ crlf, r)"
  using index_byte_append [of "CHR 0x0A" "l @ [CHR 0x0D]" r]
  by (simp add: read_string_def crlf_def)

lemma read_request_lines:
  assumes "\<forall>l \<in> set ls. l \<noteq> [] \<and> CHR 0x0A \<notin> set l"
  shows "read_request_loop buf (http_lines ls @ crlf @ r) = Some (buf @ http_lines ls @ crlf, r)"
  using assms
proof (induction ls arbitrary: buf)
  case Nil
  show ?case
    using read_string_line [of "[]" r] by (simp add: read_request_loop.simps http_lines_def crlf_def)
next
  case (Cons l ls)
  have "l @ crlf \<noteq> crlf \<and> l @ crlf \<noteq> [CHR 0x0A]" using Cons.prems by (auto simp: crlf_def)
  moreover have "read_string (l @ crlf @ http_lines ls @ crlf @ r) = Some (l @ crlf, http_lines ls @ crlf @ r)"
    using Cons.prems by (intro read_string_line) simp
  ultimately show ?case
    using Cons by (subst read_request_loop.simps) (simp add: http_lines_def crlf_def)
qed

lemma str_fields_word:
  assumes "x \<noteq> []" "\<forall>c \<in> set x. \<not> is_space c" "is_space d"
  shows "str_fields (x @ d # r) = x # str_fields r"
proof (cases x)
  case (Cons c cs)
  then have "takeWhile (\<lambda>c. \<not> is_space c) (c # cs @ d # r) = x"
    "dropWhile (\<lambda>c. \<not> is_space c) (cs @ d # r) = d # r"
    using assms by (simp_all add: takeWhile_append2 dropWhile_append2)
  then show ?thesis using assms Cons by simp
qed (use assms in simp)

text \<open>
  A CONNECT request for \<open>host:port\<close>, with any header lines, leads to exactly one dial,
  of that host and that port, is answered with the status line that fits the outcome, and
  a relay starts with the bytes behind the blank line that ends the request.
\<close>

theorem http_connect_decodes:
  assumes target: "contains t '':''" "\<forall>c \<in> set t. \<not> is_space c"
    and split: "split_host_port t = Inr (host, port)"
    and lines: "\<forall>l \<in> set hs. l \<noteq> [] \<and> CHR 0x0A \<notin> set l"
  shows "handleMixedConn E a
      (bytes_of (http_lines ((''CONNECT '' @ t @ '' HTTP/1.1'') # hs) @ crlf) @ rest) w =
    (case dialSelectedOrDirect E a host port w of
       (Inl pn, w') \<Rightarrow> (Inl pn, w')
     | (Inr (Inl err), w') \<Rightarrow> (Inr (closed [http_502]), w')
     | (Inr (Inr target), w') \<Rightarrow>
         (Inr \<lparr>sv_writes = [http_200], sv_relay = Some (target, rest)\<rparr>, w'))"
proof -
  let ?ls = "(''CONNECT '' @ t @ '' HTTP/1.1'') # hs"
  let ?inp = "bytes_of (http_lines ?ls @ crlf) @ rest"
  let ?req = "http_lines ?ls @ crlf"
  have nl: "CHR 0x0A \<notin> set t" using target(2) by (auto simp: is_space_def)
  have t: "t \<noteq> []" using target(1) by (auto simp: contains_iff)
  have str: "string_of ?inp = http_lines ?ls @ crlf @ string_of rest"
    by (simp add: string_of_def bytes_of_def o_def)
  have read: "readHTTPRequest (string_of ?inp) = Some (?req, string_of rest)"
    unfolding readHTTPRequest_def str
    using read_request_lines [of ?ls "[]" "string_of rest"] lines nl by auto
  have req: "?req = ''CONNECT'' @ CHR '' '' # t @ CHR '' '' # ''HTTP/1.1'' @ crlf @ http_lines hs @ crlf"
    by (simp add: http_lines_def)
  have pre: "has_prefix ?req ''CONNECT ''" by (simp add: has_prefix_iff http_lines_def)
  have "str_fields ?req = ''CONNECT'' # t # str_fields (''HTTP/1.1'' @ crlf @ http_lines hs @ crlf)"
  proof -
    have "str_fields (''CONNECT'' @ CHR '' '' # r) = ''CONNECT'' # str_fields r" for r
      by (rule str_fields_word) (simp_all add: is_space_def)
    moreover have "str_fields (t @ CHR '' '' # r) = t # str_fields r" for r
      by (rule str_fields_word [OF t target(2)]) (simp add: is_space_def)
    ultimately show ?thesis unfolding req by (simp only:)
  qed
  then have parts: "str_fields ?req ! 1 = t" "\<not> length (str_fields ?req) < 2" by simp_all
  have "hd ?inp \<noteq> 5 \<and> ?inp \<noteq> []"
    by (simp add: http_lines_def bytes_of_def)
  then have "handleMixedConn E a ?inp w = handleHTTP E a ?inp w"
    by (cases ?inp) (simp_all add: handleMixedConn_def)
  then show ?thesis
    by (simp only: handleHTTP_def read option.case prod.case pre not_True_eq_False if_False Let_def parts
        target(1) if_True split sum.case bytes_string_roundtrip)
qed

theorem http_connect_decodes_witness:
  "handleMixedConn demo_env demo_forward
     (bytes_of (http_lines [''CONNECT a.example:443 HTTP/1.1'', ''Host: a.example''] @ crlf) @ [22, 3]) (0, Map.empty) =
   (Inr (closed [http_502]), (0, Map.empty))"
proof -
  have "contains ''a.example:443'' '':''" "split_host_port ''a.example:443'' = Inr (''a.example'', ''443'')"
    by code_simp+
  then show ?thesis
    using http_connect_decodes [of "''a.example:443''" "''a.example''" "''443''" "[''Host: a.example'']"
        demo_env demo_forward "[22, 3]" "(0, Map.empty)"]
    by (simp add: demo_forward_dial is_space_def)
qed

section \<open>Where traffic goes\<close>

lemma find_name_Some: "find_name E n ps = Some p \<Longrightarrow> p \<in> set ps \<and> proxy_Name E p = n"
  by (induction ps) (auto split: if_splits)


definition demo_selected :: "(string \<rightharpoonup> (string \<times> string) cache_val) app" where
  "demo_selected = demo_app\<lparr>app_selected := ''one'', app_rm := SetStrategy ''all_proxy'' globalRuleManager,
     app_cache := [''proxies'' \<mapsto> VProxies [(''ss'', ''one'')]]\<rparr>"

lemma demo_selected_dial: "dialSelectedOrDirect demo_env demo_selected h p w = (Inr (Inr ''one''), w)"
  by (simp add: dialSelectedOrDirect_def ShouldDirect_def demo_selected_def demo_app_def SetStrategy_def
      dialSelectedProxy_def GetSelectedProxyName_def GetProxies_def demo_env_def proxyToClash_def
      demo_json_def splitn2_def)


text \<open>
  The metadata handed to an adapter keeps the target: an IPv4 address in a SOCKS5
  request reaches it as the same four octets, typed IPv4, a name as the name, and both are
  valid.
\<close>

lemma resolveTarget_keeps_address:
  "(length p = 4 \<longrightarrow> md_AddrType (resolveTarget (ip_string p) port) = 1 \<and>
      (\<exists>ip. md_DstIP (resolveTarget (ip_string p) port) = Some ip \<and> to4 ip = Some p)) \<and>
   (parse_ip h = None \<longrightarrow> md_AddrType (resolveTarget h port) = 3 \<and>
      md_Host (resolveTarget h port) = h \<and> md_DstIP (resolveTarget h port) = None) \<and>
   (h \<noteq> [] \<longrightarrow> Valid (resolveTarget h port)) \<and>
   md_DstPort (resolveTarget h port) = port"
proof (intro conjI impI)
  assume p: "length p = 4"
  have i: "ip_string p = v4_string p" using p by (cases p) (simp_all add: ip_string_def to4_def)
  have t: "to4 (v4_in_v6_prefix @ p) = Some p" using to4_mapped p by simp
  show "md_AddrType (resolveTarget (ip_string p) port) = 1"
    by (simp add: resolveTarget_def i parse_ip_v4_string [OF p] t)
  show "\<exists>ip. md_DstIP (resolveTarget (ip_string p) port) = Some ip \<and> to4 ip = Some p"
    by (simp add: resolveTarget_def i parse_ip_v4_string [OF p] t)
qed (auto simp: resolveTarget_def Valid_def zero_metadata_def Let_def split: option.splits)

lemma resolveTarget_keeps_address_witness:
  "md_AddrType (resolveTarget (ip_string [127, 0, 0, 1]) ''80'') = 1 \<and>
   md_Host (resolveTarget ''a.example'' ''80'') = ''a.example''"
proof -
  have "parse_ip ''a.example'' = None" by code_simp
  then show ?thesis
    using resolveTarget_keeps_address [of "[127, 0, 0, 1]" "''80''" "''a.example''"] by simp
qed

end
