(* ===== verification/AppRouter.thy ===== *)
theory AppRouter
  imports AppMixed
begin

text \<open>
  \<open>api/router.go\<close> and \<open>main.go\<close>: the handlers of the web server, the choice of its port,
  the drawer put into the start page, the start of the program, and the program as a whole
  as a step relation.  A handler runs as one step.  The middleware \<open>gin.Recovery\<close> turns a
  panic into status 500; the response cache \<open>cache.SiteCache\<close> in front of the handlers, the
  templates and the assets are not modelled.
\<close>

section \<open>Requests and replies\<close>

text \<open>
  A query holds the parameters present in the URL.  The argument of a POST is the field of
  the bound JSON body, or \<open>None\<close> when \<open>ShouldBindJSON\<close> reports an error.
\<close>

type_synonym query = "string \<rightharpoonup> string"

datatype request =
    GetIndex | GetClash | GetSurge | GetClashConfig | GetClashLocalConfig
  | GetClashProxies query | GetSurgeProxies query | GetForceUpdate
  | GetApiProxies | GetApiSelected | PostApiSelect "string option" | PostApiUnselect
  | GetApiStrategy | PostApiStrategy "string option"

datatype reply_body = Text string | Json jvalue | Html string "(string \<times> jvalue) list"

text \<open>A handler may write more than once; the status is that of the first write.\<close>

record reply =
  rp_status :: int
  rp_body :: "reply_body list"

definition reply_of :: "int \<Rightarrow> reply_body \<Rightarrow> reply" where
  "reply_of st b = \<lparr>rp_status = st, rp_body = [b]\<rparr>"

definition DefaultQuery :: "query \<Rightarrow> string \<Rightarrow> string" where
  "DefaultQuery q k = (case q k of None \<Rightarrow> [] | Some v \<Rightarrow> v)"

section \<open>Pages\<close>

definition version :: string where
  "version = ''v0.7.3''"

definition index_page :: "'c app \<Rightarrow> reply" where
  "index_page a =
     (let c = Config (app_cfg a); v = app_vars a in
      reply_of 200 (Html ''assets/html/index.html''
        [(''domain'', JStr (Domain c)), (''request'', JStr (Request c)), (''port'', JStr (Port c)),
         (''all_proxies_count'', JInt (AllProxiesCount v)),
         (''ss_proxies_count'', JInt (SSProxiesCount v)),
         (''ssr_proxies_count'', JInt (SSRProxiesCount v)),
         (''vmess_proxies_count'', JInt (VmessProxiesCount v)),
         (''trojan_proxies_count'', JInt (TrojanProxiesCount v)),
         (''useful_proxies_count'', JInt (UsableProxiesCount v)),
         (''last_crawl_time'', JStr (LastCrawlTime v)),
         (''version'', JStr version)]))"

definition config_page :: "string \<Rightarrow> 'c app \<Rightarrow> reply" where
  "config_page name a =
     (let c = Config (app_cfg a) in
      reply_of 200 (Html name
        [(''domain'', JStr (Domain c)), (''port'', JStr (Port c)), (''request'', JStr (Request c))]))"

definition localconfig_page :: "'c app \<Rightarrow> reply" where
  "localconfig_page a =
     reply_of 200 (Html ''assets/html/clash-config-local.yaml'' [(''port'', JStr (Port (Config (app_cfg a))))])"

section \<open>The proxy lists\<close>

definition clash_proxies ::
  "('w, 'c, 'p, 'cp, 'conn) env \<Rightarrow> query \<Rightarrow> 'c app \<Rightarrow> 'w \<Rightarrow> reply go \<times> 'c app" where
  "clash_proxies E q a w =
     (let t = DefaultQuery q ''type''; c = DefaultQuery q ''c''; nc = DefaultQuery q ''nc'';
          sp = DefaultQuery q ''speed''; f = DefaultQuery q ''filter'';
          base = (\<lambda>ps. \<lparr>pb_Proxies = ps, pb_Types = t, pb_Country = c, pb_NotCountry = nc,
                        pb_Speed = sp, pb_Filter = f\<rparr>) in
      if t = [] \<and> c = [] \<and> nc = [] \<and> sp = [] \<and> f = [] then
        (case GetString E (app_cache a) ''clashproxies'' of
           Inl pn \<Rightarrow> (Inl pn, a)
         | Inr text \<Rightarrow>
             if text \<noteq> [] then (Inr (reply_of 200 (Text text)), a)
             else (case GetProxies E (app_cache a) ''proxies'' of
                Inl pn \<Rightarrow> (Inl pn, a)
              | Inr ps \<Rightarrow>
                  (let text = clash_Provide E (plain_base ps) w in
                   (Inr (reply_of 200 (Text text)),
                    a\<lparr>app_cache := SetString E ''clashproxies'' text (app_cache a)\<rparr>))))
      else if t = ''all'' then
        (case GetProxies E (app_cache a) ''allproxies'' of
           Inl pn \<Rightarrow> (Inl pn, a)
         | Inr ps \<Rightarrow> (Inr (reply_of 200 (Text (clash_Provide E (base ps) w))), a))
      else
        (case GetProxies E (app_cache a) ''proxies'' of
           Inl pn \<Rightarrow> (Inl pn, a)
         | Inr ps \<Rightarrow> (Inr (reply_of 200 (Text (clash_Provide E (base ps) w))), a)))"

text \<open>
  The surge handler differs in two places: its first condition does not look at the filter,
  and the last branch leaves the speed out.
\<close>

definition surge_proxies ::
  "('w, 'c, 'p, 'cp, 'conn) env \<Rightarrow> query \<Rightarrow> 'c app \<Rightarrow> 'w \<Rightarrow> reply go \<times> 'c app" where
  "surge_proxies E q a w =
     (let t = DefaultQuery q ''type''; c = DefaultQuery q ''c''; nc = DefaultQuery q ''nc'';
          sp = DefaultQuery q ''speed''; f = DefaultQuery q ''filter'';
          base = (\<lambda>ps sp. \<lparr>pb_Proxies = ps, pb_Types = t, pb_Country = c, pb_NotCountry = nc,
                           pb_Speed = sp, pb_Filter = f\<rparr>) in
      if t = [] \<and> c = [] \<and> nc = [] \<and> sp = [] then
        (case GetString E (app_cache a) ''surgeproxies'' of
           Inl pn \<Rightarrow> (Inl pn, a)
         | Inr text \<Rightarrow>
             if text \<noteq> [] then (Inr (reply_of 200 (Text text)), a)
             else (case GetProxies E (app_cache a) ''proxies'' of
                Inl pn \<Rightarrow> (Inl pn, a)
              | Inr ps \<Rightarrow>
                  (let text = surge_Provide E (plain_base ps) w in
                   (Inr (reply_of 200 (Text text)),
                    a\<lparr>app_cache := SetString E ''surgeproxies'' text (app_cache a)\<rparr>))))
      else if t = ''all'' then
        (case GetProxies E (app_cache a) ''allproxies'' of
           Inl pn \<Rightarrow> (Inl pn, a)
         | Inr ps \<Rightarrow> (Inr (reply_of 200 (Text (surge_Provide E (base ps sp) w))), a))
      else
        (case GetProxies E (app_cache a) ''proxies'' of
           Inl pn \<Rightarrow> (Inl pn, a)
         | Inr ps \<Rightarrow> (Inr (reply_of 200 (Text (surge_Provide E (base ps []) w))), a)))"

text \<open>There is no return behind the error reply.\<close>

definition forceupdate ::
  "('w, 'c, 'p, 'cp, 'conn) env \<Rightarrow> 'c app \<Rightarrow> 'w \<Rightarrow> reply go \<times> 'c app \<times> 'w" where
  "forceupdate E a w =
     (case InitApp E a w of
        (Inl pn, a', w') \<Rightarrow> (Inl pn, a', w')
      | (Inr err, a', w') \<Rightarrow>
          (Inr \<lparr>rp_status = 200,
                rp_body = (case err of None \<Rightarrow> [] | Some e \<Rightarrow> [Text e]) @ [Text ''Updated'']\<rparr>, a', w'))"

section \<open>The API\<close>

text \<open>The delay of a proxy in the statistics, 0 when there is none.\<close>

definition stat_delay :: "('w, 'c, 'p, 'cp, 'conn) env \<Rightarrow> 'w \<Rightarrow> 'p \<Rightarrow> int" where
  "stat_delay E w p = (case hc_StatsFind E w p of None \<Rightarrow> 0 | Some d \<Rightarrow> d)"

definition named_delay :: "('w, 'c, 'p, 'cp, 'conn) env \<Rightarrow> 'w \<Rightarrow> string \<Rightarrow> 'p list \<Rightarrow> int" where
  "named_delay E w name ps = (case find_name E name ps of None \<Rightarrow> 0 | Some p \<Rightarrow> stat_delay E w p)"

definition proxy_info :: "('w, 'c, 'p, 'cp, 'conn) env \<Rightarrow> 'w \<Rightarrow> 'p \<Rightarrow> jvalue" where
  "proxy_info E w p =
     JObj [(''name'', JStr (proxy_Name E p)), (''type'', JStr (proxy_TypeName E p)),
           (''port'', JInt (proxy_Port E p)), (''delay'', JInt (stat_delay E w p))]"

text \<open>A nil slice is encoded as null.\<close>

definition api_proxies :: "('w, 'c, 'p, 'cp, 'conn) env \<Rightarrow> 'c app \<Rightarrow> 'w \<Rightarrow> reply go" where
  "api_proxies E a w =
     go_bind (GetProxies E (app_cache a) ''proxies'')
       (\<lambda>ps. Inr (reply_of 200 (Json (if ps = [] then JNull else JArr (map (proxy_info E w) ps)))))"

definition api_selected :: "('w, 'c, 'p, 'cp, 'conn) env \<Rightarrow> 'c app \<Rightarrow> 'w \<Rightarrow> reply go" where
  "api_selected E a w =
     (let name = GetSelectedProxyName a in
      if name = [] then Inr (reply_of 200 (Json (JObj [(''selected'', JBool False)])))
      else go_bind (GetProxies E (app_cache a) ''proxies'')
        (\<lambda>ps. Inr (reply_of 200 (Json (JObj [(''selected'', JBool True), (''name'', JStr name),
                 (''delay'', JInt (named_delay E w name ps))])))))"

text \<open>The message of a dial error; \<open>%q\<close> is rendered without its escapes.\<close>

definition dial_err_text :: "dial_err \<Rightarrow> string" where
  "dial_err_text e =
     (case e of
        NoProxySelected \<Rightarrow> ''no proxy selected''
      | NotInCache n \<Rightarrow> ''selected proxy '' @ CHR 0x22 # n @ CHR 0x22 # '' not found in cache''
      | ConvertProxy s \<Rightarrow> ''convert proxy: '' @ s
      | DialFailed s \<Rightarrow> s)"

definition api_select ::
  "('w, 'c, 'p, 'cp, 'conn) env \<Rightarrow> string option \<Rightarrow> 'c app \<Rightarrow> 'w \<Rightarrow> reply go \<times> 'c app \<times> 'w" where
  "api_select E req a w =
     (if req = None \<or> req = Some [] then
        (Inr (reply_of 400 (Json (JObj [(''error'', JStr ''invalid request'')]))), a, w)
      else
        let name = the req; a = SelectProxyName name a;
            meta = resolveTarget ''www.gstatic.com'' ''80'' in
        case dialSelectedProxy E a meta w of
          (Inl pn, w') \<Rightarrow> (Inl pn, a, w')
        | (Inr (Inl err), w') \<Rightarrow>
            (Inr (reply_of 200 (Json (JObj [(''name'', JStr name), (''status'', JStr ''failed''),
                (''error'', JStr (dial_err_text err))]))), a, w')
        | (Inr (Inr conn), w') \<Rightarrow>
            (case GetProxies E (app_cache a) ''proxies'' of
               Inl pn \<Rightarrow> (Inl pn, a, w')
             | Inr ps \<Rightarrow>
                 (Inr (reply_of 200 (Json (JObj [(''name'', JStr name), (''status'', JStr ''connected''),
                    (''delay'', JInt (named_delay E w' name ps))]))), a, w')))"

definition api_unselect :: "'c app \<Rightarrow> reply \<times> 'c app" where
  "api_unselect a = (reply_of 200 (Json (JObj [(''selected'', JBool False)])), UnselectProxy a)"

definition api_get_strategy :: "'c app \<Rightarrow> reply" where
  "api_get_strategy a = reply_of 200 (Json (JObj [(''strategy'', JStr (GetStrategy (app_rm a)))]))"

definition api_set_strategy ::
  "('w, 'c, 'p, 'cp, 'conn) env \<Rightarrow> string option \<Rightarrow> 'c app \<Rightarrow> 'w \<Rightarrow> reply \<times> 'c app \<times> 'w" where
  "api_set_strategy E req a w =
     (case req of
        None \<Rightarrow> (reply_of 400 (Json (JObj [(''error'', JStr ''invalid request'')])), a, w)
      | Some s \<Rightarrow>
          if s \<noteq> ''china_bypass'' \<and> s \<noteq> ''all_proxy'' then
            (reply_of 400 (Json (JObj [(''error'', JStr ''invalid strategy'')])), a, w)
          else
            (reply_of 200 (Json (JObj [(''strategy'', JStr s)])),
             a\<lparr>app_rm := SetStrategy s (app_rm a)\<rparr>, SaveStrategy E s w))"

section \<open>Dispatch\<close>

definition handle ::
  "('w, 'c, 'p, 'cp, 'conn) env \<Rightarrow> request \<Rightarrow> 'c app \<Rightarrow> 'w \<Rightarrow> reply go \<times> 'c app \<times> 'w" where
  "handle E r a w =
     (case r of
        GetIndex \<Rightarrow> (Inr (index_page a), a, w)
      | GetClash \<Rightarrow> (Inr (config_page ''assets/html/clash.html'' a), a, w)
      | GetSurge \<Rightarrow> (Inr (config_page ''assets/html/surge.html'' a), a, w)
      | GetClashConfig \<Rightarrow> (Inr (config_page ''assets/html/clash-config.yaml'' a), a, w)
      | GetClashLocalConfig \<Rightarrow> (Inr (localconfig_page a), a, w)
      | GetClashProxies q \<Rightarrow> (case clash_proxies E q a w of (r, a') \<Rightarrow> (r, a', w))
      | GetSurgeProxies q \<Rightarrow> (case surge_proxies E q a w of (r, a') \<Rightarrow> (r, a', w))
      | GetForceUpdate \<Rightarrow> forceupdate E a w
      | GetApiProxies \<Rightarrow> (api_proxies E a w, a, w)
      | GetApiSelected \<Rightarrow> (api_selected E a w, a, w)
      | PostApiSelect n \<Rightarrow> api_select E n a w
      | PostApiUnselect \<Rightarrow> (case api_unselect a of (r, a') \<Rightarrow> (Inr r, a', w))
      | GetApiStrategy \<Rightarrow> (Inr (api_get_strategy a), a, w)
      | PostApiStrategy s \<Rightarrow> (case api_set_strategy E s a w of (r, a', w') \<Rightarrow> (Inr r, a', w')))"

definition serve ::
  "('w, 'c, 'p, 'cp, 'conn) env \<Rightarrow> request \<Rightarrow> 'c app \<Rightarrow> 'w \<Rightarrow> reply \<times> 'c app \<times> 'w" where
  "serve E r a w =
     (case handle E r a w of
        (Inl pn, a', w') \<Rightarrow> (\<lparr>rp_status = 500, rp_body = []\<rparr>, a', w')
      | (Inr rep, a', w') \<Rightarrow> (rep, a', w'))"

definition serve_port :: "string \<Rightarrow> 'c app \<Rightarrow> string" where
  "serve_port envp a = (if envp \<noteq> [] then envp else Port (Config (app_cfg a)))"

text \<open>\<open>injectDrawer\<close>, its two literals being arguments.\<close>

definition injectDrawer ::
  "('w, 'c, 'p, 'cp, 'conn) env \<Rightarrow> string \<Rightarrow> string \<Rightarrow> string \<Rightarrow> 'w \<Rightarrow> 'w" where
  "injectDrawer E css html path w =
     (case os_ReadFile E w path of
        None \<Rightarrow> w
      | Some content \<Rightarrow>
          (let content = (if contains content ''</head>''
                          then replace1 content ''</head>'' (css @ ''</head>'') else content);
               content = (if contains content ''</body>''
                          then replace1 content ''</body>'' (html @ ''</body>'') else content)
           in os_WriteFile E path content w))"

section \<open>main.go\<close>

text \<open>
  The state the program starts with: the flag, \<open>config.yaml\<close> when it is empty, is parsed,
  and a configuration error ends the program.
\<close>

definition start :: "('w, 'c, 'p, 'cp, 'conn) env \<Rightarrow> 'c \<Rightarrow> string \<Rightarrow> 'w \<Rightarrow> config_err + 'c app" where
  "start E c0 flag w =
     (case Parse (env_cfg E w) (if flag = [] then ''config.yaml'' else flag)
             \<lparr>configFilePath = ''config.yaml'', Config = zero_config\<rparr> of
        (Some e, _) \<Rightarrow> Inl e
      | (None, cfg) \<Rightarrow>
          Inr \<lparr>app_cfg = cfg, app_cache = c0, app_vars = init_vars, app_rm = globalRuleManager,
               app_selected = []\<rparr>)"

section \<open>The running program\<close>

text \<open>
  The steps of the running program: a request is served, the periodic task or an update
  runs, a client of the proxy port is served, or the world changes by itself.  A panic
  outside a web handler ends the program, so it has no step.
\<close>

inductive step ::
  "('w, 'c, 'p, 'cp, 'conn) env \<Rightarrow> 'c app \<times> 'w \<Rightarrow> 'c app \<times> 'w \<Rightarrow> bool" for E where
  request: "serve E r a w = (rep, a', w') \<Longrightarrow> step E (a, w) (a', w')"
| cron: "appTask E a w = (Inr u, a', w') \<Longrightarrow> step E (a, w) (a', w')"
| init: "InitApp E a w = (Inr e, a', w') \<Longrightarrow> step E (a, w) (a', w')"
| conn: "handleMixedConn E a inp w = (Inr s, w') \<Longrightarrow> step E (a, w) (a, w')"
| world: "step E (a, w) (a, w')"

inductive_cases stepE: "step E s t"

inductive reachable :: "('w, 'c, 'p, 'cp, 'conn) env \<Rightarrow> 'c \<Rightarrow> 'c app \<times> 'w \<Rightarrow> bool" for E c0 where
  started: "start E c0 flag w = Inr a \<Longrightarrow> reachable E c0 (a, w)"
| steps: "reachable E c0 s \<Longrightarrow> step E s t \<Longrightarrow> reachable E c0 t"

text \<open>A store without entries.\<close>

definition empty_cache :: "('w, 'c, 'p, 'cp, 'conn) env \<Rightarrow> 'c \<Rightarrow> bool" where
  "empty_cache E c \<longleftrightarrow> (\<forall>k. cache_Get E c k = None)"

section \<open>The invariant of the program\<close>

text \<open>
  What the handlers show: there is one list \<open>ps\<close> under \<open>proxies\<close>, the number of usable
  proxies is its length, the two cached texts are empty or made from it, and nothing is
  stored under \<open>allproxies\<close>.
\<close>

definition text_of :: "('w, 'c, 'p, 'cp, 'conn) env \<Rightarrow> 'c \<Rightarrow> string \<Rightarrow> ('w \<Rightarrow> string) \<Rightarrow> bool" where
  "text_of E c k f \<longleftrightarrow> (\<exists>t. GetString E c k = Inr t \<and> (t = [] \<or> (\<exists>w. t = f w)))"

definition view_ok :: "('w, 'c, 'p, 'cp, 'conn) env \<Rightarrow> 'c \<Rightarrow> 'p list \<Rightarrow> bool" where
  "view_ok E c ps \<longleftrightarrow>
     GetProxies E c ''proxies'' = Inr ps \<and>
     text_of E c ''clashproxies'' (clash_Provide E (plain_base ps)) \<and>
     text_of E c ''surgeproxies'' (surge_Provide E (plain_base ps)) \<and>
     cache_Get E c ''allproxies'' = None"

definition app_ok :: "('w, 'c, 'p, 'cp, 'conn) env \<Rightarrow> 'c app \<Rightarrow> bool" where
  "app_ok E a \<longleftrightarrow> rm_ok (app_rm a) \<and>
     (\<exists>ps. view_ok E (app_cache a) ps \<and> UsableProxiesCount (app_vars a) = int (length ps))"

lemma view_ok_start: "empty_cache E c \<Longrightarrow> view_ok E c []"
  by (simp add: view_ok_def text_of_def empty_cache_def GetProxies_def GetString_def)

lemma view_ok_text:
  assumes "cache_laws E" "view_ok E c ps"
  shows "view_ok E (SetString E ''clashproxies'' (clash_Provide E (plain_base ps) w) c) ps"
    and "view_ok E (SetString E ''surgeproxies'' (surge_Provide E (plain_base ps) w) c) ps"
proof -
  have "cache_Get E (SetString E k v c) ''allproxies'' = (if k = ''allproxies'' then Some (VString v) else None)" for k v
    using assms by (auto simp: SetString_def cache_Get_Set view_ok_def)
  then show "view_ok E (SetString E ''clashproxies'' (clash_Provide E (plain_base ps) w) c) ps"
    and "view_ok E (SetString E ''surgeproxies'' (surge_Provide E (plain_base ps) w) c) ps"
    using assms(2) by (auto simp: view_ok_def text_of_def cache_simps [OF assms(1)])
qed

lemma init_publish_view:
  assumes "cache_laws E" "cache_Get E (app_cache a) ''allproxies'' = None"
    and "init_publish E ps a w = (a', w')"
  shows "view_ok E (app_cache a') ps"
proof -
  have "cache_Get E (app_cache a') ''allproxies'' = None"
    using assms(2,3) by (auto simp: init_publish_def Let_def SetString_def SetProxies_def cache_Get_Set [OF assms(1)])
  then show ?thesis
    using init_publish_spec [OF assms(1,3)] by (auto simp: view_ok_def text_of_def published_def)
qed

lemma InitApp_view:
  assumes "cache_laws E" "cache_Get E (app_cache a) ''allproxies'' = None"
    and "InitApp E a w = (Inr None, a', w')"
  shows "\<exists>ps. view_ok E (app_cache a') ps \<and> UsableProxiesCount (app_vars a') = int (length ps)"
  using assms(3)
proof (cases rule: InitApp_cases)
  case (fetched qs failed w1 ps w2)
  from fetched(3) show ?thesis
  proof (cases rule: init_finish_cases)
    case (finished ps1 a1 w3 rm w4 u)
    then have "cache_Get E (app_cache (a1\<lparr>app_rm := rm\<rparr>)) ''allproxies'' = None"
      using init_retry_state [OF finished(1)] assms(2) by (simp add: init_prepare_state)
    from init_publish_view [OF assms(1) this finished(4)] show ?thesis
      using init_publish_spec [OF assms(1) finished(4)] by auto
  qed auto
qed auto

lemma app_ok_InitApp:
  assumes laws: "cache_laws E" and a: "app_ok E a" and i: "InitApp E a w = (r, a', w')"
  shows "app_ok E a'"
proof -
  note o = InitApp_outcome_lemma [OF laws i]
  have rm: "rm_ok (app_rm a')" using o a by (simp add: app_ok_def)
  show ?thesis
  proof (cases "r = Inr None")
    case True
    then show ?thesis
      using InitApp_view [OF laws _ i [unfolded True]] a rm by (auto simp: app_ok_def view_ok_def)
  next
    case False
    then have "app_cache a' = app_cache a \<and> UsableProxiesCount (app_vars a') = UsableProxiesCount (app_vars a)"
      using o by (auto split: sum.splits option.splits)
    then show ?thesis using a rm by (simp add: app_ok_def)
  qed
qed

lemma app_ok_cache:
  "app_ok E a \<Longrightarrow> (\<And>ps. view_ok E (app_cache a) ps \<Longrightarrow> view_ok E c ps) \<Longrightarrow> app_ok E (a\<lparr>app_cache := c\<rparr>)"
  by (auto simp: app_ok_def)

lemma view_reads:
  assumes "view_ok E c ps"
  shows "GetProxies E c ''proxies'' = Inr ps" "GetProxies E c ''allproxies'' = Inr []"
  using assms by (simp_all add: view_ok_def GetProxies_def)

lemma app_ok_clash:
  assumes "cache_laws E" "app_ok E a" "clash_proxies E q a w = (r, a')"
  shows "app_ok E a' \<and> is_ok r"
proof -
  obtain ps where v: "view_ok E (app_cache a) ps" using assms(2) by (auto simp: app_ok_def)
  then obtain t where t: "GetString E (app_cache a) ''clashproxies'' = Inr t"
    by (auto simp: view_ok_def text_of_def)
  have "app_ok E (a\<lparr>app_cache := SetString E ''clashproxies'' (clash_Provide E (plain_base ps) w) (app_cache a)\<rparr>)"
  proof (rule app_ok_cache [OF assms(2)])
    fix qs assume qs: "view_ok E (app_cache a) qs"
    with v have "qs = ps" by (simp add: view_ok_def)
    then show "view_ok E (SetString E ''clashproxies'' (clash_Provide E (plain_base ps) w) (app_cache a)) qs"
      using qs view_ok_text(1) [OF assms(1)] by simp
  qed
  then show ?thesis
    using assms(2,3) view_reads [OF v] t
    by (auto simp: clash_proxies_def Let_def split: if_splits)
qed

lemma app_ok_surge:
  assumes "cache_laws E" "app_ok E a" "surge_proxies E q a w = (r, a')"
  shows "app_ok E a' \<and> is_ok r"
proof -
  obtain ps where v: "view_ok E (app_cache a) ps" using assms(2) by (auto simp: app_ok_def)
  then obtain t where t: "GetString E (app_cache a) ''surgeproxies'' = Inr t"
    by (auto simp: view_ok_def text_of_def)
  have "app_ok E (a\<lparr>app_cache := SetString E ''surgeproxies'' (surge_Provide E (plain_base ps) w) (app_cache a)\<rparr>)"
  proof (rule app_ok_cache [OF assms(2)])
    fix qs assume qs: "view_ok E (app_cache a) qs"
    with v have "qs = ps" by (simp add: view_ok_def)
    then show "view_ok E (SetString E ''surgeproxies'' (surge_Provide E (plain_base ps) w) (app_cache a)) qs"
      using qs view_ok_text(2) [OF assms(1)] by simp
  qed
  then show ?thesis
    using assms(2,3) view_reads [OF v] t
    by (auto simp: surge_proxies_def Let_def split: if_splits)
qed

lemma api_select_state:
  assumes "api_select E n a w = (r, a', w')"
  shows "app_cache a' = app_cache a \<and> app_rm a' = app_rm a \<and> app_vars a' = app_vars a \<and> app_cfg a' = app_cfg a"
  using assms
  by (auto simp: api_select_def SelectProxyName_def Let_def split: if_splits sum.splits prod.splits)

lemma app_ok_strategy:
  assumes "app_ok E a" "api_set_strategy E s a w = (r, a', w')"
  shows "app_ok E a'"
  using assms
  by (auto simp: api_set_strategy_def app_ok_def intro: rm_ok_SetStrategy split: option.splits if_splits)

lemma forceupdate_InitApp:
  assumes "forceupdate E a w = (r, a', w')"
  shows "\<exists>i. InitApp E a w = (i, a', w')"
  using assms by (auto simp: forceupdate_def split: sum.splits prod.splits)

lemma app_ok_handle:
  assumes "cache_laws E" "app_ok E a" "handle E r a w = (rep, a', w')"
  shows "app_ok E a'"
proof (cases r)
  case (GetClashProxies q)
  then show ?thesis using assms app_ok_clash [OF assms(1,2)] by (auto simp: handle_def split: prod.splits)
next
  case (GetSurgeProxies q)
  then show ?thesis using assms app_ok_surge [OF assms(1,2)] by (auto simp: handle_def split: prod.splits)
next
  case GetForceUpdate
  then have "forceupdate E a w = (rep, a', w')" using assms(3) by (simp add: handle_def)
  then obtain i where "InitApp E a w = (i, a', w')" by (rule forceupdate_InitApp [THEN exE])
  then show ?thesis by (rule app_ok_InitApp [OF assms(1,2)])
next
  case (PostApiSelect n)
  then have "api_select E n a w = (rep, a', w')" using assms(3) by (simp add: handle_def)
  then show ?thesis using assms(2) api_select_state by (metis app_ok_def)
next
  case PostApiUnselect
  then show ?thesis using assms by (auto simp: handle_def api_unselect_def UnselectProxy_def app_ok_def)
next
  case (PostApiStrategy s)
  then show ?thesis using assms app_ok_strategy [OF assms(2)] by (auto simp: handle_def split: prod.splits)
qed (use assms in \<open>auto simp: handle_def\<close>)

lemma app_ok_serve:
  assumes "cache_laws E" "app_ok E a" "serve E r a w = (rep, a', w')"
  shows "app_ok E a'"
  using assms(3) app_ok_handle [OF assms(1,2)]
  by (auto simp: serve_def split: sum.splits prod.splits)

lemma app_ok_cfg: "app_ok E (a\<lparr>app_cfg := c\<rparr>) = app_ok E a"
  by (simp add: app_ok_def)

lemma appTask_updates:
  assumes "appTask E a w = (r, a', w')"
  obtains cfg i b v where "InitApp E (a\<lparr>app_cfg := cfg\<rparr>) w = (i, b, v)"
    "b = a' \<and> v = w' \<or> (\<exists>j. InitApp E b v = (j, a', w'))"
proof -
  obtain err cfg where p: "Parse (env_cfg E w) [] (app_cfg a) = (err, cfg)" by force
  obtain i b v where i: "InitApp E (a\<lparr>app_cfg := cfg\<rparr>) w = (i, b, v)" by (metis prod_cases3)
  obtain j a2 w2 where j: "InitApp E b v = (j, a2, w2)" by (metis prod_cases3)
  show ?thesis
    by (rule that [OF i]) (use assms p i j in \<open>auto simp: appTask_def split: sum.splits option.splits\<close>)
qed

lemma app_ok_appTask:
  assumes "cache_laws E" "app_ok E a" "appTask E a w = (r, a', w')"
  shows "app_ok E a'"
  using assms(3)
proof (rule appTask_updates)
  fix cfg i b v
  assume i: "InitApp E (a\<lparr>app_cfg := cfg\<rparr>) w = (i, b, v)"
    and j: "b = a' \<and> v = w' \<or> (\<exists>j. InitApp E b v = (j, a', w'))"
  have "app_ok E b" using app_ok_InitApp [OF assms(1) _ i] assms(2) by (simp add: app_ok_cfg)
  then show ?thesis using j app_ok_InitApp [OF assms(1)] by blast
qed

lemma app_ok_step: "cache_laws E \<Longrightarrow> step E s t \<Longrightarrow> app_ok E (fst s) \<Longrightarrow> app_ok E (fst t)"
  by (erule step.cases) (auto intro: app_ok_serve app_ok_appTask app_ok_InitApp)

lemma app_ok_start:
  "empty_cache E c0 \<Longrightarrow> start E c0 flag w = Inr a \<Longrightarrow> app_ok E a"
  by (auto simp: start_def app_ok_def rm_ok_global init_vars_def split: prod.splits option.splits
      intro: view_ok_start)

lemma app_ok_reachable:
  assumes "cache_laws E" "empty_cache E c0" "reachable E c0 s"
  shows "app_ok E (fst s)"
  using assms(3)
  by induction (auto dest: app_ok_start [OF assms(2)] app_ok_step [OF assms(1)])


text \<open>
  In every reachable state the two list handlers answer without a panic; asked for all
  types, they format the empty list, whatever has been fetched: the key \<open>allproxies\<close> they
  read is never written.
\<close>

lemma all_proxies_empty:
  assumes "cache_laws E" "empty_cache E c0" "reachable E c0 (a, w)"
  shows "is_ok (fst (clash_proxies E q a v)) \<and> is_ok (fst (surge_proxies E q a v)) \<and>
    (DefaultQuery q ''type'' = ''all'' \<longrightarrow> clash_proxies E q a v =
       (Inr (reply_of 200 (Text (clash_Provide E
          \<lparr>pb_Proxies = [], pb_Types = ''all'', pb_Country = DefaultQuery q ''c'',
           pb_NotCountry = DefaultQuery q ''nc'', pb_Speed = DefaultQuery q ''speed'',
           pb_Filter = DefaultQuery q ''filter''\<rparr> v))), a))"
proof -
  have a: "app_ok E a" using app_ok_reachable [OF assms] by simp
  then obtain ps where v: "view_ok E (app_cache a) ps" by (auto simp: app_ok_def)
  have "is_ok (fst (clash_proxies E q a v))" "is_ok (fst (surge_proxies E q a v))"
    using app_ok_clash [OF assms(1) a] app_ok_surge [OF assms(1) a] by (metis prod.collapse)+
  then show ?thesis using view_reads(2) [OF v] by (simp add: clash_proxies_def Let_def)
qed

lemma demo_start:
  "start demo_env Map.empty ''c.yaml'' w = Inr (demo_app\<lparr>app_cfg := \<lparr>configFilePath = ''c.yaml'', Config = demo_config\<rparr>\<rparr>)"
  by (simp add: start_def Parse_def ReadFile_def demo_env_def demo_cfg_env_def has_prefix_def
      demo_app_def demo_config_def Let_def)

lemma demo_reachable:
  "empty_cache demo_env Map.empty"
  "reachable demo_env Map.empty (demo_app\<lparr>app_cfg := \<lparr>configFilePath = ''c.yaml'', Config = demo_config\<rparr>\<rparr>, w)"
  using reachable.started [OF demo_start] by (simp_all add: empty_cache_def demo_env_def)


lemma all_proxies_empty_witness:
  "fst (clash_proxies demo_env [''type'' \<mapsto> ''all'']
     (demo_app\<lparr>app_cfg := \<lparr>configFilePath = ''c.yaml'', Config = demo_config\<rparr>\<rparr>) (0, Map.empty)) =
   Inr (reply_of 200 (Text []))"
proof -
  have "DefaultQuery [''type'' \<mapsto> ''all''] ''type'' = ''all''" by (simp add: DefaultQuery_def)
  moreover have "clash_Provide demo_env \<lparr>pb_Proxies = [], pb_Types = t, pb_Country = c, pb_NotCountry = nc,
      pb_Speed = sp, pb_Filter = f\<rparr> w = []" for t c nc sp f w
    by (simp add: demo_env_def)
  ultimately show ?thesis
    using all_proxies_empty [OF demo_laws' demo_reachable(1) demo_reachable(2) [of "(0, Map.empty)"],
        of "[''type'' \<mapsto> ''all'']" "(0, Map.empty)"]
    by simp
qed

section \<open>The strategy over the API\<close>

text \<open>
  The API accepts the two strategies only.  An accepted one is what the next GET shows
  and what a restarted program loads; a request that is refused changes nothing.
\<close>

theorem api_strategy_persists:
  assumes "disk_laws E" "api_set_strategy E (Some s) a w = (rep, a', w')"
  shows "(rp_status rep = 200 \<longleftrightarrow> s \<in> {''china_bypass'', ''all_proxy''}) \<and>
    (rp_status rep = 200 \<longrightarrow>
       api_get_strategy a' = reply_of 200 (Json (JObj [(''strategy'', JStr s)])) \<and>
       GetStrategy (LoadStrategy E w' globalRuleManager) = s) \<and>
    (rp_status rep \<noteq> 200 \<longrightarrow> a' = a \<and> w' = w)"
proof (cases "s \<in> {''china_bypass'', ''all_proxy''}")
  case True
  then have r: "rep = reply_of 200 (Json (JObj [(''strategy'', JStr s)]))"
    "a' = a\<lparr>app_rm := SetStrategy s (app_rm a)\<rparr>" "w' = SaveStrategy E s w"
    using assms(2) by (auto simp: api_set_strategy_def)
  have "os_ReadFile E w' strategyStateFile = Some s"
    using assms(1) r by (simp add: SaveStrategy_def read_write)
  from LoadStrategy_written [OF this, of globalRuleManager]
  have "GetStrategy (LoadStrategy E w' globalRuleManager) = s"
    using True by (auto simp: trim_strategies SetStrategy_def GetStrategy_def)
  then show ?thesis
    using True r by (simp add: reply_of_def api_get_strategy_def GetStrategy_def SetStrategy_def)
next
  case False
  then show ?thesis using assms(2) by (auto simp: api_set_strategy_def reply_of_def split: if_splits)
qed

theorem api_strategy_persists_witness:
  "api_get_strategy (fst (snd (api_set_strategy demo_env (Some ''all_proxy'') demo_app (0, Map.empty)))) =
     reply_of 200 (Json (JObj [(''strategy'', JStr ''all_proxy'')]))"
proof -
  obtain rep a' w' where s: "api_set_strategy demo_env (Some ''all_proxy'') demo_app (0, Map.empty) = (rep, a', w')"
    by (metis prod_cases3)
  from api_strategy_persists [OF demo_disk s] s show ?thesis by simp
qed

text \<open>
  An update forced over the web that fails is reported by a reply that holds the error
  and then, because the handler goes on, the text of a success.
\<close>

lemma forceupdate_error_says_updated:
  assumes "InitApp E a w = (Inr (Some e), a', w')"
  shows "serve E GetForceUpdate a w = (\<lparr>rp_status = 200, rp_body = [Text e, Text ''Updated'']\<rparr>, a', w')"
  using assms by (simp add: serve_def handle_def forceupdate_def)

lemma forceupdate_error_says_updated_witness:
  "\<exists>a' w'. serve demo_env GetForceUpdate (demo_app\<lparr>app_cfg := \<lparr>configFilePath = [], Config = zero_config\<rparr>\<rparr>)
     (0, Map.empty) = (\<lparr>rp_status = 200, rp_body = [Text no_proxy_err, Text ''Updated'']\<rparr>, a', w')"
proof -
  let ?a = "demo_app\<lparr>app_cfg := \<lparr>configFilePath = [], Config = zero_config\<rparr>\<rparr>"
  have "ServerUrl (Config (app_cfg ?a)) = None" by (simp add: zero_config_def)
  then obtain a' w' where "InitApp demo_env ?a (0, Map.empty) = (Inr (Some no_proxy_err), a', w')"
    using InitApp_no_servers [of ?a demo_env "(0, Map.empty)"] by blast
  from forceupdate_error_says_updated [OF this] show ?thesis by blast
qed

text \<open>
  The surge list ignores a filter given alone: once a non-empty text is cached, the
  reply is that unfiltered text, where the clash handler hands the filter to the provider.
\<close>

lemma surge_filter_ignored:
  assumes "GetString E (app_cache a) ''surgeproxies'' = Inr text" "text \<noteq> []"
    and "GetProxies E (app_cache a) ''proxies'' = Inr ps" and "f \<noteq> []"
  shows "surge_proxies E [''filter'' \<mapsto> f] a w = (Inr (reply_of 200 (Text text)), a) \<and>
    clash_proxies E [''filter'' \<mapsto> f] a w =
      (Inr (reply_of 200 (Text (clash_Provide E ((plain_base ps)\<lparr>pb_Filter := f\<rparr>) w))), a)"
  using assms by (simp add: surge_proxies_def clash_proxies_def DefaultQuery_def plain_base_def)

lemma surge_filter_ignored_witness:
  "fst (surge_proxies demo_env [''filter'' \<mapsto> ''JP'']
     (demo_app\<lparr>app_cache := [''surgeproxies'' \<mapsto> VString ''all'', ''proxies'' \<mapsto> VProxies []]\<rparr>) (0, Map.empty)) =
   Inr (reply_of 200 (Text ''all''))"
  using surge_filter_ignored [of demo_env
      "demo_app\<lparr>app_cache := [''surgeproxies'' \<mapsto> VString ''all'', ''proxies'' \<mapsto> VProxies []]\<rparr>"
      "''all''" "[]" "''JP''" "(0, Map.empty)"]
  by (simp add: GetString_def GetProxies_def demo_env_def)

end
