(* ===== verification/ClashLru.thy ===== *)
theory ClashLru
  imports GoPrelude
begin

text \<open>
  \<open>common/cache/lrucache.go\<close>: the cache with a bound on its size, an age for its entries,
  or both.  The linked list, front first, is a list of entries; the map from keys to list
  elements is the position of the key in that list, of which there is one
  (\<open>lru_ok\<close>).  Operations that look at the clock take its value in seconds.  The calls
  of the eviction callback are logged in order.  \<open>CloneTo\<close> shares its entries with the
  original in Go; here the clone is a copy.
\<close>

section \<open>State\<close>

record ('k, 'v) lru_entry =
  le_key :: 'k
  le_value :: 'v
  le_expires :: int

record ('k, 'v) LruCache =
  lc_maxAge :: int
  lc_maxSize :: int
  lc_lru :: "('k, 'v) lru_entry list"
  lc_updateAgeOnGet :: bool
  lc_staleReturn :: bool
  lc_onEvict :: bool
  lc_evicted :: "('k \<times> 'v) list"

datatype lru_option =
    WithEvict | WithUpdateAgeOnGet | WithAge int | WithSize int | WithStale bool

primrec lru_apply_option :: "lru_option \<Rightarrow> ('k, 'v) LruCache \<Rightarrow> ('k, 'v) LruCache" where
  "lru_apply_option WithEvict c = c\<lparr>lc_onEvict := True\<rparr>"
| "lru_apply_option WithUpdateAgeOnGet c = c\<lparr>lc_updateAgeOnGet := True\<rparr>"
| "lru_apply_option (WithAge a) c = c\<lparr>lc_maxAge := a\<rparr>"
| "lru_apply_option (WithSize n) c = c\<lparr>lc_maxSize := n\<rparr>"
| "lru_apply_option (WithStale b) c = c\<lparr>lc_staleReturn := b\<rparr>"

definition NewLRUCache :: "lru_option list \<Rightarrow> ('k, 'v) LruCache" where
  "NewLRUCache options = fold lru_apply_option options
     \<lparr>lc_maxAge = 0, lc_maxSize = 0, lc_lru = [], lc_updateAgeOnGet = False,
      lc_staleReturn = False, lc_onEvict = False, lc_evicted = []\<rparr>"

section \<open>Operations\<close>

fun lru_find :: "'k \<Rightarrow> ('k, 'v) lru_entry list \<Rightarrow> ('k, 'v) lru_entry option" where
  "lru_find k [] = None"
| "lru_find k (e # es) = (if le_key e = k then Some e else lru_find k es)"

definition lru_without :: "'k \<Rightarrow> ('k, 'v) lru_entry list \<Rightarrow> ('k, 'v) lru_entry list" where
  "lru_without k es = filter (\<lambda>e. le_key e \<noteq> k) es"

definition lru_deleteElement :: "('k, 'v) lru_entry \<Rightarrow> ('k, 'v) LruCache \<Rightarrow> ('k, 'v) LruCache" where
  "lru_deleteElement e c =
     c\<lparr>lc_lru := lru_without (le_key e) (lc_lru c),
       lc_evicted := lc_evicted c @ (if lc_onEvict c then [(le_key e, le_value e)] else [])\<rparr>"

function lru_delete_expired :: "int \<Rightarrow> ('k, 'v) LruCache \<Rightarrow> ('k, 'v) LruCache" where
  "lru_delete_expired now c =
     (case lc_lru c of
        [] \<Rightarrow> c
      | e # _ \<Rightarrow>
          if le_expires e \<le> now then lru_delete_expired now (lru_deleteElement e c) else c)"
  by pat_completeness auto
termination
  by (relation "measure (\<lambda>(_, c). length (lc_lru c))")
     (auto simp: lru_deleteElement_def lru_without_def le_imp_less_Suc)

declare lru_delete_expired.simps [simp del]

definition lru_maybeDeleteOldest :: "int \<Rightarrow> ('k, 'v) LruCache \<Rightarrow> ('k, 'v) LruCache" where
  "lru_maybeDeleteOldest now c =
     (if \<not> lc_staleReturn c \<and> 0 < lc_maxAge c then lru_delete_expired now c else c)"

definition lru_SetWithExpire :: "'k \<Rightarrow> 'v \<Rightarrow> int \<Rightarrow> int \<Rightarrow> ('k, 'v) LruCache \<Rightarrow> ('k, 'v) LruCache" where
  "lru_SetWithExpire k v expires now c =
     (let e = \<lparr>le_key = k, le_value = v, le_expires = expires\<rparr> in
      lru_maybeDeleteOldest now
        (case lru_find k (lc_lru c) of
           Some _ \<Rightarrow> c\<lparr>lc_lru := lru_without k (lc_lru c) @ [e]\<rparr>
         | None \<Rightarrow>
             (let c = c\<lparr>lc_lru := lc_lru c @ [e]\<rparr> in
              if 0 < lc_maxSize c \<and> lc_maxSize c < int (length (lc_lru c))
              then lru_deleteElement (hd (lc_lru c)) c else c)))"

definition lru_Set :: "'k \<Rightarrow> 'v \<Rightarrow> int \<Rightarrow> ('k, 'v) LruCache \<Rightarrow> ('k, 'v) LruCache" where
  "lru_Set k v now c =
     lru_SetWithExpire k v (if 0 < lc_maxAge c then now + lc_maxAge c else 0) now c"

definition lru_get :: "'k \<Rightarrow> int \<Rightarrow> ('k, 'v) LruCache \<Rightarrow> ('k, 'v) lru_entry option \<times> ('k, 'v) LruCache" where
  "lru_get k now c =
     (case lru_find k (lc_lru c) of
        None \<Rightarrow> (None, c)
      | Some e \<Rightarrow>
          if \<not> lc_staleReturn c \<and> 0 < lc_maxAge c \<and> le_expires e \<le> now
          then (None, lru_maybeDeleteOldest now (lru_deleteElement e c))
          else
            let e = (if 0 < lc_maxAge c \<and> lc_updateAgeOnGet c
                     then e\<lparr>le_expires := now + lc_maxAge c\<rparr> else e)
            in (Some e, c\<lparr>lc_lru := lru_without k (lc_lru c) @ [e]\<rparr>))"

definition lru_Get :: "'k \<Rightarrow> int \<Rightarrow> ('k, 'v) LruCache \<Rightarrow> 'v option \<times> ('k, 'v) LruCache" where
  "lru_Get k now c = (case lru_get k now c of (e, c') \<Rightarrow> (map_option le_value e, c'))"

definition lru_GetWithExpire ::
  "'k \<Rightarrow> int \<Rightarrow> ('k, 'v) LruCache \<Rightarrow> ('v \<times> int) option \<times> ('k, 'v) LruCache" where
  "lru_GetWithExpire k now c =
     (case lru_get k now c of (e, c') \<Rightarrow> (map_option (\<lambda>e. (le_value e, le_expires e)) e, c'))"

definition lru_Exist :: "'k \<Rightarrow> ('k, 'v) LruCache \<Rightarrow> bool" where
  "lru_Exist k c = (lru_find k (lc_lru c) \<noteq> None)"

definition lru_Delete :: "'k \<Rightarrow> ('k, 'v) LruCache \<Rightarrow> ('k, 'v) LruCache" where
  "lru_Delete k c =
     (case lru_find k (lc_lru c) of None \<Rightarrow> c | Some e \<Rightarrow> lru_deleteElement e c)"

definition lru_CloneTo :: "('k, 'v) LruCache \<Rightarrow> ('k, 'v) LruCache \<Rightarrow> ('k, 'v) LruCache" where
  "lru_CloneTo c n = n\<lparr>lc_lru := lc_lru c\<rparr>"

section \<open>The invariant\<close>

definition lru_keys :: "('k, 'v) LruCache \<Rightarrow> 'k list" where
  "lru_keys c = map le_key (lc_lru c)"

definition lru_ok :: "('k, 'v) LruCache \<Rightarrow> bool" where
  "lru_ok c \<longleftrightarrow> distinct (lru_keys c) \<and>
     (0 < lc_maxSize c \<longrightarrow> int (length (lc_lru c)) \<le> lc_maxSize c)"

lemma lru_find_None: "lru_find k es = None \<longleftrightarrow> k \<notin> le_key ` set es"
  by (induction es) auto

lemma lru_find_Some: "lru_find k es = Some e \<Longrightarrow> e \<in> set es \<and> le_key e = k"
  by (induction es) (auto split: if_splits)

lemma lru_find_iff:
  "distinct (map le_key es) \<Longrightarrow> lru_find k es = Some e \<longleftrightarrow> e \<in> set es \<and> le_key e = k"
  by (induction es) (auto simp: image_iff)

lemma lru_find_append: "lru_find k (es @ fs) = (case lru_find k es of None \<Rightarrow> lru_find k fs | r \<Rightarrow> r)"
  by (induction es) auto

lemma lru_find_without: "lru_find k (lru_without j es) = (if k = j then None else lru_find k es)"
  by (induction es) (auto simp: lru_without_def)

lemma lru_without_absent: "k \<notin> le_key ` set es \<Longrightarrow> lru_without k es = es"
  by (auto simp: lru_without_def filter_id_conv)

lemma length_lru_without:
  "distinct (map le_key es) \<Longrightarrow> k \<in> le_key ` set es \<Longrightarrow> Suc (length (lru_without k es)) = length es"
proof (induction es)
  case (Cons e es)
  then show ?case
    using lru_without_absent [of k es] by (cases "le_key e = k") (auto simp: lru_without_def)
qed simp

lemma distinct_lru_without: "distinct (map le_key es) \<Longrightarrow> distinct (map le_key (lru_without k es))"
  by (simp add: lru_without_def distinct_map_filter)

lemma lru_without_hd: "distinct (map le_key es) \<Longrightarrow> es \<noteq> [] \<Longrightarrow> lru_without (le_key (hd es)) es = tl es"
  by (cases es) (auto simp: lru_without_def image_iff filter_id_conv)

lemma lru_keys_without: "le_key ` set (lru_without k es) = le_key ` set es - {k}"
  by (auto simp: lru_without_def)

lemma lru_deleteElement_simps [simp]:
  "lc_lru (lru_deleteElement e c) = lru_without (le_key e) (lc_lru c)"
  "lc_maxAge (lru_deleteElement e c) = lc_maxAge c"
  "lc_maxSize (lru_deleteElement e c) = lc_maxSize c"
  "lc_staleReturn (lru_deleteElement e c) = lc_staleReturn c"
  "lc_updateAgeOnGet (lru_deleteElement e c) = lc_updateAgeOnGet c"
  by (simp_all add: lru_deleteElement_def)

lemma lru_delete_expired_fields [simp]:
  "lc_maxAge (lru_delete_expired now c) = lc_maxAge c \<and>
   lc_maxSize (lru_delete_expired now c) = lc_maxSize c \<and>
   lc_staleReturn (lru_delete_expired now c) = lc_staleReturn c"
proof (induction now c rule: lru_delete_expired.induct)
  case (1 now c)
  show ?case
  proof (cases "lc_lru c")
    case (Cons e es)
    then show ?thesis
      using 1 [OF Cons] lru_delete_expired.simps [of now c] by simp
  qed (simp add: lru_delete_expired.simps [of now c])
qed

lemma lru_delete_expired_lru:
  "distinct (map le_key (lc_lru c)) \<Longrightarrow>
     lc_lru (lru_delete_expired now c) = dropWhile (\<lambda>e. le_expires e \<le> now) (lc_lru c)"
proof (induction now c rule: lru_delete_expired.induct)
  case (1 now c)
  show ?case
  proof (cases "lc_lru c")
    case (Cons e es)
    then have "lru_without (le_key e) (lc_lru c) = es"
      using 1 lru_without_hd [of "lc_lru c"] by simp
    then show ?thesis
      using 1 Cons lru_delete_expired.simps [of now c] lru_deleteElement_simps(1) [of e c]
        distinct_lru_without [of "lc_lru c" "le_key e"] by simp
  qed (simp add: lru_delete_expired.simps [of now c])
qed

lemma lru_maybe_fields [simp]:
  "lc_maxAge (lru_maybeDeleteOldest now c) = lc_maxAge c"
  "lc_maxSize (lru_maybeDeleteOldest now c) = lc_maxSize c"
  "lc_staleReturn (lru_maybeDeleteOldest now c) = lc_staleReturn c"
  by (simp_all add: lru_maybeDeleteOldest_def)

lemma lru_maybe_lru:
  "distinct (map le_key (lc_lru c)) \<Longrightarrow>
     \<exists>n. lc_lru (lru_maybeDeleteOldest now c) = drop n (lc_lru c)"
  by (auto simp: lru_maybeDeleteOldest_def lru_delete_expired_lru dropWhile_eq_drop intro: exI [of _ 0])

lemma lru_ok_maybe: "lru_ok c \<Longrightarrow> lru_ok (lru_maybeDeleteOldest now c)"
  using lru_maybe_lru [of c now] unfolding lru_ok_def lru_keys_def
  by (auto simp: drop_map [symmetric])

lemma lru_ok_deleteElement: "lru_ok c \<Longrightarrow> lru_ok (lru_deleteElement e c)"
proof -
  assume c: "lru_ok c"
  have "length (lru_without k es) \<le> length es" for k and es :: "('a, 'b) lru_entry list"
    by (simp add: lru_without_def)
  from this [of "le_key e" "lc_lru c"] c show ?thesis
    by (auto simp: lru_ok_def lru_keys_def distinct_lru_without)
qed

lemma lru_ok_moved:
  assumes "lru_ok c" "e \<in> set (lc_lru c)" "le_key f = le_key e"
  shows "lru_ok (c\<lparr>lc_lru := lru_without (le_key e) (lc_lru c) @ [f]\<rparr>)"
  using assms length_lru_without [of "lc_lru c" "le_key e"]
  by (auto simp: lru_ok_def lru_keys_def distinct_lru_without lru_keys_without)

lemma lru_ok_SetWithExpire: "lru_ok c \<Longrightarrow> lru_ok (lru_SetWithExpire k v x now c)"
proof -
  assume c: "lru_ok c"
  let ?e = "\<lparr>le_key = k, le_value = v, le_expires = x\<rparr>"
  show ?thesis
  proof (cases "lru_find k (lc_lru c)")
    case (Some e)
    then have "lru_ok (c\<lparr>lc_lru := lru_without k (lc_lru c) @ [?e]\<rparr>)"
      using lru_ok_moved [OF c, of e ?e] lru_find_Some [OF Some] by simp
    then show ?thesis using Some by (simp add: lru_SetWithExpire_def lru_ok_maybe)
  next
    case None
    let ?b = "c\<lparr>lc_lru := lc_lru c @ [?e]\<rparr>"
    have d: "distinct (map le_key (lc_lru ?b))"
      using c None by (auto simp: lru_ok_def lru_keys_def lru_find_None)
    have "lru_ok (if 0 < lc_maxSize ?b \<and> lc_maxSize ?b < int (length (lc_lru ?b))
        then lru_deleteElement (hd (lc_lru ?b)) ?b else ?b)"
    proof (cases "0 < lc_maxSize ?b \<and> lc_maxSize ?b < int (length (lc_lru ?b))")
      case True
      then have "lc_lru (lru_deleteElement (hd (lc_lru ?b)) ?b) = tl (lc_lru ?b)"
        using lru_without_hd [OF d] by simp
      then show ?thesis
        using True c distinct_tl [OF d] by (simp add: lru_ok_def lru_keys_def map_tl)
    qed (use d in \<open>auto simp: lru_ok_def lru_keys_def\<close>)
    then show ?thesis using None by (simp add: lru_SetWithExpire_def Let_def lru_ok_maybe)
  qed
qed

lemma lru_ok_Set: "lru_ok c \<Longrightarrow> lru_ok (lru_Set k v now c)"
  by (simp add: lru_Set_def lru_ok_SetWithExpire)

lemma lru_ok_get: "lru_ok c \<Longrightarrow> lru_ok (snd (lru_get k now c))"
  using lru_find_Some [of k "lc_lru c"] lru_ok_moved [of c]
  by (auto simp: lru_get_def Let_def lru_ok_maybe lru_ok_deleteElement split: option.split)

lemma lru_ok_Get: "lru_ok c \<Longrightarrow> lru_ok (snd (lru_Get k now c))"
  using lru_ok_get [of c k now] by (cases "lru_get k now c") (simp add: lru_Get_def)

lemma lru_ok_Delete: "lru_ok c \<Longrightarrow> lru_ok (lru_Delete k c)"
  by (auto simp: lru_Delete_def lru_ok_deleteElement split: option.split)

lemma lru_ok_New: "lru_ok (NewLRUCache opts)"
proof -
  have "lc_lru (fold lru_apply_option opts c) = lc_lru c" for c :: "('a, 'b) LruCache"
  proof (induction opts arbitrary: c)
    case (Cons p ps)
    then show ?case by (cases p) simp_all
  qed simp
  then show ?thesis by (simp add: lru_ok_def lru_keys_def NewLRUCache_def)
qed

section \<open>Least recently used\<close>

text \<open>
  What a cache without ages is: the list of its bindings, the most recently used last.
  \<open>recent\<close> is the specification of a store, \<open>map_of\<close> that of a lookup.
\<close>

definition lru_view :: "('k, 'v) LruCache \<Rightarrow> ('k \<times> 'v) list" where
  "lru_view c = map (\<lambda>e. (le_key e, le_value e)) (lc_lru c)"

definition recent :: "int \<Rightarrow> 'k \<Rightarrow> 'v \<Rightarrow> ('k \<times> 'v) list \<Rightarrow> ('k \<times> 'v) list" where
  "recent n k v kvs =
     (let xs = filter (\<lambda>(j, _). j \<noteq> k) kvs @ [(k, v)] in
      if 0 < n then drop (length xs - nat n) xs else xs)"

lemma lru_view_without: "map (\<lambda>e. (le_key e, le_value e)) (lru_without k es) =
    filter (\<lambda>(j, _). j \<noteq> k) (map (\<lambda>e. (le_key e, le_value e)) es)"
  by (induction es) (auto simp: lru_without_def)

lemma lru_find_view: "map_option le_value (lru_find k es) = map_of (map (\<lambda>e. (le_key e, le_value e)) es) k"
  by (induction es) auto

lemma lru_Set_view:
  assumes c: "lru_ok c" and age: "lc_maxAge c \<le> 0"
  shows "lru_view (lru_Set k v now c) = recent (lc_maxSize c) k v (lru_view c)"
proof -
  let ?e = "\<lparr>le_key = k, le_value = v, le_expires = 0\<rparr>"
  have d: "distinct (map le_key (lc_lru c))" using c by (simp add: lru_ok_def lru_keys_def)
  show ?thesis
  proof (cases "lru_find k (lc_lru c)")
    case (Some e)
    then have "Suc (length (lru_without k (lc_lru c))) = length (lc_lru c)"
      using length_lru_without [OF d] lru_find_Some [OF Some] by auto
    then have n: "0 < lc_maxSize c \<Longrightarrow>
        Suc (length (filter (\<lambda>(j, _). j \<noteq> k) (lru_view c))) \<le> nat (lc_maxSize c)"
      using c by (auto simp: lru_ok_def lru_view_def lru_view_without [symmetric])
    have "lru_view (lru_Set k v now c) = filter (\<lambda>(j, _). j \<noteq> k) (lru_view c) @ [(k, v)]"
      using Some age by (simp add: lru_Set_def lru_SetWithExpire_def lru_maybeDeleteOldest_def Let_def
          lru_view_def lru_view_without)
    then show ?thesis using n by (auto simp: recent_def Let_def)
  next
    case None
    then have "filter (\<lambda>(j, _). j \<noteq> k) (lru_view c) = lru_view c"
      by (auto simp: lru_view_def filter_id_conv lru_find_None)
    then have r: "recent (lc_maxSize c) k v (lru_view c) =
        (let xs = lru_view c @ [(k, v)] in
         if 0 < lc_maxSize c then drop (length xs - nat (lc_maxSize c)) xs else xs)"
      by (simp add: recent_def)
    let ?b = "c\<lparr>lc_lru := lc_lru c @ [?e]\<rparr>"
    have db: "distinct (map le_key (lc_lru ?b))" using d None by (auto simp: lru_find_None)
    show ?thesis
    proof (cases "0 < lc_maxSize c \<and> lc_maxSize c < int (length (lc_lru ?b))")
      case True
      then obtain m where m: "nat (lc_maxSize c) = Suc m" by (cases "nat (lc_maxSize c)") auto
      with True have "length (lc_lru c) = Suc m" using c by (auto simp: lru_ok_def)
      moreover have "lc_lru (lru_Set k v now c) = tl (lc_lru ?b)"
        using True None age lru_without_hd [OF db]
        by (simp add: lru_Set_def lru_SetWithExpire_def lru_maybeDeleteOldest_def Let_def)
      ultimately show ?thesis
        unfolding r m Let_def using True
        by (cases "lc_lru c") (simp_all add: lru_view_def map_tl)
    next
      case False
      then have "lc_lru (lru_Set k v now c) = lc_lru ?b"
        using None age by (auto simp: lru_Set_def lru_SetWithExpire_def lru_maybeDeleteOldest_def Let_def)
      then show ?thesis unfolding r Let_def using False by (auto simp: lru_view_def)
    qed
  qed
qed

lemma lru_Get_view:
  assumes "lc_maxAge c \<le> 0"
  shows "fst (lru_Get k now c) = map_of (lru_view c) k \<and>
    lru_view (snd (lru_Get k now c)) =
      (case map_of (lru_view c) k of
         None \<Rightarrow> lru_view c
       | Some v \<Rightarrow> filter (\<lambda>(j, _). j \<noteq> k) (lru_view c) @ [(k, v)])"
proof (cases "lru_find k (lc_lru c)")
  case None
  then have "map_of (lru_view c) k = None" using lru_find_view [of k "lc_lru c"] by (simp add: lru_view_def)
  then show ?thesis using None by (simp add: lru_Get_def lru_get_def)
next
  case (Some e)
  then have "map_of (lru_view c) k = Some (le_value e)"
    using lru_find_view [of k "lc_lru c"] by (simp add: lru_view_def)
  then show ?thesis
    using Some assms lru_find_Some [OF Some]
    by (simp add: lru_Get_def lru_get_def lru_view_def lru_view_without)
qed

text \<open>
  C10. The list and map of the cache implement a bounded store with eviction of the least
  recently used binding: without ages, a store puts the binding last, drops the old one of
  its key, and keeps the most recent bindings up to the size; a lookup finds the binding
  and makes it the most recent one.
\<close>

theorem lru_refines:
  assumes "lru_ok c" and "lc_maxAge c \<le> 0"
  shows "lru_view (lru_Set k v now c) = recent (lc_maxSize c) k v (lru_view c) \<and>
    fst (lru_Get j now c) = map_of (lru_view c) j \<and>
    lru_view (snd (lru_Get j now c)) =
      (case map_of (lru_view c) j of
         None \<Rightarrow> lru_view c
       | Some u \<Rightarrow> filter (\<lambda>(i, _). i \<noteq> j) (lru_view c) @ [(j, u)]) \<and>
    lru_ok (lru_Set k v now c) \<and> lru_ok (snd (lru_Get j now c))"
  using lru_Set_view [OF assms] lru_Get_view [OF assms(2)] lru_ok_Set [OF assms(1)] lru_ok_Get [OF assms(1)]
  by blast

theorem lru_refines_witness:
  "lru_view (lru_Set (3::nat) ''c'' 0 (lru_Set 2 ''b'' 0 (lru_Set 1 ''a'' 0 (NewLRUCache [WithSize 2])))) =
     [(2, ''b''), (3, ''c'')]"
proof -
  let ?c = "lru_Set 2 ''b'' 0 (lru_Set (1::nat) ''a'' 0 (NewLRUCache [WithSize 2]))"
  have "lru_ok ?c" by (intro lru_ok_Set lru_ok_New)
  moreover have "lc_maxAge ?c \<le> 0" "lru_view ?c = [(1, ''a''), (2, ''b'')]" "lc_maxSize ?c = 2" by code_simp+
  ultimately show ?thesis
    using lru_refines [of ?c 3 "''c''" 0] by (simp add: recent_def)
qed

text \<open>
  With an age and without stale answers, a lookup never returns an expired entry, and
  the age a lookup renews is the full one.
\<close>

lemma lru_no_stale:
  assumes "0 < lc_maxAge c" "\<not> lc_staleReturn c" and "lru_GetWithExpire k now c = (Some (v, x), c')"
  shows "now < x \<and> (lc_updateAgeOnGet c \<longrightarrow> x = now + lc_maxAge c)"
  using assms by (auto simp: lru_GetWithExpire_def lru_get_def Let_def split: option.splits if_splits)

lemma lru_no_stale_witness:
  "fst (lru_GetWithExpire (1::nat) 5 (lru_Set 1 ''a'' 0 (NewLRUCache [WithAge 10]))) = Some (''a'', 10) \<and> (5::int) < 10"
proof -
  let ?c = "lru_Set (1::nat) ''a'' 0 (NewLRUCache [WithAge 10])"
  have "0 < lc_maxAge ?c" "\<not> lc_staleReturn ?c" "fst (lru_GetWithExpire 1 5 ?c) = Some (''a'', 10)"
    by code_simp+
  then show ?thesis
    using lru_no_stale [of ?c 1 5 "''a''" 10 "snd (lru_GetWithExpire 1 5 ?c)"]
    by (metis prod.collapse)
qed

end
