(* ===== verification/ClashRules.thy ===== *)
theory ClashRules
  imports ClashConstant ClashLru
begin

unbundle bit_operations_syntax

text \<open>
  The package \<open>rule\<close>: one record type per rule and the interface \<open>C.Rule\<close> they implement,
  here a datatype with a constructor per type; \<open>ParseRule\<close>.  Two rules ask the outside: a
  GEOIP rule the country database, a process rule the operating system, through a cache of
  recent answers that the rules share.
\<close>

section \<open>Rules\<close>

datatype rule =
    DomainRule (rl_domain: string) (rl_adapter: string)
  | DomainSuffixRule (rl_suffix: string) (rl_adapter: string)
  | DomainKeywordRule (rl_keyword: string) (rl_adapter: string)
  | GEOIPRule (rl_country: string) (rl_adapter: string) (rl_noResolveIP: bool)
  | IPCIDRRule (rl_ipnet: IPNet) (rl_adapter: string) (rl_isSourceIP: bool) (rl_noResolveIP: bool)
  | PortRule (rl_adapter: string) (rl_port: string) (rl_isSource: bool)
  | ProcessRule (rl_adapter: string) (rl_process: string)
  | MatchRule (rl_adapter: string)

text \<open>
  \<open>mmdb_Country\<close> is the ISO code the database gives for an address, empty when it has none;
  \<open>FindProcessName\<close> the name of the process that owns a socket, empty on an error.
\<close>

record rule_env =
  mmdb_Country :: "bytes \<Rightarrow> string"
  FindProcessName :: "string \<Rightarrow> bytes option \<Rightarrow> int \<Rightarrow> string"

type_synonym process_cache = "(string, string) LruCache"

definition processCache :: process_cache where
  "processCache = NewLRUCache [WithAge 2, WithSize 64]"

fun Rule_Type :: "rule \<Rightarrow> RuleType" where
  "Rule_Type (DomainRule _ _) = RT_Domain"
| "Rule_Type (DomainSuffixRule _ _) = RT_DomainSuffix"
| "Rule_Type (DomainKeywordRule _ _) = RT_DomainKeyword"
| "Rule_Type (GEOIPRule _ _ _) = RT_GEOIP"
| "Rule_Type (IPCIDRRule _ _ src _) = (if src then RT_SrcIPCIDR else RT_IPCIDR)"
| "Rule_Type (PortRule _ _ src) = (if src then RT_SrcPort else RT_DstPort)"
| "Rule_Type (ProcessRule _ _) = RT_Process"
| "Rule_Type (MatchRule _) = RT_MATCH"

text \<open>\<open>net.IP.IsPrivate\<close>: RFC 1918 and RFC 4193.\<close>

definition IsPrivate :: "bytes \<Rightarrow> bool" where
  "IsPrivate ip =
     (case to4 ip of
        Some p \<Rightarrow> p ! 0 = 10 \<or> (p ! 0 = 172 \<and> p ! 1 AND 0xF0 = 16) \<or> (p ! 0 = 192 \<and> p ! 1 = 168)
      | None \<Rightarrow> length ip = 16 \<and> ip ! 0 AND 0xFE = 0xFC)"

definition process_key :: "Metadata \<Rightarrow> string" where
  "process_key m = NetWork_String (md_NetWork m) @ '':'' @ nil_ip_string (md_SrcIP m) @ '':'' @ md_SrcPort m"

text \<open>\<open>Match\<close> of a process rule, with the cache it reads and fills at time \<open>now\<close>.\<close>

definition Process_Match ::
  "rule_env \<Rightarrow> int \<Rightarrow> string \<Rightarrow> Metadata \<Rightarrow> process_cache \<Rightarrow> bool \<times> process_cache" where
  "Process_Match env now proc m c =
     (let key = process_key m in
      case lru_Get key now c of
        (Some cached, c) \<Rightarrow> (equal_fold cached proc, c)
      | (None, c) \<Rightarrow>
          (case parse_int 64 (md_SrcPort m) of
             (_, Some err) \<Rightarrow> (False, lru_Set key [] now c)
           | (srcPort, None) \<Rightarrow>
               (let name = FindProcessName env (NetWork_String (md_NetWork m)) (md_SrcIP m) srcPort
                in (equal_fold name proc, lru_Set key name now c))))"

text \<open>\<open>Match\<close> of the rules that keep no state.\<close>

definition Domain_Match :: "string \<Rightarrow> Metadata \<Rightarrow> bool" where [simp]:
  "Domain_Match d m = (if md_AddrType m \<noteq> AtypDomainName then False else md_Host m = d)"

definition DomainSuffix_Match :: "string \<Rightarrow> Metadata \<Rightarrow> bool" where [simp]:
  "DomainSuffix_Match s m =
     (if md_AddrType m \<noteq> AtypDomainName then False
      else has_suffix (md_Host m) (CHR ''.'' # s) \<or> md_Host m = s)"

definition DomainKeyword_Match :: "string \<Rightarrow> Metadata \<Rightarrow> bool" where [simp]:
  "DomainKeyword_Match k m = (if md_AddrType m \<noteq> AtypDomainName then False else contains (md_Host m) k)"

definition GEOIP_Match :: "rule_env \<Rightarrow> string \<Rightarrow> Metadata \<Rightarrow> bool" where [simp]:
  "GEOIP_Match env country m =
     (case md_DstIP m of
        None \<Rightarrow> False
      | Some ip \<Rightarrow>
          if equal_fold country ''LAN'' then IsPrivate ip
          else equal_fold (mmdb_Country env ip) country)"

definition IPCIDR_Match :: "IPNet \<Rightarrow> bool \<Rightarrow> Metadata \<Rightarrow> bool" where [simp]:
  "IPCIDR_Match ipnet src m =
     (case (if src then md_SrcIP m else md_DstIP m) of
        None \<Rightarrow> False
      | Some ip \<Rightarrow> net_contains ipnet ip)"

definition Port_Match :: "string \<Rightarrow> bool \<Rightarrow> Metadata \<Rightarrow> bool" where [simp]:
  "Port_Match port src m = ((if src then md_SrcPort m else md_DstPort m) = port)"

fun rule_matches :: "rule_env \<Rightarrow> rule \<Rightarrow> Metadata \<Rightarrow> bool" where
  "rule_matches env (DomainRule d _) m = Domain_Match d m"
| "rule_matches env (DomainSuffixRule s _) m = DomainSuffix_Match s m"
| "rule_matches env (DomainKeywordRule k _) m = DomainKeyword_Match k m"
| "rule_matches env (GEOIPRule country _ _) m = GEOIP_Match env country m"
| "rule_matches env (IPCIDRRule ipnet _ src _) m = IPCIDR_Match ipnet src m"
| "rule_matches env (PortRule _ port src) m = Port_Match port src m"
| "rule_matches env (ProcessRule _ proc) m = False"
| "rule_matches env (MatchRule _) m = True"

definition Rule_Match ::
  "rule_env \<Rightarrow> int \<Rightarrow> rule \<Rightarrow> Metadata \<Rightarrow> process_cache \<Rightarrow> bool \<times> process_cache" where
  "Rule_Match env now r m c =
     (case r of
        ProcessRule _ proc \<Rightarrow> Process_Match env now proc m c
      | _ \<Rightarrow> (rule_matches env r m, c))"

definition Rule_Adapter :: "rule \<Rightarrow> string" where
  "Rule_Adapter r = rl_adapter r"

text \<open>\<open>net.IPNet.String\<close>: the mask as a length, or in hexadecimal when it has a hole.\<close>

definition mask_bits :: "bytes \<Rightarrow> bool list" where
  "mask_bits m = concat (map (\<lambda>b. map (\<lambda>i. bit b (7 - i)) [0..<8]) m)"

definition ipnet_string :: "IPNet \<Rightarrow> string" where
  "ipnet_string n =
     (case network_number_and_mask n of
        ([], _) \<Rightarrow> ''<nil>''
      | (nn, m) \<Rightarrow>
          (let bs = mask_bits m; ones = length (takeWhile (\<lambda>b. b) bs) in
           if m = [] then ''<nil>''
           else if list_ex (\<lambda>b. b) (drop ones bs)
           then ip_string nn @ ''/'' @ concat (map (\<lambda>b. [hex_char (unat b div 16), hex_char (unat b mod 16)]) m)
           else ip_string nn @ ''/'' @ itoa ones))"

fun Rule_Payload :: "rule \<Rightarrow> string" where
  "Rule_Payload (DomainRule d _) = d"
| "Rule_Payload (DomainSuffixRule s _) = s"
| "Rule_Payload (DomainKeywordRule k _) = k"
| "Rule_Payload (GEOIPRule c _ _) = c"
| "Rule_Payload (IPCIDRRule n _ _ _) = ipnet_string n"
| "Rule_Payload (PortRule _ p _) = p"
| "Rule_Payload (ProcessRule _ p) = p"
| "Rule_Payload (MatchRule _) = []"

fun Rule_ShouldResolveIP :: "rule \<Rightarrow> bool" where
  "Rule_ShouldResolveIP (GEOIPRule _ _ nores) = (\<not> nores)"
| "Rule_ShouldResolveIP (IPCIDRRule _ _ _ nores) = (\<not> nores)"
| "Rule_ShouldResolveIP _ = False"

section \<open>Construction\<close>

definition NewDomain :: "string \<Rightarrow> string \<Rightarrow> rule" where
  "NewDomain domain adapter = DomainRule (to_lower domain) adapter"

definition NewDomainSuffix :: "string \<Rightarrow> string \<Rightarrow> rule" where
  "NewDomainSuffix suffix adapter = DomainSuffixRule (to_lower suffix) adapter"

definition NewDomainKeyword :: "string \<Rightarrow> string \<Rightarrow> rule" where
  "NewDomainKeyword keyword adapter = DomainKeywordRule (to_lower keyword) adapter"

definition NewIPCIDR :: "string \<Rightarrow> string \<Rightarrow> bool \<Rightarrow> bool \<Rightarrow> rule option" where
  "NewIPCIDR s adapter src nores = map_option (\<lambda>n. IPCIDRRule n adapter src nores) (parse_cidr s)"

definition NewPort :: "string \<Rightarrow> string \<Rightarrow> bool \<Rightarrow> rule option" where
  "NewPort port adapter src =
     (case parse_uint 16 port of Inl _ \<Rightarrow> None | Inr _ \<Rightarrow> Some (PortRule adapter port src))"

definition HasNoResolve :: "string list \<Rightarrow> bool" where
  "HasNoResolve params = list_ex (\<lambda>p. p = ''no-resolve'') params"

datatype rule_err = ErrPayload | UnsupportedRule string

definition ParseRule :: "string \<Rightarrow> string \<Rightarrow> string \<Rightarrow> string list \<Rightarrow> rule_err + rule" where
  "ParseRule tp payload target params =
     (let ok = (\<lambda>r. case r of None \<Rightarrow> Inl ErrPayload | Some r \<Rightarrow> Inr r) in
      if tp = ''DOMAIN'' then Inr (NewDomain payload target)
      else if tp = ''DOMAIN-SUFFIX'' then Inr (NewDomainSuffix payload target)
      else if tp = ''DOMAIN-KEYWORD'' then Inr (NewDomainKeyword payload target)
      else if tp = ''GEOIP'' then Inr (GEOIPRule payload target (HasNoResolve params))
      else if tp = ''IP-CIDR'' \<or> tp = ''IP-CIDR6'' then
        ok (NewIPCIDR payload target False (HasNoResolve params))
      else if tp = ''SRC-IP-CIDR'' then ok (NewIPCIDR payload target True True)
      else if tp = ''SRC-PORT'' then ok (NewPort payload target True)
      else if tp = ''DST-PORT'' then ok (NewPort payload target False)
      else if tp = ''PROCESS-NAME'' then Inr (ProcessRule target payload)
      else if tp = ''MATCH'' then Inr (MatchRule target)
      else Inl (UnsupportedRule tp))"

section \<open>Facts\<close>

lemma Rule_Match_stateless:
  "Rule_Type r \<noteq> RT_Process \<Longrightarrow> Rule_Match env now r m c = (rule_matches env r m, c)"
  by (cases r) (auto simp: Rule_Match_def)

text \<open>The branch \<open>ParseRule\<close> takes, without the comparisons that lead to it.\<close>

lemma if_eqE: "(if c then x else y) = z \<Longrightarrow> (x = z \<Longrightarrow> P) \<Longrightarrow> (y = z \<Longrightarrow> P) \<Longrightarrow> P"
  by (cases c) simp_all

lemma ParseRule_cases:
  assumes "ParseRule tp payload target params = Inr r"
  obtains "r = NewDomain payload target" | "r = NewDomainSuffix payload target"
  | "r = NewDomainKeyword payload target" | nr where "r = GEOIPRule payload target nr"
  | src nr where "NewIPCIDR payload target src nr = Some r" | src where "NewPort payload target src = Some r"
  | "r = ProcessRule target payload" | "r = MatchRule target"
proof -
  have ok: "x = Some r" if "(case x of None \<Rightarrow> Inl ErrPayload | Some r \<Rightarrow> Inr r) = Inr r" for x
    using that by (cases x) simp_all
  show ?thesis
    using assms unfolding ParseRule_def Let_def
    by (elim if_eqE) (auto dest!: ok intro: that)
qed

lemma ParseRule_adapter:
  assumes "ParseRule tp payload target params = Inr r"
  shows "Rule_Adapter r = target"
  using assms
  by (rule ParseRule_cases)
     (auto simp: NewDomain_def NewDomainSuffix_def NewDomainKeyword_def NewIPCIDR_def NewPort_def
       Rule_Adapter_def split: sum.splits)

text \<open>A port rule compares texts, and the texts that parse as a port are many.\<close>

lemma PortRule_match:
  "ParseRule ''DST-PORT'' payload target params = Inr r \<Longrightarrow>
     rule_matches env r m \<longleftrightarrow> md_DstPort m = payload"
  by (auto simp: ParseRule_def Let_def NewPort_def split: sum.splits)

end
