(* ===== verification/ClashTrie.thy ===== *)
theory ClashTrie
  imports GoPrelude
begin

text \<open>
  \<open>component/trie\<close>: the tree of domain labels behind the hosts file, the fake-ip filter
  and the nameserver policy.  A node maps labels to children; a nil \<open>Data\<close> is \<open>None\<close>.  The
  methods work from the last label to the first, so their recursion is on the reversed
  list of labels.
\<close>

section \<open>Nodes\<close>

datatype 'a trie_node = Node (nd_Data: "'a option") (nd_children: "string \<Rightarrow> 'a trie_node option")

definition newNode :: "'a option \<Rightarrow> 'a trie_node" where
  "newNode d = Node d Map.empty"

definition getChild :: "string \<Rightarrow> 'a trie_node \<Rightarrow> 'a trie_node option" where
  "getChild s n = nd_children n s"

definition hasChild :: "string \<Rightarrow> 'a trie_node \<Rightarrow> bool" where
  "hasChild s n = (getChild s n \<noteq> None)"

definition addChild :: "string \<Rightarrow> 'a trie_node \<Rightarrow> 'a trie_node \<Rightarrow> 'a trie_node" where
  "addChild s c n = Node (nd_Data n) ((nd_children n)(s \<mapsto> c))"

lemma getChild_addChild [simp]: "getChild t (addChild s c n) = (if t = s then Some c else getChild t n)"
  by (simp add: getChild_def addChild_def)

lemma nd_Data_addChild [simp]: "nd_Data (addChild s c n) = nd_Data n"
  by (simp add: addChild_def)

section \<open>The trie\<close>

definition ValidAndSplitDomain :: "string \<Rightarrow> string list option" where
  "ValidAndSplitDomain domain =
     (if domain \<noteq> [] \<and> last domain = CHR ''.'' then None
      else
        let parts = split_on (CHR ''.'') domain in
        if length parts = 1 then (if hd parts = [] then None else Some parts)
        else if list_ex (\<lambda>p. p = []) (tl parts) then None
        else Some parts)"

text \<open>The private \<open>insert\<close>, on the reversed labels.\<close>

fun trie_insert :: "string list \<Rightarrow> 'a option \<Rightarrow> 'a trie_node \<Rightarrow> 'a trie_node" where
  "trie_insert [] d n = Node d (nd_children n)"
| "trie_insert (p # ps) d n =
     (let n = (if hasChild p n then n else addChild p (newNode None) n)
      in addChild p (trie_insert ps d (the (getChild p n))) n)"

text \<open>\<open>Insert\<close>: a flag for \<open>ErrInvalidDomain\<close>, and the trie.\<close>

definition trie_Insert :: "string \<Rightarrow> 'a option \<Rightarrow> 'a trie_node \<Rightarrow> bool \<times> 'a trie_node" where
  "trie_Insert domain d root =
     (case ValidAndSplitDomain domain of
        None \<Rightarrow> (False, root)
      | Some parts \<Rightarrow>
          if hd parts = ''+'' then
            (True, trie_insert (rev ([] # tl parts)) d (trie_insert (rev (tl parts)) d root))
          else (True, trie_insert (rev parts) d root))"

text \<open>The private \<open>search\<close>: the static child, the wildcard child, then the dot wildcard.\<close>

fun trie_search :: "'a trie_node \<Rightarrow> string list \<Rightarrow> 'a trie_node option" where
  "trie_search n [] = Some n"
| "trie_search n (p # ps) =
     (let static = (case getChild p n of None \<Rightarrow> None | Some c \<Rightarrow> trie_search c ps);
          star = (case getChild ''*'' n of None \<Rightarrow> None | Some c \<Rightarrow> trie_search c ps) in
      case static of
        Some m \<Rightarrow> Some m
      | None \<Rightarrow> (case star of Some m \<Rightarrow> Some m | None \<Rightarrow> getChild [] n))"

definition trie_Search :: "'a trie_node \<Rightarrow> string \<Rightarrow> 'a trie_node option" where
  "trie_Search root domain =
     (case ValidAndSplitDomain domain of
        None \<Rightarrow> None
      | Some parts \<Rightarrow>
          if hd parts = [] then None
          else (case trie_search root (rev parts) of
                  None \<Rightarrow> None
                | Some n \<Rightarrow> if nd_Data n = None then None else Some n))"

definition trie_New :: "'a trie_node" where
  "trie_New = newNode None"

section \<open>Patterns\<close>

text \<open>The node under a path of labels, and the data a path holds.\<close>

fun node_at :: "'a trie_node \<Rightarrow> string list \<Rightarrow> 'a trie_node option" where
  "node_at n [] = Some n"
| "node_at n (p # ps) = (case getChild p n of None \<Rightarrow> None | Some c \<Rightarrow> node_at c ps)"

text \<open>
  A path, read from the top-level label, matches the reversed labels of a host label by
  label, a star any one label, and an empty label at its end all labels that are left.
\<close>

fun path_matches :: "string list \<Rightarrow> string list \<Rightarrow> bool" where
  "path_matches [] ps = (ps = [])"
| "path_matches (q # qs) [] = False"
| "path_matches (q # qs) (p # ps) = (((q = p \<or> q = ''*'') \<and> path_matches qs ps) \<or> (q = [] \<and> qs = []))"

lemma trie_search_sound:
  "trie_search n ps = Some m \<Longrightarrow> \<exists>qs. path_matches qs ps \<and> node_at n qs = Some m"
proof (induction n ps arbitrary: m rule: trie_search.induct)
  case (2 n p ps)
  have via: "\<exists>qs. path_matches qs (p # ps) \<and> node_at n qs = Some m"
    if "getChild q n = Some c" "q = p \<or> q = ''*''" "path_matches qs ps" "node_at c qs = Some m" for q c qs
    using that by (intro exI [of _ "q # qs"]) auto
  consider (static) c where "getChild p n = Some c" "trie_search c ps = Some m"
    | (star) c where "getChild ''*'' n = Some c" "trie_search c ps = Some m"
    | (dot) "getChild [] n = Some m"
    using 2(3) by (auto simp: Let_def split: option.splits)
  then show ?case
  proof cases
    case static
    with 2(1) via show ?thesis by blast
  next
    case star
    then obtain qs where "path_matches qs ps" "node_at c qs = Some m"
      using 2(2) [OF _ star(1)] by blast
    with star(1) via show ?thesis by blast
  next
    case dot
    then show ?thesis by (intro exI [of _ "[[]]"]) simp
  qed
qed (auto intro: exI [of _ "[]"])

lemma trie_search_complete:
  "path_matches qs ps \<Longrightarrow> node_at n qs = Some m \<Longrightarrow> trie_search n ps \<noteq> None"
proof (induction qs ps arbitrary: n rule: path_matches.induct)
  case (3 q qs p ps)
  then obtain c where c: "getChild q n = Some c" "node_at c qs = Some m"
    by (auto split: option.splits)
  from 3(2) consider (step) "path_matches qs ps" "q = p \<or> q = ''*''" | (dot) "q = []" "qs = []"
    by auto
  then show ?case
  proof cases
    case step
    then have "trie_search c ps \<noteq> None" using 3(1) c by blast
    with step c show ?thesis by (auto simp: Let_def split: option.splits)
  next
    case dot
    then show ?thesis using c by (auto simp: Let_def split: option.splits)
  qed
qed auto

lemma node_at_insert_same: "\<exists>m. node_at (trie_insert ps d n) ps = Some m \<and> nd_Data m = d"
  by (induction ps d n rule: trie_insert.induct) (auto simp: Let_def)

text \<open>The static path wins at every label, so an inserted path is found by its own labels.\<close>

lemma trie_search_static: "node_at n ps = Some m \<Longrightarrow> trie_search n ps = Some m"
  by (induction n ps rule: node_at.induct) (auto simp: Let_def split: option.splits)

lemma node_at_insert_other:
  "qs \<noteq> ps \<Longrightarrow> node_at n qs = Some m \<Longrightarrow>
     \<exists>m'. node_at (trie_insert ps d n) qs = Some m' \<and> nd_Data m' = nd_Data m"
proof (induction ps d n arbitrary: qs m rule: trie_insert.induct)
  case (1 d n)
  then obtain q qs' where "qs = q # qs'" by (cases qs) auto
  then show ?case using 1 by (auto simp: getChild_def)
next
  case (2 p ps d n)
  show ?case
  proof (cases qs)
    case (Cons q qs')
    show ?thesis
    proof (cases "q = p")
      case True
      then obtain c where c: "getChild p n = Some c" "node_at c qs' = Some m"
        using 2(3) Cons by (auto split: option.splits)
      moreover have "qs' \<noteq> ps" using 2(2) Cons True by simp
      ultimately show ?thesis
        using 2(1) [OF refl, of qs' m] True Cons by (auto simp: Let_def hasChild_def)
    next
      case False
      then show ?thesis using 2(3) Cons by (auto simp: Let_def)
    qed
  qed (use 2(3) in \<open>auto simp: Let_def\<close>)
qed

section \<open>What a search finds\<close>


text \<open>
  A domain inserted under its own labels is found again with its data, whatever the
  trie held before, since static labels come first; the same holds for the base domain of
  a \<open>+.\<close> entry.
\<close>

theorem trie_insert_search:
  assumes "ValidAndSplitDomain d = Some parts" and "hd parts \<noteq> []" and "hd parts \<noteq> ''+''"
  shows "fst (trie_Insert d (Some x) t) \<and>
    map_option nd_Data (trie_Search (snd (trie_Insert d (Some x) t)) d) = Some (Some x)"
proof -
  let ?t = "trie_insert (rev parts) (Some x) t"
  obtain m where "node_at ?t (rev parts) = Some m" and m: "nd_Data m = Some x"
    using node_at_insert_same by blast
  then have "trie_search ?t (rev parts) = Some m" using trie_search_static by blast
  then show ?thesis using assms m by (simp add: trie_Insert_def trie_Search_def)
qed

theorem trie_insert_search_witness:
  "map_option nd_Data (trie_Search (snd (trie_Insert ''*.example.com'' (Some (7::nat)) trie_New)) ''*.example.com'')
     = Some (Some 7)"
proof -
  have "ValidAndSplitDomain ''*.example.com'' = Some [''*'', ''example'', ''com'']" by code_simp
  from trie_insert_search [OF this, of "7::nat" trie_New] show ?thesis by simp
qed

section \<open>A single plus entry\<close>

lemma ValidAndSplit_ne: "ValidAndSplitDomain d = Some parts \<Longrightarrow> parts \<noteq> []"
  by (auto simp: ValidAndSplitDomain_def Let_def split: if_splits)

lemma ValidAndSplit_labels:
  assumes "ValidAndSplitDomain d = Some parts" "hd parts \<noteq> []"
  shows "[] \<notin> set parts \<and> parts = split_on (CHR ''.'') d"
proof -
  have p: "parts = split_on (CHR ''.'') d" and t: "length parts = 1 \<or> \<not> list_ex (\<lambda>p. p = []) (tl parts)"
    using assms(1) by (auto simp: ValidAndSplitDomain_def Let_def split: if_splits)
  obtain q qs where qs: "parts = q # qs" using ValidAndSplit_ne [OF assms(1)] by (cases parts) auto
  with t assms(2) have "[] \<notin> set parts" by (auto simp: list_ex_iff)
  with p show ?thesis by simp
qed

text \<open>A fresh trie has data nowhere; insertion gives data to its path alone.\<close>

lemma node_at_insert_data:
  "node_at (trie_insert ps d n) qs = Some m \<Longrightarrow> nd_Data m \<noteq> None \<Longrightarrow>
     qs = ps \<or> (\<exists>m'. node_at n qs = Some m' \<and> nd_Data m' = nd_Data m)"
proof (induction ps d n arbitrary: qs m rule: trie_insert.induct)
  case (1 d n)
  then show ?case by (cases qs) (auto simp: getChild_def)
next
  case (2 p ps d n)
  show ?case
  proof (cases qs)
    case Nil
    then show ?thesis using 2(2) by (auto simp: Let_def split: if_splits)
  next
    case (Cons q qs')
    show ?thesis
    proof (cases "q = p")
      case True
      let ?n = "if hasChild p n then n else addChild p (newNode None) n"
      have "node_at (trie_insert ps d (the (getChild p ?n))) qs' = Some m"
        using 2(2) Cons True by (simp add: Let_def)
      then have "qs' = ps \<or> (\<exists>m'. node_at (the (getChild p ?n)) qs' = Some m' \<and> nd_Data m' = nd_Data m)"
        using 2(1) [OF refl] 2(3) by blast
      moreover have "nd_Data m' = None" if "node_at (newNode None) qs' = Some m'" for m' :: "'a trie_node"
        using that by (cases qs') (auto simp: newNode_def getChild_def)
      ultimately show ?thesis
        using Cons True 2(3) by (cases "hasChild p n") (fastforce simp: hasChild_def)+
    next
      case False
      then show ?thesis using 2(2) Cons by (auto simp: Let_def split: if_splits)
    qed
  qed
qed

lemma node_at_insert_path:
  "node_at (trie_insert ps d n) qs = Some m \<Longrightarrow> (\<exists>k. qs = take k ps) \<or> (\<exists>m'. node_at n qs = Some m')"
proof (induction ps d n arbitrary: qs m rule: trie_insert.induct)
  case (1 d n)
  then show ?case by (cases qs) (auto simp: getChild_def)
next
  case (2 p ps d n)
  show ?case
  proof (cases qs)
    case (Cons q qs')
    show ?thesis
    proof (cases "q = p")
      case True
      let ?n = "if hasChild p n then n else addChild p (newNode None) n"
      have "node_at (trie_insert ps d (the (getChild p ?n))) qs' = Some m"
        using 2(2) Cons True by (simp add: Let_def)
      then consider k where "qs' = take k ps" | m' where "node_at (the (getChild p ?n)) qs' = Some m'"
        using 2(1) [OF refl] by blast
      then show ?thesis
      proof cases
        case 1
        then show ?thesis using Cons True by (intro disjI1 exI [of _ "Suc k"]) simp
      next
        case 2
        show ?thesis
        proof (cases "hasChild p n")
          case False
          then have "node_at (newNode None) qs' = Some m'" using 2 by simp
          then have "qs' = []" by (cases qs') (auto simp: newNode_def getChild_def)
          then show ?thesis using Cons True by (intro disjI1 exI [of _ 1]) simp
        qed (use 2 Cons True in \<open>auto simp: hasChild_def\<close>)
      qed
    next
      case False
      then show ?thesis using 2(2) Cons by (auto simp: Let_def split: if_splits)
    qed
  qed (auto intro: exI [of _ 0])
qed

lemma path_matches_length: "[] \<notin> set qs \<Longrightarrow> path_matches qs ps \<Longrightarrow> length qs = length ps"
  by (induction qs ps rule: path_matches.induct) auto

lemma path_matches_plain:
  "[] \<notin> set qs \<Longrightarrow> ''*'' \<notin> set qs \<Longrightarrow> path_matches qs ps \<longleftrightarrow> qs = ps"
  by (induction qs ps rule: path_matches.induct) auto

lemma path_matches_dot:
  "[] \<notin> set qs \<Longrightarrow> ''*'' \<notin> set qs \<Longrightarrow> path_matches (qs @ [[]]) ps \<longleftrightarrow> (\<exists>s. s \<noteq> [] \<and> ps = qs @ s)"
proof (induction qs arbitrary: ps)
  case Nil
  show ?case by (cases ps) auto
next
  case (Cons q qs)
  then show ?case by (cases ps) auto
qed

lemma plus_trie_search:
  assumes b: "[] \<notin> set qs" "''*'' \<notin> set qs"
    and t_def: "t = trie_insert (qs @ [[]]) (Some x) (trie_insert qs (Some x) trie_New)"
  shows "(\<exists>m. trie_search t ps = Some m \<and> nd_Data m \<noteq> None) \<longleftrightarrow> (\<exists>s. ps = qs @ s)"
proof
  have new: "node_at trie_New rs = Some m \<Longrightarrow> rs = [] \<and> nd_Data m = None" for rs and m :: "'a trie_node"
    by (cases rs) (auto simp: trie_New_def newNode_def getChild_def)
  {
    assume "\<exists>m. trie_search t ps = Some m \<and> nd_Data m \<noteq> None"
    then obtain m rs where "path_matches rs ps" "node_at t rs = Some m" "nd_Data m \<noteq> None"
      using trie_search_sound by blast
    moreover from this have "rs = qs @ [[]] \<or> rs = qs"
      using node_at_insert_data new unfolding t_def by (metis (no_types, lifting))
    ultimately show "\<exists>s. ps = qs @ s"
      using path_matches_plain path_matches_dot b by auto
  }
  assume "\<exists>s. ps = qs @ s"
  then obtain s where s: "ps = qs @ s" by blast
  have at: "\<exists>m. node_at t qs = Some m \<and> nd_Data m = Some x" "\<exists>m. node_at t (qs @ [[]]) = Some m \<and> nd_Data m = Some x"
    using node_at_insert_same [of qs "Some x" trie_New] node_at_insert_same [of "qs @ [[]]" "Some x"]
      node_at_insert_other [of qs "qs @ [[]]" "trie_insert qs (Some x) trie_New"]
    unfolding t_def by fastforce+
  have "path_matches (if s = [] then qs else qs @ [[]]) ps"
    using s path_matches_plain [OF b(1,2), of ps] path_matches_dot [OF b(1,2), of ps] by auto
  then obtain m where m: "trie_search t ps = Some m"
    using at trie_search_complete by (metis not_Some_eq)
  then obtain rs where rs: "path_matches rs ps" "node_at t rs = Some m" using trie_search_sound by blast
  then consider k where "rs = take k (qs @ [[]])" | k where "rs = take k qs" | "rs = []"
    using node_at_insert_path new unfolding t_def by metis
  then have "rs = qs @ [[]] \<or> (\<exists>k. rs = take k qs)"
  proof cases
    case (1 k)
    then show ?thesis by (cases "k \<le> length qs") auto
  next
    case 3
    then show ?thesis by (intro disjI2 exI [of _ 0]) simp
  qed blast
  then obtain k where k: "rs = qs @ [[]] \<or> rs = take k qs" by blast
  have "rs = qs @ [[]] \<or> rs = qs"
  proof (rule disjCI)
    assume "rs \<noteq> qs"
    show "rs = qs @ [[]]"
    proof (rule ccontr)
      assume "rs \<noteq> qs @ [[]]"
      with k have rk: "rs = take k qs" by simp
      then have "[] \<notin> set rs" using b(1) set_take_subset by fastforce
      then have "length rs = length ps" using rs(1) path_matches_length by blast
      then have "length qs \<le> length rs" using s by simp
      then have "rs = qs" using rk by simp
      with \<open>rs \<noteq> qs\<close> show False ..
    qed
  qed
  then show "\<exists>m. trie_search t ps = Some m \<and> nd_Data m \<noteq> None" using at rs m by fastforce
qed

text \<open>
  A trie that holds a single \<open>+.\<close> entry finds exactly the base domain and its
  subdomains, at any depth.
\<close>

lemma trie_plus_exact:
  assumes b: "ValidAndSplitDomain b = Some bs" "hd bs \<noteq> []" "''*'' \<notin> set bs"
    and plus: "ValidAndSplitDomain (''+.'' @ b) = Some (''+'' # bs)"
    and h: "ValidAndSplitDomain h = Some hs" "hd hs \<noteq> []"
  shows "trie_Search (snd (trie_Insert (''+.'' @ b) (Some x) trie_New)) h \<noteq> None \<longleftrightarrow> (\<exists>s. hs = s @ bs)"
proof -
  let ?t = "trie_insert (rev bs @ [[]]) (Some x) (trie_insert (rev bs) (Some x) trie_New)"
  have "[] \<notin> set bs" using ValidAndSplit_labels [OF b(1,2)] by blast
  then have bs: "[] \<notin> set (rev bs)" "''*'' \<notin> set (rev bs)" using b(3) by simp_all
  have "snd (trie_Insert (''+.'' @ b) (Some x) trie_New) = ?t"
    using plus by (simp add: trie_Insert_def)
  then have "trie_Search (snd (trie_Insert (''+.'' @ b) (Some x) trie_New)) h \<noteq> None \<longleftrightarrow>
      (\<exists>m. trie_search ?t (rev hs) = Some m \<and> nd_Data m \<noteq> None)"
    using h by (auto simp: trie_Search_def split: option.splits)
  also have "\<dots> \<longleftrightarrow> (\<exists>s. rev hs = rev bs @ s)" by (rule plus_trie_search [OF bs refl])
  also have "\<dots> \<longleftrightarrow> (\<exists>s. hs = s @ bs)"
    by (metis rev_append rev_rev_ident)
  finally show ?thesis .
qed

lemma trie_plus_exact_witness:
  "trie_Search (snd (trie_Insert ''+.google.com'' (Some (1::nat)) trie_New)) ''www.google.com'' \<noteq> None \<and>
   trie_Search (snd (trie_Insert ''+.google.com'' (Some (1::nat)) trie_New)) ''agoogle.com'' = None"
proof -
  have b: "ValidAndSplitDomain ''google.com'' = Some [''google'', ''com'']" "hd [''google'', ''com''] \<noteq> []"
    "''*'' \<notin> set [''google'', ''com'']"
    "ValidAndSplitDomain (''+.'' @ ''google.com'') = Some (''+'' # [''google'', ''com''])"
    by (code_simp, simp, simp, code_simp)
  have h: "ValidAndSplitDomain ''www.google.com'' = Some [''www'', ''google'', ''com'']"
    "ValidAndSplitDomain ''agoogle.com'' = Some [''agoogle'', ''com'']"
    by code_simp+
  have "\<exists>s. [''www'', ''google'', ''com''] = s @ [''google'', ''com'']"
    by (rule exI [of _ "[''www'']"]) simp
  moreover have "\<not> (\<exists>s. [''agoogle'', ''com''] = s @ [''google'', ''com''])"
    by (auto simp: Cons_eq_append_conv)
  ultimately show ?thesis
    using trie_plus_exact [OF b h(1), of "1::nat"] trie_plus_exact [OF b h(2), of "1::nat"] by simp
qed

text \<open>
  The search gives up at the first node it reaches, also when that node holds no data:
  with the entries \<open>a.b.com\<close> and \<open>*.com\<close>, the host \<open>b.com\<close> is not found, although
  \<open>*.com\<close> alone finds it.
\<close>

lemma trie_shadowed_wildcard:
  "trie_Search (snd (trie_Insert ''*.com'' (Some (1::nat)) trie_New)) ''b.com'' \<noteq> None \<and>
   trie_Search (snd (trie_Insert ''a.b.com'' (Some 2) (snd (trie_Insert ''*.com'' (Some 1) trie_New)))) ''b.com'' = None"
  by code_simp

end
