(* ===== verification/ClashCachefile.thy ===== *)
theory ClashCachefile
  imports GoPrelude
begin

text \<open>
  \<open>component/profile/cachefile\<close>: the selected proxies and the fake addresses in a \<open>bbolt\<close>
  file.  A database is what its buckets hold and which pairs it accepts (\<open>bbolt\<close> refuses keys
  that are empty or too long, and every pair when the disk is full); a refused write leaves it
  as it was.  \<open>nil\<close>, when the file could not be opened, is \<open>None\<close>.
\<close>

record bolt =
  bo_buckets :: "string \<rightharpoonup> (bytes \<rightharpoonup> bytes)"
  bo_accepts :: "string \<Rightarrow> bytes \<Rightarrow> bytes \<Rightarrow> bool"

record CacheFile =
  ca_DB :: "bolt option"

definition bucketSelected :: string where "bucketSelected = ''selected''"
definition bucketFakeip :: string where "bucketFakeip = ''fakeip''"

text \<open>The transaction of both writers: the bucket is made when it does not exist, the pair is put.\<close>

definition bolt_put :: "string \<Rightarrow> bytes \<Rightarrow> bytes \<Rightarrow> bolt \<Rightarrow> bolt option" where
  "bolt_put name key value db =
     (let bucket = (case bo_buckets db name of Some b \<Rightarrow> b | None \<Rightarrow> Map.empty) in
      if bo_accepts db name key value then Some (db\<lparr>bo_buckets := (bo_buckets db)(name \<mapsto> bucket(key \<mapsto> value))\<rparr>) else None)"

definition SetSelected :: "bool \<Rightarrow> string \<Rightarrow> string \<Rightarrow> CacheFile \<Rightarrow> CacheFile" where
  "SetSelected storeSelected grp selected c =
     (if \<not> storeSelected then c
      else case ca_DB c of
        None \<Rightarrow> c
      | Some db \<Rightarrow>
          (case bolt_put bucketSelected (bytes_of grp) (bytes_of selected) db of
             None \<Rightarrow> c
           | Some db \<Rightarrow> c\<lparr>ca_DB := Some db\<rparr>))"

definition SelectedMap :: "bool \<Rightarrow> CacheFile \<Rightarrow> (string \<rightharpoonup> string) option" where
  "SelectedMap storeSelected c =
     (if \<not> storeSelected then None
      else case ca_DB c of
        None \<Rightarrow> None
      | Some db \<Rightarrow>
          (case bo_buckets db bucketSelected of
             None \<Rightarrow> Some Map.empty
           | Some b \<Rightarrow> Some (\<lambda>k. map_option string_of (b (bytes_of k)))))"

text \<open>Whether the write succeeded, and the cache.\<close>

definition PutFakeip :: "bytes \<Rightarrow> bytes \<Rightarrow> CacheFile \<Rightarrow> bool \<times> CacheFile" where
  "PutFakeip key value c =
     (case ca_DB c of
        None \<Rightarrow> (True, c)
      | Some db \<Rightarrow>
          (case bolt_put bucketFakeip key value db of
             None \<Rightarrow> (False, c)
           | Some db \<Rightarrow> (True, c\<lparr>ca_DB := Some db\<rparr>)))"

definition GetFakeip :: "bytes \<Rightarrow> CacheFile \<Rightarrow> bytes option" where
  "GetFakeip key c =
     (case ca_DB c of
        None \<Rightarrow> None
      | Some db \<Rightarrow> (case bo_buckets db bucketFakeip of None \<Rightarrow> None | Some b \<Rightarrow> b key))"

section \<open>Opening the file\<close>

datatype bolt_err = ErrInvalid | ErrChecksum | ErrVersionMismatch | BoltError string

text \<open>
  The disk: the old cache file and its removal, the \<open>gob\<close> decoder of its selections, and
  opening, closing and removing the database.
\<close>

record 'w cache_disk =
  cd_ReadOld :: "'w \<Rightarrow> bytes option"
  cd_RemoveOld :: "'w \<Rightarrow> 'w"
  cd_decode :: "bytes \<Rightarrow> (string \<times> string) list"
  cd_Open :: "'w \<Rightarrow> (bolt_err + bolt) \<times> 'w"
  cd_Close :: "bolt \<Rightarrow> 'w \<Rightarrow> 'w"
  cd_Remove :: "'w \<Rightarrow> bool \<times> 'w"

fun put_selected :: "(string \<times> string) list \<Rightarrow> bolt \<Rightarrow> bolt option" where
  "put_selected [] db = Some db"
| "put_selected ((grp, selected) # ss) db =
     (case bolt_put bucketSelected (bytes_of grp) (bytes_of selected) db of
        None \<Rightarrow> None
      | Some db \<Rightarrow> put_selected ss db)"

definition migrate_old :: "'w cache_disk \<Rightarrow> 'w \<Rightarrow> 'w" where
  "migrate_old D w =
     (case cd_ReadOld D w of
        None \<Rightarrow> w
      | Some buf \<Rightarrow>
          cd_RemoveOld D
            (case cd_Open D w of
               (Inl e, w) \<Rightarrow> w
             | (Inr db, w) \<Rightarrow>
                 cd_Close D (case put_selected (cd_decode D buf) db of Some db \<Rightarrow> db | None \<Rightarrow> db) w))"

definition open_cache :: "'w cache_disk \<Rightarrow> 'w \<Rightarrow> CacheFile \<times> 'w" where
  "open_cache D w =
     (case cd_Open D w of
        (Inr db, w) \<Rightarrow> (\<lparr>ca_DB = Some db\<rparr>, w)
      | (Inl e, w) \<Rightarrow>
          if e = ErrInvalid \<or> e = ErrChecksum \<or> e = ErrVersionMismatch then
            (case cd_Remove D w of
               (False, w) \<Rightarrow> (\<lparr>ca_DB = None\<rparr>, w)
             | (True, w) \<Rightarrow>
                 (case cd_Open D w of
                    (Inr db, w) \<Rightarrow> (\<lparr>ca_DB = Some db\<rparr>, w)
                  | (Inl e, w) \<Rightarrow> (\<lparr>ca_DB = None\<rparr>, w)))
          else (\<lparr>ca_DB = None\<rparr>, w))"

definition migrateCache :: "'w cache_disk \<Rightarrow> 'w \<Rightarrow> CacheFile \<times> 'w" where
  "migrateCache D w = open_cache D (migrate_old D w)"

section \<open>Facts\<close>

text \<open>What is selected is found again; the other groups and the fake addresses stay.\<close>

lemma SelectedMap_Set:
  assumes "ca_DB c = Some db" "bo_accepts db bucketSelected (bytes_of grp) (bytes_of selected)"
  shows "SelectedMap True (SetSelected True grp selected c) = map_option (\<lambda>m. m(grp \<mapsto> selected)) (SelectedMap True c)"
    and "GetFakeip key (SetSelected True grp selected c) = GetFakeip key c"
proof -
  have inj: "bytes_of k = bytes_of grp \<longleftrightarrow> k = grp" for k by (metis string_bytes_roundtrip)
  show "SelectedMap True (SetSelected True grp selected c) = map_option (\<lambda>m. m(grp \<mapsto> selected)) (SelectedMap True c)"
    using assms by (auto simp: SetSelected_def SelectedMap_def bolt_put_def Let_def fun_eq_iff inj split: option.split)
  show "GetFakeip key (SetSelected True grp selected c) = GetFakeip key c"
    using assms by (simp add: SetSelected_def GetFakeip_def bolt_put_def Let_def bucketSelected_def bucketFakeip_def)
qed

lemma GetFakeip_Put:
  assumes "ca_DB c = Some db" "bo_accepts db bucketFakeip key value"
  shows "\<exists>c' db'. PutFakeip key value c = (True, c') \<and> ca_DB c' = Some db' \<and> bo_accepts db' = bo_accepts db \<and>
    GetFakeip k c' = (if k = key then Some value else GetFakeip k c)"
  using assms by (auto simp: PutFakeip_def GetFakeip_def bolt_put_def Let_def split: option.split)

end
