(* ===== verification/ClashFakeip.thy ===== *)
theory ClashFakeip
  imports GoNet ClashLru ClashTrie ClashCachefile
begin

unbundle bit_operations_syntax

text \<open>
  \<open>component/fakeip\<close>: the pool that gives each host name an address of its own out of a
  private network and finds the name back.  The interface \<open>store\<close> of \<open>pool.go\<close> is a
  record of operations on a store state and the locale \<open>fake_store\<close> the laws the pool
  relies on; \<open>memoryStore\<close>, on the cache of \<open>ClashLru\<close>, and \<open>cachefileStore\<close>, on the
  database, provide them, and so does \<open>pool_store\<close>, which is either of the two.
\<close>

section \<open>Addresses as numbers\<close>

definition ipToUint :: "bytes \<Rightarrow> 32 word" where
  "ipToUint ip = push_bit 24 (ucast (ip ! 0)) + push_bit 16 (ucast (ip ! 1)) +
     push_bit 8 (ucast (ip ! 2)) + ucast (ip ! 3)"

definition uintToIP :: "32 word \<Rightarrow> bytes" where
  "uintToIP v = [ucast (drop_bit 24 v), ucast (drop_bit 16 v), ucast (drop_bit 8 v), ucast v]"

section \<open>The store interface\<close>

record 's store =
  st_GetByHost :: "string \<Rightarrow> 's \<Rightarrow> (bytes option \<times> 's) go"
  st_PutByHost :: "string \<Rightarrow> bytes \<Rightarrow> 's \<Rightarrow> 's go"
  st_GetByIP :: "bytes \<Rightarrow> 's \<Rightarrow> (string option \<times> 's) go"
  st_PutByIP :: "bytes \<Rightarrow> string \<Rightarrow> 's \<Rightarrow> 's go"
  st_Exist :: "bytes \<Rightarrow> 's \<Rightarrow> bool go"

section \<open>The pool\<close>

record ('s, 'd) Pool =
  fp_max :: "32 word"
  fp_min :: "32 word"
  fp_gateway :: "32 word"
  fp_offset :: "32 word"
  fp_host :: "'d trie_node option"
  fp_ipnet :: IPNet
  fp_store :: 's

definition pool_ip :: "('s, 'd) Pool \<Rightarrow> 32 word \<Rightarrow> bytes" where
  "pool_ip p offset = uintToIP (fp_min p + offset - 1)"

text \<open>The loop of \<open>get\<close>: the offset it stops at, or \<open>None\<close> when the fuel does not suffice.\<close>

fun pool_loop ::
  "'s store \<Rightarrow> ('s, 'd) Pool \<Rightarrow> 32 word \<Rightarrow> nat \<Rightarrow> 32 word \<Rightarrow> 32 word go option" where
  "pool_loop S p current 0 offset = None"
| "pool_loop S p current (Suc fuel) offset =
     (if fp_max p - fp_min p = 0 then Some (Inl DivideByZero)
      else
        let offset = (offset + 1) mod (fp_max p - fp_min p) in
        if offset = current then Some (Inr offset)
        else case st_Exist S (pool_ip p offset) (fp_store p) of
          Inl pn \<Rightarrow> Some (Inl pn)
        | Inr ex \<Rightarrow> if \<not> ex then Some (Inr offset) else pool_loop S p current fuel offset)"

text \<open>A full round has \<open>max - min\<close> offsets.\<close>

definition pool_get :: "'s store \<Rightarrow> string \<Rightarrow> ('s, 'd) Pool \<Rightarrow> (bytes \<times> ('s, 'd) Pool) go option" where
  "pool_get S host p =
     (case pool_loop S p (fp_offset p) (Suc (unat (fp_max p - fp_min p))) (fp_offset p) of
        None \<Rightarrow> None
      | Some (Inl pn) \<Rightarrow> Some (Inl pn)
      | Some (Inr offset) \<Rightarrow>
          (let ip = pool_ip p offset in
           Some (go_bind (st_PutByIP S ip host (fp_store p))
             (\<lambda>s. Inr (ip, p\<lparr>fp_offset := offset, fp_store := s\<rparr>)))))"

definition pool_Lookup :: "'s store \<Rightarrow> string \<Rightarrow> ('s, 'd) Pool \<Rightarrow> (bytes \<times> ('s, 'd) Pool) go option" where
  "pool_Lookup S host p =
     (case st_GetByHost S host (fp_store p) of
        Inl pn \<Rightarrow> Some (Inl pn)
      | Inr (Some ip, s) \<Rightarrow> Some (Inr (ip, p\<lparr>fp_store := s\<rparr>))
      | Inr (None, s) \<Rightarrow>
          (case pool_get S host (p\<lparr>fp_store := s\<rparr>) of
             None \<Rightarrow> None
           | Some (Inl pn) \<Rightarrow> Some (Inl pn)
           | Some (Inr (ip, p')) \<Rightarrow>
               Some (go_bind (st_PutByHost S host ip (fp_store p'))
                 (\<lambda>s. Inr (ip, p'\<lparr>fp_store := s\<rparr>)))))"

definition pool_LookBack :: "'s store \<Rightarrow> bytes \<Rightarrow> ('s, 'd) Pool \<Rightarrow> (string option \<times> ('s, 'd) Pool) go" where
  "pool_LookBack S ip p =
     (case to4 ip of
        None \<Rightarrow> Inr (None, p)
      | Some q \<Rightarrow> go_bind (st_GetByIP S q (fp_store p)) (\<lambda>(h, s). Inr (h, p\<lparr>fp_store := s\<rparr>)))"

definition pool_ShouldSkipped :: "string \<Rightarrow> ('s, 'd) Pool \<Rightarrow> bool" where
  "pool_ShouldSkipped domain p =
     (case fp_host p of None \<Rightarrow> False | Some t \<Rightarrow> trie_Search t domain \<noteq> None)"

definition pool_Exist :: "'s store \<Rightarrow> bytes \<Rightarrow> ('s, 'd) Pool \<Rightarrow> bool go" where
  "pool_Exist S ip p = (case to4 ip of None \<Rightarrow> Inr False | Some q \<Rightarrow> st_Exist S q (fp_store p))"

definition pool_Gateway :: "('s, 'd) Pool \<Rightarrow> bytes" where
  "pool_Gateway p = uintToIP (fp_gateway p)"

section \<open>The store in memory\<close>

datatype fake_key = KHost string | KIP "32 word"
datatype fake_val = VIP bytes | VHost string

type_synonym memoryStore = "(fake_key, fake_val) LruCache"

text \<open>The cache of a memory store has no age, so it never looks at the clock.\<close>

definition ms_key :: "bytes \<Rightarrow> fake_key go" where
  "ms_key ip = (case to4 ip of None \<Rightarrow> Inl IndexOutOfRange | Some q \<Rightarrow> Inr (KIP (ipToUint q)))"

definition ms_GetByHost :: "string \<Rightarrow> memoryStore \<Rightarrow> (bytes option \<times> memoryStore) go" where
  "ms_GetByHost host c =
     (case lru_Get (KHost host) 0 c of
        (None, c') \<Rightarrow> Inr (None, c')
      | (Some (VHost _), c') \<Rightarrow> Inl TypeAssertion
      | (Some (VIP ip), c') \<Rightarrow> go_bind (ms_key ip) (\<lambda>k. Inr (Some ip, snd (lru_Get k 0 c'))))"

definition ms_PutByHost :: "string \<Rightarrow> bytes \<Rightarrow> memoryStore \<Rightarrow> memoryStore go" where
  "ms_PutByHost host ip c = Inr (lru_Set (KHost host) (VIP ip) 0 c)"

definition ms_GetByIP :: "bytes \<Rightarrow> memoryStore \<Rightarrow> (string option \<times> memoryStore) go" where
  "ms_GetByIP ip c =
     go_bind (ms_key ip) (\<lambda>k.
       (case lru_Get k 0 c of
          (None, c') \<Rightarrow> Inr (None, c')
        | (Some (VIP _), c') \<Rightarrow> Inl TypeAssertion
        | (Some (VHost host), c') \<Rightarrow> Inr (Some host, snd (lru_Get (KHost host) 0 c'))))"

definition ms_PutByIP :: "bytes \<Rightarrow> string \<Rightarrow> memoryStore \<Rightarrow> memoryStore go" where
  "ms_PutByIP ip host c = go_bind (ms_key ip) (\<lambda>k. Inr (lru_Set k (VHost host) 0 c))"

definition ms_Exist :: "bytes \<Rightarrow> memoryStore \<Rightarrow> bool go" where
  "ms_Exist ip c = go_bind (ms_key ip) (\<lambda>k. Inr (lru_Exist k c))"

definition memory_store :: "memoryStore store" where
  "memory_store =
     \<lparr>st_GetByHost = ms_GetByHost, st_PutByHost = ms_PutByHost, st_GetByIP = ms_GetByIP,
      st_PutByIP = ms_PutByIP, st_Exist = ms_Exist\<rparr>"

section \<open>The store in the database\<close>

text \<open>Hosts and addresses are keys of the same bucket.  The error of a failed write is only logged.\<close>

definition cs_key :: "bytes \<Rightarrow> bytes" where
  "cs_key ip = (case to4 ip of Some q \<Rightarrow> q | None \<Rightarrow> [])"

definition cs_GetByHost :: "string \<Rightarrow> CacheFile \<Rightarrow> (bytes option \<times> CacheFile) go" where
  "cs_GetByHost host c = Inr (GetFakeip (bytes_of host) c, c)"

definition cs_PutByHost :: "string \<Rightarrow> bytes \<Rightarrow> CacheFile \<Rightarrow> CacheFile go" where
  "cs_PutByHost host ip c = Inr (snd (PutFakeip (bytes_of host) ip c))"

definition cs_GetByIP :: "bytes \<Rightarrow> CacheFile \<Rightarrow> (string option \<times> CacheFile) go" where
  "cs_GetByIP ip c = Inr (map_option string_of (GetFakeip (cs_key ip) c), c)"

definition cs_PutByIP :: "bytes \<Rightarrow> string \<Rightarrow> CacheFile \<Rightarrow> CacheFile go" where
  "cs_PutByIP ip host c = Inr (snd (PutFakeip (cs_key ip) (bytes_of host) c))"

definition cs_Exist :: "bytes \<Rightarrow> CacheFile \<Rightarrow> bool go" where
  "cs_Exist ip c = go_bind (cs_GetByIP ip c) (\<lambda>(h, c). Inr (h \<noteq> None))"

definition cachefile_store :: "CacheFile store" where
  "cachefile_store =
     \<lparr>st_GetByHost = cs_GetByHost, st_PutByHost = cs_PutByHost, st_GetByIP = cs_GetByIP,
      st_PutByIP = cs_PutByIP, st_Exist = cs_Exist\<rparr>"

section \<open>Either store\<close>

datatype pool_store = MemoryStore memoryStore | CachefileStore CacheFile

definition on_store ::
  "(memoryStore \<Rightarrow> ('a \<times> memoryStore) go) \<Rightarrow> (CacheFile \<Rightarrow> ('a \<times> CacheFile) go) \<Rightarrow> pool_store \<Rightarrow> ('a \<times> pool_store) go" where
  "on_store f g s =
     (case s of
        MemoryStore m \<Rightarrow> go_bind (f m) (\<lambda>(x, m). Inr (x, MemoryStore m))
      | CachefileStore c \<Rightarrow> go_bind (g c) (\<lambda>(x, c). Inr (x, CachefileStore c)))"

definition to_store :: "(memoryStore \<Rightarrow> memoryStore go) \<Rightarrow> (CacheFile \<Rightarrow> CacheFile go) \<Rightarrow> pool_store \<Rightarrow> pool_store go" where
  "to_store f g s =
     (case s of
        MemoryStore m \<Rightarrow> go_bind (f m) (\<lambda>m. Inr (MemoryStore m))
      | CachefileStore c \<Rightarrow> go_bind (g c) (\<lambda>c. Inr (CachefileStore c)))"

definition pool_stores :: "pool_store store" where
  "pool_stores =
     \<lparr>st_GetByHost = (\<lambda>h. on_store (ms_GetByHost h) (cs_GetByHost h)),
      st_PutByHost = (\<lambda>h ip. to_store (ms_PutByHost h ip) (cs_PutByHost h ip)),
      st_GetByIP = (\<lambda>ip. on_store (ms_GetByIP ip) (cs_GetByIP ip)),
      st_PutByIP = (\<lambda>ip h. to_store (ms_PutByIP ip h) (cs_PutByIP ip h)),
      st_Exist = (\<lambda>ip s. case s of MemoryStore m \<Rightarrow> ms_Exist ip m | CachefileStore c \<Rightarrow> cs_Exist ip c)\<rparr>"

text \<open>\<open>CloneTo\<close> fills a memory store from another one; the database keeps its entries anyway.\<close>

fun store_CloneTo :: "pool_store \<Rightarrow> pool_store \<Rightarrow> pool_store" where
  "store_CloneTo (MemoryStore m) (MemoryStore n) = MemoryStore (lru_CloneTo m n)"
| "store_CloneTo _ s = s"

definition pool_CloneFrom :: "(pool_store, 'd) Pool \<Rightarrow> (pool_store, 'd) Pool \<Rightarrow> (pool_store, 'd) Pool" where
  "pool_CloneFrom p old = p\<lparr>fp_store := store_CloneTo (fp_store old) (fp_store p)\<rparr>"

section \<open>A new pool\<close>

record 'd fakeip_options =
  fo_IPNet :: IPNet
  fo_Host :: "'d trie_node option"
  fo_Size :: int
  fo_Persistence :: bool

text \<open>\<open>net.IPMask.Size\<close>: leading ones and bits, both 0 for a mask with a hole.\<close>

definition mask_size :: "bytes \<Rightarrow> nat \<times> nat" where
  "mask_size m =
     (let bs = concat (map (\<lambda>b. map (\<lambda>i. bit b (7 - i)) [0..<8]) m);
          ones = length (takeWhile (\<lambda>b. b) bs)
      in if list_ex (\<lambda>b. b) (drop ones bs) then (0, 0) else (ones, length bs))"

text \<open>The number of addresses, in 64-bit arithmetic.\<close>

definition pool_total :: "bytes \<Rightarrow> int" where
  "pool_total m = (case mask_size m of (ones, bits) \<Rightarrow>
     wrap64 ((if bits - ones < 64 then wrap64 (2 ^ (bits - ones)) else 0) - 2))"

text \<open>\<open>c\<close> is the cache file, opened once for the whole program.\<close>

definition fake_New :: "CacheFile \<Rightarrow> 'd fakeip_options \<Rightarrow> (pool_store, 'd) Pool option" where
  "fake_New c opts =
     (let ipnet = fo_IPNet opts; min = ipToUint (net_ip ipnet) + 2; total = pool_total (net_mask ipnet) in
      if total \<le> 0 then None
      else Some \<lparr>fp_max = min + word_of_int total - 1, fp_min = min, fp_gateway = min - 1,
                 fp_offset = 0, fp_host = fo_Host opts, fp_ipnet = ipnet,
                 fp_store = (if fo_Persistence opts then CachefileStore c
                   else MemoryStore (NewLRUCache [WithSize (fo_Size opts * 2)]))\<rparr>)"

section \<open>Addresses and numbers\<close>

lemma byte_bit: "bit (x :: byte) n \<Longrightarrow> n < 8"
  using bit_imp_le_length [of x n] by simp

lemma ipToUint_bits:
  "ipToUint [a, b, c, d] = push_bit 24 (ucast a) OR push_bit 16 (ucast b) OR push_bit 8 (ucast c) OR ucast d"
proof -
  let ?a = "push_bit 24 (ucast a) :: 32 word" and ?b = "push_bit 16 (ucast b) :: 32 word"
  let ?c = "push_bit 8 (ucast c) :: 32 word" and ?d = "ucast d :: 32 word"
  have "?a AND ?b = 0" "(?a OR ?b) AND ?c = 0" "(?a OR ?b OR ?c) AND ?d = 0"
    by (rule bit_eqI; auto simp: bit_simps dest!: byte_bit)+
  then have "?a + ?b + ?c + ?d = ((?a OR ?b) OR ?c) OR ?d"
    by (simp add: disjunctive_add_eq_or or.assoc)
  then show ?thesis by (simp add: ipToUint_def or.assoc)
qed

lemma ipToUint_uintToIP [simp]: "ipToUint (uintToIP v) = v"
proof -
  have "push_bit 24 (ucast (ucast (drop_bit 24 v) :: byte)) OR push_bit 16 (ucast (ucast (drop_bit 16 v) :: byte)) OR
      push_bit 8 (ucast (ucast (drop_bit 8 v) :: byte)) OR ucast (ucast v :: byte) = v"
  proof (rule bit_eqI)
    fix n assume "possible_bit TYPE(32 word) n"
    then have "n < 32" by simp
    then consider "n < 8" | "8 \<le> n" "n < 16" | "16 \<le> n" "n < 24" | "24 \<le> n" "n < 32" by linarith
    then show "bit (push_bit 24 (ucast (ucast (drop_bit 24 v) :: byte)) OR
        push_bit 16 (ucast (ucast (drop_bit 16 v) :: byte)) OR
        push_bit 8 (ucast (ucast (drop_bit 8 v) :: byte)) OR ucast (ucast v :: byte) :: 32 word) n = bit v n"
      by cases (auto simp: bit_simps)
  qed
  then show ?thesis by (simp add: uintToIP_def ipToUint_bits)
qed

lemma length_uintToIP [simp]: "length (uintToIP v) = 4"
  by (simp add: uintToIP_def)

lemma uintToIP_ipToUint:
  assumes "length ip = 4"
  shows "uintToIP (ipToUint ip) = ip"
proof -
  obtain a b c d where ip: "ip = [a, b, c, d]"
    using assms by (auto simp: numeral_eq_Suc length_Suc_conv)
  have "ucast (drop_bit 24 (ipToUint ip)) = a" "ucast (drop_bit 16 (ipToUint ip)) = b"
    "ucast (drop_bit 8 (ipToUint ip)) = c" "ucast (ipToUint ip) = d"
    unfolding ip ipToUint_bits by (rule bit_eqI; auto simp: bit_simps dest: byte_bit)+
  then show ?thesis by (simp add: uintToIP_def ip)
qed

lemma ipToUint_inject: "length p = 4 \<Longrightarrow> length q = 4 \<Longrightarrow> ipToUint p = ipToUint q \<longleftrightarrow> p = q"
  by (metis uintToIP_ipToUint)

lemma uintToIP_inject [simp]: "uintToIP v = uintToIP w \<longleftrightarrow> v = w"
  by (metis ipToUint_uintToIP)

section \<open>What the pool relies on\<close>

text \<open>
  A store state shows two maps, of hosts to addresses and of addresses to hosts.  Lookups
  answer from them and leave them alone; storing the two entries of a new pair makes both
  visible and may only lose others, except what the entries overwrite.  A store may keep these
  promises for some hosts only.
\<close>

locale fake_store =
  fixes S :: "'s store" and inv :: "'s \<Rightarrow> bool"
    and hosts :: "'s \<Rightarrow> string \<Rightarrow> bytes option" and ips :: "'s \<Rightarrow> bytes \<Rightarrow> string option"
    and hostok :: "'s \<Rightarrow> string \<Rightarrow> bool"
  assumes get_host: "inv s \<Longrightarrow> \<exists>s'. st_GetByHost S h s = Inr (hosts s h, s') \<and> inv s' \<and>
      hosts s' = hosts s \<and> ips s' = ips s \<and> hostok s' = hostok s"
    and get_ip: "inv s \<Longrightarrow> length ip = 4 \<Longrightarrow> \<exists>s'. st_GetByIP S ip s = Inr (ips s ip, s') \<and> inv s' \<and>
      hosts s' = hosts s \<and> ips s' = ips s \<and> hostok s' = hostok s"
    and exist: "inv s \<Longrightarrow> length ip = 4 \<Longrightarrow> st_Exist S ip s = Inr (ips s ip \<noteq> None)"
    and put_pair: "inv s \<Longrightarrow> length ip = 4 \<Longrightarrow> hostok s h \<Longrightarrow> \<exists>s1 s2. st_PutByIP S ip h s = Inr s1 \<and>
      st_PutByHost S h ip s1 = Inr s2 \<and> inv s2 \<and> hostok s2 = hostok s \<and> hosts s2 h = Some ip \<and> ips s2 ip = Some h \<and>
      (\<forall>k. hostok s k \<longrightarrow> k \<noteq> h \<longrightarrow> hosts s2 k \<in> {None, hosts s k}) \<and>
      (\<forall>q. length q = 4 \<longrightarrow> q \<noteq> ip \<longrightarrow> ips s2 q \<in> {None, ips s q})"
begin

lemma put_host_exists:
  "inv s \<Longrightarrow> length ip = 4 \<Longrightarrow> hostok s h \<Longrightarrow> \<exists>s1 s2. st_PutByIP S ip h s = Inr s1 \<and> st_PutByHost S h ip s1 = Inr s2 \<and> inv s2"
  using put_pair by blast

end

text \<open>The number of rounds from an offset back to the one the loop started at.\<close>

definition rounds :: "nat \<Rightarrow> nat \<Rightarrow> nat \<Rightarrow> nat" where
  "rounds n c k = (if k < c then c - k else n + c - k)"

lemma next_offset:
  fixes k n :: "32 word"
  assumes "k < n"
  shows "unat ((k + 1) mod n) = Suc (unat k) mod unat n" "(k + 1) mod n < n"
proof -
  have "unat n < 2 ^ LENGTH(32)" by (rule unsigned_less)
  then have "unat k + 1 < 2 ^ 32" using assms by (simp add: word_less_nat_alt)
  then have "unat (k + 1) = Suc (unat k)" by (simp add: unat_plus_if')
  then show 1: "unat ((k + 1) mod n) = Suc (unat k) mod unat n" by (simp add: unat_mod_distrib)
  have "0 < unat n" using assms by (auto simp: word_less_nat_alt)
  then show "(k + 1) mod n < n" using 1 by (simp add: word_less_nat_alt)
qed

lemma rounds_next:
  assumes "k < n" "c < n" "Suc k mod n \<noteq> c"
  shows "rounds n c k = Suc (rounds n c (Suc k mod n))"
  using assms by (cases "Suc k = n") (auto simp: rounds_def)

context fake_store begin

text \<open>The loop ends within one round, at a free offset or where it started.\<close>

lemma pool_loop_ends:
  assumes "inv (fp_store p)" "offset < fp_max p - fp_min p" "current < fp_max p - fp_min p"
    and "rounds (unat (fp_max p - fp_min p)) (unat current) (unat offset) \<le> fuel"
  shows "\<exists>off. pool_loop S p current fuel offset = Some (Inr off) \<and> off < fp_max p - fp_min p \<and>
    (off = current \<or> ips (fp_store p) (pool_ip p off) = None)"
  using assms(2,4)
proof (induction fuel arbitrary: offset)
  case 0
  have "unat current < unat (fp_max p - fp_min p)" using assms(3) by (simp add: word_less_nat_alt)
  then show ?case using 0 by (auto simp: rounds_def word_less_nat_alt split: if_splits)
next
  case (Suc fuel)
  let ?n = "fp_max p - fp_min p"
  let ?o = "(offset + 1) mod ?n"
  note o = next_offset [OF Suc.prems(1)]
  have n: "?n \<noteq> 0" using Suc.prems(1) by auto
  have ex: "st_Exist S (pool_ip p ?o) (fp_store p) = Inr (ips (fp_store p) (pool_ip p ?o) \<noteq> None)"
    using exist [OF assms(1)] by (simp add: pool_ip_def)
  show ?case
  proof (cases "?o = current \<or> ips (fp_store p) (pool_ip p ?o) = None")
    case True
    then have "pool_loop S p current (Suc fuel) offset = Some (Inr ?o)"
      using n ex by (auto simp: Let_def)
    then show ?thesis using True o(2) by blast
  next
    case False
    then have "Suc (unat offset) mod unat ?n \<noteq> unat current" using o(1) by (metis word_unat_eq_iff)
    then have "rounds (unat ?n) (unat current) (unat offset) = Suc (rounds (unat ?n) (unat current) (unat ?o))"
      using Suc.prems(1) assms(3) o(1) by (simp add: rounds_next word_less_nat_alt)
    then have "\<exists>off. pool_loop S p current fuel ?o = Some (Inr off) \<and> off < ?n \<and>
        (off = current \<or> ips (fp_store p) (pool_ip p off) = None)"
      using Suc.prems(2) o(2) by (intro Suc.IH) simp_all
    then show ?thesis using False n ex by (simp add: Let_def)
  qed
qed

lemma pool_get_ends:
  assumes "inv (fp_store p)" "fp_offset p < fp_max p - fp_min p"
  shows "\<exists>off. pool_loop S p (fp_offset p) (Suc (unat (fp_max p - fp_min p))) (fp_offset p) = Some (Inr off) \<and>
    off < fp_max p - fp_min p \<and> (off = fp_offset p \<or> ips (fp_store p) (pool_ip p off) = None)"
  by (rule pool_loop_ends [OF assms assms(2)]) (simp add: rounds_def)

text \<open>A lookup of a new host: the pair is stored and visible.\<close>

lemma pool_Lookup_new:
  assumes "inv (fp_store p)" "fp_offset p < fp_max p - fp_min p" "hosts (fp_store p) h = None" "hostok (fp_store p) h"
  shows "\<exists>off p'. pool_Lookup S h p = Some (Inr (pool_ip p off, p')) \<and> off < fp_max p - fp_min p \<and>
    (off = fp_offset p \<or> ips (fp_store p) (pool_ip p off) = None) \<and>
    inv (fp_store p') \<and> fp_offset p' = off \<and> fp_max p' = fp_max p \<and> fp_min p' = fp_min p \<and>
    hosts (fp_store p') h = Some (pool_ip p off) \<and> ips (fp_store p') (pool_ip p off) = Some h"
proof -
  obtain s' where s': "st_GetByHost S h (fp_store p) = Inr (None, s')" "inv s'"
    "hosts s' = hosts (fp_store p)" "ips s' = ips (fp_store p)" "hostok s' h"
    using get_host [OF assms(1), of h] assms(3,4) by auto
  let ?p = "p\<lparr>fp_store := s'\<rparr>"
  obtain off where off: "pool_loop S ?p (fp_offset p) (Suc (unat (fp_max p - fp_min p))) (fp_offset p) = Some (Inr off)"
    "off < fp_max p - fp_min p" "off = fp_offset p \<or> ips (fp_store p) (pool_ip p off) = None"
    using pool_get_ends [of ?p] s' assms(2) by (auto simp: pool_ip_def)
  have ip: "pool_ip ?p off = pool_ip p off" by (simp add: pool_ip_def)
  obtain s1 s2 where put: "st_PutByIP S (pool_ip p off) h s' = Inr s1" "st_PutByHost S h (pool_ip p off) s1 = Inr s2"
    "inv s2" "hosts s2 h = Some (pool_ip p off)" "ips s2 (pool_ip p off) = Some h"
    using put_pair [OF s'(2), of "pool_ip p off" h] s'(5) by (auto simp: pool_ip_def)
  have "pool_Lookup S h p = Some (Inr (pool_ip p off, p\<lparr>fp_offset := off, fp_store := s2\<rparr>))"
    using s'(1) off(1) put(1,2) ip by (simp add: pool_Lookup_def pool_get_def Let_def)
  then show ?thesis using off put by auto
qed

lemma pool_Lookup_known:
  assumes "inv (fp_store p)" "hosts (fp_store p) h = Some ip"
  shows "\<exists>s'. pool_Lookup S h p = Some (Inr (ip, p\<lparr>fp_store := s'\<rparr>)) \<and> inv s' \<and>
    hosts s' = hosts (fp_store p) \<and> ips s' = ips (fp_store p)"
  using get_host [OF assms(1), of h] assms(2) by (auto simp: pool_Lookup_def)

lemma pool_LookBack_stored:
  assumes "inv (fp_store p)" "length ip = 4"
  shows "\<exists>p'. pool_LookBack S ip p = Inr (ips (fp_store p) ip, p')"
  using get_ip [OF assms] assms(2) by (auto simp: pool_LookBack_def to4_def)

end

section \<open>The memory store provides the interface\<close>

text \<open>A bounded store keeps a final part of the other bindings, and the new one.\<close>

definition others :: "'k \<Rightarrow> ('k \<times> 'v) list \<Rightarrow> ('k \<times> 'v) list" where
  "others k xs = filter (\<lambda>(j, _). j \<noteq> k) xs"

lemma others_absent: "k \<notin> fst ` set (others k xs)"
  by (auto simp: others_def)

lemma map_of_others: "map_of (others k xs) j = (if j = k then None else map_of xs j)"
  by (induction xs) (auto simp: others_def)

lemma distinct_others: "distinct (map fst xs) \<Longrightarrow> distinct (map fst (others k xs))"
  by (simp add: others_def distinct_map_filter)

lemma recent_form:
  obtains m where "recent n k v xs = drop m (others k xs) @ [(k, v)]"
    and "0 < n \<Longrightarrow> m = Suc (length (others k xs)) - nat n"
    and "\<not> 0 < n \<Longrightarrow> m = 0"
proof (cases "0 < n")
  case True
  then have "Suc (length (others k xs)) - nat n \<le> length (others k xs)" by (cases "nat n") auto
  then show ?thesis
    using True by (intro that [of "Suc (length (others k xs)) - nat n"])
      (simp_all add: recent_def others_def Let_def)
next
  case False
  then show ?thesis by (intro that [of 0]) (simp_all add: recent_def others_def)
qed

lemma drop_keys: "k \<notin> fst ` set xs \<Longrightarrow> k \<notin> fst ` set (drop m xs)"
  by (auto dest: in_set_dropD)

lemma map_of_drop:
  assumes "distinct (map fst xs)"
  shows "map_of (drop m xs) k \<in> {None, map_of xs k}"
proof (cases "map_of (drop m xs) k")
  case (Some v)
  then have "(k, v) \<in> set xs" by (meson in_set_dropD map_of_SomeD)
  then show ?thesis using assms Some by simp
qed simp

lemma map_of_recent:
  assumes "distinct (map fst xs)"
  shows "map_of (recent n k v xs) k = Some v"
    and "j \<noteq> k \<Longrightarrow> map_of (recent n k v xs) j \<in> {None, map_of xs j}"
    and "distinct (map fst (recent n k v xs))"
proof -
  obtain m where r: "recent n k v xs = drop m (others k xs) @ [(k, v)]" by (rule recent_form)
  have a: "k \<notin> fst ` set (drop m (others k xs))" using others_absent by (rule drop_keys)
  then have "map_of (drop m (others k xs)) k = None" by (simp add: map_of_eq_None_iff)
  then show "map_of (recent n k v xs) k = Some v" by (simp add: r map_add_def)
  show "map_of (recent n k v xs) j \<in> {None, map_of xs j}" if "j \<noteq> k"
    using map_of_drop [OF distinct_others [OF assms], of m k j] that
    by (auto simp: r map_add_def map_of_others split: option.splits)
  have "distinct (drop m (map fst (others k xs)))" using distinct_others [OF assms] by (rule distinct_drop)
  then show "distinct (map fst (recent n k v xs))" using a by (simp add: r drop_map)
qed

text \<open>The binding stored last but one is still there when there is room for two.\<close>

lemma map_of_recent_pair:
  assumes "n \<le> 0 \<or> 2 \<le> n" "j \<noteq> k"
  shows "map_of (recent n k v (recent n j u xs)) j = Some u"
proof -
  obtain m where 1: "recent n j u xs = drop m (others j xs) @ [(j, u)]"
    by (rule recent_form [of n j u xs])
  let ?ys = "recent n j u xs"
  obtain l where 2: "recent n k v ?ys = drop l (others k ?ys) @ [(k, v)]"
    and l: "0 < n \<Longrightarrow> l = Suc (length (others k ?ys)) - nat n" "\<not> 0 < n \<Longrightarrow> l = 0"
    using recent_form [of n k v ?ys] by blast
  let ?zs = "others k (drop m (others j xs))"
  have o: "others k ?ys = ?zs @ [(j, u)]" using assms(2) by (simp add: 1 others_def)
  have "l \<le> length ?zs" using l assms(1) o by (cases "0 < n") auto
  then have r: "recent n k v ?ys = drop l ?zs @ [(j, u), (k, v)]" using 2 o by simp
  have "j \<notin> fst ` set ?zs" using drop_keys [OF others_absent [of j xs]] by (auto simp: others_def)
  then have "j \<notin> fst ` set (drop l ?zs)" by (rule drop_keys)
  then have "map_of (drop l ?zs) j = None" by (simp add: map_of_eq_None_iff)
  then show ?thesis using assms(2) by (simp add: r map_add_def)
qed

text \<open>A lookup moves a binding and changes no answer.\<close>

lemma map_of_moved: "map_of xs k = Some v \<Longrightarrow> map_of (others k xs @ [(k, v)]) = map_of xs"
  by (rule ext) (auto simp: map_add_def map_of_others split: option.split)

lemma lru_Get_map:
  assumes "lc_maxAge c \<le> 0"
  shows "fst (lru_Get k now c) = map_of (lru_view c) k \<and>
    map_of (lru_view (snd (lru_Get k now c))) = map_of (lru_view c)"
  using lru_Get_view [OF assms, of k now] map_of_moved [of "lru_view c" k]
  by (auto simp: others_def split: option.splits)

section \<open>The maps a memory store shows\<close>

definition ms_hosts :: "memoryStore \<Rightarrow> string \<Rightarrow> bytes option" where
  "ms_hosts c h = (case map_of (lru_view c) (KHost h) of Some (VIP ip) \<Rightarrow> Some ip | _ \<Rightarrow> None)"

definition ms_ips :: "memoryStore \<Rightarrow> bytes \<Rightarrow> string option" where
  "ms_ips c ip = (case map_of (lru_view c) (KIP (ipToUint ip)) of Some (VHost h) \<Rightarrow> Some h | _ \<Rightarrow> None)"

text \<open>Keys are bound to values of their kind.\<close>

fun fake_typed :: "fake_key \<Rightarrow> fake_val \<Rightarrow> bool" where
  "fake_typed (KHost _) (VIP ip) = (length ip = 4)"
| "fake_typed (KIP _) (VHost _) = True"
| "fake_typed _ _ = False"

definition ms_inv :: "memoryStore \<Rightarrow> bool" where
  "ms_inv c \<longleftrightarrow> lru_ok c \<and> lc_maxAge c \<le> 0 \<and> (lc_maxSize c \<le> 0 \<or> 2 \<le> lc_maxSize c) \<and>
     (\<forall>k v. map_of (lru_view c) k = Some v \<longrightarrow> fake_typed k v)"

lemma lru_config [simp]:
  "lc_maxAge (lru_Set k v now c) = lc_maxAge c" "lc_maxSize (lru_Set k v now c) = lc_maxSize c"
  "lc_maxAge (snd (lru_Get k now c)) = lc_maxAge c" "lc_maxSize (snd (lru_Get k now c)) = lc_maxSize c"
  by (auto simp: lru_Set_def lru_SetWithExpire_def Let_def lru_Get_def lru_get_def
      split: option.splits)

lemma lru_view_distinct: "lru_ok c \<Longrightarrow> distinct (map fst (lru_view c))"
  by (simp add: lru_ok_def lru_keys_def lru_view_def o_def)

lemma ms_inv_Get: "ms_inv c \<Longrightarrow> ms_inv (snd (lru_Get k now c))"
  by (simp add: ms_inv_def lru_ok_Get lru_Get_map)

lemma ms_maps_Get:
  assumes "ms_inv c"
  shows "ms_hosts (snd (lru_Get k now c)) = ms_hosts c" "ms_ips (snd (lru_Get k now c)) = ms_ips c"
  using assms by (simp_all add: ms_inv_def ms_hosts_def ms_ips_def fun_eq_iff lru_Get_map)

lemma ms_inv_Set:
  assumes "ms_inv c" "fake_typed k v"
  shows "ms_inv (lru_Set k v now c)"
proof -
  have "fake_typed j w" if "map_of (lru_view (lru_Set k v now c)) j = Some w" for j w
  proof -
    have "lru_view (lru_Set k v now c) = recent (lc_maxSize c) k v (lru_view c)"
      using assms(1) by (simp add: ms_inv_def lru_Set_view)
    moreover have d: "distinct (map fst (lru_view c))" using assms(1) lru_view_distinct [of c] by (simp add: ms_inv_def)
    ultimately have "j = k \<and> w = v \<or> map_of (lru_view c) j = Some w"
      using that map_of_recent(1) [OF d, of "lc_maxSize c" k v] map_of_recent(2) [OF d, of j k "lc_maxSize c" v]
      by (cases "j = k") auto
    then show ?thesis using assms by (auto simp: ms_inv_def)
  qed
  then show ?thesis using assms(1) by (simp add: ms_inv_def lru_ok_Set)
qed

lemma ms_key_4: "length ip = 4 \<Longrightarrow> ms_key ip = Inr (KIP (ipToUint ip))"
  by (simp add: ms_key_def to4_def)

lemma ms_get_host:
  assumes "ms_inv c"
  shows "\<exists>c'. ms_GetByHost h c = Inr (ms_hosts c h, c') \<and> ms_inv c' \<and>
    ms_hosts c' = ms_hosts c \<and> ms_ips c' = ms_ips c"
proof -
  obtain c1 where g: "lru_Get (KHost h) 0 c = (map_of (lru_view c) (KHost h), c1)"
    using assms lru_Get_map [of c "KHost h" 0] by (metis ms_inv_def prod.collapse)
  then have c1: "ms_inv c1" "ms_hosts c1 = ms_hosts c" "ms_ips c1 = ms_ips c"
    using assms ms_inv_Get [of c "KHost h" 0] ms_maps_Get [of c "KHost h" 0] by simp_all
  show ?thesis
  proof (cases "map_of (lru_view c) (KHost h)")
    case None
    then show ?thesis using g c1 by (simp add: ms_GetByHost_def ms_hosts_def)
  next
    case (Some v)
    then have "fake_typed (KHost h) v" using assms by (simp add: ms_inv_def)
    then obtain ip where "v = VIP ip" "length ip = 4" by (cases v) auto
    then show ?thesis
      using g Some c1 ms_inv_Get [OF c1(1)] ms_maps_Get [OF c1(1)]
      by (simp add: ms_GetByHost_def ms_hosts_def [of c h] ms_key_4)
  qed
qed

lemma ms_get_ip:
  assumes "ms_inv c" "length ip = 4"
  shows "\<exists>c'. ms_GetByIP ip c = Inr (ms_ips c ip, c') \<and> ms_inv c' \<and>
    ms_hosts c' = ms_hosts c \<and> ms_ips c' = ms_ips c"
proof -
  let ?k = "KIP (ipToUint ip)"
  obtain c1 where g: "lru_Get ?k 0 c = (map_of (lru_view c) ?k, c1)"
    using assms lru_Get_map [of c ?k 0] by (metis ms_inv_def prod.collapse)
  then have c1: "ms_inv c1" "ms_hosts c1 = ms_hosts c" "ms_ips c1 = ms_ips c"
    using assms ms_inv_Get [of c ?k 0] ms_maps_Get [of c ?k 0] by simp_all
  show ?thesis
  proof (cases "map_of (lru_view c) ?k")
    case None
    then show ?thesis using g c1 assms(2) by (simp add: ms_GetByIP_def ms_ips_def ms_key_4)
  next
    case (Some v)
    then have "fake_typed ?k v" using assms by (simp add: ms_inv_def)
    then obtain h where "v = VHost h" by (cases v) auto
    then show ?thesis
      using g Some c1 assms(2) ms_inv_Get [OF c1(1)] ms_maps_Get [OF c1(1)]
      by (simp add: ms_GetByIP_def ms_ips_def [of c ip] ms_key_4)
  qed
qed

lemma lru_Exist_view: "lru_Exist k c \<longleftrightarrow> map_of (lru_view c) k \<noteq> None"
  unfolding lru_Exist_def lru_view_def lru_find_view [symmetric] by simp

lemma ms_exist:
  assumes "ms_inv c" "length ip = 4"
  shows "ms_Exist ip c = Inr (ms_ips c ip \<noteq> None)"
proof (cases "map_of (lru_view c) (KIP (ipToUint ip))")
  case (Some v)
  then have "fake_typed (KIP (ipToUint ip)) v" using assms by (simp add: ms_inv_def)
  then show ?thesis
    using Some assms(2) by (cases v) (simp_all add: ms_Exist_def ms_key_4 lru_Exist_view ms_ips_def)
qed (use assms(2) in \<open>simp add: ms_Exist_def ms_key_4 lru_Exist_view ms_ips_def\<close>)

lemma ms_put_pair:
  assumes c: "ms_inv c" and ip: "length ip = 4"
  shows "\<exists>c1 c2. ms_PutByIP ip h c = Inr c1 \<and> ms_PutByHost h ip c1 = Inr c2 \<and> ms_inv c2 \<and>
    ms_hosts c2 h = Some ip \<and> ms_ips c2 ip = Some h \<and>
    (\<forall>k. k \<noteq> h \<longrightarrow> ms_hosts c2 k \<in> {None, ms_hosts c k}) \<and>
    (\<forall>q. length q = 4 \<longrightarrow> q \<noteq> ip \<longrightarrow> ms_ips c2 q \<in> {None, ms_ips c q})"
proof -
  let ?i = "KIP (ipToUint ip)" and ?h = "KHost h" and ?n = "lc_maxSize c"
  let ?c1 = "lru_Set ?i (VHost h) 0 c"
  let ?c2 = "lru_Set ?h (VIP ip) 0 ?c1"
  have c1: "ms_inv ?c1" using c by (simp add: ms_inv_Set)
  have c2: "ms_inv ?c2" using c1 ip by (simp add: ms_inv_Set)
  have d: "distinct (map fst (lru_view c))" using c lru_view_distinct [of c] by (simp add: ms_inv_def)
  have v1: "lru_view ?c1 = recent ?n ?i (VHost h) (lru_view c)"
    using c by (simp add: ms_inv_def lru_Set_view)
  have v2: "lru_view ?c2 = recent ?n ?h (VIP ip) (lru_view ?c1)"
    using c1 by (simp add: ms_inv_def lru_Set_view)
  have d1: "distinct (map fst (lru_view ?c1))" using map_of_recent(3) [OF d] by (simp add: v1)
  have n: "?n \<le> 0 \<or> 2 \<le> ?n" using c by (simp add: ms_inv_def)
  have h: "map_of (lru_view ?c2) ?h = Some (VIP ip)" using map_of_recent(1) [OF d1] by (simp add: v2)
  have i: "map_of (lru_view ?c2) ?i = Some (VHost h)"
    using map_of_recent_pair [OF n, of ?i ?h] by (simp add: v2 v1)
  have o: "map_of (lru_view ?c2) j \<in> {None, map_of (lru_view c) j}" if "j \<noteq> ?h" "j \<noteq> ?i" for j
    using map_of_recent(2) [OF d1 that(1), of ?n "VIP ip"] map_of_recent(2) [OF d that(2), of ?n "VHost h"]
    unfolding v2 v1 by auto
  have "ms_hosts ?c2 k \<in> {None, ms_hosts c k}" if "k \<noteq> h" for k
    using o [of "KHost k"] that by (auto simp: ms_hosts_def)
  moreover have "ms_ips ?c2 q \<in> {None, ms_ips c q}" if "length q = 4" "q \<noteq> ip" for q
    using o [of "KIP (ipToUint q)"] that ipToUint_inject [OF that(1) ip] by (auto simp: ms_ips_def)
  ultimately show ?thesis
    using c2 h i ip by (simp add: ms_PutByIP_def ms_PutByHost_def ms_key_4 ms_hosts_def ms_ips_def)
qed

interpretation memory: fake_store memory_store ms_inv ms_hosts ms_ips "\<lambda>_ _. True"
proof
  show "\<exists>s'. st_GetByHost memory_store h s = Inr (ms_hosts s h, s') \<and> ms_inv s' \<and>
      ms_hosts s' = ms_hosts s \<and> ms_ips s' = ms_ips s \<and> (\<lambda>_. True) = (\<lambda>_. True)" if "ms_inv s" for s h
    using ms_get_host [OF that] by (simp add: memory_store_def)
  show "\<exists>s'. st_GetByIP memory_store ip s = Inr (ms_ips s ip, s') \<and> ms_inv s' \<and>
      ms_hosts s' = ms_hosts s \<and> ms_ips s' = ms_ips s \<and> (\<lambda>_. True) = (\<lambda>_. True)" if "ms_inv s" "length ip = 4" for s ip
    using ms_get_ip [OF that] by (simp add: memory_store_def)
  show "st_Exist memory_store ip s = Inr (ms_ips s ip \<noteq> None)" if "ms_inv s" "length ip = 4" for s ip
    using ms_exist [OF that] by (simp add: memory_store_def)
  show "\<exists>s1 s2. st_PutByIP memory_store ip h s = Inr s1 \<and> st_PutByHost memory_store h ip s1 = Inr s2 \<and>
      ms_inv s2 \<and> (\<lambda>_. True) = (\<lambda>_. True) \<and> ms_hosts s2 h = Some ip \<and> ms_ips s2 ip = Some h \<and>
      (\<forall>k. True \<longrightarrow> k \<noteq> h \<longrightarrow> ms_hosts s2 k \<in> {None, ms_hosts s k}) \<and>
      (\<forall>q. length q = 4 \<longrightarrow> q \<noteq> ip \<longrightarrow> ms_ips s2 q \<in> {None, ms_ips s q})"
    if "ms_inv s" "length ip = 4" for s ip h
    using ms_put_pair [OF that] by (simp add: memory_store_def)
qed

section \<open>The maps the database shows\<close>

text \<open>
  The database must be open and accept short pairs.  A host with the length of an address
  would share its key with an address.
\<close>

definition cs_inv :: "CacheFile \<Rightarrow> bool" where
  "cs_inv c \<longleftrightarrow> (\<exists>db. ca_DB c = Some db \<and>
     (\<forall>k v. k \<noteq> [] \<longrightarrow> length k \<le> 255 \<longrightarrow> length v \<le> 255 \<longrightarrow> bo_accepts db bucketFakeip k v))"

definition cs_hosts :: "CacheFile \<Rightarrow> string \<Rightarrow> bytes option" where
  "cs_hosts c h = GetFakeip (bytes_of h) c"

definition cs_ips :: "CacheFile \<Rightarrow> bytes \<Rightarrow> string option" where
  "cs_ips c ip = map_option string_of (GetFakeip ip c)"

definition cs_hostok :: "string \<Rightarrow> bool" where
  "cs_hostok h \<longleftrightarrow> h \<noteq> [] \<and> length h \<noteq> 4 \<and> length h \<le> 255"

lemma cs_put:
  assumes "cs_inv c" "k \<noteq> []" "length k \<le> 255" "length v \<le> 255"
  shows "cs_inv (snd (PutFakeip k v c)) \<and> (\<forall>j. GetFakeip j (snd (PutFakeip k v c)) = (if j = k then Some v else GetFakeip j c))"
  using assms unfolding cs_inv_def
  by (auto simp: PutFakeip_def GetFakeip_def bolt_put_def Let_def split: option.split)

lemma cs_key_4: "length ip = 4 \<Longrightarrow> cs_key ip = ip"
  by (simp add: cs_key_def to4_def)

interpretation database: fake_store cachefile_store cs_inv cs_hosts cs_ips "\<lambda>_. cs_hostok"
proof
  show "\<exists>s'. st_GetByHost cachefile_store h s = Inr (cs_hosts s h, s') \<and> cs_inv s' \<and>
      cs_hosts s' = cs_hosts s \<and> cs_ips s' = cs_ips s \<and> cs_hostok = cs_hostok" if "cs_inv s" for s h
    using that by (simp add: cachefile_store_def cs_GetByHost_def cs_hosts_def)
  show "\<exists>s'. st_GetByIP cachefile_store ip s = Inr (cs_ips s ip, s') \<and> cs_inv s' \<and>
      cs_hosts s' = cs_hosts s \<and> cs_ips s' = cs_ips s \<and> cs_hostok = cs_hostok" if "cs_inv s" "length ip = 4" for s ip
    using that by (simp add: cachefile_store_def cs_GetByIP_def cs_ips_def cs_key_4)
  show "st_Exist cachefile_store ip s = Inr (cs_ips s ip \<noteq> None)" if "cs_inv s" "length ip = 4" for s ip
    using that by (simp add: cachefile_store_def cs_Exist_def cs_GetByIP_def cs_ips_def cs_key_4)
  show "\<exists>s1 s2. st_PutByIP cachefile_store ip h s = Inr s1 \<and> st_PutByHost cachefile_store h ip s1 = Inr s2 \<and>
      cs_inv s2 \<and> cs_hostok = cs_hostok \<and> cs_hosts s2 h = Some ip \<and> cs_ips s2 ip = Some h \<and>
      (\<forall>k. cs_hostok k \<longrightarrow> k \<noteq> h \<longrightarrow> cs_hosts s2 k \<in> {None, cs_hosts s k}) \<and>
      (\<forall>q. length q = 4 \<longrightarrow> q \<noteq> ip \<longrightarrow> cs_ips s2 q \<in> {None, cs_ips s q})"
    if "cs_inv s" "length ip = 4" "cs_hostok h" for s ip h
  proof -
    let ?s1 = "snd (PutFakeip ip (bytes_of h) s)"
    let ?s2 = "snd (PutFakeip (bytes_of h) ip ?s1)"
    have ip: "ip \<noteq> []" "length ip \<le> 255" using that(2) by auto
    have h: "bytes_of h \<noteq> []" "length (bytes_of h) \<le> 255" "length (bytes_of h) \<noteq> 4"
      using that(3) by (auto simp: cs_hostok_def bytes_of_def)
    from cs_put [OF that(1) ip h(2)] have s1: "cs_inv ?s1" "\<And>j. GetFakeip j ?s1 = (if j = ip then Some (bytes_of h) else GetFakeip j s)" by auto
    from cs_put [OF s1(1) h(1,2) ip(2)] have s2: "cs_inv ?s2" "\<And>j. GetFakeip j ?s2 = (if j = bytes_of h then Some ip else GetFakeip j ?s1)" by auto
    have ne: "bytes_of k \<noteq> q" if "cs_hostok k" "length q = 4" for k q
      using that by (metis cs_hostok_def length_bytes_of)
    have inj: "bytes_of k \<noteq> bytes_of h" if "k \<noteq> h" for k using that by (metis string_bytes_roundtrip)
    have "st_PutByIP cachefile_store ip h s = Inr ?s1" "st_PutByHost cachefile_store h ip ?s1 = Inr ?s2"
      using that(2) by (simp_all add: cachefile_store_def cs_PutByIP_def cs_PutByHost_def cs_key_4)
    moreover have "cs_hosts ?s2 h = Some ip" "cs_ips ?s2 ip = Some h"
      using ne [OF that(3,2)] by (simp_all add: cs_hosts_def cs_ips_def s2(2) s1(2))
    moreover have "cs_hosts ?s2 k \<in> {None, cs_hosts s k}" if "cs_hostok k" "k \<noteq> h" for k
      using ne [OF that(1) \<open>length ip = 4\<close>] inj [OF that(2)] by (simp add: cs_hosts_def s2(2) s1(2))
    moreover have "cs_ips ?s2 q \<in> {None, cs_ips s q}" if "length q = 4" "q \<noteq> ip" for q
      using ne [OF \<open>cs_hostok h\<close> that(1)] that(2) by (auto simp: cs_ips_def s2(2) s1(2))
    ultimately show ?thesis using s2(1) by blast
  qed
qed

text \<open>Either store, with the promises of the one it is.\<close>

definition ps_inv :: "pool_store \<Rightarrow> bool" where
  "ps_inv s = (case s of MemoryStore m \<Rightarrow> ms_inv m | CachefileStore c \<Rightarrow> cs_inv c)"

definition ps_hosts :: "pool_store \<Rightarrow> string \<Rightarrow> bytes option" where
  "ps_hosts s = (case s of MemoryStore m \<Rightarrow> ms_hosts m | CachefileStore c \<Rightarrow> cs_hosts c)"

definition ps_ips :: "pool_store \<Rightarrow> bytes \<Rightarrow> string option" where
  "ps_ips s = (case s of MemoryStore m \<Rightarrow> ms_ips m | CachefileStore c \<Rightarrow> cs_ips c)"

definition ps_hostok :: "pool_store \<Rightarrow> string \<Rightarrow> bool" where
  "ps_hostok s = (case s of MemoryStore m \<Rightarrow> (\<lambda>_. True) | CachefileStore c \<Rightarrow> cs_hostok)"

lemmas ps_defs = ps_inv_def ps_hosts_def ps_ips_def ps_hostok_def pool_stores_def on_store_def to_store_def

interpretation either: fake_store pool_stores ps_inv ps_hosts ps_ips ps_hostok
proof
  show "\<exists>s'. st_GetByHost pool_stores h s = Inr (ps_hosts s h, s') \<and> ps_inv s' \<and>
      ps_hosts s' = ps_hosts s \<and> ps_ips s' = ps_ips s \<and> ps_hostok s' = ps_hostok s" if "ps_inv s" for s h
  proof (cases s)
    case (MemoryStore m)
    with that memory.get_host [of m h] show ?thesis by (force simp: ps_defs memory_store_def)
  next
    case (CachefileStore c)
    with that database.get_host [of c h] show ?thesis by (force simp: ps_defs cachefile_store_def)
  qed
  show "\<exists>s'. st_GetByIP pool_stores ip s = Inr (ps_ips s ip, s') \<and> ps_inv s' \<and>
      ps_hosts s' = ps_hosts s \<and> ps_ips s' = ps_ips s \<and> ps_hostok s' = ps_hostok s" if "ps_inv s" "length ip = 4" for s ip
  proof (cases s)
    case (MemoryStore m)
    with that memory.get_ip [of m ip] show ?thesis by (force simp: ps_defs memory_store_def)
  next
    case (CachefileStore c)
    with that database.get_ip [of c ip] show ?thesis by (force simp: ps_defs cachefile_store_def)
  qed
  show "st_Exist pool_stores ip s = Inr (ps_ips s ip \<noteq> None)" if "ps_inv s" "length ip = 4" for s ip
    using that memory.exist [of _ ip] database.exist [of _ ip]
    by (cases s) (simp_all add: ps_defs memory_store_def cachefile_store_def)
  show "\<exists>s1 s2. st_PutByIP pool_stores ip h s = Inr s1 \<and> st_PutByHost pool_stores h ip s1 = Inr s2 \<and>
      ps_inv s2 \<and> ps_hostok s2 = ps_hostok s \<and> ps_hosts s2 h = Some ip \<and> ps_ips s2 ip = Some h \<and>
      (\<forall>k. ps_hostok s k \<longrightarrow> k \<noteq> h \<longrightarrow> ps_hosts s2 k \<in> {None, ps_hosts s k}) \<and>
      (\<forall>q. length q = 4 \<longrightarrow> q \<noteq> ip \<longrightarrow> ps_ips s2 q \<in> {None, ps_ips s q})"
    if "ps_inv s" "length ip = 4" "ps_hostok s h" for s ip h
  proof (cases s)
    case (MemoryStore m)
    with that memory.put_pair [of m ip h] obtain m1 m2 where
      "ms_PutByIP ip h m = Inr m1" "ms_PutByHost h ip m1 = Inr m2" "ms_inv m2" "ms_hosts m2 h = Some ip" "ms_ips m2 ip = Some h"
      "\<forall>k. k \<noteq> h \<longrightarrow> ms_hosts m2 k \<in> {None, ms_hosts m k}" "\<forall>q. length q = 4 \<longrightarrow> q \<noteq> ip \<longrightarrow> ms_ips m2 q \<in> {None, ms_ips m q}"
      by (auto simp: ps_defs memory_store_def)
    with MemoryStore show ?thesis by (intro exI [of _ "MemoryStore m1"] exI [of _ "MemoryStore m2"]) (simp add: ps_defs)
  next
    case (CachefileStore c)
    with that database.put_pair [of c ip h] obtain c1 c2 where
      "cs_PutByIP ip h c = Inr c1" "cs_PutByHost h ip c1 = Inr c2" "cs_inv c2" "cs_hosts c2 h = Some ip" "cs_ips c2 ip = Some h"
      "\<forall>k. cs_hostok k \<longrightarrow> k \<noteq> h \<longrightarrow> cs_hosts c2 k \<in> {None, cs_hosts c k}" "\<forall>q. length q = 4 \<longrightarrow> q \<noteq> ip \<longrightarrow> cs_ips c2 q \<in> {None, cs_ips c q}"
      by (auto simp: ps_defs cachefile_store_def)
    with CachefileStore show ?thesis by (intro exI [of _ "CachefileStore c1"] exI [of _ "CachefileStore c2"]) (simp add: ps_defs)
  qed
qed

section \<open>Properties\<close>

definition pool_ok :: "(pool_store, 'd) Pool \<Rightarrow> bool" where
  "pool_ok p \<longleftrightarrow> ps_inv (fp_store p) \<and> fp_offset p < fp_max p - fp_min p"

lemma fakeip_roundtrip_lemma:
  assumes "pool_ok p" and "ps_hosts (fp_store p) h = None" and "ps_hostok (fp_store p) h"
  shows "\<exists>off p'. pool_Lookup pool_stores h p = Some (Inr (pool_ip p off, p')) \<and> pool_ok p' \<and>
    off < fp_max p - fp_min p \<and>
    (off = fp_offset p \<or> ps_ips (fp_store p) (pool_ip p off) = None) \<and>
    (\<exists>p''. pool_LookBack pool_stores (pool_ip p off) p' = Inr (Some h, p'')) \<and>
    (\<exists>p''. pool_Lookup pool_stores h p' = Some (Inr (pool_ip p off, p'')))"
proof -
  have p: "ps_inv (fp_store p)" "fp_offset p < fp_max p - fp_min p"
    using assms(1) by (simp_all add: pool_ok_def)
  obtain off p' where l: "pool_Lookup pool_stores h p = Some (Inr (pool_ip p off, p'))"
    and off: "off < fp_max p - fp_min p" "off = fp_offset p \<or> ps_ips (fp_store p) (pool_ip p off) = None"
    and p': "ps_inv (fp_store p')" "fp_offset p' = off" "fp_max p' = fp_max p" "fp_min p' = fp_min p"
    and st: "ps_hosts (fp_store p') h = Some (pool_ip p off)" "ps_ips (fp_store p') (pool_ip p off) = Some h"
    using either.pool_Lookup_new [OF p assms(2,3)] by blast
  have "length (pool_ip p off) = 4" by (simp add: pool_ip_def)
  then have "\<exists>p''. pool_LookBack pool_stores (pool_ip p off) p' = Inr (Some h, p'')"
    using either.pool_LookBack_stored [OF p'(1)] st(2) by metis
  moreover have "\<exists>p''. pool_Lookup pool_stores h p' = Some (Inr (pool_ip p off, p''))"
    using either.pool_Lookup_known [OF p'(1) st(1)] by blast
  moreover have "pool_ok p'" using p' off by (simp add: pool_ok_def)
  ultimately show ?thesis using l off by blast
qed

text \<open>
  C12. A lookup always ends, without a panic, within one round of the offsets.  A host not
  known yet gets an address of the pool that is nobody's, unless every offset is taken;
  the address leads back to the host, and asking again gives the same address.
\<close>

theorem fakeip_roundtrip:
  assumes "pool_ok p" and "ps_hosts (fp_store p) h = None" and "ps_hostok (fp_store p) h"
  shows "\<exists>off p'. pool_Lookup pool_stores h p = Some (Inr (pool_ip p off, p')) \<and> pool_ok p' \<and>
    off < fp_max p - fp_min p \<and>
    (off = fp_offset p \<or> ps_ips (fp_store p) (pool_ip p off) = None) \<and>
    (\<exists>p''. pool_LookBack pool_stores (pool_ip p off) p' = Inr (Some h, p'')) \<and>
    (\<exists>p''. pool_Lookup pool_stores h p' = Some (Inr (pool_ip p off, p'')))"
  using assms by (rule fakeip_roundtrip_lemma)

lemma pool_total_even: "0 < pool_total m \<Longrightarrow> even (pool_total m)"
proof -
  have w: "even (wrap64 x)" if "even x" for x
    using that by (simp add: wrap64_def even_signed_take_bit_iff)
  assume pos: "0 < pool_total m"
  obtain ones bits where s: "mask_size m = (ones, bits)" by force
  show ?thesis
  proof (cases "bits - ones")
    case 0
    then have "pool_total m = wrap64 (wrap64 1 - 2)" using s by (simp add: pool_total_def)
    with pos show ?thesis by (simp add: wrap64_id)
  next
    case (Suc k)
    then have "even ((if bits - ones < 64 then wrap64 (2 ^ (bits - ones)) else 0) - 2)"
      using w [of "2 ^ Suc k"] by auto
    then show ?thesis using w s by (simp add: pool_total_def)
  qed
qed

lemma fake_New_ok_lemma:
  assumes "fake_New c opts = Some p" and "if fo_Persistence opts then cs_inv c else 1 \<le> fo_Size opts"
  shows "pool_ok p"
proof -
  let ?net = "fo_IPNet opts" and ?t = "pool_total (net_mask (fo_IPNet opts))"
  have p: "p = \<lparr>fp_max = ipToUint (net_ip ?net) + 2 + word_of_int ?t - 1, fp_min = ipToUint (net_ip ?net) + 2,
      fp_gateway = ipToUint (net_ip ?net) + 2 - 1, fp_offset = 0, fp_host = fo_Host opts, fp_ipnet = ?net,
      fp_store = (if fo_Persistence opts then CachefileStore c else MemoryStore (NewLRUCache [WithSize (fo_Size opts * 2)]))\<rparr>"
    and t: "0 < ?t"
    using assms(1) by (simp_all add: fake_New_def Let_def split: if_splits)
  have "word_of_int ?t \<noteq> (1 :: 32 word)"
  proof
    assume "word_of_int ?t = (1 :: 32 word)"
    then have "uint (word_of_int ?t :: 32 word) = 1" by simp
    then have "?t mod 2 ^ 32 = 1" by (simp add: uint_word_of_int)
    moreover have "even (?t mod 2 ^ 32)" using pool_total_even [OF t] by (intro dvd_mod) simp_all
    ultimately show False by simp
  qed
  then have "0 < fp_max p - fp_min p" by (simp add: p word_gt_0)
  moreover have "ps_inv (fp_store p)"
  proof -
    have "lru_view (NewLRUCache [WithSize n] :: memoryStore) = []" for n
      by (simp add: lru_view_def NewLRUCache_def)
    then have "ms_inv (NewLRUCache [WithSize (fo_Size opts * 2)])" if "1 \<le> fo_Size opts"
      using that lru_ok_New [of "[WithSize (fo_Size opts * 2)]"] by (simp add: ms_inv_def) (simp add: NewLRUCache_def)
    then show ?thesis using assms(2) by (simp add: p ps_inv_def)
  qed
  ultimately show ?thesis by (simp add: pool_ok_def p)
qed

text \<open>
  \<open>New\<close> refuses networks without an address to give away, and every pool it makes with
  room for at least one pair can serve: its range of offsets is not empty and its store is
  in order.
\<close>

lemma fake_New_ok:
  assumes "fake_New c opts = Some p" and "if fo_Persistence opts then cs_inv c else 1 \<le> fo_Size opts"
  shows "pool_ok p"
  using assms by (rule fake_New_ok_lemma)

text \<open>The addresses a pool gives to a list of hosts.\<close>

fun pool_serve :: "'s store \<Rightarrow> string list \<Rightarrow> ('s, 'd) Pool \<Rightarrow> (bytes list \<times> ('s, 'd) Pool) option" where
  "pool_serve S [] p = Some ([], p)"
| "pool_serve S (h # hs) p =
     (case pool_Lookup S h p of
        Some (Inr (ip, p')) \<Rightarrow> map_option (\<lambda>(ips, q). (ip # ips, q)) (pool_serve S hs p')
      | _ \<Rightarrow> None)"

definition demo_pool :: "(pool_store, unit) Pool option" where
  "demo_pool = fake_New \<lparr>ca_DB = None\<rparr>
     \<lparr>fo_IPNet = \<lparr>net_ip = [192, 168, 0, 0], net_mask = [255, 255, 255, 248]\<rparr>, fo_Host = None, fo_Size = 10, fo_Persistence = False\<rparr>"

text \<open>
  The range of addresses is off by one at its lower end: in the network
  \<open>192.168.0.0/29\<close>, whose gateway is \<open>192.168.0.1\<close>, the fifth host is given the gateway's
  address.  And when the addresses are used up, the next
  host shares one with a host that keeps it: both resolve to the address, which leads back
  to the later host only.
\<close>

lemma fakeip_gives_gateway:
  "map_option (\<lambda>p. (pool_Gateway p, map_option fst (pool_serve pool_stores
      [''a'', ''b'', ''c'', ''d'', ''e'', ''f'', ''e''] p))) demo_pool =
   Some ([192, 168, 0, 1], Some [[192, 168, 0, 2], [192, 168, 0, 3], [192, 168, 0, 4], [192, 168, 0, 5],
     [192, 168, 0, 1], [192, 168, 0, 1], [192, 168, 0, 1]])"
  by code_simp

text \<open>In the database the address 116.46.99.111 and the host \<open>t.co\<close> are the same key.\<close>

lemma cachefile_key_shared:
  assumes "cs_inv c"
  shows "\<exists>c'. cs_PutByIP [116, 46, 99, 111] ''x.example'' c = Inr c' \<and>
    cs_GetByHost ''t.co'' c' = Inr (Some (bytes_of ''x.example''), c')"
proof -
  have k: "bytes_of ''t.co'' = [116, 46, 99, 111]" "length (bytes_of ''x.example'') \<le> 255" by code_simp+
  have "cs_key [116, 46, 99, 111] = [116, 46, 99, 111]" by (rule cs_key_4) simp
  with cs_put [OF assms, of "[116, 46, 99, 111]" "bytes_of ''x.example''"] k show ?thesis
    by (simp add: cs_PutByIP_def cs_GetByHost_def)
qed

text \<open>A pool for another network that takes over the entries keeps giving addresses of the old one.\<close>

lemma clone_keeps_old_range:
  "(case fake_New \<lparr>ca_DB = None\<rparr> \<lparr>fo_IPNet = \<lparr>net_ip = [10, 0, 0, 0], net_mask = [255, 255, 255, 248]\<rparr>, fo_Host = None,
       fo_Size = 10, fo_Persistence = False\<rparr> of
     Some new \<Rightarrow>
       (case Option.bind demo_pool (\<lambda>p. pool_serve pool_stores [''a''] p) of
          Some (ips, old) \<Rightarrow> map_option fst (pool_serve pool_stores [''a''] (pool_CloneFrom new old))
        | None \<Rightarrow> None)
   | None \<Rightarrow> None) = Some [[192, 168, 0, 2]]"
  by code_simp

lemma fake_New_ok_witness: "\<exists>p. demo_pool = Some p \<and> pool_ok p"
proof -
  have "demo_pool \<noteq> None" by code_simp
  then obtain p where p: "demo_pool = Some p" by blast
  have "pool_ok p" by (rule fake_New_ok [OF p [unfolded demo_pool_def]]) simp
  with p show ?thesis by blast
qed

theorem fakeip_roundtrip_witness:
  "\<exists>p ip p' p''. demo_pool = Some p \<and> pool_Lookup pool_stores ''a'' p = Some (Inr (ip, p')) \<and>
     pool_LookBack pool_stores ip p' = Inr (Some ''a'', p'')"
proof -
  have "demo_pool \<noteq> None" by code_simp
  then obtain p where p: "demo_pool = Some p" by blast
  have ok: "pool_ok p"
    by (rule fake_New_ok_lemma [OF p [unfolded demo_pool_def]]) simp
  have "fp_store p = MemoryStore (NewLRUCache [WithSize 20])"
    using p by (auto simp: demo_pool_def fake_New_def Let_def split: if_splits)
  then have "ps_hosts (fp_store p) ''a'' = None" "ps_hostok (fp_store p) ''a''"
    by (simp_all add: ps_hosts_def ms_hosts_def ps_hostok_def lru_view_def NewLRUCache_def)
  from fakeip_roundtrip [OF ok this] p show ?thesis by blast
qed

end
