(* ===== verification/ClashTunnel.thy ===== *)
theory ClashTunnel
  imports ClashRules ClashFakeip
begin

text \<open>
  \<open>tunnel/tunnel.go\<close> with \<open>dns/enhancer.go\<close> and \<open>component/resolver/enhancer.go\<close>: what
  happens to a connection between its arrival and the dial of an adapter.  The metadata is
  completed (an address in the host field, a name behind a fake address), a mode picks an
  adapter or the rules are searched in order, resolving the name at most once, and the
  adapter dials.
\<close>

section \<open>The enhancer\<close>

record 'd ResolverEnhancer =
  eh_mode :: DNSMode
  eh_fakePool :: "(pool_store, 'd) Pool option"
  eh_mapping :: "(string, string) LruCache option"

definition eh_FakeIPEnabled :: "'d ResolverEnhancer \<Rightarrow> bool" where
  "eh_FakeIPEnabled h = (eh_mode h = DNSFakeIP)"

definition eh_MappingEnabled :: "'d ResolverEnhancer \<Rightarrow> bool" where
  "eh_MappingEnabled h = (eh_mode h = DNSFakeIP \<or> eh_mode h = DNSMapping)"

definition eh_IsExistFakeIP :: "bytes \<Rightarrow> 'd ResolverEnhancer \<Rightarrow> bool go" where
  "eh_IsExistFakeIP ip h =
     (if \<not> eh_FakeIPEnabled h then Inr False
      else case eh_fakePool h of None \<Rightarrow> Inr False | Some pool \<Rightarrow> pool_Exist pool_stores ip pool)"

text \<open>\<open>net.IP.Equal\<close> identifies an IPv4 address with its mapped form.\<close>

definition ip_equal :: "bytes \<Rightarrow> bytes \<Rightarrow> bool" where
  "ip_equal a b = ((case to4 a of Some p \<Rightarrow> p | None \<Rightarrow> a) = (case to4 b of Some p \<Rightarrow> p | None \<Rightarrow> b))"

definition eh_IsFakeIP :: "bytes \<Rightarrow> 'd ResolverEnhancer \<Rightarrow> bool" where
  "eh_IsFakeIP ip h =
     (if \<not> eh_FakeIPEnabled h then False
      else case eh_fakePool h of
        None \<Rightarrow> False
      | Some pool \<Rightarrow> net_contains (fp_ipnet pool) ip \<and> \<not> ip_equal (pool_Gateway pool) ip)"

definition eh_FindHostByIP :: "bytes \<Rightarrow> int \<Rightarrow> 'd ResolverEnhancer \<Rightarrow> (string option \<times> 'd ResolverEnhancer) go" where
  "eh_FindHostByIP ip now h =
     (let mapped = (\<lambda>h. case eh_mapping h of
                          None \<Rightarrow> Inr (None, h)
                        | Some m \<Rightarrow> (case lru_Get (ip_string ip) now m of
                            (host, m') \<Rightarrow> Inr (host, h\<lparr>eh_mapping := Some m'\<rparr>))) in
      case eh_fakePool h of
        None \<Rightarrow> mapped h
      | Some pool \<Rightarrow>
          go_bind (pool_LookBack pool_stores ip pool)
            (\<lambda>(host, pool'). case host of
               Some n \<Rightarrow> Inr (Some n, h\<lparr>eh_fakePool := Some pool'\<rparr>)
             | None \<Rightarrow> mapped (h\<lparr>eh_fakePool := Some pool'\<rparr>)))"

definition NewEnhancer :: "DNSMode \<Rightarrow> (pool_store, 'd) Pool option \<Rightarrow> 'd ResolverEnhancer" where
  "NewEnhancer mode pool =
     (if mode \<noteq> DNSNormal
      then \<lparr>eh_mode = mode, eh_fakePool = pool,
            eh_mapping = Some (NewLRUCache [WithSize 4096, WithStale True])\<rparr>
      else \<lparr>eh_mode = mode, eh_fakePool = None, eh_mapping = None\<rparr>)"

definition eh_PatchFrom :: "'d ResolverEnhancer \<Rightarrow> 'd ResolverEnhancer \<Rightarrow> 'd ResolverEnhancer" where
  "eh_PatchFrom h old =
     h\<lparr>eh_mapping := (case (eh_mapping h, eh_mapping old) of
          (Some m, Some n) \<Rightarrow> Some (lru_CloneTo n m) | _ \<Rightarrow> eh_mapping h),
       eh_fakePool := (case (eh_fakePool h, eh_fakePool old) of
          (Some p, Some q) \<Rightarrow> Some (pool_CloneFrom p q) | _ \<Rightarrow> eh_fakePool h)\<rparr>"

section \<open>The tunnel\<close>

text \<open>
  What the tunnel uses: the rules' view of the outside, the hosts file, the resolver, and
  of an adapter whether it supports UDP and how it dials.
\<close>

record ('w, 'p, 'conn) tunnel_env =
  te_rules :: rule_env
  te_hosts :: "bytes trie_node"
  te_ResolveIP :: "string \<Rightarrow> 'w \<Rightarrow> (string + bytes) \<times> 'w"
  te_SupportUDP :: "'p \<Rightarrow> bool"
  te_DialContext :: "'p \<Rightarrow> Metadata \<Rightarrow> 'w \<Rightarrow> (string + 'conn) \<times> 'w"
  te_now :: "'w \<Rightarrow> int"

record ('p, 'd) tunnel =
  tn_rules :: "rule list"
  tn_proxies :: "string \<rightharpoonup> 'p"
  tn_mode :: TunnelMode
  tn_processCache :: process_cache
  tn_mapper :: "'d ResolverEnhancer option"

text \<open>\<open>resolver.MappingEnabled\<close> and its siblings ask the mapper, if there is one.\<close>

definition tn_MappingEnabled :: "('p, 'd) tunnel \<Rightarrow> bool" where
  "tn_MappingEnabled t = (case tn_mapper t of None \<Rightarrow> False | Some h \<Rightarrow> eh_MappingEnabled h)"

definition tn_FakeIPEnabled :: "('p, 'd) tunnel \<Rightarrow> bool" where
  "tn_FakeIPEnabled t = (case tn_mapper t of None \<Rightarrow> False | Some h \<Rightarrow> eh_FakeIPEnabled h)"

definition tn_IsFakeIP :: "bytes \<Rightarrow> ('p, 'd) tunnel \<Rightarrow> bool" where
  "tn_IsFakeIP ip t = (case tn_mapper t of None \<Rightarrow> False | Some h \<Rightarrow> eh_IsFakeIP ip h)"

definition tn_FindHostByIP :: "bytes \<Rightarrow> int \<Rightarrow> ('p, 'd) tunnel \<Rightarrow> (string option \<times> ('p, 'd) tunnel) go" where
  "tn_FindHostByIP ip now t =
     (case tn_mapper t of
        None \<Rightarrow> Inr (None, t)
      | Some h \<Rightarrow> go_bind (eh_FindHostByIP ip now h) (\<lambda>(r, h'). Inr (r, t\<lparr>tn_mapper := Some h'\<rparr>)))"

definition needLookupIP :: "('p, 'd) tunnel \<Rightarrow> Metadata \<Rightarrow> bool" where
  "needLookupIP t m = (tn_MappingEnabled t \<and> md_Host m = [] \<and> md_DstIP m \<noteq> None)"

definition host_to_ip :: "Metadata \<Rightarrow> Metadata" where
  "host_to_ip m =
     (case parse_ip (md_Host m) of
        Some ip \<Rightarrow>
          m\<lparr>md_DstIP := Some ip, md_Host := [],
            md_AddrType := (if to4 ip \<noteq> None then AtypIPv4 else AtypIPv6)\<rparr>
      | None \<Rightarrow> m)"

text \<open>
  The data of a hosts entry is an address, so its type assertion cannot fail and is not
  shown.
\<close>

definition preHandleMetadata ::
  "('w, 'p, 'conn) tunnel_env \<Rightarrow> int \<Rightarrow> Metadata \<Rightarrow> ('p, 'd) tunnel \<Rightarrow>
     (string option \<times> Metadata \<times> ('p, 'd) tunnel) go" where
  "preHandleMetadata env now m t =
     (let m = host_to_ip m in
      if \<not> needLookupIP t m then Inr (None, m, t)
      else
        go_bind (tn_FindHostByIP (the (md_DstIP m)) now t) (\<lambda>(r, t).
          case r of
            Some host \<Rightarrow>
              (let m = m\<lparr>md_Host := host, md_AddrType := AtypDomainName, md_DNSMode := DNSMapping\<rparr> in
               if tn_FakeIPEnabled t then Inr (None, m\<lparr>md_DstIP := None, md_DNSMode := DNSFakeIP\<rparr>, t)
               else (case trie_Search (te_hosts env) host of
                       Some node \<Rightarrow> Inr (None, m\<lparr>md_DstIP := nd_Data node\<rparr>, t)
                     | None \<Rightarrow> Inr (None, m, t)))
          | None \<Rightarrow>
              if tn_IsFakeIP (the (md_DstIP m)) t
              then Inr (Some (''fake DNS record '' @ nil_ip_string (md_DstIP m) @ '' missing''), m, t)
              else Inr (None, m, t)))"

definition shouldResolveIP :: "rule \<Rightarrow> Metadata \<Rightarrow> bool" where
  "shouldResolveIP r m = (Rule_ShouldResolveIP r \<and> md_Host m \<noteq> [] \<and> md_DstIP m = None)"

text \<open>The start of a round of the loop: the name is resolved when the rule is the first to want it.\<close>

definition resolve_first ::
  "('w, 'p, 'conn) tunnel_env \<Rightarrow> rule \<Rightarrow> bool \<Rightarrow> Metadata \<Rightarrow> 'w \<Rightarrow> Metadata \<times> bool \<times> 'w" where
  "resolve_first env r resolved m w =
     (if \<not> resolved \<and> shouldResolveIP r m then
        (case te_ResolveIP env (md_Host m) w of
           (Inl err, w) \<Rightarrow> (m, True, w)
         | (Inr ip, w) \<Rightarrow> (m\<lparr>md_DstIP := Some ip\<rparr>, True, w))
      else (m, resolved, w))"

text \<open>The loop over the rules, with the flag \<open>resolved\<close>.\<close>

fun match_rules ::
  "('w, 'p, 'conn) tunnel_env \<Rightarrow> (string \<rightharpoonup> 'p) \<Rightarrow> rule list \<Rightarrow> bool \<Rightarrow> Metadata \<Rightarrow> process_cache \<Rightarrow> 'w \<Rightarrow>
     ('p option \<times> rule option) \<times> Metadata \<times> process_cache \<times> 'w" where
  "match_rules env proxies [] resolved m c w = ((proxies ''DIRECT'', None), m, c, w)"
| "match_rules env proxies (r # rs) resolved m c w =
     (case resolve_first env r resolved m w of (m, resolved, w) \<Rightarrow>
      (case Rule_Match (te_rules env) (te_now env w) r m c of (hit, c) \<Rightarrow>
        if \<not> hit then match_rules env proxies rs resolved m c w
        else case proxies (Rule_Adapter r) of
          None \<Rightarrow> match_rules env proxies rs resolved m c w
        | Some adapter \<Rightarrow>
            if md_NetWork m = UDP \<and> \<not> te_SupportUDP env adapter
            then match_rules env proxies rs resolved m c w
            else ((Some adapter, Some r), m, c, w)))"

definition tn_match ::
  "('w, 'p, 'conn) tunnel_env \<Rightarrow> Metadata \<Rightarrow> ('p, 'd) tunnel \<Rightarrow> 'w \<Rightarrow>
     ('p option \<times> rule option) \<times> Metadata \<times> ('p, 'd) tunnel \<times> 'w" where
  "tn_match env m t w =
     (let (m, resolved) = (case trie_Search (te_hosts env) (md_Host m) of
                             Some node \<Rightarrow> (m\<lparr>md_DstIP := nd_Data node\<rparr>, True)
                           | None \<Rightarrow> (m, False));
          (res, m, c, w) = match_rules env (tn_proxies t) (tn_rules t) resolved m (tn_processCache t) w
      in (res, m, t\<lparr>tn_processCache := c\<rparr>, w))"

definition resolveMetadata ::
  "('w, 'p, 'conn) tunnel_env \<Rightarrow> Metadata \<Rightarrow> ('p, 'd) tunnel \<Rightarrow> 'w \<Rightarrow>
     ('p option \<times> rule option) \<times> Metadata \<times> ('p, 'd) tunnel \<times> 'w" where
  "resolveMetadata env m t w =
     (case tn_mode t of
        Direct \<Rightarrow> ((tn_proxies t ''DIRECT'', None), m, t, w)
      | Global \<Rightarrow> ((tn_proxies t ''GLOBAL'', None), m, t, w)
      | _ \<Rightarrow> tn_match env m t w)"

text \<open>
  \<open>handleTCPConn\<close> up to the relay: the connection dialled, or \<open>None\<close> when the handler gives
  up.  Dialling through a nil adapter is a nil dereference.
\<close>

definition handleTCPConn ::
  "('w, 'p, 'conn) tunnel_env \<Rightarrow> Metadata \<Rightarrow> ('p, 'd) tunnel \<Rightarrow> 'w \<Rightarrow>
     'conn option go \<times> ('p, 'd) tunnel \<times> 'w" where
  "handleTCPConn env m t w =
     (if \<not> Valid m then (Inr None, t, w)
      else case preHandleMetadata env (te_now env w) m t of
        Inl pn \<Rightarrow> (Inl pn, t, w)
      | Inr (Some err, m, t) \<Rightarrow> (Inr None, t, w)
      | Inr (None, m, t) \<Rightarrow>
          (case resolveMetadata env m t w of
             ((None, _), m, t, w) \<Rightarrow> (Inl NilDereference, t, w)
           | ((Some proxy, _), m, t, w) \<Rightarrow>
               (case te_DialContext env proxy (Pure m) w of
                  (Inl err, w) \<Rightarrow> (Inr None, t, w)
                | (Inr conn, w) \<Rightarrow> (Inr (Some conn), t, w))))"

section \<open>The rule search\<close>

text \<open>A rule's adapter can be used for the metadata.\<close>

definition usable :: "('w, 'p, 'conn) tunnel_env \<Rightarrow> (string \<rightharpoonup> 'p) \<Rightarrow> Metadata \<Rightarrow> rule \<Rightarrow> bool" where
  "usable env proxies m r =
     (case proxies (Rule_Adapter r) of
        None \<Rightarrow> False
      | Some p \<Rightarrow> md_NetWork m \<noteq> UDP \<or> te_SupportUDP env p)"

lemma usable_cong: "md_NetWork m' = md_NetWork m \<Longrightarrow> usable env proxies m' r = usable env proxies m r"
  by (simp add: usable_def split: option.split)

text \<open>One round of the loop.\<close>

lemma match_rules_Cons:
  assumes "resolve_first env r res m w = (m1, res1, w1)"
    and "Rule_Match (te_rules env) (te_now env w1) r m1 c = (hit, c1)"
  shows "match_rules env proxies (r # rs) res m c w =
     (if hit \<and> usable env proxies m1 r then ((proxies (Rule_Adapter r), Some r), m1, c1, w1)
      else match_rules env proxies rs res1 m1 c1 w1)"
  using assms by (cases "proxies (Rule_Adapter r)") (simp_all add: usable_def match_rules.simps)

declare match_rules.simps(2) [simp del]

lemma resolve_first_cases:
  assumes "resolve_first env r res m w = (m1, res1, w1)"
  obtains "m1 = m" "res1 = res" "w1 = w" "res \<or> \<not> shouldResolveIP r m"
  | "\<not> res" "res1" "shouldResolveIP r m" "w1 = snd (te_ResolveIP env (md_Host m) w)"
    "m1 = m \<or> (\<exists>ip. m1 = m\<lparr>md_DstIP := Some ip\<rparr>)"
proof (cases "\<not> res \<and> shouldResolveIP r m")
  case True
  obtain a v where r: "te_ResolveIP env (md_Host m) w = (a, v)" by force
  show ?thesis
    using True assms r that(2) by (cases a) (auto simp: resolve_first_def)
next
  case False
  then show ?thesis using assms that(1) by (auto simp: resolve_first_def)
qed

lemma resolve_first_DstIP:
  assumes "resolve_first env r res m w = (m1, res1, w1)"
  shows "m1\<lparr>md_DstIP := md_DstIP m\<rparr> = m"
  using assms by (rule resolve_first_cases) auto

lemma match_rules_sound:
  "match_rules env proxies rs res m c w = ((p, Some r), m', c', w') \<Longrightarrow>
     r \<in> set rs \<and> p = proxies (Rule_Adapter r) \<and> usable env proxies m' r \<and>
     (\<exists>now c0. fst (Rule_Match (te_rules env) now r m' c0)) \<and> m'\<lparr>md_DstIP := md_DstIP m\<rparr> = m"
proof (induction rs arbitrary: res m c w)
  case (Cons q rs)
  obtain m1 res1 w1 where res: "resolve_first env q res m w = (m1, res1, w1)" by (metis prod_cases3)
  obtain hit c1 where hit: "Rule_Match (te_rules env) (te_now env w1) q m1 c = (hit, c1)" by force
  note eq = match_rules_Cons [OF res hit, of proxies rs] and step = resolve_first_DstIP [OF res]
  show ?case
  proof (cases "hit \<and> usable env proxies m1 q")
    case True
    then show ?thesis using Cons.prems eq hit step by (auto intro!: exI [of _ "te_now env w1"] exI [of _ c])
  next
    case False
    then have "match_rules env proxies rs res1 m1 c1 w1 = ((p, Some r), m', c', w')"
      using Cons.prems unfolding eq by (simp only: if_False)
    from Cons.IH [OF this] have "m'\<lparr>md_DstIP := md_DstIP m1\<rparr> = m1" and
      IH: "r \<in> set rs" "p = proxies (Rule_Adapter r)" "usable env proxies m' r"
      "\<exists>now c0. fst (Rule_Match (te_rules env) now r m' c0)" by blast+
    then have "m'\<lparr>md_DstIP := md_DstIP m\<rparr> = m1\<lparr>md_DstIP := md_DstIP m\<rparr>"
      by (metis (no_types, lifting) Metadata.fold_congs(4) Metadata.surjective Metadata.update_convs(4))
    with IH step show ?thesis by simp
  qed
qed simp

text \<open>
  With nothing to resolve and no process rule, the search is the first matching rule with a
  usable adapter.
\<close>

definition settled :: "rule list \<Rightarrow> bool \<Rightarrow> Metadata \<Rightarrow> bool" where
  "settled rs resolved m \<longleftrightarrow>
     list_all (\<lambda>r. Rule_Type r \<noteq> RT_Process \<and> (resolved \<or> \<not> shouldResolveIP r m)) rs"

lemma match_rules_first:
  "settled rs res m \<Longrightarrow>
     match_rules env proxies rs res m c w =
       (case find (\<lambda>r. rule_matches (te_rules env) r m \<and> usable env proxies m r) rs of
          None \<Rightarrow> ((proxies ''DIRECT'', None), m, c, w)
        | Some r \<Rightarrow> ((proxies (Rule_Adapter r), Some r), m, c, w))"
proof (induction rs)
  case (Cons q rs)
  then have q: "Rule_Type q \<noteq> RT_Process" "res \<or> \<not> shouldResolveIP q m" and rs: "settled rs res m"
    by (simp_all add: settled_def)
  have "resolve_first env q res m w = (m, res, w)" using q(2) by (auto simp: resolve_first_def)
  then have "match_rules env proxies (q # rs) res m c w =
     (if rule_matches (te_rules env) q m \<and> usable env proxies m q then ((proxies (Rule_Adapter q), Some q), m, c, w)
      else match_rules env proxies rs res m c w)"
    by (rule match_rules_Cons) (rule Rule_Match_stateless [OF q(1)])
  then show ?case using Cons.IH [OF rs] by simp
qed simp

text \<open>A resolver query is counted at most once by a measure that counts queries.\<close>

lemma match_rules_queries:
  assumes "\<And>h w. f (snd (te_ResolveIP env h w)) \<le> Suc (f w)"
  shows "f (snd (snd (snd (match_rules env proxies rs res m c w)))) \<le> (if res then f w else Suc (f w))"
proof (induction rs arbitrary: res m c w)
  case (Cons q rs)
  obtain m1 res1 w1 where res: "resolve_first env q res m w = (m1, res1, w1)" by (metis prod_cases3)
  obtain hit c1 where hit: "Rule_Match (te_rules env) (te_now env w1) q m1 c = (hit, c1)" by force
  have "f w1 \<le> (if res1 \<and> \<not> res then Suc (f w) else f w)" "res \<Longrightarrow> res1"
    using res assms [of "md_Host m" w] by (auto elim: resolve_first_cases)
  then show ?case
    using Cons.IH [of res1 m1 c1 w1] unfolding match_rules_Cons [OF res hit] by (auto split: if_splits)
qed simp

section \<open>Properties\<close>

text \<open>
  C13. A rule the search returns is one of the configured rules, matches the metadata the
  connection is dialled with, names the adapter returned, and that adapter supports the
  network; the search changes nothing of the metadata but the destination address, and
  asks the resolver at most once, whatever the number of rules.
\<close>

theorem tn_match_sound:
  assumes "tn_match env m t w = ((p, Some r), m', t', w')"
    and "\<And>h w. f (snd (te_ResolveIP env h w)) \<le> Suc (f w)"
  shows "r \<in> set (tn_rules t) \<and> p = tn_proxies t (Rule_Adapter r) \<and> usable env (tn_proxies t) m' r \<and>
    (\<exists>now c. fst (Rule_Match (te_rules env) now r m' c)) \<and>
    m'\<lparr>md_DstIP := md_DstIP m\<rparr> = m \<and> f w' \<le> Suc (f w)"
proof -
  obtain m1 res where s: "(case trie_Search (te_hosts env) (md_Host m) of
      Some node \<Rightarrow> (m\<lparr>md_DstIP := nd_Data node\<rparr>, True) | None \<Rightarrow> (m, False)) = (m1, res)" by force
  then have m1: "m1\<lparr>md_DstIP := md_DstIP m\<rparr> = m" by (auto split: option.splits)
  obtain c' where r: "match_rules env (tn_proxies t) (tn_rules t) res m1 (tn_processCache t) w =
      ((p, Some r), m', c', w')"
    using assms(1) s by (auto simp: tn_match_def split: prod.splits)
  note sound = match_rules_sound [OF r]
  then have "m'\<lparr>md_DstIP := md_DstIP m\<rparr> = m1\<lparr>md_DstIP := md_DstIP m\<rparr>"
    by (metis (no_types, lifting) Metadata.fold_congs(4) Metadata.surjective Metadata.update_convs(4))
  moreover have "f w' \<le> (if res then f w else Suc (f w))"
    using match_rules_queries [of f env "tn_proxies t" "tn_rules t" res m1 "tn_processCache t" w, OF assms(2)] r
    by simp
  ultimately show ?thesis using sound m1 by (auto split: if_splits)
qed

text \<open>
  First match wins: when no rule has to resolve the name and no process rule is
  configured, the search is the first rule in order that matches and whose adapter exists
  and supports the network, and the adapter \<open>DIRECT\<close> when there is none.
\<close>

theorem tn_match_first:
  assumes "trie_Search (te_hosts env) (md_Host m) = None" and "settled (tn_rules t) False m"
  shows "tn_match env m t w =
    ((case find (\<lambda>r. rule_matches (te_rules env) r m \<and> usable env (tn_proxies t) m r) (tn_rules t) of
        None \<Rightarrow> (tn_proxies t ''DIRECT'', None)
      | Some r \<Rightarrow> (tn_proxies t (Rule_Adapter r), Some r)), m, t, w)"
  using assms match_rules_first [of "tn_rules t" False m env "tn_proxies t" "tn_processCache t" w]
  by (auto simp: tn_match_def split: option.splits)

section \<open>A small tunnel\<close>

definition demo_tunnel_env :: "(nat, string, string) tunnel_env" where
  "demo_tunnel_env =
     \<lparr>te_rules = \<lparr>mmdb_Country = (\<lambda>ip. ''CN''), FindProcessName = (\<lambda>n ip p. [])\<rparr>,
      te_hosts = trie_New, te_ResolveIP = (\<lambda>h w. (Inr [10, 0, 0, 1], Suc w)),
      te_SupportUDP = (\<lambda>p. p = ''direct''), te_DialContext = (\<lambda>p m w. (Inr p, w)),
      te_now = (\<lambda>w. 0)\<rparr>"

definition demo_tunnel :: "(string, unit) tunnel" where
  "demo_tunnel =
     \<lparr>tn_rules = [DomainSuffixRule ''cn'' ''DIRECT'', GEOIPRule ''LAN'' ''P'' False, MatchRule ''P''],
      tn_proxies = [''DIRECT'' \<mapsto> ''direct'', ''GLOBAL'' \<mapsto> ''global'', ''P'' \<mapsto> ''proxy''],
      tn_mode = Rule, tn_processCache = processCache, tn_mapper = None\<rparr>"

definition demo_meta :: "string \<Rightarrow> Metadata" where
  "demo_meta h = zero_metadata\<lparr>md_NetWork := TCP, md_AddrType := AtypDomainName, md_Host := h, md_DstPort := ''80''\<rparr>"

lemma demo_match: "\<exists>m' t'. tn_match demo_tunnel_env (demo_meta ''a.example'') demo_tunnel 0 =
    ((Some ''proxy'', Some (GEOIPRule ''LAN'' ''P'' False)), m', t', 1)"
proof -
  have "trie_Search (te_hosts demo_tunnel_env) ''a.example'' = None" by code_simp
  moreover have "equal_fold ''LAN'' ''LAN''" "IsPrivate [10, 0, 0, 1]" "\<not> has_suffix ''a.example'' ''.cn''" by code_simp+
  ultimately show ?thesis
    by (simp add: tn_match_def demo_tunnel_def demo_tunnel_env_def demo_meta_def match_rules.simps
        resolve_first_def shouldResolveIP_def Rule_Match_def zero_metadata_def Rule_Adapter_def)
qed

theorem tn_match_sound_witness:
  "\<exists>m' t' w'. tn_match demo_tunnel_env (demo_meta ''a.example'') demo_tunnel 0 =
      ((Some ''proxy'', Some (GEOIPRule ''LAN'' ''P'' False)), m', t', w') \<and> w' \<le> 1"
proof -
  obtain m' t' where d: "tn_match demo_tunnel_env (demo_meta ''a.example'') demo_tunnel 0 =
    ((Some ''proxy'', Some (GEOIPRule ''LAN'' ''P'' False)), m', t', 1)" using demo_match by blast
  have "(1::nat) \<le> Suc 0"
    using tn_match_sound [OF d, of "\<lambda>w. w"] by (simp add: demo_tunnel_env_def)
  with d show ?thesis by auto
qed

theorem tn_match_first_witness:
  "fst (tn_match demo_tunnel_env ((demo_meta [])\<lparr>md_DstIP := Some [8, 8, 8, 8]\<rparr>) demo_tunnel 0) =
     (Some ''proxy'', Some (MatchRule ''P''))"
proof -
  have "trie_Search (te_hosts demo_tunnel_env) (md_Host ((demo_meta [])\<lparr>md_DstIP := Some [8, 8, 8, 8]\<rparr>)) = None"
    by code_simp
  moreover have "settled (tn_rules demo_tunnel) False ((demo_meta [])\<lparr>md_DstIP := Some [8, 8, 8, 8]\<rparr>)" by code_simp
  moreover have "equal_fold ''LAN'' ''LAN''" "\<not> IsPrivate [8, 8, 8, 8]" by code_simp+
  ultimately show ?thesis
    using tn_match_first [of demo_tunnel_env "(demo_meta [])\<lparr>md_DstIP := Some [8, 8, 8, 8]\<rparr>" demo_tunnel 0]
    by (simp add: demo_tunnel_def demo_meta_def usable_def demo_tunnel_env_def Rule_Adapter_def has_suffix_def
        zero_metadata_def)
qed

section \<open>Names behind fake addresses\<close>

lemma parse_ip_Nil: "parse_ip [] = None"
  by code_simp

text \<open>
  The chain of a fake address: the address the pool gave for a name when it was asked
  for by DNS leads the tunnel back to that name; the connection is then handled by name,
  with the fake address removed.
\<close>

theorem fakeip_restores_name:
  assumes pool: "pool_ok pool" "ps_hosts (fp_store pool) h = None" "ps_hostok (fp_store pool) h"
    and lookup: "pool_Lookup pool_stores h pool = Some (Inr (ip, pool'))"
    and t: "tn_mapper t = Some eh" "eh_mode eh = DNSFakeIP" "eh_fakePool eh = Some pool'"
    and m: "md_Host m = []" "md_DstIP m = Some dst" "to4 dst = Some ip"
  shows "\<exists>t'. preHandleMetadata env now m t =
    Inr (None, m\<lparr>md_Host := h, md_AddrType := 3, md_DNSMode := DNSFakeIP, md_DstIP := None\<rparr>, t')"
proof -
  obtain off p' p'' where l: "pool_Lookup pool_stores h pool = Some (Inr (pool_ip pool off, p'))"
    and b: "pool_LookBack pool_stores (pool_ip pool off) p' = Inr (Some h, p'')"
    using fakeip_roundtrip_lemma [OF pool] by blast
  have ip: "ip = pool_ip pool off" "pool' = p'" using l lookup by simp_all
  have "to4 ip = Some ip" using to4_length [OF m(3)] by (simp add: to4_def)
  then have "pool_LookBack pool_stores dst pool' = Inr (Some h, p'')"
    using b m(3) ip by (simp add: pool_LookBack_def)
  then have "tn_FindHostByIP dst now t = Inr (Some h, t\<lparr>tn_mapper := Some (eh\<lparr>eh_fakePool := Some p''\<rparr>)\<rparr>)"
    using t by (simp add: tn_FindHostByIP_def eh_FindHostByIP_def Let_def)
  moreover have "host_to_ip m = m" using m(1) by (simp add: host_to_ip_def parse_ip_Nil)
  moreover have "needLookupIP t m" using t m by (simp add: needLookupIP_def tn_MappingEnabled_def eh_MappingEnabled_def)
  ultimately show ?thesis
    using t m by (auto simp: preHandleMetadata_def Let_def tn_FakeIPEnabled_def eh_FakeIPEnabled_def)
qed

lemma demo_pool_ok: "\<exists>p. demo_pool = Some p \<and> pool_ok p \<and> ps_hosts (fp_store p) h = None \<and> ps_hostok (fp_store p) h"
proof -
  have "demo_pool \<noteq> None" by code_simp
  then obtain p where p: "demo_pool = Some p" by blast
  have "pool_ok p" by (rule fake_New_ok_lemma [OF p [unfolded demo_pool_def]]) simp
  moreover have "fp_store p = MemoryStore (NewLRUCache [WithSize 20])"
    using p by (auto simp: demo_pool_def fake_New_def Let_def split: if_splits)
  ultimately show ?thesis using p
    by (intro exI [of _ p]) (simp add: ps_hosts_def ms_hosts_def ps_hostok_def lru_view_def NewLRUCache_def)
qed

theorem fakeip_restores_name_witness:
  "\<exists>pool ip pool' t'. demo_pool = Some pool \<and> pool_Lookup pool_stores ''a'' pool = Some (Inr (ip, pool')) \<and>
     preHandleMetadata demo_tunnel_env 0 (zero_metadata\<lparr>md_DstIP := Some ip\<rparr>)
       (demo_tunnel\<lparr>tn_mapper := Some \<lparr>eh_mode = DNSFakeIP, eh_fakePool = Some pool', eh_mapping = None\<rparr>\<rparr>) =
     Inr (None, zero_metadata\<lparr>md_Host := ''a'', md_AddrType := 3, md_DNSMode := DNSFakeIP, md_DstIP := None\<rparr>, t')"
proof -
  obtain p where p: "demo_pool = Some p" "pool_ok p" "ps_hosts (fp_store p) ''a'' = None" "ps_hostok (fp_store p) ''a''"
    using demo_pool_ok by blast
  then obtain off p' where l: "pool_Lookup pool_stores ''a'' p = Some (Inr (pool_ip p off, p'))"
    using fakeip_roundtrip_lemma by blast
  have "to4 (pool_ip p off) = Some (pool_ip p off)" by (simp add: to4_def pool_ip_def uintToIP_def)
  with fakeip_restores_name [OF p(2-4) l, of "demo_tunnel\<lparr>tn_mapper := Some \<lparr>eh_mode = DNSFakeIP,
      eh_fakePool = Some p', eh_mapping = None\<rparr>\<rparr>" _ "zero_metadata\<lparr>md_DstIP := Some (pool_ip p off)\<rparr>"
      "pool_ip p off" demo_tunnel_env 0] l p(1)
  show ?thesis by (fastforce simp: zero_metadata_def)
qed

end
