(* ===== verification/ClashProxy.thy ===== *)
theory ClashProxy
  imports ClashConstant
begin

text \<open>
  A proxy as the rest of the program holds it: \<open>adapter/adapter.go\<close> wraps an adapter with an
  alive flag and the history of its delay tests (a \<open>common/queue\<close>).  Around it the providers
  that own lists of proxies and check their health (\<open>adapter/provider\<close>), and
  \<open>common/singledo\<close>, which repeats a recent answer instead of computing it again.  Proxies
  are shared objects: a proxy is a number, and a heap gives its contents.  Times are in
  nanoseconds.
\<close>

section \<open>Queue\<close>

type_synonym 'a Queue = "'a list"

definition q_New :: "'a Queue" where
  "q_New = []"

definition q_Put :: "'a list \<Rightarrow> 'a Queue \<Rightarrow> 'a Queue" where
  "q_Put items q = (if length items = 0 then q else q @ items)"

definition q_Pop :: "'a Queue \<Rightarrow> 'a option \<times> 'a Queue" where
  "q_Pop q = (case q of [] \<Rightarrow> (None, q) | head # rest \<Rightarrow> (Some head, rest))"

definition q_Last :: "'a Queue \<Rightarrow> 'a option" where
  "q_Last q = (if length q = 0 then None else Some (q ! (length q - 1)))"

definition q_Copy :: "'a Queue \<Rightarrow> 'a list" where
  "q_Copy q = [] @ q"

definition q_Len :: "'a Queue \<Rightarrow> int" where
  "q_Len q = int (length q)"

section \<open>Proxies\<close>

record DelayHistory =
  dh_Time :: int
  dh_Delay :: "16 word"

record Proxy =
  px_Name :: string
  px_Type :: AdapterType
  px_Addr :: string
  px_SupportUDP :: bool
  px_history :: "DelayHistory Queue"
  px_alive :: bool

type_synonym proxy_heap = "nat \<Rightarrow> Proxy"

text \<open>
  What a proxy uses of the outside: its adapter's dial, which gives an error or the chain of
  the connection; the HEAD request over a connection; the parts \<open>url.Parse\<close> gives (scheme,
  host name, port); the clock.
\<close>

record 'w proxy_net =
  pn_DialContext :: "nat \<Rightarrow> Metadata \<Rightarrow> 'w \<Rightarrow> (string + Chain) \<times> 'w"
  pn_Head :: "Chain \<Rightarrow> string \<Rightarrow> 'w \<Rightarrow> (string + unit) \<times> 'w"
  pn_url :: "string \<Rightarrow> string + string \<times> string \<times> string"
  pn_now :: "'w \<Rightarrow> int"

definition NewProxy :: "string \<Rightarrow> AdapterType \<Rightarrow> string \<Rightarrow> bool \<Rightarrow> Proxy" where
  "NewProxy name tp addr udp =
     \<lparr>px_Name = name, px_Type = tp, px_Addr = addr, px_SupportUDP = udp, px_history = q_New, px_alive = True\<rparr>"

definition Proxy_DialContext ::
  "'w proxy_net \<Rightarrow> nat \<Rightarrow> Metadata \<Rightarrow> proxy_heap \<times> 'w \<Rightarrow> (string + Chain) \<times> proxy_heap \<times> 'w" where
  "Proxy_DialContext net p m s =
     (case s of (h, w) \<Rightarrow>
       (case pn_DialContext net p m w of (res, w) \<Rightarrow>
          (res, h(p := (h p)\<lparr>px_alive := (case res of Inl err \<Rightarrow> False | Inr c \<Rightarrow> True)\<rparr>), w)))"

definition Proxy_DelayHistory :: "Proxy \<Rightarrow> DelayHistory list" where
  "Proxy_DelayHistory p = map (\<lambda>item. item) (q_Copy (px_history p))"

definition LastDelay :: "Proxy \<Rightarrow> 16 word" where
  "LastDelay p =
     (if \<not> px_alive p then 0xffff
      else case q_Last (px_history p) of
        None \<Rightarrow> 0xffff
      | Some history \<Rightarrow> if dh_Delay history = 0 then 0xffff else dh_Delay history)"

definition urlToMetadata :: "'w proxy_net \<Rightarrow> string \<Rightarrow> string + Metadata" where
  "urlToMetadata net rawURL =
     go_bind (pn_url net rawURL) (\<lambda>(scheme, hostname, port).
       let addr = (\<lambda>port. Inr (zero_metadata\<lparr>md_AddrType := AtypDomainName, md_Host := hostname,
                                 md_DstIP := None, md_DstPort := port\<rparr>)) in
       if port \<noteq> [] then addr port
       else if scheme = ''https'' then addr ''443''
       else if scheme = ''http'' then addr ''80''
       else Inl (rawURL @ '' scheme not Support''))"

text \<open>
  \<open>URLTest\<close> without its deferred part: the delay in milliseconds as a 16-bit number.  The
  clock does not run backwards, so the division by a millisecond is one of a number that is
  not negative; \<open>http.NewRequest\<close> parses the URL again and cannot fail after
  \<open>urlToMetadata\<close>.
\<close>

definition url_test ::
  "'w proxy_net \<Rightarrow> nat \<Rightarrow> string \<Rightarrow> proxy_heap \<times> 'w \<Rightarrow> (string + 16 word) \<times> proxy_heap \<times> 'w" where
  "url_test net p url s =
     (case urlToMetadata net url of
        Inl err \<Rightarrow> (Inl err, s)
      | Inr addr \<Rightarrow>
          (let start = pn_now net (snd s) in
           case Proxy_DialContext net p addr s of
             (Inl err, s) \<Rightarrow> (Inl err, s)
           | (Inr instance, h, w) \<Rightarrow>
               (case pn_Head net instance url w of
                  (Inl err, w) \<Rightarrow> (Inl err, h, w)
                | (Inr resp, w) \<Rightarrow> (Inr (of_int ((pn_now net w - start) div 1000000)), h, w))))"

definition URLTest_record :: "int \<Rightarrow> string + 16 word \<Rightarrow> Proxy \<Rightarrow> Proxy" where
  "URLTest_record now res p =
     (let p = p\<lparr>px_alive := (case res of Inl err \<Rightarrow> False | Inr t \<Rightarrow> True)\<rparr>;
          record = \<lparr>dh_Time = now, dh_Delay = (case res of Inl err \<Rightarrow> 0 | Inr t \<Rightarrow> t)\<rparr>;
          p = p\<lparr>px_history := q_Put [record] (px_history p)\<rparr>
      in if 10 < q_Len (px_history p) then p\<lparr>px_history := snd (q_Pop (px_history p))\<rparr> else p)"

definition Proxy_URLTest ::
  "'w proxy_net \<Rightarrow> nat \<Rightarrow> string \<Rightarrow> proxy_heap \<times> 'w \<Rightarrow> (string + 16 word) \<times> proxy_heap \<times> 'w" where
  "Proxy_URLTest net p url s =
     (case url_test net p url s of (res, h, w) \<Rightarrow>
        (res, h(p := URLTest_record (pn_now net w) res (h p)), w))"

section \<open>Health check\<close>

record HealthCheck =
  hc_url :: string
  hc_proxies :: "nat list"
  hc_interval :: nat
  hc_lazy :: bool
  hc_lastTouch :: int

definition NewHealthCheck :: "nat list \<Rightarrow> string \<Rightarrow> nat \<Rightarrow> bool \<Rightarrow> HealthCheck" where
  "NewHealthCheck proxies url interval lazy =
     \<lparr>hc_url = url, hc_proxies = proxies, hc_interval = interval, hc_lazy = lazy, hc_lastTouch = 0\<rparr>"

definition hc_setProxy :: "nat list \<Rightarrow> HealthCheck \<Rightarrow> HealthCheck" where
  "hc_setProxy proxies hc = hc\<lparr>hc_proxies := proxies\<rparr>"

definition hc_auto :: "HealthCheck \<Rightarrow> bool" where
  "hc_auto hc = (hc_interval hc \<noteq> 0)"

definition unix :: "int \<Rightarrow> int" where
  "unix now = now div 1000000000"

definition hc_touch :: "int \<Rightarrow> HealthCheck \<Rightarrow> HealthCheck" where
  "hc_touch now hc = hc\<lparr>hc_lastTouch := unix now\<rparr>"

text \<open>
  \<open>check\<close> tests the proxies in parallel, ten at a time; a test writes to its own proxy only,
  and the model runs the tests in the order they are started.
\<close>

definition hc_check :: "'w proxy_net \<Rightarrow> HealthCheck \<Rightarrow> proxy_heap \<times> 'w \<Rightarrow> proxy_heap \<times> 'w" where
  "hc_check net hc s = fold (\<lambda>p s. snd (Proxy_URLTest net p (hc_url hc) s)) (hc_proxies hc) s"

text \<open>A tick of the loop in \<open>process\<close>: a lazy check rests while nobody uses the proxies.\<close>

definition hc_tick :: "'w proxy_net \<Rightarrow> HealthCheck \<Rightarrow> proxy_heap \<times> 'w \<Rightarrow> proxy_heap \<times> 'w" where
  "hc_tick net hc s =
     (let now = unix (pn_now net (snd s)) in
      if \<not> hc_lazy hc \<or> now - hc_lastTouch hc < int (hc_interval hc) then hc_check net hc s else s)"

section \<open>Providers\<close>

text \<open>The operations of \<open>ProxyProvider\<close> the groups call.\<close>

record 'p ProxyProvider =
  pr_Proxies :: "'p \<Rightarrow> nat list"
  pr_ProxiesWithTouch :: "int \<Rightarrow> 'p \<Rightarrow> nat list \<times> 'p"

record compatibleProvider =
  cp_name :: string
  cp_healthCheck :: HealthCheck
  cp_proxies :: "nat list"

definition cp_Proxies :: "compatibleProvider \<Rightarrow> nat list" where
  "cp_Proxies cp = cp_proxies cp"

definition cp_ProxiesWithTouch :: "int \<Rightarrow> compatibleProvider \<Rightarrow> nat list \<times> compatibleProvider" where
  "cp_ProxiesWithTouch now cp =
     (let cp = cp\<lparr>cp_healthCheck := hc_touch now (cp_healthCheck cp)\<rparr> in (cp_Proxies cp, cp))"

definition NewCompatibleProvider :: "string \<Rightarrow> nat list \<Rightarrow> HealthCheck \<Rightarrow> string + compatibleProvider" where
  "NewCompatibleProvider name proxies hc =
     (if length proxies = 0 then Inl ''provider need one proxy at least''
      else Inr \<lparr>cp_name = name, cp_healthCheck = hc, cp_proxies = proxies\<rparr>)"

definition compatible :: "compatibleProvider ProxyProvider" where
  "compatible = \<lparr>pr_Proxies = cp_Proxies, pr_ProxiesWithTouch = cp_ProxiesWithTouch\<rparr>"

record proxySetProvider =
  ps_proxies :: "nat list"
  ps_healthCheck :: HealthCheck

definition ps_Proxies :: "proxySetProvider \<Rightarrow> nat list" where
  "ps_Proxies pp = ps_proxies pp"

definition ps_ProxiesWithTouch :: "int \<Rightarrow> proxySetProvider \<Rightarrow> nat list \<times> proxySetProvider" where
  "ps_ProxiesWithTouch now pp =
     (let pp = pp\<lparr>ps_healthCheck := hc_touch now (ps_healthCheck pp)\<rparr> in (ps_Proxies pp, pp))"

text \<open>\<open>setProxies\<close>, with the check it starts.\<close>

definition ps_setProxies ::
  "'w proxy_net \<Rightarrow> nat list \<Rightarrow> proxySetProvider \<times> proxy_heap \<times> 'w \<Rightarrow> proxySetProvider \<times> proxy_heap \<times> 'w" where
  "ps_setProxies net proxies s =
     (case s of (pp, hw) \<Rightarrow>
       let pp = pp\<lparr>ps_proxies := proxies, ps_healthCheck := hc_setProxy proxies (ps_healthCheck pp)\<rparr> in
       if hc_auto (ps_healthCheck pp) then (pp, hc_check net (ps_healthCheck pp) hw) else (pp, hw))"

definition proxySet :: "proxySetProvider ProxyProvider" where
  "proxySet = \<lparr>pr_Proxies = ps_Proxies, pr_ProxiesWithTouch = ps_ProxiesWithTouch\<rparr>"

text \<open>\<open>getProvidersProxies\<close> of \<open>adapter/outboundgroup/common.go\<close>.\<close>

fun getProvidersProxies :: "'p ProxyProvider \<Rightarrow> bool \<Rightarrow> int \<Rightarrow> 'p list \<Rightarrow> nat list \<times> 'p list" where
  "getProvidersProxies P touch now [] = ([], [])"
| "getProvidersProxies P touch now (provider # providers) =
     (let (proxies, provider) =
            (if touch then pr_ProxiesWithTouch P now provider else (pr_Proxies P provider, provider));
          (rest, providers) = getProvidersProxies P touch now providers
      in (proxies @ rest, provider # providers))"


section \<open>The history of a proxy\<close>

lemma q_Put_one [simp]: "q_Put [x] q = q @ [x]"
  by (simp add: q_Put_def)

lemma q_Pop_simps [simp]: "q_Pop [] = (None, [])" "q_Pop (x # q) = (Some x, q)"
  by (simp_all add: q_Pop_def)

lemma q_Last_snoc [simp]: "q_Last (q @ [x]) = Some x"
  by (simp add: q_Last_def)

definition test_record :: "int \<times> (string + 16 word) \<Rightarrow> DelayHistory" where
  "test_record r = \<lparr>dh_Time = fst r, dh_Delay = (case snd r of Inl err \<Rightarrow> 0 | Inr t \<Rightarrow> t)\<rparr>"

definition tested :: "(int \<times> (string + 16 word)) list \<Rightarrow> Proxy \<Rightarrow> Proxy" where
  "tested rs p = fold (\<lambda>(now, res). URLTest_record now res) rs p"

lemma URLTest_record_history:
  "px_history (URLTest_record now res p) =
     (let q = px_history p @ [test_record (now, res)] in drop (length q - 10) q)"
  if "length (px_history p) \<le> 10"
proof -
  have h: "px_history (URLTest_record now res p) =
    (let q = px_history p @ [test_record (now, res)] in if 10 < length q then tl q else q)"
    by (cases "px_history p") (simp_all add: URLTest_record_def test_record_def q_Len_def Let_def)
  show ?thesis
  proof (cases "length (px_history p) = 10")
    case True
    then show ?thesis unfolding h Let_def by (cases "px_history p") simp_all
  next
    case False
    with that show ?thesis unfolding h Let_def by simp
  qed
qed

lemma tested_history: "px_history (tested rs (NewProxy name tp addr udp)) = drop (length rs - 10) (map test_record rs)"
proof (induction rs rule: rev_induct)
  case (snoc r rs)
  obtain now res where r: "r = (now, res)" by (cases r)
  let ?p = "tested rs (NewProxy name tp addr udp)"
  have "length (px_history ?p) \<le> 10" using snoc by simp
  from URLTest_record_history [OF this, of now res] snoc r show ?case
    by (cases "length rs < 10") (simp_all add: tested_def Let_def Suc_diff_le [symmetric])
qed (simp add: tested_def NewProxy_def q_New_def)

lemma LastDelay_tested:
  "LastDelay (URLTest_record now res p) = (case res of Inr t \<Rightarrow> if t = 0 then 0xffff else t | Inl err \<Rightarrow> 0xffff)"
proof -
  have "q_Last (snd (q_Pop (q @ [x]))) = (if q = [] then None else Some x)" for q and x :: DelayHistory
    by (cases q) (simp_all add: q_Last_def)
  then have "q_Last (px_history (URLTest_record now res p)) = Some (test_record (now, res))"
    by (auto simp: URLTest_record_def q_Len_def test_record_def Let_def)
  moreover have "px_alive (URLTest_record now res p) = (case res of Inr t \<Rightarrow> True | Inl err \<Rightarrow> False)"
    by (cases res) (simp_all add: URLTest_record_def Let_def)
  ultimately show ?thesis by (auto simp: LastDelay_def test_record_def split: sum.splits)
qed

text \<open>
  What the tests of a proxy leave behind: its history is the record of its last ten
  tests, oldest first, and its delay is that of the last test, the largest 16-bit number when
  that test failed (or took less than a millisecond).
\<close>

theorem URLTest_history:
  "px_history (tested (rs @ [(now, res)]) (NewProxy name tp addr udp)) =
     drop (Suc (length rs) - 10) (map test_record (rs @ [(now, res)])) \<and>
   LastDelay (tested (rs @ [(now, res)]) (NewProxy name tp addr udp)) =
     (case res of Inr t \<Rightarrow> if t = 0 then 0xffff else t | Inl err \<Rightarrow> 0xffff)"
  using tested_history [of "rs @ [(now, res)]" name tp addr udp] LastDelay_tested
  by (simp add: tested_def)

section \<open>Which proxies an operation touches\<close>

lemma Proxy_DialContext_other: "q \<noteq> p \<Longrightarrow> fst (snd (Proxy_DialContext net p m s)) q = fst s q"
  by (auto simp: Proxy_DialContext_def split: prod.splits)

lemma Proxy_URLTest_other: "q \<noteq> p \<Longrightarrow> fst (snd (Proxy_URLTest net p url s)) q = fst s q"
proof -
  assume q: "q \<noteq> p"
  have "fst (snd (url_test net p url s)) q = fst s q"
    using Proxy_DialContext_other [OF q, of net "case urlToMetadata net url of Inr a \<Rightarrow> a" s]
    by (auto simp: url_test_def Let_def split: sum.splits prod.splits)
  with q show ?thesis by (auto simp: Proxy_URLTest_def split: prod.splits)
qed

lemma Proxy_URLTest_records:
  "px_alive (fst (snd (Proxy_URLTest net p url s)) p) \<longleftrightarrow> (\<exists>t. fst (Proxy_URLTest net p url s) = Inr t)"
  by (auto simp: Proxy_URLTest_def URLTest_record_def Let_def split: prod.splits sum.splits)

lemma hc_check_other: "q \<notin> set (hc_proxies hc) \<Longrightarrow> fst (hc_check net hc s) q = fst s q"
proof -
  have "q \<notin> set ps \<Longrightarrow> fst (fold (\<lambda>p s. snd (Proxy_URLTest net p url s)) ps s) q = fst s q" for ps url
    by (induction ps arbitrary: s) (auto simp: Proxy_URLTest_other)
  then show "q \<notin> set (hc_proxies hc) \<Longrightarrow> ?thesis" by (simp add: hc_check_def)
qed

section \<open>Providers keep their lists\<close>

locale provider_laws =
  fixes P :: "'p ProxyProvider"
  assumes touch_list: "fst (pr_ProxiesWithTouch P now p) = pr_Proxies P p"
    and touch_keeps: "pr_Proxies P (snd (pr_ProxiesWithTouch P now p)) = pr_Proxies P p"
begin

lemma getProvidersProxies_list:
  "fst (getProvidersProxies P touch now ps) = concat (map (pr_Proxies P) ps)"
  by (induction ps) (auto simp: Let_def touch_list split: prod.splits, (metis fst_conv touch_list)+)

lemma getProvidersProxies_keeps:
  "map (pr_Proxies P) (snd (getProvidersProxies P touch now ps)) = map (pr_Proxies P) ps"
  by (induction ps) (auto simp: Let_def split: prod.splits, (metis snd_conv touch_keeps)+)

end

interpretation compat: provider_laws compatible
  by unfold_locales (simp_all add: compatible_def cp_ProxiesWithTouch_def cp_Proxies_def Let_def)

interpretation pset: provider_laws proxySet
  by unfold_locales (simp_all add: proxySet_def ps_ProxiesWithTouch_def ps_Proxies_def Let_def)

end
