(* ===== verification/ClashMurmur.thy ===== *)
theory ClashMurmur
  imports GoPrelude
begin

unbundle bit_operations_syntax

text \<open>
  \<open>common/murmur3\<close>: the 32-bit MurmurHash3, once over a whole slice (\<open>Sum32WithSeed\<close>) and
  once as a \<open>hash.Hash32\<close> that is fed in pieces.  A block is read through an unsafe pointer,
  in the byte order of the machine, which is taken to be little endian.
\<close>

section \<open>Blocks\<close>

definition c1_32 :: "32 word" where "c1_32 = 0xcc9e2d51"
definition c2_32 :: "32 word" where "c2_32 = 0x1b873593"

text \<open>\<open>*(*uint32)(unsafe.Pointer(&p[i]))\<close>.\<close>

definition load32 :: "bytes \<Rightarrow> nat \<Rightarrow> 32 word" where
  "load32 p i = ucast (p ! i) OR push_bit 8 (ucast (p ! (i + 1))) OR
     push_bit 16 (ucast (p ! (i + 2))) OR push_bit 24 (ucast (p ! (i + 3)))"

definition mix_k1 :: "32 word \<Rightarrow> 32 word" where
  "mix_k1 k1 = word_rotl 15 (k1 * c1_32) * c2_32"

definition mix_block :: "32 word \<Rightarrow> 32 word \<Rightarrow> 32 word" where
  "mix_block h1 k1 = (let h1 = word_rotl 13 (h1 XOR mix_k1 k1) in h1 * 4 + h1 + 0xe6546b64)"

definition mix_blocks :: "bytes \<Rightarrow> 32 word \<Rightarrow> 32 word" where
  "mix_blocks p h1 = foldl (\<lambda>h i. mix_block h (load32 p (i * 4))) h1 [0..<length p div 4]"

text \<open>The switch over the length of the tail, with its fall-throughs.\<close>

definition mix_tail :: "bytes \<Rightarrow> 32 word \<Rightarrow> 32 word" where
  "mix_tail tail h1 =
     (let n = length tail mod 4;
          k1 = 0;
          k1 = (if n = 3 then k1 XOR push_bit 16 (ucast (tail ! 2)) else k1);
          k1 = (if n \<ge> 2 then k1 XOR push_bit 8 (ucast (tail ! 1)) else k1)
      in if n \<ge> 1 then h1 XOR mix_k1 (k1 XOR ucast (tail ! 0)) else h1)"

definition finish32 :: "32 word \<Rightarrow> 32 word \<Rightarrow> 32 word" where
  "finish32 h1 len =
     (let h1 = h1 XOR len;
          h1 = h1 XOR drop_bit 16 h1;
          h1 = h1 * 0x85ebca6b;
          h1 = h1 XOR drop_bit 13 h1;
          h1 = h1 * 0xc2b2ae35
      in h1 XOR drop_bit 16 h1)"

section \<open>In one go\<close>

definition Sum32WithSeed :: "bytes \<Rightarrow> 32 word \<Rightarrow> 32 word" where
  "Sum32WithSeed data seed =
     (let h1 = mix_blocks data seed;
          tail = drop (length data div 4 * 4) data
      in finish32 (mix_tail tail h1) (of_nat (length data)))"

definition Sum32 :: "bytes \<Rightarrow> 32 word" where
  "Sum32 data = Sum32WithSeed data 0"

section \<open>In pieces\<close>

text \<open>
  The digest.  Its \<open>tail\<close> is a view of \<open>buf\<close> and is extended in place; the bytes behind the
  view are never read again, so that the view is kept as its contents.
\<close>

record digest32 =
  dg_clen :: "64 word"
  dg_tail :: bytes
  dg_seed :: "32 word"
  dg_h1 :: "32 word"

definition dg_Reset :: "digest32 \<Rightarrow> digest32" where
  "dg_Reset d = d\<lparr>dg_clen := 0, dg_tail := [], dg_h1 := dg_seed d\<rparr>"

definition New32WithSeed :: "32 word \<Rightarrow> digest32" where
  "New32WithSeed seed = dg_Reset \<lparr>dg_clen = 0, dg_tail = [], dg_seed = seed, dg_h1 = 0\<rparr>"

definition dg_bmix :: "bytes \<Rightarrow> digest32 \<Rightarrow> bytes \<times> digest32" where
  "dg_bmix p d = (drop (length p div 4 * 4) p, d\<lparr>dg_h1 := mix_blocks p (dg_h1 d)\<rparr>)"

definition dg_Write :: "bytes \<Rightarrow> digest32 \<Rightarrow> nat \<times> digest32" where
  "dg_Write p d =
     (let n = length p;
          d = d\<lparr>dg_clen := dg_clen d + of_nat n\<rparr>;
          (p, d) =
            (if dg_tail d \<noteq> [] then
               (let nfree = 4 - length (dg_tail d) in
                if nfree < length p
                then (drop nfree p, snd (dg_bmix (dg_tail d @ take nfree p) d))
                else (dg_tail d @ p, d))
             else (p, d));
          (tail, d) = dg_bmix p d
      in (n, d\<lparr>dg_tail := tail\<rparr>))"

definition dg_Sum32 :: "digest32 \<Rightarrow> 32 word" where
  "dg_Sum32 d = finish32 (mix_tail (dg_tail d) (dg_h1 d)) (ucast (dg_clen d))"

definition dg_Sum :: "bytes \<Rightarrow> digest32 \<Rightarrow> bytes" where
  "dg_Sum b d = (let h = dg_Sum32 d in
     b @ [ucast (drop_bit 24 h), ucast (drop_bit 16 h), ucast (drop_bit 8 h), ucast h])"

lemma Sum32_test: "Sum32 [0x68, 0x65, 0x6c, 0x6c, 0x6f] = 0x248bfa47" 
  by code_simp

section \<open>The pieces make the whole\<close>

lemma load32_append: "i + 3 < length p \<Longrightarrow> load32 (p @ q) i = load32 p i"
  by (simp add: load32_def nth_append)

lemma load32_drop: "load32 (drop k p) i = load32 p (k + i)" if "k \<le> length p"
  using that by (simp add: load32_def add.assoc)

lemma mix_blocks_short [simp]: "length p < 4 \<Longrightarrow> mix_blocks p h = h"
  by (simp add: mix_blocks_def)

lemma mix_blocks_append:
  assumes "4 dvd length p"
  shows "mix_blocks (p @ q) h = mix_blocks q (mix_blocks p h)"
proof -
  obtain n where n: "length p = 4 * n" using assms by blast
  have "length (p @ q) div 4 = n + length q div 4" by (simp add: n)
  then have "[0..<length (p @ q) div 4] = [0..<n] @ map (\<lambda>i. i + n) [0..<length q div 4]"
    using upt_add_eq_append [of 0 n "length q div 4"] map_add_upt [of n "length q div 4"]
    by (simp add: add.commute [of n])
  moreover have "foldl (\<lambda>h i. mix_block h (load32 (p @ q) (i * 4))) a [0..<n] =
      foldl (\<lambda>h i. mix_block h (load32 p (i * 4))) a [0..<n]" for a
    by (rule foldl_cong) (auto simp: load32_append n)
  moreover have "load32 (p @ q) ((i + n) * 4) = load32 q (i * 4)" for i
    using load32_drop [of "length p" "p @ q" "i * 4"] by (simp add: n algebra_simps)
  ultimately show ?thesis
    by (simp add: mix_blocks_def n foldl_map)
qed

text \<open>The digest stands for the bytes written so far.\<close>

definition digests :: "digest32 \<Rightarrow> bytes \<Rightarrow> bool" where
  "digests d xs \<longleftrightarrow> dg_clen d = of_nat (length xs) \<and> dg_h1 d = mix_blocks xs (dg_seed d) \<and>
     dg_tail d = drop (length xs div 4 * 4) xs"

lemma digests_New: "digests (New32WithSeed seed) [] \<and> dg_seed (New32WithSeed seed) = seed"
  by (simp add: digests_def New32WithSeed_def dg_Reset_def)

lemma div4_append: "4 dvd length p \<Longrightarrow> drop (length (p @ q) div 4 * 4) (p @ q) = drop (length q div 4 * 4) q"
  by (auto elim!: dvdE simp: algebra_simps)

lemma digests_Write:
  assumes d: "digests d xs"
  shows "digests (snd (dg_Write p d)) (xs @ p) \<and> fst (dg_Write p d) = length p \<and>
    dg_seed (snd (dg_Write p d)) = dg_seed d"
proof -
  define k where "k = length xs div 4 * 4"
  define u where "u = take k xs"
  have k: "k \<le> length xs" "length xs - k < 4" by (simp_all add: k_def)
  have u: "4 dvd length u" "length u = k" "xs = u @ dg_tail d" "length (dg_tail d) < 4"
    using d k by (auto simp: u_def digests_def k_def)
  have h: "dg_h1 d = mix_blocks u (dg_seed d)"
  proof -
    have "mix_blocks (u @ dg_tail d) (dg_seed d) = mix_blocks u (dg_seed d)"
      using mix_blocks_append [OF u(1)] u(4) by simp
    then show ?thesis using d u(3) by (simp add: digests_def)
  qed
  have tl: "drop (length (u @ q) div 4 * 4) (u @ q) = drop (length q div 4 * 4) q" for q
    using div4_append [OF u(1)] .
  have all: "xs @ p = u @ dg_tail d @ p" using u(3) by simp
  show ?thesis
  proof (cases "dg_tail d \<noteq> [] \<and> 4 - length (dg_tail d) < length p")
    case True
    let ?n = "4 - length (dg_tail d)"
    let ?b = "dg_tail d @ take ?n p"
    have b: "length ?b = 4" using True u(4) by auto
    have q: "dg_tail d @ p = ?b @ drop ?n p" by simp
    have "mix_blocks (xs @ p) s = mix_blocks (drop ?n p) (mix_blocks ?b (mix_blocks u s))" for s
      unfolding all q by (simp only: mix_blocks_append [OF u(1)]) (rule mix_blocks_append, simp only: b, simp)
    moreover have "drop (length (xs @ p) div 4 * 4) (xs @ p) =
        drop (length (drop ?n p) div 4 * 4) (drop ?n p)"
      unfolding all q tl by (rule div4_append) (simp only: b, simp)
    moreover have "dg_clen d = of_nat (length xs)" using d by (simp add: digests_def)
    ultimately show ?thesis using True h by (simp add: digests_def dg_Write_def dg_bmix_def Let_def)
  next
    case False
    have "mix_blocks (xs @ p) s = mix_blocks (dg_tail d @ p) (mix_blocks u s)" for s
      unfolding all by (rule mix_blocks_append [OF u(1)])
    moreover have "drop (length (xs @ p) div 4 * 4) (xs @ p) =
        drop (length (dg_tail d @ p) div 4 * 4) (dg_tail d @ p)"
      unfolding all by (rule tl)
    moreover have "dg_clen d = of_nat (length xs)" using d by (simp add: digests_def)
    ultimately show ?thesis using False h by (auto simp: digests_def dg_Write_def dg_bmix_def Let_def)
  qed
qed

lemma ucast_of_nat_64: "(ucast (of_nat n :: 64 word) :: 32 word) = of_nat n"
  by (simp add: unsigned_of_nat word_of_nat_eq_iff)

lemma digests_Sum32: "digests d xs \<Longrightarrow> dg_Sum32 d = Sum32WithSeed xs (dg_seed d)"
  by (simp add: digests_def dg_Sum32_def Sum32WithSeed_def Let_def ucast_of_nat_64)

text \<open>
  C14. Hashing in pieces: however the bytes are cut into writes, the digest ends with the
  sum of the whole, the same that \<open>Sum32WithSeed\<close> computes at once.
\<close>

theorem murmur_pieces:
  "dg_Sum32 (fold (\<lambda>p d. snd (dg_Write p d)) ps (New32WithSeed seed)) = Sum32WithSeed (concat ps) seed"
proof -
  have "digests d xs \<Longrightarrow> digests (fold (\<lambda>p d. snd (dg_Write p d)) ps d) (xs @ concat ps) \<and>
      dg_seed (fold (\<lambda>p d. snd (dg_Write p d)) ps d) = dg_seed d" for d xs
  proof (induction ps arbitrary: d xs)
    case (Cons p ps)
    show ?case using Cons.IH [of "snd (dg_Write p d)" "xs @ p"] digests_Write [OF Cons.prems, of p] by simp
  qed simp
  from this [of "New32WithSeed seed" "[]"] show ?thesis
    using digests_New [of seed] digests_Sum32 by fastforce
qed

end
