(* ===== verification/ClashJump.thy ===== *)
theory ClashJump
  imports GoPrelude "HOL-Library.Log_Nat" Complex_Main
begin

text \<open>
  \<open>jumpHash\<close> of \<open>adapter/outboundgroup/loadbalance.go\<close>: the jump consistent hash, whose step
  is computed in 64-bit floating point.  The floating-point numbers that occur are at least 1
  and below \<open>2^63\<close>, so that they are normal: a rational in that range is rounded to 53
  significant bits, ties to even, after every operation.
\<close>

section \<open>Rounding\<close>

definition round_even :: "rat \<Rightarrow> int" where
  "round_even x =
     (let f = \<lfloor>x\<rfloor>; d = x - of_int f in
      if d < 1 / 2 then f else if 1 / 2 < d then f + 1 else if even f then f else f + 1)"

text \<open>The place of the leading bit of a number that is at least 1.\<close>

definition exponent :: "rat \<Rightarrow> nat" where
  "exponent x = floorlog 2 (nat \<lfloor>x\<rfloor>) - 1"

definition float64 :: "rat \<Rightarrow> rat" where
  "float64 x = (let s = 2 ^ 52 / 2 ^ exponent x in of_int (round_even (x * s)) / s)"

section \<open>The hash\<close>

definition jump_key :: "64 word \<Rightarrow> 64 word" where
  "jump_key key = key * 2862933555777941757 + 1"

text \<open>\<open>int64(float64(b+1) * (float64(int64(1)<<31) / float64((key>>33)+1)))\<close>.\<close>

definition jump_next :: "nat \<Rightarrow> 64 word \<Rightarrow> nat" where
  "jump_next b key =
     nat \<lfloor>float64 (float64 (of_nat (b + 1)) *
       float64 (float64 (2 ^ 31) / float64 (of_nat (unat (drop_bit 33 key) + 1))))\<rfloor>"

section \<open>The step moves on\<close>

lemma round_even_ge: "of_int m \<le> x \<Longrightarrow> m \<le> round_even x"
proof -
  assume "of_int m \<le> x"
  then have "m \<le> \<lfloor>x\<rfloor>" by (simp add: le_floor_iff)
  then show ?thesis by (simp add: round_even_def Let_def)
qed

lemma round_even_le: "x \<le> of_int m \<Longrightarrow> round_even x \<le> m"
proof -
  assume x: "x \<le> of_int m"
  then have f: "\<lfloor>x\<rfloor> \<le> m" by (simp add: floor_le_iff)
  show ?thesis
  proof (cases "\<lfloor>x\<rfloor> = m")
    case True
    with x have "x = of_int m" by (metis of_int_floor_le order_antisym)
    then show ?thesis by (simp add: round_even_def)
  next
    case False
    with f show ?thesis by (simp add: round_even_def Let_def)
  qed
qed

lemma exponent_bounds:
  assumes "1 \<le> x"
  shows "2 ^ exponent x \<le> x" and "x < 2 ^ (exponent x + 1)"
proof -
  define n where "n = nat \<lfloor>x\<rfloor>"
  have n: "0 < n" "of_nat n \<le> x" "x < of_nat n + 1"
    using assms by (simp_all add: n_def of_nat_nat zero_less_iff_neq_zero) linarith+
  have "0 < floorlog 2 n" using n(1) by (simp add: floorlog_def)
  then have e: "floorlog 2 n = exponent x + 1" by (simp add: exponent_def n_def)
  have "2 ^ exponent x \<le> n \<and> n < 2 ^ (exponent x + 1)"
    using floorlog_bounds [of n 2] n(1) e by simp
  then have "(2::rat) ^ exponent x \<le> of_nat n" "of_nat n + 1 \<le> (2::rat) ^ (exponent x + 1)"
    by (metis of_nat_le_iff of_nat_numeral of_nat_power,
        metis Suc_leI of_nat_Suc of_nat_le_iff of_nat_numeral of_nat_power add.commute)
  with n show "2 ^ exponent x \<le> x" "x < 2 ^ (exponent x + 1)" by linarith+
qed

lemma scale_int: "e \<le> 52 \<Longrightarrow> 2 ^ 52 / 2 ^ e = (of_int (2 ^ (52 - e)) :: rat)"
  unfolding of_int_power of_int_numeral by (rule power_diff [symmetric]) auto

lemma float64_ge:
  assumes "1 \<le> x" and "of_nat n \<le> x" and "n < 2 ^ 53"
  shows "of_nat n \<le> float64 x"
proof -
  let ?e = "exponent x"
  let ?s = "2 ^ 52 / 2 ^ ?e :: rat"
  have s: "0 < ?s" by simp
  note b = exponent_bounds [OF assms(1)]
  show ?thesis
  proof (cases "?e \<le> 52")
    case True
    then have "?s = of_int (2 ^ (52 - ?e))" by (rule scale_int)
    then have "of_int (int n * 2 ^ (52 - ?e)) \<le> x * ?s"
      using mult_right_mono [OF assms(2), of ?s] by simp
    then have "int n * 2 ^ (52 - ?e) \<le> round_even (x * ?s)" by (rule round_even_ge)
    then have "of_nat n * ?s \<le> of_int (round_even (x * ?s))"
      using \<open>?s = _\<close> by (metis of_int_le_iff of_int_mult of_int_of_nat_eq)
    then show ?thesis unfolding float64_def Let_def pos_le_divide_eq [OF s] .
  next
    case False
    have "of_int (2 ^ 52) \<le> x * ?s" using b(1) by (simp add: field_simps)
    then have "2 ^ 52 \<le> round_even (x * ?s)" by (rule round_even_ge)
    then have "(2::rat) ^ 52 \<le> of_int (round_even (x * ?s))"
      by (metis of_int_le_iff of_int_numeral of_int_power)
    then have "2 ^ ?e * ?s \<le> of_int (round_even (x * ?s))" by simp
    then have "2 ^ ?e \<le> float64 x" unfolding float64_def Let_def pos_le_divide_eq [OF s] .
    moreover have "(2::rat) ^ 53 \<le> 2 ^ ?e" using False by (intro power_increasing) auto
    moreover have "of_nat n \<le> (2::rat) ^ 53"
      using assms(3) by (metis less_imp_le of_nat_le_iff of_nat_numeral of_nat_power)
    ultimately show ?thesis by linarith
  qed
qed

lemma float64_le:
  assumes "1 \<le> x" and "x \<le> 2 ^ k"
  shows "float64 x \<le> 2 ^ k"
proof -
  let ?e = "exponent x"
  let ?s = "2 ^ 52 / 2 ^ ?e :: rat"
  have s: "0 < ?s" by simp
  note b = exponent_bounds [OF assms(1)]
  have le: "float64 x \<le> y" if "x \<le> y" "y * ?s = of_int m" for y m
  proof -
    have "x * ?s \<le> of_int m" using that mult_right_mono [OF that(1), of ?s] by simp
    then have "round_even (x * ?s) \<le> m" by (rule round_even_le)
    then have "of_int (round_even (x * ?s)) \<le> y * ?s" using that(2) by simp
    then show ?thesis unfolding float64_def Let_def pos_divide_le_eq [OF s] .
  qed
  show ?thesis
  proof (cases "?e < k")
    case True
    have "2 ^ (?e + 1) * ?s = of_int (2 ^ 53)" by simp
    with b(2) have "float64 x \<le> 2 ^ (?e + 1)" by (intro le) auto
    also have "\<dots> \<le> 2 ^ k" using True by (intro power_increasing) auto
    finally show ?thesis .
  next
    case False
    have "(2::rat) ^ ?e \<le> 2 ^ k" using b(1) assms(2) by linarith
    then have "?e \<le> k" by (simp add: power_increasing_iff)
    with False have "2 ^ k * ?s = of_int (2 ^ 52)" by simp
    with assms(2) show ?thesis by (rule le)
  qed
qed

lemma float64_of_nat:
  assumes "0 < n" and "n < 2 ^ 53"
  shows "float64 (of_nat n) = of_nat n"
proof -
  let ?e = "exponent (of_nat n)"
  have "1 \<le> (of_nat n :: rat)" using assms(1) by simp
  note b = exponent_bounds [OF this]
  have "(2::rat) ^ ?e < 2 ^ 53"
    using b(1) assms(2) by (metis le_less_trans of_nat_less_iff of_nat_numeral of_nat_power)
  then have "?e < 53" by (rule power_less_imp_less_exp [rotated]) simp
  then have "?e \<le> 52" by simp
  then have "2 ^ 52 / 2 ^ ?e = (of_int (2 ^ (52 - ?e)) :: rat)" by (rule scale_int)
  then have "of_nat n * (2 ^ 52 / 2 ^ ?e) = (of_int (int n * 2 ^ (52 - ?e)) :: rat)" by simp
  then have "float64 (of_nat n) = of_int (int n * 2 ^ (52 - ?e)) / (2 ^ 52 / 2 ^ ?e)"
    unfolding float64_def Let_def by (simp only: round_even_def Let_def floor_of_int) simp
  also have "\<dots> = of_nat n"
    using \<open>of_nat n * _ = _\<close> by (metis nonzero_mult_div_cancel_right divide_eq_0_iff power_not_zero zero_neq_numeral)
  finally show ?thesis .
qed

lemma jump_next_bounds:
  assumes "b < 2 ^ 31"
  shows "b < jump_next b key" and "jump_next b key \<le> 2 ^ 62"
proof -
  define d :: nat where "d = unat (drop_bit 33 key) + 1"
  have "drop_bit 33 (unat key) < 2 ^ 31"
    using unsigned_less [of key, where ?'a = nat] by (simp add: drop_bit_eq_div less_mult_imp_div_less)
  then have d: "1 \<le> d" "d \<le> 2 ^ 31" by (simp_all add: d_def unat_drop_bit_eq)
  have fd: "float64 (of_nat d) = of_nat d" using d by (intro float64_of_nat) auto
  have f31: "float64 (2 ^ 31) = 2 ^ 31" using float64_of_nat [of "2 ^ 31"] by simp
  have fb: "float64 (of_nat (b + 1)) = of_nat (b + 1)" using assms by (intro float64_of_nat) auto
  let ?q = "2 ^ 31 / of_nat d :: rat"
  have "(of_nat d :: rat) \<le> 2 ^ 31" using d(2) by (metis of_nat_le_iff of_nat_numeral of_nat_power)
  then have q1: "1 \<le> ?q" using d(1) by (simp add: le_divide_eq)
  have "1 \<le> (of_nat d :: rat)" using d(1) by simp
  then have q2: "?q \<le> 2 ^ 31" by (simp add: divide_le_eq)
  have r1: "1 \<le> float64 ?q" using float64_ge [OF q1, of 1] q1 by simp
  have r2: "float64 ?q \<le> 2 ^ 31" using q1 q2 by (rule float64_le)
  let ?p = "of_nat (b + 1) * float64 ?q"
  have b1: "1 \<le> (of_nat (b + 1) :: rat)" by simp
  have "(of_nat (b + 1) :: rat) \<le> of_nat (2 ^ 31)" using assms by (subst of_nat_le_iff) simp
  then have b2: "(of_nat (b + 1) :: rat) \<le> 2 ^ 31" by simp
  have p0: "of_nat (b + 1) \<le> ?p" using mult_left_mono [OF r1, of "of_nat (b + 1)"] by simp
  then have p1: "1 \<le> ?p" using b1 by linarith
  have "?p \<le> 2 ^ 31 * 2 ^ 31" using r1 r2 b1 b2 by (intro mult_mono) auto
  then have p2: "?p \<le> 2 ^ 62" by simp
  have j: "jump_next b key = nat \<lfloor>float64 ?p\<rfloor>"
    unfolding jump_next_def fb f31 fd [unfolded d_def] d_def ..
  have "of_nat (b + 1) \<le> float64 ?p" using p1 p0 assms by (intro float64_ge) auto
  then have "int (b + 1) \<le> \<lfloor>float64 ?p\<rfloor>" by (simp add: le_floor_iff)
  then show "b < jump_next b key" unfolding j by linarith
  have "float64 ?p \<le> of_int (2 ^ 62)" using float64_le [OF p1 p2] by simp
  then have "\<lfloor>float64 ?p\<rfloor> \<le> 2 ^ 62" by (metis floor_mono floor_of_int)
  then show "jump_next b key \<le> 2 ^ 62" unfolding j by (simp add: nat_le_iff)
qed

section \<open>The loop\<close>

lemma int32_less: "int j < sint (n :: 32 word) \<Longrightarrow> j < 2 ^ 31"
  using sint_less [of n] by simp

text \<open>The loop, for \<open>b\<close> and \<open>j\<close> that count up from 0; \<open>buckets\<close> is an \<open>int32\<close>.\<close>

function jump_loop :: "32 word \<Rightarrow> 64 word \<Rightarrow> nat \<Rightarrow> nat \<Rightarrow> nat" where
  "jump_loop buckets key b j =
     (if int j < sint buckets
      then jump_loop buckets (jump_key key) j (jump_next j (jump_key key))
      else b)"
  by pat_completeness auto

termination
proof (relation "measure (\<lambda>(n, key, b, j). nat (sint n - int j))")
  fix n :: "32 word" and key :: "64 word" and b j :: nat
  assume j: "int j < sint n"
  then have "j < jump_next j (jump_key key)" using jump_next_bounds(1) int32_less by blast
  with j show "((n, jump_key key, j, jump_next j (jump_key key)), n, key, b, j)
      \<in> measure (\<lambda>(n, key, b, j). nat (sint n - int j))" by auto
qed simp

declare jump_loop.simps [simp del]

definition jumpHash :: "64 word \<Rightarrow> 32 word \<Rightarrow> nat" where
  "jumpHash key buckets = jump_loop buckets key 0 0"

lemma jump_loop_less: "int b < sint n \<Longrightarrow> int (jump_loop n key b j) < sint n"
proof (induction n key b j rule: jump_loop.induct)
  case (1 n key b j)
  then show ?case by (subst jump_loop.simps) auto
qed

lemma jump_loop_Suc:
  "sint n' = sint n + 1 \<Longrightarrow> int b < sint n \<Longrightarrow>
    jump_loop n' key b j = jump_loop n key b j \<or> int (jump_loop n' key b j) = sint n"
proof (induction n key b j rule: jump_loop.induct)
  case (1 n key b j)
  note assms = "1.prems"(1)
  consider "int j < sint n" | "int j = sint n" | "sint n < int j" by linarith
  then show ?case
  proof cases
    case 1
    then have "int j < sint n'" using assms by linarith
    with 1 "1.IH" [OF 1 assms] show ?thesis by (simp add: jump_loop.simps [of n' key b j] jump_loop.simps [of n key b j])
  next
    case 2
    then have "j < jump_next j (jump_key key)"
      using jump_next_bounds(1) int32_less [of j n'] assms by simp
    then have "\<not> int (jump_next j (jump_key key)) < sint n'" using 2 assms by linarith
    with 2 assms show ?thesis by (auto simp: jump_loop.simps [of n' key b j] jump_loop.simps [of n' "jump_key key" j])
  next
    case 3
    with assms show ?thesis by (simp add: jump_loop.simps [of n' key b j] jump_loop.simps [of n key b j])
  qed
qed

lemma jumpHash_less: "0 < sint n \<Longrightarrow> int (jumpHash key n) < sint n"
  by (simp add: jumpHash_def jump_loop_less)

lemma sint_of_nat32: "n < 2 ^ 31 \<Longrightarrow> sint (of_nat n :: 32 word) = int n"
  by (simp add: signed_of_nat signed_take_bit_int_eq_self_iff)

lemma jumpHash_Suc:
  assumes "Suc n < 2 ^ 31" and "0 < n"
  shows "jumpHash key (of_nat (Suc n)) = jumpHash key (of_nat n) \<or> jumpHash key (of_nat (Suc n)) = n"
proof -
  have n: "sint (of_nat n :: 32 word) = int n" "sint (of_nat (Suc n) :: 32 word) = int n + 1"
    using assms sint_of_nat32 [of "Suc n"] sint_of_nat32 [of n] by simp_all
  then show ?thesis
    using jump_loop_Suc [of "of_nat (Suc n)" "of_nat n" 0 key 0] n assms(2) by (simp add: jumpHash_def)
qed

text \<open>
  C15. The jump hash returns for every key and every number of buckets, however the floating
  point steps round: with at least one bucket it names one of them, and a bucket added at the
  end takes over keys from the others without moving a key between them.
\<close>

theorem jumpHash_consistent:
  assumes "Suc n < 2 ^ 31" and "0 < n"
  shows "jumpHash key (of_nat n) < n \<and> jumpHash key (of_nat (Suc n)) \<in> {jumpHash key (of_nat n), n}"
  using jumpHash_less [of "of_nat n" key] jumpHash_Suc [OF assms, of key] sint_of_nat32 [of n] assms
  by auto

theorem jumpHash_consistent_witness:
  "jumpHash 256 (of_nat 1024) < 1024 \<and> jumpHash 256 (of_nat (Suc 1024)) \<in> {jumpHash 256 (of_nat 1024), 1024}"
  using jumpHash_consistent [of 1024 256] by simp

end
