(* ===== verification/ClashGroups.thy ===== *)
theory ClashGroups
  imports ClashProxy ClashMurmur ClashJump GoNet
begin

text \<open>
  \<open>adapter/outboundgroup\<close>: adapters that choose among the proxies of their providers.  A
  selector keeps the user's choice, a fallback takes the first proxy that is alive, a
  \<open>URLTest\<close> the one with the smallest delay, a load balancer hashes the target or goes
  round, a relay chains its proxies.  Every group asks its providers through
  \<open>common/singledo\<close>, and so sees a list of proxies up to five seconds old.
\<close>

section \<open>Single\<close>

text \<open>
  \<open>sg_call\<close> says that a call is in progress.  Calls are atomic steps here, so that it is set
  at the start of a step only when an earlier function panicked inside \<open>Do\<close>: then \<open>Do\<close>
  waits for ever, which is the result \<open>None\<close>.
\<close>

record 'v Single =
  sg_last :: int
  sg_wait :: int
  sg_call :: bool
  sg_result :: "'v option"

definition zero_time :: int where
  "zero_time = - 62135596800 * 1000000000"

definition NewSingle :: "int \<Rightarrow> 'v Single" where
  "NewSingle wait = \<lparr>sg_last = zero_time, sg_wait = wait, sg_call = False, sg_result = None\<rparr>"

definition single_Reset :: "'v Single \<Rightarrow> 'v Single" where
  "single_Reset s = s\<lparr>sg_last := zero_time\<rparr>"

definition single_Do ::
  "int \<Rightarrow> ('s \<Rightarrow> 'v go option \<times> 's) \<Rightarrow> 'v Single \<times> 's \<Rightarrow> 'v go option \<times> 'v Single \<times> 's" where
  "single_Do now fn s =
     (case s of (sg, st) \<Rightarrow>
        if now < sg_last sg + sg_wait sg then
          (Some (case sg_result sg of None \<Rightarrow> Inl NilDereference | Some v \<Rightarrow> Inr v), sg, st)
        else if sg_call sg then (None, sg, st)
        else case fn st of
          (None, st) \<Rightarrow> (None, sg\<lparr>sg_call := True\<rparr>, st)
        | (Some (Inl pn), st) \<Rightarrow> (Some (Inl pn), sg\<lparr>sg_call := True\<rparr>, st)
        | (Some (Inr v), st) \<Rightarrow> (Some (Inr v), sg\<lparr>sg_call := False, sg_result := Some v, sg_last := now\<rparr>, st))"

definition defaultGetProxiesDuration :: int where
  "defaultGetProxiesDuration = 5 * 1000000000"

text \<open>A list's first element, as Go's \<open>xs[0]\<close>.\<close>

definition go_first :: "'a list \<Rightarrow> 'a go" where
  "go_first xs = (case xs of [] \<Rightarrow> Inl IndexOutOfRange | x # _ \<Rightarrow> Inr x)"

section \<open>Selector\<close>

record 'p Selector =
  sl_name :: string
  sl_disableUDP :: bool
  sl_single :: "nat Single"
  sl_selected :: string
  sl_providers :: "'p list"

definition NewSelector :: "'p ProxyProvider \<Rightarrow> proxy_heap \<Rightarrow> string \<Rightarrow> bool \<Rightarrow> 'p list \<Rightarrow> 'p Selector go" where
  "NewSelector P h name disableUDP providers =
     go_bind (go_first providers) (\<lambda>provider.
     go_bind (go_first (pr_Proxies P provider)) (\<lambda>proxy.
       Inr \<lparr>sl_name = name, sl_disableUDP = disableUDP, sl_single = NewSingle defaultGetProxiesDuration,
            sl_selected = px_Name (h proxy), sl_providers = providers\<rparr>))"

definition selectedProxy ::
  "'p ProxyProvider \<Rightarrow> proxy_heap \<Rightarrow> bool \<Rightarrow> int \<Rightarrow> 'p Selector \<Rightarrow> nat go option \<times> 'p Selector" where
  "selectedProxy P h touch now s =
     (let fn = (\<lambda>providers.
            let (proxies, providers) = getProvidersProxies P touch now providers in
            (Some (case find (\<lambda>proxy. px_Name (h proxy) = sl_selected s) proxies of
                     Some proxy \<Rightarrow> Inr proxy
                   | None \<Rightarrow> go_first proxies), providers));
          (elm, sg, providers) = single_Do now fn (sl_single s, sl_providers s)
      in (elm, s\<lparr>sl_single := sg, sl_providers := providers\<rparr>))"

definition Selector_Set ::
  "'p ProxyProvider \<Rightarrow> proxy_heap \<Rightarrow> int \<Rightarrow> string \<Rightarrow> 'p Selector \<Rightarrow> string option \<times> 'p Selector" where
  "Selector_Set P h now name s =
     (if list_ex (\<lambda>proxy. px_Name (h proxy) = name) (fst (getProvidersProxies P False now (sl_providers s)))
      then (None, s\<lparr>sl_selected := name, sl_single := single_Reset (sl_single s)\<rparr>)
      else (Some ''proxy not exist'', s))"

text \<open>A step that may panic or wait, followed by another.\<close>

definition wait_bind :: "'a go option \<times> 's \<Rightarrow> ('a \<Rightarrow> 's \<Rightarrow> 'b go option \<times> 's) \<Rightarrow> 'b go option \<times> 's" where
  "wait_bind r f = (case r of
     (None, s) \<Rightarrow> (None, s)
   | (Some (Inl pn), s) \<Rightarrow> (Some (Inl pn), s)
   | (Some (Inr a), s) \<Rightarrow> f a s)"

definition Selector_Now :: "'p ProxyProvider \<Rightarrow> proxy_heap \<Rightarrow> int \<Rightarrow> 'p Selector \<Rightarrow> string go option \<times> 'p Selector" where
  "Selector_Now P h now s = wait_bind (selectedProxy P h False now s) (\<lambda>p s. (Some (Inr (px_Name (h p))), s))"

definition Selector_SupportUDP ::
  "'p ProxyProvider \<Rightarrow> proxy_heap \<Rightarrow> int \<Rightarrow> 'p Selector \<Rightarrow> bool go option \<times> 'p Selector" where
  "Selector_SupportUDP P h now s =
     (if sl_disableUDP s then (Some (Inr False), s)
      else wait_bind (selectedProxy P h False now s) (\<lambda>p s. (Some (Inr (px_SupportUDP (h p))), s)))"

text \<open>
  Dialling through a group: the proxy dials, and the group's name is appended to the chain.
\<close>

definition dial_through ::
  "'w proxy_net \<Rightarrow> string \<Rightarrow> nat \<Rightarrow> Metadata \<Rightarrow> proxy_heap \<times> 'w \<Rightarrow> (string + Chain) \<times> proxy_heap \<times> 'w" where
  "dial_through net name p m hw =
     (case Proxy_DialContext net p m hw of (res, hw) \<Rightarrow>
        (case res of Inl err \<Rightarrow> Inl err | Inr chain \<Rightarrow> Inr (chain @ [name]), hw))"

definition Selector_DialContext ::
  "'p ProxyProvider \<Rightarrow> 'w proxy_net \<Rightarrow> Metadata \<Rightarrow> 'p Selector \<times> proxy_heap \<times> 'w \<Rightarrow>
     (string + Chain) go option \<times> 'p Selector \<times> proxy_heap \<times> 'w" where
  "Selector_DialContext P net m st =
     (case st of (s, h, w) \<Rightarrow>
        case selectedProxy P h True (pn_now net w) s of
          (None, s) \<Rightarrow> (None, s, h, w)
        | (Some (Inl pn), s) \<Rightarrow> (Some (Inl pn), s, h, w)
        | (Some (Inr p), s) \<Rightarrow>
            (case dial_through net (sl_name s) p m (h, w) of (res, hw) \<Rightarrow> (Some (Inr res), s, hw)))"

section \<open>The list of a group\<close>

text \<open>What the other groups share: providers and the list asked for last.\<close>

record 'p group =
  gr_name :: string
  gr_disableUDP :: bool
  gr_single :: "nat list Single"
  gr_providers :: "'p list"

definition group_proxies ::
  "'p ProxyProvider \<Rightarrow> bool \<Rightarrow> int \<Rightarrow> ('p, 'x) group_scheme \<Rightarrow> nat list go option \<times> ('p, 'x) group_scheme" where
  "group_proxies P touch now g =
     (let (elm, sg, providers) =
            single_Do now (\<lambda>providers. let (l, providers) = getProvidersProxies P touch now providers in (Some (Inr l), providers))
              (gr_single g, gr_providers g)
      in (elm, g\<lparr>gr_single := sg, gr_providers := providers\<rparr>))"

section \<open>Fallback\<close>

definition NewFallback :: "string \<Rightarrow> bool \<Rightarrow> 'p list \<Rightarrow> 'p group" where
  "NewFallback name disableUDP providers =
     \<lparr>gr_name = name, gr_disableUDP = disableUDP, gr_single = NewSingle defaultGetProxiesDuration,
      gr_providers = providers\<rparr>"

definition findAliveProxy ::
  "'p ProxyProvider \<Rightarrow> proxy_heap \<Rightarrow> bool \<Rightarrow> int \<Rightarrow> 'p group \<Rightarrow> nat go option \<times> 'p group" where
  "findAliveProxy P h touch now f =
     wait_bind (group_proxies P touch now f) (\<lambda>proxies f.
       case find (\<lambda>proxy. px_alive (h proxy)) proxies of
         Some proxy \<Rightarrow> (Some (Inr proxy), f)
       | None \<Rightarrow> (Some (go_first proxies), f))"


section \<open>URLTest\<close>

record 'p urltest = "'p group" +
  ut_tolerance :: "16 word"
  ut_fastNode :: "nat option"
  ut_fastSingle :: "nat Single"

definition NewURLTest :: "string \<Rightarrow> bool \<Rightarrow> 16 word \<Rightarrow> 'p list \<Rightarrow> 'p urltest" where
  "NewURLTest name disableUDP tolerance providers =
     \<lparr>gr_name = name, gr_disableUDP = disableUDP, gr_single = NewSingle defaultGetProxiesDuration,
      gr_providers = providers, ut_tolerance = tolerance, ut_fastNode = None,
      ut_fastSingle = NewSingle (10 * 1000000000)\<rparr>"

text \<open>The loop over \<open>proxies[1:]\<close>.\<close>

fun fast_loop :: "proxy_heap \<Rightarrow> nat option \<Rightarrow> nat list \<Rightarrow> nat \<times> 16 word \<times> bool \<Rightarrow> nat \<times> 16 word \<times> bool" where
  "fast_loop h fastNode [] acc = acc"
| "fast_loop h fastNode (proxy # proxies) (fast, least, fastNotExist) =
     (let fastNotExist = (case fastNode of
            Some node \<Rightarrow> if px_Name (h proxy) = px_Name (h node) then False else fastNotExist
          | None \<Rightarrow> fastNotExist) in
      if \<not> px_alive (h proxy) then fast_loop h fastNode proxies (fast, least, fastNotExist)
      else let delay = LastDelay (h proxy) in
        if delay < least then fast_loop h fastNode proxies (proxy, delay, fastNotExist)
        else fast_loop h fastNode proxies (fast, least, fastNotExist))"

definition choose_fast :: "proxy_heap \<Rightarrow> 16 word \<Rightarrow> nat option \<Rightarrow> nat list \<Rightarrow> nat go" where
  "choose_fast h tolerance fastNode proxies =
     (case proxies of
        [] \<Rightarrow> Inl IndexOutOfRange
      | p0 # rest \<Rightarrow>
          (case fast_loop h fastNode rest (p0, LastDelay (h p0), True) of
             (fast, least, fastNotExist) \<Rightarrow>
               Inr (case fastNode of
                      None \<Rightarrow> fast
                    | Some node \<Rightarrow>
                        if fastNotExist \<or> \<not> px_alive (h node) \<or>
                           LastDelay (h fast) + tolerance < LastDelay (h node)
                        then fast else node)))"

definition urltest_fast ::
  "'p ProxyProvider \<Rightarrow> proxy_heap \<Rightarrow> bool \<Rightarrow> int \<Rightarrow> 'p urltest \<Rightarrow> nat go option \<times> 'p urltest" where
  "urltest_fast P h touch now u =
     (let fn = (\<lambda>u. wait_bind (group_proxies P touch now u) (\<lambda>proxies u.
            case choose_fast h (ut_tolerance u) (ut_fastNode u) proxies of
              Inl pn \<Rightarrow> (Some (Inl pn), u)
            | Inr node \<Rightarrow> (Some (Inr node), u\<lparr>ut_fastNode := Some node\<rparr>)));
          (elm, sg, u) = single_Do now fn (ut_fastSingle u, u)
      in (elm, u\<lparr>ut_fastSingle := sg\<rparr>))"

section \<open>Load balance\<close>

datatype strategyFn = ConsistentHashing | RoundRobin nat

record 'p loadbalance = "'p group" +
  lb_strategy :: strategyFn

text \<open>\<open>psl\<close> is \<open>publicsuffix.EffectiveTLDPlusOne\<close>.\<close>

definition getKey :: "(string \<Rightarrow> string + string) \<Rightarrow> Metadata \<Rightarrow> string" where
  "getKey psl m =
     (let dst = (case md_DstIP m of None \<Rightarrow> [] | Some ip \<Rightarrow> ip_string ip) in
      if md_Host m \<noteq> [] then
        (if parse_ip (md_Host m) \<noteq> None then md_Host m
         else case psl (md_Host m) of Inr etld \<Rightarrow> etld | Inl err \<Rightarrow> dst)
      else dst)"

fun rr_loop :: "proxy_heap \<Rightarrow> nat list \<Rightarrow> nat \<Rightarrow> nat \<Rightarrow> nat option \<times> nat" where
  "rr_loop h proxies 0 idx = (None, idx)"
| "rr_loop h proxies (Suc n) idx =
     (let idx = (idx + 1) mod length proxies; proxy = proxies ! idx in
      if px_alive (h proxy) then (Some proxy, idx) else rr_loop h proxies n idx)"

definition strategyRoundRobin :: "proxy_heap \<Rightarrow> nat list \<Rightarrow> nat \<Rightarrow> nat go \<times> nat" where
  "strategyRoundRobin h proxies idx =
     (case rr_loop h proxies (length proxies) idx of
        (Some proxy, idx) \<Rightarrow> (Inr proxy, idx)
      | (None, idx) \<Rightarrow> (go_first proxies, idx))"

fun ch_loop :: "proxy_heap \<Rightarrow> nat list \<Rightarrow> nat \<Rightarrow> 64 word \<Rightarrow> nat go" where
  "ch_loop h proxies 0 key = go_first proxies"
| "ch_loop h proxies (Suc i) key =
     (let idx = jumpHash key (of_nat (length proxies)) in
      if length proxies \<le> idx then Inl IndexOutOfRange
      else if px_alive (h (proxies ! idx)) then Inr (proxies ! idx)
      else ch_loop h proxies i (key + 1))"

definition strategyConsistentHashing ::
  "proxy_heap \<Rightarrow> (string \<Rightarrow> string + string) \<Rightarrow> nat list \<Rightarrow> Metadata \<Rightarrow> nat go" where
  "strategyConsistentHashing h psl proxies m =
     ch_loop h proxies 5 (ucast (Sum32 (bytes_of (getKey psl m))))"

definition NewLoadBalance :: "string \<Rightarrow> bool \<Rightarrow> 'p list \<Rightarrow> string \<Rightarrow> string + 'p loadbalance" where
  "NewLoadBalance name disableUDP providers strategy =
     (let new = (\<lambda>fn. Inr \<lparr>gr_name = name, gr_disableUDP = disableUDP,
                   gr_single = NewSingle defaultGetProxiesDuration, gr_providers = providers,
                   lb_strategy = fn\<rparr>) in
      if strategy = ''consistent-hashing'' then new ConsistentHashing
      else if strategy = ''round-robin'' then new (RoundRobin 0)
      else Inl (''unsupported strategy: '' @ strategy))"

definition lb_Unwrap ::
  "'p ProxyProvider \<Rightarrow> proxy_heap \<Rightarrow> (string \<Rightarrow> string + string) \<Rightarrow> int \<Rightarrow> Metadata \<Rightarrow> 'p loadbalance \<Rightarrow>
     nat go option \<times> 'p loadbalance" where
  "lb_Unwrap P h psl now m lb =
     wait_bind (group_proxies P True now lb) (\<lambda>proxies lb.
       case lb_strategy lb of
         ConsistentHashing \<Rightarrow> (Some (strategyConsistentHashing h psl proxies m), lb)
       | RoundRobin idx \<Rightarrow>
           (case strategyRoundRobin h proxies idx of
              (res, idx) \<Rightarrow> (Some res, lb\<lparr>lb_strategy := RoundRobin idx\<rparr>)))"


section \<open>Relay\<close>

text \<open>\<open>addrToMetadata\<close> of \<open>util.go\<close>.\<close>

definition addrToMetadata :: "string \<Rightarrow> addr_err + Metadata" where
  "addrToMetadata rawAddress =
     go_bind (split_host_port rawAddress) (\<lambda>(host, port).
       case parse_ip host of
         None \<Rightarrow> Inr (zero_metadata\<lparr>md_AddrType := AtypDomainName, md_Host := host, md_DstPort := port\<rparr>)
       | Some ip \<Rightarrow>
           (case to4 ip of
              Some ip4 \<Rightarrow> Inr (zero_metadata\<lparr>md_AddrType := AtypIPv4, md_DstIP := Some ip4, md_DstPort := port\<rparr>)
            | None \<Rightarrow> Inr (zero_metadata\<lparr>md_AddrType := AtypIPv6, md_DstIP := Some ip, md_DstPort := port\<rparr>)))"

text \<open>
  What a relay uses of adapters: \<open>Unwrap\<close>, which gives the proxy a group stands for; the
  dial of an address; \<open>StreamConn\<close>, which makes a connection through a proxy to a target
  out of one to the proxy.
\<close>

record ('w, 'c) relay_net =
  rn_Unwrap :: "nat \<Rightarrow> Metadata \<Rightarrow> 'w \<Rightarrow> nat option \<times> 'w"
  rn_Direct :: "Metadata \<Rightarrow> 'w \<Rightarrow> (string + Chain) \<times> 'w"
  rn_Dial :: "string \<Rightarrow> 'w \<Rightarrow> (string + 'c) \<times> 'w"
  rn_StreamConn :: "nat \<Rightarrow> 'c \<Rightarrow> Metadata \<Rightarrow> 'w \<Rightarrow> (string + 'c) \<times> 'w"

text \<open>\<open>None\<close>: the proxies unwrap each other without end.\<close>

partial_function (option) unwrap_all ::
  "(nat \<Rightarrow> Metadata \<Rightarrow> 'w \<Rightarrow> nat option \<times> 'w) \<Rightarrow> Metadata \<Rightarrow> nat \<Rightarrow> 'w \<Rightarrow> (nat \<times> 'w) option" where
  "unwrap_all U m p w =
     (case U p m w of (None, w) \<Rightarrow> Some (p, w) | (Some q, w) \<Rightarrow> unwrap_all U m q w)"

fun unwrap_list ::
  "(nat \<Rightarrow> Metadata \<Rightarrow> 'w \<Rightarrow> nat option \<times> 'w) \<Rightarrow> Metadata \<Rightarrow> nat list \<Rightarrow> 'w \<Rightarrow> (nat list \<times> 'w) option" where
  "unwrap_list U m [] w = Some ([], w)"
| "unwrap_list U m (p # ps) w =
     (case unwrap_all U m p w of
        None \<Rightarrow> None
      | Some (q, w) \<Rightarrow> map_option (\<lambda>(qs, w). (q # qs, w)) (unwrap_list U m ps w))"

text \<open>
  \<open>proxies\<close> writes the unwrapped proxies into the slice it was given, and that slice is the
  one \<open>single\<close> keeps as its result.
\<close>

definition relay_proxies ::
  "'p ProxyProvider \<Rightarrow> ('w, 'c) relay_net \<Rightarrow> Metadata \<Rightarrow> bool \<Rightarrow> int \<Rightarrow> 'p group \<times> 'w \<Rightarrow>
     nat list go option \<times> 'p group \<times> 'w" where
  "relay_proxies P net m touch now s =
     (case s of (r, w) \<Rightarrow>
       wait_bind (case group_proxies P touch now r of (res, r) \<Rightarrow> (res, r, w)) (\<lambda>proxies (r, w).
         case unwrap_list (rn_Unwrap net) m proxies w of
           None \<Rightarrow> (None, r, w)
         | Some (proxies, w) \<Rightarrow>
             (Some (Inr proxies), r\<lparr>gr_single := (gr_single r)\<lparr>sg_result := Some proxies\<rparr>\<rparr>, w)))"

text \<open>The loop over \<open>proxies[1:]\<close>, with \<open>first\<close> the proxy before.\<close>

fun relay_chain ::
  "('w, 'c) relay_net \<Rightarrow> proxy_heap \<Rightarrow> nat \<Rightarrow> nat list \<Rightarrow> 'c \<Rightarrow> 'w \<Rightarrow> (string + 'c) \<times> 'w" where
  "relay_chain net h first [] c w = (Inr c, w)"
| "relay_chain net h first (proxy # proxies) c w =
     (case addrToMetadata (px_Addr (h proxy)) of
        Inl err \<Rightarrow> (Inl ''addrToMetadata failed'', w)
      | Inr currentMeta \<Rightarrow>
          (case rn_StreamConn net first c currentMeta w of
             (Inl err, w) \<Rightarrow> (Inl (px_Addr (h first) @ '' connect error: '' @ err), w)
           | (Inr c, w) \<Rightarrow> relay_chain net h proxy proxies c w))"

definition relay_dial ::
  "('w, 'c) relay_net \<Rightarrow> proxy_heap \<Rightarrow> string \<Rightarrow> nat list \<Rightarrow> Metadata \<Rightarrow> 'w \<Rightarrow> (string + Chain) \<times> 'w" where
  "relay_dial net h name proxies m w =
     (let first = hd proxies; lst = last proxies in
      case rn_Dial net (px_Addr (h first)) w of
        (Inl err, w) \<Rightarrow> (Inl (px_Addr (h first) @ '' connect error: '' @ err), w)
      | (Inr c, w) \<Rightarrow>
          (case relay_chain net h first (tl proxies) c w of
             (Inl err, w) \<Rightarrow> (Inl err, w)
           | (Inr c, w) \<Rightarrow>
               (case rn_StreamConn net lst c m w of
                  (Inl err, w) \<Rightarrow> (Inl (px_Addr (h lst) @ '' connect error: '' @ err), w)
                | (Inr c, w) \<Rightarrow> (Inr [name], w))))"

definition Relay_DialContext ::
  "'p ProxyProvider \<Rightarrow> ('w, 'c) relay_net \<Rightarrow> 'w proxy_net \<Rightarrow> Metadata \<Rightarrow> 'p group \<times> proxy_heap \<times> 'w \<Rightarrow>
     (string + Chain) go option \<times> 'p group \<times> proxy_heap \<times> 'w" where
  "Relay_DialContext P rnet net m st =
     (case st of (r, h, w) \<Rightarrow>
       case relay_proxies P rnet m True (pn_now net w) (r, w) of
         (None, r, w) \<Rightarrow> (None, r, h, w)
       | (Some (Inl pn), r, w) \<Rightarrow> (Some (Inl pn), r, h, w)
       | (Some (Inr all), r, w) \<Rightarrow>
           (let proxies = filter (\<lambda>proxy. px_Type (h proxy) \<noteq> AT_Direct) all in
            case proxies of
              [] \<Rightarrow> (case rn_Direct rnet m w of (res, w) \<Rightarrow> (Some (Inr res), r, h, w))
            | [p] \<Rightarrow> (case Proxy_DialContext net p m (h, w) of (res, hw) \<Rightarrow> (Some (Inr res), r, hw))
            | _ \<Rightarrow> (case relay_dial rnet h (gr_name r) proxies m w of (res, w) \<Rightarrow> (Some (Inr res), r, h, w))))"

section \<open>The answer of a single\<close>

lemma go_first_simps [simp]: "go_first [] = Inl IndexOutOfRange" "go_first (x # xs) = Inr x"
  by (simp_all add: go_first_def)

lemma wait_bind_simps [simp]:
  "wait_bind (None, s) f = (None, s)" "wait_bind (Some (Inl pn), s) f = (Some (Inl pn), s)"
  "wait_bind (Some (Inr a), s) f = f a s"
  by (simp_all add: wait_bind_def)

lemma single_Do_fresh: "now < sg_last sg + sg_wait sg \<Longrightarrow> sg_result sg = Some v \<Longrightarrow>
    single_Do now fn (sg, st) = (Some (Inr v), sg, st)"
  by (simp add: single_Do_def)

lemma single_Do_stale: "\<not> now < sg_last sg + sg_wait sg \<Longrightarrow> \<not> sg_call sg \<Longrightarrow> fn st = (Some (Inr v), st') \<Longrightarrow>
    single_Do now fn (sg, st) = (Some (Inr v), sg\<lparr>sg_call := False, sg_result := Some v, sg_last := now\<rparr>, st')"
  by (simp add: single_Do_def)

section \<open>Selector\<close>

text \<open>The answers to a sequence of requests, each with its time.\<close>

fun select_calls ::
  "'p ProxyProvider \<Rightarrow> proxy_heap \<Rightarrow> (bool \<times> int) list \<Rightarrow> 'p Selector \<Rightarrow> nat go option list" where
  "select_calls P h [] s = []"
| "select_calls P h ((touch, now) # calls) s =
     (case selectedProxy P h touch now s of (res, s) \<Rightarrow> res # select_calls P h calls s)"

text \<open>The state a selector is in after \<open>name\<close> was set.\<close>

definition set_to :: "'p ProxyProvider \<Rightarrow> proxy_heap \<Rightarrow> string \<Rightarrow> 'p Selector \<Rightarrow> bool" where
  "set_to P h name s \<longleftrightarrow> sl_selected s = name \<and> \<not> sg_call (sl_single s) \<and>
     sg_wait (sl_single s) = defaultGetProxiesDuration \<and>
     (\<exists>p \<in> set (concat (map (pr_Proxies P) (sl_providers s))). px_Name (h p) = name) \<and>
     (sg_last (sl_single s) = zero_time \<or> (\<exists>p. sg_result (sl_single s) = Some p \<and> px_Name (h p) = name))"

context provider_laws
begin

lemma Selector_Set_ok:
  assumes "Selector_Set P h now name s = (None, s')" and "\<not> sg_call (sl_single s)"
    and "sg_wait (sl_single s) = defaultGetProxiesDuration"
  shows "set_to P h name s'"
  using assms
  by (auto simp: Selector_Set_def set_to_def single_Reset_def getProvidersProxies_list list_ex_iff
      split: if_splits)

lemma selectedProxy_set_to:
  assumes s: "set_to P h name s" and now: "zero_time + defaultGetProxiesDuration \<le> now"
  shows "\<exists>p s'. selectedProxy P h touch now s = (Some (Inr p), s') \<and> px_Name (h p) = name \<and> set_to P h name s'"
proof (cases "now < sg_last (sl_single s) + sg_wait (sl_single s)")
  case True
  then obtain p where p: "sg_result (sl_single s) = Some p" "px_Name (h p) = name"
    using s now by (auto simp: set_to_def)
  with True s show ?thesis
    by (auto simp: selectedProxy_def single_Do_fresh [OF True p(1)])
next
  case False
  let ?l = "fst (getProvidersProxies P touch now (sl_providers s))"
  let ?ps = "snd (getProvidersProxies P touch now (sl_providers s))"
  have l: "?l = concat (map (pr_Proxies P) (sl_providers s))" by (rule getProvidersProxies_list)
  have "find (\<lambda>p. px_Name (h p) = name) ?l \<noteq> None"
    using s unfolding l find_None_iff by (auto simp: set_to_def)
  then obtain p where p: "find (\<lambda>p. px_Name (h p) = name) ?l = Some p" by blast
  then have n: "px_Name (h p) = name" by (auto simp: find_Some_iff)
  have "sl_selected s = name" "\<not> sg_call (sl_single s)" using s by (simp_all add: set_to_def)
  with p False have "selectedProxy P h touch now s = (Some (Inr p),
      s\<lparr>sl_single := (sl_single s)\<lparr>sg_call := False, sg_result := Some p, sg_last := now\<rparr>,
        sl_providers := ?ps\<rparr>)"
    by (cases "getProvidersProxies P touch now (sl_providers s)") (simp add: selectedProxy_def single_Do_def)
  moreover have "concat (map (pr_Proxies P) ?ps) = concat (map (pr_Proxies P) (sl_providers s))"
    by (simp only: getProvidersProxies_keeps)
  ultimately show ?thesis using s n by (auto simp: set_to_def simp del: set_concat set_map)
qed

lemma select_calls_set_to:
  assumes "set_to P h name s" and "\<forall>(touch, now) \<in> set calls. zero_time + defaultGetProxiesDuration \<le> now"
    and "r \<in> set (select_calls P h calls s)"
  shows "\<exists>p. r = Some (Inr p) \<and> px_Name (h p) = name"
  using assms
proof (induction calls arbitrary: s)
  case (Cons c calls)
  obtain touch now where c: "c = (touch, now)" by (cases c)
  obtain p s' where "selectedProxy P h touch now s = (Some (Inr p), s')" "px_Name (h p) = name" "set_to P h name s'"
    using selectedProxy_set_to [OF Cons.prems(1), of now touch] Cons.prems(2) c by auto
  with Cons c show ?case by auto
qed simp

end


definition demo_heap :: proxy_heap where
  "demo_heap n = \<lparr>px_Name = (if n = 0 then ''a'' else if n = 1 then ''b'' else ''c''), px_Type = AT_Socks5,
     px_Addr = ''10.0.0.1:1080'', px_SupportUDP = True, px_history = [\<lparr>dh_Time = 0, dh_Delay = of_nat (100 * Suc n)\<rparr>],
     px_alive = True\<rparr>"

lemma demo_heap_alive: "px_alive (demo_heap n)"
  by (simp add: demo_heap_def)

definition demo_provider :: compatibleProvider where
  "demo_provider = \<lparr>cp_name = ''p'', cp_healthCheck = NewHealthCheck [0, 1, 2] ''http://t'' 0 True, cp_proxies = [0, 1, 2]\<rparr>"



section \<open>Round robin\<close>

text \<open>
  The index of a round robin is a position on a circle; unrolled, the next call moves to the
  next position whose proxy is alive.
\<close>

lemma rr_loop_finds:
  assumes "proxies \<noteq> []" and "pos < q" and "q \<le> pos + n" and "px_alive (h (proxies ! (q mod length proxies)))"
  shows "\<exists>q'. rr_loop h proxies n (pos mod length proxies) =
      (Some (proxies ! (q' mod length proxies)), q' mod length proxies) \<and> pos < q' \<and> q' \<le> q \<and>
      px_alive (h (proxies ! (q' mod length proxies)))"
  using assms
proof (induction n arbitrary: pos)
  case (Suc n)
  let ?len = "length proxies"
  have idx: "Suc (pos mod ?len) mod ?len = Suc pos mod ?len" by (simp add: mod_Suc_eq)
  show ?case
  proof (cases "px_alive (h (proxies ! (Suc pos mod ?len)))")
    case True
    with Suc.prems idx show ?thesis by (auto simp: Let_def intro!: exI [of _ "Suc pos"])
  next
    case False
    then have "Suc pos < q" using Suc.prems by (metis Suc_lessI)
    from Suc.IH [OF Suc.prems(1) this _ Suc.prems(4)] Suc.prems(3) obtain q' where
      "rr_loop h proxies n (Suc pos mod ?len) = (Some (proxies ! (q' mod ?len)), q' mod ?len)"
      "Suc pos < q'" "q' \<le> q" "px_alive (h (proxies ! (q' mod ?len)))" by auto
    with False idx show ?thesis by (auto simp: Let_def intro!: exI [of _ q'])
  qed
qed simp

fun rr_calls :: "proxy_heap \<Rightarrow> nat list \<Rightarrow> nat \<Rightarrow> nat \<Rightarrow> nat go list" where
  "rr_calls h proxies 0 idx = []"
| "rr_calls h proxies (Suc k) idx =
     (case strategyRoundRobin h proxies idx of (res, idx) \<Rightarrow> res # rr_calls h proxies k idx)"

lemma rr_calls_reach:
  assumes "proxies \<noteq> []" and "pos < q" and "q \<le> pos + length proxies" and "q \<le> pos + k"
    and alive: "px_alive (h (proxies ! (q mod length proxies)))"
  shows "Inr (proxies ! (q mod length proxies)) \<in> set (rr_calls h proxies k (pos mod length proxies))"
  using assms
proof (induction k arbitrary: pos)
  case (Suc k)
  let ?len = "length proxies"
  obtain q' where q': "rr_loop h proxies ?len (pos mod ?len) = (Some (proxies ! (q' mod ?len)), q' mod ?len)"
      "pos < q'" "q' \<le> q"
    using rr_loop_finds [of proxies pos q "length proxies" h] Suc.prems by auto
  show ?case
  proof (cases "q' = q")
    case True
    with q' show ?thesis by (simp add: strategyRoundRobin_def)
  next
    case False
    with q' Suc.prems have "Inr (proxies ! (q mod ?len)) \<in> set (rr_calls h proxies k (q' mod ?len))"
      by (intro Suc.IH) auto
    with q' show ?thesis by (simp add: strategyRoundRobin_def)
  qed
qed simp

text \<open>
  C17. The round robin starves no proxy: wherever the index stands, every proxy that is alive
  is chosen at least once in as many calls as the group has proxies, whichever others are dead.
\<close>

theorem roundrobin_fair:
  assumes "i < length proxies" and "px_alive (h (proxies ! i))" and "idx < length proxies"
  shows "Inr (proxies ! i) \<in> set (rr_calls h proxies (length proxies) idx)"
proof -
  let ?len = "length proxies"
  define q where "q = (if idx < i then i else i + ?len)"
  have "idx < q" "q \<le> idx + ?len" "q mod ?len = i" using assms by (auto simp: q_def)
  moreover have "proxies \<noteq> []" using assms(1) by auto
  ultimately show ?thesis using rr_calls_reach [of proxies idx q ?len h] assms by auto
qed

theorem roundrobin_fair_witness:
  "Inr 1 \<in> set (rr_calls (demo_heap(0 := (demo_heap 0)\<lparr>px_alive := False\<rparr>)) [0, 1, 2] 3 2)"
  using roundrobin_fair [of 1 "[0, 1, 2]" "demo_heap(0 := (demo_heap 0)\<lparr>px_alive := False\<rparr>)" 2]
  by (simp add: demo_heap_def numeral_3_eq_3)

section \<open>Consistent hashing\<close>

lemma ch_loop_total:
  assumes "ps \<noteq> []" and "length ps < 2 ^ 31"
  shows "\<exists>q \<in> set ps. ch_loop h ps i key = Inr q"
proof (induction i arbitrary: key)
  case 0
  with assms(1) show ?case by (cases ps) auto
next
  case (Suc i)
  have "jumpHash key (of_nat (length ps)) < length ps"
    using jumpHash_less [of "of_nat (length ps)" key] sint_of_nat32 [OF assms(2)] assms(1) by auto
  with Suc [of "key + 1"] show ?case by (auto simp: Let_def)
qed

lemma ch_loop_alive:
  assumes "ps \<noteq> []" and "length ps < 2 ^ 31" and "\<And>q. q \<in> set ps \<Longrightarrow> px_alive (h q)"
  shows "ch_loop h ps (Suc i) key = Inr (ps ! jumpHash key (of_nat (length ps)))"
proof -
  have "jumpHash key (of_nat (length ps)) < length ps"
    using jumpHash_less [of "of_nat (length ps)" key] sint_of_nat32 [OF assms(2)] assms(1) by auto
  with assms(3) show ?thesis by (simp add: Let_def)
qed

lemma strategy_alive:
  assumes "ps \<noteq> []" and "length ps < 2 ^ 31" and "\<And>q. q \<in> set ps \<Longrightarrow> px_alive (h q)"
  shows "strategyConsistentHashing h psl ps m =
    Inr (ps ! jumpHash (ucast (Sum32 (bytes_of (getKey psl m)))) (of_nat (length ps)))"
proof -
  have "(5 :: nat) = Suc 4" by simp
  then show ?thesis unfolding strategyConsistentHashing_def using ch_loop_alive [OF assms] by (simp only:)
qed

text \<open>
  Consistent hashing names a proxy of the list for every target, whichever proxies are
  dead, and while all are alive a proxy added at the end only takes targets over: a target
  that does not move to it stays where it was.
\<close>

theorem consistent_hashing_stable:
  assumes "ps \<noteq> []" and "Suc (length ps) < 2 ^ 31"
  shows "(\<exists>q \<in> set ps. strategyConsistentHashing h psl ps m = Inr q) \<and>
    ((\<forall>q \<in> set (ps @ [p]). px_alive (h q)) \<longrightarrow>
       strategyConsistentHashing h psl (ps @ [p]) m \<in> {strategyConsistentHashing h psl ps m, Inr p})"
proof (intro conjI impI)
  show "\<exists>q \<in> set ps. strategyConsistentHashing h psl ps m = Inr q"
    unfolding strategyConsistentHashing_def using assms by (intro ch_loop_total) auto
next
  assume alive: "\<forall>q \<in> set (ps @ [p]). px_alive (h q)"
  let ?key = "ucast (Sum32 (bytes_of (getKey psl m))) :: 64 word"
  let ?n = "length ps"
  have old: "strategyConsistentHashing h psl ps m = Inr (ps ! jumpHash ?key (of_nat ?n))"
    using assms alive by (intro strategy_alive) auto
  have "strategyConsistentHashing h psl (ps @ [p]) m = Inr ((ps @ [p]) ! jumpHash ?key (of_nat (length (ps @ [p]))))"
    using assms alive by (intro strategy_alive) auto
  then have new: "strategyConsistentHashing h psl (ps @ [p]) m = Inr ((ps @ [p]) ! jumpHash ?key (of_nat (Suc ?n)))"
    by (simp only: length_append_singleton)
  have "jumpHash ?key (of_nat ?n) < ?n"
    using jumpHash_less [of "of_nat ?n" ?key] sint_of_nat32 [of ?n] assms by auto
  with jumpHash_Suc [of ?n ?key] assms old new
  show "strategyConsistentHashing h psl (ps @ [p]) m \<in> {strategyConsistentHashing h psl ps m, Inr p}"
    by (auto simp: nth_append)
qed

theorem consistent_hashing_stable_witness:
  "strategyConsistentHashing demo_heap Inl [0, 1, 2] (zero_metadata\<lparr>md_Host := ''h''\<rparr>) \<in>
     {strategyConsistentHashing demo_heap Inl [0, 1] (zero_metadata\<lparr>md_Host := ''h''\<rparr>), Inr 2}"
proof -
  have l: "[0, 1 :: nat] \<noteq> []" "Suc (length [0, 1 :: nat]) < 2 ^ 31" by simp_all
  have "\<forall>q \<in> set ([0, 1] @ [2]). px_alive (demo_heap q)" using demo_heap_alive by blast
  from consistent_hashing_stable [OF l, THEN conjunct2, THEN mp, OF this]
  show ?thesis unfolding append_Cons append_Nil .
qed


section \<open>URLTest\<close>

lemma fast_loop_spec:
  assumes "fast_loop h fastNode ps (f0, LastDelay (h f0), b0) = (f, l, b)"
  shows "f \<in> set (f0 # ps)" and "l = LastDelay (h f)" and "l \<le> LastDelay (h f0)"
    and "\<forall>q \<in> set ps. px_alive (h q) \<longrightarrow> l \<le> LastDelay (h q)"
    and "fastNode = Some node \<Longrightarrow> \<not> b \<Longrightarrow> b0 \<Longrightarrow> px_Name (h node) \<in> (\<lambda>q. px_Name (h q)) ` set ps"
    and "fastNode = Some node \<Longrightarrow> b0 \<Longrightarrow> px_Name (h node) \<notin> (\<lambda>q. px_Name (h q)) ` set ps \<Longrightarrow> b"
proof -
  have "f \<in> set (f0 # ps) \<and> l = LastDelay (h f) \<and> l \<le> LastDelay (h f0) \<and>
    (\<forall>q \<in> set ps. px_alive (h q) \<longrightarrow> l \<le> LastDelay (h q)) \<and>
    (\<forall>node. fastNode = Some node \<longrightarrow> b = (b0 \<and> px_Name (h node) \<notin> (\<lambda>q. px_Name (h q)) ` set ps))"
    using assms
  proof (induction ps arbitrary: f0 b0)
    case (Cons p ps)
    define b1 where "b1 = (case fastNode of Some node \<Rightarrow> if px_Name (h p) = px_Name (h node) then False else b0 | None \<Rightarrow> b0)"
    show ?case
    proof (cases "px_alive (h p) \<and> LastDelay (h p) < LastDelay (h f0)")
      case True
      with Cons.prems have "fast_loop h fastNode ps (p, LastDelay (h p), b1) = (f, l, b)"
        by (simp add: b1_def Let_def)
      from Cons.IH [OF this] True show ?thesis by (auto simp: b1_def)
    next
      case False
      with Cons.prems have "fast_loop h fastNode ps (f0, LastDelay (h f0), b1) = (f, l, b)"
        by (cases fastNode) (auto simp: b1_def Let_def split: if_splits)
      from Cons.IH [OF this] False show ?thesis by (auto simp: b1_def)
    qed
  qed simp
  then show "f \<in> set (f0 # ps)" "l = LastDelay (h f)" "l \<le> LastDelay (h f0)"
    "\<forall>q \<in> set ps. px_alive (h q) \<longrightarrow> l \<le> LastDelay (h q)"
    "fastNode = Some node \<Longrightarrow> \<not> b \<Longrightarrow> b0 \<Longrightarrow> px_Name (h node) \<in> (\<lambda>q. px_Name (h q)) ` set ps"
    "fastNode = Some node \<Longrightarrow> b0 \<Longrightarrow> px_Name (h node) \<notin> (\<lambda>q. px_Name (h q)) ` set ps \<Longrightarrow> b"
    by auto
qed

text \<open>
  What a URLTest group settles on: the fastest of its proxies (no proxy that is alive
  has a smaller delay), or the proxy it held before, when that is alive, is among the proxies
  behind the first, and is slower than the fastest by no more than the tolerance, added in 16
  bits.
\<close>

theorem choose_fast_spec:
  assumes "choose_fast h tolerance fastNode (p # ps) = Inr node"
  shows "\<exists>fast \<in> set (p # ps). (\<forall>q \<in> set (p # ps). px_alive (h q) \<longrightarrow> LastDelay (h fast) \<le> LastDelay (h q)) \<and>
    (node = fast \<or> fastNode = Some node \<and> px_alive (h node) \<and>
       px_Name (h node) \<in> (\<lambda>q. px_Name (h q)) ` set ps \<and>
       LastDelay (h node) \<le> LastDelay (h fast) + tolerance)"
proof -
  obtain f l b where l: "fast_loop h fastNode ps (p, LastDelay (h p), True) = (f, l, b)" by (metis prod_cases3)
  note s = fast_loop_spec [OF l]
  have "node = f \<or> fastNode = Some node \<and> \<not> b \<and> px_alive (h node) \<and> LastDelay (h node) \<le> LastDelay (h f) + tolerance"
    using assms l by (auto simp: choose_fast_def not_less split: option.splits if_splits)
  with s(1-4) s(5) [of node] show ?thesis by (intro bexI [of _ f]) auto
qed

text \<open>
  The tolerance does not hold for the first proxy: the loop that looks for the current
  choice leaves out the head of the list.  While the first proxy is the choice, and no other
  bears its name, the group settles anew on every evaluation, whatever the tolerance.
\<close>

theorem urltest_first_flaps:
  assumes "px_Name (h p) \<notin> (\<lambda>q. px_Name (h q)) ` set ps"
  shows "choose_fast h tolerance (Some p) (p # ps) =
    (case fast_loop h (Some p) ps (p, LastDelay (h p), True) of (fast, _, _) \<Rightarrow> Inr fast)"
proof -
  obtain f l b where l: "fast_loop h (Some p) ps (p, LastDelay (h p), True) = (f, l, b)" by (metis prod_cases3)
  have b using fast_loop_spec(6) [OF l refl TrueI assms] .
  with l show ?thesis by (simp add: choose_fast_def)
qed

definition slow_first :: proxy_heap where
  "slow_first = demo_heap(0 := (demo_heap 0)\<lparr>px_history := [\<lparr>dh_Time = 0, dh_Delay = 210\<rparr>]\<rparr>)"

theorem choose_fast_spec_witness:
  "choose_fast slow_first 50 None [0, 1, 2] = Inr 1 \<and> LastDelay (slow_first 1) \<le> LastDelay (slow_first 0)"
proof -
  have c: "choose_fast slow_first 50 None [0, 1, 2] = Inr 1" by code_simp
  have a: "px_alive (slow_first 0)" "LastDelay (slow_first 0) = 210" "LastDelay (slow_first 1) = 200"
    "LastDelay (slow_first 2) = 300" by code_simp+
  with choose_fast_spec [OF c] show ?thesis using c by auto
qed

theorem urltest_first_flaps_witness:
  "choose_fast slow_first 50 (Some 0) [0, 1, 2] = Inr 1 \<and> choose_fast slow_first 50 (Some 2) [1, 0, 2] = Inr 1 \<and>
     choose_fast slow_first 50 (Some 0) [1, 0, 2] = Inr 0"
proof -
  have n: "px_Name (slow_first 0) \<notin> (\<lambda>q. px_Name (slow_first q)) ` set [1, 2]" by code_simp
  have l: "fast_loop slow_first (Some 0) [1, 2] (0, LastDelay (slow_first 0), True) = (1, 200, True)" by code_simp
  have "choose_fast slow_first 50 (Some 0) [0, 1, 2] = Inr 1"
    using urltest_first_flaps [OF n, of 50] unfolding l by simp
  moreover have "choose_fast slow_first 50 (Some 2) [1, 0, 2] = Inr 1" by code_simp
  moreover have "choose_fast slow_first 50 (Some 0) [1, 0, 2] = Inr 0" by code_simp
  ultimately show ?thesis by blast
qed

section \<open>Relay\<close>

text \<open>
  A relay of one load-balancing group, proxy 3, that stands for proxy 0 or 1 depending on the
  target.
\<close>

definition demo_rnet :: "(unit, unit) relay_net" where
  "demo_rnet = \<lparr>rn_Unwrap = (\<lambda>p m w. (if p = 3 then Some (if md_Host m = ''x'' then 0 else 1) else None, w)),
     rn_Direct = (\<lambda>m w. (Inr [], w)), rn_Dial = (\<lambda>a w. (Inr (), w)), rn_StreamConn = (\<lambda>p c m w. (Inr (), w))\<rparr>"

lemma unwrap_demo: "unwrap_all (rn_Unwrap demo_rnet) m p w =
    Some (if p = 3 then if md_Host m = ''x'' then 0 else 1 else p, w)"
  by (subst unwrap_all.simps, subst unwrap_all.simps) (simp add: demo_rnet_def)

text \<open>
  A relay writes the proxies it unwrapped into the list it shares with \<open>single\<close>: for the
  five seconds the list is kept, connections go through the proxies the first target was
  given.  Here the target \<open>y\<close>, whose proxy is 1, is sent through proxy 0 because \<open>x\<close> was
  dialled a second before.
\<close>

lemma relay_keeps_first_target:
  "let r = NewFallback ''relay'' False [demo_provider\<lparr>cp_proxies := [3]\<rparr>];
       x = zero_metadata\<lparr>md_Host := ''x''\<rparr>; y = zero_metadata\<lparr>md_Host := ''y''\<rparr>;
       (r', _) = snd (relay_proxies compatible demo_rnet x True 0 (r, ()))
   in fst (relay_proxies compatible demo_rnet y True 0 (r, ())) = Some (Inr [1]) \<and>
      fst (relay_proxies compatible demo_rnet y True 1000000000 (r', ())) = Some (Inr [0])"
  by (simp add: relay_proxies_def group_proxies_def NewFallback_def single_Do_def NewSingle_def zero_time_def
      defaultGetProxiesDuration_def compatible_def cp_ProxiesWithTouch_def cp_Proxies_def unwrap_demo zero_metadata_def)

section \<open>Fallback\<close>

text \<open>A fallback that asks its providers takes the first proxy that is alive, or else the first.\<close>

lemma findAliveProxy_asks:
  assumes "\<not> now < sg_last (gr_single f) + sg_wait (gr_single f)" and "\<not> sg_call (gr_single f)"
    and "concat (map cp_proxies (gr_providers f)) = pre @ p # post"
    and "\<forall>q \<in> set pre. \<not> px_alive (h q)" and "px_alive (h p)"
  shows "fst (findAliveProxy compatible h touch now f) = Some (Inr p)"
proof -
  obtain l ps where g: "getProvidersProxies compatible touch now (gr_providers f) = (l, ps)" by fastforce
  then have "l = pre @ p # post"
    using compat.getProvidersProxies_list [of touch now "gr_providers f"] assms(3)
    by (simp add: compatible_def cp_Proxies_def [abs_def])
  moreover have "find (\<lambda>p. px_alive (h p)) (pre @ p # post) = Some p"
    using assms(4,5) by (induction pre) auto
  ultimately show ?thesis
    using assms(1,2) g by (simp add: findAliveProxy_def group_proxies_def single_Do_def)
qed

end
