(* ===== verification/ClashSocks.thy ===== *)
theory ClashSocks
  imports GoNet
begin

text \<open>
  \<open>transport/socks5/socks5.go\<close>: the SOCKS5 protocol of RFC 1928 from both sides, with the
  password negotiation of RFC 1929, the addresses it carries and the framing of UDP packets.
\<close>

section \<open>A connection\<close>

text \<open>
  A connection has the bytes that arrive before its peer closes, the bytes written to it, and
  the number of writes that still go through: a later one fails.
\<close>

record sock =
  sk_in :: bytes
  sk_out :: bytes
  sk_room :: nat

datatype socks_err =
    ErrRead | ErrWrite
  | ErrAuth
  | ErrSocks nat
  | ErrMsg string
  | ErrShortBuffer

abbreviation (input) ErrCommandNotSupported :: socks_err where "ErrCommandNotSupported \<equiv> ErrSocks 7"
abbreviation (input) ErrAddressNotSupported :: socks_err where "ErrAddressNotSupported \<equiv> ErrSocks 8"

type_synonym 'a sock_io = "sock \<Rightarrow> (socks_err + 'a) \<times> sock"

definition sk_return :: "'a \<Rightarrow> 'a sock_io" where
  "sk_return a c = (Inr a, c)"

definition sk_fail :: "socks_err \<Rightarrow> 'a sock_io" where
  "sk_fail e c = (Inl e, c)"

definition sk_bind :: "'a sock_io \<Rightarrow> ('a \<Rightarrow> 'b sock_io) \<Rightarrow> 'b sock_io" where
  "sk_bind m f c = (case m c of (Inl e, c) \<Rightarrow> (Inl e, c) | (Inr a, c) \<Rightarrow> f a c)"

text \<open>\<open>io.ReadFull\<close>; on a short read the bytes are consumed and the read fails.\<close>

definition sk_read :: "nat \<Rightarrow> bytes sock_io" where
  "sk_read n c =
     (case read_full n (sk_in c) of
        None \<Rightarrow> (Inl ErrRead, c\<lparr>sk_in := []\<rparr>)
      | Some (x, r) \<Rightarrow> (Inr x, c\<lparr>sk_in := r\<rparr>))"

definition sk_write :: "bytes \<Rightarrow> unit sock_io" where
  "sk_write bs c =
     (if sk_room c = 0 then (Inl ErrWrite, c)
      else (Inr (), c\<lparr>sk_out := sk_out c @ bs, sk_room := sk_room c - 1\<rparr>))"

text \<open>A write whose error is dropped, before the error \<open>e\<close> is returned.\<close>

definition sk_write_fail :: "bytes \<Rightarrow> socks_err \<Rightarrow> 'a sock_io" where
  "sk_write_fail bs e c = (Inl e, snd (sk_write bs c))"

section \<open>Addresses\<close>

text \<open>
  An address is its bytes: a type, the host, a port of two bytes.  Indexing and slicing past
  the end panic (a slice's capacity is taken to be its length).
\<close>

type_synonym Addr = bytes

definition port16 :: "byte \<Rightarrow> byte \<Rightarrow> nat" where
  "port16 hi lo = unat hi * 256 + unat lo"

definition Addr_String :: "Addr \<Rightarrow> string go" where
  "Addr_String a =
     (let fixed = (\<lambda>n. if length a < 1 + n + 2 then Inl IndexOutOfRange
                       else Inr (ip_string (take n (drop 1 a)), itoa (port16 (a ! (1 + n)) (a ! (2 + n))))) in
      go_bind
        (if length a = 0 then Inl IndexOutOfRange
         else if a ! 0 = 3 then
           (if length a < 2 then Inl IndexOutOfRange
            else let hostLen = unat (a ! 1) in
              if length a < 2 + hostLen + 2 then Inl IndexOutOfRange
              else Inr (string_of (take hostLen (drop 2 a)), itoa (port16 (a ! (2 + hostLen)) (a ! (3 + hostLen)))))
         else if a ! 0 = 1 then fixed 4
         else if a ! 0 = 4 then fixed 16
         else Inr ([], []))
        (\<lambda>(host, port). Inr (join_host_port host port)))"

definition Addr_UDPAddr :: "Addr \<Rightarrow> (bytes \<times> nat) option go" where
  "Addr_UDPAddr a =
     (let fixed = (\<lambda>n. if length a < 1 + n + 2 then Inl IndexOutOfRange
                       else Inr (Some (take n (drop 1 a), port16 (a ! (1 + n)) (a ! (2 + n))))) in
      if length a = 0 then Inr None
      else if a ! 0 = 1 then fixed 4
      else if a ! 0 = 4 then fixed 16
      else Inr None)"

definition MaxAddrLen :: nat where
  "MaxAddrLen = 1 + 1 + 255 + 2"

text \<open>
  The buffer the addresses are read into has \<open>len b\<close> bytes.  On a read error the source
  returns the part of the buffer that was meant to be filled beside the error; no caller
  looks at it.
\<close>

definition ReadAddr :: "nat \<Rightarrow> Addr sock_io" where
  "ReadAddr len_b =
     (if len_b < MaxAddrLen then sk_fail ErrShortBuffer
      else sk_bind (sk_read 1) (\<lambda>t.
        if t ! 0 = 3 then
          sk_bind (sk_read 1) (\<lambda>l.
            sk_bind (sk_read (unat (l ! 0) + 2)) (\<lambda>r. sk_return (t @ l @ r)))
        else if t ! 0 = 1 then sk_bind (sk_read (4 + 2)) (\<lambda>r. sk_return (t @ r))
        else if t ! 0 = 4 then sk_bind (sk_read (16 + 2)) (\<lambda>r. sk_return (t @ r))
        else sk_fail ErrAddressNotSupported))"

definition SplitAddr :: "bytes \<Rightarrow> Addr option" where
  "SplitAddr b =
     (let cut = (\<lambda>addrLen. if length b < addrLen then None else Some (take addrLen b)) in
      if length b < 1 then None
      else if b ! 0 = 3 then (if length b < 2 then None else cut (1 + 1 + unat (b ! 1) + 2))
      else if b ! 0 = 1 then cut (1 + 4 + 2)
      else if b ! 0 = 4 then cut (1 + 16 + 2)
      else None)"

definition port_bytes :: "nat \<Rightarrow> bytes" where
  "port_bytes n = [of_nat (n div 256), of_nat n]"

definition ParseAddr :: "string \<Rightarrow> Addr option" where
  "ParseAddr s =
     (case split_host_port s of
        Inl err \<Rightarrow> None
      | Inr (host, port) \<Rightarrow>
          (let addr = (case parse_ip host of
                 Some ip \<Rightarrow> (case to4 ip of Some ip4 \<Rightarrow> Some (1 # ip4) | None \<Rightarrow> Some (4 # ip))
               | None \<Rightarrow> if 255 < length host then None
                         else Some (3 # of_nat (length host) # bytes_of host)) in
           case addr of
             None \<Rightarrow> None
           | Some addr \<Rightarrow>
               (case parse_uint 16 port of
                  Inl err \<Rightarrow> None
                | Inr portnum \<Rightarrow> Some (addr @ port_bytes portnum))))"

text \<open>\<open>net.Addr\<close>: a UDP or TCP address with its fields, or another kind with its text.\<close>

datatype net_addr = NetUDPAddr "bytes option" nat | NetTCPAddr "bytes option" nat | NetOther string

definition net_addr_string :: "net_addr \<Rightarrow> string" where
  "net_addr_string a =
     (let s = (\<lambda>ip port. join_host_port (case ip of None \<Rightarrow> [] | Some i \<Rightarrow> ip_string i) (itoa port)) in
      case a of NetUDPAddr ip port \<Rightarrow> s ip port | NetTCPAddr ip port \<Rightarrow> s ip port | NetOther t \<Rightarrow> t)"

definition ParseAddrToSocksAddr :: "net_addr \<Rightarrow> Addr option" where
  "ParseAddrToSocksAddr addr =
     (let (hostip, port) = (case addr of
            NetUDPAddr ip port \<Rightarrow> (ip, port) | NetTCPAddr ip port \<Rightarrow> (ip, port) | NetOther t \<Rightarrow> (None, 0)) in
      case hostip of
        None \<Rightarrow> ParseAddr (net_addr_string addr)
      | Some ip \<Rightarrow>
          (case to4 ip of
             Some ip4 \<Rightarrow> Some (1 # ip4 @ port_bytes port)
           | None \<Rightarrow> Some (4 # take 16 (ip @ replicate 16 0) @ port_bytes port)))"

section \<open>UDP packets\<close>

definition DecodeUDPPacket :: "bytes \<Rightarrow> string option \<times> Addr option \<times> bytes" where
  "DecodeUDPPacket packet =
     (if length packet < 5 then (Some ''insufficient length of packet'', None, [])
      else if take 2 packet \<noteq> [0, 0] then (Some ''reserved fields should be zero'', None, [])
      else if packet ! 2 \<noteq> 0 then (Some ''discarding fragmented payload'', None, [])
      else case SplitAddr (drop 3 packet) of
        None \<Rightarrow> (Some ''failed to read UDP header'', None, drop 3 packet)
      | Some addr \<Rightarrow> (None, Some addr, drop (3 + length addr) packet))"

definition EncodeUDPPacket :: "Addr option \<Rightarrow> bytes \<Rightarrow> string + bytes" where
  "EncodeUDPPacket addr payload =
     (case addr of
        None \<Rightarrow> Inl ''address is invalid''
      | Some a \<Rightarrow> Inr ([0, 0, 0] @ a @ payload))"

section \<open>Handshakes\<close>

text \<open>The password negotiation of the server; \<open>verify\<close> is the authenticator's.\<close>

definition server_auth :: "(string \<Rightarrow> string \<Rightarrow> bool) \<Rightarrow> unit sock_io" where
  "server_auth verify =
     sk_bind (sk_write [5, 2]) (\<lambda>_.
     sk_bind (sk_read 2) (\<lambda>header.
       let userLen = unat (header ! 1) in
       if userLen \<le> 0 then sk_write_fail [1, 1] ErrAuth
       else
         sk_bind (sk_read userLen) (\<lambda>user.
         sk_bind (sk_read 1) (\<lambda>header.
           let passLen = unat (header ! 0) in
           if passLen \<le> 0 then sk_write_fail [1, 1] ErrAuth
           else
             sk_bind (sk_read passLen) (\<lambda>pass.
               if \<not> verify (string_of user) (string_of pass) then sk_write_fail [1, 1] ErrAuth
               else sk_write [1, 0])))))"

definition ServerHandshake ::
  "(string \<Rightarrow> string \<Rightarrow> bool) option \<Rightarrow> string \<Rightarrow> (Addr \<times> byte) sock_io" where
  "ServerHandshake authenticator local =
     sk_bind (sk_read 2) (\<lambda>buf.
     sk_bind (sk_read (unat (buf ! 1))) (\<lambda>methods.
     sk_bind (case authenticator of Some verify \<Rightarrow> server_auth verify | None \<Rightarrow> sk_write [5, 0]) (\<lambda>_.
     sk_bind (sk_read 3) (\<lambda>buf.
       let command = buf ! 1 in
       sk_bind (ReadAddr MaxAddrLen) (\<lambda>addr.
         if command = 1 \<or> command = 3 then
           (case ParseAddr local of
              None \<Rightarrow> sk_fail ErrAddressNotSupported
            | Some localAddr \<Rightarrow> sk_bind (sk_write ([5, 0, 0] @ localAddr)) (\<lambda>_. sk_return (addr, command)))
         else sk_fail ErrCommandNotSupported)))))"

record socks_user =
  us_Username :: string
  us_Password :: string

definition auth_message :: "socks_user \<Rightarrow> bytes" where
  "auth_message u =
     [1] @ [of_nat (length (us_Username u))] @ bytes_of (us_Username u) @
     [of_nat (length (us_Password u))] @ bytes_of (us_Password u)"

definition ClientHandshake :: "Addr \<Rightarrow> byte \<Rightarrow> socks_user option \<Rightarrow> Addr sock_io" where
  "ClientHandshake addr command user =
     sk_bind (sk_write (if user \<noteq> None then [5, 1, 2] else [5, 1, 0])) (\<lambda>_.
     sk_bind (sk_read 2) (\<lambda>buf.
       if buf ! 0 \<noteq> 5 then sk_fail (ErrMsg ''SOCKS version error'')
       else
         sk_bind
           (if buf ! 1 = 2 then
              (case user of
                 None \<Rightarrow> sk_fail ErrAuth
               | Some u \<Rightarrow>
                   sk_bind (sk_write (auth_message u)) (\<lambda>_.
                   sk_bind (sk_read 2) (\<lambda>buf.
                     if buf ! 1 \<noteq> 0 then sk_fail (ErrMsg ''rejected username/password'') else sk_return ())))
            else if buf ! 1 \<noteq> 0 then sk_fail (ErrMsg ''SOCKS need auth'')
            else sk_return ())
           (\<lambda>_.
         sk_bind (sk_write ([5, command, 0] @ addr)) (\<lambda>_.
         sk_bind (sk_read 3) (\<lambda>_. ReadAddr MaxAddrLen)))))"

section \<open>Running a protocol\<close>

lemma sk_bind_simps [simp]:
  "m c = (Inr a, c') \<Longrightarrow> sk_bind m f c = f a c'" "m c = (Inl e, c') \<Longrightarrow> sk_bind m f c = (Inl e, c')"
  by (simp_all add: sk_bind_def)

lemma sk_return_simp [simp]: "sk_return a c = (Inr a, c)"
  by (simp add: sk_return_def)

lemma sk_read_append: "length x = n \<Longrightarrow>
    sk_read n \<lparr>sk_in = x @ r, sk_out = os, sk_room = k\<rparr> = (Inr x, \<lparr>sk_in = r, sk_out = os, sk_room = k\<rparr>)"
  by (simp add: sk_read_def read_full_append)

lemma sk_read_few:
  "sk_read (Suc 0) \<lparr>sk_in = a # r, sk_out = os, sk_room = k\<rparr> = (Inr [a], \<lparr>sk_in = r, sk_out = os, sk_room = k\<rparr>)"
  "sk_read 2 \<lparr>sk_in = a # b # r, sk_out = os, sk_room = k\<rparr> = (Inr [a, b], \<lparr>sk_in = r, sk_out = os, sk_room = k\<rparr>)"
  "sk_read 3 \<lparr>sk_in = a # b # c # r, sk_out = os, sk_room = k\<rparr> = (Inr [a, b, c], \<lparr>sk_in = r, sk_out = os, sk_room = k\<rparr>)"
  by (simp_all add: sk_read_def read_full_def)

lemma sk_write_ok:
  "0 < k \<Longrightarrow> sk_write bs \<lparr>sk_in = i, sk_out = os, sk_room = k\<rparr> =
     (Inr (), \<lparr>sk_in = i, sk_out = os @ bs, sk_room = k - 1\<rparr>)"
  by (simp add: sk_write_def)

lemmas sk_run = sk_read_append sk_read_few sk_write_ok

lemma sk_bind_Inr: "sk_bind m f c = (Inr b, c') \<longleftrightarrow> (\<exists>a c1. m c = (Inr a, c1) \<and> f a c1 = (Inr b, c'))"
  by (auto simp: sk_bind_def split: prod.splits sum.splits)

lemma sk_bind_InrE:
  assumes "sk_bind m f c = (Inr b, c')"
  obtains a c1 where "m c = (Inr a, c1)" "f a c1 = (Inr b, c')"
  using assms by (auto simp: sk_bind_Inr)

lemma sk_two_steps:
  "sk_bind m (\<lambda>_. sk_bind f (\<lambda>_. g)) c = (Inr r, c') \<Longrightarrow>
    \<exists>x c1 u c2. m c = (Inr x, c1) \<and> f c1 = (Inr u, c2)"
  by (auto simp: sk_bind_Inr)

lemma sk_read_Inr: "sk_read n c = (Inr x, c') \<longleftrightarrow>
    length x = n \<and> sk_in c = x @ sk_in c' \<and> c' = c\<lparr>sk_in := sk_in c'\<rparr>"
  by (cases c, cases c') (auto simp: sk_read_def read_full_def split: option.splits)

lemma sk_write_Inr: "sk_write bs c = (Inr u, c') \<Longrightarrow> sk_in c' = sk_in c"
  by (auto simp: sk_write_def split: if_splits)

lemma sk_fail_Inr [simp]: "sk_fail e c \<noteq> (Inr b, c')" "sk_write_fail bs e c \<noteq> (Inr b, c')"
  by (simp_all add: sk_fail_def sk_write_fail_def)

lemma sk_guard: "(if b then sk_write_fail bs e else m) c = (Inr u, c') \<longleftrightarrow> \<not> b \<and> m c = (Inr u, c')"
  by simp

section \<open>Well-formed addresses\<close>

lemma SplitAddr_id_cases:
  assumes "SplitAddr a = Some a"
  obtains r where "a = 1 # r" "length r = 6"
    | l r where "a = 3 # l # r" "length r = unat l + 2"
    | r where "a = 4 # r" "length r = 18"
proof -
  have t: "take n a = a \<Longrightarrow> \<not> length a < n \<Longrightarrow> length a = n" for n by (metis length_take min_absorb2 not_less)
  from assms obtain h tl where a: "a = h # tl" by (cases a) (auto simp: SplitAddr_def)
  consider "h = 3" | "h = 1" | "h = 4"
    using assms a by (auto simp: SplitAddr_def Let_def split: if_splits)
  then show ?thesis
  proof cases
    case 1
    with assms a obtain l r where "tl = l # r" by (cases tl) (auto simp: SplitAddr_def)
    moreover from this assms a 1 have "length a = 1 + 1 + unat l + 2"
      by (intro t) (auto simp: SplitAddr_def Let_def split: if_splits)
    ultimately show ?thesis using a 1 that(2) by simp
  next
    case 2
    with assms a have "length a = 1 + 4 + 2" by (intro t) (auto simp: SplitAddr_def Let_def split: if_splits)
    with 2 a that(1) show ?thesis by simp
  next
    case 3
    with assms a have "length a = 1 + 16 + 2" by (intro t) (auto simp: SplitAddr_def Let_def split: if_splits)
    with 3 a that(3) show ?thesis by simp
  qed
qed

lemma SplitAddr_append: "SplitAddr a = Some a \<Longrightarrow> SplitAddr (a @ x) = Some a"
  by (erule SplitAddr_id_cases) (auto simp: SplitAddr_def Let_def)

lemma ReadAddr_wf:
  assumes "SplitAddr a = Some a"
  shows "ReadAddr MaxAddrLen \<lparr>sk_in = a @ x, sk_out = os, sk_room = k\<rparr> =
    (Inr a, \<lparr>sk_in = x, sk_out = os, sk_room = k\<rparr>)"
  using assms by (rule SplitAddr_id_cases) (simp_all add: ReadAddr_def sk_run)

lemma length_port_bytes [simp]: "length (port_bytes n) = 2"
  by (simp add: port_bytes_def)

lemma ParseAddr_wf: "ParseAddr s = Some a \<Longrightarrow> SplitAddr a = Some a"
  by (auto simp: ParseAddr_def SplitAddr_def Let_def unat_byte
      dest!: parse_ip_length to4_length split: sum.splits option.splits if_splits)

section \<open>The two sides of a handshake agree\<close>

lemma v4_string_no: "\<not> is_digit c \<Longrightarrow> c \<noteq> CHR ''.'' \<Longrightarrow> c \<notin> set (v4_string p)"
proof (induction p)
  case (Cons b p)
  then show ?case
    by (cases p) (auto simp: v4_string_def dest!: itoa_digits)
qed (simp add: v4_string_def)

lemma split_join_v4:
  "split_host_port (v4_string p @ CHR '':'' # itoa n) = Inr (v4_string p, itoa n)"
proof -
  have n: "c \<notin> set (itoa n)" if "\<not> is_digit c" for c n using that itoa_digits by blast
  have "join_host_port (v4_string p) (itoa n) = v4_string p @ CHR '':'' # itoa n"
    by (simp add: join_host_port_def v4_string_no)
  moreover have "split_host_port (join_host_port (v4_string p) (itoa n)) = Inr (v4_string p, itoa n)"
    by (rule split_join_host_port) (simp_all add: v4_string_no n is_digit_def)
  ultimately show ?thesis by simp
qed

lemma ParseAddr_v4:
  assumes "length p = 4" and "n < 65536"
  shows "ParseAddr (v4_string p @ CHR '':'' # itoa n) = Some (1 # p @ port_bytes n)"
  using assms by (simp add: ParseAddr_def split_join_v4 parse_ip_v4_string to4_mapped parse_uint_itoa)

text \<open>A user's credentials are of the form the password message can carry and the server accepts.\<close>

definition accepted :: "(string \<Rightarrow> string \<Rightarrow> bool) option \<Rightarrow> socks_user option \<Rightarrow> bool" where
  "accepted authenticator user =
     (case authenticator of
        None \<Rightarrow> True
      | Some verify \<Rightarrow>
          (case user of
             None \<Rightarrow> False
           | Some u \<Rightarrow> us_Username u \<noteq> [] \<and> length (us_Username u) < 256 \<and>
               us_Password u \<noteq> [] \<and> length (us_Password u) < 256 \<and> verify (us_Username u) (us_Password u)))"

lemma server_auth_run:
  assumes "accepted (Some verify) (Some u)"
    and "1 < k"
  shows "server_auth verify \<lparr>sk_in = auth_message u @ x, sk_out = os, sk_room = k\<rparr> =
    (Inr (), \<lparr>sk_in = x, sk_out = os @ [5, 2] @ [1, 0], sk_room = k - 2\<rparr>)"
  using assms by (simp add: accepted_def server_auth_def auth_message_def sk_run unat_byte Let_def)

lemma handshake_run:
  assumes "SplitAddr addr = Some addr" and "command \<in> {1, 3}" and "ParseAddr local = Some laddr"
    and "accepted authenticator user"
  shows "\<exists>cout sout k l.
    ServerHandshake authenticator local \<lparr>sk_in = cout @ x, sk_out = [], sk_room = 3\<rparr> =
      (Inr (addr, command), \<lparr>sk_in = x, sk_out = sout, sk_room = k\<rparr>) \<and>
    ClientHandshake addr command user \<lparr>sk_in = sout @ y, sk_out = [], sk_room = 3\<rparr> =
      (Inr laddr, \<lparr>sk_in = y, sk_out = cout, sk_room = l\<rparr>) \<and> hd cout = 5 \<and> cout \<noteq> []"
proof (cases authenticator)
  case None
  let ?cout = "(if user \<noteq> None then [5, 1, 2] else [5, 1, 0]) @ [5, command, 0] @ addr"
  let ?sout = "[5, 0] @ [5, 0, 0] @ laddr"
  have "ServerHandshake authenticator local \<lparr>sk_in = ?cout @ x, sk_out = [], sk_room = 3\<rparr> =
      (Inr (addr, command), \<lparr>sk_in = x, sk_out = ?sout, sk_room = 1\<rparr>)"
    using assms None by (auto simp: ServerHandshake_def sk_run ReadAddr_wf)
  moreover have "ClientHandshake addr command user \<lparr>sk_in = ?sout @ y, sk_out = [], sk_room = 3\<rparr> =
      (Inr laddr, \<lparr>sk_in = y, sk_out = ?cout, sk_room = 1\<rparr>)"
    using ParseAddr_wf [OF assms(3)] by (simp add: ClientHandshake_def sk_run ReadAddr_wf)
  moreover have "hd (?cout) = 5 \<and> ?cout \<noteq> []" by simp
  ultimately show ?thesis by blast
next
  case (Some verify)
  with assms(4) obtain u where u: "user = Some u" by (cases user) (auto simp: accepted_def)
  let ?cout = "[5, 1, 2] @ auth_message u @ [5, command, 0] @ addr"
  let ?sout = "[5, 2] @ [1, 0] @ [5, 0, 0] @ laddr"
  have "ServerHandshake authenticator local \<lparr>sk_in = ?cout @ x, sk_out = [], sk_room = 3\<rparr> =
      (Inr (addr, command), \<lparr>sk_in = x, sk_out = ?sout, sk_room = 0\<rparr>)"
    using assms Some u by (auto simp: ServerHandshake_def sk_run ReadAddr_wf server_auth_run)
  moreover have "ClientHandshake addr command user \<lparr>sk_in = ?sout @ y, sk_out = [], sk_room = 3\<rparr> =
      (Inr laddr, \<lparr>sk_in = y, sk_out = ?cout, sk_room = 0\<rparr>)"
    using ParseAddr_wf [OF assms(3)] u by (simp add: ClientHandshake_def sk_run ReadAddr_wf)
  moreover have "hd (?cout) = 5 \<and> ?cout \<noteq> []" by simp
  ultimately show ?thesis by blast
qed

text \<open>
  A handshake reaches agreement: for a client whose credentials the server accepts, a
  well-formed target and one of the two supported commands, the bytes each side writes are
  the bytes the other needs; the server ends with the client's target and command, the
  client with the address the server listens at, and neither reads past the handshake.
\<close>

theorem handshake_agrees:
  assumes "SplitAddr addr = Some addr" and "command \<in> {1, 3}" and "ParseAddr local = Some laddr"
    and "accepted authenticator user"
  shows "\<exists>cout sout k l.
    ServerHandshake authenticator local \<lparr>sk_in = cout @ x, sk_out = [], sk_room = 3\<rparr> =
      (Inr (addr, command), \<lparr>sk_in = x, sk_out = sout, sk_room = k\<rparr>) \<and>
    ClientHandshake addr command user \<lparr>sk_in = sout @ y, sk_out = [], sk_room = 3\<rparr> =
      (Inr laddr, \<lparr>sk_in = y, sk_out = cout, sk_room = l\<rparr>)"
  using handshake_run [OF assms] by blast

definition demo_verify :: "string \<Rightarrow> string \<Rightarrow> bool" where
  "demo_verify u p \<longleftrightarrow> u = ''me'' \<and> p = ''secret''"

definition demo_user :: socks_user where
  "demo_user = \<lparr>us_Username = ''me'', us_Password = ''secret''\<rparr>"

lemma demo_accepted: "accepted (Some demo_verify) (Some demo_user)"
  by (simp add: accepted_def demo_verify_def demo_user_def)

theorem handshake_agrees_witness:
  "\<exists>cout sout k l.
    ServerHandshake (Some demo_verify) (v4_string [127, 0, 0, 1] @ CHR '':'' # itoa 1080) \<lparr>sk_in = cout @ [9], sk_out = [], sk_room = 3\<rparr> =
      (Inr ([3, 1, 104, 0, 80], 1), \<lparr>sk_in = [9], sk_out = sout, sk_room = k\<rparr>) \<and>
    ClientHandshake [3, 1, 104, 0, 80] 1 (Some demo_user)
        \<lparr>sk_in = sout @ [], sk_out = [], sk_room = 3\<rparr> =
      (Inr (1 # [127, 0, 0, 1] @ port_bytes 1080), \<lparr>sk_in = [], sk_out = cout, sk_room = l\<rparr>)"
proof -
  have s: "SplitAddr [3, 1, 104, 0, 80] = Some [3, 1, 104, 0, 80]" by code_simp
  have l: "ParseAddr (v4_string [127, 0, 0, 1] @ CHR '':'' # itoa 1080) = Some (1 # [127, 0, 0, 1] @ port_bytes 1080)"
    by (rule ParseAddr_v4) simp_all
  show ?thesis by (rule handshake_agrees [OF s _ l demo_accepted]) simp
qed

section \<open>The server asks for credentials\<close>

lemma server_auth_Inr:
  assumes "server_auth verify c = (Inr u, c')"
  shows "\<exists>v user pass. sk_in c = v # of_nat (length user) # bytes_of user @ of_nat (length pass) # bytes_of pass @ sk_in c' \<and>
    user \<noteq> [] \<and> pass \<noteq> [] \<and> verify user pass"
proof -
  have "\<exists>x c1 h c2 ub c3 l c4 pb c5. sk_write [5, 2] c = (Inr x, c1) \<and> sk_read 2 c1 = (Inr h, c2) \<and>
      0 < unat (h ! 1) \<and> sk_read (unat (h ! 1)) c2 = (Inr ub, c3) \<and> sk_read 1 c3 = (Inr l, c4) \<and>
      0 < unat (l ! 0) \<and> sk_read (unat (l ! 0)) c4 = (Inr pb, c5) \<and>
      verify (string_of ub) (string_of pb) \<and> sk_write [1, 0] c5 = (Inr u, c')"
    using assms unfolding server_auth_def sk_bind_Inr Let_def sk_guard not_le not_not
    by blast
  then obtain x c1 h c2 ub c3 l c4 pb c5 where w: "sk_write [5, 2] c = (Inr x, c1)" "sk_write [1, 0] c5 = (Inr u, c')"
    and r: "sk_read 2 c1 = (Inr h, c2)" "sk_read (unat (h ! 1)) c2 = (Inr ub, c3)" "sk_read 1 c3 = (Inr l, c4)"
      "sk_read (unat (l ! 0)) c4 = (Inr pb, c5)"
    and ok: "0 < unat (h ! 1)" "0 < unat (l ! 0)" "verify (string_of ub) (string_of pb)" by blast
  have c: "sk_in c = h @ ub @ l @ pb @ sk_in c'"
    using r sk_write_Inr [OF w(1)] sk_write_Inr [OF w(2)] by (simp add: sk_read_Inr)
  have h: "length h = 2" and ub: "length ub = unat (h ! 1)" and l: "length l = 1" and pb: "length pb = unat (l ! 0)"
    using r by (simp_all add: sk_read_Inr)
  from h l obtain v n m where hl: "h = [v, n]" "l = [m]"
    by (auto simp: length_Suc_conv numeral_2_eq_2)
  then have "n = of_nat (length ub)" "m = of_nat (length pb)" unfolding ub pb by simp_all
  with c hl have "sk_in c = v # of_nat (length (string_of ub)) # bytes_of (string_of ub) @
      of_nat (length (string_of pb)) # bytes_of (string_of pb) @ sk_in c'" by simp
  moreover have "string_of ub \<noteq> []" "string_of pb \<noteq> []"
    using ok(1) ok(2) unfolding ub [symmetric] pb [symmetric] by (auto simp: string_of_def)
  ultimately show ?thesis using ok(3) by blast
qed

text \<open>
  C18. No entry without credentials: a server with an authenticator completes a handshake
  only when the client sent a user name and a password, neither empty, that the authenticator
  verified, whatever methods the client offered and whatever else it sent.
\<close>

theorem server_requires_auth:
  assumes "ServerHandshake (Some verify) local c = (Inr r, c')"
  shows "\<exists>hello v user pass rest.
    sk_in c = hello @ v # of_nat (length user) # bytes_of user @ of_nat (length pass) # bytes_of pass @ rest \<and>
    user \<noteq> [] \<and> pass \<noteq> [] \<and> verify user pass"
proof -
  from assms obtain b c0 where r0: "sk_read 2 c = (Inr b, c0)"
    and "sk_bind (sk_read (unat (b ! 1))) (\<lambda>methods. sk_bind (server_auth verify) (\<lambda>_.
      sk_bind (sk_read 3) (\<lambda>buf. let command = buf ! 1 in sk_bind (ReadAddr MaxAddrLen) (\<lambda>addr.
         if command = 1 \<or> command = 3 then
           (case ParseAddr local of
              None \<Rightarrow> sk_fail (ErrSocks 8)
            | Some localAddr \<Rightarrow> sk_bind (sk_write ([5, 0, 0] @ localAddr)) (\<lambda>_. sk_return (addr, command)))
         else sk_fail (ErrSocks 7))))) c0 = (Inr r, c')"
    unfolding ServerHandshake_def option.case by (rule sk_bind_InrE)
  then obtain m c1 u c2 where "sk_read (unat (b ! 1)) c0 = (Inr m, c1)" and a: "server_auth verify c1 = (Inr u, c2)"
    by (blast dest: sk_two_steps)
  with r0 have r: "sk_read 2 c = (Inr b, c0)" "sk_read (unat (b ! 1)) c0 = (Inr m, c1)" by simp_all
  then have b: "sk_in c = b @ m @ sk_in c1" by (simp add: sk_read_Inr)
  from server_auth_Inr [OF a] obtain v user pass where
    "sk_in c1 = v # of_nat (length user) # bytes_of user @ of_nat (length pass) # bytes_of pass @ sk_in c2"
    "user \<noteq> []" "pass \<noteq> []" "verify user pass" by blast
  with b show ?thesis
    by (intro exI [of _ "b @ m"] exI [of _ v] exI [of _ user] exI [of _ pass] exI [of _ "sk_in c2"]) simp
qed

theorem server_requires_auth_witness:
  "\<exists>r c' user pass. ServerHandshake (Some demo_verify) (v4_string [127, 0, 0, 1] @ CHR '':'' # itoa 1080)
      \<lparr>sk_in = [5, 1, 2] @ auth_message demo_user @ [5, 1, 0] @ [3, 1, 104, 0, 80] @ [], sk_out = [], sk_room = 9\<rparr>
      = (Inr r, c') \<and> user \<noteq> [] \<and> demo_verify user pass"
proof -
  have s: "SplitAddr [3, 1, 104, 0, 80] = Some [3, 1, 104, 0, 80]" by code_simp
  have l: "ParseAddr (v4_string [127, 0, 0, 1] @ CHR '':'' # itoa 1080) = Some (1 # [127, 0, 0, 1] @ port_bytes 1080)"
    by (rule ParseAddr_v4) simp_all
  obtain r c' where r: "ServerHandshake (Some demo_verify) (v4_string [127, 0, 0, 1] @ CHR '':'' # itoa 1080)
      \<lparr>sk_in = [5, 1, 2] @ auth_message demo_user @ [5, 1, 0] @ [3, 1, 104, 0, 80] @ [], sk_out = [], sk_room = 9\<rparr>
      = (Inr r, c')"
    by (simp add: ServerHandshake_def sk_run Let_def server_auth_run [OF demo_accepted]
        ReadAddr_wf [OF s, simplified append_Cons append_Nil] l del: append_Nil2)
  with server_requires_auth [OF r] show ?thesis by blast
qed



section \<open>Addresses and packets survive\<close>

text \<open>
  What is written is read: the text of an IPv4 address parses back to the address; an
  address parsed from any text is well formed, so that it can be cut off a stream and read
  from one with the bytes behind it left alone; and a UDP packet gives back its address and
  payload.
\<close>

theorem socks_addr_roundtrip:
  assumes "length p = 4" and "n < 65536" and "ParseAddr s = Some a"
  shows "Addr_String (1 # p @ port_bytes n) = Inr (v4_string p @ CHR '':'' # itoa n) \<and>
    ParseAddr (v4_string p @ CHR '':'' # itoa n) = Some (1 # p @ port_bytes n) \<and>
    SplitAddr (a @ x) = Some a \<and>
    ReadAddr MaxAddrLen \<lparr>sk_in = a @ x, sk_out = os, sk_room = k\<rparr> = (Inr a, \<lparr>sk_in = x, sk_out = os, sk_room = k\<rparr>) \<and>
    (\<exists>packet. EncodeUDPPacket (Some a) x = Inr packet \<and> DecodeUDPPacket packet = (None, Some a, x))"
proof (intro conjI)
  have "port16 (of_nat (n div 256)) (of_nat n) = n"
    using assms(2) by (simp add: port16_def unat_of_nat div_mult_mod_eq less_mult_imp_div_less)
  moreover have "port_bytes n = [of_nat (n div 256), of_nat n]" by (simp add: port_bytes_def)
  moreover from assms(1) obtain b0 b1 b2 b3 where p: "p = [b0, b1, b2, b3]"
    by (auto simp: length_Suc_conv eval_nat_numeral)
  moreover have "ip_string p = v4_string p" using assms(1) by (auto simp: ip_string_def to4_def)
  ultimately show "Addr_String (1 # p @ port_bytes n) = Inr (v4_string p @ CHR '':'' # itoa n)"
    by (simp add: Addr_String_def join_host_port_def v4_string_no)
  show "ParseAddr (v4_string p @ CHR '':'' # itoa n) = Some (1 # p @ port_bytes n)"
    using assms(1,2) by (rule ParseAddr_v4)
  have wf: "SplitAddr a = Some a" using assms(3) by (rule ParseAddr_wf)
  then show "SplitAddr (a @ x) = Some a" by (rule SplitAddr_append)
  show "ReadAddr MaxAddrLen \<lparr>sk_in = a @ x, sk_out = os, sk_room = k\<rparr> = (Inr a, \<lparr>sk_in = x, sk_out = os, sk_room = k\<rparr>)"
    using wf by (rule ReadAddr_wf)
  have "2 \<le> length a" using wf by (rule SplitAddr_id_cases) auto
  then show "\<exists>packet. EncodeUDPPacket (Some a) x = Inr packet \<and> DecodeUDPPacket packet = (None, Some a, x)"
    using SplitAddr_append [OF wf, of x] by (simp add: EncodeUDPPacket_def DecodeUDPPacket_def numeral_3_eq_3)
qed

theorem socks_addr_roundtrip_witness:
  "\<exists>a. ParseAddr (v4_string [10, 0, 0, 1] @ CHR '':'' # itoa 443) = Some a \<and> SplitAddr (a @ [1, 2]) = Some a \<and>
     Addr_String a = Inr (v4_string [10, 0, 0, 1] @ CHR '':'' # itoa 443)"
proof -
  have p: "ParseAddr (v4_string [10, 0, 0, 1] @ CHR '':'' # itoa 443) = Some (1 # [10, 0, 0, 1] @ port_bytes 443)"
    by (rule ParseAddr_v4) simp_all
  show ?thesis using socks_addr_roundtrip [of "[10, 0, 0, 1]" 443, OF _ _ p, of "[1, 2]"] p by auto
qed

end
