(* ===== verification/ClashStructure.thy ===== *)
theory ClashStructure
  imports GoPrelude
begin

text \<open>
  \<open>common/structure/structure.go\<close>: the decoder that fills an option struct from a map, by
  reflection.  A Go type is a value of the datatype \<open>gty\<close>, a field's tag is the text behind
  the decoder's tag name.  The data come from a YAML or JSON decoder: no structs, pointers
  or nil maps; a map lists its entries in the order the run happens to visit them.  Error
  texts are kept as their kind and the path they name.  Squashed fields (a tag no option type
  of the repository uses) are not modelled.
\<close>

section \<open>Types, values and data\<close>

datatype gty =
    TInt | TString | TBool
  | TSlice gty
  | TMap gty gty
  | TInterface
  | TStruct "gfield list"
  | TOther string
and gfield = Field (fd_Name: string) (fd_tag: string) (fd_canSet: bool) (fd_type: gty)

datatype map_keys = StringKeys | InterfaceKeys | OtherKeys

datatype data =
    DNil
  | DInt int | DString string | DBool bool
  | DSlice "data list"
  | DMap map_keys "(data \<times> data) list"
  | DOther string

text \<open>\<open>GMap None\<close> is a nil map.\<close>

datatype gval =
    GInt int | GString string | GBool bool
  | GSlice "gval list"
  | GMap "(gval \<times> gval) list option"
  | GInterface "data option"
  | GStruct "gval list"
  | GOther

datatype decode_err =
    KeyMissing string
  | Unconvertible string
  | CannotParse string
  | NotASlice string
  | ExpectedMap string
  | NeedsStringKeys string
  | NotSupported string
  | FieldInvalid string
  | Joined "decode_err list"

type_synonym 'a decoded = "(decode_err + 'a) go"

lemma field_size [termination_simp]: "f \<in> set fs \<Longrightarrow> size (fd_type f) < Suc (size_list size fs)"
proof -
  assume "f \<in> set fs"
  then have "size f \<le> size_list size fs" by (simp add: size_list_estimation')
  moreover have "size (fd_type f) \<le> size f" by (cases f) simp
  ultimately show ?thesis by linarith
qed

text \<open>\<open>reflect.Zero\<close>.\<close>

fun zero_value :: "gty \<Rightarrow> gval" where
  "zero_value TInt = GInt 0"
| "zero_value TString = GString []"
| "zero_value TBool = GBool False"
| "zero_value (TSlice t) = GSlice []"
| "zero_value (TMap k e) = GMap None"
| "zero_value TInterface = GInterface None"
| "zero_value (TStruct fs) = GStruct (map (\<lambda>f. zero_value (fd_type f)) fs)"
| "zero_value (TOther s) = GOther"

definition dbind :: "'a decoded \<Rightarrow> ('a \<Rightarrow> 'b decoded) \<Rightarrow> 'b decoded" where
  "dbind m f = go_bind m (\<lambda>r. case r of Inl e \<Rightarrow> Inr (Inl e) | Inr v \<Rightarrow> f v)"

section \<open>Integers of any base\<close>

text \<open>\<open>strconv.ParseInt\<close> with base 0 for 64 bits: only whether it succeeds and with what.\<close>

fun underscore_loop :: "bool \<Rightarrow> char \<Rightarrow> string \<Rightarrow> bool" where
  "underscore_loop hex saw [] = (saw \<noteq> CHR ''_'')"
| "underscore_loop hex saw (c # s) =
     (if is_digit c \<or> hex \<and> lower_char c \<in> set ''abcdef'' then underscore_loop hex (CHR ''0'') s
      else if c = CHR ''_'' then (if saw \<noteq> CHR ''0'' then False else underscore_loop hex (CHR ''_'') s)
      else if saw = CHR ''_'' then False
      else underscore_loop hex (CHR ''!'') s)"

definition unsigned_part :: "string \<Rightarrow> string" where
  "unsigned_part s = (if s \<noteq> [] \<and> (hd s = CHR ''-'' \<or> hd s = CHR ''+'') then tl s else s)"

definition underscoreOK :: "string \<Rightarrow> bool" where
  "underscoreOK s =
     (let s = unsigned_part s in
      if 2 \<le> length s \<and> hd s = CHR ''0'' \<and> lower_char (s ! 1) \<in> set ''box''
      then underscore_loop (lower_char (s ! 1) = CHR ''x'') (CHR ''0'') (drop 2 s)
      else underscore_loop False (CHR ''^'') s)"

definition base_prefix :: "string \<Rightarrow> nat \<times> string" where
  "base_prefix s =
     (if hd s \<noteq> CHR ''0'' then (10, s)
      else if 3 \<le> length s \<and> lower_char (s ! 1) = CHR ''b'' then (2, drop 2 s)
      else if 3 \<le> length s \<and> lower_char (s ! 1) = CHR ''o'' then (8, drop 2 s)
      else if 3 \<le> length s \<and> lower_char (s ! 1) = CHR ''x'' then (16, drop 2 s)
      else (8, drop 1 s))"

definition char_digit :: "char \<Rightarrow> nat option" where
  "char_digit c =
     (let l = of_char (lower_char c) :: nat in
      if is_digit c then Some (digit_val c) else if 97 \<le> l \<and> l \<le> 122 then Some (l - 97 + 10) else None)"

fun parse_base_loop :: "nat \<Rightarrow> nat \<Rightarrow> string \<Rightarrow> nat option" where
  "parse_base_loop base n [] = Some n"
| "parse_base_loop base n (c # s) =
     (if c = CHR ''_'' then parse_base_loop base n s
      else case char_digit c of
        None \<Rightarrow> None
      | Some d \<Rightarrow>
          if base \<le> d then None
          else if 2 ^ 64 \<le> base * n + d then None
          else parse_base_loop base (base * n + d) s)"

definition parse_int0 :: "string \<Rightarrow> int option" where
  "parse_int0 s0 =
     (if s0 = [] then None
      else let s = unsigned_part s0; neg = (hd s0 = CHR ''-'') in
        if s = [] then None
        else let (base, digits) = base_prefix s in
          case parse_base_loop base 0 digits of
            None \<Rightarrow> None
          | Some un \<Rightarrow>
              if CHR ''_'' \<in> set digits \<and> \<not> underscoreOK s then None
              else if \<not> neg \<and> 2 ^ 63 \<le> un then None
              else if neg \<and> 2 ^ 63 < un then None
              else Some (if neg then - int un else int un))"

section \<open>Decoding\<close>

text \<open>\<open>reflect.ValueOf(nil)\<close> is the zero \<open>Value\<close>: asking for its type, or storing it, panics.\<close>

definition itoa_int :: "int \<Rightarrow> string" where
  "itoa_int i = (if i < 0 then CHR ''-'' # itoa (nat (- i)) else itoa (nat i))"

definition decodeInt :: "bool \<Rightarrow> string \<Rightarrow> data \<Rightarrow> gval decoded" where
  "decodeInt weak name d =
     (case d of
        DNil \<Rightarrow> Inl ZeroReflectValue
      | DInt i \<Rightarrow> Inr (Inr (GInt i))
      | DString s \<Rightarrow>
          if weak then
            (case parse_int0 s of
               Some i \<Rightarrow> Inr (Inr (GInt i))
             | None \<Rightarrow> Inr (Inl (CannotParse name)))
          else Inr (Inl (Unconvertible name))
      | _ \<Rightarrow> Inr (Inl (Unconvertible name)))"

definition decodeString :: "bool \<Rightarrow> string \<Rightarrow> data \<Rightarrow> gval decoded" where
  "decodeString weak name d =
     (case d of
        DNil \<Rightarrow> Inl ZeroReflectValue
      | DString s \<Rightarrow> Inr (Inr (GString s))
      | DInt i \<Rightarrow> if weak then Inr (Inr (GString (itoa_int i))) else Inr (Inl (Unconvertible name))
      | _ \<Rightarrow> Inr (Inl (Unconvertible name)))"

definition decodeBool :: "bool \<Rightarrow> string \<Rightarrow> data \<Rightarrow> gval decoded" where
  "decodeBool weak name d =
     (case d of
        DNil \<Rightarrow> Inl ZeroReflectValue
      | DBool b \<Rightarrow> Inr (Inr (GBool b))
      | DInt i \<Rightarrow> if weak then Inr (Inr (GBool (i \<noteq> 0))) else Inr (Inl (Unconvertible name))
      | _ \<Rightarrow> Inr (Inl (Unconvertible name)))"

definition setInterface :: "data \<Rightarrow> gval decoded" where
  "setInterface d = (if d = DNil then Inl ZeroReflectValue else Inr (Inr (GInterface (Some d))))"

text \<open>
  The loop of \<open>decodeSlice\<close>: element \<open>i\<close> is decoded over the old element, or over a zero
  appended for it; the first error ends the loop; old elements behind the data stay.
\<close>

fun slice_loop ::
  "(string \<Rightarrow> data \<Rightarrow> gval \<Rightarrow> gval decoded) \<Rightarrow> gval \<Rightarrow> string \<Rightarrow> nat \<Rightarrow> data list \<Rightarrow> gval list \<Rightarrow> gval list decoded" where
  "slice_loop dec zero name i [] old = Inr (Inr old)"
| "slice_loop dec zero name i (d # ds) old =
     (let (cur, old) = (case old of [] \<Rightarrow> (zero, []) | v # vs \<Rightarrow> (v, vs)) in
      dbind (dec (name @ ''['' @ itoa i @ '']'') d cur) (\<lambda>v.
      dbind (slice_loop dec zero name (Suc i) ds old) (\<lambda>vs. Inr (Inr (v # vs)))))"

fun assoc_set :: "'k \<Rightarrow> 'v \<Rightarrow> ('k \<times> 'v) list \<Rightarrow> ('k \<times> 'v) list" where
  "assoc_set k v [] = [(k, v)]"
| "assoc_set k v ((k', v') # m) = (if k = k' then (k, v) # m else (k', v') # assoc_set k v m)"

text \<open>\<open>fmt.Sprintf("%s", k)\<close> of a map key.\<close>

fun key_text :: "data \<Rightarrow> string" where
  "key_text (DString s) = s"
| "key_text (DInt i) = ''%!s(int='' @ itoa_int i @ '')''"
| "key_text (DBool b) = ''%!s(bool='' @ (if b then ''true'' else ''false'') @ '')''"
| "key_text _ = ''?''"

text \<open>The loop of \<open>decodeMapFromMap\<close> over the entries, with the errors so far.\<close>

fun map_loop ::
  "(string \<Rightarrow> data \<Rightarrow> gval decoded) \<Rightarrow> (string \<Rightarrow> data \<Rightarrow> gval decoded) \<Rightarrow> string \<Rightarrow> (data \<times> data) list \<Rightarrow>
     decode_err list \<Rightarrow> (gval \<times> gval) list \<Rightarrow> (decode_err list \<times> (gval \<times> gval) list) go" where
  "map_loop deck dece name [] errs m = Inr (errs, m)"
| "map_loop deck dece name ((k, v) # es) errs m =
     (let fieldName = name @ ''['' @ key_text k @ '']'' in
      go_bind (deck fieldName k) (\<lambda>rk. case rk of
        Inl e \<Rightarrow> map_loop deck dece name es (errs @ [e]) m
      | Inr gk \<Rightarrow>
          if v = DNil then map_loop deck dece name es (errs @ [FieldInvalid fieldName]) m
          else go_bind (dece fieldName v) (\<lambda>rv. case rv of
              Inl e \<Rightarrow> map_loop deck dece name es (errs @ [e]) m
            | Inr gv \<Rightarrow> map_loop deck dece name es errs (assoc_set gk gv m))))"

text \<open>The tag up to its first comma, and what follows it.\<close>

definition tag_name :: "string \<Rightarrow> string" where
  "tag_name tag = hd (splitn2 (CHR '','') tag)"

definition tag_option :: "string \<Rightarrow> string option" where
  "tag_option tag = (case splitn2 (CHR '','') tag of _ # o' # _ \<Rightarrow> Some o' | _ \<Rightarrow> None)"

text \<open>
  The value of a struct field in a map: the entry of its name, or the first whose key is a
  string that equals it but for case.
\<close>

definition lookup_field :: "string \<Rightarrow> (data \<times> data) list \<Rightarrow> data option" where
  "lookup_field fieldName es =
     (case map_of es (DString fieldName) of
        Some v \<Rightarrow> Some v
      | None \<Rightarrow> map_option snd (find (\<lambda>(k, v). case k of DString mK \<Rightarrow> equal_fold mK fieldName | _ \<Rightarrow> False) es))"

fun decode :: "bool \<Rightarrow> string \<Rightarrow> gty \<Rightarrow> data \<Rightarrow> gval \<Rightarrow> gval decoded"
  and decode_fields :: "bool \<Rightarrow> string \<Rightarrow> gfield list \<Rightarrow> (data \<times> data) list \<Rightarrow> gval list \<Rightarrow> decode_err list \<Rightarrow>
    (decode_err list \<times> gval list) go" where
  "decode weak name TInt d old = decodeInt weak name d"
| "decode weak name TString d old = decodeString weak name d"
| "decode weak name TBool d old = decodeBool weak name d"
| "decode weak name (TSlice t) d old =
     (case d of
        DSlice ds \<Rightarrow>
          dbind (slice_loop (\<lambda>n x v. decode weak n t x v) (zero_value t) name 0 ds
                  (case old of GSlice vs \<Rightarrow> vs | _ \<Rightarrow> []))
            (\<lambda>vs. Inr (Inr (GSlice vs)))
      | _ \<Rightarrow> Inr (Inl (NotASlice name)))"
| "decode weak name (TMap kt et) d old =
     (case d of
        DMap kk es \<Rightarrow>
          go_bind (map_loop (\<lambda>n x. decode weak n kt x (zero_value kt)) (\<lambda>n x. decode weak n et x (zero_value et))
                    name es [] (case old of GMap (Some m) \<Rightarrow> m | _ \<Rightarrow> []))
            (\<lambda>(errs, m). if errs \<noteq> [] then Inr (Inl (Joined errs)) else Inr (Inr (GMap (Some m))))
      | _ \<Rightarrow> Inr (Inl (ExpectedMap name)))"
| "decode weak name TInterface d old = setInterface d"
| "decode weak name (TStruct fs) d old =
     (case d of
        DNil \<Rightarrow> Inl ZeroReflectValue
      | DMap kk es \<Rightarrow>
          if kk = OtherKeys then Inr (Inl (NeedsStringKeys name))
          else go_bind (decode_fields weak name fs es (case old of GStruct vs \<Rightarrow> vs | _ \<Rightarrow> []) [])
            (\<lambda>(errs, vs). if errs \<noteq> [] then Inr (Inl (Joined errs)) else Inr (Inr (GStruct vs)))
      | _ \<Rightarrow> Inr (Inl (ExpectedMap name)))"
| "decode weak name (TOther k) d old = Inr (Inl (NotSupported k))"
| "decode_fields weak name [] es old errs = Inr (errs, [])"
| "decode_fields weak name (Field fname tag canSet ty # fs) es old errs =
     (let (v, old) = (case old of [] \<Rightarrow> (zero_value ty, []) | v # vs \<Rightarrow> (v, vs));
          fieldName = (if tag_name tag \<noteq> [] then tag_name tag else fname);
          keep = (\<lambda>errs v. go_bind (decode_fields weak name fs es old errs) (\<lambda>(errs, vs). Inr (errs, v # vs)))
      in case lookup_field fieldName es of
           None \<Rightarrow> keep errs v
         | Some d \<Rightarrow>
             if \<not> canSet then keep errs v
             else go_bind (decode weak (if name \<noteq> [] then name @ ''.'' @ fieldName else fieldName) ty d v)
               (\<lambda>r. case r of Inl e \<Rightarrow> keep (errs @ [e]) v | Inr v \<Rightarrow> keep errs v))"

text \<open>
  \<open>Decode\<close>: the fields of the option struct itself; an embedded field (one that is
  \<open>Anonymous\<close>) is decoded from the whole map.  The first error ends the loop.
\<close>

fun Decode_loop :: "bool \<Rightarrow> (bool \<times> gfield) list \<Rightarrow> (data \<times> data) list \<Rightarrow> gval list \<Rightarrow> gval list decoded" where
  "Decode_loop weak [] src old = Inr (Inr [])"
| "Decode_loop weak ((anonymous, f) # fs) src old =
     (let (v, old) = (case old of [] \<Rightarrow> (zero_value (fd_type f), []) | v # vs \<Rightarrow> (v, vs));
          rest = (\<lambda>v. dbind (Decode_loop weak fs src old) (\<lambda>vs. Inr (Inr (v # vs)))) in
      if anonymous then
        dbind (decode weak (fd_Name f) (fd_type f) (DMap StringKeys src) v) rest
      else
        let key = tag_name (fd_tag f); omitempty = (tag_option (fd_tag f) = Some ''omitempty'') in
        case map_of src (DString key) of
          None \<Rightarrow> if omitempty then rest v else Inr (Inl (KeyMissing key))
        | Some d \<Rightarrow>
            if d = DNil then (if omitempty then rest v else Inr (Inl (KeyMissing key)))
            else dbind (decode weak key (fd_type f) d v) rest)"

definition Decode :: "bool \<Rightarrow> (bool \<times> gfield) list \<Rightarrow> (data \<times> data) list \<Rightarrow> gval list \<Rightarrow> gval list decoded" where
  "Decode weak fs src old = Decode_loop weak fs src old"

section \<open>Decoded values have their type\<close>

fun typed :: "gty \<Rightarrow> gval \<Rightarrow> bool" where
  "typed TInt (GInt i) = True"
| "typed TString (GString s) = True"
| "typed TBool (GBool b) = True"
| "typed (TSlice t) (GSlice vs) = (\<forall>v \<in> set vs. typed t v)"
| "typed (TMap kt et) (GMap None) = True"
| "typed (TMap kt et) (GMap (Some m)) = (\<forall>(k, v) \<in> set m. typed kt k \<and> typed et v)"
| "typed TInterface (GInterface x) = (x \<noteq> Some DNil)"
| "typed (TStruct fs) (GStruct vs) = list_all2 (\<lambda>f v. typed (fd_type f) v) fs vs"
| "typed (TOther k) GOther = True"
| "typed _ _ = False"

lemma typed_zero [simp]: "typed ty (zero_value ty)"
  by (induction ty rule: zero_value.induct) (auto simp: list_all2_conv_all_nth)

lemma typed_cases:
  "typed (TSlice t) old \<Longrightarrow> \<exists>vs. old = GSlice vs \<and> (\<forall>v \<in> set vs. typed t v)"
  "typed (TMap kt et) old \<Longrightarrow> old = GMap None \<or> (\<exists>m. old = GMap (Some m) \<and> (\<forall>(k, v) \<in> set m. typed kt k \<and> typed et v))"
  "typed (TStruct fs) old \<Longrightarrow> \<exists>vs. old = GStruct vs \<and> list_all2 (\<lambda>f v. typed (fd_type f) v) fs vs"
  by (cases old; simp; metis not_None_eq typed.simps)+

lemma dbind_Inr: "dbind m f = Inr (Inr b) \<longleftrightarrow> (\<exists>a. m = Inr (Inr a) \<and> f a = Inr (Inr b))"
  by (cases m rule: sum.exhaust; cases "projr m") (auto simp: dbind_def)

lemma dbind_Inl: "dbind m f = Inl p \<longleftrightarrow> m = Inl p \<or> (\<exists>a. m = Inr (Inr a) \<and> f a = Inl p)"
  by (cases m rule: sum.exhaust; cases "projr m") (auto simp: dbind_def)

lemmas bind_cases = dbind_Inr dbind_Inl go_bind_Inr go_bind_Inl

lemma set_assoc_set: "set (assoc_set a b m) \<subseteq> insert (a, b) (set m)"
  by (induction a b m rule: assoc_set.induct) auto

lemma slice_loop_keeps:
  assumes "\<And>n d v r. dec n d v = Inr (Inr r) \<Longrightarrow> P v \<Longrightarrow> P r" and "P zero"
    and "\<forall>v \<in> set old. P v" and "slice_loop dec zero name i ds old = Inr (Inr vs)"
  shows "\<forall>v \<in> set vs. P v"
  using assms
proof (induction ds arbitrary: i old vs)
  case (Cons d ds)
  obtain cur rest where c: "(case old of [] \<Rightarrow> (zero, []) | v # vs \<Rightarrow> (v, vs)) = (cur, rest)" by (metis prod.exhaust)
  with Cons.prems(2,3) have cur: "P cur" "\<forall>v \<in> set rest. P v" by (auto split: list.splits)
  from Cons.prems(4) c obtain v ws where "dec (name @ ''['' @ itoa i @ '']'') d cur = Inr (Inr v)"
    "slice_loop dec zero name (Suc i) ds rest = Inr (Inr ws)" "vs = v # ws"
    by (auto simp: bind_cases)
  then show ?case using Cons.IH [OF Cons.prems(1,2) cur(2)] Cons.prems(1) [OF _ cur(1)] by auto
qed simp

lemma map_loop_keeps:
  assumes "\<And>n d r. deck n d = Inr (Inr r) \<Longrightarrow> P r" and "\<And>n d r. dece n d = Inr (Inr r) \<Longrightarrow> Q r"
    and "\<forall>(k, v) \<in> set m. P k \<and> Q v" and "map_loop deck dece name es errs m = Inr (errs', m')"
  shows "\<forall>(k, v) \<in> set m'. P k \<and> Q v"
  using assms(3,4)
proof (induction es arbitrary: errs m)
  case (Cons e es)
  obtain k v where e: "e = (k, v)" by (cases e)
  have upd: "\<forall>(k, v) \<in> set (assoc_set a b m). P k \<and> Q v" if "P a" "Q b" for a b
    using Cons.prems(1) that set_assoc_set [of a b m] by blast
  let ?n = "name @ ''['' @ key_text k @ '']''"
  consider p where "deck ?n k = Inl p" | err where "deck ?n k = Inr (Inl err)" | gk where "deck ?n k = Inr (Inr gk)"
    by (metis sum.exhaust)
  then show ?case
  proof cases
    case (3 gk)
    consider "v = DNil" | p where "dece ?n v = Inl p" | err where "dece ?n v = Inr (Inl err)"
      | gv where "dece ?n v = Inr (Inr gv)" by (metis sum.exhaust)
    then show ?thesis
    proof cases
      case (4 gv)
      show ?thesis
      proof (cases "v = DNil")
        case False
        with Cons.prems(2) e 3 4 have "map_loop deck dece name es errs (assoc_set gk gv m) = Inr (errs', m')"
          by (simp add: Let_def)
        from Cons.IH [OF upd [OF assms(1) [OF 3] assms(2) [OF 4]] this] show ?thesis .
      qed (use Cons.prems(2) e 3 Cons.IH [OF Cons.prems(1)] in \<open>simp add: Let_def\<close>)
    qed (use Cons.prems(2) e 3 Cons.IH [OF Cons.prems(1)] in \<open>auto simp: Let_def split: if_splits\<close>)
  qed (use Cons.prems(2) e Cons.IH [OF Cons.prems(1)] in \<open>auto simp: Let_def\<close>)
qed simp

lemma decode_fields_cases:
  assumes "decode_fields weak name (Field fname tag canSet ty # fs) es (v0 # rest) errs = Inr (errs', vs)"
  obtains v ws errs1 where "vs = v # ws" "decode_fields weak name fs es rest errs1 = Inr (errs', ws)"
    "v = v0 \<or> (\<exists>d. lookup_field (if tag_name tag \<noteq> [] then tag_name tag else fname) es = Some d \<and> canSet \<and>
       decode weak (if name \<noteq> [] then name @ ''.'' @ (if tag_name tag \<noteq> [] then tag_name tag else fname)
                    else if tag_name tag \<noteq> [] then tag_name tag else fname) ty d v0 = Inr (Inr v))"
proof -
  define fn where "fn = (if tag_name tag \<noteq> [] then tag_name tag else fname)"
  define keep where "keep = (\<lambda>errs v. go_bind (decode_fields weak name fs es rest errs) (\<lambda>(errs, vs). Inr (errs, v # vs)))"
  have k: "keep e v = Inr (errs', vs) \<Longrightarrow> \<exists>ws. vs = v # ws \<and> decode_fields weak name fs es rest e = Inr (errs', ws)" for e v
    by (auto simp: keep_def go_bind_Inr)
  have a: "(case lookup_field fn es of None \<Rightarrow> keep errs v0
     | Some d \<Rightarrow> if \<not> canSet then keep errs v0
         else go_bind (decode weak (if name \<noteq> [] then name @ ''.'' @ fn else fn) ty d v0)
           (\<lambda>r. case r of Inl e \<Rightarrow> keep (errs @ [e]) v0 | Inr v \<Rightarrow> keep errs v)) = Inr (errs', vs)"
    using assms unfolding decode_fields.simps Let_def list.case prod.case keep_def fn_def .
  show ?thesis
  proof (cases "lookup_field fn es")
    case None
    with a k [of errs v0] that show ?thesis by auto
  next
    case (Some d)
    show ?thesis
    proof (cases canSet)
      case False
      with a Some k [of errs v0] that show ?thesis by auto
    next
      case True
      with a Some obtain r where r: "decode weak (if name \<noteq> [] then name @ ''.'' @ fn else fn) ty d v0 = Inr r"
        and s: "(case r of Inl e \<Rightarrow> keep (errs @ [e]) v0 | Inr v \<Rightarrow> keep errs v) = Inr (errs', vs)"
        by (auto simp: go_bind_Inr)
      show ?thesis
      proof (cases r)
        case (Inl e)
        with s k [of "errs @ [e]" v0] that show ?thesis by auto
      next
        case (Inr v)
        with s k [of errs v] obtain ws where "vs = v # ws" "decode_fields weak name fs es rest errs = Inr (errs', ws)" by auto
        then show ?thesis using that [of v ws errs] r Inr Some True unfolding fn_def by blast
      qed
    qed
  qed
qed

lemma decode_typed:
  "decode weak name ty d old = Inr (Inr v) \<Longrightarrow> typed ty old \<Longrightarrow> typed ty v"
  "decode_fields weak name fs es olds errs = Inr (errs', vs) \<Longrightarrow>
     list_all2 (\<lambda>f v. typed (fd_type f) v) fs olds \<Longrightarrow> list_all2 (\<lambda>f v. typed (fd_type f) v) fs vs"
proof (induction weak name ty d old and weak name fs es olds errs arbitrary: v and errs' vs
    rule: decode_decode_fields.induct)
  case (4 weak name t d old)
  from 4(2) obtain ds vs where d: "d = DSlice ds" and v: "v = GSlice vs"
    and l: "slice_loop (\<lambda>n x v. decode weak n t x v) (zero_value t) name 0 ds
      (case old of GSlice vs \<Rightarrow> vs | _ \<Rightarrow> []) = Inr (Inr vs)"
    by (auto simp: bind_cases split: data.splits)
  have "\<forall>v \<in> set vs. typed t v"
    by (rule slice_loop_keeps [OF _ _ _ l]) (use 4(1) [OF d] typed_cases(1) [OF 4(3)] in auto)
  with v show ?case by simp
next
  case (5 weak name kt et d old)
  from 5(3) obtain kk es m where d: "d = DMap kk es" and v: "v = GMap (Some m)"
    and l: "map_loop (\<lambda>n x. decode weak n kt x (zero_value kt)) (\<lambda>n x. decode weak n et x (zero_value et))
      name es [] (case old of GMap (Some m) \<Rightarrow> m | _ \<Rightarrow> []) = Inr ([], m)"
    by (auto simp: bind_cases split: data.splits if_splits)
  have "\<forall>(k, v) \<in> set m. typed kt k \<and> typed et v"
    by (rule map_loop_keeps [OF _ _ _ l]) (use 5(1,2) [OF d] typed_cases(2) [OF 5(4)] in auto)
  with v show ?case by simp
next
  case (7 weak name fs d old)
  from 7(2) obtain kk es vs where d: "d = DMap kk es" "kk \<noteq> OtherKeys" and v: "v = GStruct vs"
    and l: "decode_fields weak name fs es (case old of GStruct vs \<Rightarrow> vs | _ \<Rightarrow> []) [] = Inr ([], vs)"
    by (auto simp: bind_cases split: data.splits if_splits)
  from 7(1) [OF d l] typed_cases(3) [OF 7(3)] v show ?case by auto
next
  case (10 weak name fname tag canSet ty fs es old errs)
  let ?fn = "if tag_name tag \<noteq> [] then tag_name tag else fname"
  from 10(4) obtain v0 rest where o': "old = v0 # rest" "typed ty v0"
      "list_all2 (\<lambda>f v. typed (fd_type f) v) fs rest" by (cases old) auto
  from 10(3) [unfolded o'(1)] show ?case
  proof (cases rule: decode_fields_cases)
    case (1 v ws errs1)
    have "list_all2 (\<lambda>f v. typed (fd_type f) v) fs ws"
      by (rule 10(1) [OF _ _ refl 1(2) o'(3)]) (use o'(1) in auto)
    moreover have "typed ty v"
      using 1(3) o'(2) 10(2) [of "(v0, rest)" v0 rest ?fn] o'(1) by auto
    ultimately show ?thesis using 1(1) by simp
  qed
qed (auto simp: decodeInt_def decodeString_def decodeBool_def setInterface_def split: data.splits option.splits if_splits)

section \<open>Data without nulls decode without a panic\<close>

fun null_free :: "data \<Rightarrow> bool" where
  "null_free DNil = False"
| "null_free (DSlice ds) = (\<forall>d \<in> set ds. null_free d)"
| "null_free (DMap kk es) = (\<forall>(k, v) \<in> set es. null_free k \<and> null_free v)"
| "null_free _ = True"

lemma slice_loop_total:
  "(\<And>n d v. d \<in> set ds \<Longrightarrow> dec n d v \<noteq> Inl p) \<Longrightarrow> slice_loop dec zero name i ds old \<noteq> Inl p"
proof (induction ds arbitrary: i old)
  case (Cons d ds)
  obtain cur rest where c: "(case old of [] \<Rightarrow> (zero, []) | v # vs \<Rightarrow> (v, vs)) = (cur, rest)" by (metis prod.exhaust)
  have "slice_loop dec zero name (Suc i) ds rest \<noteq> Inl p" using Cons by simp
  with Cons.prems [of d] c show ?case by (auto simp: dbind_Inl)
qed simp

lemma map_loop_total:
  "(\<And>n k v. (k, v) \<in> set es \<Longrightarrow> deck n k \<noteq> Inl p \<and> dece n v \<noteq> Inl p) \<Longrightarrow> map_loop deck dece name es errs m \<noteq> Inl p"
proof (induction es arbitrary: errs m)
  case (Cons e es)
  obtain k v where e: "e = (k, v)" by (cases e)
  let ?n = "name @ ''['' @ key_text k @ '']''"
  have tl: "map_loop deck dece name es errs m \<noteq> Inl p" for errs m
    using Cons.IH Cons.prems by (metis list.set_intros(2))
  have "deck ?n k \<noteq> Inl p" "dece ?n v \<noteq> Inl p" using Cons.prems e by auto
  with tl show ?case
    unfolding e map_loop.simps Let_def by (auto simp: go_bind_Inl split: sum.splits if_splits)
qed simp

lemma lookup_field_in: "lookup_field f es = Some d \<Longrightarrow> \<exists>k. (k, d) \<in> set es"
proof (cases "map_of es (DString f)")
  case None
  assume "lookup_field f es = Some d"
  with None obtain k where "find (\<lambda>(k, v). case k of DString mK \<Rightarrow> equal_fold mK f | _ \<Rightarrow> False) es = Some (k, d)"
    by (auto simp: lookup_field_def)
  then have "(k, d) \<in> set es" by (auto simp: find_Some_iff in_set_conv_nth)
  then show ?thesis by blast
next
  case (Some x)
  assume "lookup_field f es = Some d"
  with Some show ?thesis by (auto simp: lookup_field_def dest: map_of_SomeD)
qed

lemma decode_fields_step:
  assumes "\<And>errs. decode_fields weak name fs es rest errs \<noteq> Inl p"
    and "\<And>d. lookup_field (if tag_name tag \<noteq> [] then tag_name tag else fname) es = Some d \<Longrightarrow> canSet \<Longrightarrow>
      decode weak (if name \<noteq> [] then name @ ''.'' @ (if tag_name tag \<noteq> [] then tag_name tag else fname)
        else if tag_name tag \<noteq> [] then tag_name tag else fname) ty d v0 \<noteq> Inl p"
    and "(case old of [] \<Rightarrow> (zero_value ty, []) | v # vs \<Rightarrow> (v, vs)) = (v0, rest)"
  shows "decode_fields weak name (Field fname tag canSet ty # fs) es old errs \<noteq> Inl p"
proof -
  have k: "go_bind (decode_fields weak name fs es rest errs) (\<lambda>(errs, vs). Inr (errs, v # vs)) \<noteq> Inl p" for errs v
    using assms(1) by (auto simp: go_bind_Inl)
  show ?thesis
    unfolding decode_fields.simps assms(3) Let_def prod.case
    using k assms(2) by (auto simp: go_bind_Inl split: option.splits sum.splits)
qed

lemma decode_no_panic:
  "null_free d \<Longrightarrow> decode weak name ty d old \<noteq> Inl p"
  "(\<forall>(k, v) \<in> set es. null_free k \<and> null_free v) \<Longrightarrow> decode_fields weak name fs es olds errs \<noteq> Inl p"
proof (induction weak name ty d old and weak name fs es olds errs rule: decode_decode_fields.induct)
  case (4 weak name t d old)
  show ?case
  proof (cases d)
    case (DSlice ds)
    then have "slice_loop (\<lambda>n x v. decode weak n t x v) (zero_value t) name 0 ds
        (case old of GSlice vs \<Rightarrow> vs | _ \<Rightarrow> []) \<noteq> Inl p"
      using 4 by (intro slice_loop_total) auto
    with DSlice show ?thesis by (simp add: dbind_Inl)
  qed simp_all
next
  case (5 weak name kt et d old)
  show ?case
  proof (cases d)
    case (DMap kk es)
    then have "map_loop (\<lambda>n x. decode weak n kt x (zero_value kt)) (\<lambda>n x. decode weak n et x (zero_value et))
        name es [] (case old of GMap (Some m) \<Rightarrow> m | _ \<Rightarrow> []) \<noteq> Inl p"
      using 5 by (intro map_loop_total) auto
    with DMap show ?thesis by (auto simp: go_bind_Inl split: if_splits)
  qed simp_all
next
  case (7 weak name fs d old)
  show ?case
  proof (cases d)
    case (DMap kk es)
    with 7 have "kk \<noteq> OtherKeys \<Longrightarrow> decode_fields weak name fs es (case old of GStruct vs \<Rightarrow> vs | _ \<Rightarrow> []) [] \<noteq> Inl p"
      by auto
    with DMap show ?thesis by (auto simp: go_bind_Inl split: if_splits)
  qed (use 7 in simp_all)
next
  case (10 weak name fname tag canSet ty fs es old errs)
  obtain v0 rest where c: "(case old of [] \<Rightarrow> (zero_value ty, []) | v # vs \<Rightarrow> (v, vs)) = (v0, rest)" by (metis prod.exhaust)
  show ?case
  proof (rule decode_fields_step [OF _ _ c])
    show "decode_fields weak name fs es rest errs \<noteq> Inl p" for errs
      using 10(1) [OF c [symmetric] refl refl] 10(3) .
    fix d
    assume l: "lookup_field (if tag_name tag \<noteq> [] then tag_name tag else fname) es = Some d" and "canSet"
    moreover have "null_free d" using lookup_field_in [OF l] 10(3) by auto
    ultimately show "decode weak (if name \<noteq> [] then name @ ''.'' @ (if tag_name tag \<noteq> [] then tag_name tag else fname)
        else if tag_name tag \<noteq> [] then tag_name tag else fname) ty d v0 \<noteq> Inl p"
      using 10(2) [OF c [symmetric] refl refl refl l] by simp
  qed
qed (auto simp: decodeInt_def decodeString_def decodeBool_def setInterface_def split: data.splits option.splits)

lemma Decode_loop_safe:
  assumes "null_free (DMap StringKeys src)"
  shows "list_all2 (\<lambda>f v. typed (fd_type (snd f)) v) fs old \<Longrightarrow>
    (\<exists>e. Decode_loop weak fs src old = Inr (Inl e)) \<or>
    (\<exists>vs. Decode_loop weak fs src old = Inr (Inr vs) \<and> list_all2 (\<lambda>f v. typed (fd_type (snd f)) v) fs vs)"
proof (induction fs arbitrary: old)
  case (Cons f fs)
  obtain an fd where f: "f = (an, fd)" by (cases f)
  from Cons.prems f obtain v0 rest where o': "old = v0 # rest" "typed (fd_type fd) v0"
    "list_all2 (\<lambda>f v. typed (fd_type (snd f)) v) fs rest" by (cases old) auto
  let ?rest = "\<lambda>v. dbind (Decode_loop weak fs src rest) (\<lambda>vs. Inr (Inr (v # vs)))"
  define ok where "ok r \<longleftrightarrow> (\<exists>e. r = Inr (Inl e)) \<or>
    (\<exists>vs. r = Inr (Inr vs) \<and> list_all2 (\<lambda>f v. typed (fd_type (snd f)) v) (f # fs) vs)" for r :: "gval list decoded"
  have r: "ok (?rest v)" if "typed (fd_type fd) v" for v
    using Cons.IH [OF o'(3)] that f by (auto simp: dbind_def ok_def)
  have d: "ok (dbind (decode weak n (fd_type fd) d v0) ?rest)" if nf: "null_free d" for n d
  proof -
    obtain x where x: "decode weak n (fd_type fd) d v0 = Inr x"
      using decode_no_panic(1) [OF nf] by (metis sum.exhaust)
    show ?thesis
      using r decode_typed(1) [OF _ o'(2), of weak n d] x by (cases x) (auto simp: dbind_def ok_def)
  qed
  have nf: "map_of src k = Some d \<Longrightarrow> null_free d" for k d
    using assms by (auto dest: map_of_SomeD)
  have e: "ok (Inr (Inl e))" for e by (simp add: ok_def)
  have "ok (Decode_loop weak ((an, fd) # fs) src (v0 # rest))"
    unfolding Decode_loop.simps list.case prod.case Let_def
    using r [OF o'(2)] d [OF assms] d [OF nf] e by (simp split: option.split del: null_free.simps)
  then show ?case unfolding ok_def f o'(1) .
qed simp


definition demo_options :: "(bool \<times> gfield) list" where
  "demo_options =
     [(True, Field ''BasicOption'' [] True (TStruct [Field ''Interface'' ''interface-name,omitempty'' True TString])),
      (False, Field ''Name'' ''name'' True TString), (False, Field ''Port'' ''port'' True TInt),
      (False, Field ''UDP'' ''udp,omitempty'' True TBool), (False, Field ''ALPN'' ''alpn,omitempty'' True (TSlice TString)),
      (False, Field ''WSOpts'' ''ws-opts,omitempty'' True (TStruct [Field ''Path'' ''path,omitempty'' True TString]))]"

definition demo_zero :: "gval list" where
  "demo_zero = map (\<lambda>f. zero_value (fd_type (snd f))) demo_options"

lemma demo_zero_typed: "list_all2 (\<lambda>f v. typed (fd_type (snd f)) v) demo_options demo_zero"
  by (simp add: demo_zero_def list_all2_conv_all_nth)


text \<open>
  Nulls are not refused but panic: a key that is present without a value, in a nested struct
  or for an embedded field, ends the program instead of an error.
\<close>

lemma null_option_panics:
  "Decode True demo_options [(DString ''name'', DString ''n''), (DString ''port'', DInt 443),
     (DString ''ws-opts'', DMap StringKeys [(DString ''path'', DNil)])] demo_zero = Inl ZeroReflectValue"
  "Decode True demo_options [(DString ''name'', DString ''n''), (DString ''port'', DInt 443),
     (DString ''interface-name'', DNil)] demo_zero = Inl ZeroReflectValue"
  "Decode True demo_options [(DString ''name'', DString ''n''), (DString ''port'', DNil)] demo_zero =
     Inr (Inl (KeyMissing ''port''))"
  by code_simp+

section \<open>Values survive being written as data\<close>

fun field_key :: "gfield \<Rightarrow> string" where
  "field_key (Field fname tag canSet ty) = (if tag_name tag \<noteq> [] then tag_name tag else fname)"

fun encode :: "gty \<Rightarrow> gval \<Rightarrow> data"
  and encode_fields :: "gfield list \<Rightarrow> gval list \<Rightarrow> (data \<times> data) list" where
  "encode TInt (GInt i) = DInt i"
| "encode TString (GString s) = DString s"
| "encode TBool (GBool b) = DBool b"
| "encode (TSlice t) (GSlice vs) = DSlice (map (encode t) vs)"
| "encode (TMap kt et) (GMap (Some m)) = DMap InterfaceKeys (map (\<lambda>(k, v). (encode kt k, encode et v)) m)"
| "encode TInterface (GInterface (Some d)) = d"
| "encode (TStruct fs) (GStruct vs) = DMap StringKeys (encode_fields fs vs)"
| "encode _ _ = DNil"
| "encode_fields (f # fs) (v # vs) = (DString (field_key f), encode (fd_type f) v) # encode_fields fs vs"
| "encode_fields _ _ = []"

text \<open>
  A value can be written: no nil map and no nil interface, the keys of a map distinct, the
  keys of a struct's fields distinct and its fields settable.
\<close>

fun encodable :: "gty \<Rightarrow> gval \<Rightarrow> bool"
  and encodable_fields :: "gfield list \<Rightarrow> gval list \<Rightarrow> bool" where
  "encodable TInt (GInt i) = True"
| "encodable TString (GString s) = True"
| "encodable TBool (GBool b) = True"
| "encodable (TSlice t) (GSlice vs) = (\<forall>v \<in> set vs. encodable t v)"
| "encodable (TMap kt et) (GMap (Some m)) =
     (distinct (map fst m) \<and> (\<forall>kv \<in> set m. encodable kt (fst kv) \<and> encodable et (snd kv)))"
| "encodable TInterface (GInterface (Some d)) = (d \<noteq> DNil)"
| "encodable (TStruct fs) (GStruct vs) = (distinct (map field_key fs) \<and> encodable_fields fs vs)"
| "encodable _ _ = False"
| "encodable_fields [] [] = True"
| "encodable_fields (f # fs) (v # vs) = (fd_canSet f \<and> encodable (fd_type f) v \<and> encodable_fields fs vs)"
| "encodable_fields _ _ = False"

lemma encode_not_nil: "encodable ty v \<Longrightarrow> encode ty v \<noteq> DNil"
  by (cases "(ty, v)" rule: encodable.cases) auto

lemma slice_loop_all:
  "(\<And>n v. v \<in> set vs \<Longrightarrow> dec n (enc v) zero = Inr (Inr v)) \<Longrightarrow>
    slice_loop dec zero name i (map enc vs) [] = Inr (Inr vs)"
  by (induction vs arbitrary: i) (simp_all add: dbind_def)

lemma assoc_set_new: "a \<notin> fst ` set m \<Longrightarrow> assoc_set a b m = m @ [(a, b)]"
  by (induction a b m rule: assoc_set.induct) auto

lemma map_loop_all:
  assumes "\<And>n k v. (k, v) \<in> set m \<Longrightarrow>
      deck n (ek k) = Inr (Inr k) \<and> dece n (ev v) = Inr (Inr v) \<and> ev v \<noteq> DNil"
    and "distinct (map fst (acc @ m))"
  shows "map_loop deck dece name (map (\<lambda>(k, v). (ek k, ev v)) m) [] acc = Inr ([], acc @ m)"
  using assms
proof (induction m arbitrary: acc)
  case (Cons kv m)
  obtain k v where kv: "kv = (k, v)" by (cases kv)
  have "assoc_set k v acc = acc @ [(k, v)]" using Cons.prems(2) kv by (intro assoc_set_new) auto
  moreover have "map_loop deck dece name (map (\<lambda>(k, v). (ek k, ev v)) m) [] (acc @ [(k, v)]) = Inr ([], (acc @ [(k, v)]) @ m)"
    using Cons.prems kv by (intro Cons.IH) auto
  ultimately show ?case using Cons.prems(1) [of k v] kv by (simp add: Let_def)
qed simp

lemma decode_fields_read:
  assumes "lookup_field (field_key f) es = Some d" "fd_canSet f" "\<And>n. decode weak n (fd_type f) d v0 = Inr (Inr v)"
    and "decode_fields weak name fs es rest [] = Inr ([], vs)"
  shows "decode_fields weak name (f # fs) es (v0 # rest) [] = Inr ([], v # vs)"
  using assms by (cases f) (simp add: Let_def del: list.sel)

lemma decode_encode:
  "encodable ty v \<Longrightarrow> decode weak name ty (encode ty v) (zero_value ty) = Inr (Inr v)"
  "encodable_fields fs vs \<Longrightarrow>
     (\<forall>fv \<in> set (zip fs vs). lookup_field (field_key (fst fv)) es = Some (encode (fd_type (fst fv)) (snd fv))) \<Longrightarrow>
     decode_fields weak name fs es (map (\<lambda>f. zero_value (fd_type f)) fs) [] = Inr ([], vs)"
proof (induction ty v and fs vs arbitrary: name and name es rule: encodable_encodable_fields.induct)
  case (4 t vs)
  then show ?case by (simp add: slice_loop_all dbind_def)
next
  case (5 kt et m)
  then have "map_loop (\<lambda>n x. decode weak n kt x (zero_value kt)) (\<lambda>n x. decode weak n et x (zero_value et)) name
      (map (\<lambda>(k, v). (encode kt k, encode et v)) m) [] [] = Inr ([], [] @ m)"
    by (intro map_loop_all) (use encode_not_nil in fastforce)+
  then show ?case by simp
next
  case (7 fs vs)
  have "length fs = length vs \<Longrightarrow> distinct (map field_key fs) \<Longrightarrow> fv \<in> set (zip fs vs) \<Longrightarrow>
    map_of (encode_fields fs vs) (DString (field_key (fst fv))) = Some (encode (fd_type (fst fv)) (snd fv))" for fs vs fv
  proof (induction fs vs rule: list_induct2)
    case (Cons f fs v vs)
    moreover have "field_key (fst fv) \<noteq> field_key f" if "fv \<in> set (zip fs vs)"
      using Cons.prems(1) set_zip_leftD [of "fst fv" "snd fv" fs vs] that by (force simp: image_iff)
    ultimately show ?case by auto
  qed simp
  moreover have "length fs = length vs" if "encodable_fields fs vs"
    using that by (induction fs arbitrary: vs) (case_tac vs; simp)+
  ultimately have "\<forall>fv \<in> set (zip fs vs). lookup_field (field_key (fst fv)) (encode_fields fs vs) =
      Some (encode (fd_type (fst fv)) (snd fv))"
    using 7(2) by (simp add: lookup_field_def)
  from 7(1) [OF _ this] 7(2) show ?case by simp
next
  case (10 f fs v vs)
  then show ?case by (simp add: decode_fields_read del: decode_fields.simps)
qed (auto simp: decodeInt_def decodeString_def decodeBool_def setInterface_def split: data.splits)

text \<open>
  Decoding undoes encoding: a value whose maps are made, whose interfaces hold something
  and whose structs have settable fields with distinct keys is restored by the decoder, weak
  typing or not, from the data that spells it, and no error or panic comes out of it.
\<close>

theorem decode_roundtrip:
  "encodable ty v \<Longrightarrow> decode weak name ty (encode ty v) (zero_value ty) = Inr (Inr v)"
  by (rule decode_encode(1))

theorem decode_roundtrip_witness:
  "\<exists>fs vs. length fs = 3 \<and> decode False ''cfg'' (TStruct fs) (encode (TStruct fs) (GStruct vs)) (zero_value (TStruct fs)) =
     Inr (Inr (GStruct vs))"
proof -
  let ?fs = "[Field ''Name'' ''name'' True TString, Field ''Ports'' ''ports,omitempty'' True (TSlice TInt),
     Field ''Headers'' [] True (TMap TString TInterface)]"
  let ?vs = "[GString ''n'', GSlice [GInt 80, GInt 443], GMap (Some [(GString ''Host'', GInterface (Some (DBool True)))])]"
  have "encodable (TStruct ?fs) (GStruct ?vs)" by code_simp
  from decode_roundtrip [OF this, of False "''cfg''"] show ?thesis
    by (intro exI [of _ ?fs] exI [of _ ?vs]) simp
qed

end
