(* ===== verification/ClashPeel.thy ===== *)
theory ClashPeel
  imports GoPrelude "HOL-Library.AList"
begin

text \<open>
  The loop shape both phases of \<open>proxyGroupsDagSort\<close> (\<open>config/utils.go\<close>) share, over any kind
  of node, and its correctness as a locale: what the loop removes, in which order, and what
  it leaves.
\<close>

section \<open>Removing the nodes without incoming edges\<close>

text \<open>
  Two loops of the source remove nodes from a graph in the same way: a queue holds the nodes
  whose counter is 0; the first of them is removed, the counters of its successors go down,
  and a successor whose counter reaches 0 joins the queue.  A successor that is not in the
  graph is a nil pointer.
\<close>

fun release ::
  "('n \<Rightarrow> int) \<Rightarrow> ('n \<Rightarrow> 'n) \<Rightarrow> string list \<Rightarrow> (string \<times> 'n) list \<Rightarrow> string list \<Rightarrow> ((string \<times> 'n) list \<times> string list) go" where
  "release cnt dec [] g q = Inr (g, q)"
| "release cnt dec (p # ps) g q =
     (case map_of g p of
        None \<Rightarrow> Inl NilDereference
      | Some c \<Rightarrow> release cnt dec ps (AList.update p (dec c) g) (if cnt (dec c) = 0 then q @ [p] else q))"

lemma keys_update: "map_of g p = Some c \<Longrightarrow> map fst (AList.update p d g) = map fst g"
  by (induction g) auto

lemma release_keys: "release cnt dec ps g q = Inr (g', q') \<Longrightarrow> map fst g' = map fst g"
  by (induction ps arbitrary: g q) (auto simp: keys_update split: option.splits)

lemma keys_delete: "fst ` set (AList.delete n g) = fst ` set g - {n}"
  using arg_cong [OF AList.delete_keys [of n g], of set] by simp

lemma length_delete_less: "map_of g n = Some c \<Longrightarrow> length (AList.delete n g) < length g"
proof -
  assume "map_of g n = Some c"
  then have "n \<in> fst ` set g" by (metis map_of_eq_None_iff option.distinct(1))
  then show ?thesis by (force simp: AList.delete_eq intro!: length_filter_less)
qed

function peel ::
  "('n \<Rightarrow> int) \<Rightarrow> ('n \<Rightarrow> 'n) \<Rightarrow> ('n \<Rightarrow> string list) \<Rightarrow> (string \<times> 'n) list \<Rightarrow> string list \<Rightarrow> (string list \<times> (string \<times> 'n) list) go" where
  "peel cnt dec succs g [] = Inr ([], g)"
| "peel cnt dec succs g (n # q) =
     (case map_of g n of
        None \<Rightarrow> Inl NilDereference
      | Some node \<Rightarrow>
          (case release cnt dec (succs node) g q of
             Inl e \<Rightarrow> Inl e
           | Inr (g', q') \<Rightarrow>
               go_bind (peel cnt dec succs (AList.delete n g') q') (\<lambda>(ord, g''). Inr (n # ord, g''))))"
  by pat_completeness auto
termination
proof (relation "measure (\<lambda>(_, _, _, g, _). length g)")
  fix cnt :: "'n \<Rightarrow> int" and dec succs g n q node g' q' and x :: "(string \<times> 'n) list \<times> string list"
  assume n: "map_of g n = Some node" and r: "release cnt dec (succs node) g q = Inr x" "(g', q') = x"
  from r have k: "map fst g' = map fst g" by (auto dest: release_keys)
  with n have "n \<in> fst ` set g'"
    by (metis list.set_map map_of_eq_None_iff option.distinct(1))
  then obtain c where "map_of g' n = Some c" by (metis map_of_eq_None_iff option.exhaust)
  then have "length (AList.delete n g') < length g" using k by (metis length_delete_less length_map)
  then show "((cnt, dec, succs, AList.delete n g', q'), cnt, dec, succs, g, n # q) \<in> measure (\<lambda>(_, _, _, g, _). length g)"
    by simp
qed simp

locale peeling =
  fixes cnt :: "'n \<Rightarrow> int" and dec :: "'n \<Rightarrow> 'n" and lab :: "'n \<Rightarrow> 'l" and succs :: "'n \<Rightarrow> string list"
  assumes cnt_dec [simp]: "cnt (dec c) = cnt c - 1"
    and lab_dec [simp]: "lab (dec c) = lab c"
    and succs_lab: "lab c = lab d \<Longrightarrow> succs c = succs d"
begin

lemma dec_pow [simp]: "cnt ((dec ^^ k) c) = cnt c - int k" "lab ((dec ^^ k) c) = lab c"
  by (induction k) simp_all

lemma succs_pow [simp]: "succs ((dec ^^ k) c) = succs c"
  by (rule succs_lab) simp

definition zeros :: "(string \<times> 'n) list \<Rightarrow> string set" where
  "zeros g = {n. \<exists>c. map_of g n = Some c \<and> cnt c = 0}"

lemma release_ok:
  assumes "set ps \<subseteq> fst ` set g" "distinct q" "set q = zeros g - {x}" "x \<notin> set ps"
    and "\<And>n c. map_of g n = Some c \<Longrightarrow> int (count_list ps n) \<le> cnt c"
  shows "\<exists>g' q'. release cnt dec ps g q = Inr (g', q') \<and> map fst g' = map fst g \<and>
    (\<forall>k. map_of g' k = map_option (dec ^^ count_list ps k) (map_of g k)) \<and> distinct q' \<and> set q' = zeros g' - {x}"
  using assms
proof (induction ps arbitrary: g q)
  case (Cons p ps)
  from Cons.prems(1) obtain c where c: "map_of g p = Some c" by (metis list.set_intros(1) map_of_eq_None_iff option.exhaust subsetD)
  let ?g = "AList.update p (dec c) g" and ?q = "if cnt (dec c) = 0 then q @ [p] else q"
  have k: "map fst ?g = map fst g" using keys_update [OF c] .
  then have k': "fst ` set ?g = fst ` set g" by (metis list.set_map)
  have m: "map_of ?g = (map_of g)(p \<mapsto> dec c)" by (simp add: update_conv')
  have pos: "0 < cnt c" using Cons.prems(5) [OF c] by simp
  have "p \<notin> zeros g" using pos c by (simp add: zeros_def)
  with Cons.prems(3,4) have z: "set ?q = zeros ?g - {x}" "p \<notin> set q"
    using c pos by (auto simp: zeros_def m split: if_splits)
  obtain g' q' where g': "release cnt dec ps ?g ?q = Inr (g', q')" "map fst g' = map fst ?g"
    "\<And>k. map_of g' k = map_option (dec ^^ count_list ps k) (map_of ?g k)" "distinct q'" "set q' = zeros g' - {x}"
  proof (rule exE [OF Cons.IH [of ?g ?q]])
    show "set ps \<subseteq> fst ` set ?g" using Cons.prems(1) k' by auto
    show "distinct ?q" using Cons.prems(2) z(2) by simp
    show "set ?q = zeros ?g - {x}" by (rule z(1))
    show "x \<notin> set ps" using Cons.prems(4) by simp
    show "int (count_list ps n) \<le> cnt d" if "map_of ?g n = Some d" for n d
      using that Cons.prems(5) [of n] c by (auto simp: m split: if_splits dest: Cons.prems(5))
  qed blast
  have "map_of g' j = map_option (dec ^^ count_list (p # ps) j) (map_of g j)" for j
    using c by (simp add: g'(3) m funpow_swap1)
  with g' k c show ?case by simp
qed (auto simp: option.map_id)

definition edges_in :: "(string \<times> 'n) list \<Rightarrow> string \<Rightarrow> nat" where
  "edges_in g n = (\<Sum>k \<in> fst ` set g. count_list (succs (the (map_of g k))) n)"

definition closed :: "(string \<times> 'n) list \<Rightarrow> bool" where
  "closed g \<longleftrightarrow> (\<forall>m d. map_of g m = Some d \<longrightarrow> set (succs d) \<subseteq> fst ` set g)"

definition wf_graph :: "(string \<times> 'n) list \<Rightarrow> string list \<Rightarrow> bool" where
  "wf_graph g q \<longleftrightarrow> distinct (map fst g) \<and> distinct q \<and> set q = zeros g \<and> closed g \<and>
     (\<forall>n c. map_of g n = Some c \<longrightarrow> cnt c = int (edges_in g n))"

lemma edge_counts:
  assumes "map_of g m = Some d"
  shows "count_list (succs d) n \<le> edges_in g n"
proof -
  have "m \<in> fst ` set g" using assms by (metis map_of_eq_None_iff option.distinct(1))
  then have "count_list (succs (the (map_of g m))) n \<le> edges_in g n"
    unfolding edges_in_def by (intro member_le_sum) auto
  with assms show ?thesis by simp
qed

lemma zero_no_edge:
  assumes "wf_graph g q" "n \<in> zeros g" "map_of g m = Some d"
  shows "n \<notin> set (succs d)"
proof -
  from assms(1,2) have "edges_in g n = 0" by (auto simp: wf_graph_def zeros_def)
  with edge_counts [OF assms(3), of n] show ?thesis by (simp add: count_list_0_iff)
qed

lemma peel_step:
  assumes w: "wf_graph g (n # q)"
  obtains c g' q' where "map_of g n = Some c" "release cnt dec (succs c) g q = Inr (g', q')"
    "wf_graph (AList.delete n g') q'"
    "\<And>k. map_option lab (map_of (AList.delete n g') k) = (if k = n then None else map_option lab (map_of g k))"
proof -
  from w have n: "n \<in> zeros g" by (auto simp: wf_graph_def)
  then obtain c where c: "map_of g n = Some c" by (auto simp: zeros_def)
  from w c have cl: "set (succs c) \<subseteq> fst ` set g" by (auto simp: wf_graph_def closed_def)
  have x: "n \<notin> set (succs c)" by (rule zero_no_edge [OF w n c])
  have "int (count_list (succs c) k) \<le> cnt d" if "map_of g k = Some d" for k d
    using w that edge_counts [OF c, of k] by (auto simp: wf_graph_def)
  then obtain g' q' where r: "release cnt dec (succs c) g q = Inr (g', q')" "map fst g' = map fst g"
      "\<And>k. map_of g' k = map_option (dec ^^ count_list (succs c) k) (map_of g k)"
      "distinct q'" "set q' = zeros g' - {n}"
    using release_ok [OF cl, of q n] w x by (force simp: wf_graph_def)
  let ?h = "AList.delete n g'"
  from r(2) have ks: "fst ` set g' = fst ` set g" by (metis list.set_map)
  have hk: "fst ` set ?h = fst ` set g - {n}" using keys_delete [of n g'] ks by simp
  have hm: "map_of ?h = (map_of g')(n := None)" by (simp add: delete_conv')
  have hl: "map_option lab (map_of ?h k) = (if k = n then None else map_option lab (map_of g k))" for k
    by (simp add: hm r(3) option.map_comp o_def)
  have sc: "succs (the (map_of ?h k)) = succs (the (map_of g k))" if "k \<in> fst ` set g - {n}" for k
  proof -
    from that obtain d where "map_of g k = Some d" by (metis DiffE map_of_eq_None_iff option.exhaust)
    with that show ?thesis by (simp add: hm r(3))
  qed
  have ei: "edges_in g k = count_list (succs c) k + edges_in ?h k" for k
  proof -
    have "n \<in> fst ` set g" using c by (metis map_of_eq_None_iff option.distinct(1))
    then have "edges_in g k = count_list (succs (the (map_of g n))) k
        + (\<Sum>j \<in> fst ` set g - {n}. count_list (succs (the (map_of g j))) k)"
      unfolding edges_in_def by (intro sum.remove) auto
    also have "(\<Sum>j \<in> fst ` set g - {n}. count_list (succs (the (map_of g j))) k) = edges_in ?h k"
      unfolding edges_in_def hk using sc by (intro sum.cong) auto
    finally show ?thesis using c by simp
  qed
  have "wf_graph ?h q'"
    unfolding wf_graph_def
  proof (intro conjI allI impI)
    show "distinct (map fst ?h)" using w r(2) by (metis distinct_delete wf_graph_def)
    show "set q' = zeros ?h" using r(5) by (auto simp: zeros_def hm)
    show "closed ?h"
    proof (unfold closed_def, intro allI impI)
      fix m d assume d: "map_of ?h m = Some d"
      then have m: "m \<noteq> n" and "map_option lab (map_of g m) = Some (lab d)"
        using hl [of m] by (auto split: if_splits)
      then obtain e where e: "map_of g m = Some e" "lab e = lab d" by auto
      then have e: "map_of g m = Some e" "succs d = succs e" using succs_lab [of d e] by simp_all
      then have "set (succs d) \<subseteq> fst ` set g" using w by (auto simp: wf_graph_def closed_def)
      then show "set (succs d) \<subseteq> fst ` set ?h" using hk zero_no_edge [OF w n e(1)] e(2) by auto
    qed
    fix k d assume "map_of ?h k = Some d"
    then obtain e where e: "map_of g k = Some e" "d = (dec ^^ count_list (succs c) k) e"
      by (auto simp: hm r(3) split: if_splits)
    then have "cnt e = int (edges_in g k)" using w by (auto simp: wf_graph_def)
    with e(2) ei [of k] show "cnt d = int (edges_in ?h k)" by simp
  qed (rule r(4))
  with that [OF c r(1)] hl show ?thesis by blast
qed

text \<open>
  The nodes in the order of their removal: each was removed after every node with an edge
  into it; what is left has an edge into each of its nodes.
\<close>

lemma peel_ok:
  assumes "wf_graph g q"
  shows "\<exists>ord g'. peel cnt dec succs g q = Inr (ord, g') \<and> wf_graph g' [] \<and> distinct ord \<and>
    set ord \<union> fst ` set g' = fst ` set g \<and> set ord \<inter> fst ` set g' = {} \<and>
    (\<forall>k. map_option lab (map_of g' k) = (if k \<in> set ord then None else map_option lab (map_of g k))) \<and>
    sorted_wrt (\<lambda>a b. a \<notin> set (succs (the (map_of g b)))) ord \<and>
    (\<forall>m \<in> set ord. m \<notin> set (succs (the (map_of g m)))) \<and>
    (\<forall>m d. map_of g' m = Some d \<longrightarrow> set ord \<inter> set (succs d) = {})"
  using assms
proof (induction "length g" arbitrary: g q rule: less_induct)
  case less
  show ?case
  proof (cases q)
    case Nil
    with less.prems show ?thesis by auto
  next
    case (Cons n r)
    with less.prems have w: "wf_graph g (n # r)" by simp
    from peel_step [OF w] obtain c g1 q1 where c: "map_of g n = Some c" and r: "release cnt dec (succs c) g r = Inr (g1, q1)"
      and w1: "wf_graph (AList.delete n g1) q1"
      and l: "\<And>k. map_option lab (map_of (AList.delete n g1) k) = (if k = n then None else map_option lab (map_of g k))"
      by blast
    let ?h = "AList.delete n g1"
    have ks: "map fst g1 = map fst g" by (rule release_keys [OF r])
    have "n \<in> fst ` set g1" using ks c by (metis list.set_map map_of_eq_None_iff option.distinct(1))
    then obtain d where "map_of g1 n = Some d" by (metis map_of_eq_None_iff option.exhaust)
    then have "length ?h < length g" using ks by (metis length_delete_less length_map)
    from less.hyps [OF this w1] obtain ord g' where
      p: "peel cnt dec succs ?h q1 = Inr (ord, g')" "wf_graph g' []" "distinct ord"
        "set ord \<union> fst ` set g' = fst ` set ?h" "set ord \<inter> fst ` set g' = {}"
        "\<forall>k. map_option lab (map_of g' k) = (if k \<in> set ord then None else map_option lab (map_of ?h k))"
        "sorted_wrt (\<lambda>a b. a \<notin> set (succs (the (map_of ?h b)))) ord"
        "\<forall>m \<in> set ord. m \<notin> set (succs (the (map_of ?h m)))"
        "\<forall>m d. map_of g' m = Some d \<longrightarrow> set ord \<inter> set (succs d) = {}" by blast
    have hk: "fst ` set ?h = fst ` set g - {n}"
      using keys_delete [of n g1] ks by (metis list.set_map)
    have sd: "succs (the (map_of ?h k)) = succs (the (map_of g k))" if "k \<in> fst ` set g - {n}" for k
    proof -
      from that obtain e where e: "map_of g k = Some e" by (metis DiffE map_of_eq_None_iff option.exhaust)
      with l [of k] that show ?thesis by (cases "map_of ?h k") (auto intro: succs_lab)
    qed
    have n: "n \<in> zeros g" using w by (auto simp: wf_graph_def)
    have nk: "n \<in> fst ` set g" using c by (metis map_of_eq_None_iff option.distinct(1))
    have ne: "n \<notin> set (succs (the (map_of g k)))" if "k \<in> fst ` set g" for k
      using that zero_no_edge [OF w n] by (metis map_of_eq_None_iff option.exhaust option.sel)
    have ok: "set ord \<subseteq> fst ` set g - {n}" using p(4) hk by auto
    have "peel cnt dec succs g q = Inr (n # ord, g')" using Cons c r p(1) by simp
    moreover have "set (n # ord) \<union> fst ` set g' = fst ` set g" using p(4) hk nk by auto
    moreover have "set (n # ord) \<inter> fst ` set g' = {}" using p(4,5) hk by auto
    moreover have "map_option lab (map_of g' k) = (if k \<in> set (n # ord) then None else map_option lab (map_of g k))" for k
      by (simp only: p(6) [rule_format] l list.set insert_iff) simp
    moreover have "sorted_wrt (\<lambda>a b. a \<notin> set (succs (the (map_of g b)))) (n # ord)"
    proof -
      have "sorted_wrt (\<lambda>a b. a \<notin> set (succs (the (map_of g b)))) ord"
      proof (rule sorted_wrt_mono_rel [OF _ p(7)])
        fix x y assume "y \<in> set ord" and a: "x \<notin> set (succs (the (map_of ?h y)))"
        then have "y \<in> fst ` set g - {n}" using ok by blast
        from a [unfolded sd [OF this]] show "x \<notin> set (succs (the (map_of g y)))" .
      qed
      moreover have "\<forall>k \<in> set ord. n \<notin> set (succs (the (map_of g k)))" using ne ok by blast
      ultimately show ?thesis by simp
    qed
    moreover have "\<forall>m \<in> set (n # ord). m \<notin> set (succs (the (map_of g m)))"
    proof
      fix m assume "m \<in> set (n # ord)"
      then consider "m = n" | "m \<in> set ord" "m \<in> fst ` set g - {n}" using ok by auto
      then show "m \<notin> set (succs (the (map_of g m)))"
      proof cases
        case 2
        with p(8) have "m \<notin> set (succs (the (map_of ?h m)))" by blast
        then show ?thesis unfolding sd [OF 2(2)] .
      qed (use ne [OF nk] in simp)
    qed
    moreover have "set (n # ord) \<inter> set (succs d) = {}" if "map_of g' m = Some d" for m d
    proof -
      have m: "m \<in> fst ` set g - {n}" using that p(4) hk by (metis UnCI map_of_eq_None_iff option.distinct(1))
      have "m \<notin> set ord" using that p(5) by (metis IntI empty_iff map_of_eq_None_iff option.distinct(1))
      then have "map_option lab (map_of g' m) = map_option lab (map_of g m)"
        using m by (simp only: p(6) [rule_format] l) simp
      then have "succs d = succs (the (map_of g m))" using that by (cases "map_of g m") (auto intro: succs_lab)
      then have "n \<notin> set (succs d)" using ne m by auto
      moreover have "set ord \<inter> set (succs d) = {}" using p(9) that by blast
      ultimately show ?thesis by simp
    qed
    moreover have "distinct (n # ord)" using p(3) ok by auto
    ultimately show ?thesis using p(2) by blast
  qed
qed

lemma left_pred:
  assumes "wf_graph g []" "map_of g n = Some c"
  shows "\<exists>m d. map_of g m = Some d \<and> n \<in> set (succs d)"
proof (rule ccontr)
  assume no: "\<not> ?thesis"
  have "edges_in g n = 0"
    unfolding edges_in_def
  proof (rule sum.neutral, rule ballI)
    fix k assume "k \<in> fst ` set g"
    then obtain d where "map_of g k = Some d" by (metis map_of_eq_None_iff option.exhaust)
    with no show "count_list (succs (the (map_of g k))) n = 0" by (auto simp: count_list_0_iff)
  qed
  then have "n \<in> zeros g" using assms by (auto simp: wf_graph_def zeros_def)
  with assms(1) show False by (simp add: wf_graph_def)
qed

end

end
