(* ===== verification/ClashDag.thy ===== *)
theory ClashDag
  imports ClashPeel ClashStructure "HOL-Library.Multiset"
begin

text \<open>
  \<open>config/utils.go\<close>: \<open>proxyGroupsDagSort\<close>, which puts the proxy groups of a configuration
  into an order in which every group comes after the groups it contains, or names the groups
  of a loop.  The graph is an association list from names to nodes; the order in which a
  \<open>range\<close> over the graph visits the names is arbitrary in Go, so each of the five such loops
  takes its order from a parameter.
\<close>

section \<open>The options of a group\<close>

type_synonym mapping = "(data \<times> data) list"

record group_option =
  go_Name :: string
  go_Type :: string
  go_Proxies :: "string list"
  go_Use :: "string list"
  go_URL :: string
  go_Interval :: int
  go_Lazy :: bool
  go_DisableUDP :: bool

definition GroupCommonOption :: "(bool \<times> gfield) list" where
  "GroupCommonOption =
     [(True, Field ''BasicOption'' [] True
         (TStruct [Field ''Interface'' ''interface-name,omitempty'' True TString,
                   Field ''RoutingMark'' ''routing-mark,omitempty'' True TInt])),
      (False, Field ''Name'' ''name'' True TString),
      (False, Field ''Type'' ''type'' True TString),
      (False, Field ''Proxies'' ''proxies,omitempty'' True (TSlice TString)),
      (False, Field ''Use'' ''use,omitempty'' True (TSlice TString)),
      (False, Field ''URL'' ''url,omitempty'' True TString),
      (False, Field ''Interval'' ''interval,omitempty'' True TInt),
      (False, Field ''Lazy'' ''lazy,omitempty'' True TBool),
      (False, Field ''DisableUDP'' ''disable-udp,omitempty'' True TBool)]"

definition group_start :: "bool \<Rightarrow> gval list" where
  "group_start lazy =
     [GStruct [GString [], GInt 0], GString [], GString [], GSlice [], GSlice [], GString [], GInt 0, GBool lazy, GBool False]"

fun gv_string :: "gval \<Rightarrow> string" where
  "gv_string (GString s) = s"
| "gv_string _ = []"

fun gv_int :: "gval \<Rightarrow> int" where
  "gv_int (GInt i) = i"
| "gv_int _ = 0"

fun gv_bool :: "gval \<Rightarrow> bool" where
  "gv_bool (GBool b) = b"
| "gv_bool _ = False"

fun gv_strings :: "gval \<Rightarrow> string list" where
  "gv_strings (GSlice vs) = map gv_string vs"
| "gv_strings _ = []"

definition group_of :: "gval list \<Rightarrow> group_option" where
  "group_of vs =
     \<lparr>go_Name = gv_string (vs ! 1), go_Type = gv_string (vs ! 2), go_Proxies = gv_strings (vs ! 3),
      go_Use = gv_strings (vs ! 4), go_URL = gv_string (vs ! 5), go_Interval = gv_int (vs ! 6),
      go_Lazy = gv_bool (vs ! 7), go_DisableUDP = gv_bool (vs ! 8)\<rparr>"

definition decode_group :: "bool \<Rightarrow> mapping \<Rightarrow> group_option decoded" where
  "decode_group lazy m = dbind (Decode True GroupCommonOption m (group_start lazy)) (\<lambda>vs. Inr (Inr (group_of vs)))"

section \<open>The graph\<close>

record gnode =
  gn_indegree :: int
  gn_topo :: int
  gn_data :: "mapping option"
  gn_outdegree :: int
  gn_option :: "group_option option"
  gn_from :: "string list"

type_synonym graph = "(string \<times> gnode) list"

datatype dag_err =
    GroupInvalid decode_err
  | DuplicateGroup string
  | LoopDetected "string list"

text \<open>Step 1.1: one node for each group, and one for each name a group contains.\<close>

fun edge_loop :: "string list \<Rightarrow> graph \<Rightarrow> graph" where
  "edge_loop [] g = g"
| "edge_loop (p # ps) g =
     edge_loop ps (case map_of g p of
         Some node \<Rightarrow> AList.update p (node\<lparr>gn_indegree := gn_indegree node + 1\<rparr>) g
       | None \<Rightarrow> AList.update p \<lparr>gn_indegree = 1, gn_topo = -1, gn_data = None, gn_outdegree = 0,
                   gn_option = None, gn_from = []\<rparr> g)"

definition add_group :: "mapping \<Rightarrow> group_option \<Rightarrow> graph \<Rightarrow> dag_err + graph" where
  "add_group m opt g =
     (case map_of g (go_Name opt) of
        Some node \<Rightarrow>
          if gn_data node \<noteq> None then Inl (DuplicateGroup (go_Name opt))
          else Inr (AList.update (go_Name opt) (node\<lparr>gn_data := Some m, gn_option := Some opt\<rparr>) g)
      | None \<Rightarrow> Inr (AList.update (go_Name opt) \<lparr>gn_indegree = 0, gn_topo = -1, gn_data = Some m, gn_outdegree = 0,
                   gn_option = Some opt, gn_from = []\<rparr> g))"

fun build_graph :: "mapping list \<Rightarrow> graph \<Rightarrow> (dag_err + graph) go" where
  "build_graph [] g = Inr (Inr g)"
| "build_graph (m # ms) g =
     go_bind (decode_group False m) (\<lambda>r. case r of
       Inl e \<Rightarrow> Inr (Inl (GroupInvalid e))
     | Inr opt \<Rightarrow>
         (case add_group m opt g of
            Inl e \<Rightarrow> Inr (Inl e)
          | Inr g \<Rightarrow> build_graph ms (edge_loop (go_Proxies opt) g)))"

text \<open>Step 1.2: the groups no remaining group contains are written from the back.\<close>

fun indegree_loop :: "string list \<Rightarrow> graph \<Rightarrow> string list \<Rightarrow> (graph \<times> string list) go" where
  "indegree_loop [] g q = Inr (g, q)"
| "indegree_loop (p # ps) g q =
     (case map_of g p of
        None \<Rightarrow> Inl NilDereference
      | Some child \<Rightarrow>
          let child = child\<lparr>gn_indegree := gn_indegree child - 1\<rparr>
          in indegree_loop ps (AList.update p child g) (if gn_indegree child = 0 then q @ [p] else q))"

definition write_group :: "mapping list \<Rightarrow> nat \<Rightarrow> mapping option \<Rightarrow> mapping list go" where
  "write_group gs index d =
     (if length gs < index then Inl IndexOutOfRange
      else Inr (gs[length gs - index := (case d of Some m \<Rightarrow> m | None \<Rightarrow> [])]))"

lemma indegree_loop_eq:
  "indegree_loop ps g q = release gn_indegree (\<lambda>c. c\<lparr>gn_indegree := gn_indegree c - 1\<rparr>) ps g q"
  by (induction ps arbitrary: g q) (auto simp: Let_def split: option.splits)

lemma delete_less: "map_of g n = Some c \<Longrightarrow> map fst h = map fst g \<Longrightarrow> length (AList.delete n h) < length g"
proof -
  assume n: "map_of g n = Some c" and k: "map fst h = map fst g"
  then have "n \<in> fst ` set h" by (metis list.set_map map_of_eq_None_iff option.distinct(1))
  then obtain d where "map_of h n = Some d" by (metis map_of_eq_None_iff option.exhaust)
  then show ?thesis using k by (metis length_delete_less length_map)
qed

function dag_loop :: "graph \<Rightarrow> string list \<Rightarrow> mapping list \<Rightarrow> nat \<Rightarrow> (graph \<times> mapping list) go" where
  "dag_loop g [] gs index = Inr (g, gs)"
| "dag_loop g (name # q) gs index =
     (case map_of g name of
        None \<Rightarrow> Inl NilDereference
      | Some node \<Rightarrow>
          (case gn_option node of
             None \<Rightarrow> dag_loop (AList.delete name g) q gs index
           | Some opt \<Rightarrow>
               go_bind (write_group gs (Suc index) (gn_data node)) (\<lambda>gs.
               if go_Proxies opt = [] then dag_loop (AList.delete name g) q gs (Suc index)
               else (case indegree_loop (go_Proxies opt) g q of
                   Inl e \<Rightarrow> Inl e
                 | Inr (g, q) \<Rightarrow> dag_loop (AList.delete name g) q gs (Suc index)))))"
  by pat_completeness auto
termination
proof (relation "measure (\<lambda>(g, _). length g)")
  fix g name q node gs gs' index opt x g' q'
  assume "map_of g name = Some node" "indegree_loop (go_Proxies opt) g q = Inr x" "(g', q') = x"
  then show "((AList.delete name g', q', gs' :: mapping list, Suc index), g, name # q, gs, index) \<in> measure (\<lambda>(g, _). length g)"
    by (auto simp: indegree_loop_eq dest!: release_keys intro: delete_less)
qed (auto intro: delete_less)

text \<open>Step 2.1: the edges backwards.\<close>

fun link_loop :: "string \<Rightarrow> string list \<Rightarrow> graph \<Rightarrow> graph go" where
  "link_loop name [] g = Inr g"
| "link_loop name (p # ps) g =
     (case map_of g name of
        None \<Rightarrow> Inl NilDereference
      | Some node \<Rightarrow>
          let g = AList.update name (node\<lparr>gn_outdegree := gn_outdegree node + 1\<rparr>) g in
          case map_of g p of
            None \<Rightarrow> Inl NilDereference
          | Some child \<Rightarrow> link_loop name ps (AList.update p (child\<lparr>gn_from := gn_from child @ [name]\<rparr>) g))"

fun rebuild :: "string list \<Rightarrow> graph \<Rightarrow> graph go" where
  "rebuild [] g = Inr g"
| "rebuild (name # ns) g =
     (case map_of g name of
        None \<Rightarrow> Inl NilDereference
      | Some node \<Rightarrow>
          (case gn_option node of
             None \<Rightarrow> rebuild ns g
           | Some opt \<Rightarrow> go_bind (link_loop name (go_Proxies opt) g) (rebuild ns)))"

text \<open>Step 2.2: the nodes that lead to no loop are removed.\<close>

fun outdegree_loop :: "string list \<Rightarrow> graph \<Rightarrow> string list \<Rightarrow> (graph \<times> string list) go" where
  "outdegree_loop [] g q = Inr (g, q)"
| "outdegree_loop (f # fs) g q =
     (case map_of g f of
        None \<Rightarrow> Inl NilDereference
      | Some node \<Rightarrow>
          let node = node\<lparr>gn_outdegree := gn_outdegree node - 1\<rparr>
          in outdegree_loop fs (AList.update f node g) (if gn_outdegree node = 0 then q @ [f] else q))"

lemma outdegree_loop_eq:
  "outdegree_loop ps g q = release gn_outdegree (\<lambda>c. c\<lparr>gn_outdegree := gn_outdegree c - 1\<rparr>) ps g q"
  by (induction ps arbitrary: g q) (auto simp: Let_def split: option.splits)

function strip_loop :: "graph \<Rightarrow> string list \<Rightarrow> graph go" where
  "strip_loop g [] = Inr g"
| "strip_loop g (name # q) =
     (case map_of g name of
        None \<Rightarrow> Inl NilDereference
      | Some node \<Rightarrow>
          (case outdegree_loop (gn_from node) g q of
             Inl e \<Rightarrow> Inl e
           | Inr (g, q) \<Rightarrow> strip_loop (AList.delete name g) q))"
  by pat_completeness auto
termination
proof (relation "measure (\<lambda>(g, _). length g)")
  fix g name q node x g' q'
  assume "map_of g name = Some node" "outdegree_loop (gn_from node) g q = Inr x" "(g', q') = x"
  then show "((AList.delete name g', q'), g, name # q) \<in> measure (\<lambda>(g, _). length g)"
    by (auto simp: outdegree_loop_eq dest!: release_keys intro: delete_less)
qed simp

text \<open>The whole function: the configuration list as the call leaves it, or the error.\<close>

definition nodes_with :: "(gnode \<Rightarrow> bool) \<Rightarrow> string list \<Rightarrow> graph \<Rightarrow> string list" where
  "nodes_with P names g = filter (\<lambda>n. case map_of g n of Some c \<Rightarrow> P c | None \<Rightarrow> False) names"

definition locate_loop :: "(nat \<Rightarrow> string list \<Rightarrow> string list) \<Rightarrow> graph \<Rightarrow> dag_err go" where
  "locate_loop order g =
     go_bind (rebuild (order 1 (map fst g)) g) (\<lambda>g.
     go_bind (strip_loop g (nodes_with (\<lambda>c. gn_outdegree c = 0) (order 2 (map fst g)) g)) (\<lambda>g.
     Inr (LoopDetected (order 3 (map fst g)))))"

definition proxyGroupsDagSort :: "(nat \<Rightarrow> string list \<Rightarrow> string list) \<Rightarrow> mapping list \<Rightarrow> (dag_err + mapping list) go" where
  "proxyGroupsDagSort order groupsConfig =
     go_bind (build_graph groupsConfig []) (\<lambda>r. case r of
       Inl e \<Rightarrow> Inr (Inl e)
     | Inr g \<Rightarrow>
         go_bind (dag_loop g (nodes_with (\<lambda>c. gn_indegree c = 0) (order 0 (map fst g)) g) groupsConfig 0) (\<lambda>(g, gs).
         if g = [] then Inr (Inr gs)
         else go_bind (locate_loop order g) (\<lambda>e. Inr (Inl e))))"

definition gn_children :: "gnode \<Rightarrow> string list" where
  "gn_children c = (case gn_option c of None \<Rightarrow> [] | Some opt \<Rightarrow> go_Proxies opt)"

interpretation indeg: peeling gn_indegree "\<lambda>c. c\<lparr>gn_indegree := gn_indegree c - 1\<rparr>" "\<lambda>c. c\<lparr>gn_indegree := 0\<rparr>" gn_children
proof unfold_locales
  fix c d :: gnode assume "c\<lparr>gn_indegree := 0\<rparr> = d\<lparr>gn_indegree := 0\<rparr>"
  then have "gn_option (c\<lparr>gn_indegree := 0\<rparr>) = gn_option (d\<lparr>gn_indegree := 0\<rparr>)" by simp
  then show "gn_children c = gn_children d" by (simp add: gn_children_def)
qed simp_all

interpretation outdeg: peeling gn_outdegree "\<lambda>c. c\<lparr>gn_outdegree := gn_outdegree c - 1\<rparr>" gn_from gn_from
  by unfold_locales auto

section \<open>The graph that is built\<close>

text \<open>The node a name has once the groups \<open>os\<close> with the data \<open>ms\<close> are entered.\<close>

definition node_of :: "(mapping \<times> group_option) list \<Rightarrow> string \<Rightarrow> gnode option" where
  "node_of os k =
     (if \<exists>x \<in> set os. k = go_Name (snd x) \<or> k \<in> set (go_Proxies (snd x))
      then Some \<lparr>gn_indegree = int (\<Sum>x\<leftarrow>os. count_list (go_Proxies (snd x)) k), gn_topo = -1,
             gn_data = map_option fst (find (\<lambda>x. go_Name (snd x) = k) os), gn_outdegree = 0,
             gn_option = map_option snd (find (\<lambda>x. go_Name (snd x) = k) os), gn_from = []\<rparr>
      else None)"

lemma distinct_update: "distinct (map fst g) \<Longrightarrow> distinct (map fst (AList.update k v g))"
  by (rule AList.distinct_update)

lemma edge_loop_ok:
  "distinct (map fst g) \<Longrightarrow> distinct (map fst (edge_loop ps g)) \<and>
   map_of (edge_loop ps g) k =
     (case map_of g k of
        Some c \<Rightarrow> Some (c\<lparr>gn_indegree := gn_indegree c + int (count_list ps k)\<rparr>)
      | None \<Rightarrow> if k \<in> set ps
          then Some \<lparr>gn_indegree = int (count_list ps k), gn_topo = -1, gn_data = None, gn_outdegree = 0,
                  gn_option = None, gn_from = []\<rparr>
          else None)"
proof (induction ps arbitrary: g)
  case (Cons p ps)
  define g1 where "g1 = (case map_of g p of
         Some node \<Rightarrow> AList.update p (node\<lparr>gn_indegree := gn_indegree node + 1\<rparr>) g
       | None \<Rightarrow> AList.update p \<lparr>gn_indegree = 1, gn_topo = -1, gn_data = None, gn_outdegree = 0,
                   gn_option = None, gn_from = []\<rparr> g)"
  have "distinct (map fst g1)" using Cons.prems by (auto simp: g1_def AList.distinct_update split: option.split)
  from Cons.IH [OF this] have ih: "distinct (map fst (edge_loop ps g1))" "map_of (edge_loop ps g1) k =
     (case map_of g1 k of
        Some c \<Rightarrow> Some (c\<lparr>gn_indegree := gn_indegree c + int (count_list ps k)\<rparr>)
      | None \<Rightarrow> if k \<in> set ps
          then Some \<lparr>gn_indegree = int (count_list ps k), gn_topo = -1, gn_data = None, gn_outdegree = 0,
                  gn_option = None, gn_from = []\<rparr>
          else None)" by blast+
  have e: "edge_loop (p # ps) g = edge_loop ps g1" by (simp add: g1_def)
  show ?case
    unfolding e using ih
    by (cases "map_of g p") (auto simp: g1_def update_conv' count_list_0_iff split: option.splits)
qed (auto split: option.split)

lemma find_append: "find P (xs @ ys) = (case find P xs of Some x \<Rightarrow> Some x | None \<Rightarrow> find P ys)"
  by (induction xs) auto

lemma add_group_ok:
  assumes "distinct (map fst g)" "\<And>k. map_of g k = node_of os k" "go_Name opt \<notin> go_Name ` snd ` set os"
  shows "\<exists>g'. add_group m opt g = Inr g' \<and> distinct (map fst (edge_loop (go_Proxies opt) g')) \<and>
    (\<forall>k. map_of (edge_loop (go_Proxies opt) g') k = node_of (os @ [(m, opt)]) k)"
proof -
  let ?n = "go_Name opt"
  have f: "find (\<lambda>x. go_Name (snd x) = ?n) os = None" using assms(3) by (auto simp: find_None_iff image_iff)
  define g' where "g' = AList.update ?n (case map_of g ?n of
       Some node \<Rightarrow> node\<lparr>gn_data := Some m, gn_option := Some opt\<rparr>
     | None \<Rightarrow> \<lparr>gn_indegree = 0, gn_topo = -1, gn_data = Some m, gn_outdegree = 0, gn_option = Some opt, gn_from = []\<rparr>) g"
  have a: "add_group m opt g = Inr g'"
    using f assms(2) [of ?n] by (auto simp: add_group_def g'_def node_of_def split: option.split)
  have d: "distinct (map fst g')" using assms(1) by (simp add: g'_def AList.distinct_update)
  have z: "(\<Sum>x\<leftarrow>os. count_list (go_Proxies (snd x)) k) = 0"
    if "\<forall>x \<in> set os. k \<noteq> go_Name (snd x) \<and> k \<notin> set (go_Proxies (snd x))" for k
    using that by (simp add: count_list_0_iff)
  have m: "map_of (edge_loop (go_Proxies opt) g') k = node_of (os @ [(m, opt)]) k" for k
  proof (cases "k = ?n")
    case True
    show ?thesis
      using edge_loop_ok [OF d, of "go_Proxies opt" k] True f assms(2) [of ?n] z [of ?n]
      by (auto simp: g'_def update_conv' node_of_def find_append split: option.split)
  next
    case False
    then have "map_of g' k = node_of os k" using assms(2) by (simp add: g'_def update_conv')
    moreover have "find (\<lambda>x. go_Name (snd x) = k) os = None" if "node_of os k = None"
      using that by (auto simp: node_of_def find_None_iff split: if_splits)
    ultimately show ?thesis
      using edge_loop_ok [OF d, of "go_Proxies opt" k] False z [of k]
      by (auto simp: node_of_def find_append split: option.split)
  qed
  from a m show ?thesis using edge_loop_ok [OF d] by blast
qed


lemma node_of_Nil [simp]: "node_of [] k = None"
  by (simp add: node_of_def)

lemma add_group_dup:
  assumes "\<And>k. map_of g k = node_of os k" "go_Name opt \<in> go_Name ` snd ` set os"
  shows "add_group m opt g = Inl (DuplicateGroup (go_Name opt))"
proof -
  from assms(2) have "find (\<lambda>x. go_Name (snd x) = go_Name opt) os \<noteq> None" by (auto simp: find_None_iff) metis
  then have "\<exists>c. map_of g (go_Name opt) = Some c \<and> gn_data c \<noteq> None"
    using assms(2) by (auto simp: assms(1) node_of_def)
  then show ?thesis by (auto simp: add_group_def)
qed

lemma build_graph_ok:
  assumes "list_all2 (\<lambda>m opt. decode_group False m = Inr (Inr opt)) ms opts"
    and "distinct (map fst g)" "\<And>k. map_of g k = node_of os k" "distinct (map (\<lambda>x. go_Name (snd x)) os)"
  shows "if distinct (map go_Name (map snd os @ opts))
    then \<exists>g'. build_graph ms g = Inr (Inr g') \<and> distinct (map fst g') \<and> (\<forall>k. map_of g' k = node_of (os @ zip ms opts) k)
    else \<exists>n. build_graph ms g = Inr (Inl (DuplicateGroup n))"
  using assms
proof (induction ms opts arbitrary: g os rule: list_all2_induct)
  case (Cons m ms opt opts)
  show ?case
  proof (cases "go_Name opt \<in> go_Name ` snd ` set os")
    case True
    with add_group_dup [OF Cons.prems(2), of opt m] Cons.hyps(1) show ?thesis by auto
  next
    case False
    from add_group_ok [OF Cons.prems(1,2) False] obtain g' where g': "add_group m opt g = Inr g'"
      "distinct (map fst (edge_loop (go_Proxies opt) g'))"
      "\<And>k. map_of (edge_loop (go_Proxies opt) g') k = node_of (os @ [(m, opt)]) k" by blast
    have "distinct (map (\<lambda>x. go_Name (snd x)) (os @ [(m, opt)]))" using False Cons.prems(3) by auto
    from Cons.IH [OF g'(2,3) this] g'(1) Cons.hyps(1) show ?thesis by (auto split: if_splits)
  qed
qed (auto simp: comp_def)

lemma find_name:
  "distinct (map (\<lambda>x. go_Name (snd x)) os) \<Longrightarrow> x \<in> set os \<Longrightarrow> find (\<lambda>y. go_Name (snd y) = go_Name (snd x)) os = Some x"
  by (induction os) (auto simp: image_iff)

lemma built_children:
  assumes "distinct (map (\<lambda>x. go_Name (snd x)) os)" "node_of os k = Some c"
  shows "gn_children c = (case find (\<lambda>x. go_Name (snd x) = k) os of None \<Rightarrow> [] | Some x \<Rightarrow> go_Proxies (snd x))"
  using assms by (auto simp: node_of_def gn_children_def split: option.split if_splits)

lemma built_edges:
  assumes d: "distinct (map (\<lambda>x. go_Name (snd x)) os)" and m: "\<And>k. map_of g k = node_of os k"
  shows "indeg.edges_in g n = (\<Sum>x\<leftarrow>os. count_list (go_Proxies (snd x)) n)"
proof -
  let ?N = "(\<lambda>x. go_Name (snd x)) ` set os"
  have key: "k \<in> fst ` set g \<longleftrightarrow> node_of os k \<noteq> None" for k
    using m [of k] by (metis map_of_eq_None_iff)
  have N: "?N \<subseteq> fst ` set g" by (force simp: key node_of_def)
  have ch: "count_list (gn_children (the (map_of g k))) n =
      (case find (\<lambda>x. go_Name (snd x) = k) os of None \<Rightarrow> 0 | Some x \<Rightarrow> count_list (go_Proxies (snd x)) n)"
    if "k \<in> fst ` set g" for k
    using that built_children [OF d] unfolding key m by (auto split: option.split)
  have "indeg.edges_in g n = (\<Sum>k \<in> ?N. count_list (gn_children (the (map_of g k))) n)"
    unfolding indeg.edges_in_def
  proof (rule sum.mono_neutral_right [OF _ N])
    show "\<forall>k \<in> fst ` set g - ?N. count_list (gn_children (the (map_of g k))) n = 0"
      using ch by (auto simp: find_None_iff image_iff split: option.split dest!: find_Some_iff [THEN iffD1])
  qed simp
  also have "\<dots> = (\<Sum>x \<in> set os. count_list (gn_children (the (map_of g (go_Name (snd x))))) n)"
    using d by (intro sum.reindex_cong [OF _ refl refl]) (simp add: distinct_map)
  also have "\<dots> = (\<Sum>x \<in> set os. count_list (go_Proxies (snd x)) n)"
  proof (rule sum.cong [OF refl])
    fix x assume x: "x \<in> set os"
    then have "go_Name (snd x) \<in> fst ` set g" using N by blast
    from ch [OF this] find_name [OF d x]
    show "count_list (gn_children (the (map_of g (go_Name (snd x))))) n = count_list (go_Proxies (snd x)) n" by simp
  qed
  also have "\<dots> = (\<Sum>x\<leftarrow>os. count_list (go_Proxies (snd x)) n)"
    using d by (intro sum_list_distinct_conv_sum_set [symmetric]) (auto simp: distinct_map)
  finally show ?thesis .
qed

definition permutes_names :: "(nat \<Rightarrow> string list \<Rightarrow> string list) \<Rightarrow> bool" where
  "permutes_names order \<longleftrightarrow> (\<forall>i names. mset (order i names) = mset names)"

lemma permutes_names_dest:
  "permutes_names order \<Longrightarrow> set (order i ns) = set ns" "permutes_names order \<Longrightarrow> distinct (order i ns) = distinct ns"
  unfolding permutes_names_def by (metis set_mset_mset, metis mset_eq_imp_distinct_iff)

lemma nodes_with_ok:
  assumes "distinct (map fst g)" "permutes_names order"
  shows "distinct (nodes_with P (order i (map fst g)) g)"
    and "set (nodes_with P (order i (map fst g)) g) = {n. \<exists>c. map_of g n = Some c \<and> P c}"
proof -
  have o: "set (order i (map fst g)) = fst ` set g" "distinct (order i (map fst g))"
    using assms permutes_names_dest [OF assms(2), of i "map fst g"] by simp_all
  then show "distinct (nodes_with P (order i (map fst g)) g)" by (simp add: nodes_with_def)
  have "n \<in> fst ` set g" if "map_of g n = Some c" for n c using that by (metis map_of_eq_None_iff option.distinct(1))
  then show "set (nodes_with P (order i (map fst g)) g) = {n. \<exists>c. map_of g n = Some c \<and> P c}"
    unfolding nodes_with_def set_filter o(1) by (auto split: option.splits)
qed

lemma built_wf:
  assumes d: "distinct (map (\<lambda>x. go_Name (snd x)) os)" and m: "\<And>k. map_of g k = node_of os k"
    and k: "distinct (map fst g)" and o: "permutes_names order"
  shows "indeg.wf_graph g (nodes_with (\<lambda>c. gn_indegree c = 0) (order i (map fst g)) g)"
  unfolding indeg.wf_graph_def
proof (intro conjI allI impI)
  show "distinct (nodes_with (\<lambda>c. gn_indegree c = 0) (order i (map fst g)) g)"
    by (rule nodes_with_ok(1) [OF k o])
  show "set (nodes_with (\<lambda>c. gn_indegree c = 0) (order i (map fst g)) g) = indeg.zeros g"
    unfolding indeg.zeros_def by (rule nodes_with_ok(2) [OF k o])
  have "node_of os p \<noteq> None" if "node_of os j = Some c" "p \<in> set (gn_children c)" for j c p
  proof -
    from that built_children [OF d that(1)] obtain x where "find (\<lambda>x. go_Name (snd x) = j) os = Some x" "p \<in> set (go_Proxies (snd x))"
      by (auto split: option.splits)
    then have "x \<in> set os" "p \<in> set (go_Proxies (snd x))" by (auto simp: find_Some_iff)
    then show ?thesis unfolding node_of_def by auto
  qed
  then show "indeg.closed g" unfolding indeg.closed_def m by (metis m map_of_eq_None_iff subsetI)
  show "gn_indegree c = int (indeg.edges_in g n)" if "map_of g n = Some c" for n c
    using that unfolding built_edges [OF d m] m by (auto simp: node_of_def split: if_splits)
qed (rule k)


section \<open>The sorted configuration\<close>

lemma release_lab:
  assumes "\<And>c. lab (dec c) = lab c"
  shows "release cnt dec ps g q = Inr (g', q') \<Longrightarrow> map_option lab (map_of g' k) = map_option lab (map_of g k)"
proof (induction ps arbitrary: g q)
  case (Cons p ps)
  then obtain c where c: "map_of g p = Some c"
    and r: "release cnt dec ps (AList.update p (dec c) g) (if cnt (dec c) = 0 then q @ [p] else q) = Inr (g', q')"
    by (auto split: option.splits)
  from Cons.IH [OF r] c assms show ?case by (simp add: update_conv')
qed simp

lemma peel_subset:
  "peel cnt dec succs g q = Inr (ord, g') \<Longrightarrow> set ord \<subseteq> fst ` set g"
proof (induction cnt dec succs g q arbitrary: ord rule: peel.induct)
  case (2 cnt dec succs g n q)
  then obtain node g1 q1 ord' where n: "map_of g n = Some node" and r: "release cnt dec (succs node) g q = Inr (g1, q1)"
    and p: "peel cnt dec succs (AList.delete n g1) q1 = Inr (ord', g')" and o: "ord = n # ord'"
    by (auto simp: go_bind_Inr split: option.splits sum.splits)
  have "set ord' \<subseteq> fst ` set g1 - {n}" using "2.IH" [OF n r refl p] by (simp add: keys_delete)
  moreover have "fst ` set g1 = fst ` set g" using release_keys [OF r] by (metis list.set_map)
  ultimately show ?case using n o by (auto dest: map_of_SomeD intro: rev_image_eqI)
qed simp

definition group_data :: "graph \<Rightarrow> string \<Rightarrow> mapping option" where
  "group_data g n =
     (case map_of g n of
        Some c \<Rightarrow> if gn_option c = None then None else Some (case gn_data c of Some m \<Rightarrow> m | None \<Rightarrow> [])
      | None \<Rightarrow> None)"

fun write_back :: "mapping list \<Rightarrow> nat \<Rightarrow> mapping list \<Rightarrow> mapping list" where
  "write_back gs index [] = gs"
| "write_back gs index (d # ds) = write_back (gs[length gs - Suc index := d]) (Suc index) ds"

lemma write_back_eq:
  "index + length ds \<le> length gs \<Longrightarrow>
     write_back gs index ds = take (length gs - index - length ds) gs @ rev ds @ drop (length gs - index) gs"
proof (induction ds arbitrary: gs index)
  case (Cons d ds)
  let ?i = "length gs - Suc index"
  have i: "?i < length gs" "length gs - index = Suc ?i" using Cons.prems by auto
  have "drop ?i (gs[?i := d]) = d # drop (Suc ?i) gs"
    using i by (simp add: Cons_nth_drop_Suc [symmetric])
  with Cons show ?case by (simp add: i(2))
qed simp

lemma node_lab:
  assumes "c\<lparr>gn_indegree := 0\<rparr> = d\<lparr>gn_indegree := 0\<rparr>"
  shows "gn_data c = gn_data d \<and> gn_option c = gn_option d \<and> gn_outdegree c = gn_outdegree d \<and> gn_from c = gn_from d"
  using assms by (cases c; cases d) simp

lemma group_data_lab:
  assumes "map_option (\<lambda>c. c\<lparr>gn_indegree := 0\<rparr>) (map_of h n) = map_option (\<lambda>c. c\<lparr>gn_indegree := 0\<rparr>) (map_of g n)"
  shows "group_data h n = group_data g n"
proof (cases "map_of h n")
  case (Some c)
  with assms obtain d where d: "map_of g n = Some d" "c\<lparr>gn_indegree := 0\<rparr> = d\<lparr>gn_indegree := 0\<rparr>"
    by (cases "map_of g n") auto
  with node_lab [OF d(2)] Some show ?thesis by (simp add: group_data_def)
qed (use assms in \<open>simp add: group_data_def\<close>)

lemma dag_loop_eq:
  "peel gn_indegree (\<lambda>c. c\<lparr>gn_indegree := gn_indegree c - 1\<rparr>) gn_children g q = Inr (ord, g') \<Longrightarrow>
   index + length (List.map_filter (group_data g) ord) \<le> length gs \<Longrightarrow>
   dag_loop g q gs index = Inr (g', write_back gs index (List.map_filter (group_data g) ord))"
proof (induction "length g" arbitrary: g q gs index ord rule: less_induct)
  case less
  show ?case
  proof (cases q)
    case Nil
    with less.prems show ?thesis by (auto simp: map_filter_simps)
  next
    case (Cons n q')
    with less.prems(1) obtain node g1 q1 ord' where n: "map_of g n = Some node"
      and r: "release gn_indegree (\<lambda>c. c\<lparr>gn_indegree := gn_indegree c - 1\<rparr>) (gn_children node) g q' = Inr (g1, q1)"
      and p: "peel gn_indegree (\<lambda>c. c\<lparr>gn_indegree := gn_indegree c - 1\<rparr>) gn_children (AList.delete n g1) q1 = Inr (ord', g')"
      and o: "ord = n # ord'"
      by (auto simp: go_bind_Inr split: option.splits sum.splits)
    let ?h = "AList.delete n g1"
    have len: "length ?h < length g" by (rule delete_less [OF n release_keys [OF r]])
    have "group_data ?h k = group_data g k" if "k \<in> set ord'" for k
    proof -
      have "k \<noteq> n" using peel_subset [OF p] that by (auto simp: keys_delete)
      then show ?thesis using release_lab [OF _ r, of "\<lambda>c. c\<lparr>gn_indegree := 0\<rparr>" k]
        by (intro group_data_lab) (simp add: delete_conv')
    qed
    then have md: "List.map_filter (group_data ?h) ord' = List.map_filter (group_data g) ord'"
      by (induction ord') (auto simp: map_filter_simps split: option.splits)
    note ih = less.hyps [OF len p, unfolded md]
    show ?thesis
    proof (cases "gn_option node")
      case None
      then have "g1 = g" "q1 = q'" using r by (simp_all add: gn_children_def)
      with None n Cons o ih less.prems(2) show ?thesis by (simp add: map_filter_simps group_data_def)
    next
      case (Some opt)
      let ?d = "case gn_data node of Some m \<Rightarrow> m | None \<Rightarrow> []"
      have gd: "List.map_filter (group_data g) ord = ?d # List.map_filter (group_data g) ord'"
        using Some n o by (simp add: map_filter_simps group_data_def)
      have w: "write_group gs (Suc index) (gn_data node) = Inr (gs[length gs - Suc index := ?d])"
        using less.prems(2) gd by (simp add: write_group_def)
      have c: "gn_children node = go_Proxies opt" using Some by (simp add: gn_children_def)
      have "dag_loop g q gs index = dag_loop ?h q1 (gs[length gs - Suc index := ?d]) (Suc index)"
        using Cons n Some w r c by (auto simp: indegree_loop_eq)
      also have "\<dots> = Inr (g', write_back gs index (List.map_filter (group_data g) ord))"
        using less.prems(2) gd by (subst ih) auto
      finally show ?thesis .
    qed
  qed
qed


section \<open>Orders and cycles\<close>

lemma sorted_acyclic:
  assumes "distinct xs" "r \<subseteq> set xs \<times> set xs" "sorted_wrt (\<lambda>a b. (b, a) \<notin> r) xs" "\<forall>x \<in> set xs. (x, x) \<notin> r"
  shows "acyclic r"
proof -
  define pos where "pos x = (THE i. i < length xs \<and> xs ! i = x)" for x
  have pos: "pos (xs ! i) = i" if "i < length xs" for i
    unfolding pos_def using that assms(1) by (intro the_equality) (auto simp: nth_eq_iff_index_eq)
  have "pos a < pos b" if ab: "(a, b) \<in> r" for a b
  proof -
    obtain i j where ij: "i < length xs" "xs ! i = a" "j < length xs" "xs ! j = b"
      using ab assms(2) by (metis in_set_conv_nth mem_Sigma_iff subsetD)
    have "\<not> j < i" using sorted_wrt_nth_less [OF assms(3), of j i] ij ab by auto
    moreover have "i \<noteq> j" using ij ab assms(4) by auto
    ultimately show ?thesis using pos ij by (metis linorder_neqE_nat)
  qed
  then have "r \<subseteq> measure pos" by auto
  then show ?thesis by (metis wf_measure wf_subset wf_acyclic)
qed

lemma all_preds_cyclic:
  assumes "finite r" "X \<noteq> {}" "\<And>n. n \<in> X \<Longrightarrow> \<exists>m \<in> X. (m, n) \<in> r"
  shows "\<not> acyclic r"
proof
  assume "acyclic r"
  then have "wf r" using assms(1) by (rule finite_acyclic_wf [rotated])
  then obtain n where "n \<in> X" "\<And>m. (m, n) \<in> r \<Longrightarrow> m \<notin> X" using assms(2) by (metis ex_in_conv wfE_min)
  with assms(3) show False by blast
qed

section \<open>Locating a loop\<close>

lemma link_loop_ok:
  assumes "name \<in> fst ` set g" "set ps \<subseteq> fst ` set g"
  shows "\<exists>g'. link_loop name ps g = Inr g' \<and> map fst g' = map fst g \<and>
    (\<forall>k. map_of g' k = map_option (\<lambda>c. c\<lparr>gn_outdegree := gn_outdegree c + (if k = name then int (length ps) else 0),
        gn_from := gn_from c @ replicate (count_list ps k) name\<rparr>) (map_of g k))"
  using assms
proof (induction ps arbitrary: g)
  case (Cons p ps)
  from Cons.prems(1) obtain node where n: "map_of g name = Some node" by (metis map_of_eq_None_iff option.exhaust)
  define g1 where "g1 = AList.update name (node\<lparr>gn_outdegree := gn_outdegree node + 1\<rparr>) g"
  have k1: "map fst g1 = map fst g" unfolding g1_def by (rule keys_update [OF n])
  then have "p \<in> fst ` set g1" using Cons.prems(2) by (metis list.set_intros(1) list.set_map subsetD)
  then obtain child where c: "map_of g1 p = Some child" by (metis map_of_eq_None_iff option.exhaust)
  define g2 where "g2 = AList.update p (child\<lparr>gn_from := gn_from child @ [name]\<rparr>) g1"
  have k2: "map fst g2 = map fst g" unfolding g2_def using keys_update [OF c] k1 by simp
  then have s: "fst ` set g2 = fst ` set g" by (metis list.set_map)
  obtain g' where g': "link_loop name ps g2 = Inr g'" "map fst g' = map fst g2"
    "\<And>k. map_of g' k = map_option (\<lambda>c. c\<lparr>gn_outdegree := gn_outdegree c + (if k = name then int (length ps) else 0),
        gn_from := gn_from c @ replicate (count_list ps k) name\<rparr>) (map_of g2 k)"
    using Cons.IH [of g2] Cons.prems s by auto
  have m2: "map_of g2 k = map_option (\<lambda>c. c\<lparr>gn_outdegree := gn_outdegree c + (if k = name then 1 else 0),
        gn_from := gn_from c @ (if k = p then [name] else [])\<rparr>) (map_of g k)" for k
    using n c by (auto simp: g1_def g2_def update_conv' option.map_id [unfolded id_def])
  have "link_loop name (p # ps) g = Inr g'" using n c g'(1) by (simp add: g1_def g2_def Let_def)
  moreover have "map_of g' k = map_option (\<lambda>c. c\<lparr>gn_outdegree := gn_outdegree c + (if k = name then int (length (p # ps)) else 0),
        gn_from := gn_from c @ replicate (count_list (p # ps) k) name\<rparr>) (map_of g k)" for k
    unfolding g'(3) m2 by (cases "map_of g k") auto
  ultimately show ?case using g'(2) k2 by simp
qed (simp add: option.map_id [unfolded id_def])


lemma count_list_replicate [simp]: "count_list (replicate j a) x = (if x = a then j else 0)"
  by (induction j) auto

lemma in_set_count: "x \<in> set xs \<longleftrightarrow> count_list xs x \<noteq> 0"
  by (simp add: count_list_0_iff)

text \<open>The node of a name once the edges out of the names \<open>ns\<close> are entered backwards.\<close>

lemma rebuild_ok:
  assumes "set ns \<subseteq> fst ` set g" "distinct ns" "\<And>k c. map_of g k = Some c \<Longrightarrow> set (gn_children c) \<subseteq> fst ` set g"
  shows "\<exists>h. rebuild ns g = Inr h \<and> map fst h = map fst g \<and>
    (\<forall>k c. map_of g k = Some c \<longrightarrow> (\<exists>d. map_of h k = Some d \<and> gn_option d = gn_option c \<and>
       gn_outdegree d = gn_outdegree c + (if k \<in> set ns then int (length (gn_children c)) else 0) \<and>
       (\<forall>x. count_list (gn_from d) x = count_list (gn_from c) x +
          (if x \<in> set ns then count_list (gn_children (the (map_of g x))) k else 0))))"
  using assms
proof (induction ns arbitrary: g)
  case (Cons n ns)
  from Cons.prems(1) obtain node where n: "map_of g n = Some node" by (metis list.set_intros(1) map_of_eq_None_iff option.exhaust subsetD)
  have nk: "n \<in> fst ` set g" using Cons.prems(1) by simp
  have cs: "set (gn_children node) \<subseteq> fst ` set g" by (rule Cons.prems(3) [OF n])
  let ?f = "\<lambda>k c. c\<lparr>gn_outdegree := gn_outdegree c + (if k = n then int (length (gn_children node)) else 0),
        gn_from := gn_from c @ replicate (count_list (gn_children node) k) n\<rparr>"
  from link_loop_ok [OF nk cs] obtain g1 where g1: "link_loop n (gn_children node) g = Inr g1" "map fst g1 = map fst g"
    "\<And>k. map_of g1 k = map_option (?f k) (map_of g k)" by blast
  have ch: "gn_children (?f k c) = gn_children c" for k c by (simp add: gn_children_def)
  have s1: "fst ` set g1 = fst ` set g" using g1(2) by (metis list.set_map)
  have c1: "set (gn_children c) \<subseteq> fst ` set g1" if "map_of g1 k = Some c" for k c
  proof -
    from that obtain z where z: "map_of g k = Some z" "c = ?f k z" by (auto simp: g1(3))
    show ?thesis unfolding z(2) ch s1 by (rule Cons.prems(3) [OF z(1)])
  qed
  have e: "rebuild (n # ns) g = rebuild ns g1"
    using n g1(1) by (auto simp: gn_children_def split: option.splits)
  from Cons.IH [of g1] c1 Cons.prems(1,2) s1 obtain h where h: "rebuild ns g1 = Inr h" "map fst h = map fst g1"
    "\<And>k c. map_of g1 k = Some c \<Longrightarrow> (\<exists>d. map_of h k = Some d \<and> gn_option d = gn_option c \<and>
       gn_outdegree d = gn_outdegree c + (if k \<in> set ns then int (length (gn_children c)) else 0) \<and>
       (\<forall>x. count_list (gn_from d) x = count_list (gn_from c) x +
          (if x \<in> set ns then count_list (gn_children (the (map_of g1 x))) k else 0)))" by auto
  have "\<exists>d. map_of h k = Some d \<and> gn_option d = gn_option c \<and>
       gn_outdegree d = gn_outdegree c + (if k \<in> set (n # ns) then int (length (gn_children c)) else 0) \<and>
       (\<forall>x. count_list (gn_from d) x = count_list (gn_from c) x +
          (if x \<in> set (n # ns) then count_list (gn_children (the (map_of g x))) k else 0))"
    if k: "map_of g k = Some c" for k c
  proof -
    from h(3) [of k "?f k c"] k g1(3) obtain d where d: "map_of h k = Some d" "gn_option d = gn_option c"
      "gn_outdegree d = gn_outdegree (?f k c) + (if k \<in> set ns then int (length (gn_children (?f k c))) else 0)"
      "\<And>x. count_list (gn_from d) x = count_list (gn_from (?f k c)) x +
          (if x \<in> set ns then count_list (gn_children (the (map_of g1 x))) k else 0)" by auto
    have nn: "n \<notin> set ns" using Cons.prems(2) by simp
    have "gn_children (the (map_of g1 x)) = gn_children (the (map_of g x))" if "x \<in> set ns" for x
    proof -
      from that Cons.prems(1) obtain a where "map_of g x = Some a"
        by (metis list.set_intros(2) map_of_eq_None_iff option.exhaust subsetD)
      then show ?thesis using ch by (simp add: g1(3))
    qed
    then have "count_list (gn_from d) x = count_list (gn_from c) x +
          (if x \<in> set (n # ns) then count_list (gn_children (the (map_of g x))) k else 0)" for x
      using d(4) [of x] nn n by auto
    moreover have "gn_outdegree d = gn_outdegree c + (if k \<in> set (n # ns) then int (length (gn_children c)) else 0)"
      using d(3) nn n k by (auto simp: ch)
    ultimately show ?thesis using d(1,2) by blast
  qed
  then show ?case using e h(1,2) g1(2) by auto
qed simp

lemma strip_loop_eq:
  "strip_loop g q = go_bind (peel gn_outdegree (\<lambda>c. c\<lparr>gn_outdegree := gn_outdegree c - 1\<rparr>) gn_from g q) (\<lambda>(ord, g'). Inr g')"
proof (induction g q rule: strip_loop.induct)
  case (2 g name q)
  then show ?case
    by (auto simp: outdegree_loop_eq go_bind_def split: option.splits sum.splits prod.splits)
qed simp

text \<open>What is left of a graph in which every node has an edge into it.\<close>

lemma locate_loop_ok:
  assumes d: "distinct (map fst g)" and cl: "\<And>k c. map_of g k = Some c \<Longrightarrow> set (gn_children c) \<subseteq> fst ` set g"
    and z: "\<And>k c. map_of g k = Some c \<Longrightarrow> gn_outdegree c = 0 \<and> gn_from c = []"
    and pre: "\<And>k. k \<in> fst ` set g \<Longrightarrow> \<exists>m c. map_of g m = Some c \<and> k \<in> set (gn_children c)"
    and ne: "g \<noteq> []" and o: "permutes_names order"
  shows "\<exists>loop. locate_loop order g = Inr (LoopDetected loop) \<and> loop \<noteq> [] \<and> set loop \<subseteq> fst ` set g \<and>
    (\<forall>n \<in> set loop. (\<exists>m \<in> set loop. n \<in> set (gn_children (the (map_of g m)))) \<and>
       (\<exists>m \<in> set loop. m \<in> set (gn_children (the (map_of g n)))))"
proof -
  let ?K = "fst ` set g"
  obtain h where h: "rebuild (order 1 (map fst g)) g = Inr h" "map fst h = map fst g"
    "\<And>k c. map_of g k = Some c \<Longrightarrow> \<exists>d. map_of h k = Some d \<and> gn_option d = gn_option c \<and>
       gn_outdegree d = int (length (gn_children c)) \<and>
       (\<forall>x. count_list (gn_from d) x = (if x \<in> ?K then count_list (gn_children (the (map_of g x))) k else 0))"
  proof -
    have "set (order 1 (map fst g)) = ?K" "distinct (order 1 (map fst g))"
      using permutes_names_dest [OF o] d by simp_all
    with rebuild_ok [of "order 1 (map fst g)" g] cl obtain h where "rebuild (order 1 (map fst g)) g = Inr h" "map fst h = map fst g"
      and m: "\<And>k c. map_of g k = Some c \<Longrightarrow> \<exists>d. map_of h k = Some d \<and> gn_option d = gn_option c \<and>
         gn_outdegree d = gn_outdegree c + (if k \<in> ?K then int (length (gn_children c)) else 0) \<and>
         (\<forall>x. count_list (gn_from d) x = count_list (gn_from c) x +
            (if x \<in> ?K then count_list (gn_children (the (map_of g x))) k else 0))" by auto
    moreover have "k \<in> ?K" if "map_of g k = Some c" for k c using that by (metis map_of_eq_None_iff option.distinct(1))
    ultimately show ?thesis using z by (intro that [of h]) auto
  qed
  have hK: "fst ` set h = ?K" using h(2) by (metis list.set_map)
  have g_of: "\<exists>c. map_of g k = Some c" if "k \<in> ?K" for k using that by (metis map_of_eq_None_iff option.exhaust)
  have frm: "x \<in> set (gn_from d) \<longleftrightarrow> x \<in> ?K \<and> k \<in> set (gn_children (the (map_of g x)))"
    if "map_of h k = Some d" for k d x
  proof -
    have "k \<in> ?K" using that hK by (metis map_of_eq_None_iff option.distinct(1))
    then obtain c where c: "map_of g k = Some c" using g_of by blast
    from h(3) [OF c] that have "count_list (gn_from d) x = (if x \<in> ?K then count_list (gn_children (the (map_of g x))) k else 0)"
      by simp
    then show ?thesis by (simp add: in_set_count)
  qed
  let ?q = "nodes_with (\<lambda>c. gn_outdegree c = 0) (order 2 (map fst h)) h"
  have w: "outdeg.wf_graph h ?q"
    unfolding outdeg.wf_graph_def
  proof (intro conjI allI impI)
    show hd: "distinct (map fst h)" using d h(2) by simp
    show "distinct ?q" by (rule nodes_with_ok(1) [OF hd o])
    show "set ?q = outdeg.zeros h" unfolding outdeg.zeros_def by (rule nodes_with_ok(2) [OF hd o])
    show "outdeg.closed h" unfolding outdeg.closed_def hK
    proof (intro allI impI subsetI)
      fix m e x assume "map_of h m = Some e" "x \<in> set (gn_from e)"
      then show "x \<in> ?K" using frm [of m e x] by simp
    qed
    fix n e assume e: "map_of h n = Some e"
    then have n: "n \<in> ?K" using hK by (metis map_of_eq_None_iff option.distinct(1))
    then obtain c where c: "map_of g n = Some c" using g_of by blast
    have "count_list (gn_from (the (map_of h k))) n = count_list (gn_children c) k" if k: "k \<in> ?K" for k
    proof -
      from g_of [OF k] h(3) obtain d where "map_of h k = Some d"
        "count_list (gn_from d) n = (if n \<in> ?K then count_list (gn_children (the (map_of g n))) k else 0)" by metis
      with n c show ?thesis by simp
    qed
    then have "outdeg.edges_in h n = (\<Sum>k \<in> ?K. count_list (gn_children c) k)"
      unfolding outdeg.edges_in_def hK by (intro sum.cong) auto
    also have "\<dots> = length (gn_children c)" by (rule sum_count_set [OF cl [OF c]]) simp
    finally show "gn_outdegree e = int (outdeg.edges_in h n)" using h(3) [OF c] e by auto
  qed
  obtain ord h' where
    p: "peel gn_outdegree (\<lambda>c. c\<lparr>gn_outdegree := gn_outdegree c - 1\<rparr>) gn_from h ?q = Inr (ord, h')"
    and w': "outdeg.wf_graph h' []" and do: "distinct ord"
    and un: "set ord \<union> fst ` set h' = fst ` set h" "set ord \<inter> fst ` set h' = {}"
    and lb: "\<forall>k. map_option gn_from (map_of h' k) = (if k \<in> set ord then None else map_option gn_from (map_of h k))"
    and so: "sorted_wrt (\<lambda>a b. a \<notin> set (gn_from (the (map_of h b)))) ord" "\<forall>m \<in> set ord. m \<notin> set (gn_from (the (map_of h m)))"
    and rm: "\<forall>m d. map_of h' m = Some d \<longrightarrow> set ord \<inter> set (gn_from d) = {}"
    using outdeg.peel_ok [OF w] by (elim exE conjE) (rule that)
  note lb = lb [THEN spec] and rm = rm [THEN spec, THEN spec, THEN mp]
  have h'_of: "\<exists>e e'. map_of h' k = Some e' \<and> map_of h k = Some e \<and> gn_from e' = gn_from e" if "k \<in> fst ` set h'" for k
  proof -
    from that obtain e' where "map_of h' k = Some e'" by (metis map_of_eq_None_iff option.exhaust)
    moreover have "k \<notin> set ord" using un(2) that by blast
    ultimately show ?thesis using lb [of k] by (cases "map_of h k") auto
  qed
  have bwd: "\<exists>m \<in> fst ` set h'. n \<in> set (gn_children (the (map_of g m)))" if n: "n \<in> fst ` set h'" for n
  proof -
    from h'_of [OF n] obtain e e' where e: "map_of h' n = Some e'" "map_of h n = Some e" "gn_from e' = gn_from e" by blast
    have "n \<in> ?K" using n un(1) hK by auto
    with pre obtain m c where m: "map_of g m = Some c" "n \<in> set (gn_children c)" by blast
    then have mk: "m \<in> ?K" by (metis map_of_eq_None_iff option.distinct(1))
    then have "m \<in> set (gn_from e)" using frm [OF e(2), of m] m by simp
    then have "m \<notin> set ord" using rm [OF e(1)] unfolding e(3) by blast
    then have "m \<in> fst ` set h'" using mk unfolding hK [symmetric] un(1) [symmetric] by simp
    then show ?thesis using m by (intro bexI [of _ m]) simp_all
  qed
  have forth: "\<exists>m \<in> fst ` set h'. m \<in> set (gn_children (the (map_of g n)))" if n: "n \<in> fst ` set h'" for n
  proof -
    from n obtain e0 where "map_of h' n = Some e0" by (metis map_of_eq_None_iff option.exhaust)
    from outdeg.left_pred [OF w' this] obtain m e' where m: "map_of h' m = Some e'" "n \<in> set (gn_from e')" by blast
    then have mk: "m \<in> fst ` set h'" by (metis map_of_eq_None_iff option.distinct(1))
    from h'_of [OF mk] m obtain e where "map_of h m = Some e" "gn_from e' = gn_from e" by auto
    then have "m \<in> set (gn_children (the (map_of g n)))" using frm m(2) by simp
    with mk show ?thesis by (rule bexI [rotated])
  qed
  have "h' \<noteq> []"
  proof
    assume "h' = []"
    then have K: "set ord = ?K" using un(1) hK by simp
    let ?r = "{(b, a). a \<in> ?K \<and> b \<in> ?K \<and> a \<in> set (gn_from (the (map_of h b)))}"
    have "acyclic ?r"
    proof (rule sorted_acyclic [OF do])
      show "?r \<subseteq> set ord \<times> set ord" using K by auto
      show "sorted_wrt (\<lambda>a b. (b, a) \<notin> ?r) ord" by (rule sorted_wrt_mono_rel [OF _ so(1)]) simp
      show "\<forall>x \<in> set ord. (x, x) \<notin> ?r" using so(2) by simp
    qed
    then have "acyclic (?r\<inverse>)" by simp
    moreover have "\<not> acyclic (?r\<inverse>)"
    proof (rule all_preds_cyclic)
      show "finite (?r\<inverse>)" by (rule finite_subset [of _ "?K \<times> ?K"]) auto
      show "?K \<noteq> {}" using ne by simp
      fix n assume n: "n \<in> ?K"
      with pre obtain m c where m: "map_of g m = Some c" "n \<in> set (gn_children c)" by blast
      then have mk: "m \<in> ?K" by (metis map_of_eq_None_iff option.distinct(1))
      have "map_of h n = Some (the (map_of h n))" using n hK by (metis map_of_eq_None_iff option.collapse)
      from frm [OF this, of m] m mk have "m \<in> set (gn_from (the (map_of h n)))" by simp
      with n mk show "\<exists>m \<in> ?K. (m, n) \<in> ?r\<inverse>" by blast
    qed
    ultimately show False by simp
  qed
  let ?loop = "order 3 (map fst h')"
  have L: "set ?loop = fst ` set h'" using permutes_names_dest(1) [OF o] by simp
  have "strip_loop h ?q = Inr h'" using p by (simp add: strip_loop_eq)
  then have "locate_loop order g = Inr (LoopDetected ?loop)" using h(1) by (simp add: locate_loop_def)
  moreover have "?loop \<noteq> []" using L \<open>h' \<noteq> []\<close> by (simp flip: set_empty)
  moreover have "\<forall>n \<in> set ?loop. (\<exists>m \<in> set ?loop. n \<in> set (gn_children (the (map_of g m)))) \<and>
       (\<exists>m \<in> set ?loop. m \<in> set (gn_children (the (map_of g n))))"
    unfolding L by (intro ballI conjI bwd forth)
  moreover have "set ?loop \<subseteq> ?K" unfolding L hK [symmetric] un(1) [symmetric] by simp
  ultimately show ?thesis by (intro exI [of _ ?loop] conjI)
qed


section \<open>Correctness\<close>

definition depends :: "group_option list \<Rightarrow> (string \<times> string) set" where
  "depends opts = {(go_Name x, p) | x p. x \<in> set opts \<and> p \<in> set (go_Proxies x)}"

lemma depends_simps [simp]:
  "depends [] = {}" "depends (x # xs) = {go_Name x} \<times> set (go_Proxies x) \<union> depends xs"
  by (auto simp: depends_def)

lemma finite_depends: "finite (depends opts)"
  by (induction opts) auto

definition built :: "(mapping \<times> group_option) list \<Rightarrow> graph \<Rightarrow> bool" where
  "built os g \<longleftrightarrow> distinct (map (\<lambda>x. go_Name (snd x)) os) \<and> distinct (map fst g) \<and> (\<forall>k. map_of g k = node_of os k)"

definition opt_of :: "(mapping \<times> group_option) list \<Rightarrow> string \<Rightarrow> (mapping \<times> group_option) option" where
  "opt_of os k = find (\<lambda>x. go_Name (snd x) = k) os"

lemma opt_of_name: "opt_of os k = Some x \<Longrightarrow> x \<in> set os \<and> go_Name (snd x) = k"
  by (auto simp: opt_of_def find_Some_iff)

lemma opt_of_self: "built os g \<Longrightarrow> x \<in> set os \<Longrightarrow> opt_of os (go_Name (snd x)) = Some x"
  unfolding opt_of_def built_def by (intro find_name) auto

lemma built_children_of:
  "built os g \<Longrightarrow> map_of g k = Some c \<Longrightarrow> gn_children c = (case opt_of os k of None \<Rightarrow> [] | Some x \<Rightarrow> go_Proxies (snd x))"
  unfolding opt_of_def built_def by (intro built_children) auto

lemma depends_children:
  assumes b: "built os g"
  shows "(m, n) \<in> depends (map snd os) \<longleftrightarrow> (\<exists>c. map_of g m = Some c \<and> n \<in> set (gn_children c))"
proof
  assume "(m, n) \<in> depends (map snd os)"
  then obtain x where x: "x \<in> set os" "go_Name (snd x) = m" "n \<in> set (go_Proxies (snd x))" by (auto simp: depends_def)
  then have "node_of os m \<noteq> None" by (auto simp: node_of_def)
  then obtain c where "map_of g m = Some c" using b by (auto simp: built_def)
  with built_children_of [OF b this] opt_of_self [OF b x(1)] x show "\<exists>c. map_of g m = Some c \<and> n \<in> set (gn_children c)" by auto
next
  assume "\<exists>c. map_of g m = Some c \<and> n \<in> set (gn_children c)"
  then obtain c where c: "map_of g m = Some c" "n \<in> set (gn_children c)" by blast
  with built_children_of [OF b c(1)] obtain x where x: "opt_of os m = Some x" "n \<in> set (go_Proxies (snd x))" by (auto split: option.splits)
  with opt_of_name [OF x(1)] show "(m, n) \<in> depends (map snd os)"
    unfolding depends_def by (metis (mono_tags, lifting) image_eqI list.set_map mem_Collect_eq)
qed

lemma built_data:
  assumes "built os g" "k \<in> fst ` set g"
  shows "group_data g k = map_option fst (opt_of os k)"
proof -
  from assms(2) obtain c where c: "map_of g k = Some c" by (metis map_of_eq_None_iff option.exhaust)
  then have "node_of os k = Some c" using assms(1) by (simp add: built_def)
  then have "gn_option c = map_option snd (opt_of os k)" "gn_data c = map_option fst (opt_of os k)"
    by (auto simp: node_of_def opt_of_def split: if_splits)
  with c show ?thesis by (cases "opt_of os k") (auto simp: group_data_def)
qed

lemma map_filter_map: "(\<And>k. k \<in> set ks \<Longrightarrow> f k = map_option h (j k)) \<Longrightarrow> List.map_filter f ks = map h (List.map_filter j ks)"
  by (induction ks) (auto simp: map_filter_simps split: option.splits)

lemma map_filter_sorted:
  "sorted_wrt P ks \<Longrightarrow> (\<And>k x. f k = Some x \<Longrightarrow> nm x = k) \<Longrightarrow> sorted_wrt (\<lambda>x y. P (nm x) (nm y)) (List.map_filter f ks)"
proof (induction ks)
  case (Cons k ks)
  have "\<forall>y \<in> set (List.map_filter f ks). nm y \<in> set ks"
    using Cons.prems(2) by (auto simp: map_filter_def)
  with Cons show ?case by (auto simp: map_filter_simps split: option.splits)
qed (simp add: map_filter_simps)

lemma map_filter_distinct:
  assumes "distinct ks" "\<And>k x. f k = Some x \<Longrightarrow> nm x = k"
  shows "distinct (List.map_filter f ks)"
proof -
  have "\<forall>y \<in> set (List.map_filter f ls). nm y \<in> set ls" for ls
    using assms(2) by (auto simp: map_filter_def)
  then show ?thesis using assms by (induction ks) (auto simp: map_filter_simps split: option.splits)
qed

lemma map_filter_perm:
  assumes "distinct ks" "distinct xs" "\<And>k x. f k = Some x \<Longrightarrow> x \<in> set xs \<and> nm x = k"
    and "\<And>x. x \<in> set xs \<Longrightarrow> nm x \<in> set ks \<and> f (nm x) = Some x"
  shows "mset (List.map_filter f ks) = mset xs"
proof (rule set_eq_iff_mset_eq_distinct [THEN iffD1])
  show "distinct (List.map_filter f ks)" using assms(1,3) by (intro map_filter_distinct) auto
  show "set (List.map_filter f ks) = set xs"
    using assms(3,4) by (force simp: map_filter_def image_iff)
qed (rule assms(2))

text \<open>What the sort does with a graph that was built.\<close>

lemma sort_built:
  assumes b: "built os g" and o: "permutes_names order" and len: "length gs = length os"
  shows "\<exists>ord g'. dag_loop g (nodes_with (\<lambda>c. gn_indegree c = 0) (order 0 (map fst g)) g) gs 0 =
      Inr (g', write_back gs 0 (List.map_filter (group_data g) ord)) \<and>
    (if g' = [] then acyclic (depends (map snd os)) \<and>
         mset (List.map_filter (opt_of os) ord) = mset os \<and> List.map_filter (group_data g) ord = map fst (List.map_filter (opt_of os) ord) \<and>
         sorted_wrt (\<lambda>x y. go_Name (snd x) \<notin> set (go_Proxies (snd y))) (List.map_filter (opt_of os) ord)
     else \<not> acyclic (depends (map snd os)) \<and>
       (\<exists>loop. locate_loop order g' = Inr (LoopDetected loop) \<and> loop \<noteq> [] \<and>
         (\<forall>n \<in> set loop. (\<exists>m \<in> set loop. (m, n) \<in> depends (map snd os)) \<and> (\<exists>m \<in> set loop. (n, m) \<in> depends (map snd os)))))"
proof -
  let ?q = "nodes_with (\<lambda>c. gn_indegree c = 0) (order 0 (map fst g)) g"
  let ?K = "fst ` set g"
  have nm: "distinct (map (\<lambda>x. go_Name (snd x)) os)" and kd: "distinct (map fst g)" and nd: "\<And>k. map_of g k = node_of os k"
    using b by (auto simp: built_def)
  note ch = built_children_of [OF b] and dep = depends_children [OF b]
  have w: "indeg.wf_graph g ?q" by (rule built_wf [OF nm nd kd o])
  obtain ord g' where
    p: "peel gn_indegree (\<lambda>c. c\<lparr>gn_indegree := gn_indegree c - 1\<rparr>) gn_children g ?q = Inr (ord, g')"
    and w': "indeg.wf_graph g' []" and od: "distinct ord"
    and un: "set ord \<union> fst ` set g' = ?K" "set ord \<inter> fst ` set g' = {}"
    and lb: "\<forall>k. map_option (\<lambda>c. c\<lparr>gn_indegree := 0\<rparr>) (map_of g' k) =
        (if k \<in> set ord then None else map_option (\<lambda>c. c\<lparr>gn_indegree := 0\<rparr>) (map_of g k))"
    and so: "sorted_wrt (\<lambda>a b. a \<notin> set (gn_children (the (map_of g b)))) ord"
      "\<forall>m \<in> set ord. m \<notin> set (gn_children (the (map_of g m)))"
    using indeg.peel_ok [OF w] by (elim exE conjE) (rule that)
  note lb = lb [THEN spec]
  have key: "\<exists>c. map_of g k = Some c" if "k \<in> ?K" for k using that by (metis map_of_eq_None_iff option.exhaust)
  have own: "x \<in> set os \<Longrightarrow> go_Name (snd x) \<in> ?K" for x
    using nd [of "go_Name (snd x)"] by (metis (mono_tags, lifting) map_of_eq_None_iff node_of_def option.distinct(1))
  have md: "List.map_filter (group_data g) ord = map fst (List.map_filter (opt_of os) ord)"
    using un(1) by (intro map_filter_map built_data [OF b]) auto
  have ln: "length (List.map_filter (opt_of os) ord) \<le> length os"
  proof -
    have "distinct (List.map_filter (opt_of os) ord)" 
      by (rule map_filter_distinct [OF od, of _ "\<lambda>x. go_Name (snd x)"]) (use opt_of_name in blast)
    then have "length (List.map_filter (opt_of os) ord) = card (set (List.map_filter (opt_of os) ord))" by (simp add: distinct_card)
    also have "\<dots> \<le> card (set os)" using opt_of_name by (intro card_mono) (auto simp: map_filter_def)
    finally show ?thesis using card_length [of os] by linarith
  qed
  have dl: "dag_loop g ?q gs 0 = Inr (g', write_back gs 0 (List.map_filter (group_data g) ord))"
    using ln len by (intro dag_loop_eq [OF p]) (simp add: md)
  show ?thesis
  proof (cases "g' = []")
    case True
    then have K: "set ord = ?K" using un(1) by simp
    have a: "acyclic ((depends (map snd os))\<inverse>)"
    proof (rule sorted_acyclic [of "rev ord"])
      show "distinct (rev ord)" using od by simp
      show "(depends (map snd os))\<inverse> \<subseteq> set (rev ord) \<times> set (rev ord)"
      proof -
        have "m \<in> ?K \<and> n \<in> ?K" if "(m, n) \<in> depends (map snd os)" for m n
        proof -
          from that dep obtain c where c: "map_of g m = Some c" "n \<in> set (gn_children c)" by blast
          then have "n \<in> ?K" using w unfolding indeg.wf_graph_def indeg.closed_def by blast
          with c(1) show ?thesis by (metis map_of_eq_None_iff option.distinct(1))
        qed
        then show ?thesis using K by auto
      qed
      show "sorted_wrt (\<lambda>a b. (b, a) \<notin> (depends (map snd os))\<inverse>) (rev ord)"
        unfolding sorted_wrt_rev using dep by (intro sorted_wrt_mono_rel [OF _ so(1)]) auto
      show "\<forall>x \<in> set (rev ord). (x, x) \<notin> (depends (map snd os))\<inverse>"
        using so(2) dep by auto
    qed
    have m: "mset (List.map_filter (opt_of os) ord) = mset os"
    proof (rule map_filter_perm [OF od])
      show "distinct os" using nm by (simp add: distinct_map)
      show "\<And>k x. opt_of os k = Some x \<Longrightarrow> x \<in> set os \<and> go_Name (snd x) = k" by (rule opt_of_name)
      show "\<And>x. x \<in> set os \<Longrightarrow> go_Name (snd x) \<in> set ord \<and> opt_of os (go_Name (snd x)) = Some x"
        using own opt_of_self [OF b] K by simp
    qed
    have s: "sorted_wrt (\<lambda>x y. go_Name (snd x) \<notin> set (go_Proxies (snd y))) (List.map_filter (opt_of os) ord)"
    proof (rule sorted_wrt_mono_rel [OF _ map_filter_sorted [OF so(1), of "opt_of os" "\<lambda>x. go_Name (snd x)"]])
      fix x y assume y: "y \<in> set (List.map_filter (opt_of os) ord)"
        and n: "go_Name (snd x) \<notin> set (gn_children (the (map_of g (go_Name (snd y)))))"
      from y opt_of_name have yo: "y \<in> set os" by (auto simp: map_filter_def)
      from key [OF own [OF yo]] obtain c where c: "map_of g (go_Name (snd y)) = Some c" by blast
      from ch [OF c] opt_of_self [OF b yo] n c show "go_Name (snd x) \<notin> set (go_Proxies (snd y))" by simp
    qed (use opt_of_name in blast)
    from dl True a m md s show ?thesis by (intro exI [of _ ord] exI [of _ g']) simp
  next
    case False
    have same: "\<exists>d. map_of g k = Some d \<and> gn_children c = gn_children d \<and> gn_outdegree c = 0 \<and> gn_from c = []"
      if "map_of g' k = Some c" for k c
    proof -
      have "k \<notin> set ord" using that un(2) by (metis IntI empty_iff map_of_eq_None_iff option.distinct(1))
      with lb [of k] that obtain d where d: "map_of g k = Some d" "c\<lparr>gn_indegree := 0\<rparr> = d\<lparr>gn_indegree := 0\<rparr>"
        by (cases "map_of g k") auto
      moreover have "gn_outdegree d = 0 \<and> gn_from d = []" using d(1) nd [of k] by (auto simp: node_of_def split: if_splits)
      ultimately show ?thesis using node_lab [OF d(2)] indeg.succs_lab [OF d(2)] by simp
    qed
    have "\<exists>loop. locate_loop order g' = Inr (LoopDetected loop) \<and> loop \<noteq> [] \<and> set loop \<subseteq> fst ` set g' \<and>
      (\<forall>n \<in> set loop. (\<exists>m \<in> set loop. n \<in> set (gn_children (the (map_of g' m)))) \<and>
         (\<exists>m \<in> set loop. m \<in> set (gn_children (the (map_of g' n)))))"
    proof (rule locate_loop_ok [OF _ _ _ _ False o])
      show "distinct (map fst g')" using w' by (simp add: indeg.wf_graph_def)
      show "set (gn_children c) \<subseteq> fst ` set g'" if "map_of g' k = Some c" for k c
        using w' that unfolding indeg.wf_graph_def indeg.closed_def by blast
      show "gn_outdegree c = 0 \<and> gn_from c = []" if "map_of g' k = Some c" for k c using same [OF that] by blast
      show "\<exists>m c. map_of g' m = Some c \<and> k \<in> set (gn_children c)" if k: "k \<in> fst ` set g'" for k
      proof -
        from k obtain c where "map_of g' k = Some c" by (metis map_of_eq_None_iff option.exhaust)
        from indeg.left_pred [OF w' this] show ?thesis .
      qed
    qed
    then obtain loop where l: "locate_loop order g' = Inr (LoopDetected loop)" "loop \<noteq> []" "set loop \<subseteq> fst ` set g'"
      "\<And>n. n \<in> set loop \<Longrightarrow> \<exists>m \<in> set loop. n \<in> set (gn_children (the (map_of g' m)))"
      "\<And>n. n \<in> set loop \<Longrightarrow> \<exists>m \<in> set loop. m \<in> set (gn_children (the (map_of g' n)))" by blast
    have e: "(m, n) \<in> depends (map snd os)" if m: "m \<in> set loop" and n: "n \<in> set (gn_children (the (map_of g' m)))" for m n
    proof -
      from m l(3) obtain c where c: "map_of g' m = Some c" by (metis map_of_eq_None_iff option.exhaust subsetD)
      from same [OF c] n c show ?thesis unfolding dep by auto
    qed
    have pre: "\<exists>m \<in> set loop. (m, n) \<in> depends (map snd os)" if "n \<in> set loop" for n using l(4) [OF that] e by blast
    have suc: "\<exists>m \<in> set loop. (n, m) \<in> depends (map snd os)" if "n \<in> set loop" for n using l(5) [OF that] e [OF that] by blast
    have "\<not> acyclic (depends (map snd os))"
      by (rule all_preds_cyclic [OF finite_depends _ pre]) (use l(2) in simp_all)
    with dl False l(1,2) pre suc show ?thesis by (intro exI [of _ ord] exI [of _ g']) auto
  qed
qed


lemma zip_names: "length cfgs = length opts \<Longrightarrow> map (\<lambda>x. go_Name (snd x)) (zip cfgs opts) = map go_Name opts"
  by (induction cfgs opts rule: list_induct2) simp_all

lemma sort_result:
  assumes "list_all2 (\<lambda>m opt. decode_group False m = Inr (Inr opt)) cfgs opts" "permutes_names order"
  shows "if distinct (map go_Name opts)
    then \<exists>g. built (zip cfgs opts) g \<and> build_graph cfgs [] = Inr (Inr g)
    else \<exists>n. proxyGroupsDagSort order cfgs = Inr (Inl (DuplicateGroup n))"
  using build_graph_ok [OF assms(1), of "[]" "[]"] list_all2_lengthD [OF assms(1)]
  by (auto simp: built_def proxyGroupsDagSort_def zip_names split: if_splits)

text \<open>The sort, once the graph is built.\<close>

lemma sort_cases:
  assumes l: "list_all2 (\<lambda>m opt. decode_group False m = Inr (Inr opt)) cfgs opts" and o: "permutes_names order"
    and d: "distinct (map go_Name opts)"
  obtains (sorted) sorted sopts where "acyclic (depends opts)" "proxyGroupsDagSort order cfgs = Inr (Inr sorted)"
      "length sorted = length sopts" "mset (zip sorted sopts) = mset (zip cfgs opts)"
      "sorted_wrt (\<lambda>a b. go_Name b \<notin> set (go_Proxies a)) sopts"
  | (loop) loop where "\<not> acyclic (depends opts)" "proxyGroupsDagSort order cfgs = Inr (Inl (LoopDetected loop))" "loop \<noteq> []"
      "\<forall>n \<in> set loop. (\<exists>m \<in> set loop. (m, n) \<in> depends opts) \<and> (\<exists>m \<in> set loop. (n, m) \<in> depends opts)"
proof -
  let ?os = "zip cfgs opts"
  have len: "length cfgs = length opts" by (rule list_all2_lengthD [OF l])
  from sort_result [OF l o] d obtain g where b: "built ?os g" and bg: "build_graph cfgs [] = Inr (Inr g)" by auto
  have ms: "map snd ?os = opts" using len by simp
  from sort_built [OF b o, of cfgs] len obtain ord g' where
    dl: "dag_loop g (nodes_with (\<lambda>c. gn_indegree c = 0) (order 0 (map fst g)) g) cfgs 0 =
      Inr (g', write_back cfgs 0 (List.map_filter (group_data g) ord))"
    and r: "if g' = [] then acyclic (depends opts) \<and>
         mset (List.map_filter (opt_of ?os) ord) = mset ?os \<and> List.map_filter (group_data g) ord = map fst (List.map_filter (opt_of ?os) ord) \<and>
         sorted_wrt (\<lambda>x y. go_Name (snd x) \<notin> set (go_Proxies (snd y))) (List.map_filter (opt_of ?os) ord)
     else \<not> acyclic (depends opts) \<and>
       (\<exists>loop. locate_loop order g' = Inr (LoopDetected loop) \<and> loop \<noteq> [] \<and>
         (\<forall>n \<in> set loop. (\<exists>m \<in> set loop. (m, n) \<in> depends opts) \<and> (\<exists>m \<in> set loop. (n, m) \<in> depends opts)))"
    unfolding ms by auto
  show thesis
  proof (cases "g' = []")
    case True
    define L where "L = List.map_filter (opt_of ?os) ord"
    from r True have L: "acyclic (depends opts)" "mset L = mset ?os" "List.map_filter (group_data g) ord = map fst L"
      "sorted_wrt (\<lambda>x y. go_Name (snd x) \<notin> set (go_Proxies (snd y))) L" by (simp_all add: L_def)
    have "length L = length cfgs" using arg_cong [OF L(2), of size] len by simp
    then have "write_back cfgs 0 (map fst L) = rev (map fst L)" by (subst write_back_eq) simp_all
    then have s: "proxyGroupsDagSort order cfgs = Inr (Inr (map fst (rev L)))"
      using dl bg True L(3) by (simp add: proxyGroupsDagSort_def rev_map)
    show thesis
    proof (rule sorted [OF L(1) s, of "map snd (rev L)"])
      show "mset (zip (map fst (rev L)) (map snd (rev L))) = mset (zip cfgs opts)"
        unfolding zip_map_fst_snd using L(2) by simp
      show "sorted_wrt (\<lambda>a b. go_Name b \<notin> set (go_Proxies a)) (map snd (rev L))"
        using L(4) unfolding sorted_wrt_map sorted_wrt_rev by simp
    qed simp
  next
    case False
    with r obtain loop where "\<not> acyclic (depends opts)" and lp: "locate_loop order g' = Inr (LoopDetected loop)" "loop \<noteq> []"
      "\<forall>n \<in> set loop. (\<exists>m \<in> set loop. (m, n) \<in> depends opts) \<and> (\<exists>m \<in> set loop. (n, m) \<in> depends opts)" by auto
    then show thesis using dl bg False by (intro loop [of loop]) (simp_all add: proxyGroupsDagSort_def)
  qed
qed

text \<open>
  C20. Sorting the proxy groups: when the groups have distinct names and do not contain each
  other in a circle, the sort succeeds, whatever the order in which the maps are visited; the
  result is a rearrangement of the groups in which no group stands before a group it contains.
\<close>

theorem dag_sort_sorted:
  assumes "list_all2 (\<lambda>m opt. decode_group False m = Inr (Inr opt)) cfgs opts" and "permutes_names order"
    and "distinct (map go_Name opts)" and "acyclic (depends opts)"
  shows "\<exists>srt sopts. proxyGroupsDagSort order cfgs = Inr (Inr srt) \<and> length srt = length sopts \<and>
    mset (zip srt sopts) = mset (zip cfgs opts) \<and> sorted_wrt (\<lambda>a b. go_Name b \<notin> set (go_Proxies a)) sopts"
  by (rule sort_cases [OF assms(1-3)]) (use assms(4) in blast)+

definition demo_mapping :: "string \<Rightarrow> string list \<Rightarrow> mapping" where
  "demo_mapping name proxies =
     [(DString ''name'', DString name), (DString ''type'', DString ''select''),
      (DString ''proxies'', DSlice (map DString proxies))]"

definition demo_group :: "string \<Rightarrow> string list \<Rightarrow> group_option" where
  "demo_group name proxies =
     \<lparr>go_Name = name, go_Type = ''select'', go_Proxies = proxies, go_Use = [], go_URL = [], go_Interval = 0,
      go_Lazy = False, go_DisableUDP = False\<rparr>"

lemma demo_decodes:
  "list_all2 (\<lambda>m opt. decode_group False m = Inr (Inr opt))
     [demo_mapping ''outer'' [''inner'', ''DIRECT''], demo_mapping ''inner'' [''DIRECT'']]
     [demo_group ''outer'' [''inner'', ''DIRECT''], demo_group ''inner'' [''DIRECT'']]"
  by code_simp

lemma permutes_names_id: "permutes_names (\<lambda>i ns. ns)"
  by (simp add: permutes_names_def)

theorem dag_sort_sorted_witness:
  "\<exists>sopts :: group_option list. proxyGroupsDagSort (\<lambda>i ns. ns)
      [demo_mapping ''outer'' [''inner'', ''DIRECT''], demo_mapping ''inner'' [''DIRECT'']] =
    Inr (Inr [demo_mapping ''inner'' [''DIRECT''], demo_mapping ''outer'' [''inner'', ''DIRECT'']]) \<and>
    sorted_wrt (\<lambda>a b. go_Name b \<notin> set (go_Proxies a)) sopts \<and> length sopts = 2"
proof -
  let ?opts = "[demo_group ''outer'' [''inner'', ''DIRECT''], demo_group ''inner'' [''DIRECT'']]"
  have "depends ?opts = {(''outer'', ''inner''), (''outer'', ''DIRECT''), (''inner'', ''DIRECT'')}"
    by (auto simp: demo_group_def)
  then have ac: "acyclic (depends ?opts)"
    by (intro sorted_acyclic [of "[''outer'', ''inner'', ''DIRECT'']"]) auto
  have di: "distinct (map go_Name ?opts)" by (simp add: demo_group_def)
  have eq: "proxyGroupsDagSort (\<lambda>i ns. ns)
      [demo_mapping ''outer'' [''inner'', ''DIRECT''], demo_mapping ''inner'' [''DIRECT'']] =
    Inr (Inr [demo_mapping ''inner'' [''DIRECT''], demo_mapping ''outer'' [''inner'', ''DIRECT'']])" by code_simp
  from dag_sort_sorted [OF demo_decodes permutes_names_id di ac] obtain srt and sopts :: "group_option list" where s: "proxyGroupsDagSort (\<lambda>i ns. ns)
      [demo_mapping ''outer'' [''inner'', ''DIRECT''], demo_mapping ''inner'' [''DIRECT'']] = Inr (Inr srt)"
    "length srt = length sopts" "sorted_wrt (\<lambda>a b. go_Name b \<notin> set (go_Proxies a)) sopts"
    by (elim exE conjE) (rule that)
  from s(1,2) eq have "length sopts = 2" by auto
  with s(3) eq show ?thesis by blast
qed



end
