(* ===== verification/ClashProvider.thy ===== *)
theory ClashProvider
  imports ClashDag
begin

text \<open>
  \<open>adapter/parser.go\<close> and \<open>adapter/provider\<close>: a proxy from its mapping, the proxies from the
  bytes of a provider, and the fetcher that keeps a provider's list, its file and its hash in
  step.  The constructors of the outbound protocols, the YAML decoder, the file system, HTTP
  and MD5 are parameters.
\<close>

section \<open>Proxy options\<close>

definition proxy_field :: "string \<Rightarrow> string \<Rightarrow> gty \<Rightarrow> bool \<times> gfield" where
  "proxy_field name tag ty = (False, Field name tag True ty)"

definition BasicOption :: "bool \<times> gfield" where
  "BasicOption =
     (True, Field ''BasicOption'' [] True
        (TStruct [Field ''Interface'' ''interface-name,omitempty'' True TString,
                  Field ''RoutingMark'' ''routing-mark,omitempty'' True TInt]))"

definition ShadowSocksOption :: "(bool \<times> gfield) list" where
  "ShadowSocksOption =
     [BasicOption, proxy_field ''Name'' ''name'' TString, proxy_field ''Server'' ''server'' TString,
      proxy_field ''Port'' ''port'' TInt, proxy_field ''Password'' ''password'' TString,
      proxy_field ''Cipher'' ''cipher'' TString, proxy_field ''UDP'' ''udp,omitempty'' TBool,
      proxy_field ''Plugin'' ''plugin,omitempty'' TString,
      proxy_field ''PluginOpts'' ''plugin-opts,omitempty'' (TMap TString TInterface)]"

definition ShadowSocksROption :: "(bool \<times> gfield) list" where
  "ShadowSocksROption =
     [BasicOption, proxy_field ''Name'' ''name'' TString, proxy_field ''Server'' ''server'' TString,
      proxy_field ''Port'' ''port'' TInt, proxy_field ''Password'' ''password'' TString,
      proxy_field ''Cipher'' ''cipher'' TString, proxy_field ''Obfs'' ''obfs'' TString,
      proxy_field ''ObfsParam'' ''obfs-param,omitempty'' TString, proxy_field ''Protocol'' ''protocol'' TString,
      proxy_field ''ProtocolParam'' ''protocol-param,omitempty'' TString, proxy_field ''UDP'' ''udp,omitempty'' TBool]"

definition Socks5Option :: "(bool \<times> gfield) list" where
  "Socks5Option =
     [BasicOption, proxy_field ''Name'' ''name'' TString, proxy_field ''Server'' ''server'' TString,
      proxy_field ''Port'' ''port'' TInt, proxy_field ''UserName'' ''username,omitempty'' TString,
      proxy_field ''Password'' ''password,omitempty'' TString, proxy_field ''TLS'' ''tls,omitempty'' TBool,
      proxy_field ''UDP'' ''udp,omitempty'' TBool, proxy_field ''SkipCertVerify'' ''skip-cert-verify,omitempty'' TBool]"

definition HttpOption :: "(bool \<times> gfield) list" where
  "HttpOption =
     [BasicOption, proxy_field ''Name'' ''name'' TString, proxy_field ''Server'' ''server'' TString,
      proxy_field ''Port'' ''port'' TInt, proxy_field ''UserName'' ''username,omitempty'' TString,
      proxy_field ''Password'' ''password,omitempty'' TString, proxy_field ''TLS'' ''tls,omitempty'' TBool,
      proxy_field ''SNI'' ''sni,omitempty'' TString, proxy_field ''SkipCertVerify'' ''skip-cert-verify,omitempty'' TBool]"

definition HTTPOptions :: gty where
  "HTTPOptions =
     TStruct [Field ''Method'' ''method,omitempty'' True TString, Field ''Path'' ''path,omitempty'' True (TSlice TString),
              Field ''Headers'' ''headers,omitempty'' True (TMap TString (TSlice TString))]"

definition HTTP2Options :: gty where
  "HTTP2Options =
     TStruct [Field ''Host'' ''host,omitempty'' True (TSlice TString), Field ''Path'' ''path,omitempty'' True TString]"

definition GrpcOptions :: gty where
  "GrpcOptions = TStruct [Field ''GrpcServiceName'' ''grpc-service-name,omitempty'' True TString]"

definition WSOptions :: gty where
  "WSOptions =
     TStruct [Field ''Path'' ''path,omitempty'' True TString, Field ''Headers'' ''headers,omitempty'' True (TMap TString TString),
              Field ''MaxEarlyData'' ''max-early-data,omitempty'' True TInt,
              Field ''EarlyDataHeaderName'' ''early-data-header-name,omitempty'' True TString]"

definition VmessOption :: "(bool \<times> gfield) list" where
  "VmessOption =
     [BasicOption, proxy_field ''Name'' ''name'' TString, proxy_field ''Server'' ''server'' TString,
      proxy_field ''Port'' ''port'' TInt, proxy_field ''UUID'' ''uuid'' TString, proxy_field ''AlterID'' ''alterId'' TInt,
      proxy_field ''Cipher'' ''cipher'' TString, proxy_field ''UDP'' ''udp,omitempty'' TBool,
      proxy_field ''Network'' ''network,omitempty'' TString, proxy_field ''TLS'' ''tls,omitempty'' TBool,
      proxy_field ''SkipCertVerify'' ''skip-cert-verify,omitempty'' TBool,
      proxy_field ''ServerName'' ''servername,omitempty'' TString, proxy_field ''HTTPOpts'' ''http-opts,omitempty'' HTTPOptions,
      proxy_field ''HTTP2Opts'' ''h2-opts,omitempty'' HTTP2Options, proxy_field ''GrpcOpts'' ''grpc-opts,omitempty'' GrpcOptions,
      proxy_field ''WSOpts'' ''ws-opts,omitempty'' WSOptions,
      proxy_field ''WSHeaders'' ''ws-headers,omitempty'' (TMap TString TString),
      proxy_field ''WSPath'' ''ws-path,omitempty'' TString]"

definition SnellOption :: "(bool \<times> gfield) list" where
  "SnellOption =
     [BasicOption, proxy_field ''Name'' ''name'' TString, proxy_field ''Server'' ''server'' TString,
      proxy_field ''Port'' ''port'' TInt, proxy_field ''Psk'' ''psk'' TString, proxy_field ''Version'' ''version,omitempty'' TInt,
      proxy_field ''ObfsOpts'' ''obfs-opts,omitempty'' (TMap TString TInterface)]"

definition TrojanOption :: "(bool \<times> gfield) list" where
  "TrojanOption =
     [BasicOption, proxy_field ''Name'' ''name'' TString, proxy_field ''Server'' ''server'' TString,
      proxy_field ''Port'' ''port'' TInt, proxy_field ''Password'' ''password'' TString,
      proxy_field ''ALPN'' ''alpn,omitempty'' (TSlice TString), proxy_field ''SNI'' ''sni,omitempty'' TString,
      proxy_field ''SkipCertVerify'' ''skip-cert-verify,omitempty'' TBool, proxy_field ''UDP'' ''udp,omitempty'' TBool,
      proxy_field ''Network'' ''network,omitempty'' TString, proxy_field ''GrpcOpts'' ''grpc-opts,omitempty'' GrpcOptions,
      proxy_field ''WSOpts'' ''ws-opts,omitempty'' WSOptions]"

definition zero_options :: "(bool \<times> gfield) list \<Rightarrow> gval list" where
  "zero_options fs = map (\<lambda>f. zero_value (fd_type (snd f))) fs"

text \<open>The vmess options start with a method and a path of HTTP.\<close>

definition vmess_start :: "gval list" where
  "vmess_start =
     (zero_options VmessOption)[12 := GStruct [GString ''GET'', GSlice [GString ''/''], GMap None]]"

section \<open>Proxies from mappings\<close>

datatype proxy_err =
    MissingType
  | UnsupportedType string
  | OptionInvalid decode_err
  | Refused string

text \<open>\<open>new\<close> stands for the constructors: of the type's name and the decoded options.\<close>

definition decode_new ::
  "(string \<Rightarrow> gval list \<Rightarrow> string + 'x) \<Rightarrow> string \<Rightarrow> (bool \<times> gfield) list \<Rightarrow> gval list \<Rightarrow> mapping \<Rightarrow> (proxy_err + 'x) go" where
  "decode_new new tp fs start m =
     go_bind (Decode True fs m start) (\<lambda>r. case r of
       Inl e \<Rightarrow> Inr (Inl (OptionInvalid e))
     | Inr vs \<Rightarrow> (case new tp vs of Inl e \<Rightarrow> Inr (Inl (Refused e)) | Inr x \<Rightarrow> Inr (Inr x)))"

definition ParseProxy :: "(string \<Rightarrow> gval list \<Rightarrow> string + 'x) \<Rightarrow> mapping \<Rightarrow> (proxy_err + 'x) go" where
  "ParseProxy new m =
     (case map_of m (DString ''type'') of
        Some (DString tp) \<Rightarrow>
          if tp = ''ss'' then decode_new new tp ShadowSocksOption (zero_options ShadowSocksOption) m
          else if tp = ''ssr'' then decode_new new tp ShadowSocksROption (zero_options ShadowSocksROption) m
          else if tp = ''socks5'' then decode_new new tp Socks5Option (zero_options Socks5Option) m
          else if tp = ''http'' then decode_new new tp HttpOption (zero_options HttpOption) m
          else if tp = ''vmess'' then decode_new new tp VmessOption vmess_start m
          else if tp = ''snell'' then decode_new new tp SnellOption (zero_options SnellOption) m
          else if tp = ''trojan'' then decode_new new tp TrojanOption (zero_options TrojanOption) m
          else Inr (Inl (UnsupportedType tp))
      | _ \<Rightarrow> Inr (Inl MissingType))"

datatype list_err =
    YamlInvalid string
  | NoProxiesField
  | ProxyInvalid nat proxy_err
  | NoValidProxy

fun parse_list_loop ::
  "(string \<Rightarrow> gval list \<Rightarrow> string + 'x) \<Rightarrow> nat \<Rightarrow> mapping list \<Rightarrow> 'x list \<Rightarrow> (list_err + 'x list) go" where
  "parse_list_loop new idx [] proxies = Inr (Inr proxies)"
| "parse_list_loop new idx (m # ms) proxies =
     go_bind (ParseProxy new m) (\<lambda>r. case r of
       Inl e \<Rightarrow> Inr (Inl (ProxyInvalid idx e))
     | Inr proxy \<Rightarrow> parse_list_loop new (Suc idx) ms (proxies @ [proxy]))"

definition proxiesParse ::
  "(bytes \<Rightarrow> string + mapping list option) \<Rightarrow> (string \<Rightarrow> gval list \<Rightarrow> string + 'x) \<Rightarrow> bytes \<Rightarrow> (list_err + 'x list) go" where
  "proxiesParse yaml new buf =
     (case yaml buf of
        Inl e \<Rightarrow> Inr (Inl (YamlInvalid e))
      | Inr None \<Rightarrow> Inr (Inl NoProxiesField)
      | Inr (Some ms) \<Rightarrow>
          go_bind (parse_list_loop new 0 ms []) (\<lambda>r. case r of
            Inl e \<Rightarrow> Inr (Inl e)
          | Inr proxies \<Rightarrow> if proxies = [] then Inr (Inl NoValidProxy) else Inr (Inr proxies)))"

section \<open>The fetcher\<close>

record 'w disk =
  dk_Stat :: "string \<Rightarrow> 'w \<Rightarrow> int option"
  dk_Missing :: "string \<Rightarrow> 'w \<Rightarrow> bool"
  dk_Dir :: "string \<Rightarrow> string"
  dk_ReadFile :: "string \<Rightarrow> 'w \<Rightarrow> string + bytes"
  dk_MkdirAll :: "string \<Rightarrow> 'w \<Rightarrow> string option \<times> 'w"
  dk_WriteFile :: "string \<Rightarrow> bytes \<Rightarrow> 'w \<Rightarrow> string option \<times> 'w"
  dk_Get :: "string \<Rightarrow> 'w \<Rightarrow> (string + bytes) \<times> 'w"
  dk_now :: "'w \<Rightarrow> int"
  dk_md5 :: "bytes \<Rightarrow> bytes"

datatype vehicle = FileVehicle string | HTTPVehicle string string

datatype VehicleType = VFile | VHTTP | VCompatible

fun vehicle_Type :: "vehicle \<Rightarrow> VehicleType" where
  "vehicle_Type (FileVehicle path) = VFile"
| "vehicle_Type (HTTPVehicle url path) = VHTTP"

fun vehicle_Path :: "vehicle \<Rightarrow> string" where
  "vehicle_Path (FileVehicle path) = path"
| "vehicle_Path (HTTPVehicle url path) = path"

text \<open>\<open>dk_Get\<close> is the GET request of \<open>HTTPVehicle.Read\<close>, with its time limit.\<close>

fun vehicle_Read :: "'w disk \<Rightarrow> vehicle \<Rightarrow> 'w \<Rightarrow> (string + bytes) \<times> 'w" where
  "vehicle_Read D (FileVehicle path) w = (dk_ReadFile D path w, w)"
| "vehicle_Read D (HTTPVehicle url path) w = dk_Get D url w"

record fetcher =
  ft_name :: string
  ft_vehicle :: vehicle
  ft_updatedAt :: "int option"
  ft_interval :: int
  ft_hash :: bytes

definition newFetcher :: "string \<Rightarrow> int \<Rightarrow> vehicle \<Rightarrow> fetcher" where
  "newFetcher name interval vehicle =
     \<lparr>ft_name = name, ft_vehicle = vehicle, ft_updatedAt = None, ft_interval = interval, ft_hash = replicate 16 0\<rparr>"

datatype 'e fetch_err = IOError string | ParseError 'e

definition safeWrite :: "'w disk \<Rightarrow> string \<Rightarrow> bytes \<Rightarrow> 'w \<Rightarrow> string option \<times> 'w" where
  "safeWrite D path buf w =
     (let dir = dk_Dir D path in
      if dk_Missing D dir w then
        (case dk_MkdirAll D dir w of
           (Some e, w) \<Rightarrow> (Some e, w)
         | (None, w) \<Rightarrow> dk_WriteFile D path buf w)
      else dk_WriteFile D path buf w)"

text \<open>The end of \<open>Initial\<close>: what was fetched is stored and its hash remembered.\<close>

definition initial_store ::
  "'w disk \<Rightarrow> bool \<Rightarrow> bytes \<Rightarrow> 'a \<Rightarrow> fetcher \<Rightarrow> 'w \<Rightarrow> ('e fetch_err + 'a) \<times> fetcher \<times> 'w" where
  "initial_store D isLocal buf proxies f w =
     (let done = (\<lambda>w. (Inr proxies, f\<lparr>ft_hash := dk_md5 D buf\<rparr>, w)) in
      if vehicle_Type (ft_vehicle f) \<noteq> VFile \<and> \<not> isLocal then
        (case safeWrite D (vehicle_Path (ft_vehicle f)) buf w of
           (Some e, w) \<Rightarrow> (Inl (IOError e), f, w)
         | (None, w) \<Rightarrow> done w)
      else done w)"

definition initial_read :: "'w disk \<Rightarrow> fetcher \<Rightarrow> 'w \<Rightarrow> (string + bytes) \<times> bool \<times> fetcher \<times> 'w" where
  "initial_read D f w =
     (case dk_Stat D (vehicle_Path (ft_vehicle f)) w of
        Some modTime \<Rightarrow> (dk_ReadFile D (vehicle_Path (ft_vehicle f)) w, True, f\<lparr>ft_updatedAt := Some modTime\<rparr>, w)
      | None \<Rightarrow> (case vehicle_Read D (ft_vehicle f) w of (buf, w) \<Rightarrow> (buf, False, f, w)))"

definition fetcher_Initial ::
  "'w disk \<Rightarrow> (bytes \<Rightarrow> ('e + 'a) go) \<Rightarrow> fetcher \<times> 'w \<Rightarrow> (('e fetch_err + 'a) \<times> fetcher \<times> 'w) go" where
  "fetcher_Initial D parser s =
     (case initial_read D (fst s) (snd s) of (buf, isLocal, f, w) \<Rightarrow>
      case buf of
        Inl e \<Rightarrow> Inr (Inl (IOError e), f, w)
      | Inr buf \<Rightarrow>
          go_bind (parser buf) (\<lambda>r. case r of
            Inr proxies \<Rightarrow> Inr (initial_store D isLocal buf proxies f w)
          | Inl e \<Rightarrow>
              if \<not> isLocal then Inr (Inl (ParseError e), f, w)
              else (case vehicle_Read D (ft_vehicle f) w of
                  (Inl e, w) \<Rightarrow> Inr (Inl (IOError e), f, w)
                | (Inr buf, w) \<Rightarrow>
                    go_bind (parser buf) (\<lambda>r. case r of
                      Inl e \<Rightarrow> Inr (Inl (ParseError e), f, w)
                    | Inr proxies \<Rightarrow> Inr (initial_store D False buf proxies f w)))))"

text \<open>\<open>Update\<close>: an error, \<open>None\<close> when the bytes are the same, or the new proxies.\<close>

definition fetcher_Update ::
  "'w disk \<Rightarrow> (bytes \<Rightarrow> ('e + 'a) go) \<Rightarrow> fetcher \<times> 'w \<Rightarrow> (('e fetch_err + 'a option) \<times> fetcher \<times> 'w) go" where
  "fetcher_Update D parser s =
     (case s of (f, w) \<Rightarrow>
      case vehicle_Read D (ft_vehicle f) w of
        (Inl e, w) \<Rightarrow> Inr (Inl (IOError e), f, w)
      | (Inr buf, w) \<Rightarrow>
          (let now = dk_now D w; hash = dk_md5 D buf in
           if ft_hash f = hash then Inr (Inr None, f\<lparr>ft_updatedAt := Some now\<rparr>, w)
           else go_bind (parser buf) (\<lambda>r. case r of
               Inl e \<Rightarrow> Inr (Inl (ParseError e), f, w)
             | Inr proxies \<Rightarrow>
                 (let done = (\<lambda>w. Inr (Inr (Some proxies), f\<lparr>ft_updatedAt := Some now, ft_hash := hash\<rparr>, w)) in
                  if vehicle_Type (ft_vehicle f) \<noteq> VFile then
                    (case safeWrite D (vehicle_Path (ft_vehicle f)) buf w of
                       (Some e, w) \<Rightarrow> Inr (Inl (IOError e), f, w)
                     | (None, w) \<Rightarrow> done w)
                  else done w))))"

text \<open>
  What a provider does with the fetcher: \<open>Initial\<close> and \<open>Update\<close> hand new proxies to
  \<open>onUpdate\<close>; a tick of \<open>pullLoop\<close> logs an error and waits for the next.
\<close>

definition provider_Initial ::
  "'w disk \<Rightarrow> (bytes \<Rightarrow> ('e + 'a) go) \<Rightarrow> ('a \<Rightarrow> 's \<Rightarrow> 's) \<Rightarrow> 's \<times> fetcher \<times> 'w \<Rightarrow> ('e fetch_err option \<times> 's \<times> fetcher \<times> 'w) go" where
  "provider_Initial D parser onUpdate s =
     go_bind (fetcher_Initial D parser (snd s)) (\<lambda>r. case r of
       (Inl e, fw) \<Rightarrow> Inr (Some e, fst s, fw)
     | (Inr elm, fw) \<Rightarrow> Inr (None, onUpdate elm (fst s), fw))"

definition provider_Update ::
  "'w disk \<Rightarrow> (bytes \<Rightarrow> ('e + 'a) go) \<Rightarrow> ('a \<Rightarrow> 's \<Rightarrow> 's) \<Rightarrow> 's \<times> fetcher \<times> 'w \<Rightarrow> ('e fetch_err option \<times> 's \<times> fetcher \<times> 'w) go" where
  "provider_Update D parser onUpdate s =
     go_bind (fetcher_Update D parser (snd s)) (\<lambda>r. case r of
       (Inl e, fw) \<Rightarrow> Inr (Some e, fst s, fw)
     | (Inr None, fw) \<Rightarrow> Inr (None, fst s, fw)
     | (Inr (Some elm), fw) \<Rightarrow> Inr (None, onUpdate elm (fst s), fw))"

definition pull_tick ::
  "'w disk \<Rightarrow> (bytes \<Rightarrow> ('e + 'a) go) \<Rightarrow> ('a \<Rightarrow> 's \<Rightarrow> 's) option \<Rightarrow> 's \<times> fetcher \<times> 'w \<Rightarrow> ('s \<times> fetcher \<times> 'w) go" where
  "pull_tick D parser onUpdate s =
     go_bind (fetcher_Update D parser (snd s)) (\<lambda>r. case r of
       (Inl e, fw) \<Rightarrow> Inr (fst s, fw)
     | (Inr None, fw) \<Rightarrow> Inr (fst s, fw)
     | (Inr (Some elm), fw) \<Rightarrow> Inr (case onUpdate of None \<Rightarrow> fst s | Some g \<Rightarrow> g elm (fst s), fw))"


section \<open>Decoded options\<close>

lemma zero_typed: "typed ty (zero_value ty)"
  by (induction ty rule: zero_value.induct) (auto simp: list_all2_conv_all_nth)

lemma zero_options_typed: "list_all2 (\<lambda>f v. typed (fd_type (snd f)) v) fs (zero_options fs)"
  by (simp add: zero_options_def list_all2_conv_all_nth zero_typed)

lemma vmess_start_typed: "list_all2 (\<lambda>f v. typed (fd_type (snd f)) v) VmessOption vmess_start"
  unfolding vmess_start_def
  by (simp add: VmessOption_def zero_options_def proxy_field_def BasicOption_def HTTPOptions_def HTTP2Options_def
      GrpcOptions_def WSOptions_def)

lemma decode_new_ok:
  assumes "null_free (DMap StringKeys m)" "list_all2 (\<lambda>f v. typed (fd_type (snd f)) v) fs start"
  obtains e where "decode_new new tp fs start m = Inr (Inl (OptionInvalid e))"
  | vs where "list_all2 (\<lambda>f v. typed (fd_type (snd f)) v) fs vs" "decode_new new tp fs start m =
      Inr (case new tp vs of Inl e \<Rightarrow> Inl (Refused e) | Inr x \<Rightarrow> Inr x)"
  using Decode_loop_safe [OF assms, of True] unfolding decode_new_def Decode_def
  by (auto split: sum.splits)

text \<open>The option type of a protocol.\<close>

definition option_type :: "string \<Rightarrow> (bool \<times> gfield) list" where
  "option_type tp =
     (if tp = ''ss'' then ShadowSocksOption else if tp = ''ssr'' then ShadowSocksROption
      else if tp = ''socks5'' then Socks5Option else if tp = ''http'' then HttpOption
      else if tp = ''vmess'' then VmessOption else if tp = ''snell'' then SnellOption else TrojanOption)"

definition option_start :: "string \<Rightarrow> gval list" where
  "option_start tp = (if tp = ''vmess'' then vmess_start else zero_options (option_type tp))"

definition proxy_types :: "string list" where
  "proxy_types = [''ss'', ''ssr'', ''socks5'', ''http'', ''vmess'', ''snell'', ''trojan'']"

lemma ParseProxy_eq:
  "ParseProxy new m =
     (case map_of m (DString ''type'') of
        Some (DString tp) \<Rightarrow>
          if tp \<in> set proxy_types then decode_new new tp (option_type tp) (option_start tp) m
          else Inr (Inl (UnsupportedType tp))
      | _ \<Rightarrow> Inr (Inl MissingType))"
  unfolding ParseProxy_def proxy_types_def option_type_def option_start_def
  by (simp split: option.split data.split)

lemma option_start_typed: "list_all2 (\<lambda>f v. typed (fd_type (snd f)) v) (option_type tp) (option_start tp)"
  using vmess_start_typed zero_options_typed by (simp add: option_start_def option_type_def)

text \<open>
  A proxy entry without nulls is refused with an error or handed to the constructor of its
  type, with options of the declared types.
\<close>

lemma ParseProxy_safe:
  assumes "null_free (DMap StringKeys m)"
  shows "(\<exists>e. ParseProxy new m = Inr (Inl e)) \<or>
    (\<exists>tp vs x. map_of m (DString ''type'') = Some (DString tp) \<and> tp \<in> set proxy_types \<and>
       list_all2 (\<lambda>f v. typed (fd_type (snd f)) v) (option_type tp) vs \<and> new tp vs = Inr x \<and> ParseProxy new m = Inr (Inr x))"
proof -
  have "(\<exists>e. decode_new new tp (option_type tp) (option_start tp) m = Inr (Inl e)) \<or>
      (\<exists>vs x. list_all2 (\<lambda>f v. typed (fd_type (snd f)) v) (option_type tp) vs \<and> new tp vs = Inr x \<and>
         decode_new new tp (option_type tp) (option_start tp) m = Inr (Inr x))" for tp
    by (rule decode_new_ok [OF assms option_start_typed, of new tp tp]) (auto split: sum.splits)
  then show ?thesis unfolding ParseProxy_eq by (auto split: option.splits data.splits)
qed

lemma not_Inl: "(\<forall>x. a \<noteq> Inl x) \<longleftrightarrow> (\<exists>y. a = Inr y)"
  by (cases a) auto

lemma go_bind_case_Inr:
  "go_bind m (\<lambda>r. case r of Inl e \<Rightarrow> Inr (Inl (g e)) | Inr x \<Rightarrow> f x) = Inr (Inr b) \<longleftrightarrow> (\<exists>x. m = Inr (Inr x) \<and> f x = Inr (Inr b))"
  by (cases m; cases "projr m") auto

lemma parse_list_ok:
  assumes "parse_list_loop new idx ms acc = Inr (Inr ps)"
  shows "\<exists>qs. ps = acc @ qs \<and> list_all2 (\<lambda>m p. ParseProxy new m = Inr (Inr p)) ms qs"
  using assms
proof (induction ms arbitrary: idx acc)
  case (Cons m ms)
  then obtain p where p: "ParseProxy new m = Inr (Inr p)" and r: "parse_list_loop new (Suc idx) ms (acc @ [p]) = Inr (Inr ps)"
    by (auto simp: go_bind_case_Inr)
  from Cons.IH [OF r] obtain qs where "ps = (acc @ [p]) @ qs" "list_all2 (\<lambda>m p. ParseProxy new m = Inr (Inr p)) ms qs" by blast
  with p show ?case by (intro exI [of _ "p # qs"]) simp
qed simp

section \<open>List, file and hash in step\<close>

text \<open>What is relied on: a file written without an error can be read back, and a request leaves the files alone.\<close>

definition disk_keeps :: "'w disk \<Rightarrow> bool" where
  "disk_keeps D \<longleftrightarrow>
     (\<forall>p b w w'. dk_WriteFile D p b w = (None, w') \<longrightarrow> dk_ReadFile D p w' = Inr b \<and> dk_Stat D p w' \<noteq> None) \<and>
     (\<forall>u p w. dk_ReadFile D p (snd (dk_Get D u w)) = dk_ReadFile D p w \<and> dk_Stat D p (snd (dk_Get D u w)) = dk_Stat D p w)"

definition in_step :: "'w disk \<Rightarrow> (bytes \<Rightarrow> ('e + 'a) go) \<Rightarrow> 'a option \<times> fetcher \<times> 'w \<Rightarrow> bool" where
  "in_step D parser s \<longleftrightarrow>
     (case s of (elm, f, w) \<Rightarrow>
        \<exists>buf a. dk_Stat D (vehicle_Path (ft_vehicle f)) w \<noteq> None \<and> dk_ReadFile D (vehicle_Path (ft_vehicle f)) w = Inr buf \<and>
          parser buf = Inr (Inr a) \<and> elm = Some a \<and> ft_hash f = dk_md5 D buf)"

lemma safeWrite_keeps:
  "disk_keeps D \<Longrightarrow> safeWrite D p b w = (None, w') \<Longrightarrow> dk_ReadFile D p w' = Inr b \<and> dk_Stat D p w' \<noteq> None"
  by (auto simp: safeWrite_def disk_keeps_def Let_def split: if_splits prod.splits option.splits)

lemma initial_store_in_step:
  assumes "disk_keeps D" "parser buf = Inr (Inr a)" "ft_vehicle f = HTTPVehicle url path"
    and "isLocal \<Longrightarrow> dk_Stat D path w \<noteq> None \<and> dk_ReadFile D path w = Inr buf"
    and "initial_store D isLocal buf a f w = (Inr elm, f', w')"
  shows "in_step D parser (Some elm, f', w') \<and> ft_vehicle f' = ft_vehicle f"
  using assms safeWrite_keeps [OF assms(1)]
  by (auto simp: initial_store_def in_step_def Let_def split: if_splits prod.splits option.splits)

lemma initial_in_step:
  fixes parser :: "bytes \<Rightarrow> ('e + 'a) go"
  assumes d: "disk_keeps D" and v: "ft_vehicle f = HTTPVehicle url path"
    and r: "fetcher_Initial D parser (f, w) = Inr (Inr a, f', w')"
  shows "in_step D parser (Some a, f', w') \<and> ft_vehicle f' = ft_vehicle f"
proof -
  obtain rd isLocal f1 w1 where i: "initial_read D f w = (rd, isLocal, f1, w1)" by (metis prod_cases4)
  then have f1: "ft_vehicle f1 = HTTPVehicle url path"
    and l: "isLocal \<Longrightarrow> w1 = w \<and> dk_Stat D path w1 \<noteq> None \<and> rd = dk_ReadFile D path w1"
    using v by (auto simp: initial_read_def split: option.splits prod.splits)
  from r i obtain buf pr where b: "rd = Inr buf" and pr: "parser buf = Inr pr"
    by (cases rd) (auto simp: fetcher_Initial_def go_bind_Inr)
  show ?thesis
  proof (cases pr)
    case (Inr x)
    then have st: "initial_store D isLocal buf x f1 w1 = (Inr a :: 'e fetch_err + 'a, f', w')"
      using r i b pr by (simp add: fetcher_Initial_def)
    moreover from st have "x = a" by (auto simp: initial_store_def Let_def split: if_splits prod.splits option.splits)
    ultimately show ?thesis using initial_store_in_step [OF d _ f1 _ st] pr Inr l b v f1 by auto
  next
    case (Inl e)
    then obtain buf' w2 x where g: "vehicle_Read D (ft_vehicle f1) w1 = (Inr buf', w2)" and p': "parser buf' = Inr (Inr x)"
      and st: "initial_store D False buf' x f1 w2 = (Inr a :: 'e fetch_err + 'a, f', w')"
      using r i b pr
      by (auto simp: fetcher_Initial_def go_bind_Inr not_Inl split: if_splits prod.splits sum.splits)
    from st have "x = a" by (auto simp: initial_store_def Let_def split: if_splits prod.splits option.splits)
    with p' initial_store_in_step [OF d _ f1 _ st] v f1 show ?thesis by auto
  qed
qed

lemma update_in_step:
  assumes d: "disk_keeps D" and v: "ft_vehicle f = HTTPVehicle url path" and i: "in_step D parser (s, f, w)"
    and r: "fetcher_Update D parser (f, w) = Inr (Inr res, f', w')"
  shows "in_step D parser (case res of None \<Rightarrow> s | Some a \<Rightarrow> Some a, f', w') \<and> ft_vehicle f' = ft_vehicle f"
proof -
  obtain buf w1 where g: "dk_Get D url w = (Inr buf, w1)"
    using r v by (auto simp: fetcher_Update_def split: prod.splits sum.splits)
  have k: "dk_Stat D path w1 = dk_Stat D path w \<and> dk_ReadFile D path w1 = dk_ReadFile D path w"
    using d g unfolding disk_keeps_def by (metis snd_conv)
  show ?thesis
  proof (cases "ft_hash f = dk_md5 D buf")
    case True
    then have "res = None" "w' = w1" "f' = f\<lparr>ft_updatedAt := Some (dk_now D w1)\<rparr>"
      using r v g by (auto simp: fetcher_Update_def Let_def)
    with i v k show ?thesis by (simp add: in_step_def)
  next
    case False
    obtain er w2 where er: "safeWrite D path buf w1 = (er, w2)" by (cases "safeWrite D path buf w1")
    from False obtain x where p: "parser buf = Inr (Inr x)" and u: "res = Some x" and sw: "safeWrite D path buf w1 = (None, w')"
      and f': "f' = f\<lparr>ft_updatedAt := Some (dk_now D w1), ft_hash := dk_md5 D buf\<rparr>"
      using r v g er
      by (auto simp: fetcher_Update_def Let_def go_bind_Inr not_Inl split: sum.splits prod.splits option.splits)
    from safeWrite_keeps [OF d sw] p u f' v show ?thesis by (simp add: in_step_def)
  qed
qed

lemma restart_in_step:
  assumes v: "ft_vehicle g = HTTPVehicle url path" "ft_vehicle f = HTTPVehicle url path" and i: "in_step D parser (Some a, f, w)"
  shows "fetcher_Initial D parser (g, w) =
    Inr (Inr a, g\<lparr>ft_updatedAt := dk_Stat D path w, ft_hash := ft_hash f\<rparr>, w)"
  using i v by (auto simp: in_step_def fetcher_Initial_def initial_read_def initial_store_def Let_def)

text \<open>
  C22. A provider fetched over HTTP keeps its proxies, its file and its hash in step: after a
  start, and after every update without an error, the file holds bytes with the remembered
  hash that parse to the provider's proxies, so a restart from there needs no network and
  gives the same proxies.
\<close>

theorem provider_in_step:
  assumes "disk_keeps D" and "ft_vehicle f = HTTPVehicle url path"
  shows "(provider_Initial D parser (\<lambda>a s. Some a) (s, f, w) = Inr (None, s', f', w') \<longrightarrow>
      in_step D parser (s', f', w') \<and> ft_vehicle f' = ft_vehicle f) \<and>
    (in_step D parser (s, f, w) \<longrightarrow> provider_Update D parser (\<lambda>a s. Some a) (s, f, w) = Inr (None, s', f', w') \<longrightarrow>
      in_step D parser (s', f', w') \<and> ft_vehicle f' = ft_vehicle f) \<and>
    (in_step D parser (s, f, w) \<longrightarrow> ft_vehicle g = ft_vehicle f \<longrightarrow>
      (\<exists>g'. provider_Initial D parser (\<lambda>a s. Some a) (s0, g, w) = Inr (None, s, g', w) \<and> ft_hash g' = ft_hash f))"
proof (intro conjI impI)
  assume "provider_Initial D parser (\<lambda>a s. Some a) (s, f, w) = Inr (None, s', f', w')"
  then obtain a where "fetcher_Initial D parser (f, w) = Inr (Inr a, f', w')" "s' = Some a"
    by (auto simp: provider_Initial_def go_bind_Inr not_Inl split: sum.splits)
  with initial_in_step [OF assms this(1)] show "in_step D parser (s', f', w')" "ft_vehicle f' = ft_vehicle f" by simp_all
next
  assume i: "in_step D parser (s, f, w)" and "provider_Update D parser (\<lambda>a s. Some a) (s, f, w) = Inr (None, s', f', w')"
  then obtain res where "fetcher_Update D parser (f, w) = Inr (Inr res, f', w')" "s' = (case res of None \<Rightarrow> s | Some a \<Rightarrow> Some a)"
    by (auto simp: provider_Update_def go_bind_Inr not_Inl split: sum.splits option.splits)
  with update_in_step [OF assms i this(1)] show "in_step D parser (s', f', w')" "ft_vehicle f' = ft_vehicle f" by simp_all
next
  assume i: "in_step D parser (s, f, w)" and g: "ft_vehicle g = ft_vehicle f"
  then obtain a where a: "s = Some a" by (auto simp: in_step_def)
  with restart_in_step [of g url path f D parser a w] i g assms(2)
  show "\<exists>g'. provider_Initial D parser (\<lambda>a s. Some a) (s0, g, w) = Inr (None, s, g', w) \<and> ft_hash g' = ft_hash f"
    by (auto simp: provider_Initial_def)
qed

text \<open>A disk of one file, and a server that gives the bytes \<open>n\<close>, \<open>n + 1\<close>, ... of its clock.\<close>

definition demo_disk :: "(bytes option \<times> nat) disk" where
  "demo_disk =
     \<lparr>dk_Stat = (\<lambda>p w. map_option (\<lambda>b. 0) (fst w)), dk_Missing = (\<lambda>p w. False), dk_Dir = (\<lambda>p. ''.''),
      dk_ReadFile = (\<lambda>p w. case fst w of None \<Rightarrow> Inl ''no file'' | Some b \<Rightarrow> Inr b),
      dk_MkdirAll = (\<lambda>p w. (None, w)), dk_WriteFile = (\<lambda>p b w. (None, (Some b, snd w))),
      dk_Get = (\<lambda>u w. (Inr [of_nat (snd w)], (fst w, Suc (snd w)))), dk_now = (\<lambda>w. int (snd w)), dk_md5 = (\<lambda>b. b)\<rparr>"

theorem provider_in_step_witness:
  "\<exists>s f w. provider_Update demo_disk (\<lambda>b. Inr (Inr (unat (hd b)) :: string + nat)) (\<lambda>a s. Some a)
      (Some 6, (newFetcher ''p'' 60 (HTTPVehicle ''u'' ''f''))\<lparr>ft_hash := [6]\<rparr>, (Some [6], 7)) = Inr (None, s, f, w) \<and>
    in_step demo_disk (\<lambda>b. Inr (Inr (unat (hd b)) :: string + nat)) (s, f, w) \<and> s = Some 7"
proof -
  let ?f = "(newFetcher ''p'' 60 (HTTPVehicle ''u'' ''f''))\<lparr>ft_hash := [6]\<rparr>"
  let ?p = "\<lambda>b. Inr (Inr (unat (hd b)) :: string + nat) :: (string + nat) go"
  have "disk_keeps demo_disk" "ft_vehicle ?f = HTTPVehicle ''u'' ''f''"
    by (auto simp: disk_keeps_def demo_disk_def newFetcher_def)
  moreover have "in_step demo_disk ?p (Some 6, ?f, (Some [6], 7))"
    by (simp add: in_step_def demo_disk_def newFetcher_def)
  moreover have "\<exists>f w. provider_Update demo_disk ?p (\<lambda>a s. Some a) (Some 6, ?f, (Some [6], 7)) = Inr (None, Some 7, f, w)"
    by (simp add: provider_Update_def fetcher_Update_def demo_disk_def newFetcher_def safeWrite_def Let_def)
  ultimately show ?thesis using provider_in_step [of demo_disk ?f "''u''" "''f''" ?p "Some 6" "(Some [6], 7)"] by blast
qed

end
