(* ===== verification/ClashConfig.thy ===== *)
theory ClashConfig
  imports ClashProvider ClashGroups ClashRules ClashFakeip
begin

text \<open>
  \<open>config/config.go\<close> and \<open>adapter/outboundgroup/parser.go\<close>: from the raw configuration to
  proxies, groups, providers, rules, hosts and name servers.  A proxy is a value: one of the
  two built-in ones, an outbound of the protocols' type \<open>'x\<close>, or a group with its providers.
  Maps of the raw configuration are lists in the order the run visits them.
\<close>

section \<open>Proxies and providers\<close>

record hc_spec =
  hs_url :: string
  hs_interval :: "64 word"
  hs_lazy :: bool

datatype group_kind =
    KURLTest "16 word"
  | KSelect string
  | KFallback
  | KLoadBalance strategyFn
  | KRelay

datatype 'x proxy =
    PDirect
  | PReject
  | POut 'x
  | PGroup group_kind group_option "'x provider list"
and 'x provider =
    CompatibleP string "'x proxy list" hc_spec
  | SetP fetcher "'x proxy list" hc_spec

fun proxy_Name :: "('x \<Rightarrow> string) \<Rightarrow> 'x proxy \<Rightarrow> string" where
  "proxy_Name nm PDirect = ''DIRECT''"
| "proxy_Name nm PReject = ''REJECT''"
| "proxy_Name nm (POut x) = nm x"
| "proxy_Name nm (PGroup k opt ps) = go_Name opt"

fun provider_Proxies :: "'x provider \<Rightarrow> 'x proxy list" where
  "provider_Proxies (CompatibleP name ps hc) = ps"
| "provider_Proxies (SetP f ps hc) = ps"

fun provider_VehicleType :: "'x provider \<Rightarrow> VehicleType" where
  "provider_VehicleType (CompatibleP name ps hc) = VCompatible"
| "provider_VehicleType (SetP f ps hc) = vehicle_Type (ft_vehicle f)"

section \<open>Groups\<close>

datatype group_err =
    FormatError
  | UnsupportedGroup string
  | MissProxy
  | MissHealthCheck
  | DuplicateProvider
  | NoProxyGiven
  | ProxyNotFound string
  | ProviderNotFound string
  | CompatibleInUse string
  | UnsupportedStrategy string

fun getProxies_named :: "(string \<rightharpoonup> 'x proxy) \<Rightarrow> string list \<Rightarrow> group_err + 'x proxy list" where
  "getProxies_named m [] = Inr []"
| "getProxies_named m (n # ns) =
     (case m n of
        None \<Rightarrow> Inl (ProxyNotFound n)
      | Some p \<Rightarrow> (case getProxies_named m ns of Inl e \<Rightarrow> Inl e | Inr ps \<Rightarrow> Inr (p # ps)))"

fun getProviders :: "(string \<rightharpoonup> 'x provider) \<Rightarrow> string list \<Rightarrow> group_err + 'x provider list" where
  "getProviders m [] = Inr []"
| "getProviders m (n # ns) =
     (case m n of
        None \<Rightarrow> Inl (ProviderNotFound n)
      | Some p \<Rightarrow>
          if provider_VehicleType p = VCompatible then Inl (CompatibleInUse n)
          else (case getProviders m ns of Inl e \<Rightarrow> Inl e | Inr ps \<Rightarrow> Inr (p # ps)))"

definition new_compatible :: "string \<Rightarrow> 'x proxy list \<Rightarrow> hc_spec \<Rightarrow> group_err + 'x provider" where
  "new_compatible name ps hc = (if ps = [] then Inl NoProxyGiven else Inr (CompatibleP name ps hc))"

definition parseStrategy :: "mapping \<Rightarrow> string" where
  "parseStrategy config = (case map_of config (DString ''strategy'') of Some (DString s) \<Rightarrow> s | _ \<Rightarrow> ''consistent-hashing'')"

definition parseURLTestOption :: "mapping \<Rightarrow> 16 word" where
  "parseURLTestOption config = (case map_of config (DString ''tolerance'') of Some (DInt i) \<Rightarrow> word_of_int i | _ \<Rightarrow> 0)"

text \<open>The providers of a group: the one made of its own proxies, and what is now in the map.\<close>

definition own_provider ::
  "(string \<rightharpoonup> 'x proxy) \<Rightarrow> (string \<rightharpoonup> 'x provider) \<Rightarrow> group_option \<Rightarrow> group_err + 'x provider list \<times> (string \<rightharpoonup> 'x provider)" where
  "own_provider proxyMap providersMap opt =
     (if go_Proxies opt = [] then Inr ([], providersMap)
      else case getProxies_named proxyMap (go_Proxies opt) of
        Inl e \<Rightarrow> Inl e
      | Inr ps \<Rightarrow>
          (let plain = \<lparr>hs_url = [], hs_interval = 0, hs_lazy = True\<rparr>;
               add = (\<lambda>hc. case new_compatible (go_Name opt) ps hc of
                   Inl e \<Rightarrow> Inl e
                 | Inr pd \<Rightarrow> Inr ([pd], providersMap(go_Name opt \<mapsto> pd))) in
           if go_Use opt \<noteq> [] then
             (case new_compatible (go_Name opt) ps plain of Inl e \<Rightarrow> Inl e | Inr pd \<Rightarrow> Inr ([pd], providersMap))
           else if providersMap (go_Name opt) \<noteq> None then Inl DuplicateProvider
           else if go_Type opt = ''select'' \<or> go_Type opt = ''relay'' then add plain
           else if go_URL opt = [] \<or> go_Interval opt = 0 then Inl MissHealthCheck
           else add \<lparr>hs_url = go_URL opt, hs_interval = word_of_int (go_Interval opt), hs_lazy = go_Lazy opt\<rparr>))"

definition new_group :: "('x \<Rightarrow> string) \<Rightarrow> mapping \<Rightarrow> group_option \<Rightarrow> 'x provider list \<Rightarrow> (group_err + 'x proxy) go" where
  "new_group nm config opt providers =
     (let tp = go_Type opt in
      if tp = ''url-test'' then Inr (Inr (PGroup (KURLTest (parseURLTestOption config)) opt providers))
      else if tp = ''select'' then
        go_bind (go_first providers) (\<lambda>pd. go_bind (go_first (provider_Proxies pd)) (\<lambda>p.
          Inr (Inr (PGroup (KSelect (proxy_Name nm p)) opt providers))))
      else if tp = ''fallback'' then Inr (Inr (PGroup KFallback opt providers))
      else if tp = ''load-balance'' then
        (let strategy = parseStrategy config in
         if strategy = ''consistent-hashing'' then Inr (Inr (PGroup (KLoadBalance ConsistentHashing) opt providers))
         else if strategy = ''round-robin'' then Inr (Inr (PGroup (KLoadBalance (RoundRobin 0)) opt providers))
         else Inr (Inl (UnsupportedStrategy strategy)))
      else if tp = ''relay'' then Inr (Inr (PGroup KRelay opt providers))
      else Inr (Inl (UnsupportedGroup tp)))"

definition ParseProxyGroup ::
  "('x \<Rightarrow> string) \<Rightarrow> mapping \<Rightarrow> (string \<rightharpoonup> 'x proxy) \<Rightarrow> (string \<rightharpoonup> 'x provider) \<Rightarrow>
     (group_err + 'x proxy \<times> (string \<rightharpoonup> 'x provider)) go" where
  "ParseProxyGroup nm config proxyMap providersMap =
     go_bind (decode_group True config) (\<lambda>r. case r of
       Inl e \<Rightarrow> Inr (Inl FormatError)
     | Inr opt \<Rightarrow>
         if go_Type opt = [] \<or> go_Name opt = [] then Inr (Inl FormatError)
         else if go_Proxies opt = [] \<and> go_Use opt = [] then Inr (Inl MissProxy)
         else case own_provider proxyMap providersMap opt of
           Inl e \<Rightarrow> Inr (Inl e)
         | Inr (own, providersMap) \<Rightarrow>
             (case getProviders providersMap (go_Use opt) of
                Inl e \<Rightarrow> Inr (Inl e)
              | Inr used \<Rightarrow>
                  go_bind (new_group nm config opt (own @ used)) (\<lambda>r. case r of
                    Inl e \<Rightarrow> Inr (Inl e)
                  | Inr g \<Rightarrow> Inr (Inr (g, providersMap)))))"

section \<open>Provider entries\<close>

definition proxyProviderSchema :: "(bool \<times> gfield) list" where
  "proxyProviderSchema =
     [(False, Field ''Type'' ''type'' True TString), (False, Field ''Path'' ''path'' True TString),
      (False, Field ''URL'' ''url,omitempty'' True TString), (False, Field ''Interval'' ''interval,omitempty'' True TInt),
      (False, Field ''HealthCheck'' ''health-check,omitempty'' True
         (TStruct [Field ''Enable'' ''enable'' True TBool, Field ''URL'' ''url'' True TString,
                   Field ''Interval'' ''interval'' True TInt, Field ''Lazy'' ''lazy,omitempty'' True TBool]))]"

definition provider_start :: "gval list" where
  "provider_start =
     [GString [], GString [], GString [], GInt 0, GStruct [GBool False, GString [], GInt 0, GBool True]]"

fun gv_fields :: "gval \<Rightarrow> gval list" where
  "gv_fields (GStruct vs) = vs"
| "gv_fields _ = []"

datatype provider_err = ProviderOptions decode_err | UnsupportedVehicle string

text \<open>\<open>resolve\<close> is \<open>C.Path.Resolve\<close>, which makes a path relative to the home directory absolute.\<close>

definition ParseProxyProvider ::
  "(string \<Rightarrow> string) \<Rightarrow> string \<Rightarrow> mapping \<Rightarrow> (provider_err + 'x provider) go" where
  "ParseProxyProvider resolve name m =
     go_bind (Decode True proxyProviderSchema m provider_start) (\<lambda>r. case r of
       Inl e \<Rightarrow> Inr (Inl (ProviderOptions e))
     | Inr vs \<Rightarrow>
         (let tp = gv_string (vs ! 0); path = resolve (gv_string (vs ! 1)); hc = gv_fields (vs ! 4);
              interval = word_of_int (gv_int (vs ! 3)) :: 64 word;
              spec = \<lparr>hs_url = gv_string (hc ! 1),
                       hs_interval = (if gv_bool (hc ! 0) then word_of_int (gv_int (hc ! 2)) else 0),
                       hs_lazy = gv_bool (hc ! 3)\<rparr>;
              new = (\<lambda>v. Inr (Inr (SetP (newFetcher name (wrap64 (sint interval * 1000000000)) v) [] spec))) in
          if tp = ''file'' then new (FileVehicle path)
          else if tp = ''http'' then new (HTTPVehicle (gv_string (vs ! 2)) path)
          else Inr (Inl (UnsupportedVehicle tp))))"

section \<open>All proxies of a configuration\<close>

text \<open>
  What the code asks outside: the constructors of the protocols and their names, \<open>yaml\<close>, the
  disk, the home directory, and the orders in which \<open>range\<close> visits the maps it runs over:
  the graph of the groups, and the providers that are initialised.
\<close>

record ('w, 'x) config_env =
  ce_new :: "string \<Rightarrow> gval list \<Rightarrow> string + 'x"
  ce_name :: "'x \<Rightarrow> string"
  ce_yaml :: "bytes \<Rightarrow> string + mapping list option"
  ce_disk :: "'w disk"
  ce_resolve :: "string \<Rightarrow> string"
  ce_order :: "nat \<Rightarrow> string list \<Rightarrow> string list"
  ce_visit :: "string list \<Rightarrow> string list"

datatype proxies_err =
    BadProxy nat proxy_err
  | DuplicateProxy string
  | GroupWithoutName nat
  | GroupOrder dag_err
  | ReservedProvider
  | BadProvider string provider_err
  | ProviderInitial string "list_err fetch_err"
  | BadGroup nat group_err
  | DuplicateGroupName string

type_synonym 'x proxies = "string \<rightharpoonup> 'x proxy"
type_synonym 'x providers = "string \<rightharpoonup> 'x provider"

fun proxies_loop ::
  "('w, 'x) config_env \<Rightarrow> nat \<Rightarrow> mapping list \<Rightarrow> 'x proxies \<times> string list \<Rightarrow> (proxies_err + 'x proxies \<times> string list) go" where
  "proxies_loop E idx [] st = Inr (Inr st)"
| "proxies_loop E idx (m # ms) st =
     go_bind (ParseProxy (ce_new E) m) (\<lambda>r. case r of
       Inl e \<Rightarrow> Inr (Inl (BadProxy idx e))
     | Inr x \<Rightarrow>
         (let n = ce_name E x in
          if fst st n \<noteq> None then Inr (Inl (DuplicateProxy n))
          else proxies_loop E (Suc idx) ms ((fst st)(n \<mapsto> POut x), snd st @ [n])))"

fun group_names_loop :: "nat \<Rightarrow> mapping list \<Rightarrow> string list \<Rightarrow> proxies_err + string list" where
  "group_names_loop idx [] ns = Inr ns"
| "group_names_loop idx (m # ms) ns =
     (case map_of m (DString ''name'') of
        Some (DString n) \<Rightarrow> group_names_loop (Suc idx) ms (ns @ [n])
      | _ \<Rightarrow> Inl (GroupWithoutName idx))"

definition ReservedName :: string where "ReservedName = ''default''"

fun providers_loop ::
  "('w, 'x) config_env \<Rightarrow> (string \<times> mapping) list \<Rightarrow> 'x providers \<Rightarrow> (proxies_err + 'x providers) go" where
  "providers_loop E [] pm = Inr (Inr pm)"
| "providers_loop E ((name, m) # ms) pm =
     (if name = ReservedName then Inr (Inl ReservedProvider)
      else go_bind (ParseProxyProvider (ce_resolve E) name m) (\<lambda>r. case r of
        Inl e \<Rightarrow> Inr (Inl (BadProvider name e))
      | Inr pd \<Rightarrow> providers_loop E ms (pm(name \<mapsto> pd))))"

text \<open>\<open>Initial\<close> of each provider: its list is fetched and set.\<close>

fun initial_loop ::
  "('w, 'x) config_env \<Rightarrow> string list \<Rightarrow> 'x providers \<Rightarrow> 'w \<Rightarrow> ((proxies_err + 'x providers) \<times> 'w) go" where
  "initial_loop E [] pm w = Inr (Inr pm, w)"
| "initial_loop E (name # ns) pm w =
     (case pm name of
        Some (SetP f ps hc) \<Rightarrow>
          go_bind (provider_Initial (ce_disk E) (proxiesParse (ce_yaml E) (ce_new E)) (\<lambda>xs _. map POut xs) (ps, f, w))
            (\<lambda>r. case r of
               (Some e, ps, f, w) \<Rightarrow> Inr (Inl (ProviderInitial name e), w)
             | (None, ps, f, w) \<Rightarrow> initial_loop E ns (pm(name \<mapsto> SetP f ps hc)) w)
      | _ \<Rightarrow> initial_loop E ns pm w)"

fun groups_loop ::
  "('x \<Rightarrow> string) \<Rightarrow> nat \<Rightarrow> mapping list \<Rightarrow> 'x proxies \<times> 'x providers \<Rightarrow> (proxies_err + 'x proxies \<times> 'x providers) go" where
  "groups_loop nm idx [] st = Inr (Inr st)"
| "groups_loop nm idx (m # ms) st =
     go_bind (ParseProxyGroup nm m (fst st) (snd st)) (\<lambda>r. case r of
       Inl e \<Rightarrow> Inr (Inl (BadGroup idx e))
     | Inr (grp, pm) \<Rightarrow>
         (let n = proxy_Name nm grp in
          if fst st n \<noteq> None then Inr (Inl (DuplicateGroupName n))
          else groups_loop nm (Suc idx) ms ((fst st)(n \<mapsto> grp), pm)))"

text \<open>
  The reserved provider and the group \<open>GLOBAL\<close> over all proxies; a name that is not in the
  map would give a nil proxy, which \<open>Name\<close> cannot be asked of.
\<close>

definition add_global ::
  "('x \<Rightarrow> string) \<Rightarrow> string list \<Rightarrow> 'x proxies \<times> 'x providers \<Rightarrow> ('x proxies \<times> 'x providers) go" where
  "add_global nm proxyList st =
     (let ps = map (fst st) proxyList in
      if None \<in> set ps then Inl NilDereference
      else
        (let pd = CompatibleP ReservedName (map the ps) \<lparr>hs_url = [], hs_interval = 0, hs_lazy = True\<rparr>;
             opt = \<lparr>go_Name = ''GLOBAL'', go_Type = [], go_Proxies = [], go_Use = [], go_URL = [], go_Interval = 0,
                    go_Lazy = False, go_DisableUDP = False\<rparr> in
         go_bind (go_first (map the ps)) (\<lambda>p.
           Inr ((fst st)(''GLOBAL'' \<mapsto> PGroup (KSelect (proxy_Name nm p)) opt [pd]),
                (snd st)(ReservedName \<mapsto> pd)))))"

text \<open>The parameters of \<open>parseProxies\<close> are the three parts of the raw configuration it reads.\<close>

definition parseProxies ::
  "('w, 'x) config_env \<Rightarrow> mapping list \<Rightarrow> mapping list \<Rightarrow> (string \<times> mapping) list \<Rightarrow> 'w \<Rightarrow>
     ((proxies_err + 'x proxies \<times> 'x providers) \<times> 'w) go" where
  "parseProxies E proxiesConfig groupsConfig providersConfig w =
     go_bind (proxies_loop E 0 proxiesConfig ([''DIRECT'' \<mapsto> PDirect, ''REJECT'' \<mapsto> PReject], [''DIRECT'', ''REJECT'']))
       (\<lambda>r. case r of Inl e \<Rightarrow> Inr (Inl e, w) | Inr (proxies, proxyList) \<Rightarrow>
     (case group_names_loop 0 groupsConfig proxyList of Inl e \<Rightarrow> Inr (Inl e, w) | Inr proxyList \<Rightarrow>
     go_bind (proxyGroupsDagSort (ce_order E) groupsConfig)
       (\<lambda>r. case r of Inl e \<Rightarrow> Inr (Inl (GroupOrder e), w) | Inr groupsConfig \<Rightarrow>
     go_bind (providers_loop E providersConfig Map.empty)
       (\<lambda>r. case r of Inl e \<Rightarrow> Inr (Inl e, w) | Inr providersMap \<Rightarrow>
     go_bind (initial_loop E (ce_visit E (map fst providersConfig)) providersMap w)
       (\<lambda>(r, w). case r of Inl e \<Rightarrow> Inr (Inl e, w) | Inr providersMap \<Rightarrow>
     go_bind (groups_loop (ce_name E) 0 groupsConfig (proxies, providersMap))
       (\<lambda>r. case r of Inl e \<Rightarrow> Inr (Inl e, w) | Inr st \<Rightarrow>
     go_bind (add_global (ce_name E) proxyList st) (\<lambda>st. Inr (Inr st, w))))))))"


section \<open>Rules\<close>

definition trim_blank :: "string \<Rightarrow> string" where
  "trim_blank s = rev (dropWhile (\<lambda>c. c = CHR '' '') (rev (dropWhile (\<lambda>c. c = CHR '' '') s)))"

definition trimArr :: "string list \<Rightarrow> string list" where
  "trimArr arr = map trim_blank arr"

datatype line_err = LineInvalid nat string | TargetNotFound nat string string | LineRejected nat string rule_err

fun rules_loop :: "(string \<rightharpoonup> 'p) \<Rightarrow> nat \<Rightarrow> string list \<Rightarrow> rule list \<Rightarrow> line_err + rule list" where
  "rules_loop P idx [] rules = Inr rules"
| "rules_loop P idx (line # ls) rules =
     (let rule = trimArr (split_on (CHR '','') line); l = length rule in
      if l < 2 then Inl (LineInvalid idx line)
      else
        let payload = (if l = 2 then [] else rule ! 1);
            target = (if l = 2 then rule ! 1 else rule ! 2);
            params = (if 4 \<le> l then drop 3 rule else []) in
        if P target = None then Inl (TargetNotFound idx line target)
        else case ParseRule (hd (trimArr rule)) payload target (trimArr params) of
          Inl e \<Rightarrow> Inl (LineRejected idx line e)
        | Inr parsed \<Rightarrow> rules_loop P (Suc idx) ls (rules @ [parsed]))"

definition parseRules :: "string list \<Rightarrow> (string \<rightharpoonup> 'p) \<Rightarrow> line_err + rule list" where
  "parseRules rulesConfig P = rules_loop P 0 rulesConfig []"

section \<open>Hosts, name servers and users\<close>

text \<open>\<open>parseHosts\<close>: an address that does not parse is an error, a domain that does not is dropped.\<close>

fun hosts_loop :: "(string \<times> string) list \<Rightarrow> bytes trie_node \<Rightarrow> string + bytes trie_node" where
  "hosts_loop [] tree = Inr tree"
| "hosts_loop ((domain, ipStr) # hs) tree =
     (case parse_ip ipStr of
        None \<Rightarrow> Inl (ipStr @ '' is not a valid IP'')
      | Some ip \<Rightarrow> hosts_loop hs (snd (trie_Insert domain (Some ip) tree)))"

definition parseHosts :: "(string \<times> string) list \<Rightarrow> string + bytes trie_node" where
  "parseHosts hosts = hosts_loop hosts (snd (trie_Insert ''localhost'' (Some [127, 0, 0, 1]) trie_New))"

definition hostWithDefaultPort :: "string \<Rightarrow> string \<Rightarrow> addr_err + string" where
  "hostWithDefaultPort host defPort =
     (let host = (if CHR '':'' \<in> set host then host else host @ '':'') in
      case split_host_port host of
        Inl e \<Rightarrow> Inl e
      | Inr (hostname, port) \<Rightarrow> Inr (join_host_port hostname (if port = [] then defPort else port)))"

record NameServer =
  ns_Net :: string
  ns_Addr :: string
  ns_Interface :: string

text \<open>\<open>url.Parse\<close> as scheme, host and path, and \<open>URL.String\<close> for a URL of scheme \<open>https\<close>.\<close>

record url_lib =
  url_Parse :: "string \<Rightarrow> string + string \<times> string \<times> string"
  url_https :: "string \<Rightarrow> string \<Rightarrow> string"

datatype ns_err = NsFormat nat | NsScheme nat string

definition nameserver_of :: "url_lib \<Rightarrow> nat \<Rightarrow> string \<Rightarrow> ns_err + NameServer" where
  "nameserver_of U idx server0 =
     (let server = (if contains server0 ''://'' then server0 else ''udp://'' @ server0) in
      case url_Parse U server of
        Inl e \<Rightarrow> Inl (NsFormat idx)
      | Inr (scheme, host, path) \<Rightarrow>
          (let with_port = (\<lambda>net port. case hostWithDefaultPort host port of
                   Inl e \<Rightarrow> Inl (NsFormat idx)
                 | Inr addr \<Rightarrow> Inr \<lparr>ns_Net = net, ns_Addr = addr, ns_Interface = []\<rparr>) in
           if scheme = ''udp'' then with_port [] ''53''
           else if scheme = ''tcp'' then with_port ''tcp'' ''53''
           else if scheme = ''tls'' then with_port ''tcp-tls'' ''853''
           else if scheme = ''https'' then Inr \<lparr>ns_Net = ''https'', ns_Addr = url_https U host path, ns_Interface = []\<rparr>
           else if scheme = ''dhcp'' then Inr \<lparr>ns_Net = ''dhcp'', ns_Addr = host, ns_Interface = []\<rparr>
           else Inl (NsScheme idx scheme)))"

fun nameservers_loop :: "url_lib \<Rightarrow> nat \<Rightarrow> string list \<Rightarrow> ns_err + NameServer list" where
  "nameservers_loop U idx [] = Inr []"
| "nameservers_loop U idx (s # ss) =
     (case nameserver_of U idx s of
        Inl e \<Rightarrow> Inl e
      | Inr ns \<Rightarrow> (case nameservers_loop U (Suc idx) ss of Inl e \<Rightarrow> Inl e | Inr nss \<Rightarrow> Inr (ns # nss)))"

definition parseNameServer :: "url_lib \<Rightarrow> string list \<Rightarrow> ns_err + NameServer list" where
  "parseNameServer U servers = nameservers_loop U 0 servers"

datatype dns_err =
    NameServerEmpty
  | BadNameServer ns_err
  | PolicyDomain string
  | NoDefaultServer
  | DefaultNotIP
  | BadFakeIPRange
  | FakeIPRangeTooSmall

fun policy_loop ::
  "url_lib \<Rightarrow> (string \<times> string) list \<Rightarrow> (string \<rightharpoonup> NameServer) \<Rightarrow> dns_err + (string \<rightharpoonup> NameServer)" where
  "policy_loop U [] policy = Inr policy"
| "policy_loop U ((domain, server) # ps) policy =
     (case parseNameServer U [server] of
        Inl e \<Rightarrow> Inl (BadNameServer e)
      | Inr nss \<Rightarrow>
          if ValidAndSplitDomain domain = None then Inl (PolicyDomain domain)
          else policy_loop U ps (policy(domain \<mapsto> hd nss)))"

definition parseNameServerPolicy :: "url_lib \<Rightarrow> (string \<times> string) list \<Rightarrow> dns_err + (string \<rightharpoonup> NameServer)" where
  "parseNameServerPolicy U nsPolicy = policy_loop U nsPolicy Map.empty"

fun parseFallbackIPCIDR :: "string list \<Rightarrow> IPNet list option" where
  "parseFallbackIPCIDR [] = Some []"
| "parseFallbackIPCIDR (ip # ips) =
     (case parse_cidr ip of
        None \<Rightarrow> None
      | Some ipnet \<Rightarrow> map_option (\<lambda>nets. ipnet # nets) (parseFallbackIPCIDR ips))"

record AuthUser =
  au_User :: string
  au_Pass :: string

definition parseAuthentication :: "string list \<Rightarrow> AuthUser list" where
  "parseAuthentication rawRecords =
     List.map_filter (\<lambda>line. case splitn2 (CHR '':'') line of
         [u, p] \<Rightarrow> Some \<lparr>au_User = u, au_Pass = p\<rparr>
       | _ \<Rightarrow> None) rawRecords"

section \<open>DNS\<close>

record RawFallbackFilter =
  rf_GeoIP :: bool
  rf_GeoIPCode :: string
  rf_IPCIDR :: "string list"
  rf_Domain :: "string list"

record RawDNS =
  rd_Enable :: bool
  rd_IPv6 :: bool
  rd_UseHosts :: bool
  rd_NameServer :: "string list"
  rd_Fallback :: "string list"
  rd_FallbackFilter :: RawFallbackFilter
  rd_Listen :: string
  rd_EnhancedMode :: DNSMode
  rd_FakeIPRange :: string
  rd_FakeIPFilter :: "string list"
  rd_DefaultNameserver :: "string list"
  rd_NameServerPolicy :: "(string \<times> string) list"

record FallbackFilter =
  ff_GeoIP :: bool
  ff_GeoIPCode :: string
  ff_IPCIDR :: "IPNet list"
  ff_Domain :: "string list"

record DNS =
  dc_Enable :: bool
  dc_IPv6 :: bool
  dc_NameServer :: "NameServer list"
  dc_Fallback :: "NameServer list"
  dc_FallbackFilter :: FallbackFilter
  dc_Listen :: string
  dc_EnhancedMode :: DNSMode
  dc_DefaultNameserver :: "NameServer list"
  dc_FakeIPRange :: "bool fakeip_options option"
  dc_Hosts :: "bytes trie_node option"
  dc_NameServerPolicy :: "string \<rightharpoonup> NameServer"

definition pure_ip_server :: "NameServer \<Rightarrow> bool" where
  "pure_ip_server ns = (case split_host_port (ns_Addr ns) of Inl e \<Rightarrow> False | Inr (host, port) \<Rightarrow> parse_ip host \<noteq> None)"

definition skip_hosts :: "string list \<Rightarrow> bool trie_node option" where
  "skip_hosts filters = (if filters = [] then None else Some (fold (\<lambda>domain t. snd (trie_Insert domain (Some True) t)) filters trie_New))"

definition fake_range :: "RawDNS \<Rightarrow> bool \<Rightarrow> dns_err + bool fakeip_options option" where
  "fake_range cfg storeFakeIP =
     (if rd_EnhancedMode cfg \<noteq> DNSFakeIP then Inr None
      else case parse_cidr (rd_FakeIPRange cfg) of
        None \<Rightarrow> Inl BadFakeIPRange
      | Some ipnet \<Rightarrow>
          (let host = skip_hosts (rd_FakeIPFilter cfg) in
           if pool_total (net_mask ipnet) \<le> 0 then Inl FakeIPRangeTooSmall
           else Inr (Some \<lparr>fo_IPNet = ipnet, fo_Host = host, fo_Size = 1000, fo_Persistence = storeFakeIP\<rparr>)))"

definition dns_bind :: "'a + 'b \<Rightarrow> ('b \<Rightarrow> 'a + 'c) \<Rightarrow> 'a + 'c" where
  "dns_bind r f = (case r of Inl e \<Rightarrow> Inl e | Inr x \<Rightarrow> f x)"

definition with_ns :: "ns_err + 'a \<Rightarrow> dns_err + 'a" where
  "with_ns r = (case r of Inl e \<Rightarrow> Inl (BadNameServer e) | Inr x \<Rightarrow> Inr x)"

definition parseDNS :: "url_lib \<Rightarrow> RawDNS \<Rightarrow> bool \<Rightarrow> bytes trie_node \<Rightarrow> dns_err + DNS" where
  "parseDNS U cfg storeFakeIP hosts =
     (if rd_Enable cfg \<and> rd_NameServer cfg = [] then Inl NameServerEmpty
      else
        dns_bind (with_ns (parseNameServer U (rd_NameServer cfg))) (\<lambda>nameServer.
        dns_bind (with_ns (parseNameServer U (rd_Fallback cfg))) (\<lambda>fallback.
        dns_bind (parseNameServerPolicy U (rd_NameServerPolicy cfg)) (\<lambda>policy.
        if rd_DefaultNameserver cfg = [] then Inl NoDefaultServer
        else dns_bind (with_ns (parseNameServer U (rd_DefaultNameserver cfg))) (\<lambda>defaults.
        if \<not> list_all pure_ip_server defaults then Inl DefaultNotIP
        else dns_bind (fake_range cfg storeFakeIP) (\<lambda>pool.
        let ff = rd_FallbackFilter cfg in
        Inr \<lparr>dc_Enable = rd_Enable cfg, dc_IPv6 = rd_IPv6 cfg, dc_NameServer = nameServer, dc_Fallback = fallback,
             dc_FallbackFilter = \<lparr>ff_GeoIP = rf_GeoIP ff, ff_GeoIPCode = rf_GeoIPCode ff,
               ff_IPCIDR = (case parseFallbackIPCIDR (rf_IPCIDR ff) of Some nets \<Rightarrow> nets | None \<Rightarrow> []),
               ff_Domain = rf_Domain ff\<rparr>,
             dc_Listen = rd_Listen cfg, dc_EnhancedMode = rd_EnhancedMode cfg, dc_DefaultNameserver = defaults,
             dc_FakeIPRange = pool, dc_Hosts = (if rd_UseHosts cfg then Some hosts else None),
             dc_NameServerPolicy = policy\<rparr>))))))"

section \<open>The whole configuration\<close>

record RawConfig =
  rc_Port :: int
  rc_SocksPort :: int
  rc_RedirPort :: int
  rc_TProxyPort :: int
  rc_MixedPort :: int
  rc_Authentication :: "string list"
  rc_AllowLan :: bool
  rc_BindAddress :: string
  rc_Mode :: TunnelMode
  rc_LogLevel :: LogLevel
  rc_IPv6 :: bool
  rc_ExternalController :: string
  rc_ExternalUI :: string
  rc_Secret :: string
  rc_Interface :: string
  rc_ProxyProvider :: "(string \<times> mapping) list"
  rc_Hosts :: "(string \<times> string) list"
  rc_DNS :: RawDNS
  rc_StoreSelected :: bool
  rc_StoreFakeIP :: bool
  rc_Proxy :: "mapping list"
  rc_ProxyGroup :: "mapping list"
  rc_Rule :: "string list"

definition default_raw :: RawConfig where
  "default_raw =
     \<lparr>rc_Port = 0, rc_SocksPort = 0, rc_RedirPort = 0, rc_TProxyPort = 0, rc_MixedPort = 0, rc_Authentication = [],
      rc_AllowLan = False, rc_BindAddress = ''*'', rc_Mode = Rule, rc_LogLevel = INFO, rc_IPv6 = False,
      rc_ExternalController = [], rc_ExternalUI = [], rc_Secret = [], rc_Interface = [], rc_ProxyProvider = [],
      rc_Hosts = [],
      rc_DNS = \<lparr>rd_Enable = False, rd_IPv6 = False, rd_UseHosts = True, rd_NameServer = [], rd_Fallback = [],
        rd_FallbackFilter = \<lparr>rf_GeoIP = True, rf_GeoIPCode = ''CN'', rf_IPCIDR = [], rf_Domain = []\<rparr>,
        rd_Listen = [], rd_EnhancedMode = DNSNormal, rd_FakeIPRange = ''198.18.0.1/16'', rd_FakeIPFilter = [],
        rd_DefaultNameserver = [''114.114.114.114'', ''8.8.8.8''], rd_NameServerPolicy = []\<rparr>,
      rc_StoreSelected = True, rc_StoreFakeIP = False, rc_Proxy = [], rc_ProxyGroup = [], rc_Rule = []\<rparr>"

record General =
  ge_Port :: int
  ge_SocksPort :: int
  ge_RedirPort :: int
  ge_TProxyPort :: int
  ge_MixedPort :: int
  ge_AllowLan :: bool
  ge_BindAddress :: string
  ge_ExternalController :: string
  ge_ExternalUI :: string
  ge_Secret :: string
  ge_Mode :: TunnelMode
  ge_LogLevel :: LogLevel
  ge_IPv6 :: bool
  ge_Interface :: string

text \<open>\<open>missing\<close> asks the file system whether a path does not exist.\<close>

definition parseGeneral :: "(string \<Rightarrow> string) \<Rightarrow> (string \<Rightarrow> bool) \<Rightarrow> RawConfig \<Rightarrow> string + General" where
  "parseGeneral resolve missing cfg =
     (let ui = rc_ExternalUI cfg in
      if ui \<noteq> [] \<and> missing (resolve ui) then Inl (''external-ui: '' @ resolve ui @ '' not exist'')
      else Inr \<lparr>ge_Port = rc_Port cfg, ge_SocksPort = rc_SocksPort cfg, ge_RedirPort = rc_RedirPort cfg,
        ge_TProxyPort = rc_TProxyPort cfg, ge_MixedPort = rc_MixedPort cfg, ge_AllowLan = rc_AllowLan cfg,
        ge_BindAddress = rc_BindAddress cfg, ge_ExternalController = rc_ExternalController cfg,
        ge_ExternalUI = rc_ExternalUI cfg, ge_Secret = rc_Secret cfg, ge_Mode = rc_Mode cfg,
        ge_LogLevel = rc_LogLevel cfg, ge_IPv6 = rc_IPv6 cfg, ge_Interface = rc_Interface cfg\<rparr>)"

record 'x Config =
  cf_General :: General
  cf_DNS :: DNS
  cf_Hosts :: "bytes trie_node"
  cf_StoreSelected :: bool
  cf_Rules :: "rule list"
  cf_Users :: "AuthUser list"
  cf_Proxies :: "'x proxies"
  cf_Providers :: "'x providers"

datatype config_err =
    YamlError string
  | GeneralError string
  | ProxiesError proxies_err
  | RulesError line_err
  | HostsError string
  | DNSError dns_err

definition ParseRawConfig ::
  "('w, 'x) config_env \<Rightarrow> url_lib \<Rightarrow> RawConfig \<Rightarrow> 'w \<Rightarrow> ((config_err + 'x Config) \<times> 'w) go" where
  "ParseRawConfig E U raw w =
     (case parseGeneral (ce_resolve E) (\<lambda>p. dk_Missing (ce_disk E) p w) raw of
        Inl e \<Rightarrow> Inr (Inl (GeneralError e), w)
      | Inr general \<Rightarrow>
          go_bind (parseProxies E (rc_Proxy raw) (rc_ProxyGroup raw) (rc_ProxyProvider raw) w) (\<lambda>(r, w).
          case r of Inl e \<Rightarrow> Inr (Inl (ProxiesError e), w) | Inr (proxies, providers) \<Rightarrow>
          (case parseRules (rc_Rule raw) proxies of
             Inl e \<Rightarrow> Inr (Inl (RulesError e), w)
           | Inr rules \<Rightarrow>
               (case parseHosts (rc_Hosts raw) of
                  Inl e \<Rightarrow> Inr (Inl (HostsError e), w)
                | Inr hosts \<Rightarrow>
                    (case parseDNS U (rc_DNS raw) (rc_StoreFakeIP raw) hosts of
                       Inl e \<Rightarrow> Inr (Inl (DNSError e), w)
                     | Inr dns \<Rightarrow>
                         Inr (Inr \<lparr>cf_General = general, cf_DNS = dns, cf_Hosts = hosts,
                           cf_StoreSelected = rc_StoreSelected raw, cf_Rules = rules,
                           cf_Users = parseAuthentication (rc_Authentication raw), cf_Proxies = proxies,
                           cf_Providers = providers\<rparr>, w))))))"

text \<open>\<open>Parse\<close>: \<open>yaml\<close> reads the text over the defaults.\<close>

definition clash_Parse ::
  "('w, 'x) config_env \<Rightarrow> url_lib \<Rightarrow> (bytes \<Rightarrow> RawConfig \<Rightarrow> string + RawConfig) \<Rightarrow> bytes \<Rightarrow> 'w \<Rightarrow>
     ((config_err + 'x Config) \<times> 'w) go" where
  "clash_Parse E U yaml buf w =
     (case yaml buf default_raw of
        Inl e \<Rightarrow> Inr (Inl (YamlError e), w)
      | Inr raw \<Rightarrow> ParseRawConfig E U raw w)"

section \<open>Decoding is field by field\<close>

text \<open>The value of one field, from the map and its old value.\<close>

definition one_field :: "bool \<Rightarrow> (data \<times> data) list \<Rightarrow> bool \<times> gfield \<Rightarrow> gval \<Rightarrow> gval decoded" where
  "one_field weak src af v =
     (case af of (anonymous, f) \<Rightarrow>
        if anonymous then decode weak (fd_Name f) (fd_type f) (DMap StringKeys src) v
        else let key = tag_name (fd_tag f); omitempty = (tag_option (fd_tag f) = Some ''omitempty'') in
          case map_of src (DString key) of
            None \<Rightarrow> if omitempty then Inr (Inr v) else Inr (Inl (KeyMissing key))
          | Some d \<Rightarrow>
              if d = DNil then (if omitempty then Inr (Inr v) else Inr (Inl (KeyMissing key)))
              else decode weak key (fd_type f) d v)"

lemma Decode_loop_Cons:
  "Decode_loop weak (af # fs) src (v # old) =
     dbind (one_field weak src af v) (\<lambda>x. dbind (Decode_loop weak fs src old) (\<lambda>xs. Inr (Inr (x # xs))))"
  by (cases af) (auto simp: one_field_def Let_def dbind_def split: option.split)

lemma Decode_loop_nth:
  "Decode_loop weak fs src old = Inr (Inr vs) \<Longrightarrow> length old = length fs \<Longrightarrow>
     length vs = length fs \<and> (\<forall>i < length fs. one_field weak src (fs ! i) (old ! i) = Inr (Inr (vs ! i)))"
proof (induction fs arbitrary: old vs)
  case (Cons f fs)
  obtain v old' where o: "old = v # old'" using Cons.prems(2) by (cases old) auto
  from Cons.prems(1) obtain x xs where x: "one_field weak src f v = Inr (Inr x)" "Decode_loop weak fs src old' = Inr (Inr xs)" "vs = x # xs"
    by (auto simp: o Decode_loop_Cons dbind_Inr)
  from Cons.IH [OF x(2)] Cons.prems(2) o x(1,3) show ?case by (auto simp: less_Suc_eq_0_disj)
qed simp

lemma decode_group_fields:
  assumes "decode_group lazy m = Inr (Inr opt)"
  obtains vs where "length vs = 9" "opt = group_of vs"
    "\<And>i. i < 9 \<Longrightarrow> one_field True m (GroupCommonOption ! i) (group_start lazy ! i) = Inr (Inr (vs ! i))"
proof -
  from assms obtain vs where v: "Decode_loop True GroupCommonOption m (group_start lazy) = Inr (Inr vs)" "opt = group_of vs"
    by (auto simp: decode_group_def dbind_Inr Decode_def)
  have "length (group_start lazy) = length GroupCommonOption" by (simp add: group_start_def GroupCommonOption_def)
  from Decode_loop_nth [OF v(1) this] that [of vs] v(2) show thesis by (simp add: GroupCommonOption_def)
qed

lemma group_start_lazy: "i < 9 \<Longrightarrow> i \<noteq> 7 \<Longrightarrow> group_start False ! i = group_start True ! i"
  by (auto simp: group_start_def nth_Cons' numeral_eq_Suc)

text \<open>The sort and the parser of groups decode the same names.\<close>

lemma decode_group_lazy:
  assumes "decode_group False m = Inr (Inr o1)" "decode_group True m = Inr (Inr o2)"
  shows "go_Name o1 = go_Name o2 \<and> go_Proxies o1 = go_Proxies o2 \<and> go_Use o1 = go_Use o2 \<and> go_Type o1 = go_Type o2"
proof -
  from assms(1) obtain vs where v: "o1 = group_of vs" "\<And>i. i < 9 \<Longrightarrow> one_field True m (GroupCommonOption ! i) (group_start False ! i) = Inr (Inr (vs ! i))"
    by (rule decode_group_fields) blast
  from assms(2) obtain us where u: "o2 = group_of us" "\<And>i. i < 9 \<Longrightarrow> one_field True m (GroupCommonOption ! i) (group_start True ! i) = Inr (Inr (us ! i))"
    by (rule decode_group_fields) blast
  have "vs ! i = us ! i" if "i < 9" "i \<noteq> 7" for i
    using v(2) [OF that(1)] u(2) [OF that(1)] group_start_lazy [OF that] by simp
  then show ?thesis by (simp add: v(1) u(1) group_of_def)
qed

lemma decode_group_name:
  assumes "decode_group lazy m = Inr (Inr opt)" "map_of m (DString ''name'') = Some (DString n)"
  shows "go_Name opt = n"
proof -
  from assms(1) obtain vs where v: "opt = group_of vs"
    "\<And>i. i < 9 \<Longrightarrow> one_field True m (GroupCommonOption ! i) (group_start lazy ! i) = Inr (Inr (vs ! i))"
    by (rule decode_group_fields) blast
  have "GroupCommonOption ! 1 = (False, Field ''Name'' ''name'' True TString)" by (simp add: GroupCommonOption_def)
  moreover have "tag_name ''name'' = ''name''" by code_simp
  ultimately have "vs ! 1 = GString n"
    using v(2) [of 1] assms(2) by (simp add: one_field_def decodeString_def)
  then show ?thesis by (simp add: v(1) group_of_def)
qed


section \<open>Groups find their members\<close>

lemma getProxies_named_Inl: "getProxies_named P ns = Inl e \<Longrightarrow> \<exists>n \<in> set ns. P n = None \<and> e = ProxyNotFound n"
  by (induction P ns rule: getProxies_named.induct) (auto split: option.splits sum.splits)

lemma getProxies_named_Inr: "getProxies_named P ns = Inr ps \<Longrightarrow> map P ns = map Some ps"
  by (induction P ns arbitrary: ps rule: getProxies_named.induct) (auto split: option.splits sum.splits)

lemma getProviders_Inl: "getProviders V ns = Inl e \<Longrightarrow> e \<noteq> ProxyNotFound n"
  by (induction V ns rule: getProviders.induct) (auto split: option.splits sum.splits if_splits)

lemma getProviders_Inr: "getProviders V ns = Inr ps \<Longrightarrow> map V ns = map Some ps"
  by (induction V ns arbitrary: ps rule: getProviders.induct) (auto split: option.splits sum.splits if_splits)

lemma own_provider_Inl:
  "own_provider P V opt = Inl (ProxyNotFound n) \<Longrightarrow> n \<in> set (go_Proxies opt) \<and> P n = None"
  by (auto simp: own_provider_def new_compatible_def Let_def dest: getProxies_named_Inl split: if_splits sum.splits)

lemma own_provider_Inr:
  assumes "own_provider P V opt = Inr (own, V')"
  shows "go_Proxies opt = [] \<and> own = [] \<and> V' = V \<or>
    (\<exists>ps hc. own = [CompatibleP (go_Name opt) ps hc] \<and> map P (go_Proxies opt) = map Some ps \<and> ps \<noteq> [] \<and>
       (V' = V \<or> V' = V(go_Name opt \<mapsto> CompatibleP (go_Name opt) ps hc)))"
  using assms
  by (auto simp: own_provider_def new_compatible_def Let_def dest: getProxies_named_Inr split: if_splits sum.splits)

lemma new_group_ok: "new_group nm config opt provs = Inr (Inr g) \<Longrightarrow> \<exists>k. g = PGroup k opt provs"
  by (auto simp: new_group_def Let_def go_bind_Inr split: if_splits)

lemma new_group_Inl: "new_group nm config opt provs = Inr (Inl e) \<Longrightarrow> e \<noteq> ProxyNotFound n"
  by (auto simp: new_group_def Let_def go_bind_Inr split: if_splits)

lemma ParseProxyGroup_cases:
  fixes P :: "string \<rightharpoonup> 'a proxy"
  assumes "ParseProxyGroup nm m P V = Inr r"
  obtains e where "r = Inl e" "\<And>n. e \<noteq> ProxyNotFound n"
  | opt n where "decode_group True m = Inr (Inr opt)" "r = Inl (ProxyNotFound n)" "n \<in> set (go_Proxies opt)" "P n = None"
  | opt own V' used k where "decode_group True m = Inr (Inr opt)" "own_provider P V opt = Inr (own, V')"
      "map V' (go_Use opt) = map Some used" "r = Inr (PGroup k opt (own @ used), V')"
proof -
  from assms obtain d where d: "decode_group True m = Inr d" by (auto simp: ParseProxyGroup_def go_bind_Inr)
  show thesis
  proof (cases d)
    case (Inl e)
    with assms d that(1) show thesis by (auto simp: ParseProxyGroup_def)
  next
    case (Inr opt)
    note dec = d [unfolded Inr]
    have r: "(if go_Type opt = [] \<or> go_Name opt = [] then Inr (Inl FormatError)
         else if go_Proxies opt = [] \<and> go_Use opt = [] then Inr (Inl MissProxy)
         else case own_provider P V opt of
           Inl e \<Rightarrow> Inr (Inl e)
         | Inr (own, providersMap) \<Rightarrow>
             (case getProviders providersMap (go_Use opt) of
                Inl e \<Rightarrow> Inr (Inl e)
              | Inr used \<Rightarrow>
                  go_bind (new_group nm m opt (own @ used)) (\<lambda>r. case r of
                    Inl e \<Rightarrow> Inr (Inl e)
                  | Inr g \<Rightarrow> Inr (Inr (g, providersMap))))) = Inr r"
      using assms by (simp add: ParseProxyGroup_def dec)
    show thesis
    proof (cases "go_Type opt = [] \<or> go_Name opt = [] \<or> go_Proxies opt = [] \<and> go_Use opt = []")
      case True
      with r have "r = Inl FormatError \<or> r = Inl MissProxy" by (auto split: if_splits)
      then show thesis using that(1) by blast
    next
      case False
      show thesis
      proof (cases "own_provider P V opt")
        case (Inl e)
        with r False have r1: "r = Inl e" by (simp split: if_splits)
        show thesis
        proof (cases "\<exists>n. e = ProxyNotFound n")
          case True
          then obtain n where e: "e = ProxyNotFound n" by blast
          from own_provider_Inl [OF Inl [unfolded e]] r1 e dec that(2) show thesis by blast
        qed (use r1 that(1) in blast)
      next
        case (Inr ov)
        obtain own V' where ov: "ov = (own, V')" by (cases ov)
        show thesis
        proof (cases "getProviders V' (go_Use opt)")
          case (Inl e)
          with r False Inr ov have "r = Inl e" by (simp split: if_splits)
          with getProviders_Inl [OF Inl] that(1) show thesis by blast
        next
          fix used assume u: "getProviders V' (go_Use opt) = Inr used"
          with r False Inr ov obtain q where q: "new_group nm m opt (own @ used) = Inr q"
            "(case q of Inl e \<Rightarrow> Inr (Inl e) | Inr g \<Rightarrow> Inr (Inr (g, V'))) = (Inr r :: (group_err + 'a proxy \<times> (string \<rightharpoonup> 'a provider)) go)"
            by (auto simp: go_bind_Inr split: if_splits)
          show thesis
          proof (cases q)
            case (Inl e)
            with q new_group_Inl [of nm m opt "own @ used" e] that(1) show thesis by auto
          next
            case (Inr g)
            with q new_group_ok obtain k where "g = PGroup k opt (own @ used)" by blast
            with q Inr dec u getProviders_Inr [OF u] \<open>own_provider P V opt = Inr ov\<close> ov that(3) show thesis by auto
          qed
        qed
      qed
    qed
  qed
qed

lemma groups_loop_notfound:
  assumes "groups_loop nm idx ms (P, V) = Inr (Inl (BadGroup j (ProxyNotFound n)))"
    and "list_all2 (\<lambda>m opt. decode_group False m = Inr (Inr opt)) ms opts"
    and "sorted_wrt (\<lambda>a b. go_Name b \<notin> set (go_Proxies a)) opts" "\<forall>opt \<in> set opts. go_Name opt \<notin> set (go_Proxies opt)"
  shows "P n = None \<and> n \<notin> go_Name ` set opts"
  using assms
proof (induction ms arbitrary: idx P V opts)
  case (Cons m ms)
  then obtain opt opts' where o: "opts = opt # opts'" "decode_group False m = Inr (Inr opt)"
    "list_all2 (\<lambda>m opt. decode_group False m = Inr (Inr opt)) ms opts'" by (cases opts) auto
  from Cons.prems(1) obtain r where r: "ParseProxyGroup nm m P V = Inr r" by (auto simp: go_bind_Inr)
  show ?case
  proof (cases r)
    case (Inl e)
    with r Cons.prems(1) have "ParseProxyGroup nm m P V = Inr (Inl (ProxyNotFound n))" by simp
    then obtain opt' where
      t: "decode_group True m = Inr (Inr opt')" "n \<in> set (go_Proxies opt')" "P n = None" by (cases rule: ParseProxyGroup_cases) auto
    with decode_group_lazy [OF o(2) t(1)] Cons.prems(3,4) show ?thesis by (auto simp: o(1))
  next
    case (Inr gv)
    obtain g V' where gv: "gv = (g, V')" by (cases gv)
    from r Inr gv have "ParseProxyGroup nm m P V = Inr (Inr (g, V'))" by simp
    then obtain k opt' ps where t: "decode_group True m = Inr (Inr opt')" "g = PGroup k opt' ps" by (cases rule: ParseProxyGroup_cases) auto
    have nm: "proxy_Name nm g = go_Name opt" using decode_group_lazy [OF o(2) t(1)] t(2) by simp
    from Cons.prems(1) r Inr gv nm have "groups_loop nm (Suc idx) ms (P(go_Name opt \<mapsto> g), V') = Inr (Inl (BadGroup j (ProxyNotFound n)))"
      by (simp add: Let_def split: if_splits)
    from Cons.IH [OF this o(3)] Cons.prems(3,4) show ?thesis by (auto simp: o(1) split: if_splits)
  qed
qed simp

lemma go_bind_sum:
  "go_bind m (case_sum f g) = Inr r \<longleftrightarrow>
     (\<exists>e. m = Inr (Inl e) \<and> f e = Inr r) \<or> (\<exists>x. m = Inr (Inr x) \<and> g x = Inr r)"
  by (cases m; cases "projr m") auto

lemma sum_case_eq: "case_sum f g m = r \<longleftrightarrow> (\<exists>e. m = Inl e \<and> f e = r) \<or> (\<exists>x. m = Inr x \<and> g x = r)"
  by (cases m) auto

section \<open>What the loops before the groups do\<close>

text \<open>A map of proxies that names each of its entries.\<close>

definition named :: "('x \<Rightarrow> string) \<Rightarrow> 'x proxies \<Rightarrow> bool" where
  "named nm P \<longleftrightarrow> (\<forall>n p. P n = Some p \<longrightarrow> proxy_Name nm p = n)"

lemma named_upd: "named nm P \<Longrightarrow> proxy_Name nm p = n \<Longrightarrow> named nm (P(n \<mapsto> p))"
  by (auto simp: named_def)

lemma proxies_loop_ok:
  assumes "proxies_loop E idx ms (P, ns) = Inr (Inr (P', ns'))"
  shows "P \<subseteq>\<^sub>m P' \<and> (named (ce_name E) P \<longrightarrow> named (ce_name E) P') \<and>
    (\<forall>m \<in> set ms. \<exists>x. ParseProxy (ce_new E) m = Inr (Inr x) \<and> ce_name E x \<in> dom P') \<and>
    (\<exists>new. ns' = ns @ new \<and> dom P' = dom P \<union> set new)"
  using assms
proof (induction ms arbitrary: idx P ns)
  case (Cons m ms)
  from Cons.prems obtain r where r: "ParseProxy (ce_new E) m = Inr r" by (auto simp: go_bind_Inr)
  with Cons.prems obtain x where x: "r = Inr x" by (cases r) auto
  let ?n = "ce_name E x"
  from Cons.prems r x have f: "P ?n = None" by (auto simp: Let_def split: if_splits)
  with Cons.prems r x have "proxies_loop E (Suc idx) ms (P(?n \<mapsto> POut x), ns @ [?n]) = Inr (Inr (P', ns'))" by (simp add: Let_def)
  from Cons.IH [OF this] have ih: "P(?n \<mapsto> POut x) \<subseteq>\<^sub>m P'"
      "named (ce_name E) (P(?n \<mapsto> POut x)) \<longrightarrow> named (ce_name E) P'"
      "\<forall>m \<in> set ms. \<exists>x. ParseProxy (ce_new E) m = Inr (Inr x) \<and> ce_name E x \<in> dom P'"
      "\<exists>new. ns' = (ns @ [?n]) @ new \<and> dom P' = dom (P(?n \<mapsto> POut x)) \<union> set new" by blast+
  from ih(4) obtain new where n: "ns' = (ns @ [?n]) @ new" "dom P' = dom (P(?n \<mapsto> POut x)) \<union> set new" by blast
  have "P \<subseteq>\<^sub>m P(?n \<mapsto> POut x)" using f by (auto simp: map_le_def)
  with ih(1) have "P \<subseteq>\<^sub>m P'" by (rule map_le_trans [rotated])
  moreover have "named (ce_name E) P \<longrightarrow> named (ce_name E) P'" using ih(2) by (auto intro: named_upd)
  moreover have "?n \<in> dom P'" using n(2) by simp
  moreover have "ns' = ns @ (?n # new)" "dom P' = dom P \<union> set (?n # new)" using n by auto
  ultimately show ?case using ih(3) r x by (auto simp del: dom_fun_upd)
qed auto

lemma group_names_loop_ok:
  "group_names_loop idx ms ns = Inr ns' \<Longrightarrow>
     \<exists>names. ns' = ns @ names \<and> list_all2 (\<lambda>m n. map_of m (DString ''name'') = Some (DString n)) ms names"
proof (induction ms arbitrary: idx ns)
  case (Cons m ms)
  then obtain n where n: "map_of m (DString ''name'') = Some (DString n)" "group_names_loop (Suc idx) ms (ns @ [n]) = Inr ns'"
    by (auto split: option.splits data.splits)
  from Cons.IH [OF n(2)] n(1) show ?case by auto
qed simp

lemma no_BadGroup:
  "proxies_loop E idx ms st = Inr (Inl e) \<Longrightarrow> e \<noteq> BadGroup i x"
  "group_names_loop idx ms ns = Inl e \<Longrightarrow> e \<noteq> BadGroup i x"
  "providers_loop E prs pm = Inr (Inl e) \<Longrightarrow> e \<noteq> BadGroup i x"
  "initial_loop E names pm w = Inr (Inl e, w') \<Longrightarrow> e \<noteq> BadGroup i x"
proof -
  show "proxies_loop E idx ms st = Inr (Inl e) \<Longrightarrow> e \<noteq> BadGroup i x"
    by (induction E idx ms st rule: proxies_loop.induct)
      (auto simp: go_bind_sum Let_def split: if_splits)
  show "group_names_loop idx ms ns = Inl e \<Longrightarrow> e \<noteq> BadGroup i x"
    by (induction idx ms ns rule: group_names_loop.induct) (auto split: option.splits data.splits)
  show "providers_loop E prs pm = Inr (Inl e) \<Longrightarrow> e \<noteq> BadGroup i x"
    by (induction E prs pm rule: providers_loop.induct) (auto simp: go_bind_sum split: if_splits)
  show "initial_loop E names pm w = Inr (Inl e, w') \<Longrightarrow> e \<noteq> BadGroup i x"
    by (induction names arbitrary: pm w)
      (auto simp: go_bind_Inr split: option.splits provider.splits)
qed

lemma groups_loop_ok:
  assumes "groups_loop nm idx ms (P, V) = Inr (Inr (P', V'))"
  shows "P \<subseteq>\<^sub>m P' \<and> (named nm P \<longrightarrow> named nm P') \<and>
    (\<forall>m \<in> set ms. \<exists>opt. decode_group True m = Inr (Inr opt) \<and> go_Name opt \<in> dom P')"
  using assms
proof (induction ms arbitrary: idx P V)
  case (Cons m ms)
  from Cons.prems obtain r where r: "ParseProxyGroup nm m P V = Inr r" by (auto simp: go_bind_Inr)
  then obtain opt own V1 used k where t: "decode_group True m = Inr (Inr opt)" "r = Inr (PGroup k opt (own @ used), V1)"
  proof (cases rule: ParseProxyGroup_cases)
    case (3 opt own V' used k)
    then show thesis by (intro that)
  qed (use Cons.prems r in auto)
  let ?P = "P(go_Name opt \<mapsto> PGroup k opt (own @ used))"
  from Cons.prems r t(2) have f: "P (go_Name opt) = None" by (auto simp: Let_def split: if_splits)
  with Cons.prems r t(2) have "groups_loop nm (Suc idx) ms (?P, V1) = Inr (Inr (P', V'))" by (simp add: Let_def)
  from Cons.IH [OF this] have ih: "?P \<subseteq>\<^sub>m P'" "named nm ?P \<longrightarrow> named nm P'"
    "\<forall>m \<in> set ms. \<exists>opt. decode_group True m = Inr (Inr opt) \<and> go_Name opt \<in> dom P'" by blast+
  have "P \<subseteq>\<^sub>m ?P" using f by (auto simp: map_le_def)
  with ih(1) have "P \<subseteq>\<^sub>m P'" by (rule map_le_trans [rotated])
  moreover have "named nm P \<longrightarrow> named nm P'" using ih(2) by (auto intro: named_upd)
  moreover have "go_Name opt \<in> dom P'" using ih(1) by (auto simp: map_le_def dom_def split: if_splits)
  ultimately show ?case using ih(3) t(1) by auto
qed auto


section \<open>The whole function\<close>

lemma parseProxies_ok:
  assumes "parseProxies E ps gs pr w = Inr (Inr (P, V), w')"
  obtains P0 names gs' V0 w0 V1 P1 V2 where
    "proxies_loop E 0 ps ([''DIRECT'' \<mapsto> PDirect, ''REJECT'' \<mapsto> PReject], [''DIRECT'', ''REJECT'']) = Inr (Inr (P0, names))"
    and "proxyGroupsDagSort (ce_order E) gs = Inr (Inr gs')"
    and "initial_loop E (ce_visit E (map fst pr)) V0 w = Inr (Inr V1, w0)"
    and "groups_loop (ce_name E) 0 gs' (P0, V1) = Inr (Inr (P1, V2))"
    and "\<exists>all. group_names_loop 0 gs names = Inr all \<and> add_global (ce_name E) all (P1, V2) = Inr (P, V)"
  using assms
  by (auto simp: parseProxies_def go_bind_sum go_bind_Inr sum_case_eq)

lemma parseProxies_BadGroup:
  assumes "parseProxies E ps gs pr w = Inr (Inl (BadGroup i x), w')"
  obtains P0 names gs' V0 w0 V1 where
    "proxies_loop E 0 ps ([''DIRECT'' \<mapsto> PDirect, ''REJECT'' \<mapsto> PReject], [''DIRECT'', ''REJECT'']) = Inr (Inr (P0, names))"
    and "\<exists>all. group_names_loop 0 gs names = Inr all"
    and "proxyGroupsDagSort (ce_order E) gs = Inr (Inr gs')"
    and "groups_loop (ce_name E) 0 gs' (P0, V1) = Inr (Inl (BadGroup i x))"
  using assms
  by (auto simp: parseProxies_def go_bind_sum go_bind_Inr sum_case_eq dest: no_BadGroup)

lemma build_decoded:
  "build_graph ms g = Inr (Inr g') \<Longrightarrow> \<exists>opts. list_all2 (\<lambda>m opt. decode_group False m = Inr (Inr opt)) ms opts"
proof (induction ms arbitrary: g)
  case (Cons m ms)
  then obtain opt g1 where "decode_group False m = Inr (Inr opt)" "build_graph ms g1 = Inr (Inr g')"
    by (auto simp: go_bind_sum sum_case_eq)
  with Cons.IH [OF this(2)] obtain opts where "list_all2 (\<lambda>m opt. decode_group False m = Inr (Inr opt)) (m # ms) (opt # opts)" by auto
  then show ?case by (rule exI)
qed (auto intro: exI [of _ "[]"])

lemma sort_ok:
  assumes "proxyGroupsDagSort order cfgs = Inr (Inr srt)" "permutes_names order"
  obtains opts sopts where "list_all2 (\<lambda>m opt. decode_group False m = Inr (Inr opt)) cfgs opts"
    "list_all2 (\<lambda>m opt. decode_group False m = Inr (Inr opt)) srt sopts" "mset srt = mset cfgs"
    "mset sopts = mset opts" "acyclic (depends opts)" "sorted_wrt (\<lambda>a b. go_Name b \<notin> set (go_Proxies a)) sopts"
proof -
  from assms(1) obtain g where "build_graph cfgs [] = Inr (Inr g)" by (auto simp: proxyGroupsDagSort_def go_bind_sum)
  with build_decoded obtain opts where l: "list_all2 (\<lambda>m opt. decode_group False m = Inr (Inr opt)) cfgs opts" by blast
  have d: "distinct (map go_Name opts)" using sort_result [OF l assms(2)] assms(1) by (auto split: if_splits)
  show thesis
  proof (rule sort_cases [OF l assms(2) d])
    fix sorted sopts
    assume a: "acyclic (depends opts)" "proxyGroupsDagSort order cfgs = Inr (Inr sorted)" "length sorted = length sopts"
      "mset (zip sorted sopts) = mset (zip cfgs opts)" "sorted_wrt (\<lambda>a b. go_Name b \<notin> set (go_Proxies a)) sopts"
    with assms(1) have s: "srt = sorted" by simp
    have len: "length cfgs = length opts" by (rule list_all2_lengthD [OF l])
    have "set (zip srt sopts) = set (zip cfgs opts)" using a(4) s by (metis set_mset_mset)
    with l a(3) s have "list_all2 (\<lambda>m opt. decode_group False m = Inr (Inr opt)) srt sopts" by (auto simp: list_all2_iff)
    moreover have "mset srt = mset cfgs" "mset sopts = mset opts"
      using arg_cong [OF a(4), of "image_mset fst"] arg_cong [OF a(4), of "image_mset snd"] a(3) s len
      by (simp_all flip: mset_map)
    ultimately show thesis using that l a(1,5) by blast
  qed (use assms(1) in auto)
qed

lemma depends_irrefl: "acyclic (depends opts) \<Longrightarrow> opt \<in> set opts \<Longrightarrow> go_Name opt \<notin> set (go_Proxies opt)"
  by (auto simp: acyclic_def depends_def)

lemma groups_find_members:
  assumes o: "permutes_names (ce_order E)" and p: "parseProxies E ps gs pr w = Inr (Inl (BadGroup i (ProxyNotFound n)), w')"
  shows "n \<noteq> ''DIRECT'' \<and> n \<noteq> ''REJECT'' \<and> (\<forall>m \<in> set gs. map_of m (DString ''name'') \<noteq> Some (DString n)) \<and>
    (\<forall>m \<in> set ps. \<forall>x. ParseProxy (ce_new E) m = Inr (Inr x) \<longrightarrow> ce_name E x \<noteq> n)"
proof -
  from p obtain P0 names gs' V1 where
    pl: "proxies_loop E 0 ps ([''DIRECT'' \<mapsto> PDirect, ''REJECT'' \<mapsto> PReject], [''DIRECT'', ''REJECT'']) = Inr (Inr (P0, names))"
    and nl: "\<exists>all. group_names_loop 0 gs names = Inr all" and st: "proxyGroupsDagSort (ce_order E) gs = Inr (Inr gs')"
    and gl: "groups_loop (ce_name E) 0 gs' (P0, V1) = Inr (Inl (BadGroup i (ProxyNotFound n)))" by (rule parseProxies_BadGroup)
  from sort_ok [OF st o] obtain opts sopts where l: "list_all2 (\<lambda>m opt. decode_group False m = Inr (Inr opt)) gs opts"
    "list_all2 (\<lambda>m opt. decode_group False m = Inr (Inr opt)) gs' sopts" "mset gs' = mset gs" "mset sopts = mset opts"
    "acyclic (depends opts)" "sorted_wrt (\<lambda>a b. go_Name b \<notin> set (go_Proxies a)) sopts" by blast
  have so: "set sopts = set opts" using l(4) by (metis set_mset_mset)
  have "\<forall>opt \<in> set sopts. go_Name opt \<notin> set (go_Proxies opt)" using depends_irrefl [OF l(5)] by (simp add: so)
  from groups_loop_notfound [OF gl l(2,6) this] have n: "P0 n = None" "n \<notin> go_Name ` set opts" by (simp_all add: so)
  from proxies_loop_ok [OF pl] have d: "[''DIRECT'' \<mapsto> PDirect, ''REJECT'' \<mapsto> PReject] \<subseteq>\<^sub>m P0"
    "\<forall>m \<in> set ps. \<exists>x. ParseProxy (ce_new E) m = Inr (Inr x) \<and> ce_name E x \<in> dom P0" by blast+
  have "map_of m (DString ''name'') \<noteq> Some (DString n)" if m: "m \<in> set gs" for m
  proof -
    from l(1) m obtain opt where "opt \<in> set opts" "decode_group False m = Inr (Inr opt)"
      by (auto simp: list_all2_conv_all_nth in_set_conv_nth) metis
    with n(2) decode_group_name [of False m opt n] show ?thesis by auto
  qed
  moreover have "n \<noteq> ''DIRECT''" "n \<noteq> ''REJECT''" using d(1) n(1) by (auto simp: map_le_def dest: bspec)
  ultimately show ?thesis using d(2) n(1) by fastforce
qed

lemma rules_loop_step:
  assumes "rules_loop P idx (l # ls) rs = Inr rules"
  shows "\<exists>parsed. Rule_Adapter parsed \<in> dom P \<and> rules_loop P (Suc idx) ls (rs @ [parsed]) = Inr rules"
proof -
  from assms obtain c tp payload target params where
    r: "(if c then Inl (LineInvalid idx l)
      else if P target = None then Inl (TargetNotFound idx l target)
      else case ParseRule tp payload target params of
        Inl e \<Rightarrow> Inl (LineRejected idx l e)
      | Inr parsed \<Rightarrow> rules_loop P (Suc idx) ls (rs @ [parsed])) = Inr rules"
    unfolding rules_loop.simps Let_def by (rule that)
  show ?thesis
  proof (cases "ParseRule tp payload target params")
    case (Inl e) with r show ?thesis by (simp split: if_splits)
  next
    case (Inr parsed)
    with r ParseRule_adapter [OF Inr] show ?thesis by (auto split: if_splits)
  qed
qed

lemma rules_loop_adapters:
  "rules_loop P idx ls rs = Inr rules \<Longrightarrow> \<forall>r \<in> set rs. Rule_Adapter r \<in> dom P \<Longrightarrow> \<forall>r \<in> set rules. Rule_Adapter r \<in> dom P"
proof (induction ls arbitrary: idx rs)
  case (Cons l ls)
  from rules_loop_step [OF Cons.prems(1)] obtain parsed where
    "Rule_Adapter parsed \<in> dom P" "rules_loop P (Suc idx) ls (rs @ [parsed]) = Inr rules" by blast
  with Cons.IH [OF this(2)] Cons.prems(2) show ?case by auto
qed simp

lemma parseProxies_named:
  assumes o: "permutes_names (ce_order E)" and p: "parseProxies E ps gs pr w = Inr (Inr (P, V), w')"
  shows "named (ce_name E) P \<and> {''DIRECT'', ''REJECT'', ''GLOBAL''} \<subseteq> dom P \<and>
    (\<forall>m \<in> set gs. \<forall>n. map_of m (DString ''name'') = Some (DString n) \<longrightarrow> n \<in> dom P) \<and>
    (\<forall>m \<in> set ps. \<exists>x. ParseProxy (ce_new E) m = Inr (Inr x) \<and> ce_name E x \<in> dom P)"
proof -
  from p obtain P0 names gs' V0 w0 V1 P1 V2 where
    pl: "proxies_loop E 0 ps ([''DIRECT'' \<mapsto> PDirect, ''REJECT'' \<mapsto> PReject], [''DIRECT'', ''REJECT'']) = Inr (Inr (P0, names))"
    and st: "proxyGroupsDagSort (ce_order E) gs = Inr (Inr gs')"
    and gl: "groups_loop (ce_name E) 0 gs' (P0, V1) = Inr (Inr (P1, V2))"
    and ad: "\<exists>all. group_names_loop 0 gs names = Inr all \<and> add_global (ce_name E) all (P1, V2) = Inr (P, V)" by (rule parseProxies_ok)
  have i: "named (ce_name E) [''DIRECT'' \<mapsto> PDirect, ''REJECT'' \<mapsto> PReject]" by (auto simp: named_def)
  from proxies_loop_ok [OF pl] i have P0: "[''DIRECT'' \<mapsto> PDirect, ''REJECT'' \<mapsto> PReject] \<subseteq>\<^sub>m P0" "named (ce_name E) P0"
    "\<forall>m \<in> set ps. \<exists>x. ParseProxy (ce_new E) m = Inr (Inr x) \<and> ce_name E x \<in> dom P0" by blast+
  from groups_loop_ok [OF gl] P0(2) have P1: "P0 \<subseteq>\<^sub>m P1" "named (ce_name E) P1"
    "\<forall>m \<in> set gs'. \<exists>opt. decode_group True m = Inr (Inr opt) \<and> go_Name opt \<in> dom P1" by blast+
  from sort_ok [OF st o] have "mset gs' = mset gs" by blast
  then have sg: "set gs' = set gs" by (metis set_mset_mset)
  from ad obtain k opt pd where "P = P1(''GLOBAL'' \<mapsto> PGroup k opt pd)" "go_Name opt = ''GLOBAL''"
    by (auto simp: add_global_def Let_def go_bind_Inr split: if_splits)
  then have P: "named (ce_name E) P" "dom P = insert ''GLOBAL'' (dom P1)"
    using P1(2) by (auto intro: named_upd)
  have gn: "n \<in> dom P1" if "m \<in> set gs" "map_of m (DString ''name'') = Some (DString n)" for m n
    using P1(3) that decode_group_name [of True m _ n] sg by metis
  have "dom P0 \<subseteq> dom P1" using P1(1) by (rule map_le_implies_dom_le)
  then have d1: "dom P0 \<subseteq> dom P" unfolding P(2) by (rule subset_insertI2)
  moreover have "{''DIRECT'', ''REJECT''} \<subseteq> dom P0" using map_le_implies_dom_le [OF P0(1)] by simp
  moreover have "''GLOBAL'' \<in> dom P" unfolding P(2) by (rule insertI1)
  ultimately have d2: "{''DIRECT'', ''REJECT'', ''GLOBAL''} \<subseteq> dom P" by (simp only: insert_subset) (simp add: subset_iff)
  have d3: "n \<in> dom P" if "m \<in> set gs" "map_of m (DString ''name'') = Some (DString n)" for m n
    unfolding P(2) using gn [OF that] by (rule insertI2)
  from P0(3) d1 have "\<forall>m \<in> set ps. \<exists>x. ParseProxy (ce_new E) m = Inr (Inr x) \<and> ce_name E x \<in> dom P" by fast
  with P(1) d2 d3 show ?thesis by blast
qed

lemma ParseRawConfig_ok:
  assumes "ParseRawConfig E U raw w = Inr (Inr c, w')"
  shows "parseProxies E (rc_Proxy raw) (rc_ProxyGroup raw) (rc_ProxyProvider raw) w = Inr (Inr (cf_Proxies c, cf_Providers c), w') \<and>
    parseRules (rc_Rule raw) (cf_Proxies c) = Inr (cf_Rules c) \<and> parseHosts (rc_Hosts raw) = Inr (cf_Hosts c) \<and>
    parseDNS U (rc_DNS raw) (rc_StoreFakeIP raw) (cf_Hosts c) = Inr (cf_DNS c)"
  using assms by (auto simp: ParseRawConfig_def sum_case_eq go_bind_Inr)

section \<open>Theorems\<close>

lemma outcome_cases:
  "(case x of Inl p \<Rightarrow> False | Inr (r, w) \<Rightarrow> (case r of Inl e \<Rightarrow> Q e | Inr c \<Rightarrow> R c)) \<Longrightarrow>
     (\<exists>e w. x = Inr (Inl e, w) \<and> Q e) \<or> (\<exists>c w. x = Inr (Inr c, w) \<and> R c)"
  by (auto split: sum.splits prod.splits)

text \<open>
  C23. A group that is refused because of a missing member names a member that nothing defines:
  it is neither built in nor the name of a proxy or of a group, wherever in the file.
\<close>

theorem group_members_found:
  assumes "permutes_names (ce_order E)"
    and "parseProxies E ps gs pr w = Inr (Inl (BadGroup i (ProxyNotFound n)), w')"
  shows "n \<noteq> ''DIRECT'' \<and> n \<noteq> ''REJECT'' \<and> (\<forall>m \<in> set gs. map_of m (DString ''name'') \<noteq> Some (DString n)) \<and>
    (\<forall>m \<in> set ps. \<forall>x. ParseProxy (ce_new E) m = Inr (Inr x) \<longrightarrow> ce_name E x \<noteq> n)"
  by (rule groups_find_members [OF assms])

definition demo_env :: "(unit, string) config_env" where
  "demo_env =
     \<lparr>ce_new = (\<lambda>tp vs. Inr (gv_string (vs ! 1))), ce_name = (\<lambda>x. x), ce_yaml = (\<lambda>b. Inr None),
      ce_disk = \<lparr>dk_Stat = (\<lambda>p w. None), dk_Missing = (\<lambda>p w. True), dk_Dir = (\<lambda>p. p),
        dk_ReadFile = (\<lambda>p w. Inl ''missing''), dk_MkdirAll = (\<lambda>p w. (None, w)), dk_WriteFile = (\<lambda>p b w. (None, w)),
        dk_Get = (\<lambda>u w. (Inl ''down'', w)), dk_now = (\<lambda>w. 0), dk_md5 = (\<lambda>b. b)\<rparr>,
      ce_resolve = (\<lambda>p. p), ce_order = (\<lambda>i ns. ns), ce_visit = (\<lambda>ns. ns)\<rparr>"

definition demo_proxy :: mapping where
  "demo_proxy = [(DString ''name'', DString ''s5''), (DString ''type'', DString ''socks5''),
     (DString ''server'', DString ''h''), (DString ''port'', DInt 1080)]"

theorem group_members_found_witness:
  "\<exists>i. parseProxies demo_env [demo_proxy]
      [demo_mapping ''outer'' [''inner'', ''s5'', ''other''], demo_mapping ''inner'' [''DIRECT'']] [] () =
    Inr (Inl (BadGroup i (ProxyNotFound ''other'')), ()) \<and>
    (\<forall>x. ParseProxy (ce_new demo_env) demo_proxy = Inr (Inr x) \<longrightarrow> ce_name demo_env x \<noteq> ''other'')"
proof -
  have p: "permutes_names (ce_order demo_env)" by (simp add: demo_env_def permutes_names_id)
  have "case parseProxies demo_env [demo_proxy]
      [demo_mapping ''outer'' [''inner'', ''s5'', ''other''], demo_mapping ''inner'' [''DIRECT'']] [] () of
    Inl x \<Rightarrow> False | Inr (r, w) \<Rightarrow> (case r of Inl e \<Rightarrow> e = BadGroup 1 (ProxyNotFound ''other'') | Inr c \<Rightarrow> False)" by code_simp
  from outcome_cases [OF this] have e: "parseProxies demo_env [demo_proxy]
      [demo_mapping ''outer'' [''inner'', ''s5'', ''other''], demo_mapping ''inner'' [''DIRECT'']] [] () =
    Inr (Inl (BadGroup 1 (ProxyNotFound ''other'')), ())" by auto
  from group_members_found [OF p e] e show ?thesis by simp
qed

lemma config_named:
  assumes "permutes_names (ce_order E)" and "ParseRawConfig E U raw w = Inr (Inr c, w')"
  shows "(\<forall>n p. cf_Proxies c n = Some p \<longrightarrow> proxy_Name (ce_name E) p = n) \<and>
    {''DIRECT'', ''GLOBAL''} \<subseteq> dom (cf_Proxies c) \<and> (\<forall>r \<in> set (cf_Rules c). Rule_Adapter r \<in> dom (cf_Proxies c))"
proof -
  from ParseRawConfig_ok [OF assms(2)] have
    p: "parseProxies E (rc_Proxy raw) (rc_ProxyGroup raw) (rc_ProxyProvider raw) w = Inr (Inr (cf_Proxies c, cf_Providers c), w')"
    and r: "rules_loop (cf_Proxies c) 0 (rc_Rule raw) [] = Inr (cf_Rules c)" by (simp_all add: parseRules_def)
  from parseProxies_named [OF assms(1) p] rules_loop_adapters [OF r] show ?thesis by (simp add: named_def)
qed

text \<open>
  C24. In a configuration that is accepted every proxy stands under its own name, the built-in
  proxies, every proxy, every group and \<open>GLOBAL\<close> are there, and every rule leads to one of them.
\<close>

theorem config_targets:
  assumes "permutes_names (ce_order E)" and "ParseRawConfig E U raw w = Inr (Inr c, w')"
  shows "(\<forall>n p. cf_Proxies c n = Some p \<longrightarrow> proxy_Name (ce_name E) p = n) \<and>
    {''DIRECT'', ''REJECT'', ''GLOBAL''} \<subseteq> dom (cf_Proxies c) \<and>
    (\<forall>m \<in> set (rc_Proxy raw). \<exists>x. ParseProxy (ce_new E) m = Inr (Inr x) \<and> ce_name E x \<in> dom (cf_Proxies c)) \<and>
    (\<forall>m \<in> set (rc_ProxyGroup raw). \<forall>n. map_of m (DString ''name'') = Some (DString n) \<longrightarrow> n \<in> dom (cf_Proxies c)) \<and>
    (\<forall>r \<in> set (cf_Rules c). Rule_Adapter r \<in> dom (cf_Proxies c))"
proof -
  from ParseRawConfig_ok [OF assms(2)] have
    p: "parseProxies E (rc_Proxy raw) (rc_ProxyGroup raw) (rc_ProxyProvider raw) w = Inr (Inr (cf_Proxies c, cf_Providers c), w')"
    and r: "rules_loop (cf_Proxies c) 0 (rc_Rule raw) [] = Inr (cf_Rules c)" by (simp_all add: parseRules_def)
  from parseProxies_named [OF assms(1) p] rules_loop_adapters [OF r] show ?thesis by (simp add: named_def)
qed

definition demo_url :: url_lib where
  "demo_url = \<lparr>url_Parse = (\<lambda>s. Inr (take 3 s, drop 6 s, [])), url_https = (\<lambda>h p. h @ p)\<rparr>"

definition demo_raw :: RawConfig where
  "demo_raw = default_raw\<lparr>rc_Proxy := [demo_proxy],
     rc_ProxyGroup := [demo_mapping ''outer'' [''inner'', ''s5''], demo_mapping ''inner'' [''DIRECT'']],
     rc_DNS := (rc_DNS default_raw)\<lparr>rd_DefaultNameserver := [''8.8.8.8'']\<rparr>,
     rc_Rule := [''DOMAIN-SUFFIX, a.b , inner'', ''MATCH,GLOBAL'']\<rparr>"

lemma demo_server:
  "parseNameServer demo_url [''8.8.8.8''] = Inr [\<lparr>ns_Net = [], ns_Addr = ''8.8.8.8:53'', ns_Interface = []\<rparr>]"
  "pure_ip_server \<lparr>ns_Net = [], ns_Addr = ''8.8.8.8:53'', ns_Interface = []\<rparr>"
proof -
  show "parseNameServer demo_url [''8.8.8.8''] = Inr [\<lparr>ns_Net = [], ns_Addr = ''8.8.8.8:53'', ns_Interface = []\<rparr>]" by code_simp
  have "v4_string [8, 8, 8, 8] = ''8.8.8.8''" by code_simp
  with parse_ip_v4_string [of "[8, 8, 8, 8]"] have "parse_ip ''8.8.8.8'' = Some (v4_in_v6_prefix @ [8, 8, 8, 8])" by simp
  moreover have "split_host_port ''8.8.8.8:53'' = Inr (''8.8.8.8'', ''53'')" by code_simp
  ultimately show "pure_ip_server \<lparr>ns_Net = [], ns_Addr = ''8.8.8.8:53'', ns_Interface = []\<rparr>" by (simp add: pure_ip_server_def)
qed

lemma demo_dns: "\<exists>dns. parseDNS demo_url (rc_DNS demo_raw) False t = Inr dns"
proof -
  have "parseNameServer demo_url [] = Inr []" "parseNameServerPolicy demo_url [] = Inr Map.empty"
    by (simp_all add: parseNameServer_def parseNameServerPolicy_def)
  then show ?thesis
    by (simp add: parseDNS_def demo_raw_def default_raw_def demo_server dns_bind_def with_ns_def fake_range_def)
qed

lemma demo_raw_parsed:
  "\<exists>c. ParseRawConfig demo_env demo_url demo_raw () = Inr (Inr c, ()) \<and> map Rule_Adapter (cf_Rules c) = [''inner'', ''GLOBAL'']"
proof -
  have "case parseProxies demo_env (rc_Proxy demo_raw) (rc_ProxyGroup demo_raw) (rc_ProxyProvider demo_raw) () of
      Inl p \<Rightarrow> False | Inr (r, w) \<Rightarrow> (case r of Inl e \<Rightarrow> False
      | Inr c \<Rightarrow> (case parseRules (rc_Rule demo_raw) (fst c) of Inl e \<Rightarrow> False | Inr rs \<Rightarrow> map Rule_Adapter rs = [''inner'', ''GLOBAL'']))"
    by code_simp
  from outcome_cases [OF this] obtain P V where
    x1: "parseProxies demo_env (rc_Proxy demo_raw) (rc_ProxyGroup demo_raw) (rc_ProxyProvider demo_raw) () = Inr (Inr (P, V), ())"
    and x2: "case parseRules (rc_Rule demo_raw) P of Inl e \<Rightarrow> False | Inr rs \<Rightarrow> map Rule_Adapter rs = [''inner'', ''GLOBAL'']" by auto
  from x1 x2 obtain rs where
    x: "parseProxies demo_env (rc_Proxy demo_raw) (rc_ProxyGroup demo_raw) (rc_ProxyProvider demo_raw) () = Inr (Inr (P, V), ())"
      "parseRules (rc_Rule demo_raw) P = Inr rs" "map Rule_Adapter rs = [''inner'', ''GLOBAL'']"
    by (cases "parseRules (rc_Rule demo_raw) P") auto
  obtain hosts where h: "parseHosts (rc_Hosts demo_raw) = Inr hosts" by (simp add: parseHosts_def demo_raw_def default_raw_def)
  obtain dns where d: "parseDNS demo_url (rc_DNS demo_raw) (rc_StoreFakeIP demo_raw) hosts = Inr dns"
    using demo_dns [of hosts] by (auto simp: demo_raw_def default_raw_def)
  obtain g where "parseGeneral (ce_resolve demo_env) (\<lambda>p. dk_Missing (ce_disk demo_env) p ()) demo_raw = Inr g"
    by (simp add: parseGeneral_def demo_raw_def default_raw_def Let_def)
  with x h d obtain c where "ParseRawConfig demo_env demo_url demo_raw () = Inr (Inr c, ())" "cf_Rules c = rs"
    by (simp add: ParseRawConfig_def)
  with x(3) show ?thesis by auto
qed

theorem config_targets_witness:
  "\<exists>c. ParseRawConfig demo_env demo_url demo_raw () = Inr (Inr c, ()) \<and>
     map Rule_Adapter (cf_Rules c) = [''inner'', ''GLOBAL''] \<and> ''outer'' \<in> dom (cf_Proxies c)"
proof -
  have p: "permutes_names (ce_order demo_env)" by (simp add: demo_env_def permutes_names_id)
  from demo_raw_parsed obtain c where c: "ParseRawConfig demo_env demo_url demo_raw () = Inr (Inr c, ())"
    "map Rule_Adapter (cf_Rules c) = [''inner'', ''GLOBAL'']" by auto
  have "demo_mapping ''outer'' [''inner'', ''s5''] \<in> set (rc_ProxyGroup demo_raw)" by (simp add: demo_raw_def)
  moreover have "map_of (demo_mapping ''outer'' [''inner'', ''s5'']) (DString ''name'') = Some (DString ''outer'')"
    by (simp add: demo_mapping_def)
  ultimately have "''outer'' \<in> dom (cf_Proxies c)" using config_targets [OF p c(1)] by blast
  with c show ?thesis by auto
qed

end
