(* ===== verification/ClashDns.thy ===== *)
theory ClashDns
  imports ClashConfig ClashTunnel
begin

text \<open>
  The resolver and the DNS server: \<open>dns/resolver.go\<close>, \<open>middleware.go\<close>, \<open>util.go\<close>,
  \<open>filters.go\<close>, the handler of \<open>server.go\<close>, \<open>common/picker\<close> and
  \<open>component/resolver/resolver.go\<close>.  The message library and the exchange with one server are
  parameters.  The clock gives nanoseconds.  Requests that run at the same time are run one
  after another: a batch in the order in which the servers answer, a refresh in the
  background right after the reply, the request for an IPv6 address after that for an IPv4
  address.
\<close>

section \<open>Messages\<close>

text \<open>The fields the code reads or writes; all else of a message is of type \<open>'h\<close>.\<close>

record dns_question =
  q_Name :: string
  q_Qtype :: "16 word"
  q_Qclass :: "16 word"

datatype rr_data = RR_A bytes | RR_AAAA bytes | RR_other bytes

record dns_rr =
  rr_Name :: string
  rr_Rrtype :: "16 word"
  rr_Class :: "16 word"
  rr_Ttl :: "32 word"
  rr_data :: rr_data

record 'h dns_msg =
  m_head :: 'h
  m_Rcode :: int
  m_Authoritative :: bool
  m_RecursionAvailable :: bool
  m_Question :: "dns_question list"
  m_Answer :: "dns_rr list"
  m_Ns :: "dns_rr list"
  m_Extra :: "dns_rr list"

definition TypeA :: "16 word" where "TypeA = 1"
definition TypeAAAA :: "16 word" where "TypeAAAA = 28"
definition TypeSVCB :: "16 word" where "TypeSVCB = 64"
definition TypeHTTPS :: "16 word" where "TypeHTTPS = 65"
definition ClassINET :: "16 word" where "ClassINET = 1"
definition RcodeSuccess :: int where "RcodeSuccess = 0"
definition RcodeServerFailure :: int where "RcodeServerFailure = 2"
definition RcodeRefused :: int where "RcodeRefused = 5"
definition dnsDefaultTTL :: "32 word" where "dnsDefaultTTL = 600"

definition isIPRequest :: "dns_question \<Rightarrow> bool" where
  "isIPRequest q = (q_Qclass q = ClassINET \<and> (q_Qtype q = TypeA \<or> q_Qtype q = TypeAAAA))"

definition setMsgTTL :: "'h dns_msg \<Rightarrow> 32 word \<Rightarrow> 'h dns_msg" where
  "setMsgTTL msg ttl =
     msg\<lparr>m_Answer := map (\<lambda>rr. rr\<lparr>rr_Ttl := ttl\<rparr>) (m_Answer msg), m_Ns := map (\<lambda>rr. rr\<lparr>rr_Ttl := ttl\<rparr>) (m_Ns msg),
       m_Extra := map (\<lambda>rr. rr\<lparr>rr_Ttl := ttl\<rparr>) (m_Extra msg)\<rparr>"

fun msgToIP_loop :: "dns_rr list \<Rightarrow> bytes list" where
  "msgToIP_loop [] = []"
| "msgToIP_loop (rr # rrs) =
     (case rr_data rr of
        RR_AAAA ip \<Rightarrow> ip # msgToIP_loop rrs
      | RR_A ip \<Rightarrow> ip # msgToIP_loop rrs
      | RR_other _ \<Rightarrow> msgToIP_loop rrs)"

definition msgToIP :: "'h dns_msg \<Rightarrow> bytes list" where
  "msgToIP msg = msgToIP_loop (m_Answer msg)"

definition trim_dots :: "string \<Rightarrow> string" where
  "trim_dots s = rev (dropWhile (\<lambda>c. c = CHR ''.'') (rev s))"

definition msgToDomain :: "'h dns_msg \<Rightarrow> string" where
  "msgToDomain msg = (case m_Question msg of [] \<Rightarrow> [] | q # _ \<Rightarrow> trim_dots (q_Name q))"

section \<open>Clients and filters\<close>

text \<open>A client of a name server; the flag tells whether it resolves the server's name by the default servers.\<close>

datatype dns_client =
    DoHClient string bool
  | DHCPClient string
  | NetClient string string string string bool

fun transform :: "NameServer list \<Rightarrow> bool \<Rightarrow> dns_client list" where
  "transform [] r = []"
| "transform (s # ss) r =
     (if ns_Net s = ''https'' then DoHClient (ns_Addr s) r
      else if ns_Net s = ''dhcp'' then DHCPClient (ns_Addr s)
      else case split_host_port (ns_Addr s) of
        Inr (host, port) \<Rightarrow> NetClient (ns_Net s) host port (ns_Interface s) r
      | Inl _ \<Rightarrow> NetClient (ns_Net s) [] [] (ns_Interface s) r) # transform ss r"

datatype ip_filter = GeoipFilter string | IpnetFilter IPNet

text \<open>\<open>country\<close> is the ISO code of the country database.\<close>

fun ip_filter_Match :: "(bytes \<Rightarrow> string) \<Rightarrow> ip_filter \<Rightarrow> bytes \<Rightarrow> bool" where
  "ip_filter_Match country (GeoipFilter code) ip = (\<not> equal_fold (country ip) code \<and> \<not> IsPrivate ip)"
| "ip_filter_Match country (IpnetFilter ipnet) ip = net_contains ipnet ip"

definition NewDomainFilter :: "string list \<Rightarrow> string trie_node" where
  "NewDomainFilter domains = fold (\<lambda>domain t. snd (trie_Insert domain (Some []) t)) domains trie_New"

definition domain_filter_Match :: "string trie_node \<Rightarrow> string \<Rightarrow> bool" where
  "domain_filter_Match tree domain = (trie_Search tree domain \<noteq> None)"

section \<open>The resolver\<close>

record 'h Resolver =
  re_ipv6 :: bool
  re_hosts :: "bytes trie_node option"
  re_main :: "dns_client list"
  re_fallback :: "dns_client list option"
  re_fallbackDomainFilters :: "string trie_node list"
  re_fallbackIPFilters :: "ip_filter list"
  re_lruCache :: "(string, 'h dns_msg) LruCache"
  re_policy :: "dns_client list trie_node option"

text \<open>
  The message library: \<open>SetRcode\<close> of a message for a request, the zero message, a query for
  a name and a type, the text of a question.  \<open>de_send\<close> exchanges a message with a server,
  \<open>de_order\<close> is the order in which the servers answer, \<open>de_Intn\<close> a random index.
\<close>

record ('w, 'h) dns_env =
  de_SetRcode :: "'h dns_msg \<Rightarrow> 'h dns_msg \<Rightarrow> int \<Rightarrow> 'h dns_msg"
  de_empty :: "'h dns_msg"
  de_query :: "string \<Rightarrow> 16 word \<Rightarrow> 'h dns_msg"
  de_QString :: "dns_question \<Rightarrow> string"
  de_send :: "dns_client \<Rightarrow> 'h dns_msg \<Rightarrow> 'w \<Rightarrow> (string + 'h dns_msg) \<times> 'w"
  de_order :: "'w \<Rightarrow> dns_client list \<Rightarrow> dns_client list"
  de_now :: "'w \<Rightarrow> int"
  de_country :: "bytes \<Rightarrow> string"
  de_Intn :: "'w \<Rightarrow> nat \<Rightarrow> nat"

definition secs :: "int \<Rightarrow> int" where
  "secs ns = ns div 1000000000"

definition expiry :: "int \<Rightarrow> 32 word \<Rightarrow> int" where
  "expiry now ttl = secs (now + 1000000000 * uint ttl)"

definition putMsgToCache :: "int \<Rightarrow> string \<Rightarrow> 'h dns_msg \<Rightarrow> (string, 'h dns_msg) LruCache \<Rightarrow> (string, 'h dns_msg) LruCache" where
  "putMsgToCache now key msg c =
     (let put = (\<lambda>rr. lru_SetWithExpire key msg (expiry now (rr_Ttl rr)) (secs now) c) in
      case m_Answer msg of
        rr # _ \<Rightarrow> put rr
      | [] \<Rightarrow> (case m_Ns msg of
          rr # _ \<Rightarrow> put rr
        | [] \<Rightarrow> (case m_Extra msg of rr # _ \<Rightarrow> put rr | [] \<Rightarrow> c)))"

text \<open>\<open>picker\<close>: the first result without an error, and the first error.\<close>

record ('e, 'a) Picker =
  pk_result :: "'a option"
  pk_err :: "'e option"

definition pk_done :: "'e + 'a \<Rightarrow> ('e, 'a) Picker \<Rightarrow> ('e, 'a) Picker" where
  "pk_done r p =
     (case r of
        Inr ret \<Rightarrow> (if pk_result p = None then p\<lparr>pk_result := Some ret\<rparr> else p)
      | Inl err \<Rightarrow> (if pk_err p = None then p\<lparr>pk_err := Some err\<rparr> else p))"

text \<open>A result cancels the requests that have not answered.\<close>

fun batch_loop ::
  "('w, 'h) dns_env \<Rightarrow> 'h dns_msg \<Rightarrow> dns_client list \<Rightarrow> (string, 'h dns_msg) Picker \<Rightarrow> 'w \<Rightarrow> (string, 'h dns_msg) Picker \<times> 'w" where
  "batch_loop E m [] p w = (p, w)"
| "batch_loop E m (c # cs) p w =
     (case de_send E c m w of
        (Inl e, w) \<Rightarrow> batch_loop E m cs (pk_done (Inl e) p) w
      | (Inr msg, w) \<Rightarrow>
          if m_Rcode msg = RcodeServerFailure \<or> m_Rcode msg = RcodeRefused
          then batch_loop E m cs (pk_done (Inl ''server failure'') p) w
          else (pk_done (Inr msg) p, w))"

definition batchExchange :: "('w, 'h) dns_env \<Rightarrow> dns_client list \<Rightarrow> 'h dns_msg \<Rightarrow> 'w \<Rightarrow> (string + 'h dns_msg) \<times> 'w" where
  "batchExchange E clients m w =
     (case batch_loop E m (de_order E w clients) \<lparr>pk_result = None, pk_err = None\<rparr> w of (p, w) \<Rightarrow>
      case pk_result p of
        Some msg \<Rightarrow> (Inr msg, w)
      | None \<Rightarrow> (Inl (''all DNS requests failed'' @ (case pk_err p of None \<Rightarrow> [] | Some e \<Rightarrow> '', first error: '' @ e)), w))"

definition matchPolicy :: "'h Resolver \<Rightarrow> 'h dns_msg \<Rightarrow> dns_client list" where
  "matchPolicy r m =
     (case re_policy r of
        None \<Rightarrow> []
      | Some policy \<Rightarrow>
          let domain = msgToDomain m in
          if domain = [] then []
          else case trie_Search policy domain of
            None \<Rightarrow> []
          | Some record \<Rightarrow> (case nd_Data record of Some cs \<Rightarrow> cs | None \<Rightarrow> []))"

definition shouldOnlyQueryFallback :: "'h Resolver \<Rightarrow> 'h dns_msg \<Rightarrow> bool" where
  "shouldOnlyQueryFallback r m =
     (if re_fallback r = None \<or> re_fallbackDomainFilters r = [] then False
      else let domain = msgToDomain m in
        if domain = [] then False
        else list_ex (\<lambda>df. domain_filter_Match df domain) (re_fallbackDomainFilters r))"

definition shouldIPFallback :: "('w, 'h) dns_env \<Rightarrow> 'h Resolver \<Rightarrow> bytes \<Rightarrow> bool" where
  "shouldIPFallback E r ip = list_ex (\<lambda>f. ip_filter_Match (de_country E) f ip) (re_fallbackIPFilters r)"

definition ipExchange :: "('w, 'h) dns_env \<Rightarrow> 'h Resolver \<Rightarrow> 'h dns_msg \<Rightarrow> 'w \<Rightarrow> (string + 'h dns_msg) \<times> 'w" where
  "ipExchange E r m w =
     (if matchPolicy r m \<noteq> [] then batchExchange E (matchPolicy r m) m w
      else if shouldOnlyQueryFallback r m then batchExchange E (the (re_fallback r)) m w
      else case batchExchange E (re_main r) m w of (main, w) \<Rightarrow>
        (case re_fallback r of
           None \<Rightarrow> (main, w)
         | Some fb \<Rightarrow>
             (case batchExchange E fb m w of (fallback, w) \<Rightarrow>
                (case main of
                   Inr msg \<Rightarrow>
                     (case msgToIP msg of
                        ip # _ \<Rightarrow> if \<not> shouldIPFallback E r ip then (Inr msg, w) else (fallback, w)
                      | [] \<Rightarrow> (fallback, w))
                 | Inl _ \<Rightarrow> (fallback, w)))))"

definition exchangeWithoutCache ::
  "('w, 'h) dns_env \<Rightarrow> 'h dns_msg \<Rightarrow> 'h Resolver \<times> 'w \<Rightarrow> ((string + 'h dns_msg) \<times> 'h Resolver \<times> 'w) go" where
  "exchangeWithoutCache E m s =
     (case m_Question m of
        [] \<Rightarrow> Inl IndexOutOfRange
      | q # _ \<Rightarrow>
          (let r = fst s in
           case (if isIPRequest q then ipExchange E r m (snd s)
                 else batchExchange E (if matchPolicy r m \<noteq> [] then matchPolicy r m else re_main r) m (snd s)) of
             (Inl e, w) \<Rightarrow> Inr (Inl e, r, w)
           | (Inr msg, w) \<Rightarrow>
               Inr (Inr msg, r\<lparr>re_lruCache := putMsgToCache (de_now E w) (de_QString E q) msg (re_lruCache r)\<rparr>, w)))"

definition ExchangeContext ::
  "('w, 'h) dns_env \<Rightarrow> 'h dns_msg \<Rightarrow> 'h Resolver \<times> 'w \<Rightarrow> ((string + 'h dns_msg) \<times> 'h Resolver \<times> 'w) go" where
  "ExchangeContext E m s =
     (case m_Question m of
        [] \<Rightarrow> Inr (Inl ''should have one question at least'', s)
      | q # _ \<Rightarrow>
          (let now = de_now E (snd s) in
           case lru_GetWithExpire (de_QString E q) (secs now) (re_lruCache (fst s)) of
             (Some (msg, expire), c) \<Rightarrow>
               (let s = ((fst s)\<lparr>re_lruCache := c\<rparr>, snd s) in
                if expire * 1000000000 < now
                then go_bind (exchangeWithoutCache E m s) (\<lambda>(_, s). Inr (Inr (setMsgTTL msg 1), s))
                else Inr (Inr (setMsgTTL msg (word_of_int ((expire * 1000000000 - now) div 1000000000))), s))
           | (None, c) \<Rightarrow> exchangeWithoutCache E m ((fst s)\<lparr>re_lruCache := c\<rparr>, snd s)))"

definition Exchange ::
  "('w, 'h) dns_env \<Rightarrow> 'h dns_msg \<Rightarrow> 'h Resolver \<times> 'w \<Rightarrow> ((string + 'h dns_msg) \<times> 'h Resolver \<times> 'w) go" where
  "Exchange E m s = ExchangeContext E m s"

datatype resolve_err = ErrIPNotFound | ErrIPVersion | ErrIPv6Disabled | ErrExchange string

definition resolveIP ::
  "('w, 'h) dns_env \<Rightarrow> string \<Rightarrow> 16 word \<Rightarrow> 'h Resolver \<times> 'w \<Rightarrow> ((resolve_err + bytes) \<times> 'h Resolver \<times> 'w) go" where
  "resolveIP E host dnsType s =
     (case parse_ip host of
        Some ip \<Rightarrow>
          (let isIPv4 = (to4 ip \<noteq> None) in
           if dnsType = TypeAAAA \<and> \<not> isIPv4 then Inr (Inr ip, s)
           else if dnsType = TypeA \<and> isIPv4 then Inr (Inr ip, s)
           else Inr (Inl ErrIPVersion, s))
      | None \<Rightarrow>
          go_bind (Exchange E (de_query E host dnsType) s) (\<lambda>(res, s).
          case res of
            Inl e \<Rightarrow> Inr (Inl (ErrExchange e), s)
          | Inr msg \<Rightarrow>
              (let ips = msgToIP msg in
               if ips = [] then Inr (Inl ErrIPNotFound, s)
               else Inr (Inr (ips ! de_Intn E (snd s) (length ips)), s))))"

definition Resolver_ResolveIPv4 ::
  "('w, 'h) dns_env \<Rightarrow> string \<Rightarrow> 'h Resolver \<times> 'w \<Rightarrow> ((resolve_err + bytes) \<times> 'h Resolver \<times> 'w) go" where
  "Resolver_ResolveIPv4 E host s = resolveIP E host TypeA s"

definition Resolver_ResolveIPv6 ::
  "('w, 'h) dns_env \<Rightarrow> string \<Rightarrow> 'h Resolver \<times> 'w \<Rightarrow> ((resolve_err + bytes) \<times> 'h Resolver \<times> 'w) go" where
  "Resolver_ResolveIPv6 E host s = resolveIP E host TypeAAAA s"

definition Resolver_ResolveIP ::
  "('w, 'h) dns_env \<Rightarrow> string \<Rightarrow> 'h Resolver \<times> 'w \<Rightarrow> ((resolve_err + bytes) \<times> 'h Resolver \<times> 'w) go" where
  "Resolver_ResolveIP E host s =
     go_bind (resolveIP E host TypeA s) (\<lambda>(v4, s).
     go_bind (resolveIP E host TypeAAAA s) (\<lambda>(v6, s).
     case v4 of
       Inr ip \<Rightarrow> Inr (Inr ip, s)
     | Inl _ \<Rightarrow> (case v6 of Inr ip \<Rightarrow> Inr (Inr ip, s) | Inl _ \<Rightarrow> Inr (Inl ErrIPNotFound, s))))"

section \<open>Making a resolver\<close>

record 'd dns_Config =
  dn_Main :: "NameServer list"
  dn_Fallback :: "NameServer list"
  dn_Default :: "NameServer list"
  dn_IPv6 :: bool
  dn_EnhancedMode :: DNSMode
  dn_FallbackFilter :: FallbackFilter
  dn_Pool :: "(pool_store, 'd) Pool option"
  dn_Hosts :: "bytes trie_node option"
  dn_Policy :: "(string \<times> NameServer) list"

definition dns_cache :: "(string, 'h dns_msg) LruCache" where
  "dns_cache = NewLRUCache [WithSize 4096, WithStale True]"

definition default_resolver :: "'d dns_Config \<Rightarrow> 'h Resolver" where
  "default_resolver config =
     \<lparr>re_ipv6 = False, re_hosts = None, re_main = transform (dn_Default config) False, re_fallback = None,
      re_fallbackDomainFilters = [], re_fallbackIPFilters = [], re_lruCache = dns_cache, re_policy = None\<rparr>"

definition NewResolver :: "'d dns_Config \<Rightarrow> 'h Resolver" where
  "NewResolver config =
     (let ff = dn_FallbackFilter config in
      \<lparr>re_ipv6 = dn_IPv6 config, re_hosts = dn_Hosts config, re_main = transform (dn_Main config) True,
       re_fallback = (if dn_Fallback config \<noteq> [] then Some (transform (dn_Fallback config) True) else None),
       re_fallbackDomainFilters = (if ff_Domain ff \<noteq> [] then [NewDomainFilter (ff_Domain ff)] else []),
       re_fallbackIPFilters = (if ff_GeoIP ff then [GeoipFilter (ff_GeoIPCode ff)] else []) @ map IpnetFilter (ff_IPCIDR ff),
       re_lruCache = dns_cache,
       re_policy = (if dn_Policy config \<noteq> []
         then Some (fold (\<lambda>(domain, nameserver) t. snd (trie_Insert domain (Some (transform [nameserver] True)) t))
                (dn_Policy config) trie_New)
         else None)\<rparr>)"

section \<open>The handlers\<close>

text \<open>
  A handler may panic, and the search for a fake address needs fuel, so its result is of type
  \<open>go option\<close>.  The state is the resolver, the enhancer with the pool and the mapping, the
  type set in the context, and the world.
\<close>

record ('w, 'h, 'd) dns_state =
  dt_resolver :: "'h Resolver"
  dt_mapper :: "'d ResolverEnhancer"
  dt_type :: string
  dt_world :: 'w

type_synonym ('w, 'h, 'd) handler =
  "'h dns_msg \<Rightarrow> ('w, 'h, 'd) dns_state \<Rightarrow> ((string + 'h dns_msg) \<times> ('w, 'h, 'd) dns_state) go option"

type_synonym ('w, 'h, 'd) middleware = "('w, 'h, 'd) handler \<Rightarrow> ('w, 'h, 'd) handler"

definition replied :: "('w, 'h) dns_env \<Rightarrow> 'h dns_msg \<Rightarrow> 'h dns_msg \<Rightarrow> 'h dns_msg" where
  "replied E r msg = (de_SetRcode E msg r RcodeSuccess)\<lparr>m_Authoritative := True, m_RecursionAvailable := True\<rparr>"

definition handleMsgWithEmptyAnswer :: "('w, 'h) dns_env \<Rightarrow> 'h dns_msg \<Rightarrow> 'h dns_msg" where
  "handleMsgWithEmptyAnswer E r = replied E r ((de_empty E)\<lparr>m_Answer := []\<rparr>)"

definition host_answer :: "dns_question \<Rightarrow> bytes \<Rightarrow> dns_rr option" where
  "host_answer q ip =
     (if to4 ip \<noteq> None \<and> q_Qtype q = TypeA then
        Some \<lparr>rr_Name = q_Name q, rr_Rrtype = TypeA, rr_Class = ClassINET, rr_Ttl = dnsDefaultTTL, rr_data = RR_A (the (to4 ip))\<rparr>
      else if to16 ip \<noteq> None \<and> q_Qtype q = TypeAAAA then
        Some \<lparr>rr_Name = q_Name q, rr_Rrtype = TypeAAAA, rr_Class = ClassINET, rr_Ttl = dnsDefaultTTL, rr_data = RR_AAAA (the (to16 ip))\<rparr>
      else None)"

definition withHosts :: "('w, 'h) dns_env \<Rightarrow> bytes trie_node \<Rightarrow> ('w, 'h, 'd) middleware" where
  "withHosts E hosts nxt r s =
     (case m_Question r of
        [] \<Rightarrow> Some (Inl IndexOutOfRange)
      | q # _ \<Rightarrow>
          if \<not> isIPRequest q then nxt r s
          else (case trie_Search hosts (trim_dots (q_Name q)) of
            None \<Rightarrow> nxt r s
          | Some record \<Rightarrow>
              (case nd_Data record of
                 None \<Rightarrow> Some (Inl NilDereference)
               | Some ip \<Rightarrow>
                   (case host_answer q ip of
                      None \<Rightarrow> nxt r s
                    | Some rr \<Rightarrow> Some (Inr (Inr (replied E r (r\<lparr>m_Answer := [rr]\<rparr>)), s\<lparr>dt_type := ''host''\<rparr>))))))"

fun mapping_loop :: "string \<Rightarrow> int \<Rightarrow> dns_rr list \<Rightarrow> (string, string) LruCache \<Rightarrow> (string, string) LruCache" where
  "mapping_loop host now [] c = c"
| "mapping_loop host now (rr # rrs) c =
     (let put = (\<lambda>ip. lru_SetWithExpire (ip_string ip) host (expiry now (rr_Ttl rr)) (secs now) c) in
      mapping_loop host now rrs
        (case rr_data rr of RR_A ip \<Rightarrow> put ip | RR_AAAA ip \<Rightarrow> put ip | RR_other _ \<Rightarrow> c))"

definition withMapping :: "('w, 'h) dns_env \<Rightarrow> ('w, 'h, 'd) middleware" where
  "withMapping E nxt r s =
     (case m_Question r of
        [] \<Rightarrow> Some (Inl IndexOutOfRange)
      | q # _ \<Rightarrow>
          if \<not> isIPRequest q then nxt r s
          else (case nxt r s of
            Some (Inr (Inr msg, s)) \<Rightarrow>
              (case eh_mapping (dt_mapper s) of
                 None \<Rightarrow> if msgToIP msg = [] then Some (Inr (Inr msg, s)) else Some (Inl NilDereference)
               | Some c \<Rightarrow>
                   Some (Inr (Inr msg, s\<lparr>dt_mapper := (dt_mapper s)\<lparr>eh_mapping :=
                     Some (mapping_loop (trim_dots (q_Name q)) (de_now E (dt_world s)) (m_Answer msg) c)\<rparr>\<rparr>)))
          | res \<Rightarrow> res))"

definition fake_answer :: "dns_question \<Rightarrow> bytes \<Rightarrow> dns_rr" where
  "fake_answer q ip =
     \<lparr>rr_Name = q_Name q, rr_Rrtype = TypeA, rr_Class = ClassINET, rr_Ttl = dnsDefaultTTL, rr_data = RR_A ip\<rparr>"

definition withFakeIP :: "('w, 'h) dns_env \<Rightarrow> ('w, 'h, 'd) middleware" where
  "withFakeIP E nxt r s =
     (case m_Question r of
        [] \<Rightarrow> Some (Inl IndexOutOfRange)
      | q # _ \<Rightarrow>
          (case eh_fakePool (dt_mapper s) of
             None \<Rightarrow> Some (Inl NilDereference)
           | Some pool \<Rightarrow>
               let host = trim_dots (q_Name q) in
               if pool_ShouldSkipped host pool then nxt r s
               else if q_Qtype q = TypeAAAA \<or> q_Qtype q = TypeSVCB \<or> q_Qtype q = TypeHTTPS
               then Some (Inr (Inr (handleMsgWithEmptyAnswer E r), s))
               else if q_Qtype q \<noteq> TypeA then nxt r s
               else (case pool_Lookup pool_stores host pool of
                 None \<Rightarrow> None
               | Some (Inl pn) \<Rightarrow> Some (Inl pn)
               | Some (Inr (ip, pool)) \<Rightarrow>
                   Some (Inr (Inr (replied E r (setMsgTTL (r\<lparr>m_Answer := [fake_answer q ip]\<rparr>) 1)),
                     s\<lparr>dt_mapper := (dt_mapper s)\<lparr>eh_fakePool := Some pool\<rparr>, dt_type := ''fakeip''\<rparr>)))))"

definition withResolver :: "('w, 'h) dns_env \<Rightarrow> ('w, 'h, 'd) handler" where
  "withResolver E r s =
     (let s = s\<lparr>dt_type := ''raw''\<rparr> in
      case m_Question r of
        [] \<Rightarrow> Some (Inl IndexOutOfRange)
      | q # _ \<Rightarrow>
          if \<not> re_ipv6 (dt_resolver s) \<and> q_Qtype q = TypeAAAA then Some (Inr (Inr (handleMsgWithEmptyAnswer E r), s))
          else Some (go_bind (Exchange E r (dt_resolver s, dt_world s)) (\<lambda>(res, rw).
            let s = s\<lparr>dt_resolver := fst rw, dt_world := snd rw\<rparr> in
            case res of
              Inl e \<Rightarrow> Inr (Inl e, s)
            | Inr msg \<Rightarrow> Inr (Inr ((de_SetRcode E msg r (m_Rcode msg))\<lparr>m_Authoritative := True\<rparr>), s))))"

definition compose :: "('w, 'h, 'd) middleware list \<Rightarrow> ('w, 'h, 'd) handler \<Rightarrow> ('w, 'h, 'd) handler" where
  "compose middlewares endpoint = foldr (\<lambda>m h. m h) middlewares endpoint"

definition newHandler :: "('w, 'h) dns_env \<Rightarrow> 'h Resolver \<Rightarrow> 'd ResolverEnhancer \<Rightarrow> ('w, 'h, 'd) handler" where
  "newHandler E resolver mapper =
     compose
       ((case re_hosts resolver of Some hosts \<Rightarrow> [withHosts E hosts] | None \<Rightarrow> []) @
        (if eh_mode mapper = DNSFakeIP then [withFakeIP E] else []) @
        (if eh_mode mapper \<noteq> DNSNormal then [withMapping E] else []))
       (withResolver E)"

definition handlerWithContext :: "('w, 'h, 'd) handler \<Rightarrow> ('w, 'h, 'd) handler" where
  "handlerWithContext h msg s =
     (if m_Question msg = [] then Some (Inr (Inl ''at least one question is required'', s))
      else h msg (s\<lparr>dt_type := []\<rparr>))"

text \<open>What the server writes: a failure or a compressed message.\<close>

datatype 'h dns_reply = HandleFailed | WriteMsg "'h dns_msg"

definition ServeDNS :: "('w, 'h, 'd) handler \<Rightarrow> 'h dns_msg \<Rightarrow> ('w, 'h, 'd) dns_state \<Rightarrow> ('h dns_reply \<times> ('w, 'h, 'd) dns_state) go option" where
  "ServeDNS h r s =
     (case handlerWithContext h r s of
        None \<Rightarrow> None
      | Some (Inl pn) \<Rightarrow> Some (Inl pn)
      | Some (Inr (Inl e, s)) \<Rightarrow> Some (Inr (HandleFailed, s))
      | Some (Inr (Inr msg, s)) \<Rightarrow> Some (Inr (WriteMsg msg, s)))"

section \<open>Names to addresses\<close>

text \<open>
  \<open>component/resolver\<close>: a resolver is its three methods over a state \<open>'s\<close>; the system's
  own lookup gives all addresses of a family, or of any family where the name is empty.
\<close>

type_synonym 's resolve = "string \<Rightarrow> 's \<Rightarrow> ((resolve_err + bytes) \<times> 's) go"

record 's resolver_if =
  rv_ResolveIP :: "'s resolve"
  rv_ResolveIPv4 :: "'s resolve"
  rv_ResolveIPv6 :: "'s resolve"

record 's resolver_vars =
  rg_DefaultResolver :: "'s resolver_if option"
  rg_DisableIPv6 :: bool
  rg_DefaultHosts :: "bytes trie_node"
  rg_LookupIP :: "string \<Rightarrow> string \<Rightarrow> 's \<Rightarrow> (string + bytes list) \<times> 's"
  rg_ResolveIPAddr :: "string \<Rightarrow> 's \<Rightarrow> (string + bytes) \<times> 's"
  rg_Intn :: "'s \<Rightarrow> nat \<Rightarrow> nat"

definition hosts_data :: "bytes trie_node \<Rightarrow> string \<Rightarrow> bytes option" where
  "hosts_data hosts host = Option.bind (trie_Search hosts host) nd_Data"

definition system_lookup :: "'s resolver_vars \<Rightarrow> string \<Rightarrow> 's resolve" where
  "system_lookup G network host s =
     (case rg_LookupIP G network host s of
        (Inl e, s) \<Rightarrow> Inr (Inl (ErrExchange e), s)
      | (Inr ips, s) \<Rightarrow> if ips = [] then Inr (Inl ErrIPNotFound, s) else Inr (Inr (ips ! rg_Intn G s (length ips)), s))"

definition ResolveIPv4 :: "'s resolver_vars \<Rightarrow> 's resolve" where
  "ResolveIPv4 G host s =
     (case Option.bind (hosts_data (rg_DefaultHosts G) host) to4 of
        Some ip \<Rightarrow> Inr (Inr ip, s)
      | None \<Rightarrow>
          (case parse_ip host of
             Some ip \<Rightarrow> if CHR '':'' \<notin> set host then Inr (Inr ip, s) else Inr (Inl ErrIPVersion, s)
           | None \<Rightarrow>
               (case rg_DefaultResolver G of
                  Some r \<Rightarrow> rv_ResolveIPv4 r host s
                | None \<Rightarrow> system_lookup G ''ip4'' host s)))"

definition ResolveIPv6 :: "'s resolver_vars \<Rightarrow> 's resolve" where
  "ResolveIPv6 G host s =
     (if rg_DisableIPv6 G then Inr (Inl ErrIPv6Disabled, s)
      else case Option.bind (hosts_data (rg_DefaultHosts G) host) to16 of
        Some ip \<Rightarrow> Inr (Inr ip, s)
      | None \<Rightarrow>
          (case parse_ip host of
             Some ip \<Rightarrow> if CHR '':'' \<in> set host then Inr (Inr ip, s) else Inr (Inl ErrIPVersion, s)
           | None \<Rightarrow>
               (case rg_DefaultResolver G of
                  Some r \<Rightarrow> rv_ResolveIPv6 r host s
                | None \<Rightarrow> system_lookup G ''ip6'' host s)))"

definition ResolveIPWithResolver :: "'s resolver_vars \<Rightarrow> 's resolver_if option \<Rightarrow> 's resolve" where
  "ResolveIPWithResolver G r host s =
     (case hosts_data (rg_DefaultHosts G) host of
        Some ip \<Rightarrow> Inr (Inr ip, s)
      | None \<Rightarrow>
          (case r of
             Some r \<Rightarrow> if rg_DisableIPv6 G then rv_ResolveIPv4 r host s else rv_ResolveIP r host s
           | None \<Rightarrow>
               if rg_DisableIPv6 G then ResolveIPv4 G host s
               else (case parse_ip host of
                 Some ip \<Rightarrow> Inr (Inr ip, s)
               | None \<Rightarrow>
                   (case rg_ResolveIPAddr G host s of
                      (Inl e, s) \<Rightarrow> Inr (Inl (ErrExchange e), s)
                    | (Inr ip, s) \<Rightarrow> Inr (Inr ip, s)))))"

definition ResolveIP :: "'s resolver_vars \<Rightarrow> 's resolve" where
  "ResolveIP G host s = ResolveIPWithResolver G (rg_DefaultResolver G) host s"

definition dns_resolver :: "('w, 'h) dns_env \<Rightarrow> ('h Resolver \<times> 'w) resolver_if" where
  "dns_resolver E =
     \<lparr>rv_ResolveIP = Resolver_ResolveIP E, rv_ResolveIPv4 = Resolver_ResolveIPv4 E, rv_ResolveIPv6 = Resolver_ResolveIPv6 E\<rparr>"

section \<open>The caches\<close>

text \<open>The caches of the resolver and of the enhancer keep at most 4096 entries and give stale ones.\<close>

definition dns_cache_ok :: "('k, 'v) LruCache \<Rightarrow> bool" where
  "dns_cache_ok c \<longleftrightarrow> lru_ok c \<and> lc_maxAge c = 0 \<and> lc_maxSize c = 4096 \<and> lc_staleReturn c"

lemma dns_cache_ok_New: "dns_cache_ok (NewLRUCache [WithSize 4096, WithStale True])"
  using lru_ok_New [of "[WithSize 4096, WithStale True]"] by (simp add: dns_cache_ok_def) (simp add: NewLRUCache_def)

lemma dns_set_lru:
  assumes "dns_cache_ok c"
  obtains m where "lc_lru (lru_SetWithExpire k v x now c) = drop m (lru_without k (lc_lru c)) @ [\<lparr>le_key = k, le_value = v, le_expires = x\<rparr>]"
    and "m = 0 \<or> m = 1 \<and> length (lc_lru c) = 4096 \<and> k \<notin> le_key ` set (lc_lru c)"
proof -
  have c: "distinct (map le_key (lc_lru c))" "length (lc_lru c) \<le> 4096" "lc_maxSize c = 4096" "lc_staleReturn c"
    using assms by (auto simp: dns_cache_ok_def lru_ok_def lru_keys_def)
  let ?e = "\<lparr>le_key = k, le_value = v, le_expires = x\<rparr>"
  show thesis
  proof (cases "lru_find k (lc_lru c)")
    case (Some e)
    then show thesis using c that [of 0] by (simp add: lru_SetWithExpire_def lru_maybeDeleteOldest_def)
  next
    case None
    then have n: "k \<notin> le_key ` set (lc_lru c)" "lru_without k (lc_lru c) = lc_lru c"
      by (simp_all add: lru_find_None lru_without_absent)
    show thesis
    proof (cases "length (lc_lru c) = 4096")
      case True
      then obtain f fs where f: "lc_lru c = f # fs" by (cases "lc_lru c") auto
      have "distinct (map le_key ((f # fs) @ [?e]))" using c(1) n(1) by (auto simp: f)
      from lru_without_hd [OF this] have "lru_without (le_key f) ((f # fs) @ [?e]) = fs @ [?e]" by simp
      then show thesis using c None n True that [of 1] f by (simp add: lru_SetWithExpire_def lru_maybeDeleteOldest_def Let_def)
    next
      case False
      then have "\<not> 4096 < int (length (lc_lru c @ [?e]))" using c(2) by simp
      then show thesis using c None n that [of 0] by (simp add: lru_SetWithExpire_def lru_maybeDeleteOldest_def Let_def)
    qed
  qed
qed

lemma dns_cache_ok_set: "dns_cache_ok c \<Longrightarrow> dns_cache_ok (lru_SetWithExpire k v x now c)"
  unfolding dns_cache_ok_def
  by (simp add: lru_ok_SetWithExpire)
    (simp add: lru_SetWithExpire_def Let_def split: option.split)

lemma dns_set_find:
  assumes "dns_cache_ok c"
  shows "lru_find k (lc_lru (lru_SetWithExpire k v x now c)) = Some \<lparr>le_key = k, le_value = v, le_expires = x\<rparr>"
proof -
  obtain m where m: "lc_lru (lru_SetWithExpire k v x now c) = drop m (lru_without k (lc_lru c)) @ [\<lparr>le_key = k, le_value = v, le_expires = x\<rparr>]"
    by (rule dns_set_lru [OF assms])
  have "k \<notin> le_key ` set (drop m (lru_without k (lc_lru c)))" by (auto simp: lru_without_def dest: in_set_dropD)
  then have "lru_find k (drop m (lru_without k (lc_lru c))) = None" by (simp add: lru_find_None)
  then show ?thesis by (simp add: m lru_find_append)
qed

lemma dns_get:
  assumes "dns_cache_ok c"
  shows "fst (lru_GetWithExpire k now c) = map_option (\<lambda>e. (le_value e, le_expires e)) (lru_find k (lc_lru c)) \<and>
    fst (lru_Get k now c) = map_option le_value (lru_find k (lc_lru c)) \<and>
    dns_cache_ok (snd (lru_GetWithExpire k now c)) \<and> dns_cache_ok (snd (lru_Get k now c))"
  using assms lru_ok_get [of c k now]
  by (auto simp: dns_cache_ok_def lru_GetWithExpire_def lru_Get_def lru_get_def Let_def split: option.splits)

lemma expiry_bound: "expiry now ttl * 1000000000 \<le> now + 1000000000 * uint ttl"
proof -
  have "0 \<le> (now + 1000000000 * uint ttl) mod 1000000000" by simp
  moreover have "(now + 1000000000 * uint ttl) div 1000000000 * 1000000000 + (now + 1000000000 * uint ttl) mod 1000000000 = now + 1000000000 * uint ttl"
    by simp
  ultimately show ?thesis unfolding expiry_def secs_def by linarith
qed

section \<open>Answers from the cache\<close>

lemma exchangeWithoutCache_ok:
  assumes "exchangeWithoutCache E m (r, w) = Inr (Inr msg, r', w')" "m_Question m = q # qs"
  shows "r' = r\<lparr>re_lruCache := putMsgToCache (de_now E w') (de_QString E q) msg (re_lruCache r)\<rparr>"
  using assms by (auto simp: exchangeWithoutCache_def Let_def split: if_splits prod.splits sum.splits)

lemma answered_again:
  assumes c: "dns_cache_ok (re_lruCache r)" and q: "m_Question m = q # qs"
    and x: "exchangeWithoutCache E m (r, w) = Inr (Inr msg, r', w')" "m_Answer msg = rr # rrs"
    and t: "de_now E w' \<le> de_now E v" "de_now E v \<le> expiry (de_now E w') (rr_Ttl rr) * 1000000000"
  shows "\<exists>left r''. Exchange E m (r', v) = Inr (Inr (setMsgTTL msg left), r'', v) \<and> left \<le> rr_Ttl rr \<and>
    dns_cache_ok (re_lruCache r'')"
proof -
  let ?k = "de_QString E q" and ?x = "expiry (de_now E w') (rr_Ttl rr)" and ?now = "de_now E v"
  let ?left = "(?x * 1000000000 - ?now) div 1000000000"
  have r': "re_lruCache r' = lru_SetWithExpire ?k msg ?x (secs (de_now E w')) (re_lruCache r)"
    using exchangeWithoutCache_ok [OF x(1) q] x(2) by (simp add: putMsgToCache_def Let_def)
  have ok: "dns_cache_ok (re_lruCache r')" unfolding r' using c by (rule dns_cache_ok_set)
  have f: "lru_find ?k (lc_lru (re_lruCache r')) = Some \<lparr>le_key = ?k, le_value = msg, le_expires = ?x\<rparr>"
    unfolding r' using c by (rule dns_set_find)
  obtain res c' where g: "lru_GetWithExpire ?k (secs ?now) (re_lruCache r') = (res, c')" by fastforce
  with dns_get [OF ok, of ?k "secs ?now"] f have g': "res = Some (msg, ?x)" "dns_cache_ok c'" by auto
  have "Exchange E m (r', v) = Inr (Inr (setMsgTTL msg (word_of_int ?left)), r'\<lparr>re_lruCache := c'\<rparr>, v)"
    using q g g' t by (simp add: Exchange_def ExchangeContext_def Let_def)
  moreover have "word_of_int ?left \<le> rr_Ttl rr"
  proof -
    have "0 \<le> ?left" using t(2) by simp
    moreover have "?x * 1000000000 - ?now \<le> 1000000000 * uint (rr_Ttl rr)" using expiry_bound [of "de_now E w'" "rr_Ttl rr"] t(1) by linarith
    then have "?left \<le> uint (rr_Ttl rr)" by linarith
    moreover have "uint (rr_Ttl rr) < 2 ^ 32" using uint_bounded [of "rr_Ttl rr"] by simp
    ultimately show ?thesis by (simp add: word_le_def uint_word_of_int)
  qed
  ultimately show ?thesis using g'(2) by auto
qed

section \<open>The filter of fallback answers\<close>

lemma ipExchange_cases:
  assumes "matchPolicy r m = []" "\<not> shouldOnlyQueryFallback r m" "re_fallback r = Some fb"
    and "ipExchange E r m w = (Inr msg, w')"
  obtains (main) w1 ip ips where "batchExchange E (re_main r) m w = (Inr msg, w1)" "msgToIP msg = ip # ips"
      "\<forall>f \<in> set (re_fallbackIPFilters r). \<not> ip_filter_Match (de_country E) f ip"
  | (fallback) main w1 where "batchExchange E (re_main r) m w = (main, w1)" "batchExchange E fb m w1 = (Inr msg, w')"
      "\<And>x ip ips. main = Inr x \<Longrightarrow> msgToIP x = ip # ips \<Longrightarrow> \<exists>f \<in> set (re_fallbackIPFilters r). ip_filter_Match (de_country E) f ip"
proof -
  obtain main w1 where m: "batchExchange E (re_main r) m w = (main, w1)" by fastforce
  obtain fall w2 where f: "batchExchange E fb m w1 = (fall, w2)" by fastforce
  show thesis
  proof (cases "\<exists>x ip ips. main = Inr x \<and> msgToIP x = ip # ips \<and> \<not> shouldIPFallback E r ip")
    case True
    then obtain x ip ips where x: "main = Inr x" "msgToIP x = ip # ips" "\<not> shouldIPFallback E r ip" by blast
    then have "msg = x" using assms m f by (simp add: ipExchange_def)
    then show thesis using main [of w1 ip ips] m x by (simp add: shouldIPFallback_def list_ex_iff)
  next
    case False
    then have "(fall, w2) = (Inr msg, w')"
      using assms m f by (auto simp: ipExchange_def split: sum.splits list.splits if_splits)
    then show thesis using fallback [OF m] f False by (auto simp: shouldIPFallback_def list_ex_iff)
  qed
qed

lemma batch_result:
  "batch_loop E m cs p w = (p', w') \<Longrightarrow> pk_result p = None \<Longrightarrow> pk_result p' = Some msg \<Longrightarrow>
     m_Rcode msg \<noteq> RcodeServerFailure \<and> m_Rcode msg \<noteq> RcodeRefused \<and> (\<exists>c \<in> set cs. \<exists>v v'. de_send E c m v = (Inr msg, v'))"
proof (induction cs arbitrary: p w)
  case (Cons c cs)
  obtain res v where s: "de_send E c m w = (res, v)" by fastforce
  show ?case
  proof (cases "\<exists>x. res = Inr x \<and> m_Rcode x \<noteq> RcodeServerFailure \<and> m_Rcode x \<noteq> RcodeRefused")
    case True
    then show ?thesis using Cons.prems s by (fastforce simp: pk_done_def)
  next
    case False
    then obtain e where "batch_loop E m cs (pk_done (Inl e) p) v = (p', w')"
      using Cons.prems(1) s by (auto split: sum.splits if_splits)
    from Cons.IH [OF this] Cons.prems(2,3) show ?thesis by (auto simp: pk_done_def split: if_splits)
  qed
qed simp

lemma batchExchange_ok:
  assumes "batchExchange E cs m w = (Inr msg, w')" "\<And>v. set (de_order E v cs) \<subseteq> set cs"
  shows "m_Rcode msg \<noteq> RcodeServerFailure \<and> m_Rcode msg \<noteq> RcodeRefused \<and> (\<exists>c \<in> set cs. \<exists>v v'. de_send E c m v = (Inr msg, v'))"
proof -
  obtain p w1 where p: "batch_loop E m (de_order E w cs) \<lparr>pk_result = None, pk_err = None\<rparr> w = (p, w1)" by fastforce
  with assms(1) have "pk_result p = Some msg" by (auto simp: batchExchange_def split: option.splits)
  from batch_result [OF p _ this] assms(2) [of w] show ?thesis by auto
qed

section \<open>Names behind addresses\<close>

lemma mapping_loop_keeps:
  assumes "dns_cache_ok c" "lc_lru c = zs @ es" "\<forall>e \<in> set es. le_value e = host" "length es + length rrs \<le> 4096"
  shows "\<exists>zs' es'. lc_lru (mapping_loop host now rrs c) = zs' @ es' \<and> (\<forall>e \<in> set es'. le_value e = host) \<and>
    le_key ` set es' = le_key ` set es \<union> ip_string ` set (msgToIP_loop rrs) \<and> dns_cache_ok (mapping_loop host now rrs c)"
  using assms
proof (induction rrs arbitrary: c zs es)
  case (Cons rr rrs)
  show ?case
  proof (cases "\<exists>d. rr_data rr = RR_other d")
    case True
    then obtain d where "rr_data rr = RR_other d" by blast
    then have "mapping_loop host now (rr # rrs) c = mapping_loop host now rrs c" "msgToIP_loop (rr # rrs) = msgToIP_loop rrs" by simp_all
    then show ?thesis using Cons.IH [OF Cons.prems(1-3)] Cons.prems(4) by simp
  next
    case False
    then obtain ip where ip: "rr_data rr = RR_A ip \<or> rr_data rr = RR_AAAA ip" by (cases "rr_data rr") auto
    let ?k = "ip_string ip" and ?x = "expiry now (rr_Ttl rr)"
    let ?c = "lru_SetWithExpire ?k host ?x (secs now) c" and ?e = "\<lparr>le_key = ip_string ip, le_value = host, le_expires = expiry now (rr_Ttl rr)\<rparr>"
    obtain m where m: "lc_lru ?c = drop m (lru_without ?k (lc_lru c)) @ [?e]"
      "m = 0 \<or> m = 1 \<and> length (lc_lru c) = 4096 \<and> ?k \<notin> le_key ` set (lc_lru c)" by (rule dns_set_lru [OF Cons.prems(1)])
    have w: "lru_without ?k (lc_lru c) = lru_without ?k zs @ lru_without ?k es" by (simp add: Cons.prems(2) lru_without_def)
    have "m \<le> length (lru_without ?k zs)"
    proof (cases "m = 0")
      case False
      with m(2) have "m = 1" "length zs + length es = 4096" "?k \<notin> le_key ` set zs" by (auto simp: Cons.prems(2))
      with Cons.prems(4) show ?thesis by (simp add: lru_without_absent)
    qed simp
    then have l: "lc_lru ?c = drop m (lru_without ?k zs) @ (lru_without ?k es @ [?e])" by (simp add: m(1) w)
    have v: "\<forall>e \<in> set (lru_without ?k es @ [?e]). le_value e = host" using Cons.prems(3) by (auto simp: lru_without_def)
    have "length (lru_without ?k es) \<le> length es" by (simp add: lru_without_def)
    then have n: "length (lru_without ?k es @ [?e]) + length rrs \<le> 4096" using Cons.prems(4) by simp
    have k: "le_key ` set (lru_without ?k es @ [?e]) = insert ?k (le_key ` set es)" by (auto simp: lru_keys_without)
    have "mapping_loop host now (rr # rrs) c = mapping_loop host now rrs ?c" "msgToIP_loop (rr # rrs) = ip # msgToIP_loop rrs"
      using ip by (auto simp: Let_def)
    then show ?thesis using Cons.IH [OF dns_cache_ok_set [OF Cons.prems(1)] l v n] by (simp only: k list.set image_insert) simp
  qed
qed auto

lemma mapping_loop_Get:
  assumes "dns_cache_ok c" "length rrs \<le> 4096" "ip \<in> set (msgToIP_loop rrs)"
  shows "fst (lru_Get (ip_string ip) now' (mapping_loop host now rrs c)) = Some host"
proof -
  let ?c = "mapping_loop host now rrs c"
  from mapping_loop_keeps [of c "lc_lru c" "[]" host rrs now] assms(1,2) obtain zs es where
    l: "lc_lru ?c = zs @ es" "\<forall>e \<in> set es. le_value e = host" "le_key ` set es = ip_string ` set (msgToIP_loop rrs)" "dns_cache_ok ?c"
    by auto
  obtain e where e: "e \<in> set es" "le_key e = ip_string ip" using l(3) assms(3) by (metis imageE imageI)
  have "distinct (map le_key (lc_lru ?c))" using l(4) by (simp add: dns_cache_ok_def lru_ok_def lru_keys_def)
  then have "lru_find (ip_string ip) (lc_lru ?c) = Some e" using e l(1) by (subst lru_find_iff) auto
  then show ?thesis using dns_get [OF l(4), of "ip_string ip" now'] e(1) l(2) by auto
qed

lemma newHandler_mapping:
  assumes "eh_mode (dt_mapper s) = DNSMapping" "re_hosts (dt_resolver s) = None"
  shows "newHandler E (dt_resolver s) (dt_mapper s) = withMapping E (withResolver E)"
  using assms by (simp add: newHandler_def compose_def)

lemma withResolver_mapper:
  "withResolver E r s = Some (Inr (res, s')) \<Longrightarrow> dt_mapper s' = dt_mapper s"
  by (auto simp: withResolver_def Let_def go_bind_Inr sum_case_eq split: list.splits if_splits)

lemma preHandle_mapping:
  assumes "tn_mapper t = Some h" "eh_mode h = DNSMapping" "eh_fakePool h = None" "eh_mapping h = Some c"
    and "fst (lru_Get (ip_string ip) now c) = Some host" "md_Host m = []" "md_DstIP m = Some ip"
  shows "\<exists>m' t'. preHandleMetadata env now m t = Inr (None, m', t') \<and> md_Host m' = host"
proof -
  obtain c' where g: "lru_Get (ip_string ip) now c = (Some host, c')" using assms(5) by (cases "lru_Get (ip_string ip) now c") auto
  have hm: "host_to_ip m = m" using assms(6) by (simp add: host_to_ip_def parse_ip_Nil)
  have "needLookupIP t m" using assms by (simp add: needLookupIP_def tn_MappingEnabled_def eh_MappingEnabled_def)
  then show ?thesis
    using assms g hm
    by (auto simp: preHandleMetadata_def tn_FindHostByIP_def eh_FindHostByIP_def tn_FakeIPEnabled_def eh_FakeIPEnabled_def Let_def
        split: option.split)
qed

lemma preHandle_fakeip:
  assumes "tn_mapper t = Some eh" "eh_mode eh = DNSFakeIP" "eh_fakePool eh = Some pool"
    and "pool_LookBack pool_stores ip pool = Inr (Some h, p'')"
    and "md_Host m = []" "md_DstIP m = Some dst" "to4 dst = Some ip"
  shows "\<exists>t'. preHandleMetadata env now m t =
    Inr (None, m\<lparr>md_Host := h, md_AddrType := 3, md_DNSMode := DNSFakeIP, md_DstIP := None\<rparr>, t')"
proof -
  have "to4 ip = Some ip" using to4_length [OF assms(7)] by (simp add: to4_def)
  then have "pool_LookBack pool_stores dst pool = Inr (Some h, p'')" using assms(4,7) by (simp add: pool_LookBack_def)
  then have "tn_FindHostByIP dst now t = Inr (Some h, t\<lparr>tn_mapper := Some (eh\<lparr>eh_fakePool := Some p''\<rparr>)\<rparr>)"
    using assms by (simp add: tn_FindHostByIP_def eh_FindHostByIP_def Let_def)
  moreover have "host_to_ip m = m" using assms(5) by (simp add: host_to_ip_def parse_ip_Nil)
  moreover have "needLookupIP t m" using assms by (simp add: needLookupIP_def tn_MappingEnabled_def eh_MappingEnabled_def)
  ultimately show ?thesis using assms by (auto simp: preHandleMetadata_def Let_def tn_FakeIPEnabled_def eh_FakeIPEnabled_def)
qed

lemma compose_Cons: "compose (m # ms) h = m (compose ms h)"
  by (simp add: compose_def)

lemma newHandler_fakeip:
  assumes "m_Question r = q # qs" "trim_dots (q_Name q) = host" "eh_mode (dt_mapper s) = DNSFakeIP"
    and "case re_hosts (dt_resolver s) of None \<Rightarrow> True | Some hosts \<Rightarrow> trie_Search hosts host = None"
  shows "\<exists>nxt. newHandler E (dt_resolver s) (dt_mapper s) r s = withFakeIP E nxt r s"
  using assms
  by (auto simp: newHandler_def compose_Cons withHosts_def split: option.splits if_splits)

section \<open>Theorems\<close>

definition demo_dns_msg :: "string \<Rightarrow> 16 word \<Rightarrow> dns_rr list \<Rightarrow> unit dns_msg" where
  "demo_dns_msg name tp answer =
     \<lparr>m_head = (), m_Rcode = 0, m_Authoritative = False, m_RecursionAvailable = False,
      m_Question = [\<lparr>q_Name = name, q_Qtype = tp, q_Qclass = ClassINET\<rparr>], m_Answer = answer, m_Ns = [], m_Extra = []\<rparr>"

definition demo_rr :: "bytes \<Rightarrow> dns_rr" where
  "demo_rr ip = \<lparr>rr_Name = ''a.b.'', rr_Rrtype = TypeA, rr_Class = ClassINET, rr_Ttl = 60, rr_data = RR_A ip\<rparr>"

text \<open>A network in which the servers answer after five nanoseconds, the first with 192.0.2.1.\<close>

definition demo_dns :: "(int, unit) dns_env" where
  "demo_dns =
     \<lparr>de_SetRcode = (\<lambda>msg r c. msg\<lparr>m_Rcode := c\<rparr>), de_empty = demo_dns_msg [] 0 [], de_query = (\<lambda>host tp. demo_dns_msg host tp []),
      de_QString = q_Name,
      de_send = (\<lambda>c m w. (Inr (m\<lparr>m_Answer := [demo_rr (if c = DHCPClient ''one'' then [192, 0, 2, 1] else [192, 0, 2, 2])]\<rparr>), w + 5)),
      de_order = (\<lambda>w cs. cs), de_now = (\<lambda>w. w), de_country = (\<lambda>ip. ''US''), de_Intn = (\<lambda>w n. 0)\<rparr>"

definition demo_resolver :: "unit Resolver" where
  "demo_resolver =
     \<lparr>re_ipv6 = False, re_hosts = None, re_main = [DHCPClient ''one''], re_fallback = Some [DHCPClient ''two''],
      re_fallbackDomainFilters = [], re_fallbackIPFilters = [IpnetFilter \<lparr>net_ip = [192, 0, 2, 1], net_mask = [255, 255, 255, 255]\<rparr>],
      re_lruCache = dns_cache, re_policy = None\<rparr>"

lemmas demo_dns_defs = demo_dns_def demo_dns_msg_def demo_resolver_def demo_rr_def

lemma demo_batch: "batchExchange demo_dns [c] m w =
    (if m_Rcode m = 2 \<or> m_Rcode m = 5 then (Inl ''all DNS requests failed, first error: server failure'', w + 5)
     else (Inr (m\<lparr>m_Answer := [demo_rr (if c = DHCPClient ''one'' then [192, 0, 2, 1] else [192, 0, 2, 2])]\<rparr>), w + 5))"
  by (simp add: batchExchange_def demo_dns_def pk_done_def RcodeServerFailure_def RcodeRefused_def)

lemma demo_policy: "matchPolicy demo_resolver m = []" "\<not> shouldOnlyQueryFallback demo_resolver m"
  by (simp_all add: matchPolicy_def shouldOnlyQueryFallback_def demo_resolver_def)

lemma demo_exchange:
  "\<exists>r'. exchangeWithoutCache demo_dns (demo_dns_msg ''a.b.'' 1 []) (demo_resolver\<lparr>re_fallback := None\<rparr>, 0) =
    Inr (Inr (demo_dns_msg ''a.b.'' 1 [demo_rr [192, 0, 2, 1]]), r', 5)"
proof -
  let ?r = "demo_resolver\<lparr>re_fallback := None\<rparr>"
  have "matchPolicy ?r m = []" "\<not> shouldOnlyQueryFallback ?r m" for m :: "unit dns_msg"
    by (simp_all add: matchPolicy_def shouldOnlyQueryFallback_def demo_resolver_def)
  moreover have "re_main ?r = [DHCPClient ''one'']" by (simp add: demo_resolver_def)
  ultimately have "ipExchange demo_dns ?r (demo_dns_msg ''a.b.'' 1 []) 0 = (Inr (demo_dns_msg ''a.b.'' 1 [demo_rr [192, 0, 2, 1]]), 5)"
    by (simp add: ipExchange_def demo_batch) (simp add: demo_dns_msg_def)
  moreover have "m_Question (demo_dns_msg ''a.b.'' 1 []) = [\<lparr>q_Name = ''a.b.'', q_Qtype = 1, q_Qclass = ClassINET\<rparr>]"
    by (simp add: demo_dns_msg_def)
  ultimately show ?thesis by (simp add: exchangeWithoutCache_def isIPRequest_def TypeA_def Let_def)
qed




text \<open>
  C26. Where there are fallback servers and neither a policy nor the domain filter decides, an
  answer is that of the main servers only when none of the filters wants its first address;
  else it is that of the fallback servers.  No answer is a server failure or a refusal.
\<close>

theorem dns_fallback_filter:
  assumes "matchPolicy r m = []" and "\<not> shouldOnlyQueryFallback r m" and "re_fallback r = Some fb"
    and "\<And>v cs. set (de_order E v cs) \<subseteq> set cs" and "ipExchange E r m w = (Inr msg, w')"
  shows "m_Rcode msg \<noteq> RcodeServerFailure \<and> m_Rcode msg \<noteq> RcodeRefused \<and>
    ((\<exists>c \<in> set (re_main r). \<exists>v v'. de_send E c m v = (Inr msg, v')) \<and> msgToIP msg \<noteq> [] \<and>
       (\<forall>f \<in> set (re_fallbackIPFilters r). \<not> ip_filter_Match (de_country E) f (hd (msgToIP msg))) \<or>
     (\<exists>c \<in> set fb. \<exists>v v'. de_send E c m v = (Inr msg, v')))"
  using assms(1-3,5)
proof (cases rule: ipExchange_cases)
  case (main w1 ip ips)
  then show ?thesis using batchExchange_ok [OF main(1) assms(4)] by simp
next
  case (fallback main w1)
  then show ?thesis using batchExchange_ok [OF fallback(2) assms(4)] by simp
qed


theorem dns_fallback_filter_witness:
  "\<exists>msg. ipExchange demo_dns demo_resolver (demo_dns_msg ''a.b.'' 1 []) 0 = (Inr msg, 10) \<and>
     msgToIP msg = [[192, 0, 2, 2]] \<and> m_Rcode msg \<noteq> RcodeRefused"
proof -
  have f: "shouldIPFallback demo_dns demo_resolver [192, 0, 2, 1]"
    by (simp add: shouldIPFallback_def demo_resolver_def) code_simp
  have r: "re_main demo_resolver = [DHCPClient ''one'']" "re_fallback demo_resolver = Some [DHCPClient ''two'']"
    by (simp_all add: demo_resolver_def)
  have x: "ipExchange demo_dns demo_resolver (demo_dns_msg ''a.b.'' 1 []) 0 =
      (Inr (demo_dns_msg ''a.b.'' 1 [demo_rr [192, 0, 2, 2]]), 10)"
    by (simp add: ipExchange_def demo_policy r demo_batch) (simp add: demo_dns_msg_def msgToIP_def demo_rr_def f)
  have o: "set (de_order demo_dns v cs) \<subseteq> set cs" for v cs by (simp add: demo_dns_def)
  from dns_fallback_filter [OF demo_policy r(2) o x] have "m_Rcode (demo_dns_msg ''a.b.'' 1 [demo_rr [192, 0, 2, 2]]) \<noteq> RcodeRefused"
    by blast
  with x show ?thesis by (auto simp: demo_dns_msg_def demo_rr_def msgToIP_def)
qed




text \<open>
  In mapping mode, once a question has been answered by servers, a connection to any
  address of the answer is handled under the name that was asked for.
\<close>

theorem dns_mapping_restores:
  assumes "m_Question r = q # qs" and "isIPRequest q" and "re_hosts (dt_resolver s) = None"
    and "eh_mode (dt_mapper s) = DNSMapping" and "eh_fakePool (dt_mapper s) = None"
    and "eh_mapping (dt_mapper s) = Some c" and "dns_cache_ok c"
    and "newHandler E (dt_resolver s) (dt_mapper s) r s = Some (Inr (Inr msg, s'))"
    and "length (m_Answer msg) \<le> 4096" and "ip \<in> set (msgToIP msg)"
    and "tn_mapper t = Some (dt_mapper s')" and "md_Host m = []" and "md_DstIP m = Some ip"
  shows "\<exists>m' t'. preHandleMetadata env now m t = Inr (None, m', t') \<and> md_Host m' = trim_dots (q_Name q)"
proof -
  have "withMapping E (withResolver E) r s = Some (Inr (Inr msg, s'))"
    using assms(8) newHandler_mapping [OF assms(4,3), of E] by simp
  then obtain s1 where s1: "withResolver E r s = Some (Inr (Inr msg, s1))"
    "dt_mapper s' = (dt_mapper s1)\<lparr>eh_mapping :=
       Some (mapping_loop (trim_dots (q_Name q)) (de_now E (dt_world s1)) (m_Answer msg) c)\<rparr>"
    using assms(1,2,6) withResolver_mapper [of E r s]
    by (auto simp: withMapping_def split: option.splits sum.splits prod.splits)
  let ?host = "trim_dots (q_Name q)"
  have "fst (lru_Get (ip_string ip) now (mapping_loop ?host (de_now E (dt_world s1)) (m_Answer msg) c)) = Some ?host"
    using assms(7,9,10) by (intro mapping_loop_Get) (simp_all add: msgToIP_def)
  then show ?thesis
    by (rule preHandle_mapping [OF assms(11) _ _ _ _ assms(12,13), rotated 3])
      (simp_all add: s1(2) withResolver_mapper [OF s1(1)] assms(4,5))
qed


theorem dns_mapping_restores_witness:
  "\<exists>msg s' m' t'. newHandler demo_dns (demo_resolver\<lparr>re_fallback := None\<rparr>) (NewEnhancer DNSMapping None) (demo_dns_msg ''a.b.'' 1 [])
       \<lparr>dt_resolver = demo_resolver\<lparr>re_fallback := None\<rparr>, dt_mapper = NewEnhancer DNSMapping (None :: (pool_store, unit) Pool option),
        dt_type = [], dt_world = 0\<rparr> = Some (Inr (Inr msg, s')) \<and>
     preHandleMetadata demo_tunnel_env 0 (zero_metadata\<lparr>md_DstIP := Some [192, 0, 2, 1]\<rparr>)
       (demo_tunnel\<lparr>tn_mapper := Some (dt_mapper s')\<rparr>) = Inr (None, m', t') \<and> md_Host m' = ''a.b''"
proof -
  let ?r = "demo_resolver\<lparr>re_fallback := None\<rparr>" and ?h = "NewEnhancer DNSMapping (None :: (pool_store, unit) Pool option)"
  let ?s = "\<lparr>dt_resolver = ?r, dt_mapper = ?h, dt_type = [], dt_world = 0 :: int\<rparr>"
  have h: "eh_mode ?h = DNSMapping" "eh_fakePool ?h = None" "eh_mapping ?h = Some (NewLRUCache [WithSize 4096, WithStale True])"
    by (simp_all add: NewEnhancer_def)
  obtain r' where "exchangeWithoutCache demo_dns (demo_dns_msg ''a.b.'' 1 []) (?r, 0) =
      Inr (Inr (demo_dns_msg ''a.b.'' 1 [demo_rr [192, 0, 2, 1]]), r', 5)" using demo_exchange by blast
  moreover have "lru_GetWithExpire k now (re_lruCache ?r) = (None, re_lruCache ?r)" for k now
    by (simp add: lru_GetWithExpire_def lru_get_def demo_resolver_def dns_cache_def NewLRUCache_def)
  moreover have "re_lruCache ?r = re_lruCache demo_resolver" by simp
  ultimately have x: "Exchange demo_dns (demo_dns_msg ''a.b.'' 1 []) (?r, 0) =
      Inr (Inr (demo_dns_msg ''a.b.'' 1 [demo_rr [192, 0, 2, 1]]), r', 5)"
    by (simp add: Exchange_def ExchangeContext_def Let_def demo_dns_msg_def)
  let ?msg = "(demo_dns_msg ''a.b.'' 1 [demo_rr [192, 0, 2, 1]])\<lparr>m_Authoritative := True\<rparr>"
  have "\<exists>s1. withResolver demo_dns (demo_dns_msg ''a.b.'' 1 []) ?s = Some (Inr (Inr ?msg, s1)) \<and> dt_mapper s1 = ?h"
    using x by (simp add: withResolver_def Let_def demo_dns_msg_def TypeAAAA_def) (simp add: demo_dns_def)
  then obtain s' where n: "newHandler demo_dns (dt_resolver ?s) (dt_mapper ?s) (demo_dns_msg ''a.b.'' 1 []) ?s = Some (Inr (Inr ?msg, s'))"
    using newHandler_mapping [of ?s demo_dns] h by (auto simp: withMapping_def isIPRequest_def TypeA_def demo_dns_msg_def demo_resolver_def)
  have "isIPRequest \<lparr>q_Name = ''a.b.'', q_Qtype = 1, q_Qclass = ClassINET\<rparr>" by (simp add: isIPRequest_def TypeA_def)
  from dns_mapping_restores [OF _ this _ _ _ _ dns_cache_ok_New n, of "[]" "[192, 0, 2, 1]" "demo_tunnel\<lparr>tn_mapper := Some (dt_mapper s')\<rparr>"
      "zero_metadata\<lparr>md_DstIP := Some [192, 0, 2, 1]\<rparr>" demo_tunnel_env 0] h n
  show ?thesis by (auto simp: demo_dns_msg_def demo_resolver_def msgToIP_def demo_rr_def zero_metadata_def trim_dots_def)
qed

end
