(* ===== verification/ClashListener.thy ===== *)
theory ClashListener
  imports GoNet
begin

text \<open>
  \<open>listener/listener.go\<close> with the constructors and \<open>Close\<close> methods of its packages: the
  program's listening sockets.  The nine variables of the package are a map; the process's
  open sockets are a list of numbers with their network and address.  The system may refuse
  any socket; accepting connections is not part of this theory.
\<close>

section \<open>Sockets\<close>

datatype socket_net = TcpNet | UdpNet

record net_state =
  nt_open :: "(nat \<times> socket_net \<times> string) list"
  nt_next :: nat

text \<open>
  The system: the reason it refuses a socket at an address, given those that are open, the
  address it binds, and the reason it refuses the option for transparent proxies.
\<close>

record net_sys =
  nv_refuse :: "socket_net \<Rightarrow> string \<Rightarrow> (nat \<times> socket_net \<times> string) list \<Rightarrow> string option"
  nv_bound :: "socket_net \<Rightarrow> string \<Rightarrow> string"
  nv_sockopt :: "string \<Rightarrow> string option"

record listener =
  li_sock :: nat
  li_addr :: string
  li_Address :: string
  li_closed :: bool

definition net_Listen :: "net_sys \<Rightarrow> socket_net \<Rightarrow> string \<Rightarrow> net_state \<Rightarrow> (string + nat) \<times> net_state" where
  "net_Listen V net addr N =
     (case nv_refuse V net addr (nt_open N) of
        Some e \<Rightarrow> (Inl e, N)
      | None \<Rightarrow> (Inr (nt_next N), \<lparr>nt_open = (nt_next N, net, addr) # nt_open N, nt_next = Suc (nt_next N)\<rparr>))"

definition close_sock :: "nat \<Rightarrow> net_state \<Rightarrow> net_state" where
  "close_sock i N = N\<lparr>nt_open := filter (\<lambda>x. fst x \<noteq> i) (nt_open N)\<rparr>"

definition listener_Close :: "listener \<Rightarrow> net_state \<Rightarrow> listener \<times> net_state" where
  "listener_Close l N = (l\<lparr>li_closed := True\<rparr>, close_sock (li_sock l) N)"

type_synonym new_listener = "string \<Rightarrow> net_state \<Rightarrow> (string + listener) \<times> net_state"

definition plain_New :: "net_sys \<Rightarrow> socket_net \<Rightarrow> new_listener" where
  "plain_New V net addr N =
     (case net_Listen V net addr N of
        (Inl e, N) \<Rightarrow> (Inl e, N)
      | (Inr i, N) \<Rightarrow> (Inr \<lparr>li_sock = i, li_addr = addr, li_Address = nv_bound V net addr, li_closed = False\<rparr>, N))"

text \<open>\<open>tproxy\<close> gives up on an error of the option, and keeps the socket open.\<close>

definition tproxy_New :: "net_sys \<Rightarrow> socket_net \<Rightarrow> new_listener" where
  "tproxy_New V net addr N =
     (case plain_New V net addr N of
        (Inl e, N) \<Rightarrow> (Inl e, N)
      | (Inr l, N) \<Rightarrow> (case nv_sockopt V addr of Some e \<Rightarrow> (Inl e, N) | None \<Rightarrow> (Inr l, N)))"

section \<open>The variables\<close>

datatype listen_var =
    SocksL | SocksUDPL | HttpL | RedirL | RedirUDPL | TproxyL | TproxyUDPL | MixedL | MixedUDPL

record listeners =
  lt_net :: net_state
  lt_allowLan :: bool
  lt_bindAddress :: string
  lt_var :: "listen_var \<Rightarrow> listener option"

definition listeners_init :: listeners where
  "listeners_init = \<lparr>lt_net = \<lparr>nt_open = [], nt_next = 0\<rparr>, lt_allowLan = False, lt_bindAddress = ''*'', lt_var = (\<lambda>_. None)\<rparr>"

definition itoa_int :: "int \<Rightarrow> string" where
  "itoa_int i = (if i < 0 then CHR ''-'' # itoa (nat (- i)) else itoa (nat i))"

definition genAddr :: "string \<Rightarrow> int \<Rightarrow> bool \<Rightarrow> string" where
  "genAddr host port allowLan =
     (if allowLan then (if host = ''*'' then '':'' @ itoa_int port else host @ '':'' @ itoa_int port)
      else ''127.0.0.1:'' @ itoa_int port)"

definition portIsZero :: "string \<Rightarrow> bool" where
  "portIsZero addr = (case split_host_port addr of Inl e \<Rightarrow> True | Inr (host, port) \<Rightarrow> port = ''0'' \<or> port = [])"

definition set_var :: "listen_var \<Rightarrow> listener option \<Rightarrow> listeners \<Rightarrow> listeners" where
  "set_var v l S = S\<lparr>lt_var := (lt_var S)(v := l)\<rparr>"

text \<open>Close a variable's listener and forget it.\<close>

definition drop_var :: "listen_var \<Rightarrow> listeners \<Rightarrow> listeners" where
  "drop_var v S =
     (case lt_var S v of
        None \<Rightarrow> S
      | Some l \<Rightarrow> set_var v None (S\<lparr>lt_net := snd (listener_Close l (lt_net S))\<rparr>))"

definition at_addr :: "string \<Rightarrow> listen_var \<Rightarrow> listeners \<Rightarrow> bool" where
  "at_addr addr v S = (case lt_var S v of None \<Rightarrow> False | Some l \<Rightarrow> li_addr l = addr)"

text \<open>A new listener for a variable, which is nil after an error.\<close>

definition assign_new :: "new_listener \<Rightarrow> string \<Rightarrow> listen_var \<Rightarrow> listeners \<Rightarrow> string option \<times> listeners" where
  "assign_new new addr v S =
     (case new addr (lt_net S) of
        (Inl e, N) \<Rightarrow> (Some e, set_var v None (S\<lparr>lt_net := N\<rparr>))
      | (Inr l, N) \<Rightarrow> (None, set_var v (Some l) (S\<lparr>lt_net := N\<rparr>)))"

section \<open>Making them anew\<close>

definition ReCreateHTTP :: "net_sys \<Rightarrow> int \<Rightarrow> listeners \<Rightarrow> string option \<times> listeners" where
  "ReCreateHTTP V port S =
     (let addr = genAddr (lt_bindAddress S) port (lt_allowLan S) in
      if at_addr addr HttpL S then (None, S)
      else
        let S = drop_var HttpL S in
        if portIsZero addr then (None, S) else assign_new (plain_New V TcpNet) addr HttpL S)"

text \<open>The two halves that the SOCKS and the mixed listener share: close what is elsewhere.\<close>

definition drop_elsewhere :: "string \<Rightarrow> listen_var \<Rightarrow> listeners \<Rightarrow> listeners" where
  "drop_elsewhere addr v S = (if at_addr addr v S then S else drop_var v S)"

definition ReCreateSocks :: "net_sys \<Rightarrow> int \<Rightarrow> listeners \<Rightarrow> string option \<times> listeners" where
  "ReCreateSocks V port S =
     (let addr = genAddr (lt_bindAddress S) port (lt_allowLan S);
          S = drop_elsewhere addr SocksUDPL (drop_elsewhere addr SocksL S) in
      if at_addr addr SocksL S \<and> at_addr addr SocksUDPL S then (None, S)
      else if portIsZero addr then (None, S)
      else case plain_New V TcpNet addr (lt_net S) of
        (Inl e, N) \<Rightarrow> (Some e, S\<lparr>lt_net := N\<rparr>)
      | (Inr tcp, N) \<Rightarrow>
          (case plain_New V UdpNet addr N of
             (Inl e, N) \<Rightarrow> (Some e, S\<lparr>lt_net := snd (listener_Close tcp N)\<rparr>)
           | (Inr udp, N) \<Rightarrow> (None, set_var SocksUDPL (Some udp) (set_var SocksL (Some tcp) (S\<lparr>lt_net := N\<rparr>)))))"

text \<open>Redirection and transparent proxies: the UDP listener may fail with a warning.\<close>

definition recreate_transparent ::
  "(string \<Rightarrow> net_state \<Rightarrow> (string + listener) \<times> net_state) \<Rightarrow> net_sys \<Rightarrow> listen_var \<Rightarrow> listen_var \<Rightarrow> int \<Rightarrow> listeners \<Rightarrow> string option \<times> listeners" where
  "recreate_transparent new V tv uv port S =
     (let addr = genAddr (lt_bindAddress S) port (lt_allowLan S) in
      if at_addr addr tv S then (None, S)
      else let S = drop_var tv S in
      if at_addr addr uv S then (None, S)
      else let S = drop_var uv S in
      if portIsZero addr then (None, S)
      else case assign_new new addr tv S of
        (Some e, S) \<Rightarrow> (Some e, S)
      | (None, S) \<Rightarrow> (None, snd (assign_new (tproxy_New V UdpNet) addr uv S)))"

definition ReCreateRedir :: "net_sys \<Rightarrow> int \<Rightarrow> listeners \<Rightarrow> string option \<times> listeners" where
  "ReCreateRedir V port S = recreate_transparent (plain_New V TcpNet) V RedirL RedirUDPL port S"

definition ReCreateTProxy :: "net_sys \<Rightarrow> int \<Rightarrow> listeners \<Rightarrow> string option \<times> listeners" where
  "ReCreateTProxy V port S = recreate_transparent (tproxy_New V TcpNet) V TproxyL TproxyUDPL port S"

text \<open>The mixed listener is assigned before its UDP listener is tried, and is closed but kept when that fails.\<close>

definition ReCreateMixed :: "net_sys \<Rightarrow> int \<Rightarrow> listeners \<Rightarrow> string option \<times> listeners" where
  "ReCreateMixed V port S =
     (let addr = genAddr (lt_bindAddress S) port (lt_allowLan S);
          S = drop_elsewhere addr MixedUDPL (drop_elsewhere addr MixedL S) in
      if at_addr addr MixedL S \<and> at_addr addr MixedUDPL S then (None, S)
      else if portIsZero addr then (None, S)
      else case assign_new (plain_New V TcpNet) addr MixedL S of
        (Some e, S) \<Rightarrow> (Some e, S)
      | (None, S) \<Rightarrow>
          (case assign_new (plain_New V UdpNet) addr MixedUDPL S of
             (None, S) \<Rightarrow> (None, S)
           | (Some e, S) \<Rightarrow>
               (case lt_var S MixedL of
                  None \<Rightarrow> (Some e, S)
                | Some l \<Rightarrow> (case listener_Close l (lt_net S) of (l, N) \<Rightarrow> (Some e, set_var MixedL (Some l) (S\<lparr>lt_net := N\<rparr>))))))"

section \<open>The ports\<close>

record Ports =
  po_Port :: int
  po_SocksPort :: int
  po_RedirPort :: int
  po_TProxyPort :: int
  po_MixedPort :: int

definition port_of :: "listener option \<Rightarrow> int" where
  "port_of l =
     (case l of
        None \<Rightarrow> 0
      | Some x \<Rightarrow> (case split_host_port (li_Address x) of Inl e \<Rightarrow> 0 | Inr (host, port) \<Rightarrow> fst (parse_int 64 port)))"

definition GetPorts :: "listeners \<Rightarrow> Ports" where
  "GetPorts S =
     \<lparr>po_Port = port_of (lt_var S HttpL), po_SocksPort = port_of (lt_var S SocksL), po_RedirPort = port_of (lt_var S RedirL),
      po_TProxyPort = port_of (lt_var S TproxyL), po_MixedPort = port_of (lt_var S MixedL)\<rparr>"

section \<open>The five kinds\<close>

datatype listen_kind = HttpK | SocksK | RedirK | TproxyK | MixedK

definition ReCreate :: "listen_kind \<Rightarrow> net_sys \<Rightarrow> int \<Rightarrow> listeners \<Rightarrow> string option \<times> listeners" where
  "ReCreate k =
     (case k of HttpK \<Rightarrow> ReCreateHTTP | SocksK \<Rightarrow> ReCreateSocks | RedirK \<Rightarrow> ReCreateRedir
      | TproxyK \<Rightarrow> ReCreateTProxy | MixedK \<Rightarrow> ReCreateMixed)"

section \<open>The invariant\<close>

primrec tcp_of :: "listen_kind \<Rightarrow> listen_var" where
  "tcp_of HttpK = HttpL"
| "tcp_of SocksK = SocksL"
| "tcp_of RedirK = RedirL"
| "tcp_of TproxyK = TproxyL"
| "tcp_of MixedK = MixedL"

primrec udp_of :: "listen_kind \<Rightarrow> listen_var option" where
  "udp_of HttpK = None"
| "udp_of SocksK = Some SocksUDPL"
| "udp_of RedirK = Some RedirUDPL"
| "udp_of TproxyK = Some TproxyUDPL"
| "udp_of MixedK = Some MixedUDPL"

primrec net_of :: "listen_var \<Rightarrow> socket_net" where
  "net_of SocksL = TcpNet"
| "net_of SocksUDPL = UdpNet"
| "net_of HttpL = TcpNet"
| "net_of RedirL = TcpNet"
| "net_of RedirUDPL = UdpNet"
| "net_of TproxyL = TcpNet"
| "net_of TproxyUDPL = UdpNet"
| "net_of MixedL = TcpNet"
| "net_of MixedUDPL = UdpNet"

text \<open>The open sockets are those of the listeners that are not closed, each with its own.\<close>

definition socks_ok :: "net_state \<Rightarrow> (listen_var \<Rightarrow> listener option) \<Rightarrow> bool" where
  "socks_ok N var \<longleftrightarrow>
     (\<forall>e \<in> set (nt_open N). fst e < nt_next N \<and> (\<exists>v l. var v = Some l \<and> \<not> li_closed l \<and> e = (li_sock l, net_of v, li_addr l))) \<and>
     (\<forall>v l. var v = Some l \<longrightarrow> li_sock l < nt_next N \<and> \<not> portIsZero (li_addr l) \<and>
        (\<not> li_closed l \<longrightarrow> (li_sock l, net_of v, li_addr l) \<in> set (nt_open N))) \<and>
     (\<forall>v w l m. var v = Some l \<longrightarrow> var w = Some m \<longrightarrow> li_sock l = li_sock m \<longrightarrow> v = w)"

lemma socks_ok_close:
  assumes "socks_ok N var" "var v = Some l"
  shows "socks_ok (close_sock (li_sock l) N) (var(v := None))"
    and "socks_ok (close_sock (li_sock l) N) (var(v := Some (l\<lparr>li_closed := True\<rparr>)))"
proof -
  have u: "w = v" if "var w = Some m" "li_sock m = li_sock l" for w m
    using assms that unfolding socks_ok_def by metis
  have e: "e \<in> set (nt_open (close_sock (li_sock l) N)) \<longleftrightarrow> e \<in> set (nt_open N) \<and> fst e \<noteq> li_sock l" for e
    by (auto simp: close_sock_def)
  have n: "nt_next (close_sock (li_sock l) N) = nt_next N" by (simp add: close_sock_def)
  from assms(1) have a: "\<And>e. e \<in> set (nt_open N) \<Longrightarrow> fst e < nt_next N \<and> (\<exists>v l. var v = Some l \<and> \<not> li_closed l \<and> e = (li_sock l, net_of v, li_addr l))"
    and b: "\<And>v l. var v = Some l \<Longrightarrow> li_sock l < nt_next N \<and> \<not> portIsZero (li_addr l) \<and> (\<not> li_closed l \<longrightarrow> (li_sock l, net_of v, li_addr l) \<in> set (nt_open N))"
    and c: "\<And>v w l m. var v = Some l \<Longrightarrow> var w = Some m \<Longrightarrow> li_sock l = li_sock m \<Longrightarrow> v = w"
    unfolding socks_ok_def by blast+
  have own: "\<exists>w m. w \<noteq> v \<and> var w = Some m \<and> \<not> li_closed m \<and> x = (li_sock m, net_of w, li_addr m)"
    if "x \<in> set (nt_open N)" "fst x \<noteq> li_sock l" for x
    using a [OF that(1)] that(2) assms(2) by (metis fst_conv option.inject)
  have ne: "li_sock m \<noteq> li_sock l" if "w \<noteq> v" "var w = Some m" for w m using u that by blast
  show "socks_ok (close_sock (li_sock l) N) (var(v := None))"
    unfolding socks_ok_def
  proof (intro conjI ballI allI impI)
    fix x assume x: "x \<in> set (nt_open (close_sock (li_sock l) N))"
    then show "fst x < nt_next (close_sock (li_sock l) N)" using a by (simp add: e n)
    from x own obtain w m where "w \<noteq> v" "var w = Some m" "\<not> li_closed m" "x = (li_sock m, net_of w, li_addr m)" unfolding e by blast
    then show "\<exists>w m. (var(v := None)) w = Some m \<and> \<not> li_closed m \<and> x = (li_sock m, net_of w, li_addr m)"
      by (intro exI [of _ w] exI [of _ m]) simp
  qed (use b c ne in \<open>auto simp: e n split: if_splits\<close>)
  show "socks_ok (close_sock (li_sock l) N) (var(v := Some (l\<lparr>li_closed := True\<rparr>)))"
    unfolding socks_ok_def
  proof (intro conjI ballI allI impI)
    fix x assume x: "x \<in> set (nt_open (close_sock (li_sock l) N))"
    then show "fst x < nt_next (close_sock (li_sock l) N)" using a by (simp add: e n)
    from x own obtain w m where "w \<noteq> v" "var w = Some m" "\<not> li_closed m" "x = (li_sock m, net_of w, li_addr m)" unfolding e by blast
    then show "\<exists>w m. (var(v := Some (l\<lparr>li_closed := True\<rparr>))) w = Some m \<and> \<not> li_closed m \<and> x = (li_sock m, net_of w, li_addr m)"
      by (intro exI [of _ w] exI [of _ m]) simp
  qed (use b c ne assms(2) in \<open>auto simp: e n split: if_splits\<close>)
qed

text \<open>A variable is free when it holds nothing that is open.\<close>

definition free_var :: "(listen_var \<Rightarrow> listener option) \<Rightarrow> listen_var \<Rightarrow> bool" where
  "free_var var v \<longleftrightarrow> (\<forall>l. var v = Some l \<longrightarrow> li_closed l)"

lemma socks_ok_forget:
  "socks_ok N var \<Longrightarrow> free_var var v \<Longrightarrow> socks_ok N (var(v := None))"
  unfolding socks_ok_def free_var_def fun_upd_def
  by (intro conjI ballI allI impI) (metis option.distinct(1) option.inject)+

lemma socks_ok_new:
  assumes "socks_ok N var" "free_var var v" "plain_New V (net_of v) addr N = (Inr l, N')" "\<not> portIsZero addr"
  shows "socks_ok N' (var(v := Some l))" "li_addr l = addr" "\<not> li_closed l" "nt_next N' = Suc (nt_next N)" "li_sock l = nt_next N"
proof -
  from assms(3) have l: "l = \<lparr>li_sock = nt_next N, li_addr = addr, li_Address = nv_bound V (net_of v) addr, li_closed = False\<rparr>"
    and N': "N' = \<lparr>nt_open = (nt_next N, net_of v, addr) # nt_open N, nt_next = Suc (nt_next N)\<rparr>"
    by (auto simp: plain_New_def net_Listen_def split: option.splits)
  show "li_addr l = addr" "\<not> li_closed l" "nt_next N' = Suc (nt_next N)" "li_sock l = nt_next N" by (simp_all add: l N')
  from assms(1) have a: "\<And>e. e \<in> set (nt_open N) \<Longrightarrow> fst e < nt_next N \<and> (\<exists>v l. var v = Some l \<and> \<not> li_closed l \<and> e = (li_sock l, net_of v, li_addr l))"
    and b: "\<And>v l. var v = Some l \<Longrightarrow> li_sock l < nt_next N \<and> \<not> portIsZero (li_addr l) \<and> (\<not> li_closed l \<longrightarrow> (li_sock l, net_of v, li_addr l) \<in> set (nt_open N))"
    and c: "\<And>v w l m. var v = Some l \<Longrightarrow> var w = Some m \<Longrightarrow> li_sock l = li_sock m \<Longrightarrow> v = w"
    unfolding socks_ok_def by blast+
  show "socks_ok N' (var(v := Some l))"
    unfolding socks_ok_def
  proof (intro conjI ballI allI impI)
    fix x assume "x \<in> set (nt_open N')"
    then have x: "x = (nt_next N, net_of v, addr) \<or> x \<in> set (nt_open N)" by (simp add: N')
    then show "fst x < nt_next N'" using a [of x] by (elim disjE) (simp_all add: N' less_Suc_eq)
    from x show "\<exists>w m. (var(v := Some l)) w = Some m \<and> \<not> li_closed m \<and> x = (li_sock m, net_of w, li_addr m)"
    proof
      assume "x \<in> set (nt_open N)"
      then obtain w m where m: "var w = Some m" "\<not> li_closed m" "x = (li_sock m, net_of w, li_addr m)" using a by blast
      moreover from m(1,2) assms(2) have "w \<noteq> v" by (auto simp: free_var_def)
      ultimately show ?thesis by (intro exI [of _ w] exI [of _ m]) simp
    qed (auto simp: l)
  qed (use b c assms(4) in \<open>fastforce simp: l N' split: if_splits\<close>)+
qed

lemma plain_New_err: "plain_New V net addr N = (Inl e, N') \<Longrightarrow> N' = N"
  by (auto simp: plain_New_def net_Listen_def split: option.splits)

lemma tproxy_New_plain: "nv_sockopt V = (\<lambda>_. None) \<Longrightarrow> tproxy_New V = plain_New V"
  by (auto simp: tproxy_New_def fun_eq_iff split: prod.splits sum.splits)

definition udp_at :: "listen_kind \<Rightarrow> (listen_var \<Rightarrow> listener option) \<Rightarrow> listener option" where
  "udp_at k var = (case udp_of k of None \<Rightarrow> None | Some v \<Rightarrow> var v)"

text \<open>
  The two listeners of a kind: the UDP one is at the address of the TCP one; only the mixed one
  is kept when it is closed, and those of SOCKS come together.
\<close>

definition pair_ok :: "listen_kind \<Rightarrow> listener option \<Rightarrow> listener option \<Rightarrow> bool" where
  "pair_ok k t u \<longleftrightarrow>
     (\<forall>x. u = Some x \<longrightarrow> \<not> li_closed x \<and> (\<exists>y. t = Some y \<and> li_addr y = li_addr x \<and> \<not> li_closed y)) \<and>
     (\<forall>y. t = Some y \<longrightarrow> (li_closed y \<longleftrightarrow> k = MixedK \<and> u = None)) \<and> (k = SocksK \<longrightarrow> (t = None \<longleftrightarrow> u = None))"

definition listeners_ok :: "listeners \<Rightarrow> bool" where
  "listeners_ok S \<longleftrightarrow> socks_ok (lt_net S) (lt_var S) \<and> (\<forall>k. pair_ok k (lt_var S (tcp_of k)) (udp_at k (lt_var S)))"

text \<open>What a call leaves to the other kinds, and what it makes of its own.\<close>

definition same_others :: "listen_kind \<Rightarrow> listeners \<Rightarrow> listeners \<Rightarrow> bool" where
  "same_others k S T \<longleftrightarrow> (\<forall>v. v \<noteq> tcp_of k \<longrightarrow> udp_of k \<noteq> Some v \<longrightarrow> lt_var T v = lt_var S v)"

definition serves :: "listen_kind \<Rightarrow> string \<Rightarrow> listeners \<Rightarrow> bool" where
  "serves k addr S =
     (case lt_var S (tcp_of k) of None \<Rightarrow> portIsZero addr | Some l \<Rightarrow> \<not> portIsZero addr \<and> li_addr l = addr \<and> \<not> li_closed l)"

definition applied :: "listen_kind \<Rightarrow> string \<Rightarrow> listeners \<Rightarrow> string option \<times> listeners \<Rightarrow> bool" where
  "applied k addr S r \<longleftrightarrow> listeners_ok (snd r) \<and> same_others k S (snd r) \<and> (fst r = None \<longrightarrow> serves k addr (snd r))"

lemma kinds_apart: "j \<noteq> k \<Longrightarrow> tcp_of j \<noteq> tcp_of k \<and> udp_of k \<noteq> Some (tcp_of j) \<and> (\<forall>v. udp_of j = Some v \<longrightarrow> v \<noteq> tcp_of k \<and> udp_of k \<noteq> Some v)"
  by (cases j; cases k) auto

lemma appliedI:
  assumes "listeners_ok S" "socks_ok (lt_net T) (lt_var T)" "same_others k S T"
    "pair_ok k (lt_var T (tcp_of k)) (udp_at k (lt_var T))" "e = None \<Longrightarrow> serves k addr T"
  shows "applied k addr S (e, T)"
proof -
  have "pair_ok j (lt_var T (tcp_of j)) (udp_at j (lt_var T))" for j
  proof (cases "j = k")
    case False
    from kinds_apart [OF this] assms(3) have "lt_var T (tcp_of j) = lt_var S (tcp_of j)" "udp_at j (lt_var T) = udp_at j (lt_var S)"
      by (auto simp: same_others_def udp_at_def split: option.splits)
    with assms(1) show ?thesis by (simp add: listeners_ok_def)
  qed (use assms(4) in simp)
  with assms show ?thesis by (simp add: applied_def listeners_ok_def)
qed

lemma set_var_simps [simp]:
  "lt_var (set_var v l S) = (lt_var S)(v := l)" "lt_net (set_var v l S) = lt_net S"
  "lt_allowLan (set_var v l S) = lt_allowLan S" "lt_bindAddress (set_var v l S) = lt_bindAddress S"
  by (simp_all add: set_var_def)

lemma drop_var_simps [simp]:
  "lt_var (drop_var v S) = (lt_var S)(v := None)" "lt_bindAddress (drop_var v S) = lt_bindAddress S"
  "lt_allowLan (drop_var v S) = lt_allowLan S"
  by (auto simp: drop_var_def split: option.splits)

lemma drop_var_ok:
  "socks_ok (lt_net S) (lt_var S) \<Longrightarrow> socks_ok (lt_net (drop_var v S)) ((lt_var S)(v := None))"
  by (cases "lt_var S v") (auto simp: drop_var_def listener_Close_def fun_upd_idem intro: socks_ok_close)

lemma drop_elsewhere_ok:
  "socks_ok (lt_net S) (lt_var S) \<Longrightarrow> socks_ok (lt_net (drop_elsewhere a v S)) (lt_var (drop_elsewhere a v S))"
  by (simp add: drop_elsewhere_def drop_var_ok)

lemma assign_new_ok:
  assumes "socks_ok (lt_net S) (lt_var S)" "free_var (lt_var S) v" "\<not> portIsZero addr"
    and new: "assign_new (plain_New V (net_of v)) addr v S = (e, T)"
  shows "socks_ok (lt_net T) (lt_var T)"
    and "\<exists>l. lt_var T = (lt_var S)(v := l) \<and>
      (case e of None \<Rightarrow> (\<exists>x. l = Some x \<and> li_addr x = addr \<and> \<not> li_closed x) | Some m \<Rightarrow> l = None)"
proof -
  obtain r N where r: "plain_New V (net_of v) addr (lt_net S) = (r, N)" by fastforce
  have "socks_ok (lt_net T) (lt_var T) \<and> (\<exists>l. lt_var T = (lt_var S)(v := l) \<and>
      (case e of None \<Rightarrow> (\<exists>x. l = Some x \<and> li_addr x = addr \<and> \<not> li_closed x) | Some m \<Rightarrow> l = None))"
  proof (cases r)
    case (Inl m)
    with r plain_New_err have "N = lt_net S" by blast
    with new Inl socks_ok_forget [OF assms(1,2)] show ?thesis by (auto simp: assign_new_def r)
  next
    case (Inr l)
    with r have l: "plain_New V (net_of v) addr (lt_net S) = (Inr l, N)" by simp
    from new Inr socks_ok_new [OF assms(1,2) l assms(3)] show ?thesis by (auto simp: assign_new_def r)
  qed
  then show "socks_ok (lt_net T) (lt_var T)"
    "\<exists>l. lt_var T = (lt_var S)(v := l) \<and> (case e of None \<Rightarrow> (\<exists>x. l = Some x \<and> li_addr x = addr \<and> \<not> li_closed x) | Some m \<Rightarrow> l = None)"
    by blast+
qed

lemma listeners_okD:
  "listeners_ok S \<Longrightarrow> socks_ok (lt_net S) (lt_var S)"
  "listeners_ok S \<Longrightarrow> pair_ok k (lt_var S (tcp_of k)) (udp_at k (lt_var S))"
  by (simp_all add: listeners_ok_def)

lemma listeners_ok_addr: "listeners_ok S \<Longrightarrow> lt_var S v = Some l \<Longrightarrow> \<not> portIsZero (li_addr l)"
  by (simp add: listeners_ok_def socks_ok_def)

lemma ReCreateHTTP_applied:
  assumes "listeners_ok S"
  shows "applied HttpK (genAddr (lt_bindAddress S) port (lt_allowLan S)) S (ReCreateHTTP V port S)"
proof -
  define addr where "addr = genAddr (lt_bindAddress S) port (lt_allowLan S)"
  note ok = assms listeners_okD(1) [OF assms] listeners_okD(2) [OF assms, of HttpK]
  show ?thesis
  proof (cases "at_addr addr HttpL S")
    case True
    with ok listeners_ok_addr [OF assms, of HttpL] show ?thesis
      by (auto simp: ReCreateHTTP_def addr_def [symmetric] at_addr_def serves_def same_others_def pair_ok_def intro!: appliedI split: option.splits)
  next
    case False
    let ?S = "drop_var HttpL S"
    have s: "socks_ok (lt_net ?S) (lt_var ?S)" using drop_var_ok [OF ok(2)] by simp
    show ?thesis
    proof (cases "portIsZero addr")
      case True
      with False ok(1) s show ?thesis
        by (auto simp: ReCreateHTTP_def addr_def [symmetric] serves_def same_others_def pair_ok_def udp_at_def intro!: appliedI)
    next
      case z: False
      obtain e T where n: "assign_new (plain_New V TcpNet) addr HttpL ?S = (e, T)" by fastforce
      from assign_new_ok [OF s _ z, of HttpL V e T] n
      have "socks_ok (lt_net T) (lt_var T)" "\<exists>l. lt_var T = (lt_var S)(HttpL := l) \<and>
        (case e of None \<Rightarrow> (\<exists>x. l = Some x \<and> li_addr x = addr \<and> \<not> li_closed x) | Some m \<Rightarrow> l = None)"
        by (simp_all add: free_var_def)
      with False z ok(1) n show ?thesis
        by (auto simp: ReCreateHTTP_def addr_def [symmetric] serves_def same_others_def pair_ok_def udp_at_def intro!: appliedI split: option.splits)
    qed
  qed
qed

lemma pair_ok_cases:
  "pair_ok k None None" "\<not> li_closed x \<Longrightarrow> k \<noteq> SocksK \<Longrightarrow> k \<noteq> MixedK \<Longrightarrow> pair_ok k (Some x) None"
  "\<not> li_closed x \<Longrightarrow> \<not> li_closed y \<Longrightarrow> li_addr x = li_addr y \<Longrightarrow> pair_ok k (Some x) (Some y)"
  "li_closed x \<Longrightarrow> pair_ok MixedK (Some x) None"
  by (simp_all add: pair_ok_def)

lemma transparent_applied:
  assumes ok: "listeners_ok S" and k: "k = RedirK \<or> k = TproxyK" "udp_of k = Some uv" and V: "nv_sockopt V = (\<lambda>_. None)"
  shows "applied k (genAddr (lt_bindAddress S) port (lt_allowLan S)) S (recreate_transparent (plain_New V TcpNet) V (tcp_of k) uv port S)"
proof -
  define addr where "addr = genAddr (lt_bindAddress S) port (lt_allowLan S)"
  from k have nets: "net_of (tcp_of k) = TcpNet" "net_of uv = UdpNet" "tcp_of k \<noteq> uv" and nk: "k \<noteq> SocksK" "k \<noteq> MixedK" by auto
  note s0 = listeners_okD(1) [OF ok]
  have pk: "pair_ok k (lt_var S (tcp_of k)) (lt_var S uv)" using listeners_okD(2) [OF ok, of k] k(2) by (simp add: udp_at_def)
  show ?thesis
  proof (cases "at_addr addr (tcp_of k) S")
    case True
    then have "serves k addr S" using pk nk listeners_ok_addr [OF ok] by (auto simp: at_addr_def serves_def pair_ok_def split: option.splits)
    then show ?thesis
      using True ok pk s0 k(2) by (auto simp: recreate_transparent_def addr_def [symmetric] same_others_def udp_at_def intro!: appliedI)
  next
    case False
    let ?S = "drop_var uv (drop_var (tcp_of k) S)"
    have nu: "\<not> at_addr addr uv (drop_var (tcp_of k) S)"
      using False pk nets(3) by (auto simp: at_addr_def pair_ok_def split: option.splits)
    have s: "socks_ok (lt_net ?S) (lt_var ?S)" using drop_var_ok [OF drop_var_ok [OF s0, folded drop_var_simps(1)]] by simp
    show ?thesis
    proof (cases "portIsZero addr")
      case True
      with False ok s nu nets k(2) show ?thesis
        by (auto simp: recreate_transparent_def Let_def addr_def [symmetric] serves_def same_others_def udp_at_def
            intro!: appliedI pair_ok_cases)
    next
      case z: False
      obtain e T where t: "assign_new (plain_New V TcpNet) addr (tcp_of k) ?S = (e, T)" by fastforce
      obtain e' U where u: "assign_new (plain_New V UdpNet) addr uv T = (e', U)" by fastforce
      from assign_new_ok [OF s _ z, of "tcp_of k" V e T] t nets obtain l where
        sT: "socks_ok (lt_net T) (lt_var T)" and l: "lt_var T = (lt_var ?S)(tcp_of k := l)"
        "case e of None \<Rightarrow> (\<exists>x. l = Some x \<and> li_addr x = addr \<and> \<not> li_closed x) | Some m \<Rightarrow> l = None"
        by (auto simp: free_var_def)
      have "free_var (lt_var T) uv" using l(1) nets(3) by (simp add: free_var_def)
      from assign_new_ok [OF sT this z, of V e' U] u nets obtain m where
        sU: "socks_ok (lt_net U) (lt_var U)" and m: "lt_var U = (lt_var T)(uv := m)"
        "case e' of None \<Rightarrow> (\<exists>x. m = Some x \<and> li_addr x = addr \<and> \<not> li_closed x) | Some r \<Rightarrow> m = None"
        by auto
      show ?thesis
      proof (cases e)
        case (Some r)
        with False ok sT l nu nets k(2) t z show ?thesis
          by (auto simp: recreate_transparent_def Let_def addr_def [symmetric] same_others_def udp_at_def
              intro!: appliedI pair_ok_cases)
      next
        case None
        with l obtain x where x: "l = Some x" "li_addr x = addr" "\<not> li_closed x" by auto
        have "pair_ok k (Some x) m" using m(2) x nk by (cases e') (auto intro: pair_ok_cases)
        with None x False ok sU l m nu nets k(2) t u z show ?thesis
          by (auto simp: recreate_transparent_def Let_def addr_def [symmetric] same_others_def serves_def udp_at_def
              tproxy_New_plain [OF V] intro!: appliedI)
      qed
    qed
  qed
qed

lemma ReCreateSocks_applied:
  assumes ok: "listeners_ok S"
  shows "applied SocksK (genAddr (lt_bindAddress S) port (lt_allowLan S)) S (ReCreateSocks V port S)"
proof -
  define addr where "addr = genAddr (lt_bindAddress S) port (lt_allowLan S)"
  note s0 = listeners_okD(1) [OF ok]
  have pk: "pair_ok SocksK (lt_var S SocksL) (lt_var S SocksUDPL)"
    using listeners_okD(2) [OF ok, of SocksK] by (simp add: udp_at_def)
  let ?S = "drop_elsewhere addr SocksUDPL (drop_elsewhere addr SocksL S)"
  have s: "socks_ok (lt_net ?S) (lt_var ?S)" using drop_elsewhere_ok [OF drop_elsewhere_ok [OF s0]] .
  show ?thesis
  proof (cases "at_addr addr SocksL S")
    case True
    then have "at_addr addr SocksUDPL S" using pk by (auto simp: at_addr_def pair_ok_def split: option.splits)
    moreover have "serves SocksK addr S"
      using True pk listeners_ok_addr [OF ok] by (auto simp: at_addr_def serves_def pair_ok_def split: option.splits)
    ultimately show ?thesis using True ok pk s0
      by (auto simp: ReCreateSocks_def addr_def [symmetric] Let_def drop_elsewhere_def same_others_def udp_at_def intro!: appliedI)
  next
    case False
    then have nu: "\<not> at_addr addr SocksUDPL S" using pk by (auto simp: at_addr_def pair_ok_def split: option.splits)
    then have nu': "\<not> at_addr addr SocksUDPL (drop_var SocksL S)" by (simp add: at_addr_def)
    have S: "?S = drop_var SocksUDPL (drop_var SocksL S)" using False nu' by (simp add: drop_elsewhere_def)
    have v: "lt_var ?S = (lt_var S)(SocksL := None, SocksUDPL := None)" by (simp add: S)
    have no: "\<not> at_addr addr SocksL ?S" by (simp add: at_addr_def v)
    show ?thesis
    proof (cases "portIsZero addr")
      case True
      with ok s v no show ?thesis
        by (auto simp: ReCreateSocks_def addr_def [symmetric] Let_def serves_def same_others_def udp_at_def intro!: appliedI pair_ok_cases)
    next
      case z: False
      obtain r N where t: "plain_New V TcpNet addr (lt_net ?S) = (r, N)" by fastforce
      show ?thesis
      proof (cases r)
        case (Inl e)
        with t have "N = lt_net ?S" using plain_New_err by blast
        with Inl t ok s v no z show ?thesis
          by (auto simp: ReCreateSocks_def addr_def [symmetric] Let_def same_others_def udp_at_def intro!: appliedI pair_ok_cases)
      next
        case (Inr x)
        note x = socks_ok_new [OF s, of SocksL V addr x N, OF _ _ z]
        have f: "free_var (lt_var ?S) SocksL" by (simp add: free_var_def v)
        have x: "socks_ok N ((lt_var ?S)(SocksL := Some x))" "li_addr x = addr" "\<not> li_closed x"
          using socks_ok_new [OF s f _ z, of V x N] t Inr by simp_all
        obtain q M where u: "plain_New V UdpNet addr N = (q, M)" by fastforce
        show ?thesis
        proof (cases q)
          case (Inl e)
          with u have "M = N" using plain_New_err by blast
          moreover have "socks_ok (close_sock (li_sock x) N) ((lt_var ?S)(SocksL := None))"
            using socks_ok_close(1) [OF x(1), of SocksL x] by simp
          moreover have "(lt_var ?S)(SocksL := None) = lt_var ?S" by (simp add: v fun_upd_twist)
          ultimately show ?thesis using Inl Inr t u ok v no z
            by (auto simp: ReCreateSocks_def addr_def [symmetric] Let_def listener_Close_def same_others_def udp_at_def intro!: appliedI pair_ok_cases)
        next
          case q: (Inr y)
          have "free_var ((lt_var ?S)(SocksL := Some x)) SocksUDPL" by (simp add: free_var_def v)
          then have "socks_ok M ((lt_var ?S)(SocksL := Some x, SocksUDPL := Some y))" "li_addr y = addr" "\<not> li_closed y"
            using socks_ok_new [OF x(1) _ _ z, of SocksUDPL V y M] u q by simp_all
          with Inr q t u ok v no z x show ?thesis
            by (auto simp: ReCreateSocks_def addr_def [symmetric] Let_def serves_def same_others_def udp_at_def intro!: appliedI pair_ok_cases)
        qed
      qed
    qed
  qed
qed

lemma ReCreateMixed_applied:
  assumes ok: "listeners_ok S"
  shows "applied MixedK (genAddr (lt_bindAddress S) port (lt_allowLan S)) S (ReCreateMixed V port S)"
proof -
  define addr where "addr = genAddr (lt_bindAddress S) port (lt_allowLan S)"
  note s0 = listeners_okD(1) [OF ok]
  have pk: "pair_ok MixedK (lt_var S MixedL) (lt_var S MixedUDPL)"
    using listeners_okD(2) [OF ok, of MixedK] by (simp add: udp_at_def)
  let ?S = "drop_elsewhere addr MixedUDPL (drop_elsewhere addr MixedL S)"
  have s: "socks_ok (lt_net ?S) (lt_var ?S)" using drop_elsewhere_ok [OF drop_elsewhere_ok [OF s0]] .
  have no_udp: "at_addr addr MixedL S" if "at_addr addr MixedUDPL S"
    using pk that by (auto simp: at_addr_def pair_ok_def split: option.splits)
  show ?thesis
  proof (cases "at_addr addr MixedUDPL S")
    case True
    with no_udp have t: "at_addr addr MixedL S" .
    moreover have "serves MixedK addr S"
      using True t pk listeners_ok_addr [OF ok] by (auto simp: at_addr_def serves_def pair_ok_def split: option.splits)
    ultimately show ?thesis using True ok pk s0
      by (auto simp: ReCreateMixed_def addr_def [symmetric] Let_def drop_elsewhere_def same_others_def udp_at_def intro!: appliedI)
  next
    case False
    then have no: "\<not> at_addr addr MixedUDPL ?S" by (auto simp: drop_elsewhere_def at_addr_def drop_var_def set_var_def split: option.splits)
    have v: "lt_var ?S MixedUDPL = None" "\<And>w. w \<noteq> MixedL \<Longrightarrow> w \<noteq> MixedUDPL \<Longrightarrow> lt_var ?S w = lt_var S w"
      using False by (auto simp: drop_elsewhere_def at_addr_def split: option.splits)
    have l: "\<And>x. lt_var ?S MixedL = Some x \<Longrightarrow> li_closed x \<and> \<not> portIsZero addr"
      using False pk listeners_ok_addr [OF ok, of MixedL]
      by (auto simp: drop_elsewhere_def at_addr_def pair_ok_def split: option.splits if_splits)
    then have f: "free_var (lt_var ?S) MixedL" by (simp add: free_var_def)
    show ?thesis
    proof (cases "portIsZero addr")
      case True
      with l have "lt_var ?S MixedL = None" by (cases "lt_var ?S MixedL") auto
      with True ok s v no show ?thesis
        by (auto simp: ReCreateMixed_def addr_def [symmetric] Let_def serves_def same_others_def udp_at_def intro!: appliedI pair_ok_cases)
    next
      case z: False
      obtain e T where t: "assign_new (plain_New V TcpNet) addr MixedL ?S = (e, T)" by fastforce
      from assign_new_ok [OF s f z, of V e T] t obtain l where sT: "socks_ok (lt_net T) (lt_var T)"
        and T: "lt_var T = (lt_var ?S)(MixedL := l)"
        "case e of None \<Rightarrow> (\<exists>x. l = Some x \<and> li_addr x = addr \<and> \<not> li_closed x) | Some m \<Rightarrow> l = None" by auto
      show ?thesis
      proof (cases e)
        case (Some r)
        with t ok sT T v no z show ?thesis
          by (auto simp: ReCreateMixed_def addr_def [symmetric] Let_def same_others_def udp_at_def intro!: appliedI pair_ok_cases)
      next
        case None
        with T obtain x where x: "l = Some x" "li_addr x = addr" "\<not> li_closed x" by auto
        obtain e' U where u: "assign_new (plain_New V UdpNet) addr MixedUDPL T = (e', U)" by fastforce
        have "free_var (lt_var T) MixedUDPL" by (simp add: free_var_def T v)
        from assign_new_ok [OF sT this z, of V e' U] u obtain m where sU: "socks_ok (lt_net U) (lt_var U)"
          and U: "lt_var U = (lt_var T)(MixedUDPL := m)"
          "case e' of None \<Rightarrow> (\<exists>x. m = Some x \<and> li_addr x = addr \<and> \<not> li_closed x) | Some m' \<Rightarrow> m = None" by auto
        have s': "socks_ok (close_sock (li_sock x) (lt_net U)) ((lt_var U)(MixedL := Some (x\<lparr>li_closed := True\<rparr>)))"
          using socks_ok_close(2) [OF sU, of MixedL x] by (simp add: U T x)
        show ?thesis
        proof (cases e')
          case (Some r)
          with None t u ok s' T U v no x z show ?thesis
            by (auto simp: ReCreateMixed_def addr_def [symmetric] Let_def listener_Close_def same_others_def udp_at_def
                intro!: appliedI pair_ok_cases)
        next
          case e': None
          with None t u ok sU T U v no x z show ?thesis
            by (auto simp: ReCreateMixed_def addr_def [symmetric] Let_def serves_def same_others_def udp_at_def
                intro!: appliedI pair_ok_cases)
        qed
      qed
    qed
  qed
qed

lemma listeners_ok_init: "listeners_ok listeners_init"
  by (simp add: listeners_ok_def listeners_init_def socks_ok_def udp_at_def pair_ok_def split: option.splits)

lemma ReCreate_applied:
  assumes "listeners_ok S" "nv_sockopt V = (\<lambda>_. None)"
  shows "applied k (genAddr (lt_bindAddress S) port (lt_allowLan S)) S (ReCreate k V port S)"
proof (cases k)
  case RedirK
  with transparent_applied [OF assms(1) _ _ assms(2), of k RedirUDPL port] show ?thesis by (simp add: ReCreate_def ReCreateRedir_def)
next
  case TproxyK
  with transparent_applied [OF assms(1) _ _ assms(2), of k TproxyUDPL port] show ?thesis
    by (simp add: ReCreate_def ReCreateTProxy_def tproxy_New_plain [OF assms(2)])
qed (use assms in \<open>simp_all add: ReCreate_def ReCreateHTTP_applied ReCreateSocks_applied ReCreateMixed_applied\<close>)

lemma ReCreate_keeps: "listeners_ok S \<Longrightarrow> nv_sockopt V = (\<lambda>_. None) \<Longrightarrow> listeners_ok (snd (ReCreate k V port S))"
  using ReCreate_applied [of S V k port] by (simp add: applied_def)


text \<open>A system that grants everything, and ones that refuse the UDP socket and the option.\<close>

definition sys_all :: net_sys where
  "sys_all = \<lparr>nv_refuse = (\<lambda>n a os. None), nv_bound = (\<lambda>n a. a), nv_sockopt = (\<lambda>_. None)\<rparr>"

definition sys_no_udp :: net_sys where
  "sys_no_udp = sys_all\<lparr>nv_refuse := (\<lambda>n a os. if n = UdpNet then Some ''in use'' else None)\<rparr>"

definition sys_no_opt :: net_sys where
  "sys_no_opt = sys_all\<lparr>nv_sockopt := (\<lambda>_. Some ''operation not permitted'')\<rparr>"


text \<open>Where they do not keep to it: the closed listener stays, and \<open>GetPorts\<close> reports its address; the socket is leaked.\<close>

lemma mixed_closed_reported:
  "(case ReCreateMixed sys_no_udp 80 listeners_init of
      (e, S) \<Rightarrow> e = Some ''in use'' \<and> nt_open (lt_net S) = [] \<and> 
        map_option (\<lambda>l. (li_closed l, li_Address l)) (lt_var S MixedL) = Some (True, ''127.0.0.1:80''))"
  by code_simp

lemma tproxy_socket_leaked:
  "(case ReCreateTProxy sys_no_opt 81 listeners_init of
      (e, S) \<Rightarrow> e = Some ''operation not permitted'' \<and> lt_var S TproxyL = None \<and> length (nt_open (lt_net S)) = 1)"
  by code_simp

lemma genAddr_ipv6: "portIsZero (genAddr ''::1'' 80 True) \<and> portIsZero (genAddr ''127.0.0.1'' 0 False)"
  by code_simp

end
