(* ===== verification/ClashHub.thy ===== *)
theory ClashHub
  imports ClashDns ClashListener
begin

text \<open>
  \<open>hub\<close> of clash: a configuration is applied to the running parts
  (\<open>hub/executor/executor.go\<close>), which the REST API shows and changes (\<open>hub/route\<close>).  One
  record holds what these functions keep in variables of many packages: the tunnel with its
  host mapper, the providers, the listeners, the resolver, the authenticator and the file of
  the selections.  The state of a selector, its choice, is kept by the name the tunnel has it
  under; a provider is found by its name, under which the groups that use it share it.
\<close>

section \<open>Users of the local servers\<close>

record Authenticator =
  am_storage :: "string \<rightharpoonup> string"
  am_usernames :: "string list"

definition Authenticator_Verify :: "Authenticator \<Rightarrow> string \<Rightarrow> string \<Rightarrow> bool" where
  "Authenticator_Verify au user pass =
     (case am_storage au user of None \<Rightarrow> False | Some realPass \<Rightarrow> realPass = pass)"

text \<open>\<open>visit\<close> is the order in which \<open>sync.Map\<close> is ranged over.\<close>

definition NewAuthenticator :: "(string list \<Rightarrow> string list) \<Rightarrow> AuthUser list \<Rightarrow> Authenticator option" where
  "NewAuthenticator visit users =
     (if users = [] then None
      else Some \<lparr>am_storage = fold (\<lambda>u s. s(au_User u \<mapsto> au_Pass u)) users Map.empty,
        am_usernames = visit (remdups (map au_User users))\<rparr>)"

text \<open>Of a name that is given twice the last password counts.\<close>

lemma Authenticator_Verify_last:
  "NewAuthenticator visit users = Some au \<Longrightarrow>
     Authenticator_Verify au user pass \<longleftrightarrow> map_of (rev (map (\<lambda>u. (au_User u, au_Pass u)) users)) user = Some pass"
proof -
  have "fold (\<lambda>u s. s(au_User u \<mapsto> au_Pass u)) users m = m ++ map_of (rev (map (\<lambda>u. (au_User u, au_Pass u)) users))" for m
    by (induction users arbitrary: m) (simp_all add: map_add_def fun_eq_iff split: option.split)
  then show "NewAuthenticator visit users = Some au \<Longrightarrow> ?thesis"
    by (auto simp: NewAuthenticator_def Authenticator_Verify_def split: if_splits option.splits)
qed

section \<open>The state\<close>

text \<open>The DNS server: the address it was started for, and whether it serves.\<close>

record dns_server =
  ds_address :: string
  ds_serving :: bool

record ('h, 'x) hub =
  hb_tunnel :: "('x proxy, bool) tunnel"
  hb_providers :: "'x providers"
  hb_selected :: "string \<rightharpoonup> string"
  hb_users :: "Authenticator option"
  hb_listeners :: listeners
  hb_resolver :: "'h Resolver option"
  hb_hosts :: "bytes trie_node"
  hb_DisableIPv6 :: bool
  hb_LogLevel :: LogLevel
  hb_Interface :: string
  hb_StoreSelected :: bool
  hb_cache :: CacheFile
  hb_dns :: dns_server

text \<open>
  What is outside: the parts that read configurations, the sockets, the reason the system
  refuses the socket of the DNS server, the order of the policy map, and files.
\<close>

record ('w, 'x) hub_env =
  he_config :: "('w, 'x) config_env"
  he_url :: url_lib
  he_yaml :: "bytes \<Rightarrow> RawConfig \<Rightarrow> string + RawConfig"
  he_net :: net_sys
  he_listen_dns :: "string \<Rightarrow> 'w \<Rightarrow> string option \<times> 'w"
  he_policy :: "(string \<rightharpoonup> NameServer) \<Rightarrow> (string \<times> NameServer) list"
  he_NotExist :: "string \<Rightarrow> 'w \<Rightarrow> bool"
  he_ReadFile :: "string \<Rightarrow> 'w \<Rightarrow> string + bytes"
  he_Path :: string

section \<open>Applying a configuration\<close>

definition updateUsers :: "('w, 'x) hub_env \<Rightarrow> AuthUser list \<Rightarrow> ('h, 'x) hub \<Rightarrow> ('h, 'x) hub" where
  "updateUsers H users s = s\<lparr>hb_users := NewAuthenticator (ce_visit (he_config H)) users\<rparr>"

text \<open>The choices of the new selectors are those they were made with.\<close>

fun made_choice :: "'x proxy \<Rightarrow> string option" where
  "made_choice (PGroup (KSelect selected) opt ps) = Some selected"
| "made_choice _ = None"

definition updateProxies :: "'x proxies \<Rightarrow> 'x providers \<Rightarrow> ('h, 'x) hub \<Rightarrow> ('h, 'x) hub" where
  "updateProxies proxies providers s =
     s\<lparr>hb_tunnel := (hb_tunnel s)\<lparr>tn_proxies := proxies\<rparr>, hb_providers := providers,
       hb_selected := (\<lambda>n. case proxies n of None \<Rightarrow> None | Some p \<Rightarrow> made_choice p)\<rparr>"

definition updateRules :: "rule list \<Rightarrow> ('h, 'x) hub \<Rightarrow> ('h, 'x) hub" where
  "updateRules rules s = s\<lparr>hb_tunnel := (hb_tunnel s)\<lparr>tn_rules := rules\<rparr>\<rparr>"

definition updateHosts :: "bytes trie_node \<Rightarrow> ('h, 'x) hub \<Rightarrow> ('h, 'x) hub" where
  "updateHosts tree s = s\<lparr>hb_hosts := tree\<rparr>"

text \<open>The proxies of a group, with its providers as they are now.\<close>

fun provider_Name :: "'x provider \<Rightarrow> string" where
  "provider_Name (CompatibleP name ps hc) = name"
| "provider_Name (SetP f ps hc) = ft_name f"

definition live_provider :: "'x providers \<Rightarrow> 'x provider \<Rightarrow> 'x provider" where
  "live_provider P p = (case P (provider_Name p) of None \<Rightarrow> p | Some q \<Rightarrow> q)"

fun group_members :: "'x providers \<Rightarrow> 'x proxy \<Rightarrow> 'x proxy list" where
  "group_members P (PGroup k opt ps) = concat (map (\<lambda>p. provider_Proxies (live_provider P p)) ps)"
| "group_members P _ = []"

text \<open>\<open>Selector.Set\<close> on the selector of a name; the reason it refuses.\<close>

definition set_choice :: "('x \<Rightarrow> string) \<Rightarrow> 'x proxy \<Rightarrow> string \<Rightarrow> string \<Rightarrow> ('h, 'x) hub \<Rightarrow> string option \<times> ('h, 'x) hub" where
  "set_choice nm proxy grp name s =
     (if list_ex (\<lambda>p. proxy_Name nm p = name) (group_members (hb_providers s) proxy)
      then (None, s\<lparr>hb_selected := (hb_selected s)(grp \<mapsto> name)\<rparr>)
      else (Some ''proxy not exist'', s))"

text \<open>
  \<open>patchSelectGroup\<close>: the loop sets selectors of different names, so its order does not matter
  and it is written as one change of all choices.
\<close>

definition patched_choice :: "('x \<Rightarrow> string) \<Rightarrow> (string \<rightharpoonup> string) \<Rightarrow> ('h, 'x) hub \<Rightarrow> string \<Rightarrow> string option" where
  "patched_choice nm mapping s name =
     (case tn_proxies (hb_tunnel s) name of
        None \<Rightarrow> hb_selected s name
      | Some proxy \<Rightarrow>
          if made_choice proxy = None then hb_selected s name
          else case mapping name of
            None \<Rightarrow> hb_selected s name
          | Some selected \<Rightarrow> hb_selected (snd (set_choice nm proxy name selected s)) name)"

definition patchSelectGroup :: "('x \<Rightarrow> string) \<Rightarrow> ('h, 'x) hub \<Rightarrow> ('h, 'x) hub" where
  "patchSelectGroup nm s =
     (case SelectedMap (hb_StoreSelected s) (hb_cache s) of
        None \<Rightarrow> s
      | Some mapping \<Rightarrow> s\<lparr>hb_selected := patched_choice nm mapping s\<rparr>)"

definition updateProfile :: "('x \<Rightarrow> string) \<Rightarrow> 'x Config \<Rightarrow> ('h, 'x) hub \<Rightarrow> ('h, 'x) hub" where
  "updateProfile nm cfg s =
     (let s = s\<lparr>hb_StoreSelected := cf_StoreSelected cfg\<rparr> in
      if cf_StoreSelected cfg then patchSelectGroup nm s else s)"

text \<open>An error of a listener is logged.\<close>

definition recreate :: "('w, 'x) hub_env \<Rightarrow> listen_kind \<Rightarrow> int \<Rightarrow> listeners \<Rightarrow> listeners" where
  "recreate H k port L = snd (ReCreate k (he_net H) port L)"

definition updateGeneral :: "('w, 'x) hub_env \<Rightarrow> General \<Rightarrow> bool \<Rightarrow> ('h, 'x) hub \<Rightarrow> ('h, 'x) hub" where
  "updateGeneral H general force s =
     (let s = s\<lparr>hb_LogLevel := ge_LogLevel general, hb_tunnel := (hb_tunnel s)\<lparr>tn_mode := ge_Mode general\<rparr>,
            hb_DisableIPv6 := \<not> ge_IPv6 general, hb_Interface := ge_Interface general\<rparr> in
      if \<not> force then s
      else
        let L = (hb_listeners s)\<lparr>lt_allowLan := ge_AllowLan general, lt_bindAddress := ge_BindAddress general\<rparr>;
            L = recreate H HttpK (ge_Port general) L;
            L = recreate H SocksK (ge_SocksPort general) L;
            L = recreate H RedirK (ge_RedirPort general) L;
            L = recreate H TproxyK (ge_TProxyPort general) L;
            L = recreate H MixedK (ge_MixedPort general) L
        in s\<lparr>hb_listeners := L\<rparr>)"

text \<open>
  \<open>ReCreateServer\<close>: the address and whether there is a resolver.  A server that was started is
  shut down unless it is for this address.
\<close>

definition ReCreateServer ::
  "('w, 'x) hub_env \<Rightarrow> string \<Rightarrow> bool \<Rightarrow> dns_server \<Rightarrow> 'w \<Rightarrow> string option \<times> dns_server \<times> 'w" where
  "ReCreateServer H addr has_resolver d w =
     (if addr = ds_address d \<and> has_resolver then (None, d, w)
      else
        let d = (if ds_serving d then \<lparr>ds_address = [], ds_serving = False\<rparr> else d) in
        if portIsZero addr then (None, d, w)
        else case he_listen_dns H addr w of
          (Some e, w) \<Rightarrow> (Some e, d, w)
        | (None, w) \<Rightarrow> (None, \<lparr>ds_address = addr, ds_serving = True\<rparr>, w))"

text \<open>
  The file of the cache as it is: while a pool of fake addresses keeps its addresses there, that
  bucket is the pool's.
\<close>

definition current_cache :: "('h, 'x) hub \<Rightarrow> CacheFile" where
  "current_cache s =
     (case tn_mapper (hb_tunnel s) of
        None \<Rightarrow> hb_cache s
      | Some m \<Rightarrow>
          (case eh_fakePool m of
             None \<Rightarrow> hb_cache s
           | Some pool \<Rightarrow>
               (case fp_store pool of
                  MemoryStore m \<Rightarrow> hb_cache s
                | CachefileStore c \<Rightarrow>
                    (case (ca_DB c, ca_DB (hb_cache s)) of
                       (Some p, Some db) \<Rightarrow>
                         (hb_cache s)\<lparr>ca_DB := Some (db\<lparr>bo_buckets := (bo_buckets db)(bucketFakeip := bo_buckets p bucketFakeip)\<rparr>)\<rparr>
                     | _ \<Rightarrow> hb_cache s))))"

definition dns_config :: "('w, 'x) hub_env \<Rightarrow> CacheFile \<Rightarrow> DNS \<Rightarrow> bool dns_Config" where
  "dns_config H cache c =
     \<lparr>dn_Main = dc_NameServer c, dn_Fallback = dc_Fallback c, dn_Default = dc_DefaultNameserver c,
      dn_IPv6 = dc_IPv6 c, dn_EnhancedMode = dc_EnhancedMode c, dn_FallbackFilter = dc_FallbackFilter c,
      dn_Pool = (case dc_FakeIPRange c of None \<Rightarrow> None | Some opts \<Rightarrow> fake_New cache opts),
      dn_Hosts = dc_Hosts c, dn_Policy = he_policy H (dc_NameServerPolicy c)\<rparr>"

definition updateDNS :: "('w, 'x) hub_env \<Rightarrow> DNS \<Rightarrow> ('h, 'x) hub \<times> 'w \<Rightarrow> ('h, 'x) hub \<times> 'w" where
  "updateDNS H c sw =
     (case sw of (s, w) \<Rightarrow>
      let s = s\<lparr>hb_cache := current_cache s\<rparr> in
      if \<not> dc_Enable c then
        (case ReCreateServer H [] False (hb_dns s) w of
           (e, d, w) \<Rightarrow> (s\<lparr>hb_resolver := None, hb_tunnel := (hb_tunnel s)\<lparr>tn_mapper := None\<rparr>, hb_dns := d\<rparr>, w))
      else
        let cfg = dns_config H (hb_cache s) c;
            r = NewResolver cfg;
            m = NewEnhancer (dn_EnhancedMode cfg) (dn_Pool cfg);
            m = (case tn_mapper (hb_tunnel s) of None \<Rightarrow> m | Some old \<Rightarrow> eh_PatchFrom m old)
        in (case ReCreateServer H (dc_Listen c) True (hb_dns s) w of
              (e, d, w) \<Rightarrow> (s\<lparr>hb_resolver := Some r, hb_tunnel := (hb_tunnel s)\<lparr>tn_mapper := Some m\<rparr>, hb_dns := d\<rparr>, w)))"

definition ApplyConfig :: "('w, 'x) hub_env \<Rightarrow> 'x Config \<Rightarrow> bool \<Rightarrow> ('h, 'x) hub \<times> 'w \<Rightarrow> ('h, 'x) hub \<times> 'w" where
  "ApplyConfig H cfg force sw =
     (case sw of (s, w) \<Rightarrow>
      let s = updateUsers H (cf_Users cfg) s;
          s = updateProxies (cf_Proxies cfg) (cf_Providers cfg) s;
          s = updateRules (cf_Rules cfg) s;
          s = updateHosts (cf_Hosts cfg) s;
          s = updateProfile (ce_name (he_config H)) cfg s;
          s = updateGeneral H (cf_General cfg) force s
      in updateDNS H (cf_DNS cfg) (s, w))"

section \<open>The start\<close>

definition readConfig :: "('w, 'x) hub_env \<Rightarrow> string \<Rightarrow> 'w \<Rightarrow> string + bytes" where
  "readConfig H path w =
     (if he_NotExist H path w then Inl (''stat '' @ path @ '': no such file or directory'')
      else case he_ReadFile H path w of
        Inl e \<Rightarrow> Inl e
      | Inr data \<Rightarrow>
          if data = [] then Inl (''configuration file '' @ path @ '' is empty'') else Inr data)"

datatype parse_fail = ReadFailed string | ConfigBad config_err

definition ParseWithBytes :: "('w, 'x) hub_env \<Rightarrow> bytes \<Rightarrow> 'w \<Rightarrow> ((parse_fail + 'x Config) \<times> 'w) go" where
  "ParseWithBytes H buf w =
     go_bind (clash_Parse (he_config H) (he_url H) (he_yaml H) buf w) (\<lambda>(r, w).
       Inr (case r of Inl e \<Rightarrow> Inl (ConfigBad e) | Inr cfg \<Rightarrow> Inr cfg, w))"

definition ParseWithPath :: "('w, 'x) hub_env \<Rightarrow> string \<Rightarrow> 'w \<Rightarrow> ((parse_fail + 'x Config) \<times> 'w) go" where
  "ParseWithPath H path w =
     (case readConfig H path w of
        Inl e \<Rightarrow> Inr (Inl (ReadFailed e), w)
      | Inr buf \<Rightarrow> ParseWithBytes H buf w)"

text \<open>The options of the command line.\<close>

datatype hub_option = WithExternalUI string | WithExternalController string | WithSecret string

fun apply_option :: "hub_option \<Rightarrow> 'x Config \<Rightarrow> 'x Config" where
  "apply_option (WithExternalUI ui) cfg = cfg\<lparr>cf_General := (cf_General cfg)\<lparr>ge_ExternalUI := ui\<rparr>\<rparr>"
| "apply_option (WithExternalController c) cfg = cfg\<lparr>cf_General := (cf_General cfg)\<lparr>ge_ExternalController := c\<rparr>\<rparr>"
| "apply_option (WithSecret s) cfg = cfg\<lparr>cf_General := (cf_General cfg)\<lparr>ge_Secret := s\<rparr>\<rparr>"

text \<open>The API server, when it is started: its address, the secret and the path of its pages.\<close>

record api_server =
  as_addr :: string
  as_secret :: string
  as_uiPath :: string

text \<open>A second start has no effect: the server is started once, when its address is empty.\<close>

definition api_Start :: "string \<Rightarrow> string \<Rightarrow> api_server \<Rightarrow> api_server" where
  "api_Start addr secret a = (if as_addr a \<noteq> [] then a else a\<lparr>as_addr := addr, as_secret := secret\<rparr>)"

definition hub_Parse ::
  "('w, 'x) hub_env \<Rightarrow> hub_option list \<Rightarrow> ('h, 'x) hub \<Rightarrow> api_server \<Rightarrow> 'w \<Rightarrow>
     ((parse_fail + ('h, 'x) hub \<times> api_server) \<times> 'w) go" where
  "hub_Parse H opts s a w =
     go_bind (ParseWithPath H (he_Path H) w) (\<lambda>(r, w). case r of
       Inl e \<Rightarrow> Inr (Inl e, w)
     | Inr cfg \<Rightarrow>
         (let cfg = fold apply_option opts cfg; g = cf_General cfg;
              a = (if ge_ExternalUI g \<noteq> [] then a\<lparr>as_uiPath := ce_resolve (he_config H) (ge_ExternalUI g)\<rparr> else a);
              a = (if ge_ExternalController g \<noteq> [] then api_Start (ge_ExternalController g) (ge_Secret g) a else a)
          in case ApplyConfig H cfg True (s, w) of (s, w) \<Rightarrow> Inr (Inr (s, a), w)))"

section \<open>The REST API\<close>

text \<open>What a request shows of itself to the check of the secret.\<close>

record credentials =
  rq_websocket :: bool
  rq_token :: string
  rq_Authorization :: string

definition authentication :: "string \<Rightarrow> credentials \<Rightarrow> bool" where
  "authentication serverSecret r =
     (if serverSecret = [] then True
      else if rq_websocket r \<and> rq_token r \<noteq> [] then rq_token r = serverSecret
      else
        let text = splitn2 (CHR '' '') (rq_Authorization r);
            hasInvalidHeader = hd text \<noteq> ''Bearer'';
            hasInvalidSecret = length text \<noteq> 2 \<or> text ! 1 \<noteq> serverSecret
        in \<not> (hasInvalidHeader \<or> hasInvalidSecret))"

record configSchema =
  ch_Port :: "int option"
  ch_SocksPort :: "int option"
  ch_RedirPort :: "int option"
  ch_TProxyPort :: "int option"
  ch_MixedPort :: "int option"
  ch_AllowLan :: "bool option"
  ch_BindAddress :: "string option"
  ch_Mode :: "TunnelMode option"
  ch_LogLevel :: "LogLevel option"
  ch_IPv6 :: "bool option"

text \<open>\<open>GetGeneral\<close>: what is in effect now.\<close>

record general_view =
  gw_ports :: Ports
  gw_Authentication :: "string list"
  gw_AllowLan :: bool
  gw_BindAddress :: string
  gw_Mode :: TunnelMode
  gw_LogLevel :: LogLevel
  gw_IPv6 :: bool

definition GetGeneral :: "('h, 'x) hub \<Rightarrow> general_view" where
  "GetGeneral s =
     \<lparr>gw_ports = GetPorts (hb_listeners s),
      gw_Authentication = (case hb_users s of None \<Rightarrow> [] | Some au \<Rightarrow> am_usernames au),
      gw_AllowLan = lt_allowLan (hb_listeners s), gw_BindAddress = lt_bindAddress (hb_listeners s),
      gw_Mode = tn_mode (hb_tunnel s), gw_LogLevel = hb_LogLevel s, gw_IPv6 = (\<not> hb_DisableIPv6 s)\<rparr>"

text \<open>
  The requests that ask for or change this state.  A body is \<open>None\<close> when it does not decode;
  \<open>PutConfigs\<close> has the query \<open>force\<close>, the path and the payload.
\<close>

datatype api_request =
    GetHello
  | GetConfigs
  | PutConfigs string "(string \<times> string) option"
  | PatchConfigs "configSchema option"
  | GetProxies
  | GetProxy string
  | PutProxy string "string option"
  | GetRules
  | GetProviders
  | GetProvider string
  | PutProvider string

datatype 'x api_reply =
    Hello
  | NoContent
  | Unauthorized
  | NotFound
  | BodyInvalid
  | BadRequest string
  | ParseFailed parse_fail
  | Unavailable "list_err fetch_err"
  | Configs general_view
  | Proxies "'x proxies" "string \<rightharpoonup> string"
  | ProxyShown "'x proxy" "string option"
  | Rules "(string \<times> string \<times> string) list"
  | Providers "'x providers"
  | ProviderShown "'x provider"

definition pointerOrDefault :: "int option \<Rightarrow> int \<Rightarrow> int" where
  "pointerOrDefault p d = (case p of None \<Rightarrow> d | Some i \<Rightarrow> i)"

definition patchConfigs :: "('w, 'x) hub_env \<Rightarrow> configSchema \<Rightarrow> ('h, 'x) hub \<Rightarrow> ('h, 'x) hub" where
  "patchConfigs H general s =
     (let L = hb_listeners s;
          L = (case ch_AllowLan general of None \<Rightarrow> L | Some b \<Rightarrow> L\<lparr>lt_allowLan := b\<rparr>);
          L = (case ch_BindAddress general of None \<Rightarrow> L | Some h \<Rightarrow> L\<lparr>lt_bindAddress := h\<rparr>);
          ports = GetPorts L;
          L = recreate H HttpK (pointerOrDefault (ch_Port general) (po_Port ports)) L;
          L = recreate H SocksK (pointerOrDefault (ch_SocksPort general) (po_SocksPort ports)) L;
          L = recreate H RedirK (pointerOrDefault (ch_RedirPort general) (po_RedirPort ports)) L;
          L = recreate H TproxyK (pointerOrDefault (ch_TProxyPort general) (po_TProxyPort ports)) L;
          L = recreate H MixedK (pointerOrDefault (ch_MixedPort general) (po_MixedPort ports)) L;
          s = s\<lparr>hb_listeners := L\<rparr>;
          s = (case ch_Mode general of None \<Rightarrow> s | Some m \<Rightarrow> s\<lparr>hb_tunnel := (hb_tunnel s)\<lparr>tn_mode := m\<rparr>\<rparr>);
          s = (case ch_LogLevel general of None \<Rightarrow> s | Some l \<Rightarrow> s\<lparr>hb_LogLevel := l\<rparr>)
      in case ch_IPv6 general of None \<Rightarrow> s | Some b \<Rightarrow> s\<lparr>hb_DisableIPv6 := \<not> b\<rparr>)"

definition updateConfigs ::
  "('w, 'x) hub_env \<Rightarrow> string \<Rightarrow> string \<Rightarrow> string \<Rightarrow> ('h, 'x) hub \<times> 'w \<Rightarrow> ('x api_reply \<times> ('h, 'x) hub \<times> 'w) go" where
  "updateConfigs H force path payload sw =
     (case sw of (s, w) \<Rightarrow>
      let apply = (\<lambda>(r, w). case r of
              Inl e \<Rightarrow> Inr (ParseFailed e, s, w)
            | Inr cfg \<Rightarrow> Inr (NoContent, ApplyConfig H cfg (force = ''true'') (s, w))) in
      if payload \<noteq> [] then go_bind (ParseWithBytes H (bytes_of payload) w) apply
      else
        let path = (if path = [] then he_Path H else path) in
        if \<not> has_prefix path ''/'' then Inr (BadRequest ''path is not a absolute path'', s, w)
        else go_bind (ParseWithPath H path w) apply)"

definition updateProxy :: "('w, 'x) hub_env \<Rightarrow> string \<Rightarrow> 'x proxy \<Rightarrow> string \<Rightarrow> ('h, 'x) hub \<Rightarrow> 'x api_reply \<times> ('h, 'x) hub" where
  "updateProxy H name proxy choice s =
     (let nm = ce_name (he_config H) in
      if made_choice proxy = None then (BadRequest ''Must be a Selector'', s)
      else case set_choice nm proxy name choice s of
        (Some e, s) \<Rightarrow> (BadRequest (''Selector update error: '' @ e), s)
      | (None, s) \<Rightarrow>
          (NoContent, s\<lparr>hb_cache := SetSelected (hb_StoreSelected s) (proxy_Name nm proxy) choice (hb_cache s)\<rparr>))"

text \<open>A provider made of a list updates to itself.\<close>

definition updateProvider ::
  "('w, 'x) hub_env \<Rightarrow> string \<Rightarrow> 'x provider \<Rightarrow> ('h, 'x) hub \<times> 'w \<Rightarrow> ('x api_reply \<times> ('h, 'x) hub \<times> 'w) go" where
  "updateProvider H name provider sw =
     (let E = he_config H in
      case provider of
        CompatibleP n ps hc \<Rightarrow> Inr (NoContent, sw)
      | SetP f ps hc \<Rightarrow>
          go_bind (provider_Update (ce_disk E) (proxiesParse (ce_yaml E) (ce_new E)) (\<lambda>xs _. map POut xs) (ps, f, snd sw))
            (\<lambda>(e, ps, f, w).
               let s = (fst sw)\<lparr>hb_providers := (hb_providers (fst sw))(name \<mapsto> SetP f ps hc)\<rparr> in
               Inr (case e of None \<Rightarrow> NoContent | Some e \<Rightarrow> Unavailable e, s, w)))"

definition getRules :: "('h, 'x) hub \<Rightarrow> (string \<times> string \<times> string) list" where
  "getRules s = map (\<lambda>r. (RuleType_String (Rule_Type r), Rule_Payload r, Rule_Adapter r)) (tn_rules (hb_tunnel s))"

definition route :: "('w, 'x) hub_env \<Rightarrow> api_request \<Rightarrow> ('h, 'x) hub \<times> 'w \<Rightarrow> ('x api_reply \<times> ('h, 'x) hub \<times> 'w) go" where
  "route H r sw =
     (let s = fst sw; w = snd sw;
          on_proxy = (\<lambda>name f. case tn_proxies (hb_tunnel s) name of None \<Rightarrow> Inr (NotFound, sw) | Some proxy \<Rightarrow> f proxy);
          on_provider = (\<lambda>name f. case hb_providers s name of None \<Rightarrow> Inr (NotFound, sw) | Some provider \<Rightarrow> f provider) in
      case r of
        GetHello \<Rightarrow> Inr (Hello, sw)
      | GetConfigs \<Rightarrow> Inr (Configs (GetGeneral s), sw)
      | PutConfigs force None \<Rightarrow> Inr (BodyInvalid, sw)
      | PutConfigs force (Some (path, payload)) \<Rightarrow> updateConfigs H force path payload sw
      | PatchConfigs None \<Rightarrow> Inr (BodyInvalid, sw)
      | PatchConfigs (Some general) \<Rightarrow> Inr (NoContent, patchConfigs H general s, w)
      | GetProxies \<Rightarrow> Inr (Proxies (tn_proxies (hb_tunnel s)) (hb_selected s), sw)
      | GetProxy name \<Rightarrow> on_proxy name (\<lambda>proxy. Inr (ProxyShown proxy (hb_selected s name), sw))
      | PutProxy name None \<Rightarrow> on_proxy name (\<lambda>proxy. Inr (BodyInvalid, sw))
      | PutProxy name (Some choice) \<Rightarrow>
          on_proxy name (\<lambda>proxy. case updateProxy H name proxy choice s of (reply, s) \<Rightarrow> Inr (reply, s, w))
      | GetRules \<Rightarrow> Inr (Rules (getRules s), sw)
      | GetProviders \<Rightarrow> Inr (Providers (hb_providers s), sw)
      | GetProvider name \<Rightarrow> on_provider name (\<lambda>p. Inr (ProviderShown p, sw))
      | PutProvider name \<Rightarrow> on_provider name (\<lambda>p. updateProvider H name p sw))"

definition serve_api ::
  "('w, 'x) hub_env \<Rightarrow> string \<Rightarrow> credentials \<Rightarrow> api_request \<Rightarrow> ('h, 'x) hub \<times> 'w \<Rightarrow> ('x api_reply \<times> ('h, 'x) hub \<times> 'w) go" where
  "serve_api H secret cr r sw = (if authentication secret cr then route H r sw else Inr (Unauthorized, sw))"

section \<open>The secret\<close>

lemma bearer_split:
  "(hd (splitn2 (CHR '' '') h) = ''Bearer'' \<and> length (splitn2 (CHR '' '') h) = 2 \<and> splitn2 (CHR '' '') h ! 1 = secret) \<longleftrightarrow>
     h = ''Bearer '' @ secret"
proof (cases "index_byte h (CHR '' '')")
  case None
  have n: "CHR '' '' \<notin> set h" using None by simp
  have "splitn2 (CHR '' '') h = [h]" by (simp only: splitn2_def None option.case)
  with n show ?thesis by auto
next
  case (Some i)
  then have h: "h = take i h @ CHR '' '' # drop (Suc i) h" by (metis id_take_nth_drop index_byte_Some)
  show ?thesis
  proof
    assume "hd (splitn2 (CHR '' '') h) = ''Bearer'' \<and> length (splitn2 (CHR '' '') h) = 2 \<and> splitn2 (CHR '' '') h ! 1 = secret"
    then have "take i h = ''Bearer''" "drop (Suc i) h = secret" by (simp_all add: splitn2_def Some)
    with h show "h = ''Bearer '' @ secret" by simp
  next
    assume "h = ''Bearer '' @ secret"
    then show "hd (splitn2 (CHR '' '') h) = ''Bearer'' \<and> length (splitn2 (CHR '' '') h) = 2 \<and> splitn2 (CHR '' '') h ! 1 = secret"
      by (simp add: splitn2_def)
  qed
qed

text \<open>
  C31. A request is served exactly when no secret is set, or it is a websocket request whose
  token is the secret, or, having no token or not being one, it carries the secret as its bearer
  token; otherwise the answer is \<open>Unauthorized\<close> and nothing is changed.
\<close>

theorem api_requires_secret:
  "serve_api H secret cr r sw =
    (if secret = [] \<or> (if rq_websocket cr \<and> rq_token cr \<noteq> [] then rq_token cr = secret else rq_Authorization cr = ''Bearer '' @ secret)
     then route H r sw else Inr (Unauthorized, sw))"
proof -
  have "authentication secret cr \<longleftrightarrow> secret = [] \<or>
    (if rq_websocket cr \<and> rq_token cr \<noteq> [] then rq_token cr = secret else rq_Authorization cr = ''Bearer '' @ secret)"
    using bearer_split [of "rq_Authorization cr" secret] by (simp add: authentication_def Let_def)
  then show ?thesis by (simp add: serve_api_def)
qed

section \<open>What is kept\<close>

definition targets_ok :: "('x \<Rightarrow> string) \<Rightarrow> ('x proxy, 'd) tunnel \<Rightarrow> bool" where
  "targets_ok nm t \<longleftrightarrow> {''DIRECT'', ''GLOBAL''} \<subseteq> dom (tn_proxies t) \<and>
     (\<forall>r \<in> set (tn_rules t). Rule_Adapter r \<in> dom (tn_proxies t)) \<and>
     (\<forall>n p. tn_proxies t n = Some p \<longrightarrow> proxy_Name nm p = n)"

definition choices_ok :: "('h, 'x) hub \<Rightarrow> bool" where
  "choices_ok s \<longleftrightarrow> (\<forall>n. hb_selected s n \<noteq> None \<longleftrightarrow> (\<exists>p. tn_proxies (hb_tunnel s) n = Some p \<and> made_choice p \<noteq> None))"

definition hub_ok :: "('x \<Rightarrow> string) \<Rightarrow> ('h, 'x) hub \<Rightarrow> bool" where
  "hub_ok nm s \<longleftrightarrow> targets_ok nm (hb_tunnel s) \<and> choices_ok s \<and> listeners_ok (hb_listeners s)"

text \<open>The program before its configuration is applied.\<close>

definition hub_init :: "CacheFile \<Rightarrow> ('h, 'x) hub" where
  "hub_init cache =
     \<lparr>hb_tunnel = \<lparr>tn_rules = [], tn_proxies = Map.empty, tn_mode = Rule, tn_processCache = processCache, tn_mapper = None\<rparr>,
      hb_providers = Map.empty, hb_selected = Map.empty, hb_users = None, hb_listeners = listeners_init, hb_resolver = None,
      hb_hosts = trie_New, hb_DisableIPv6 = True, hb_LogLevel = INFO, hb_Interface = [], hb_StoreSelected = True, hb_cache = cache,
      hb_dns = \<lparr>ds_address = [], ds_serving = False\<rparr>\<rparr>"

lemma updateUsers_simps [simp]:
  "hb_tunnel (updateUsers H us s) = hb_tunnel s" "hb_listeners (updateUsers H us s) = hb_listeners s"
  "hb_selected (updateUsers H us s) = hb_selected s" "hb_providers (updateUsers H us s) = hb_providers s"
  "hb_cache (updateUsers H us s) = hb_cache s"
  by (simp_all add: updateUsers_def)

lemma updateProfile_simps [simp]:
  "hb_tunnel (updateProfile nm c s) = hb_tunnel s" "hb_listeners (updateProfile nm c s) = hb_listeners s"
  "hb_cache (updateProfile nm c s) = hb_cache s"
  by (auto simp: updateProfile_def patchSelectGroup_def Let_def split: option.splits)

lemma updateDNS_simps [simp]:
  "hb_listeners (fst (updateDNS H c sw)) = hb_listeners (fst sw)"
  "hb_selected (fst (updateDNS H c sw)) = hb_selected (fst sw)"
  "tn_proxies (hb_tunnel (fst (updateDNS H c sw))) = tn_proxies (hb_tunnel (fst sw))"
  "tn_rules (hb_tunnel (fst (updateDNS H c sw))) = tn_rules (hb_tunnel (fst sw))"
  by (auto simp: updateDNS_def Let_def split: prod.splits option.splits)

lemma updateGeneral_simps [simp]:
  "hb_selected (updateGeneral H g force s) = hb_selected s"
  "tn_proxies (hb_tunnel (updateGeneral H g force s)) = tn_proxies (hb_tunnel s)"
  "tn_rules (hb_tunnel (updateGeneral H g force s)) = tn_rules (hb_tunnel s)"
  by (simp_all add: updateGeneral_def Let_def)

text \<open>The listeners after a change of their settings, and after one of their ports.\<close>

lemma listeners_ok_settings:
  "listeners_ok (S\<lparr>lt_allowLan := b\<rparr>) = listeners_ok S" "listeners_ok (S\<lparr>lt_bindAddress := h\<rparr>) = listeners_ok S"
  by (simp_all add: listeners_ok_def)

lemma recreate_ok: "nv_sockopt (he_net H) = (\<lambda>_. None) \<Longrightarrow> listeners_ok L \<Longrightarrow> listeners_ok (recreate H k port L)"
  using ReCreate_keeps [of L "he_net H" k port] by (simp add: recreate_def)

lemma updateGeneral_listeners:
  "nv_sockopt (he_net H) = (\<lambda>_. None) \<Longrightarrow> listeners_ok (hb_listeners s) \<Longrightarrow> listeners_ok (hb_listeners (updateGeneral H g force s))"
  by (simp add: updateGeneral_def Let_def recreate_ok listeners_ok_settings)

lemma patchConfigs_listeners:
  "nv_sockopt (he_net H) = (\<lambda>_. None) \<Longrightarrow> listeners_ok (hb_listeners s) \<Longrightarrow> listeners_ok (hb_listeners (patchConfigs H g s))"
  by (simp add: patchConfigs_def Let_def recreate_ok listeners_ok_settings split: option.split)

lemma choices_after_profile:
  "choices_ok s \<Longrightarrow> choices_ok (updateProfile nm c s)"
  by (auto simp: updateProfile_def patchSelectGroup_def patched_choice_def set_choice_def choices_ok_def Let_def split: option.splits)

lemma choices_ok_cong:
  "choices_ok s \<Longrightarrow> hb_selected t = hb_selected s \<Longrightarrow> tn_proxies (hb_tunnel t) = tn_proxies (hb_tunnel s) \<Longrightarrow> choices_ok t"
  by (simp add: choices_ok_def)

text \<open>A configuration that can be applied.\<close>

definition config_ok :: "('x \<Rightarrow> string) \<Rightarrow> 'x Config \<Rightarrow> bool" where
  "config_ok nm c \<longleftrightarrow> targets_ok nm \<lparr>tn_rules = cf_Rules c, tn_proxies = cf_Proxies c, tn_mode = Rule, tn_processCache = processCache,
     tn_mapper = (None :: unit ResolverEnhancer option)\<rparr>"

lemma targets_ok_config:
  "config_ok nm c \<Longrightarrow> tn_proxies t = cf_Proxies c \<Longrightarrow> tn_rules t = cf_Rules c \<Longrightarrow> targets_ok nm t"
  by (simp add: config_ok_def targets_ok_def)

lemma ApplyConfig_parts:
  "tn_proxies (hb_tunnel (fst (ApplyConfig H c force sw))) = cf_Proxies c"
  "tn_rules (hb_tunnel (fst (ApplyConfig H c force sw))) = cf_Rules c"
  by (simp_all add: ApplyConfig_def Let_def updateRules_def updateHosts_def updateProxies_def split: prod.split)

lemma ApplyConfig_ok:
  assumes "config_ok nm c" "listeners_ok (hb_listeners (fst sw))" "nv_sockopt (he_net H) = (\<lambda>_. None)"
  shows "hub_ok nm (fst (ApplyConfig H c force sw))"
proof -
  obtain s w where sw: "sw = (s, w)" by fastforce
  let ?a = "updateHosts (cf_Hosts c) (updateRules (cf_Rules c) (updateProxies (cf_Proxies c) (cf_Providers c) (updateUsers H (cf_Users c) s)))"
  let ?b = "updateGeneral H (cf_General c) force (updateProfile (ce_name (he_config H)) c ?a)"
  have a: "choices_ok ?a" by (auto simp: choices_ok_def updateHosts_def updateRules_def updateProxies_def split: option.split)
  have t: "fst (ApplyConfig H c force sw) = fst (updateDNS H (cf_DNS c) (?b, w))" by (simp add: ApplyConfig_def sw Let_def)
  have "choices_ok ?b" by (rule choices_ok_cong [OF choices_after_profile [OF a, of "ce_name (he_config H)" c]]) simp_all
  then have "choices_ok (fst (updateDNS H (cf_DNS c) (?b, w)))" by (rule choices_ok_cong) simp_all
  moreover have "listeners_ok (hb_listeners ?a)" using assms(2) by (simp add: sw updateHosts_def updateRules_def updateProxies_def)
  then have "listeners_ok (hb_listeners ?b)" by (intro updateGeneral_listeners [OF assms(3)]) simp
  ultimately show ?thesis
    using targets_ok_config [OF assms(1) ApplyConfig_parts(1) [of H c force sw] ApplyConfig_parts(2) [of H c force sw]]
    by (simp add: hub_ok_def t)
qed

lemma parsed_config_ok:
  assumes "permutes_names (ce_order (he_config H))" "ParseWithBytes H buf w = Inr (Inr c, w')"
  shows "config_ok (ce_name (he_config H)) c"
proof -
  from assms(2) obtain r where r: "clash_Parse (he_config H) (he_url H) (he_yaml H) buf w = Inr (r, w')"
    "Inr c = (case r of Inl e \<Rightarrow> Inl (ConfigBad e) | Inr cfg \<Rightarrow> Inr cfg)"
    by (auto simp: ParseWithBytes_def go_bind_Inr)
  from r(2) have "r = Inr c" by (cases r) simp_all
  with r(1) obtain raw where "ParseRawConfig (he_config H) (he_url H) raw w = Inr (Inr c, w')"
    by (cases "he_yaml H buf default_raw") (auto simp: clash_Parse_def)
  from config_named [OF assms(1) this] show ?thesis by (auto simp: config_ok_def targets_ok_def)
qed

lemma path_config_ok:
  assumes "permutes_names (ce_order (he_config H))" "ParseWithPath H path w = Inr (Inr c, w')"
  shows "config_ok (ce_name (he_config H)) c"
  using assms(2) parsed_config_ok [OF assms(1)] by (auto simp: ParseWithPath_def split: sum.splits)

lemma options_keep:
  "cf_Proxies (fold apply_option opts c) = cf_Proxies c" "cf_Rules (fold apply_option opts c) = cf_Rules c"
proof (induction opts arbitrary: c)
  case (Cons x xs)
  { case 1 show ?case using Cons(1) by (cases x) simp_all }
  { case 2 show ?case using Cons(2) by (cases x) simp_all }
qed simp_all

lemma patchConfigs_simps [simp]:
  "hb_selected (patchConfigs H g s) = hb_selected s"
  "tn_proxies (hb_tunnel (patchConfigs H g s)) = tn_proxies (hb_tunnel s)"
  "tn_rules (hb_tunnel (patchConfigs H g s)) = tn_rules (hb_tunnel s)"
  by (simp_all add: patchConfigs_def Let_def split: option.split)

lemma hub_ok_cong:
  "hub_ok nm s \<Longrightarrow> hb_selected t = hb_selected s \<Longrightarrow> tn_proxies (hb_tunnel t) = tn_proxies (hb_tunnel s) \<Longrightarrow>
     tn_rules (hb_tunnel t) = tn_rules (hb_tunnel s) \<Longrightarrow> listeners_ok (hb_listeners t) \<Longrightarrow> hub_ok nm t"
  by (simp add: hub_ok_def targets_ok_def choices_ok_def)

lemma updateProxy_ok:
  assumes "hub_ok nm s" "tn_proxies (hb_tunnel s) name = Some proxy" "updateProxy H name proxy choice s = (reply, t)"
  shows "hub_ok nm t"
proof (cases "made_choice proxy = None \<or> \<not> list_ex (\<lambda>p. proxy_Name (ce_name (he_config H)) p = choice) (group_members (hb_providers s) proxy)")
  case False
  with assms(3) have t: "t = s\<lparr>hb_selected := (hb_selected s)(name \<mapsto> choice),
    hb_cache := SetSelected (hb_StoreSelected s) (proxy_Name (ce_name (he_config H)) proxy) choice (hb_cache s)\<rparr>"
    by (auto simp: updateProxy_def set_choice_def Let_def)
  from assms(1) have "choices_ok s" by (simp add: hub_ok_def)
  then have "choices_ok t" using assms(2) False unfolding choices_ok_def t by simp
  with assms(1) show ?thesis by (simp add: hub_ok_def t)
next
  case True
  then have "t = s" using assms(3) by (auto simp: updateProxy_def set_choice_def Let_def split: if_splits)
  with assms(1) show ?thesis by simp
qed

lemma updateProvider_simps:
  assumes "updateProvider H name p (s, w) = Inr (reply, t, w')"
  shows "hb_tunnel t = hb_tunnel s \<and> hb_selected t = hb_selected s \<and> hb_listeners t = hb_listeners s"
proof (cases p)
  case (SetP f ps hc)
  with assms obtain q where
    "provider_Update (ce_disk (he_config H)) (proxiesParse (ce_yaml (he_config H)) (ce_new (he_config H))) (\<lambda>xs _. map POut xs) (ps, f, w) = Inr q"
    "(case q of (e, ps, f, w) \<Rightarrow> Inr (case e of None \<Rightarrow> NoContent | Some e \<Rightarrow> Unavailable e,
        s\<lparr>hb_providers := (hb_providers s)(name \<mapsto> SetP f ps hc)\<rparr>, w)) = (Inr (reply, t, w') :: _ go)"
    by (auto simp: updateProvider_def Let_def go_bind_Inr)
  then show ?thesis by (cases q) auto
qed (use assms in \<open>simp add: updateProvider_def\<close>)

lemma updateConfigs_ok:
  assumes "permutes_names (ce_order (he_config H))" "nv_sockopt (he_net H) = (\<lambda>_. None)" "hub_ok (ce_name (he_config H)) s"
    "updateConfigs H force path payload (s, w) = Inr (reply, t, w')"
  shows "hub_ok (ce_name (he_config H)) t"
proof -
  have done_ok: "hub_ok (ce_name (he_config H)) t"
    if "(case r of (r, w) \<Rightarrow> case r of Inl e \<Rightarrow> Inr (ParseFailed e, s, w)
          | Inr cfg \<Rightarrow> Inr (NoContent, ApplyConfig H cfg (force = ''true'') (s, w))) = (Inr (reply, t, w') :: _ go)"
      "\<And>c. fst r = Inr c \<Longrightarrow> config_ok (ce_name (he_config H)) c" for r
  proof (cases "fst r")
    case (Inr c)
    with that(1) have "t = fst (ApplyConfig H c (force = ''true'') (s, snd r))" by (cases r) (auto simp: prod_eq_iff)
    moreover have "listeners_ok (hb_listeners (fst (s, snd r)))" using assms(3) by (simp add: hub_ok_def)
    ultimately show ?thesis by (simp only: ApplyConfig_ok [OF that(2) [OF Inr] _ assms(2)])
  qed (use that assms(3) in \<open>auto simp: split_def\<close>)
  show ?thesis
  proof (cases "payload = []")
    case False
    with assms(4) obtain r where r: "ParseWithBytes H (bytes_of payload) w = Inr r"
      "(case r of (r, w) \<Rightarrow> case r of Inl e \<Rightarrow> Inr (ParseFailed e, s, w)
          | Inr cfg \<Rightarrow> Inr (NoContent, ApplyConfig H cfg (force = ''true'') (s, w))) = (Inr (reply, t, w') :: _ go)"
      by (auto simp: updateConfigs_def Let_def go_bind_Inr)
    show ?thesis
      proof (rule done_ok [OF r(2)])
        fix c assume "fst r = Inr c"
        with r(1) have "ParseWithBytes H (bytes_of payload) w = Inr (Inr c, snd r)" by (cases r) simp
        then show "config_ok (ce_name (he_config H)) c" by (rule parsed_config_ok [OF assms(1)])
      qed
  next
    case True
    let ?p = "if path = [] then he_Path H else path"
    show ?thesis
    proof (cases "has_prefix ?p ''/''")
      case False
      with True assms(3,4) show ?thesis by (simp add: updateConfigs_def Let_def)
    next
      case p: True
      with True assms(4) obtain r where r: "ParseWithPath H ?p w = Inr r"
        "(case r of (r, w) \<Rightarrow> case r of Inl e \<Rightarrow> Inr (ParseFailed e, s, w)
            | Inr cfg \<Rightarrow> Inr (NoContent, ApplyConfig H cfg (force = ''true'') (s, w))) = (Inr (reply, t, w') :: _ go)"
        by (auto simp: updateConfigs_def Let_def go_bind_Inr)
      show ?thesis
      proof (rule done_ok [OF r(2)])
        fix c assume "fst r = Inr c"
        with r(1) have "ParseWithPath H ?p w = Inr (Inr c, snd r)" by (cases r) simp
        then show "config_ok (ce_name (he_config H)) c" by (rule path_config_ok [OF assms(1)])
      qed
    qed
  qed
qed

lemma route_ok:
  assumes "permutes_names (ce_order (he_config H))" "nv_sockopt (he_net H) = (\<lambda>_. None)" "hub_ok (ce_name (he_config H)) s"
    "route H r (s, w) = Inr (reply, t, w')"
  shows "hub_ok (ce_name (he_config H)) t"
proof (cases r)
  case (PutConfigs force body)
  then show ?thesis
  proof (cases body)
    case (Some pp)
    then show ?thesis using assms(4) PutConfigs updateConfigs_ok [OF assms(1-3)] by (cases pp) (simp add: route_def)
  qed (use PutConfigs assms in \<open>simp add: route_def\<close>)
next
  case (PatchConfigs body)
  then show ?thesis
  proof (cases body)
    case (Some g)
    with PatchConfigs assms(4) have t: "t = patchConfigs H g s" by (simp add: route_def Let_def)
    have "listeners_ok (hb_listeners s)" using assms(3) by (simp add: hub_ok_def)
    then show ?thesis unfolding t by (intro hub_ok_cong [OF assms(3)] patchConfigs_listeners [OF assms(2)]) simp_all
  qed (use PatchConfigs assms in \<open>simp add: route_def\<close>)
next
  case (PutProxy name body)
  then show ?thesis
  proof (cases "tn_proxies (hb_tunnel s) name")
    case (Some p)
    then show ?thesis using PutProxy assms(3,4) updateProxy_ok [OF assms(3) Some]
      by (cases body) (auto simp: route_def Let_def split: prod.splits)
  qed (use PutProxy assms in \<open>cases body; simp add: route_def\<close>)
next
  case (PutProvider name)
  then show ?thesis
  proof (cases "hb_providers s name")
    case (Some p)
    with PutProvider assms(4) have "updateProvider H name p (s, w) = Inr (reply, t, w')" by (simp add: route_def Let_def)
    from updateProvider_simps [OF this] assms(3) show ?thesis by (simp add: hub_ok_def choices_ok_def)
  qed (use PutProvider assms in \<open>simp add: route_def\<close>)
qed (use assms(3,4) in \<open>auto simp: route_def Let_def split: option.splits\<close>)

section \<open>Every state the program reaches\<close>

text \<open>
  The program starts with the configuration of its path, then serves requests and connections,
  each in any world; the DNS server and the connections may change what they have of the resolver
  and the host mapper.
\<close>

inductive hub_reachable :: "('w, 'x) hub_env \<Rightarrow> ('w, 'x proxy, 'conn) tunnel_env \<Rightarrow> ('h, 'x) hub \<Rightarrow> bool" for H N where
  reach_start: "hub_Parse H opts (hub_init cache) a w = Inr (Inr (s, a'), w') \<Longrightarrow> hub_reachable H N s"
| reach_api: "hub_reachable H N s \<Longrightarrow> serve_api H secret cr r (s, w) = Inr (reply, s', w') \<Longrightarrow> hub_reachable H N s'"
| reach_conn: "hub_reachable H N s \<Longrightarrow> handleTCPConn (N\<lparr>te_hosts := hb_hosts s\<rparr>) m (hb_tunnel s) w = (res, t, w') \<Longrightarrow> hub_reachable H N (s\<lparr>hb_tunnel := t\<rparr>)"
| reach_dns: "hub_reachable H N s \<Longrightarrow> hub_reachable H N (s\<lparr>hb_resolver := r, hb_tunnel := (hb_tunnel s)\<lparr>tn_mapper := mp\<rparr>\<rparr>)"

lemma tunnel_kept:
  "preHandleMetadata env now m t = Inr (e, m', t') \<Longrightarrow> tn_proxies t' = tn_proxies t \<and> tn_rules t' = tn_rules t \<and> tn_mode t' = tn_mode t"
  by (auto simp: preHandleMetadata_def Let_def tn_FindHostByIP_def go_bind_Inr split: if_splits option.splits)

lemma resolve_kept:
  "resolveMetadata env m t w = (res, m', t', w') \<Longrightarrow> tn_proxies t' = tn_proxies t \<and> tn_rules t' = tn_rules t \<and> tn_mode t' = tn_mode t"
  by (auto simp: resolveMetadata_def tn_match_def Let_def split: TunnelMode.splits prod.splits option.splits)

lemma handleTCPConn_kept:
  assumes "handleTCPConn env m t w = (res, t', w')"
  shows "tn_proxies t' = tn_proxies t \<and> tn_rules t' = tn_rules t \<and> tn_mode t' = tn_mode t"
proof (cases "preHandleMetadata env (te_now env w) m t")
  case (Inl pn)
  with assms show ?thesis by (auto simp: handleTCPConn_def split: if_splits)
next
  case (Inr p)
  obtain e m1 t1 where p: "p = (e, m1, t1)" by (cases p)
  note k = tunnel_kept [OF Inr [unfolded p]]
  obtain q rr m2 t2 w2 where r: "resolveMetadata env m1 t1 w = ((q, rr), m2, t2, w2)" by (metis surj_pair)
  note k2 = resolve_kept [OF r]
  show ?thesis using assms k k2
    by (auto simp: handleTCPConn_def Inr p r split: if_splits option.splits prod.splits sum.splits)
qed

text \<open>A rule search always ends with a proxy.\<close>

lemma match_rules_some:
  fixes proxies :: "string \<rightharpoonup> 'p"
  shows "proxies ''DIRECT'' \<noteq> None \<Longrightarrow> fst (fst (match_rules env proxies rs resolved m c w)) \<noteq> None"
  by (induction rs arbitrary: resolved m c w) (simp, auto simp: match_rules.simps split: prod.splits option.splits)

lemma resolveMetadata_some:
  assumes "targets_ok nm t"
  shows "fst (fst (resolveMetadata env m t w)) \<noteq> None"
proof -
  from assms have d: "tn_proxies t ''DIRECT'' \<noteq> None" "tn_proxies t ''GLOBAL'' \<noteq> None" by (auto simp: targets_ok_def)
  have "q \<noteq> None" if "match_rules env (tn_proxies t) rs resolved m c w = ((q, r), x)" for rs resolved m c w q r x
    using match_rules_some [where proxies = "tn_proxies t", OF d(1), of env rs resolved m c w] that by simp
  then have "fst (fst (tn_match env m t w)) \<noteq> None" by (fastforce simp: tn_match_def Let_def split: prod.splits option.splits)
  with d show ?thesis by (auto simp: resolveMetadata_def split: TunnelMode.splits)
qed

lemma hub_reachable_ok:
  assumes "hub_reachable H N s" "permutes_names (ce_order (he_config H))" "nv_sockopt (he_net H) = (\<lambda>_. None)"
  shows "hub_ok (ce_name (he_config H)) s"
  using assms(1)
proof induction
  case (reach_start opts cache a w s a' w')
  then obtain r where r: "ParseWithPath H (he_Path H) w = Inr r"
    "(case r of (r, w) \<Rightarrow> case r of Inl e \<Rightarrow> Inr (Inl e, w) | Inr cfg \<Rightarrow>
       (let cfg = fold apply_option opts cfg; g = cf_General cfg;
            a = (if ge_ExternalUI g \<noteq> [] then a\<lparr>as_uiPath := ce_resolve (he_config H) (ge_ExternalUI g)\<rparr> else a);
            a = (if ge_ExternalController g \<noteq> [] then api_Start (ge_ExternalController g) (ge_Secret g) a else a)
        in case ApplyConfig H cfg True (hub_init cache, w) of (s, w) \<Rightarrow> Inr (Inr (s, a), w))) =
     (Inr (Inr (s, a'), w') :: _ go)"
    by (auto simp: hub_Parse_def go_bind_Inr)
  then obtain c where c: "fst r = Inr c" "s = fst (ApplyConfig H (fold apply_option opts c) True (hub_init cache, snd r))"
    by (cases "fst r") (auto simp: split_def Let_def prod_eq_iff)
  from r(1) c(1) have "ParseWithPath H (he_Path H) w = Inr (Inr c, snd r)" by (cases r) simp
  from path_config_ok [OF assms(2) this] have "config_ok (ce_name (he_config H)) (fold apply_option opts c)"
    by (simp add: config_ok_def options_keep)
  then show ?case unfolding c(2)
    by (rule ApplyConfig_ok [OF _ _ assms(3)]) (simp add: hub_init_def listeners_ok_init)
next
  case (reach_api s secret cr r w reply s' w')
  then show ?case using route_ok [OF assms(2,3)] by (auto simp: serve_api_def split: if_splits)
next
  case (reach_conn s m w res t w')
  from handleTCPConn_kept [OF reach_conn(2)] reach_conn(3) show ?case
    by (intro hub_ok_cong [OF reach_conn(3)]) (simp_all add: hub_ok_def)
next
  case (reach_dns s r mp)
  then show ?case by (intro hub_ok_cong [OF reach_dns(2)]) (simp_all add: hub_ok_def)
qed


section \<open>Stored selections\<close>

lemma applied_choice:
  "hb_selected (fst (ApplyConfig H c force (t, w))) =
     hb_selected (updateProfile (ce_name (he_config H)) c
       (updateHosts (cf_Hosts c) (updateRules (cf_Rules c) (updateProxies (cf_Proxies c) (cf_Providers c) (updateUsers H (cf_Users c) t)))))"
  by (simp add: ApplyConfig_def Let_def)

lemma patched_selector:
  assumes "cf_StoreSelected c" "cf_Proxies c name = Some q" "made_choice q \<noteq> None"
    "choice \<in> proxy_Name (ce_name (he_config H)) ` set (group_members (cf_Providers c) q)"
    "SelectedMap True (hb_cache t) = Some m" "m name = Some choice"
  shows "hb_selected (fst (ApplyConfig H c force (t, w))) name = Some choice"
  using assms unfolding applied_choice
  by (auto simp: updateProfile_def patchSelectGroup_def patched_choice_def set_choice_def Let_def updateHosts_def updateRules_def
      updateProxies_def updateUsers_def list_ex_iff)

text \<open>
  C30. A choice made through the API is stored under the selector's name: whenever a configuration
  is applied with this file, at once or after a restart, in which the name is still a selector
  over a proxy of the name chosen, the selector stands at that proxy.
\<close>

theorem selection_restored:
  assumes "hub_ok (ce_name (he_config H)) s"
    and "route H (PutProxy name (Some choice)) (s, w) = Inr (NoContent, s', w')"
    and "hb_StoreSelected s" "ca_DB (hb_cache s) = Some db" "bo_accepts db bucketSelected (bytes_of name) (bytes_of choice)"
    and "hb_cache t = hb_cache s'"
    and "cf_StoreSelected c" "cf_Proxies c name = Some q" "made_choice q \<noteq> None"
      "choice \<in> proxy_Name (ce_name (he_config H)) ` set (group_members (cf_Providers c) q)"
  shows "hb_selected s' name = Some choice \<and> hb_selected (fst (ApplyConfig H c force (t, w''))) name = Some choice"
proof -
  from assms(2) obtain p where p: "tn_proxies (hb_tunnel s) name = Some p"
    by (auto simp: route_def Let_def split: option.splits)
  with assms(2) have u: "updateProxy H name p choice s = (NoContent, s')" by (auto simp: route_def Let_def split: prod.splits)
  from assms(1) p have n: "proxy_Name (ce_name (he_config H)) p = name" by (simp add: hub_ok_def targets_ok_def)
  from u have s': "hb_selected s' = (hb_selected s)(name \<mapsto> choice)"
    "hb_cache s' = SetSelected (hb_StoreSelected s) name choice (hb_cache s)"
    by (auto simp: updateProxy_def set_choice_def Let_def n split: if_splits)
  obtain m where "SelectedMap True (hb_cache s) = Some m" using assms(4) by (cases "bo_buckets db bucketSelected") (auto simp: SelectedMap_def)
  then have "SelectedMap True (hb_cache t) = Some (m(name \<mapsto> choice))"
    using SelectedMap_Set(1) [OF assms(4,5)] assms(3,6) s'(2) by simp
  from patched_selector [OF assms(7-10) this, of force w''] s'(1) show ?thesis by simp
qed

section \<open>A small program\<close>

definition demo_hub_env :: "(unit, string) hub_env" where
  "demo_hub_env =
     \<lparr>he_config = demo_env, he_url = demo_url, he_yaml = (\<lambda>b raw. Inr demo_raw), he_net = sys_all,
      he_listen_dns = (\<lambda>a w. (None, w)), he_policy = (\<lambda>m. []), he_NotExist = (\<lambda>p w. False),
      he_ReadFile = (\<lambda>p w. Inr [35]), he_Path = ''/clash/config.yaml''\<rparr>"

definition demo_file :: CacheFile where
  "demo_file = \<lparr>ca_DB = Some \<lparr>bo_buckets = Map.empty, bo_accepts = (\<lambda>b k v. k \<noteq> [])\<rparr>\<rparr>"

lemma demo_hub_assms:
  "permutes_names (ce_order (he_config demo_hub_env))" "nv_sockopt (he_net demo_hub_env) = (\<lambda>_. None)"
  by (simp_all add: demo_hub_env_def demo_env_def permutes_names_id sys_all_def)

definition demo_conn_env :: "(unit, string proxy, unit) tunnel_env" where
  "demo_conn_env =
     \<lparr>te_rules = te_rules demo_tunnel_env, te_hosts = trie_New, te_ResolveIP = (\<lambda>h w. (Inl ''no such host'', w)),
      te_SupportUDP = (\<lambda>p. True), te_DialContext = (\<lambda>p m w. (Inr (), w)), te_now = (\<lambda>w. 0)\<rparr>"

lemma demo_hub_starts:
  "\<exists>s a. hub_Parse demo_hub_env [] (hub_init demo_file) \<lparr>as_addr = [], as_secret = [], as_uiPath = []\<rparr> () = Inr (Inr (s :: (unit, string) hub, a), ()) \<and>
     map Rule_Adapter (tn_rules (hb_tunnel s)) = [''inner'', ''GLOBAL'']"
proof -
  from demo_raw_parsed obtain c where c: "ParseRawConfig demo_env demo_url demo_raw () = Inr (Inr c, ())"
    "map Rule_Adapter (cf_Rules c) = [''inner'', ''GLOBAL'']" by auto
  then have p: "ParseWithPath demo_hub_env (he_Path demo_hub_env) () = Inr (Inr c, ())"
    by (simp add: ParseWithPath_def readConfig_def ParseWithBytes_def clash_Parse_def demo_hub_env_def)
  obtain s where s: "ApplyConfig demo_hub_env c True (hub_init demo_file, ()) = (s :: (unit, string) hub, ())"
    by (metis surj_pair unit.exhaust)
  have "tn_rules (hb_tunnel s) = cf_Rules c"
    using ApplyConfig_parts(2) [of demo_hub_env c True "(hub_init demo_file :: (unit, string) hub, ())"] s by simp
  with p s c(2) show ?thesis by (auto simp: hub_Parse_def Let_def)
qed


text \<open>A configuration of one selector, written out.\<close>

definition demo_config :: "string Config" where
  "demo_config =
     (let hc = \<lparr>hs_url = [], hs_interval = 0, hs_lazy = True\<rparr>;
          opt = \<lparr>go_Name = ''g'', go_Type = ''select'', go_Proxies = [''DIRECT'', ''REJECT''], go_Use = [], go_URL = [], go_Interval = 0,
                 go_Lazy = True, go_DisableUDP = False\<rparr>;
          g = PGroup (KSelect ''DIRECT'') opt [CompatibleP ''g'' [PDirect, PReject] hc];
          all = PGroup (KSelect ''DIRECT'') (opt\<lparr>go_Name := ''GLOBAL''\<rparr>) [CompatibleP ''default'' [PDirect, PReject, g] hc] in
      \<lparr>cf_General = \<lparr>ge_Port = 0, ge_SocksPort = 0, ge_RedirPort = 0, ge_TProxyPort = 0, ge_MixedPort = 0, ge_AllowLan = False,
         ge_BindAddress = ''*'', ge_ExternalController = [], ge_ExternalUI = [], ge_Secret = [], ge_Mode = Rule, ge_LogLevel = INFO,
         ge_IPv6 = False, ge_Interface = []\<rparr>,
       cf_DNS = \<lparr>dc_Enable = False, dc_IPv6 = False, dc_NameServer = [], dc_Fallback = [],
         dc_FallbackFilter = \<lparr>ff_GeoIP = False, ff_GeoIPCode = [], ff_IPCIDR = [], ff_Domain = []\<rparr>, dc_Listen = [],
         dc_EnhancedMode = DNSNormal, dc_DefaultNameserver = [], dc_FakeIPRange = None, dc_Hosts = None, dc_NameServerPolicy = Map.empty\<rparr>,
       cf_Hosts = trie_New, cf_StoreSelected = True, cf_Rules = [MatchRule ''g''], cf_Users = [],
       cf_Proxies = [''DIRECT'' \<mapsto> PDirect, ''REJECT'' \<mapsto> PReject, ''g'' \<mapsto> g, ''GLOBAL'' \<mapsto> all],
       cf_Providers = [''g'' \<mapsto> CompatibleP ''g'' [PDirect, PReject] hc, ''default'' \<mapsto> CompatibleP ''default'' [PDirect, PReject, g] hc]\<rparr>)"

lemma demo_config_ok: "config_ok nm demo_config"
  by (auto simp: config_ok_def targets_ok_def demo_config_def Let_def Rule_Adapter_def split: if_splits)

definition demo_running :: "(unit, string) hub" where
  "demo_running = fst (ApplyConfig demo_hub_env demo_config True (hub_init demo_file, ()))"

lemma demo_running_ok: "hub_ok (ce_name (he_config demo_hub_env)) demo_running"
  unfolding demo_running_def by (rule ApplyConfig_ok [OF demo_config_ok _ demo_hub_assms(2)]) (simp add: hub_init_def listeners_ok_init)

lemma demo_running_parts:
  "tn_proxies (hb_tunnel demo_running) = cf_Proxies demo_config" "hb_providers demo_running = cf_Providers demo_config"
  "hb_StoreSelected demo_running" "hb_cache demo_running = demo_file"
  by (simp_all add: demo_running_def ApplyConfig_parts)
    (simp_all add: ApplyConfig_def demo_config_def Let_def updateDNS_def updateGeneral_def current_cache_def updateProfile_def
      patchSelectGroup_def hub_init_def updateHosts_def updateRules_def updateProxies_def updateUsers_def SelectedMap_def demo_file_def
      split: prod.split)

lemma demo_choice:
  "\<exists>s'. route demo_hub_env (PutProxy ''g'' (Some ''REJECT'')) (demo_running, ()) = Inr (NoContent, s', ())"
proof -
  have "cf_Proxies demo_config ''g'' \<noteq> None" by (simp add: demo_config_def Let_def)
  then show ?thesis
    by (auto simp: route_def Let_def demo_running_parts updateProxy_def set_choice_def live_provider_def demo_config_def)
qed

theorem selection_restored_witness:
  "\<exists>s'. route demo_hub_env (PutProxy ''g'' (Some ''REJECT'')) (demo_running, ()) = Inr (NoContent, s', ()) \<and>
     hb_selected (fst (ApplyConfig demo_hub_env demo_config True ((hub_init (hb_cache s') :: (unit, string) hub), ()))) ''g'' = Some ''REJECT''"
proof -
  from demo_choice obtain s' where s': "route demo_hub_env (PutProxy ''g'' (Some ''REJECT'')) (demo_running, ()) = Inr (NoContent, s', ())" by auto
  obtain q where q: "cf_Proxies demo_config ''g'' = Some q" "made_choice q \<noteq> None"
    "''REJECT'' \<in> proxy_Name (ce_name (he_config demo_hub_env)) ` set (group_members (cf_Providers demo_config) q)"
    by (simp add: demo_config_def Let_def live_provider_def)
  have c: "cf_StoreSelected demo_config" by (simp add: demo_config_def Let_def)
  have d: "ca_DB (hb_cache demo_running) = Some \<lparr>bo_buckets = Map.empty, bo_accepts = (\<lambda>b k v. k \<noteq> [])\<rparr>"
    by (simp add: demo_running_parts demo_file_def)
  have a: "bo_accepts \<lparr>bo_buckets = Map.empty, bo_accepts = (\<lambda>b k v. k \<noteq> [])\<rparr> bucketSelected (bytes_of ''g'') (bytes_of ''REJECT'')"
    by (simp add: bytes_of_def)
  have t: "hb_cache (hub_init (hb_cache s') :: (unit, string) hub) = hb_cache s'" by (simp add: hub_init_def)
  from selection_restored [OF demo_running_ok s' demo_running_parts(3) d a t c q, of True "()"] s' show ?thesis by blast
qed

end
