(* ===== verification/ClashSocks4.thy ===== *)
theory ClashSocks4
  imports ClashSocks
begin

text \<open>
  \<open>transport/socks4/socks4.go\<close>: the handshake of SOCKS4 and 4A from both sides, over the
  connections of \<open>ClashSocks\<close>.  A name travels after an address \<open>0.0.0.x\<close>, which no connection
  asks for; user and name end with a zero byte.
\<close>

section \<open>Parts\<close>

definition CmdConnect :: byte where "CmdConnect = 1"
definition CmdBind :: byte where "CmdBind = 2"

definition RequestGranted :: byte where "RequestGranted = 90"
definition RequestRejected :: byte where "RequestRejected = 91"
definition RequestIdentdFailed :: byte where "RequestIdentdFailed = 92"
definition RequestIdentdMismatched :: byte where "RequestIdentdMismatched = 93"

abbreviation (input) errVersionMismatched :: socks_err where "errVersionMismatched \<equiv> ErrMsg ''version code mismatched''"
abbreviation (input) errCommandNotSupported :: socks_err where "errCommandNotSupported \<equiv> ErrMsg ''command not supported''"
abbreviation (input) errIPv6NotSupported :: socks_err where "errIPv6NotSupported \<equiv> ErrMsg ''IPv6 not supported''"
abbreviation (input) errRequestRejected :: socks_err where "errRequestRejected \<equiv> ErrMsg ''request rejected or failed''"
abbreviation (input) errIdentdFailed :: socks_err where
  "errIdentdFailed \<equiv> ErrMsg ''request rejected because SOCKS server cannot connect to identd on the client''"
abbreviation (input) errIdentdMismatched :: socks_err where
  "errIdentdMismatched \<equiv> ErrMsg ''request rejected because the client program and identd report different user-ids''"
abbreviation (input) errUnknownCode :: socks_err where "errUnknownCode \<equiv> ErrMsg ''request failed with unknown code''"

definition isReservedIP :: "bytes \<Rightarrow> bool" where
  "isReservedIP ip = (ip \<noteq> [0, 0, 0, 0] \<and> take 3 ip = [0, 0, 0])"

fun until_null :: "bytes \<Rightarrow> (bytes \<times> bytes) option" where
  "until_null [] = None"
| "until_null (b # bs) =
     (if b = 0 then Some ([], bs) else case until_null bs of None \<Rightarrow> None | Some (x, r) \<Rightarrow> Some (b # x, r))"

definition readUntilNull :: "bytes sock_io" where
  "readUntilNull c =
     (case until_null (sk_in c) of
        None \<Rightarrow> (Inl ErrRead, c\<lparr>sk_in := []\<rparr>)
      | Some (x, r) \<Rightarrow> (Inr x, c\<lparr>sk_in := r\<rparr>))"

section \<open>Handshakes\<close>

definition s4_ServerHandshake :: "(string \<Rightarrow> string \<Rightarrow> bool) option \<Rightarrow> (string \<times> byte) sock_io" where
  "s4_ServerHandshake authenticator =
     sk_bind (sk_read 8) (\<lambda>req.
       if req ! 0 \<noteq> 4 then sk_fail errVersionMismatched
       else if req ! 1 \<noteq> CmdConnect then sk_fail errCommandNotSupported
       else
         let dstIP = take 4 (drop 4 req); dstPort = take 2 (drop 2 req) in
         sk_bind readUntilNull (\<lambda>userID.
         sk_bind (if isReservedIP dstIP then sk_bind readUntilNull (\<lambda>target. sk_return (string_of target)) else sk_return [])
           (\<lambda>host.
             let port = itoa (port16 (dstPort ! 0) (dstPort ! 1));
                 addr = join_host_port (if host \<noteq> [] then host else ip_string dstIP) port in
             if (case authenticator of None \<Rightarrow> True | Some verify \<Rightarrow> verify (string_of userID) [])
             then sk_bind (sk_write ([0, RequestGranted] @ dstPort @ dstIP)) (\<lambda>_. sk_return (addr, req ! 1))
             else sk_write_fail ([0, RequestIdentdMismatched] @ dstPort @ dstIP) errIdentdMismatched)))"

datatype s4_addr_err = BadAddr addr_err | BadPort

text \<open>The address a request carries, and the port; the error before anything is written.\<close>

definition s4_target :: "string \<Rightarrow> s4_addr_err + string \<times> nat" where
  "s4_target addr =
     (case split_host_port addr of
        Inl e \<Rightarrow> Inl (BadAddr e)
      | Inr (host, portStr) \<Rightarrow> (case parse_uint 16 portStr of Inl e \<Rightarrow> Inl BadPort | Inr port \<Rightarrow> Inr (host, port)))"

definition s4_ip :: "string \<Rightarrow> bytes option" where
  "s4_ip host = (case parse_ip host of None \<Rightarrow> Some [0, 0, 0, 1] | Some ip \<Rightarrow> to4 ip)"

definition s4_request :: "byte \<Rightarrow> nat \<Rightarrow> bytes \<Rightarrow> string \<Rightarrow> string \<Rightarrow> bytes" where
  "s4_request command port dstIP userID host =
     [4, command] @ port_bytes port @ dstIP @ bytes_of userID @ [0] @
     (if isReservedIP dstIP then bytes_of host @ [0] else [])"

definition s4_ClientHandshake :: "string \<Rightarrow> byte \<Rightarrow> string \<Rightarrow> (s4_addr_err + unit) sock_io" where
  "s4_ClientHandshake addr command userID =
     (case s4_target addr of
        Inl e \<Rightarrow> sk_return (Inl e)
      | Inr (host, port) \<Rightarrow>
          (case s4_ip host of
             None \<Rightarrow> sk_fail errIPv6NotSupported
           | Some dstIP \<Rightarrow>
               sk_bind (sk_write (s4_request command port dstIP userID host)) (\<lambda>_.
               sk_bind (sk_read 8) (\<lambda>resp.
                 if resp ! 0 \<noteq> 0 then sk_fail errVersionMismatched
                 else if resp ! 1 = RequestGranted then sk_return (Inr ())
                 else if resp ! 1 = RequestRejected then sk_fail errRequestRejected
                 else if resp ! 1 = RequestIdentdFailed then sk_fail errIdentdFailed
                 else if resp ! 1 = RequestIdentdMismatched then sk_fail errIdentdMismatched
                 else sk_fail errUnknownCode))))"

section \<open>The two sides agree\<close>

lemma until_null_append: "0 \<notin> set x \<Longrightarrow> until_null (x @ 0 # r) = Some (x, r)"
  by (induction x) auto

lemma readUntilNull_run:
  "0 \<notin> set x \<Longrightarrow> readUntilNull \<lparr>sk_in = x @ 0 # r, sk_out = os, sk_room = k\<rparr> = (Inr x, \<lparr>sk_in = r, sk_out = os, sk_room = k\<rparr>)"
  by (simp add: readUntilNull_def until_null_append)

text \<open>A host a request can carry: an IPv4 address, or a name.\<close>

definition s4_host :: "string \<Rightarrow> bool" where
  "s4_host h \<longleftrightarrow> (\<exists>p. length p = 4 \<and> h = v4_string p) \<or>
     (parse_ip h = None \<and> h \<noteq> [] \<and> 0 \<notin> set (bytes_of h) \<and> CHR '':'' \<notin> set h \<and> CHR ''['' \<notin> set h \<and> CHR '']'' \<notin> set h)"

lemma s4_host_target:
  assumes "s4_host h" "n < 65536"
  shows "s4_target (join_host_port h (itoa n)) = Inr (h, n)"
proof -
  have n: "c \<notin> set (itoa n)" if "\<not> is_digit c" for c using that itoa_digits by blast
  have "CHR ''['' \<notin> set h \<and> CHR '']'' \<notin> set h \<and> CHR '':'' \<notin> set h"
    using assms(1) by (auto simp: s4_host_def v4_string_no is_digit_def)
  then have "split_host_port (join_host_port h (itoa n)) = Inr (h, itoa n)"
    by (intro split_join_host_port) (simp_all add: n is_digit_def)
  with assms(2) show ?thesis by (simp add: s4_target_def parse_uint_itoa)
qed

lemma s4_ip_host:
  assumes "s4_host h"
  shows "\<exists>ip. s4_ip h = Some ip \<and> length ip = 4 \<and> (isReservedIP ip \<or> ip_string ip = h) \<and>
    (isReservedIP ip \<longrightarrow> 0 \<notin> set (bytes_of h) \<and> h \<noteq> [])"
  using assms unfolding s4_host_def
proof
  assume "\<exists>p. length p = 4 \<and> h = v4_string p"
  then obtain p where p: "length p = 4" "h = v4_string p" by blast
  moreover have "0 \<notin> set (bytes_of h)"
  proof -
    have "char_of (0 :: nat) \<notin> set h" unfolding p(2) by (rule v4_string_no) (simp_all add: is_digit_def char_of_def bit_simps)
    moreover have "c = char_of (0 :: nat)" if "of_char c = (0 :: byte)" for c
      using string_bytes_roundtrip [of "[c]"] that by (simp add: bytes_of_def string_of_def)
    ultimately show ?thesis by (auto simp: bytes_of_def)
  qed
  moreover have "h \<noteq> []" using p by (auto simp: v4_string_def length_Suc_conv eval_nat_numeral)
  moreover have "p \<noteq> []" using p(1) by auto
  ultimately show ?thesis by (simp add: s4_ip_def parse_ip_v4_string to4_mapped ip_string_def to4_def)
qed (auto simp: s4_ip_def isReservedIP_def)

lemma port16_bytes: "n < 65536 \<Longrightarrow> port16 (of_nat (n div 256)) (of_nat n) = n"
  by (simp add: port16_def unat_of_nat div_mult_mod_eq less_mult_imp_div_less)

lemma socks4_run:
  assumes "s4_host h" "n < 65536" "0 \<notin> set (bytes_of userID)"
    and "granted \<longleftrightarrow> (case authenticator of None \<Rightarrow> True | Some verify \<Rightarrow> verify userID [])"
  shows "\<exists>cout sout.
    s4_ServerHandshake authenticator \<lparr>sk_in = cout @ x, sk_out = [], sk_room = Suc a\<rparr> =
      (if granted then Inr (join_host_port h (itoa n), CmdConnect) else Inl errIdentdMismatched, \<lparr>sk_in = x, sk_out = sout, sk_room = a\<rparr>) \<and>
    s4_ClientHandshake (join_host_port h (itoa n)) CmdConnect userID \<lparr>sk_in = sout @ y, sk_out = [], sk_room = Suc b\<rparr> =
      (if granted then Inr (Inr ()) else Inl errIdentdMismatched, \<lparr>sk_in = y, sk_out = cout, sk_room = b\<rparr>) \<and> hd cout = 4 \<and> cout \<noteq> []"
proof -
  obtain ip where ip: "s4_ip h = Some ip" "length ip = 4" "isReservedIP ip \<or> ip_string ip = h"
    and null: "isReservedIP ip \<Longrightarrow> 0 \<notin> set (bytes_of h) \<and> h \<noteq> []"
    using s4_ip_host [OF assms(1)] by blast
  then obtain i0 i1 i2 i3 where i: "ip = [i0, i1, i2, i3]" by (auto simp: length_Suc_conv eval_nat_numeral)
  obtain p0 p1 where p: "port_bytes n = [p0, p1]" "port16 p0 p1 = n" using port16_bytes [OF assms(2)] by (simp add: port_bytes_def)
  let ?req = "s4_request CmdConnect n ip userID h"
  let ?code = "if granted then RequestGranted else RequestIdentdMismatched"
  let ?res = "[0, ?code, p0, p1, i0, i1, i2, i3]"
  have read8: "sk_read 8 \<lparr>sk_in = a # b # c # d # e # f # g # h # r, sk_out = os, sk_room = k\<rparr> =
      (Inr [a, b, c, d, e, f, g, h], \<lparr>sk_in = r, sk_out = os, sk_room = k\<rparr>)" for a b c d e f g h r os k
    using sk_read_append [of "[a, b, c, d, e, f, g, h]" 8 r os k] by simp
  have "s4_ServerHandshake authenticator \<lparr>sk_in = ?req @ x, sk_out = [], sk_room = Suc a\<rparr> =
      (if granted then Inr (join_host_port h (itoa n), CmdConnect) else Inl errIdentdMismatched, \<lparr>sk_in = x, sk_out = ?res, sk_room = a\<rparr>)"
    using ip(3) null assms(3,4) p
    by (cases "isReservedIP ip"; cases authenticator)
      (auto simp: s4_ServerHandshake_def s4_request_def i read8 CmdConnect_def readUntilNull_run sk_write_ok sk_write_fail_def Let_def)
  moreover have "s4_ClientHandshake (join_host_port h (itoa n)) CmdConnect userID \<lparr>sk_in = ?res @ y, sk_out = [], sk_room = Suc b\<rparr> =
      (if granted then Inr (Inr ()) else Inl errIdentdMismatched, \<lparr>sk_in = y, sk_out = ?req, sk_room = b\<rparr>)"
    by (simp add: s4_ClientHandshake_def s4_host_target [OF assms(1,2)] ip(1) sk_write_ok read8 RequestGranted_def
        RequestIdentdMismatched_def RequestRejected_def RequestIdentdFailed_def sk_fail_def)
  moreover have "hd ?req = 4 \<and> ?req \<noteq> []" by (simp add: s4_request_def)
  ultimately show ?thesis by blast
qed

text \<open>
  A client's CONNECT request and the server understand each other, for IPv4 addresses and for
  names: the server ends with the client's target, the client learns whether its user was
  accepted, and neither reads past the handshake.
\<close>

theorem socks4_agrees:
  assumes "s4_host h" "n < 65536" "0 \<notin> set (bytes_of userID)"
    and "granted \<longleftrightarrow> (case authenticator of None \<Rightarrow> True | Some verify \<Rightarrow> verify userID [])"
  shows "\<exists>cout sout.
    s4_ServerHandshake authenticator \<lparr>sk_in = cout @ x, sk_out = [], sk_room = Suc a\<rparr> =
      (if granted then Inr (join_host_port h (itoa n), CmdConnect) else Inl errIdentdMismatched, \<lparr>sk_in = x, sk_out = sout, sk_room = a\<rparr>) \<and>
    s4_ClientHandshake (join_host_port h (itoa n)) CmdConnect userID \<lparr>sk_in = sout @ y, sk_out = [], sk_room = Suc b\<rparr> =
      (if granted then Inr (Inr ()) else Inl errIdentdMismatched, \<lparr>sk_in = y, sk_out = cout, sk_room = b\<rparr>)"
  using socks4_run [OF assms] by blast

theorem socks4_agrees_witness:
  "\<exists>cout sout.
    s4_ServerHandshake (Some (\<lambda>u p. u = ''me'')) \<lparr>sk_in = cout @ [7], sk_out = [], sk_room = 2\<rparr> =
      (Inr (join_host_port ''host'' (itoa 80), CmdConnect), \<lparr>sk_in = [7], sk_out = sout, sk_room = 1\<rparr>) \<and>
    s4_ClientHandshake (join_host_port ''host'' (itoa 80)) CmdConnect ''me'' \<lparr>sk_in = sout @ [], sk_out = [], sk_room = 2\<rparr> =
      (Inr (Inr ()), \<lparr>sk_in = [], sk_out = cout, sk_room = 1\<rparr>)"
proof -
  have h: "s4_host ''host''" unfolding s4_host_def by (rule disjI2) code_simp
  have n: "0 \<notin> set (bytes_of ''me'')" by (simp add: bytes_of_def)
  from socks4_agrees [OF h _ n, of 80 True "Some (\<lambda>u p. u = ''me'')" "[7]" 1 "[]" 1] show ?thesis by (simp add: numeral_2_eq_2)
qed

end
