(* ===== verification/ClashInbound.thy ===== *)
theory ClashInbound
  imports ClashConstant ClashSocks4
begin

text \<open>
  \<open>listener/socks\<close>, \<open>listener/mixed\<close> and \<open>adapter/inbound\<close>: from the first byte of a
  connection, or a UDP packet, to the metadata that is handed to the tunnel.
\<close>

section \<open>Metadata of a target\<close>

text \<open>Indexing and slicing with the checks of the language.\<close>

definition go_nth :: "bytes \<Rightarrow> nat \<Rightarrow> byte go" where
  "go_nth xs i = (if i < length xs then Inr (xs ! i) else Inl IndexOutOfRange)"

definition go_slice :: "bytes \<Rightarrow> nat \<Rightarrow> nat \<Rightarrow> bytes go" where
  "go_slice xs i j = (if i \<le> j \<and> j \<le> length xs then Inr (take (j - i) (drop i xs)) else Inl IndexOutOfRange)"

definition trim_dots :: "string \<Rightarrow> string" where
  "trim_dots s = rev (dropWhile (\<lambda>c. c = CHR ''.'') (rev s))"

text \<open>
  The bounds of the name are computed with the byte that holds its length, so at the width of
  a byte.
\<close>

definition parseSocksAddr :: "Addr \<Rightarrow> Metadata go" where
  "parseSocksAddr target =
     go_bind (go_nth target 0) (\<lambda>t.
       let m = zero_metadata\<lparr>md_AddrType := uint t\<rparr>;
           fixed = (\<lambda>n. go_bind (go_slice target 1 (1 + n)) (\<lambda>ip.
             go_bind (go_nth target (1 + n)) (\<lambda>hi. go_bind (go_nth target (1 + n + 1)) (\<lambda>lo.
             Inr (m\<lparr>md_DstIP := Some ip, md_DstPort := itoa (port16 hi lo)\<rparr>))))) in
       if t = 3 then
         go_bind (go_nth target 1) (\<lambda>l.
         go_bind (go_slice target 2 (unat (2 + l))) (\<lambda>name.
         go_bind (go_nth target (unat (2 + l))) (\<lambda>hi.
         go_bind (go_nth target (unat (2 + l + 1))) (\<lambda>lo.
         Inr (m\<lparr>md_Host := trim_dots (string_of name), md_DstPort := itoa (port16 hi lo)\<rparr>)))))
       else if t = 1 then fixed 4
       else if t = 4 then fixed 16
       else Inr m)"

definition parseAddr :: "string \<Rightarrow> addr_err + bytes option \<times> string" where
  "parseAddr addr = (case split_host_port addr of Inl e \<Rightarrow> Inl e | Inr (host, port) \<Rightarrow> Inr (parse_ip host, port))"

abbreviation (input) HTTP :: int where "HTTP \<equiv> 5"
abbreviation (input) HTTPCONNECT :: int where "HTTPCONNECT \<equiv> 6"
abbreviation (input) SOCKS4 :: int where "SOCKS4 \<equiv> 7"
abbreviation (input) SOCKS5 :: int where "SOCKS5 \<equiv> 8"

definition set_source :: "string \<Rightarrow> Metadata \<Rightarrow> Metadata" where
  "set_source addr m =
     (case parseAddr addr of Inl e \<Rightarrow> m | Inr (ip, port) \<Rightarrow> m\<lparr>md_SrcIP := ip, md_SrcPort := port\<rparr>)"

definition NewSocket :: "Addr \<Rightarrow> string \<Rightarrow> int \<Rightarrow> Metadata go" where
  "NewSocket target remote source =
     go_bind (parseSocksAddr target) (\<lambda>m. Inr (set_source remote (m\<lparr>md_NetWork := TCP, md_Type := source\<rparr>)))"

definition NewHTTP :: "Addr \<Rightarrow> string \<Rightarrow> Metadata go" where
  "NewHTTP target source =
     go_bind (parseSocksAddr target) (\<lambda>m. Inr (set_source source (m\<lparr>md_NetWork := TCP, md_Type := HTTP\<rparr>)))"

definition NewPacket :: "Addr \<Rightarrow> string \<Rightarrow> int \<Rightarrow> Metadata go" where
  "NewPacket target local source =
     go_bind (parseSocksAddr target) (\<lambda>m. Inr (set_source local (m\<lparr>md_NetWork := UDP, md_Type := source\<rparr>)))"

section \<open>The SOCKS listeners\<close>

text \<open>What becomes of a connection: closed, read to its end for a UDP association, or handed over.\<close>

datatype inbound = Closed | Drained | Passed Metadata

text \<open>\<open>auth\<close> is \<open>Verify\<close> of the authenticator, \<open>local\<close> and \<open>remote\<close> the connection's addresses.\<close>

definition HandleSocks4 :: "(string \<Rightarrow> string \<Rightarrow> bool) option \<Rightarrow> string \<Rightarrow> sock \<Rightarrow> (inbound \<times> sock) go" where
  "HandleSocks4 auth remote c =
     (case s4_ServerHandshake auth c of
        (Inl e, c) \<Rightarrow> Inr (Closed, c)
      | (Inr (addr, command), c) \<Rightarrow>
          go_bind (NewSocket (case ParseAddr addr of None \<Rightarrow> [] | Some a \<Rightarrow> a) remote SOCKS4) (\<lambda>m. Inr (Passed m, c)))"

definition HandleSocks5 :: "(string \<Rightarrow> string \<Rightarrow> bool) option \<Rightarrow> string \<Rightarrow> string \<Rightarrow> sock \<Rightarrow> (inbound \<times> sock) go" where
  "HandleSocks5 auth local remote c =
     (case ServerHandshake auth local c of
        (Inl e, c) \<Rightarrow> Inr (Closed, c)
      | (Inr (target, command), c) \<Rightarrow>
          if command = 3 then Inr (Drained, c\<lparr>sk_in := []\<rparr>)
          else go_bind (NewSocket target remote SOCKS5) (\<lambda>m. Inr (Passed m, c)))"

definition handleSocks :: "(string \<Rightarrow> string \<Rightarrow> bool) option \<Rightarrow> string \<Rightarrow> string \<Rightarrow> sock \<Rightarrow> (inbound \<times> sock) go" where
  "handleSocks auth local remote c =
     (case sk_in c of
        [] \<Rightarrow> Inr (Closed, c)
      | head # _ \<Rightarrow>
          if head = 4 then HandleSocks4 auth remote c
          else if head = 5 then HandleSocks5 auth local remote c
          else Inr (Closed, c))"

text \<open>A UDP packet, which is dropped when it does not decode.\<close>

definition handleSocksUDP :: "bytes \<Rightarrow> string \<Rightarrow> (Metadata \<times> bytes) option go" where
  "handleSocksUDP buf remote =
     (case DecodeUDPPacket buf of
        (Some e, target, payload) \<Rightarrow> Inr None
      | (None, None, payload) \<Rightarrow> Inl IndexOutOfRange
      | (None, Some target, payload) \<Rightarrow>
          go_bind (NewPacket target remote SOCKS5) (\<lambda>m. Inr (Some (m, payload))))"

section \<open>Names of up to 252 bytes\<close>

lemma trim_dots_id: "s = [] \<or> last s \<noteq> CHR ''.'' \<Longrightarrow> trim_dots s = s"
  by (cases s rule: rev_cases) (simp_all add: trim_dots_def)

text \<open>An address whose name can be handled, and is not empty or with a dot at its end.\<close>

definition plain_target :: "Addr \<Rightarrow> bool" where
  "plain_target a \<longleftrightarrow> SplitAddr a = Some a \<and>
     (a ! 0 = 3 \<longrightarrow> a ! 1 \<noteq> 0 \<and> unat (a ! 1) \<le> 252 \<and> a ! (1 + unat (a ! 1)) \<noteq> of_char (CHR ''.''))"

lemma unat_plus2:
  fixes l :: byte
  assumes "unat l \<le> 252"
  shows "unat (2 + l) = 2 + unat l" "unat (2 + l + 1) = 3 + unat l" "unat (3 + l) = 3 + unat l"
  using assms by (simp_all add: unat_word_ariths)

text \<open>The metadata carries exactly the target.\<close>

definition names_target :: "Addr \<Rightarrow> Metadata \<Rightarrow> bool" where
  "names_target a m \<longleftrightarrow> Addr_String a = Inr (RemoteAddress m) \<and> Valid m \<and> md_AddrType m = uint (a ! 0)"

lemma parseSocksAddr_target:
  assumes "plain_target a"
  shows "\<exists>m. parseSocksAddr a = Inr m \<and> names_target a m"
proof -
  from assms have "SplitAddr a = Some a" by (simp add: plain_target_def)
  then show ?thesis
  proof (rule SplitAddr_id_cases)
    fix r assume a: "a = 1 # r" "length r = 6"
    then show ?thesis
      by (auto simp: parseSocksAddr_def Let_def go_nth_def go_slice_def names_target_def Addr_String_def RemoteAddress_def
          Metadata_String_def Valid_def zero_metadata_def)
  next
    fix r assume a: "a = 4 # r" "length r = 18"
    then show ?thesis
      by (auto simp: parseSocksAddr_def Let_def go_nth_def go_slice_def names_target_def Addr_String_def RemoteAddress_def
          Metadata_String_def Valid_def zero_metadata_def)
  next
    fix l r assume a: "a = 3 # l # r" "length r = unat l + 2"
    with assms have l: "unat l \<le> 252" "l \<noteq> 0" and dot: "r ! (unat l - 1) \<noteq> of_char (CHR ''.'')"
      by (auto simp: plain_target_def nth_Cons' unat_eq_0 split: if_splits)
    then have pos: "0 < unat l" by (simp add: unat_gt_0)
    let ?name = "string_of (take (unat l) r)"
    have ne: "?name \<noteq> []" using pos a(2) by (auto simp: string_of_def)
    have "last (take (unat l) r) = r ! (unat l - 1)" using pos a(2) by (subst last_conv_nth) auto
    moreover have "last ?name = char_of (unat (last (take (unat l) r)))" using ne by (simp add: string_of_def last_map)
    ultimately have "of_char (last ?name) = r ! (unat l - 1)" by simp
    with dot have "last ?name \<noteq> CHR ''.''" by (metis (no_types))
    then have "trim_dots ?name = ?name" by (intro trim_dots_id) simp
    with a ne l(2) show ?thesis
      by (simp add: parseSocksAddr_def Let_def go_nth_def go_slice_def unat_plus2 [OF l(1)] names_target_def Addr_String_def
          RemoteAddress_def Metadata_String_def Valid_def zero_metadata_def)
  qed
qed

text \<open>A name of 254 or 255 bytes ends the process, and one of 253 gets a wrong port.\<close>

lemma long_name_panics:
  assumes "SplitAddr a = Some a" "a ! 0 = 3" "254 \<le> unat (a ! 1)"
  shows "parseSocksAddr a = Inl IndexOutOfRange"
  using assms(1)
proof (rule SplitAddr_id_cases)
  fix l r assume a: "a = 3 # l # r" "length r = unat l + 2"
  with assms(3) have "254 \<le> unat l" by simp
  moreover have "unat l < 256" using unsigned_less [of l] by simp
  ultimately consider "unat l = 254" | "unat l = 255" by linarith
  moreover have "unat (2 + l) = (2 + unat l) mod 256" by (simp add: unat_word_ariths)
  ultimately have "unat (2 + l) = 0 \<or> unat (2 + l) = 1" by cases simp_all
  then have "\<not> 2 \<le> unat (2 + l)" by linarith
  then have n: "go_slice a 2 (unat (2 + l)) = Inl IndexOutOfRange" by (simp only: go_slice_def simp_thms if_False)
  have "go_nth a 0 = Inr 3" "go_nth a 1 = Inr l" using a(1) by (simp_all add: go_nth_def)
  then show ?thesis by (simp only: parseSocksAddr_def Let_def n go_bind_def sum.case simp_thms if_True)
qed (use assms(2) in simp_all)

definition name_of :: "nat \<Rightarrow> Addr" where
  "name_of n = 3 # of_nat n # replicate n 97 @ [1, 187]"

lemma name_253_port:
  "parseSocksAddr (name_of 253) = Inr m \<Longrightarrow> md_DstPort m = itoa (256 + 3)"
  by (auto simp: parseSocksAddr_def name_of_def go_nth_def go_slice_def port16_def zero_metadata_def nth_append unat_word_ariths Let_def)

text \<open>A name that SOCKS4A may carry and SOCKS5 may not ends the process as well.\<close>

lemma socks4_long_name_panics:
  "s4_ServerHandshake auth c = (Inr (addr, cmd), c') \<Longrightarrow> ParseAddr addr = None \<Longrightarrow> HandleSocks4 auth remote c = Inl IndexOutOfRange"
  by (simp add: HandleSocks4_def NewSocket_def parseSocksAddr_def go_nth_def)

lemma NewSocket_target:
  assumes "plain_target a"
  shows "\<exists>m. NewSocket a remote t = Inr m \<and> names_target a m \<and> md_NetWork m = TCP \<and> md_Type m = t"
proof -
  from parseSocksAddr_target [OF assms] obtain m where "parseSocksAddr a = Inr m" "names_target a m" by blast
  then show ?thesis
    by (simp add: NewSocket_def set_source_def names_target_def RemoteAddress_def Metadata_String_def Valid_def split: sum.split prod.split)
qed


lemma demo_target: "ParseAddr (join_host_port ''host'' (itoa 80)) = Some [3, 4, 104, 111, 115, 116, 0, 80]"
proof -
  have "itoa 80 = ''80''" by code_simp
  then have "split_host_port (join_host_port ''host'' (itoa 80)) = Inr (''host'', itoa 80)"
    by (intro split_join_host_port) simp_all
  moreover have "parse_ip ''host'' = None" by code_simp
  ultimately show ?thesis by (simp add: ParseAddr_def parse_uint_itoa bytes_of_def port_bytes_def)
qed


text \<open>One UDP packet with a long name is enough.\<close>

lemma udp_long_name_panics:
  "handleSocksUDP ([0, 0, 0] @ name_of 254 @ payload) remote = Inl IndexOutOfRange"
proof -
  have w: "SplitAddr (name_of 254) = Some (name_of 254)" by code_simp
  note s = SplitAddr_append [OF w, of payload]
  have "name_of 254 ! 0 = 3" "254 \<le> unat (name_of 254 ! 1)" by code_simp+
  then have "parseSocksAddr (name_of 254) = Inl IndexOutOfRange" by (rule long_name_panics [OF w])
  moreover have "5 \<le> 3 + length (name_of 254)" by (simp add: name_of_def)
  then have "DecodeUDPPacket ([0, 0, 0] @ name_of 254 @ payload) = (None, Some (name_of 254), payload)"
    using s by (simp add: DecodeUDPPacket_def numeral_3_eq_3)
  ultimately show ?thesis by (simp add: handleSocksUDP_def NewPacket_def)
qed

end
