(* ===== verification/ClashHttp.thy ===== *)
theory ClashHttp
  imports ClashInbound
begin

text \<open>
  \<open>listener/http\<close>: the loop that serves the requests of one connection of an HTTP proxy, with
  the cache of checked credentials (\<open>common/cache/cache.go\<close>).  The requests are those that
  \<open>net/http\<close> reads from the connection one after the other; its client and the writing of a
  response are parameters.
\<close>

section \<open>A cache whose elements expire\<close>

record 'v element =
  el_Expired :: int
  el_Payload :: 'v

type_synonym ('k, 'v) ttl_cache = "'k \<rightharpoonup> 'v element"

definition ttl_Put :: "'k \<Rightarrow> 'v \<Rightarrow> int \<Rightarrow> int \<Rightarrow> ('k, 'v) ttl_cache \<Rightarrow> ('k, 'v) ttl_cache" where
  "ttl_Put key payload ttl now c = c(key \<mapsto> \<lparr>el_Expired = now + ttl, el_Payload = payload\<rparr>)"

definition ttl_GetWithExpire :: "'k \<Rightarrow> int \<Rightarrow> ('k, 'v) ttl_cache \<Rightarrow> ('v \<times> int) option \<times> ('k, 'v) ttl_cache" where
  "ttl_GetWithExpire key now c =
     (case c key of
        None \<Rightarrow> (None, c)
      | Some elm \<Rightarrow> if el_Expired elm < now then (None, c(key := None)) else (Some (el_Payload elm, el_Expired elm), c))"

definition ttl_Get :: "'k \<Rightarrow> int \<Rightarrow> ('k, 'v) ttl_cache \<Rightarrow> 'v option \<times> ('k, 'v) ttl_cache" where
  "ttl_Get key now c =
     (case c key of
        None \<Rightarrow> (None, c)
      | Some elm \<Rightarrow> if el_Expired elm < now then (None, c(key := None)) else (Some (el_Payload elm), c))"

definition ttl_cleanup :: "int \<Rightarrow> ('k, 'v) ttl_cache \<Rightarrow> ('k, 'v) ttl_cache" where
  "ttl_cleanup now c = (\<lambda>key. case c key of None \<Rightarrow> None | Some elm \<Rightarrow> if el_Expired elm < now then None else Some elm)"

section \<open>Headers and requests\<close>

text \<open>Header names are kept in the form of \<open>textproto.CanonicalMIMEHeaderKey\<close>.\<close>

definition upper_char :: "char \<Rightarrow> char" where
  "upper_char c = (let n = (of_char c :: nat) in if 97 \<le> n \<and> n \<le> 122 then char_of (n - 32) else c)"

definition token_char :: "char \<Rightarrow> bool" where
  "token_char c \<longleftrightarrow> (let n = (of_char c :: nat) in (48 \<le> n \<and> n \<le> 57) \<or> (65 \<le> n \<and> n \<le> 90) \<or> (97 \<le> n \<and> n \<le> 122) \<or>
     c \<in> set ''!#$%&*+-.^_`|~'' \<or> n = 39)"

fun canonical_loop :: "bool \<Rightarrow> string \<Rightarrow> string" where
  "canonical_loop upper [] = []"
| "canonical_loop upper (c # cs) = (if upper then upper_char c else lower_char c) # canonical_loop (c = CHR ''-'') cs"

definition canonical :: "string \<Rightarrow> string" where
  "canonical k = (if list_all token_char k then canonical_loop True k else k)"

type_synonym header = "string \<rightharpoonup> string list"

definition hd_Get :: "string \<Rightarrow> header \<Rightarrow> string" where
  "hd_Get k h = (case h (canonical k) of Some (v # vs) \<Rightarrow> v | _ \<Rightarrow> [])"

definition hd_Del :: "string \<Rightarrow> header \<Rightarrow> header" where
  "hd_Del k h = h(canonical k := None)"

definition hd_Set :: "string \<Rightarrow> string \<Rightarrow> header \<Rightarrow> header" where
  "hd_Set k v h = h(canonical k \<mapsto> [v])"

record http_request =
  hq_Method :: string
  hq_ProtoMajor :: nat
  hq_ProtoMinor :: nat
  hq_Header :: header
  hq_Host :: string
  hq_Scheme :: string
  hq_URLHost :: string
  hq_RequestURI :: string

record http_response =
  hr_StatusCode :: nat
  hr_ProtoMajor :: nat
  hr_ProtoMinor :: nat
  hr_Header :: header
  hr_Close :: bool

definition responseWith :: "http_request \<Rightarrow> nat \<Rightarrow> http_response" where
  "responseWith request statusCode =
     \<lparr>hr_StatusCode = statusCode, hr_ProtoMajor = hq_ProtoMajor request, hr_ProtoMinor = hq_ProtoMinor request,
      hr_Header = Map.empty, hr_Close = False\<rparr>"

definition hop_headers :: "string list" where
  "hop_headers = [''Proxy-Connection'', ''Proxy-Authenticate'', ''Proxy-Authorization'', ''TE'', ''Trailers'', ''Transfer-Encoding'', ''Upgrade'']"

definition removeHopByHopHeaders :: "header \<Rightarrow> header" where
  "removeHopByHopHeaders h =
     (let h = fold hd_Del hop_headers h;
          connections = hd_Get ''Connection'' h;
          h = hd_Del ''Connection'' h in
      if connections = [] then h
      else fold (\<lambda>k. hd_Del (trim_space k)) (split_on (CHR '','') connections) h)"

definition removeExtraHTTPHostPort :: "http_request \<Rightarrow> http_request" where
  "removeExtraHTTPHostPort req =
     (let host = (if hq_Host req = [] then hq_URLHost req else hq_Host req);
          host = (case split_host_port host of
             Inr (pHost, port) \<Rightarrow> if port = ''80'' then pHost else host
           | Inl e \<Rightarrow> host)
      in req\<lparr>hq_Host := host, hq_URLHost := host\<rparr>)"

section \<open>Credentials\<close>

definition parseBasicProxyAuthorization :: "http_request \<Rightarrow> string" where
  "parseBasicProxyAuthorization request =
     (let value = hd_Get ''Proxy-Authorization'' (hq_Header request) in
      if \<not> has_prefix value ''Basic '' then [] else drop 6 value)"

text \<open>\<open>base64.StdEncoding\<close>: quads of six bits, line ends ignored, padding at the end.\<close>

definition b64_val :: "char \<Rightarrow> nat option" where
  "b64_val c =
     (let n = (of_char c :: nat) in
      if 65 \<le> n \<and> n \<le> 90 then Some (n - 65)
      else if 97 \<le> n \<and> n \<le> 122 then Some (n - 71)
      else if 48 \<le> n \<and> n \<le> 57 then Some (n + 4)
      else if n = 43 then Some 62
      else if n = 47 then Some 63
      else None)"

definition b64_quad :: "nat \<Rightarrow> nat \<Rightarrow> nat \<Rightarrow> nat \<Rightarrow> string" where
  "b64_quad a b c d = [char_of (a * 4 + b div 16), char_of ((b mod 16) * 16 + c div 4), char_of ((c mod 4) * 64 + d)]"

fun b64_decode :: "string \<Rightarrow> string option" where
  "b64_decode [] = Some []"
| "b64_decode (a # b # c # d # s) =
     (case (b64_val a, b64_val b) of
        (Some x, Some y) \<Rightarrow>
          if d = CHR ''='' then
            (if s \<noteq> [] then None
             else if c = CHR ''='' then Some (take 1 (b64_quad x y 0 0))
             else case b64_val c of None \<Rightarrow> None | Some z \<Rightarrow> Some (take 2 (b64_quad x y z 0)))
          else (case (b64_val c, b64_val d) of
             (Some z, Some w) \<Rightarrow> map_option (\<lambda>r. b64_quad x y z w @ r) (b64_decode s)
           | _ \<Rightarrow> None)
      | _ \<Rightarrow> None)"
| "b64_decode _ = None"

definition DecodeString :: "string \<Rightarrow> string option" where
  "DecodeString s = b64_decode (filter (\<lambda>c. (of_char c :: nat) \<notin> {10, 13}) s)"

definition decodeBasicProxyAuthorization :: "string \<Rightarrow> (string \<times> string) option" where
  "decodeBasicProxyAuthorization credential =
     (case DecodeString credential of
        None \<Rightarrow> None
      | Some plain \<Rightarrow> (case split_on (CHR '':'') plain of [user, pass] \<Rightarrow> Some (user, pass) | _ \<Rightarrow> None))"

definition StatusOK :: nat where "StatusOK = 200"
definition StatusBadRequest :: nat where "StatusBadRequest = 400"
definition StatusForbidden :: nat where "StatusForbidden = 403"
definition StatusProxyAuthRequired :: nat where "StatusProxyAuthRequired = 407"
definition StatusBadGateway :: nat where "StatusBadGateway = 502"

type_synonym auth_cache = "(string, bool) ttl_cache"

text \<open>A response when the request is refused; \<open>verify\<close> is \<open>Verify\<close> of the authenticator, when there is one.\<close>

definition authenticate ::
  "(string \<Rightarrow> string \<Rightarrow> bool) option \<Rightarrow> int \<Rightarrow> http_request \<Rightarrow> auth_cache \<Rightarrow> http_response option \<times> auth_cache" where
  "authenticate auth now request cache =
     (case auth of
        None \<Rightarrow> (None, cache)
      | Some verify \<Rightarrow>
          let credential = parseBasicProxyAuthorization request in
          if credential = [] then
            (let resp = responseWith request StatusProxyAuthRequired in
             (Some (resp\<lparr>hr_Header := hd_Set ''Proxy-Authenticate'' ''Basic'' (hr_Header resp)\<rparr>), cache))
          else
            let (authed, cache) =
              (case ttl_Get credential now cache of
                 (Some authed, cache) \<Rightarrow> (authed, cache)
               | (None, cache) \<Rightarrow>
                   let authed = (case decodeBasicProxyAuthorization credential of None \<Rightarrow> False | Some (user, pass) \<Rightarrow> verify user pass)
                   in (authed, ttl_Put credential authed (60 * 1000000000) now cache))
            in if \<not> authed then (Some (responseWith request StatusForbidden), cache) else (None, cache))"

section \<open>One connection\<close>

text \<open>\<open>url.Hostname\<close> and \<open>url.Port\<close>.\<close>

definition validOptionalPort :: "string \<Rightarrow> bool" where
  "validOptionalPort port = (case port of [] \<Rightarrow> True | c # cs \<Rightarrow> c = CHR '':'' \<and> list_all is_digit cs)"

definition url_split :: "string \<Rightarrow> string \<times> string" where
  "url_split hostPort =
     (let (host, port) = (case last_index_byte hostPort (CHR '':'') of
            None \<Rightarrow> (hostPort, [])
          | Some colon \<Rightarrow> if validOptionalPort (drop colon hostPort) then (take colon hostPort, drop (Suc colon) hostPort) else (hostPort, []))
      in (if has_prefix host ''['' \<and> has_suffix host '']'' then take (length host - 2) (drop 1 host) else host, port))"

definition parseHTTPAddr :: "http_request \<Rightarrow> Metadata" where
  "parseHTTPAddr request =
     (let (host, port) = url_split (hq_URLHost request);
          port = (if port = [] then ''80'' else port);
          host = trim_dots host;
          m = zero_metadata\<lparr>md_NetWork := TCP, md_AddrType := AtypDomainName, md_Host := host, md_DstPort := port\<rparr>
      in case parse_ip host of
           None \<Rightarrow> m
         | Some ip \<Rightarrow> m\<lparr>md_AddrType := (if to4 ip = None then AtypIPv6 else AtypIPv4), md_DstIP := Some ip\<rparr>)"

definition NewHTTPS :: "http_request \<Rightarrow> string \<Rightarrow> Metadata" where
  "NewHTTPS request remote = set_source remote ((parseHTTPAddr request)\<lparr>md_Type := HTTPCONNECT\<rparr>)"

text \<open>
  The client of the connection dials through the tunnel; the metadata it hands over, or its error.
\<close>

definition client_dial :: "string \<Rightarrow> string \<Rightarrow> string \<Rightarrow> (string + Metadata) go" where
  "client_dial network address source =
     (if network \<notin> {''tcp'', ''tcp4'', ''tcp6''} then Inr (Inl (''unsupported network '' @ network))
      else case ParseAddr address of
        None \<Rightarrow> Inr (Inl ''Address not supported'')
      | Some dstAddr \<Rightarrow> go_bind (NewHTTP dstAddr source) (\<lambda>m. Inr (Inr m)))"

record 'w http_env =
  ht_auth :: "(string \<Rightarrow> string \<Rightarrow> bool) option"
  ht_now :: "'w \<Rightarrow> int"
  ht_Do :: "http_request \<Rightarrow> 'w \<Rightarrow> (string + http_response) \<times> 'w"
  ht_Write :: "http_response \<Rightarrow> 'w \<Rightarrow> bool \<times> 'w"
  ht_WriteConnect :: "http_request \<Rightarrow> 'w \<Rightarrow> bool \<times> 'w"

text \<open>What the proxy does: it answers, it asks a site, or it hands the connection to the tunnel.\<close>

datatype http_event = Responded http_response | Asked http_request | Connected Metadata

definition to_forward :: "http_request \<Rightarrow> http_request" where
  "to_forward request =
     (let host = hd_Get ''Host'' (hq_Header request);
          r = (if host \<noteq> [] then request\<lparr>hq_Host := host\<rparr> else request)
      in removeExtraHTTPHostPort (r\<lparr>hq_RequestURI := [], hq_Header := removeHopByHopHeaders (hq_Header r)\<rparr>))"

definition forward :: "'w http_env \<Rightarrow> http_request \<Rightarrow> 'w \<Rightarrow> http_event list \<times> http_response \<times> 'w" where
  "forward E request w =
     (let r = to_forward request;
          (evs, resp, w) =
            (if hq_Scheme r = [] \<or> hq_URLHost r = [] then ([], responseWith r StatusBadRequest, w)
             else case ht_Do E r w of
               (Inl e, w) \<Rightarrow> ([Asked r], responseWith r StatusBadGateway, w)
             | (Inr resp, w) \<Rightarrow> ([Asked r], resp, w))
      in (evs, resp\<lparr>hr_Header := removeHopByHopHeaders (hr_Header resp)\<rparr>, w))"

definition finish_response :: "bool \<Rightarrow> http_response \<Rightarrow> http_response" where
  "finish_response keepAlive resp =
     (let h = hr_Header resp;
          h = (if keepAlive then hd_Set ''Keep-Alive'' ''timeout=4'' (hd_Set ''Connection'' ''keep-alive'' (hd_Set ''Proxy-Connection'' ''keep-alive'' h)) else h)
      in resp\<lparr>hr_Header := h, hr_Close := \<not> keepAlive\<rparr>)"

definition wants_keepalive :: "http_request \<Rightarrow> bool" where
  "wants_keepalive request = (trim_space (to_lower (hd_Get ''Proxy-Connection'' (hq_Header request))) = ''keep-alive'')"

text \<open>
  The check of a request: not made once the connection is trusted, or when the listener has no
  cache, which is \<open>trusted\<close> at the start.
\<close>

definition check_request ::
  "'w http_env \<Rightarrow> bool \<Rightarrow> auth_cache \<Rightarrow> http_request \<Rightarrow> 'w \<Rightarrow> http_response option \<times> auth_cache" where
  "check_request E trusted cache request w =
     (if trusted then (None, cache) else authenticate (ht_auth E) (ht_now E w) request cache)"

fun HandleConn ::
  "'w http_env \<Rightarrow> string \<Rightarrow> bool \<Rightarrow> auth_cache \<Rightarrow> http_request list \<Rightarrow> 'w \<Rightarrow> http_event list \<times> auth_cache \<times> 'w" where
  "HandleConn E remote trusted cache [] w = ([], cache, w)"
| "HandleConn E remote trusted cache (request # rs) w =
     (case check_request E trusted cache request w of
        (refusal, cache) \<Rightarrow>
          if refusal = None \<and> hq_Method request = ''CONNECT'' then
            (case ht_WriteConnect E request w of
               (ok, w) \<Rightarrow> (if ok then [Connected (NewHTTPS request remote)] else [], cache, w))
          else
            (case (case refusal of Some resp \<Rightarrow> ([], resp, w) | None \<Rightarrow> forward E request w) of
               (evs, resp, w) \<Rightarrow>
                 let keepAlive = wants_keepalive request; resp = finish_response keepAlive resp in
                 case ht_Write E resp w of
                   (ok, w) \<Rightarrow>
                     if ok \<and> keepAlive then
                       (case HandleConn E remote (refusal = None) cache rs w of (es, r) \<Rightarrow> (evs @ Responded resp # es, r))
                     else (evs @ [Responded resp], cache, w)))"

section \<open>Credentials are asked for\<close>

definition credential_ok :: "(string \<Rightarrow> string \<Rightarrow> bool) \<Rightarrow> string \<Rightarrow> bool" where
  "credential_ok verify credential =
     (case decodeBasicProxyAuthorization credential of None \<Rightarrow> False | Some (user, pass) \<Rightarrow> verify user pass)"

definition authorized :: "(string \<Rightarrow> string \<Rightarrow> bool) \<Rightarrow> http_request \<Rightarrow> bool" where
  "authorized verify r \<longleftrightarrow> parseBasicProxyAuthorization r \<noteq> [] \<and> credential_ok verify (parseBasicProxyAuthorization r)"

text \<open>The cache holds nothing but results of this authenticator.\<close>

definition cache_ok :: "(string \<Rightarrow> string \<Rightarrow> bool) \<Rightarrow> auth_cache \<Rightarrow> bool" where
  "cache_ok verify c \<longleftrightarrow> (\<forall>k e. c k = Some e \<longrightarrow> el_Payload e = credential_ok verify k)"

definition refused :: "http_event \<Rightarrow> bool" where
  "refused e \<longleftrightarrow> (\<exists>resp. e = Responded resp \<and> hr_StatusCode resp \<in> {StatusForbidden, StatusProxyAuthRequired})"

lemma ttl_Get_ok:
  assumes "cache_ok verify c" "ttl_Get k now c = (r, c')"
  shows "cache_ok verify c'" "r = Some b \<Longrightarrow> b = credential_ok verify k"
  using assms by (auto simp: ttl_Get_def cache_ok_def split: option.splits if_splits)

lemma authenticate_ok:
  assumes "cache_ok verify c" "authenticate (Some verify) now r c = (resp, c')"
  shows "cache_ok verify c' \<and> (resp = None \<longleftrightarrow> authorized verify r) \<and>
    (\<forall>x. resp = Some x \<longrightarrow> hr_StatusCode x \<in> {StatusForbidden, StatusProxyAuthRequired})"
proof (cases "parseBasicProxyAuthorization r = []")
  case True
  with assms show ?thesis by (auto simp: authenticate_def authorized_def Let_def responseWith_def)
next
  case False
  let ?k = "parseBasicProxyAuthorization r"
  obtain a c1 where g: "ttl_Get ?k now c = (a, c1)" by fastforce
  note g' = ttl_Get_ok [OF assms(1) g]
  have put: "cache_ok verify (ttl_Put ?k (credential_ok verify ?k) t now c1)" for t
    using g'(1) by (simp add: cache_ok_def ttl_Put_def)
  show ?thesis
  proof (cases a)
    case None
    with assms(2) False put show ?thesis
      by (auto simp: authenticate_def g Let_def authorized_def credential_ok_def [symmetric] responseWith_def split: if_splits)
  next
    case (Some b)
    with assms(2) False g' show ?thesis
      by (auto simp: authenticate_def g Let_def authorized_def responseWith_def split: if_splits)
  qed
qed

lemma HandleConn_trusted_cache: "HandleConn E remote True cache rs w = (evs, cache', w') \<Longrightarrow> cache' = cache"
proof (induction rs arbitrary: w evs w')
  case (Cons r rs)
  from Cons.prems show ?case
    by (auto simp: check_request_def Let_def split: prod.splits if_splits dest: Cons.IH)
qed simp

text \<open>The requests before the first that is authorized are refused.\<close>

lemma HandleConn_refuses:
  assumes "ht_auth E = Some verify" "cache_ok verify cache" "HandleConn E remote False cache rs w = (evs, cache', w')"
  shows "cache_ok verify cache' \<and> list_all refused (take (length (takeWhile (\<lambda>r. \<not> authorized verify r) rs)) evs) \<and>
    ((\<forall>r \<in> set rs. \<not> authorized verify r) \<longrightarrow> length evs \<le> length rs)"
  using assms(2,3)
proof (induction rs arbitrary: cache w evs cache' w')
  case (Cons r rs)
  obtain resp c1 where a: "authenticate (ht_auth E) (ht_now E w) r cache = (resp, c1)" by fastforce
  from authenticate_ok [OF Cons.prems(1) a [unfolded assms(1)]] have c1: "cache_ok verify c1"
    and v: "resp = None \<longleftrightarrow> authorized verify r"
    and st: "\<And>x. resp = Some x \<Longrightarrow> hr_StatusCode x \<in> {StatusForbidden, StatusProxyAuthRequired}" by auto
  show ?case
  proof (cases resp)
    case None
    with v have "authorized verify r" by simp
    moreover have "cache' = c1"
      using Cons.prems(2) None a
      by (auto simp: check_request_def Let_def split: prod.splits if_splits dest: HandleConn_trusted_cache)
    ultimately show ?thesis using c1 by simp
  next
    case (Some x)
    with v have nv: "\<not> authorized verify r" by simp
    let ?y = "finish_response (wants_keepalive r) x"
    have rf: "refused (Responded ?y)" using st [OF Some] by (auto simp: refused_def finish_response_def Let_def)
    obtain ok w2 where wr: "ht_Write E ?y w = (ok, w2)" by fastforce
    show ?thesis
    proof (cases "ok \<and> wants_keepalive r")
      case False
      with Cons.prems(2) Some a wr nv rf c1 show ?thesis by (auto simp: check_request_def Let_def)
    next
      case True
      obtain es c2 w3 where h: "HandleConn E remote False c1 rs w2 = (es, c2, w3)" by (metis surj_pair)
      from Cons.prems(2) Some a wr True h have "evs = Responded ?y # es" "cache' = c2" by (auto simp: check_request_def Let_def)
      with Cons.IH [OF c1 h] rf nv show ?thesis by simp
    qed
  qed
qed simp

section \<open>What a site is asked\<close>

lemma fold_hd_Del: "fold hd_Del ks h k = (if k \<in> canonical ` set ks then None else h k)"
  by (induction ks arbitrary: h) (auto simp: hd_Del_def)

text \<open>A header without those that concern the connection, and without those it lists itself.\<close>

definition hop_free :: "header \<Rightarrow> header \<Rightarrow> bool" where
  "hop_free h h' \<longleftrightarrow>
     (\<forall>k \<in> set (''Connection'' # hop_headers). h' (canonical k) = None) \<and>
     (\<forall>k \<in> set (split_on (CHR '','') (hd_Get ''Connection'' (fold hd_Del hop_headers h))). hd_Get ''Connection'' (fold hd_Del hop_headers h) \<noteq> [] \<longrightarrow>
        h' (canonical (trim_space k)) = None) \<and>
     (\<forall>k. h' k = None \<or> h' k = h k)"

lemma removeHopByHop_free: "hop_free h (removeHopByHopHeaders h)"
proof -
  have f: "fold (\<lambda>k. hd_Del (trim_space k)) ks g = fold hd_Del (map trim_space ks) g" for ks g
    by (simp add: fold_map o_def)
  show ?thesis
    by (auto simp: hop_free_def removeHopByHopHeaders_def Let_def f fold_hd_Del hd_Del_def)
qed

lemma forward_asked:
  assumes "forward E r w = (evs, resp, w')" "Asked q \<in> set evs"
  shows "evs = [Asked q] \<and> hop_free (hq_Header r) (hq_Header q)"
  using assms removeHopByHop_free
  by (auto simp: forward_def Let_def to_forward_def removeExtraHTTPHostPort_def split: if_splits prod.splits sum.splits)

lemma HandleConn_asked:
  "HandleConn E remote trusted cache rs w = (evs, cache', w') \<Longrightarrow> Asked q \<in> set evs \<Longrightarrow>
     \<exists>r \<in> set rs. hop_free (hq_Header r) (hq_Header q)"
proof (induction rs arbitrary: trusted cache w evs cache' w')
  case (Cons r rs)
  obtain resp c1 where a: "check_request E trusted cache r w = (resp, c1)" by fastforce
  show ?case
  proof (cases "resp = None \<and> hq_Method r = ''CONNECT''")
    case True
    with Cons.prems a show ?thesis by (auto split: prod.splits if_splits)
  next
    case False
    obtain es0 x w1 where f: "(case resp of Some x \<Rightarrow> ([], x, w) | None \<Rightarrow> forward E r w) = (es0, x, w1)" by (metis surj_pair)
    obtain ok w2 where wr: "ht_Write E (finish_response (wants_keepalive r) x) w1 = (ok, w2)" by fastforce
    obtain es c2 w3 where h: "HandleConn E remote (resp = None) c1 rs w2 = (es, c2, w3)" by (metis surj_pair)
    from Cons.prems(1) False a f wr h have "set evs \<subseteq> set es0 \<union> {Responded (finish_response (wants_keepalive r) x)} \<union> set es"
      by (auto simp: Let_def split: if_splits)
    with Cons.prems(2) consider "Asked q \<in> set es0" | "Asked q \<in> set es" by auto
    then show ?thesis
    proof cases
      case 1
      with f have "forward E r w = (es0, x, w1)" by (cases resp) auto
      from forward_asked [OF this 1] show ?thesis by auto
    next
      case 2
      from Cons.IH [OF h 2] show ?thesis by auto
    qed
  qed
qed simp

text \<open>
  C33. Where the proxy has users, every request of a connection is refused until one carries the
  name and password of a user: nothing is asked of a site and no tunnel is opened before.  And
  what a site is asked never contains the headers meant for the proxy, the credentials among
  them.
\<close>

theorem http_requires_user:
  assumes "ht_auth E = Some verify" "cache_ok verify cache"
    and "HandleConn E remote False cache rs w = (evs, cache', w')"
  shows "cache_ok verify cache' \<and>
    list_all refused (take (length (takeWhile (\<lambda>r. \<not> authorized verify r) rs)) evs) \<and>
    ((\<forall>r \<in> set rs. \<not> authorized verify r) \<longrightarrow> list_all refused evs) \<and>
    (\<forall>q. Asked q \<in> set evs \<longrightarrow> hq_Header q (canonical ''Proxy-Authorization'') = None)"
proof -
  note r = HandleConn_refuses [OF assms]
  have "takeWhile (\<lambda>r. \<not> authorized verify r) rs = rs" if "\<forall>r \<in> set rs. \<not> authorized verify r"
    using that by simp
  moreover have "hq_Header q (canonical ''Proxy-Authorization'') = None" if "Asked q \<in> set evs" for q
    using HandleConn_asked [OF assms(3) that] by (auto simp: hop_free_def hop_headers_def)
  moreover have "list_all refused evs" if "\<forall>r \<in> set rs. \<not> authorized verify r"
    using r that by (metis take_all takeWhile_eq_all_conv)
  ultimately show ?thesis using r by blast
qed

definition env0 :: "unit http_env" where
  "env0 = \<lparr>ht_auth = Some (\<lambda>u p. u = ''u'' \<and> p = ''p''), ht_now = (\<lambda>w. 0),
     ht_Do = (\<lambda>r w. (Inl ''offline'', w)), ht_Write = (\<lambda>r w. (True, w)), ht_WriteConnect = (\<lambda>r w. (True, w))\<rparr>"

definition get0 :: "header \<Rightarrow> http_request" where
  "get0 h = \<lparr>hq_Method = ''GET'', hq_ProtoMajor = 1, hq_ProtoMinor = 1, hq_Header = h,
     hq_Host = ''a.b'', hq_Scheme = ''http'', hq_URLHost = ''a.b'', hq_RequestURI = ''/''\<rparr>"

lemma env0_auth: "ht_auth env0 = Some (\<lambda>u p. u = ''u'' \<and> p = ''p'')"
  by (simp add: env0_def)

lemma run0:
  "map_prod (map (\<lambda>e. case e of Responded resp \<Rightarrow> hr_StatusCode resp | Asked q \<Rightarrow> 0 | Connected m \<Rightarrow> 1)) (\<lambda>_. ())
     (HandleConn env0 ''1.2.3.4:5'' False Map.empty
       [get0 [''Proxy-Connection'' \<mapsto> [''keep-alive'']],
        get0 [''Proxy-Connection'' \<mapsto> [''keep-alive''], ''Proxy-Authorization'' \<mapsto> [''Basic dTpw'']]] ()) = ([407, 0, 502], ())"
  by code_simp

theorem http_requires_user_witness:
  "\<exists>evs cache' w'. HandleConn env0 ''1.2.3.4:5'' False Map.empty
       [get0 [''Proxy-Connection'' \<mapsto> [''keep-alive'']],
        get0 [''Proxy-Connection'' \<mapsto> [''keep-alive''], ''Proxy-Authorization'' \<mapsto> [''Basic dTpw'']]] () = (evs, cache', w') \<and>
     length evs = 3 \<and> refused (hd evs)"
proof -
  let ?r1 = "get0 [''Proxy-Connection'' \<mapsto> [''keep-alive'']]"
  let ?r2 = "get0 [''Proxy-Connection'' \<mapsto> [''keep-alive''], ''Proxy-Authorization'' \<mapsto> [''Basic dTpw'']]"
  let ?v = "\<lambda>u p. u = ''u'' \<and> p = ''p''"
  obtain evs c' w' where h: "HandleConn env0 ''1.2.3.4:5'' False Map.empty [?r1, ?r2] () = (evs, c', w')" by (metis surj_pair)
  have l: "length evs = 3"
    using arg_cong [OF run0, of "\<lambda>x. length (fst x)"] by (simp add: h del: HandleConn.simps)
  have "cache_ok ?v Map.empty" by (simp add: cache_ok_def)
  note t = http_requires_user [OF env0_auth this h]
  have "\<not> authorized ?v ?r1" by code_simp
  with t have "list_all refused (take (Suc (length (takeWhile (\<lambda>r. \<not> authorized ?v r) [?r2]))) evs)" by simp
  with l have "refused (hd evs)" by (cases evs) auto
  with h l show ?thesis by blast
qed

end
