(* ===== verification/ClashWire.thy ===== *)
theory ClashWire
  imports GoNet
begin

text \<open>
  Connections as the protocols of \<open>transport\<close> see them.  What arrives is cut into segments
  wherever the network likes; a read gives at most the rest of one segment, so a protocol that
  relies on more than \<open>io.ReadFull\<close> promises depends on the cuts.  The interfaces
  \<open>stream_reader\<close> and \<open>stream_pair\<close> say what a protocol promises to those who read and
  write through it.
\<close>

section \<open>The connection below\<close>

datatype io_err = EOF | UnexpectedEOF | IoErr string

text \<open>The bytes a read puts into its buffer, its error, and the state after it.\<close>

type_synonym 's read_result = "bytes \<times> io_err option \<times> 's"

type_synonym segs = "bytes list"

definition conn_Read :: "nat \<Rightarrow> segs \<Rightarrow> segs read_result" where
  "conn_Read n c =
     (if n = 0 then ([], None, c)
      else case c of
        [] \<Rightarrow> ([], Some EOF, [])
      | s # ss \<Rightarrow> (take n s, None, if length s \<le> n then ss else drop n s # ss))"

text \<open>\<open>io.ReadFull\<close>: reads until the buffer is full.\<close>

fun ReadFull :: "nat \<Rightarrow> segs \<Rightarrow> segs read_result" where
  "ReadFull n [] = ([], if n = 0 then None else Some EOF, [])"
| "ReadFull n (s # ss) =
     (if n = 0 then ([], None, s # ss)
      else if n \<le> length s then (take n s, None, if length s \<le> n then ss else drop n s # ss)
      else case ReadFull (n - length s) ss of
        (d, e, c) \<Rightarrow> (s @ d, if e = Some EOF \<and> s \<noteq> [] then Some UnexpectedEOF else e, c))"

text \<open>How much is left to be read, the cuts included.\<close>

definition seg_size :: "segs \<Rightarrow> nat" where
  "seg_size c = length (concat c) + length c"

lemma ReadFull_ok:
  "n \<le> length (concat c) \<Longrightarrow>
     \<exists>c'. ReadFull n c = (take n (concat c), None, c') \<and> concat c' = drop n (concat c) \<and> seg_size c' + n \<le> seg_size c"
proof (induction c arbitrary: n)
  case (Cons s ss)
  show ?case
  proof (cases "n \<le> length s")
    case True
    then show ?thesis by (auto simp: seg_size_def)
  next
    case False
    with Cons.prems have "n - length s \<le> length (concat ss)" by auto
    with Cons.IH [of "n - length s"] obtain c' where "ReadFull (n - length s) ss = (take (n - length s) (concat ss), None, c')"
      "concat c' = drop (n - length s) (concat ss)" "seg_size c' + (n - length s) \<le> seg_size ss"
      by blast
    with False show ?thesis by (auto simp: seg_size_def)
  qed
qed simp

lemma ReadFull_append:
  assumes "concat c = x @ r" "length x = n"
  obtains c' where "ReadFull n c = (x, None, c')" "concat c' = r" "seg_size c' + n \<le> seg_size c"
  using ReadFull_ok [of n c] assms by auto

lemma ReadFull_None:
  "ReadFull n c = (d, None, c') \<Longrightarrow> length d = n \<and> concat c = d @ concat c' \<and> seg_size c' + n \<le> seg_size c"
proof (induction c arbitrary: n d)
  case (Cons s ss)
  then show ?case by (fastforce simp: seg_size_def split: if_splits prod.splits)
qed (simp split: if_splits)

lemma ReadFull_empty: "concat c = [] \<Longrightarrow> 0 < n \<Longrightarrow> ReadFull n c = ([], Some EOF, [])"
  by (induction c) auto

lemma conn_Read_some:
  "0 < n \<Longrightarrow> c \<noteq> [] \<Longrightarrow>
     \<exists>d c'. conn_Read n c = (d, None, c') \<and> length d \<le> n \<and> concat c = d @ concat c' \<and> seg_size c' + length d \<le> seg_size c \<and> seg_size c' < seg_size c"
  by (cases c) (auto simp: conn_Read_def seg_size_def)

lemma conn_Read_none: "0 < n \<Longrightarrow> conn_Read n [] = ([], Some EOF, [])"
  by (simp add: conn_Read_def)

text \<open>What is written: one segment for every write, as long as writes go through.\<close>

record wire =
  wr_out :: segs
  wr_room :: nat

definition conn_Write :: "bytes \<Rightarrow> wire \<Rightarrow> bool \<times> wire" where
  "conn_Write bs w = (if wr_room w = 0 then (False, w) else (True, w\<lparr>wr_out := wr_out w @ [bs], wr_room := wr_room w - 1\<rparr>))"

abbreviation emitted :: "wire \<Rightarrow> bytes" where "emitted w \<equiv> concat (wr_out w)"

lemma conn_Write_cases:
  obtains "conn_Write bs w = (False, w)" | w' where "conn_Write bs w = (True, w')" "emitted w' = emitted w @ bs"
  by (cases "wr_room w = 0") (auto simp: conn_Write_def)

section \<open>Sixteen bits in network order\<close>

definition be16 :: "nat \<Rightarrow> bytes" where
  "be16 n = [of_nat (n div 256), of_nat n]"

definition be16_val :: "bytes \<Rightarrow> nat" where
  "be16_val b = unat (b ! 0) * 256 + unat (b ! 1)"

lemma length_be16 [simp]: "length (be16 n) = 2"
  by (simp add: be16_def)

lemma be16_val_be16: "n < 65536 \<Longrightarrow> be16_val (be16 n) = n"
proof -
  assume "n < 65536"
  then have "n div 256 < 256" by (simp add: less_mult_imp_div_less)
  moreover have "unat (of_nat n :: byte) = n mod 256" by (simp add: unat_of_nat)
  ultimately show ?thesis by (simp add: be16_val_def be16_def unat_byte)
qed

lemma be16_val_less: "be16_val b < 65536"
proof -
  have "unat (b ! 0) < 256" "unat (b ! 1) < 256" by (rule byte_lt_256)+
  then show ?thesis unfolding be16_val_def by linarith
qed

lemma be16_inject: "n < 65536 \<Longrightarrow> m < 65536 \<Longrightarrow> be16 n = be16 m \<Longrightarrow> n = m"
  by (metis be16_val_be16)

section \<open>Reading to the end\<close>

text \<open>Reads with the buffers \<open>ns\<close> until one fails, which is how a relay reads.\<close>

fun drain :: "(nat \<Rightarrow> 's \<Rightarrow> 'a list \<times> io_err option \<times> 's) \<Rightarrow> nat list \<Rightarrow> 's \<Rightarrow> 'a list \<times> io_err option" where
  "drain rd [] s = ([], None)"
| "drain rd (n # ns) s =
     (case rd n s of
        (d, Some e, s') \<Rightarrow> (d, Some e)
      | (d, None, s') \<Rightarrow> (case drain rd ns s' of (ds, e) \<Rightarrow> (d @ ds, e)))"

text \<open>
  A reader in a state that holds \<open>p\<close>, read with buffers of at least the size it needs, delivers
  \<open>p\<close>, piece by piece, each at most as long as the buffer, and then reports the end of the stream
  and nothing else.  What it delivers are bytes, or bytes with the address they came from.
\<close>

locale stream_reader =
  fixes rd :: "nat \<Rightarrow> 's \<Rightarrow> 'a list \<times> io_err option \<times> 's"
    and holds :: "'s \<Rightarrow> 'a list \<Rightarrow> bool"
    and todo :: "'s \<Rightarrow> nat"
    and least :: nat
    and fin :: io_err
  assumes delivers: "holds s p \<Longrightarrow> least \<le> n \<Longrightarrow> rd n s = (d, None, s') \<Longrightarrow>
      length d \<le> n \<and> todo s' < todo s \<and> (\<exists>p'. p = d @ p' \<and> holds s' p')"
    and ends: "holds s p \<Longrightarrow> least \<le> n \<Longrightarrow> rd n s = (d, Some e, s') \<Longrightarrow> e = fin \<and> p = [] \<and> d = []"
begin

lemma drain_prefix:
  "holds s p \<Longrightarrow> list_all (\<lambda>n. least \<le> n) ns \<Longrightarrow> drain rd ns s = (ds, e) \<Longrightarrow>
     (\<exists>p'. p = ds @ p' \<and> (e \<noteq> None \<longrightarrow> e = Some fin \<and> p' = []))"
proof (induction ns arbitrary: s p ds e)
  case (Cons n ns)
  obtain d x s' where r: "rd n s = (d, x, s')" by (metis surj_pair)
  show ?case
  proof (cases x)
    case None
    obtain ds' e' where h: "drain rd ns s' = (ds', e')" by fastforce
    from Cons.prems(2) have n: "least \<le> n" by simp
    from delivers [OF Cons.prems(1) n] r None obtain p' where p: "p = d @ p'" "holds s' p'" by auto
    from Cons.IH [OF p(2) _ h] Cons.prems(2) obtain q where "p' = ds' @ q" "e' \<noteq> None \<longrightarrow> e' = Some fin \<and> q = []" by auto
    with Cons.prems(3) r None h p(1) show ?thesis by auto
  next
    case (Some y)
    with Cons.prems r ends [OF Cons.prems(1), of n d y s'] show ?thesis by auto
  qed
qed auto

lemma drain_ends:
  "holds s p \<Longrightarrow> list_all (\<lambda>n. least \<le> n) ns \<Longrightarrow> todo s < length ns \<Longrightarrow> snd (drain rd ns s) \<noteq> None"
proof (induction ns arbitrary: s p)
  case (Cons n ns)
  obtain d x s' where r: "rd n s = (d, x, s')" by (metis surj_pair)
  show ?case
  proof (cases x)
    case None
    from Cons.prems(2) have n: "least \<le> n" by simp
    from delivers [OF Cons.prems(1) n] r None obtain p' where p: "holds s' p'" "todo s' < todo s" by auto
    with Cons.prems(3) have "todo s' < length ns" by simp
    from Cons.IH [OF p(1) _ this] Cons.prems(2) r None show ?thesis by (auto split: prod.split)
  qed (simp add: r)
qed simp

theorem drain_all:
  assumes "holds s p" "list_all (\<lambda>n. least \<le> n) ns" "todo s < length ns"
  shows "drain rd ns s = (p, Some fin)"
  using drain_prefix [OF assms(1,2)] drain_ends [OF assms] by (cases "drain rd ns s") fastforce

end

text \<open>
  A writer that has written the payload \<open>p\<close> and can write on, or whose last write failed: what it
  emitted, as the network may cut it, makes a fresh reader hold \<open>p\<close>.  An item that is written
  carries the payload \<open>pay b\<close>, and the write answers with the count \<open>cnt b\<close>.
\<close>

fun write_all :: "('b \<Rightarrow> 'w \<Rightarrow> nat \<times> bool \<times> 'w) \<Rightarrow> 'b list \<Rightarrow> 'w \<Rightarrow> nat \<times> bool \<times> 'w" where
  "write_all wt [] w = (0, True, w)"
| "write_all wt (b # bs) w =
     (case wt b w of
        (n, False, w') \<Rightarrow> (n, False, w')
      | (n, True, w') \<Rightarrow> (case write_all wt bs w' of (m, r) \<Rightarrow> (n + m, r)))"

locale stream_pair = stream_reader rd holds todo least fin
  for rd :: "nat \<Rightarrow> 's \<Rightarrow> 'a list \<times> io_err option \<times> 's" and holds todo least fin +
  fixes wt :: "'b \<Rightarrow> 'w \<Rightarrow> nat \<times> bool \<times> 'w"
    and fits :: "'b \<Rightarrow> bool"
    and pay :: "'b \<Rightarrow> 'a list"
    and cnt :: "'b \<Rightarrow> nat"
    and sent :: "'w \<Rightarrow> 'a list \<Rightarrow> bool"
    and ended :: "'w \<Rightarrow> 'a list \<Rightarrow> bool"
    and cuts :: "'w \<Rightarrow> segs \<Rightarrow> bool"
    and fresh :: "segs \<Rightarrow> 's"
  assumes writes: "sent w p \<Longrightarrow> fits b \<Longrightarrow> wt b w = (n, True, w') \<Longrightarrow> n = cnt b \<and> sent w' (p @ pay b)"
    and stops: "sent w p \<Longrightarrow> fits b \<Longrightarrow> wt b w = (n, False, w') \<Longrightarrow> \<exists>k. ended w' (p @ take k (pay b))"
    and closes: "sent w p \<Longrightarrow> ended w p"
    and arrives: "ended w p \<Longrightarrow> cuts w c \<Longrightarrow> holds (fresh c) p"
begin

lemma write_all_sent:
  "sent w p \<Longrightarrow> list_all fits bs \<Longrightarrow> write_all wt bs w = (n, done_all, w') \<Longrightarrow>
     \<exists>k. ended w' (p @ take k (concat (map pay bs))) \<and>
       (done_all \<longrightarrow> n = sum_list (map cnt bs) \<and> k = length (concat (map pay bs)))"
proof (induction bs arbitrary: w p n)
  case Nil
  then show ?case using closes by auto
next
  case (Cons b bs)
  obtain m x w1 where r: "wt b w = (m, x, w1)" by (metis surj_pair)
  from Cons.prems(2) have f: "fits b" "list_all fits bs" by simp_all
  show ?case
  proof (cases x)
    case False
    from stops [OF Cons.prems(1) f(1)] r False obtain k where k: "ended w1 (p @ take k (pay b))" by auto
    have t: "take k (pay b) = take (min k (length (pay b))) (concat (map pay (b # bs)))" by (simp add: min_def)
    from Cons.prems(3) r False have "w' = w1" "\<not> done_all" by auto
    with k show ?thesis unfolding t by blast
  next
    case True
    from writes [OF Cons.prems(1) f(1)] r True have k: "m = cnt b" "sent w1 (p @ pay b)" by auto
    obtain j y w2 where h: "write_all wt bs w1 = (j, y, w2)" by (metis surj_pair)
    with Cons.prems(3) r True have e: "n = m + j" "done_all = y" "w' = w2" by auto
    from Cons.IH [OF k(2) f(2), of j] h e obtain i where
      i: "ended w' (p @ pay b @ take i (concat (map pay bs)))"
        "done_all \<longrightarrow> j = sum_list (map cnt bs) \<and> i = length (concat (map pay bs))" by auto
    have "take (length (pay b) + i) (concat (map pay (b # bs))) = pay b @ take i (concat (map pay bs))" by simp
    with i(1) have "ended w' (p @ take (length (pay b) + i) (concat (map pay (b # bs))))" by (simp only:)
    moreover have "done_all \<longrightarrow> n = sum_list (map cnt (b # bs)) \<and> length (pay b) + i = length (concat (map pay (b # bs)))"
      using i(2) e k(1) by simp
    ultimately show ?thesis by blast
  qed
qed

theorem read_back:
  assumes "sent w []" "list_all fits bs" "write_all wt bs w = (n, done_all, w')" "cuts w' c"
    and "list_all (\<lambda>n. least \<le> n) ns" "todo (fresh c) < length ns"
  shows "\<exists>k. drain rd ns (fresh c) = (take k (concat (map pay bs)), Some fin) \<and>
    (done_all \<longrightarrow> n = sum_list (map cnt bs) \<and> drain rd ns (fresh c) = (concat (map pay bs), Some fin))"
proof -
  from write_all_sent [OF assms(1-3)] obtain k where s: "ended w' (take k (concat (map pay bs)))"
    and n: "done_all \<longrightarrow> n = sum_list (map cnt bs) \<and> k = length (concat (map pay bs))" by auto
  from drain_all [OF arrives [OF s assms(4)] assms(5,6)] n show ?thesis by auto
qed

end

end
