(* ===== verification/ClashChunks.thy ===== *)
theory ClashChunks
  imports ClashWire
begin

text \<open>
  \<open>transport/vmess/chunk.go\<close> and \<open>aead.go\<close>: the two framings of a VMess body, plain chunks with
  their length and chunks sealed by an authenticated cipher, which is a parameter.
\<close>

section \<open>Plain chunks\<close>

definition chunkSize :: nat where "chunkSize = 16384"

definition maxSize :: nat where "maxSize = 17 * 1024"

record chunk_reader =
  cr_in :: segs
  cr_buf :: "bytes option"
  cr_offset :: nat

definition newChunkReader :: "segs \<Rightarrow> chunk_reader" where
  "newChunkReader reader = \<lparr>cr_in = reader, cr_buf = None, cr_offset = 0\<rparr>"

definition chunk_Read :: "nat \<Rightarrow> chunk_reader \<Rightarrow> chunk_reader read_result" where
  "chunk_Read n cr =
     (case cr_buf cr of
        Some buf \<Rightarrow>
          let d = take n (drop (cr_offset cr) buf); offset = cr_offset cr + length d in
          (d, None, cr\<lparr>cr_offset := offset, cr_buf := if offset = length buf then None else Some buf\<rparr>)
      | None \<Rightarrow>
          (case ReadFull 2 (cr_in cr) of
             (d, Some e, c) \<Rightarrow> ([], Some e, cr\<lparr>cr_in := c\<rparr>)
           | (sizeBuf, None, c) \<Rightarrow>
               let size = be16_val sizeBuf in
               if maxSize < size then ([], Some (IoErr ''buffer is larger than standard''), cr\<lparr>cr_in := c\<rparr>)
               else if size \<le> n then
                 (case ReadFull size c of
                    (d, Some e, c) \<Rightarrow> ([], Some e, cr\<lparr>cr_in := c\<rparr>)
                  | (d, None, c) \<Rightarrow> (d, None, cr\<lparr>cr_in := c\<rparr>))
               else
                 (case ReadFull size c of
                    (d, Some e, c) \<Rightarrow> ([], Some e, cr\<lparr>cr_in := c\<rparr>)
                  | (buf, None, c) \<Rightarrow> (take n buf, None, cr\<lparr>cr_in := c, cr_buf := Some buf, cr_offset := n\<rparr>))))"

function chunk_Write :: "bytes \<Rightarrow> wire \<Rightarrow> nat \<times> bool \<times> wire" where
  "chunk_Write b w =
     (if b = [] then (0, True, w)
      else
        let readLen = (if length b < chunkSize then length b else chunkSize) in
        case conn_Write (be16 readLen @ take readLen b) w of
          (False, w) \<Rightarrow> (0, False, w)
        | (True, w) \<Rightarrow> (case chunk_Write (drop readLen b) w of (n, r) \<Rightarrow> (readLen + n, r)))"
  by pat_completeness auto
termination by (relation "measure (length \<circ> fst)") (auto simp: chunkSize_def)

declare chunk_Write.simps [simp del]

text \<open>The stream of the chunks \<open>ps\<close>, and what a reader still has to give.\<close>

fun chunk_stream :: "bytes list \<Rightarrow> bytes" where
  "chunk_stream [] = []"
| "chunk_stream (p # ps) = be16 (length p) @ p @ chunk_stream ps"

lemma chunk_stream_append: "chunk_stream (ps @ qs) = chunk_stream ps @ chunk_stream qs"
  by (induction ps) auto

definition chunks_ok :: "bytes list \<Rightarrow> bool" where
  "chunks_ok ps \<longleftrightarrow> list_all (\<lambda>p. length p \<le> maxSize) ps"

definition pending :: "bytes option \<Rightarrow> nat \<Rightarrow> bytes" where
  "pending buf offset = (case buf of None \<Rightarrow> [] | Some b \<Rightarrow> drop offset b)"

definition buf_ok :: "bytes option \<Rightarrow> nat \<Rightarrow> bool" where
  "buf_ok buf offset \<longleftrightarrow> (\<forall>b. buf = Some b \<longrightarrow> offset < length b)"

definition chunk_holds :: "chunk_reader \<Rightarrow> bytes \<Rightarrow> bool" where
  "chunk_holds cr p \<longleftrightarrow> buf_ok (cr_buf cr) (cr_offset cr) \<and>
     (\<exists>ps. concat (cr_in cr) = chunk_stream ps \<and> chunks_ok ps \<and> p = pending (cr_buf cr) (cr_offset cr) @ concat ps)"

definition chunk_todo :: "chunk_reader \<Rightarrow> nat" where
  "chunk_todo cr = seg_size (cr_in cr) + length (pending (cr_buf cr) (cr_offset cr))"

lemma pending_simps [simp]: "pending None k = []" "pending (Some b) k = drop k b"
  by (simp_all add: pending_def)

lemma buf_ok_None [simp]: "buf_ok None k"
  by (simp add: buf_ok_def)

lemma buffered_read:
  assumes "buf_ok (Some b) k" "0 < n" "d = take n (drop k b)" "buf' = (if k + length d = length b then None else Some b)"
  shows "length d \<le> n" "drop k b = d @ pending buf' (k + length d)" "buf_ok buf' (k + length d)"
    "length (pending buf' (k + length d)) < length (drop k b)"
proof -
  show "length d \<le> n" using assms(3) by simp
  have "drop (k + length d) b = drop n (drop k b)" using assms(3) by (cases "n \<le> length b - k") (auto simp: add.commute)
  then have p: "pending buf' (k + length d) = drop n (drop k b)" using assms(4) by auto
  show e: "drop k b = d @ pending buf' (k + length d)" unfolding p unfolding assms(3) by (rule append_take_drop_id [symmetric])
  from assms have "d \<noteq> []" by (auto simp: buf_ok_def)
  with arg_cong [OF e, of length] show "length (pending buf' (k + length d)) < length (drop k b)" by (cases d) auto
  show "buf_ok buf' (k + length d)" using assms by (auto simp: buf_ok_def)
qed

lemma chunk_step:
  assumes "chunk_holds cr p" "0 < n" "chunk_Read n cr = (d, e, cr')"
  shows "case e of None \<Rightarrow> length d \<le> n \<and> chunk_todo cr' < chunk_todo cr \<and> (\<exists>p'. p = d @ p' \<and> chunk_holds cr' p')
    | Some x \<Rightarrow> x = EOF \<and> p = [] \<and> d = []"
proof -
  from assms(1) obtain ps where ok: "buf_ok (cr_buf cr) (cr_offset cr)" and s: "concat (cr_in cr) = chunk_stream ps"
    and ps: "chunks_ok ps" and p: "p = pending (cr_buf cr) (cr_offset cr) @ concat ps" by (auto simp: chunk_holds_def)
  show ?thesis
  proof (cases "cr_buf cr")
    case (Some b)
    define k where "k = cr_offset cr + length d"
    define b' where "b' = (if k = length b then None else Some b)"
    from assms(3) Some have e: "e = None" "d = take n (drop (cr_offset cr) b)" "cr' = cr\<lparr>cr_offset := k, cr_buf := b'\<rparr>"
      by (auto simp: chunk_Read_def Let_def k_def b'_def)
    note r = buffered_read [OF ok [unfolded Some] assms(2) e(2) b'_def [unfolded k_def], folded k_def]
    have "chunk_holds cr' (pending b' k @ concat ps)" using s ps r(3) by (auto simp: e(3) chunk_holds_def)
    then show ?thesis using r by (auto simp: e(1,3) p Some chunk_todo_def)
  next
    case None
    show ?thesis
    proof (cases ps)
      case Nil
      with s None assms(3) p show ?thesis by (auto simp: chunk_Read_def ReadFull_empty pending_def)
    next
      case (Cons q qs)
      with ps have q: "length q \<le> maxSize" "chunks_ok qs" by (auto simp: chunks_ok_def)
      then have v: "be16_val (be16 (length q)) = length q" by (intro be16_val_be16) (simp add: maxSize_def)
      from s Cons obtain c1 where c1: "ReadFull 2 (cr_in cr) = (be16 (length q), None, c1)"
        "concat c1 = q @ chunk_stream qs" "seg_size c1 + 2 \<le> seg_size (cr_in cr)" by (auto elim: ReadFull_append)
      from c1(2) obtain c2 where c2: "ReadFull (length q) c1 = (q, None, c2)" "concat c2 = chunk_stream qs"
        "seg_size c2 + length q \<le> seg_size c1" by (auto elim: ReadFull_append)
      from assms(3) None have e: "e = None" "d = take n q"
        "cr' = (if length q \<le> n then cr\<lparr>cr_in := c2\<rparr> else cr\<lparr>cr_in := c2, cr_buf := Some q, cr_offset := n\<rparr>)"
        using q(1) by (auto simp: chunk_Read_def c1(1) c2(1) v Let_def split: if_splits)
      have "chunk_holds cr' (drop n q @ concat qs)"
        using None c2(2) q(2) by (auto simp: e(3) chunk_holds_def buf_ok_def pending_def)
      moreover have "p = take n q @ drop n q @ concat qs" by (simp add: p None pending_def Cons)
      moreover have "chunk_todo cr' < chunk_todo cr"
        using c1(3) c2(3) None by (auto simp: chunk_todo_def e(3) pending_def)
      ultimately show ?thesis using e by auto
    qed
  qed
qed

lemma chunk_Write_sent:
  "chunk_Write b w = (n, done_all, w') \<Longrightarrow>
     \<exists>ps. emitted w' = emitted w @ chunk_stream ps \<and> chunks_ok ps \<and> concat ps = take n b \<and> (done_all \<longrightarrow> n = length b)"
proof (induction b w arbitrary: n rule: chunk_Write.induct)
  case (1 b w)
  show ?case
  proof (cases "b = []")
    case True
    with "1.prems" show ?thesis by (intro exI [of _ "[]"]) (auto simp: chunk_Write.simps chunks_ok_def)
  next
    case False
    define k where "k = (if length b < chunkSize then length b else chunkSize)"
    obtain ok w1 where wr: "conn_Write (be16 k @ take k b) w = (ok, w1)" by fastforce
    show ?thesis
    proof (cases ok)
      case False
      with \<open>b \<noteq> []\<close> "1.prems" wr have "n = 0" "\<not> done_all" "w' = w1"
        by (auto simp: chunk_Write.simps [of b] Let_def k_def [symmetric])
      moreover have "w1 = w" using wr False by (auto simp: conn_Write_def split: if_splits)
      ultimately show ?thesis by (intro exI [of _ "[]"]) (auto simp: chunks_ok_def)
    next
      case True
      obtain m y w2 where h: "chunk_Write (drop k b) w1 = (m, y, w2)" by (metis surj_pair)
      with \<open>b \<noteq> []\<close> "1.prems" wr True have e: "n = k + m" "done_all = y" "w' = w2"
        by (auto simp: chunk_Write.simps [of b] Let_def k_def [symmetric])
      have em: "emitted w1 = emitted w @ be16 k @ take k b" using wr True by (auto simp: conn_Write_def split: if_splits)
      have kb: "k \<le> length b" "k \<le> maxSize" by (auto simp: k_def chunkSize_def maxSize_def)
      from "1.IH" [OF \<open>b \<noteq> []\<close> k_def wr [symmetric]] True h e obtain ps where
        ps: "emitted w' = emitted w1 @ chunk_stream ps" "chunks_ok ps" "concat ps = take m (drop k b)" "done_all \<longrightarrow> m = length (drop k b)"
        by auto
      show ?thesis
        using ps em kb by (intro exI [of _ "take k b # ps"]) (auto simp: chunks_ok_def e(1) take_add min_absorb2)
    qed
  qed
qed

definition chunk_sent :: "wire \<Rightarrow> bytes \<Rightarrow> bool" where
  "chunk_sent w p \<longleftrightarrow> (\<exists>ps. emitted w = chunk_stream ps \<and> chunks_ok ps \<and> concat ps = p)"

lemma chunk_Write_step:
  assumes "chunk_sent w p" "chunk_Write b w = (n, done_all, w')"
  shows "chunk_sent w' (p @ take n b)" "done_all \<Longrightarrow> n = length b"
proof -
  from assms(1) obtain ps where "emitted w = chunk_stream ps" "chunks_ok ps" "concat ps = p" by (auto simp: chunk_sent_def)
  moreover from chunk_Write_sent [OF assms(2)] obtain qs where "emitted w' = emitted w @ chunk_stream qs" "chunks_ok qs"
    "concat qs = take n b" "done_all \<longrightarrow> n = length b" by auto
  ultimately show "chunk_sent w' (p @ take n b)" "done_all \<Longrightarrow> n = length b"
    by (auto simp: chunk_sent_def chunk_stream_append chunks_ok_def intro!: exI [of _ "ps @ qs"])
qed

interpretation chunk: stream_pair chunk_Read chunk_holds chunk_todo 1 EOF chunk_Write "\<lambda>b. True" "\<lambda>b. b" length chunk_sent chunk_sent
  "\<lambda>w c. concat c = emitted w" newChunkReader
proof (unfold_locales, goal_cases)
  case (1 s p n d s') with chunk_step [of s p n d] show ?case by fastforce
next
  case (2 s p n d e s') with chunk_step [of s p n d] show ?case by fastforce
next
  case (3 w p b n w') with chunk_Write_step [OF 3(1,3)] show ?case by simp
next
  case (4 w p b n w') with chunk_Write_step [OF 4(1,3)] show ?case by blast
next
  case (6 w p c) then show ?case by (auto simp: chunk_sent_def chunk_holds_def newChunkReader_def)
qed

section \<open>Sealed chunks\<close>

text \<open>
  An authenticated cipher: \<open>Seal\<close> and \<open>Open\<close> with a nonce, and the bytes the seal adds.  It is
  \<open>sound\<close> when what was sealed can be opened.
\<close>

record aead =
  ae_Overhead :: nat
  ae_NonceSize :: nat
  ae_Seal :: "bytes \<Rightarrow> bytes \<Rightarrow> bytes"
  ae_Open :: "bytes \<Rightarrow> bytes \<Rightarrow> bytes option"

definition aead_sound :: "aead \<Rightarrow> bool" where
  "aead_sound a \<longleftrightarrow> ae_Overhead a < chunkSize \<and>
     (\<forall>nonce p. length (ae_Seal a nonce p) = length p + ae_Overhead a \<and> ae_Open a nonce (ae_Seal a nonce p) = Some p)"

text \<open>The nonce: the count of the chunk and ten bytes of the initial vector.\<close>

definition aead_nonce :: "aead \<Rightarrow> bytes \<Rightarrow> 16 word \<Rightarrow> bytes" where
  "aead_nonce a iv count = take (ae_NonceSize a) (be16 (unat count) @ take 10 (drop 2 iv) @ replicate 20 0)"

record aead_writer =
  aw_wire :: wire
  aw_aead :: aead
  aw_iv :: bytes
  aw_count :: "16 word"

definition newAEADWriter :: "wire \<Rightarrow> aead \<Rightarrow> bytes \<Rightarrow> aead_writer" where
  "newAEADWriter w a iv = \<lparr>aw_wire = w, aw_aead = a, aw_iv = iv, aw_count = 0\<rparr>"

text \<open>The cipher adds fewer bytes than a chunk has; with a longer seal the slice would panic.\<close>

function aead_Write :: "bytes \<Rightarrow> aead_writer \<Rightarrow> nat \<times> bool \<times> aead_writer" where
  "aead_Write b w =
     (if b = [] \<or> chunkSize \<le> ae_Overhead (aw_aead w) then (0, True, w)
      else
        let a = aw_aead w; room = chunkSize - ae_Overhead a;
            readLen = (if length b < room then length b else room);
            nonce = aead_nonce a (aw_iv w) (aw_count w);
            sealed = ae_Seal a nonce (take readLen b) in
        case conn_Write (be16 (readLen + ae_Overhead a) @ sealed) (aw_wire w) of
          (False, c) \<Rightarrow> (0, False, w\<lparr>aw_wire := c, aw_count := aw_count w + 1\<rparr>)
        | (True, c) \<Rightarrow>
            (case aead_Write (drop readLen b) (w\<lparr>aw_wire := c, aw_count := aw_count w + 1\<rparr>) of (n, r) \<Rightarrow> (readLen + n, r)))"
  by pat_completeness auto
termination by (relation "measure (length \<circ> fst)") auto

declare aead_Write.simps [simp del]

record aead_reader =
  ar_in :: segs
  ar_aead :: aead
  ar_buf :: "bytes option"
  ar_offset :: nat
  ar_iv :: bytes
  ar_count :: "16 word"

definition newAEADReader :: "segs \<Rightarrow> aead \<Rightarrow> bytes \<Rightarrow> aead_reader" where
  "newAEADReader r a iv = \<lparr>ar_in = r, ar_aead = a, ar_buf = None, ar_offset = 0, ar_iv = iv, ar_count = 0\<rparr>"

definition aead_Read :: "nat \<Rightarrow> aead_reader \<Rightarrow> aead_reader read_result" where
  "aead_Read n r =
     (case ar_buf r of
        Some buf \<Rightarrow>
          let d = take n (drop (ar_offset r) buf); offset = ar_offset r + length d in
          (d, None, r\<lparr>ar_offset := offset, ar_buf := if offset = length buf then None else Some buf\<rparr>)
      | None \<Rightarrow>
          (case ReadFull 2 (ar_in r) of
             (d, Some e, c) \<Rightarrow> ([], Some e, r\<lparr>ar_in := c\<rparr>)
           | (sizeBuf, None, c) \<Rightarrow>
               let size = be16_val sizeBuf in
               if maxSize < size then ([], Some (IoErr ''buffer is larger than standard''), r\<lparr>ar_in := c\<rparr>)
               else (case ReadFull size c of
                  (d, Some e, c) \<Rightarrow> ([], Some e, r\<lparr>ar_in := c\<rparr>)
                | (sealed, None, c) \<Rightarrow>
                    let r = r\<lparr>ar_in := c, ar_count := ar_count r + 1\<rparr> in
                    (case ae_Open (ar_aead r) (aead_nonce (ar_aead r) (ar_iv r) (ar_count r - 1)) sealed of
                       None \<Rightarrow> ([], Some (IoErr ''open''), r)
                     | Some plain \<Rightarrow>
                         let realLen = size - ae_Overhead (ar_aead r); buf = take realLen plain in
                         (take n buf, None, if realLen \<le> n then r else r\<lparr>ar_offset := n, ar_buf := Some buf\<rparr>)))))"

fun aead_stream :: "aead \<Rightarrow> bytes \<Rightarrow> 16 word \<Rightarrow> bytes list \<Rightarrow> bytes" where
  "aead_stream a iv count [] = []"
| "aead_stream a iv count (p # ps) =
     be16 (length p + ae_Overhead a) @ ae_Seal a (aead_nonce a iv count) p @ aead_stream a iv (count + 1) ps"

lemma aead_stream_append:
  "aead_stream a iv count (ps @ qs) = aead_stream a iv count ps @ aead_stream a iv (count + of_nat (length ps)) qs"
  by (induction ps arbitrary: count) (auto simp: algebra_simps)

definition sealed_ok :: "aead \<Rightarrow> bytes list \<Rightarrow> bool" where
  "sealed_ok a ps \<longleftrightarrow> list_all (\<lambda>p. length p + ae_Overhead a \<le> maxSize) ps"

definition aead_holds :: "aead_reader \<Rightarrow> bytes \<Rightarrow> bool" where
  "aead_holds r p \<longleftrightarrow> aead_sound (ar_aead r) \<and> buf_ok (ar_buf r) (ar_offset r) \<and>
     (\<exists>ps. concat (ar_in r) = aead_stream (ar_aead r) (ar_iv r) (ar_count r) ps \<and> sealed_ok (ar_aead r) ps \<and>
        p = pending (ar_buf r) (ar_offset r) @ concat ps)"

definition aead_todo :: "aead_reader \<Rightarrow> nat" where
  "aead_todo r = seg_size (ar_in r) + length (pending (ar_buf r) (ar_offset r))"

lemma aead_step:
  assumes "aead_holds r p" "0 < n" "aead_Read n r = (d, e, r')"
  shows "case e of None \<Rightarrow> length d \<le> n \<and> aead_todo r' < aead_todo r \<and> (\<exists>p'. p = d @ p' \<and> aead_holds r' p')
    | Some x \<Rightarrow> x = EOF \<and> p = [] \<and> d = []"
proof -
  let ?a = "ar_aead r"
  from assms(1) obtain ps where snd: "aead_sound ?a" and ok: "buf_ok (ar_buf r) (ar_offset r)"
    and s: "concat (ar_in r) = aead_stream ?a (ar_iv r) (ar_count r) ps"
    and ps: "sealed_ok ?a ps" and p: "p = pending (ar_buf r) (ar_offset r) @ concat ps" by (auto simp: aead_holds_def)
  show ?thesis
  proof (cases "ar_buf r")
    case (Some b)
    define k where "k = ar_offset r + length d"
    define b' where "b' = (if k = length b then None else Some b)"
    from assms(3) Some have e: "e = None" "d = take n (drop (ar_offset r) b)" "r' = r\<lparr>ar_offset := k, ar_buf := b'\<rparr>"
      by (auto simp: aead_Read_def Let_def k_def b'_def)
    note f = buffered_read [OF ok [unfolded Some] assms(2) e(2) b'_def [unfolded k_def], folded k_def]
    have "aead_holds r' (pending b' k @ concat ps)" using snd s ps f(3) by (auto simp: e(3) aead_holds_def)
    then show ?thesis using f by (auto simp: e(1,3) p Some aead_todo_def)
  next
    case None
    show ?thesis
    proof (cases ps)
      case Nil
      with s None assms(3) p show ?thesis by (auto simp: aead_Read_def ReadFull_empty)
    next
      case (Cons q qs)
      let ?sealed = "ae_Seal ?a (aead_nonce ?a (ar_iv r) (ar_count r)) q"
      let ?size = "length q + ae_Overhead ?a"
      from ps Cons have q: "?size \<le> maxSize" "sealed_ok ?a qs" by (auto simp: sealed_ok_def)
      then have v: "be16_val (be16 ?size) = ?size" by (intro be16_val_be16) (simp add: maxSize_def)
      from snd have sl: "length ?sealed = ?size" "ae_Open ?a (aead_nonce ?a (ar_iv r) (ar_count r)) ?sealed = Some q"
        by (simp_all add: aead_sound_def)
      from s Cons obtain c1 where c1: "ReadFull 2 (ar_in r) = (be16 ?size, None, c1)"
        "concat c1 = ?sealed @ aead_stream ?a (ar_iv r) (ar_count r + 1) qs" "seg_size c1 + 2 \<le> seg_size (ar_in r)"
        by (auto elim: ReadFull_append)
      from c1(2) sl(1) obtain c2 where c2: "ReadFull ?size c1 = (?sealed, None, c2)"
        "concat c2 = aead_stream ?a (ar_iv r) (ar_count r + 1) qs" "seg_size c2 + ?size \<le> seg_size c1" by (rule ReadFull_append)
      let ?r = "r\<lparr>ar_in := c2, ar_count := ar_count r + 1\<rparr>"
      from assms(3) None have e: "e = None" "d = take n q"
        "r' = (if length q \<le> n then ?r else ?r\<lparr>ar_offset := n, ar_buf := Some q\<rparr>)"
        using q(1) by (auto simp: aead_Read_def c1(1) c2(1) v sl Let_def split: if_splits)
      have "aead_holds r' (drop n q @ concat qs)"
        using None c2(2) q(2) snd by (auto simp: e(3) aead_holds_def buf_ok_def)
      moreover have "p = take n q @ drop n q @ concat qs" by (simp add: p None Cons)
      moreover have "aead_todo r' < aead_todo r"
        using c1(3) c2(3) None by (auto simp: aead_todo_def e(3))
      ultimately show ?thesis using e by auto
    qed
  qed
qed

lemma aead_Write_stream:
  "aead_Write b w = (n, done_all, w') \<Longrightarrow> aead_sound (aw_aead w) \<Longrightarrow>
     aw_aead w' = aw_aead w \<and> aw_iv w' = aw_iv w \<and>
     (\<exists>ps. emitted (aw_wire w') = emitted (aw_wire w) @ aead_stream (aw_aead w) (aw_iv w) (aw_count w) ps \<and>
        sealed_ok (aw_aead w) ps \<and> concat ps = take n b \<and>
        (done_all \<longrightarrow> n = length b \<and> aw_count w' = aw_count w + of_nat (length ps)))"
proof (induction b w arbitrary: n rule: aead_Write.induct)
  case (1 b w)
  let ?a = "aw_aead w"
  show ?case
  proof (cases "b = []")
    case True
    with "1.prems" show ?thesis by (auto simp: aead_Write.simps sealed_ok_def intro: exI [of _ "[]"])
  next
    case False
    from "1.prems"(2) have ov: "\<not> chunkSize \<le> ae_Overhead ?a" and sl: "\<And>nonce p. length (ae_Seal ?a nonce p) = length p + ae_Overhead ?a"
      by (auto simp: aead_sound_def)
    with False have g: "\<not> (b = [] \<or> chunkSize \<le> ae_Overhead ?a)" by simp
    define k where "k = (if length b < chunkSize - ae_Overhead ?a then length b else chunkSize - ae_Overhead ?a)"
    define nonce where "nonce = aead_nonce ?a (aw_iv w) (aw_count w)"
    obtain ok c where wr: "conn_Write (be16 (k + ae_Overhead ?a) @ ae_Seal ?a nonce (take k b)) (aw_wire w) = (ok, c)" by fastforce
    let ?w = "w\<lparr>aw_wire := c, aw_count := aw_count w + 1\<rparr>"
    show ?thesis
    proof (cases ok)
      case False
      with g "1.prems"(1) wr have "n = 0" "\<not> done_all" "w' = ?w"
        by (auto simp: aead_Write.simps [of b] Let_def k_def [symmetric] nonce_def [symmetric])
      moreover have "c = aw_wire w" using wr False by (auto simp: conn_Write_def split: if_splits)
      ultimately show ?thesis by (auto simp: sealed_ok_def intro!: exI [of _ "[]"])
    next
      case True
      obtain m y w2 where h: "aead_Write (drop k b) ?w = (m, y, w2)" by (metis surj_pair)
      with g "1.prems"(1) wr True have e: "n = k + m" "done_all = y" "w' = w2"
        by (auto simp: aead_Write.simps [of b] Let_def k_def [symmetric] nonce_def [symmetric])
      have em: "emitted c = emitted (aw_wire w) @ be16 (k + ae_Overhead ?a) @ ae_Seal ?a nonce (take k b)"
        using wr True by (auto simp: conn_Write_def split: if_splits)
      have kb: "k \<le> length b" "k + ae_Overhead ?a \<le> maxSize" using ov by (auto simp: k_def chunkSize_def maxSize_def)
      have ih: "aw_aead w' = ?a \<and> aw_iv w' = aw_iv w \<and>
        (\<exists>ps. emitted (aw_wire w') = emitted c @ aead_stream ?a (aw_iv w) (aw_count w + 1) ps \<and>
        sealed_ok ?a ps \<and> concat ps = take m (drop k b) \<and>
        (done_all \<longrightarrow> m = length (drop k b) \<and> aw_count w' = aw_count w + 1 + of_nat (length ps)))"
        using "1.IH" [OF g refl refl k_def nonce_def refl wr [symmetric]] True h "1.prems"(2) e by simp
      then obtain ps where ps: "aw_aead w' = ?a" "aw_iv w' = aw_iv w"
        "emitted (aw_wire w') = emitted c @ aead_stream ?a (aw_iv w) (aw_count w + 1) ps"
        "sealed_ok ?a ps" "concat ps = take m (drop k b)"
        "done_all \<longrightarrow> m = length (drop k b) \<and> aw_count w' = aw_count w + 1 + of_nat (length ps)" by blast
      then show ?thesis
        using em kb by (auto simp: sealed_ok_def e(1) take_add min_absorb2 nonce_def intro!: exI [of _ "take k b # ps"])
    qed
  qed
qed

text \<open>The count goes on with the chunks; after a failed write it is one ahead.\<close>

definition aead_ended :: "aead \<Rightarrow> bytes \<Rightarrow> aead_writer \<Rightarrow> bytes \<Rightarrow> bool" where
  "aead_ended a iv w p \<longleftrightarrow> (\<exists>ps. emitted (aw_wire w) = aead_stream a iv 0 ps \<and> sealed_ok a ps \<and> concat ps = p)"

definition aead_sent :: "aead \<Rightarrow> bytes \<Rightarrow> aead_writer \<Rightarrow> bytes \<Rightarrow> bool" where
  "aead_sent a iv w p \<longleftrightarrow> aead_sound a \<and> aw_aead w = a \<and> aw_iv w = iv \<and>
     (\<exists>ps. emitted (aw_wire w) = aead_stream a iv 0 ps \<and> sealed_ok a ps \<and> concat ps = p \<and> aw_count w = of_nat (length ps))"

lemma aead_Write_step:
  assumes "aead_sent a iv w p" "aead_Write b w = (n, done_all, w')"
  shows "aead_ended a iv w' (p @ take n b)" "done_all \<Longrightarrow> n = length b \<and> aead_sent a iv w' (p @ b)"
proof -
  from assms(1) obtain ps where s: "aead_sound a" "aw_aead w = a" "aw_iv w = iv"
    and ps: "emitted (aw_wire w) = aead_stream a iv 0 ps" "sealed_ok a ps" "concat ps = p" "aw_count w = of_nat (length ps)"
    by (auto simp: aead_sent_def)
  from aead_Write_stream [OF assms(2)] s ps(4) obtain qs where w': "aw_aead w' = a" "aw_iv w' = iv"
    and qs: "emitted (aw_wire w') = emitted (aw_wire w) @ aead_stream a iv (of_nat (length ps)) qs"
      "sealed_ok a qs" "concat qs = take n b" "done_all \<longrightarrow> n = length b \<and> aw_count w' = of_nat (length ps) + of_nat (length qs)" by auto
  have e: "emitted (aw_wire w') = aead_stream a iv 0 (ps @ qs)" by (simp add: qs(1) ps(1) aead_stream_append)
  have ok: "sealed_ok a (ps @ qs)" using ps(2) qs(2) by (simp add: sealed_ok_def)
  have c: "concat (ps @ qs) = p @ take n b" by (simp add: ps(3) qs(3))
  from e ok c show "aead_ended a iv w' (p @ take n b)" unfolding aead_ended_def by blast
  assume "done_all"
  with qs(4) have n: "n = length b" "aw_count w' = of_nat (length (ps @ qs))" by simp_all
  with c have "concat (ps @ qs) = p @ b" by simp
  with e ok n s w' show "n = length b \<and> aead_sent a iv w' (p @ b)" unfolding aead_sent_def by blast
qed

interpretation aead: stream_pair aead_Read aead_holds aead_todo 1 EOF aead_Write "\<lambda>b. True" "\<lambda>b. b" length "aead_sent a iv" "\<lambda>w p. aead_sound a \<and> aead_ended a iv w p"
  "\<lambda>w c. concat c = emitted (aw_wire w)" "\<lambda>c. newAEADReader c a iv" for a iv
proof (unfold_locales, goal_cases)
  case (1 s p n d s') with aead_step [of s p n d] show ?case by fastforce
next
  case (2 s p n d e s') with aead_step [of s p n d] show ?case by fastforce
next
  case (3 w p b n w') with aead_Write_step [OF 3(1,3)] show ?case by simp
next
  case (4 w p b n w') with aead_Write_step [OF 4(1,3)] show ?case by (auto simp: aead_sent_def)
next
  case (5 w p) then show ?case by (auto simp: aead_sent_def aead_ended_def)
next
  case (6 w p c) then show ?case by (auto simp: aead_ended_def aead_holds_def newAEADReader_def)
qed


text \<open>
  Whatever a VMess connection with a sealing cipher writes, in writes of any sizes, the other
  end reads back, however the network cuts the stream and whatever buffers it reads with: a
  beginning of it when a write failed, all of it otherwise, and then the end of the stream.
\<close>

theorem aead_read_back:
  assumes "aead_sound a" "write_all aead_Write bs (newAEADWriter \<lparr>wr_out = [], wr_room = room\<rparr> a iv) = (n, done_all, w)"
    and "concat c = emitted (aw_wire w)" "list_all (\<lambda>n. 1 \<le> n) ns" "seg_size c < length ns"
  shows "\<exists>k. drain aead_Read ns (newAEADReader c a iv) = (take k (concat bs), Some EOF) \<and>
    (done_all \<longrightarrow> n = length (concat bs) \<and> drain aead_Read ns (newAEADReader c a iv) = (concat bs, Some EOF))"
proof -
  have "aead_sent a iv (newAEADWriter \<lparr>wr_out = [], wr_room = room\<rparr> a iv) []"
    using assms(1) by (auto simp: aead_sent_def newAEADWriter_def sealed_ok_def intro: exI [of _ "[]"])
  moreover have "aead_todo (newAEADReader c a iv) < length ns" using assms(5) by (simp add: aead_todo_def newAEADReader_def)
  ultimately show ?thesis
    using aead.read_back [OF _ _ assms(2,3,4)] by (simp add: list_all_iff length_concat)
qed

text \<open>A cipher that fulfils the law: the seal appends sixteen bytes.\<close>

definition plain_aead :: aead where
  "plain_aead = \<lparr>ae_Overhead = 16, ae_NonceSize = 12, ae_Seal = (\<lambda>nonce p. p @ replicate 16 (nonce ! 1)),
     ae_Open = (\<lambda>nonce b. if drop (length b - 16) b = replicate 16 (nonce ! 1) then Some (take (length b - 16) b) else None)\<rparr>"

lemma plain_aead_sound: "aead_sound plain_aead"
  by (simp add: aead_sound_def plain_aead_def chunkSize_def)

definition demo_wire :: bytes where
  "demo_wire = [0, 19, 1, 2, 3] @ replicate 16 0 @ [0, 17, 4] @ replicate 16 1"

lemma demo_write:
  "write_all aead_Write [[1, 2, 3], [4]] (newAEADWriter \<lparr>wr_out = [], wr_room = 9\<rparr> plain_aead (replicate 16 7)) =
     (4, True, \<lparr>aw_wire = \<lparr>wr_out = [[0, 19, 1, 2, 3] @ replicate 16 0, [0, 17, 4] @ replicate 16 1], wr_room = 7\<rparr>,
        aw_aead = plain_aead, aw_iv = replicate 16 7, aw_count = 2\<rparr>)"
  by (simp add: aead_Write.simps newAEADWriter_def plain_aead_def chunkSize_def conn_Write_def be16_def aead_nonce_def Let_def)

theorem aead_read_back_witness:
  "drain aead_Read (replicate 50 2) (newAEADReader [take 6 demo_wire, drop 6 demo_wire] plain_aead (replicate 16 7)) =
     ([1, 2, 3, 4], Some EOF)"
proof -
  have "concat [take 6 demo_wire, drop 6 demo_wire] = [0, 19, 1, 2, 3] @ replicate 16 0 @ [0, 17, 4] @ replicate 16 1"
    unfolding concat.simps append_Nil2 append_take_drop_id by (rule demo_wire_def)
  moreover have "seg_size [take 6 demo_wire, drop 6 demo_wire] < length (replicate 50 (2::nat))"
    by (simp add: demo_wire_def seg_size_def)
  ultimately show ?thesis
    using aead_read_back [OF plain_aead_sound demo_write, of "[take 6 demo_wire, drop 6 demo_wire]" "replicate 50 2"]
    by (simp add: list_all_iff)
qed

end
