(* ===== verification/ClashObfs.thy ===== *)
theory ClashObfs
  imports ClashChunks
begin

text \<open>
  \<open>transport/simple-obfs\<close> and \<open>transport/v2ray-plugin/mux.go\<close>: framings that make a Shadowsocks
  stream look like TLS, like HTTP, or carry it as one session of a multiplexed connection.
\<close>

section \<open>TLS\<close>

record tls_obfs =
  to_in :: segs
  to_wire :: wire
  to_server :: bytes
  to_remain :: nat
  to_firstRequest :: bool
  to_firstResponse :: bool

definition NewTLSObfs :: "segs \<Rightarrow> wire \<Rightarrow> bytes \<Rightarrow> tls_obfs" where
  "NewTLSObfs c w server =
     \<lparr>to_in = c, to_wire = w, to_server = server, to_remain = 0, to_firstRequest = True, to_firstResponse = True\<rparr>"

text \<open>The error of the second read is dropped, as the source drops it.\<close>

definition tls_read :: "nat \<Rightarrow> nat \<Rightarrow> tls_obfs \<Rightarrow> tls_obfs read_result" where
  "tls_read n discardN s =
     (case ReadFull discardN (to_in s) of
        (d, Some e, c) \<Rightarrow> ([], Some e, s\<lparr>to_in := c\<rparr>)
      | (d, None, c) \<Rightarrow>
          (case ReadFull 2 c of
             (d, Some e, c) \<Rightarrow> ([], None, s\<lparr>to_in := c\<rparr>)
           | (sizeBuf, None, c) \<Rightarrow>
               let size = be16_val sizeBuf in
               if n < size then
                 (case conn_Read n c of
                    (d, Some e, c) \<Rightarrow> (d, Some e, s\<lparr>to_in := c\<rparr>)
                  | (d, None, c) \<Rightarrow> (d, None, s\<lparr>to_in := c, to_remain := size - length d\<rparr>))
               else (case ReadFull size c of (d, e, c) \<Rightarrow> (d, e, s\<lparr>to_in := c\<rparr>))))"

definition tls_Read :: "nat \<Rightarrow> tls_obfs \<Rightarrow> tls_obfs read_result" where
  "tls_Read n s =
     (if 0 < to_remain s then
        let l = (if n < to_remain s then n else to_remain s) in
        (case ReadFull l (to_in s) of (d, e, c) \<Rightarrow> (d, e, s\<lparr>to_in := c, to_remain := to_remain s - length d\<rparr>))
      else if to_firstResponse s then tls_read n 105 (s\<lparr>to_firstResponse := False\<rparr>)
      else tls_read n 3 s)"

text \<open>The records a peer sends: a header of 105 bytes first, of three bytes afterwards.\<close>

fun tls_stream :: "(bytes \<times> bytes) list \<Rightarrow> bytes" where
  "tls_stream [] = []"
| "tls_stream ((h, d) # fs) = h @ be16 (length d) @ d @ tls_stream fs"

fun tls_ok :: "bool \<Rightarrow> (bytes \<times> bytes) list \<Rightarrow> bool" where
  "tls_ok first [] = True"
| "tls_ok first ((h, d) # fs) \<longleftrightarrow> length h = (if first then 105 else 3) \<and> length d < 65536 \<and> tls_ok False fs"

lemma tls_stream_append: "tls_stream (fs @ gs) = tls_stream fs @ tls_stream gs"
  by (induction fs) auto

lemma tls_ok_append: "tls_ok False (fs @ gs) \<longleftrightarrow> tls_ok False fs \<and> tls_ok False gs"
  by (induction fs) auto

definition tls_holds :: "tls_obfs \<Rightarrow> bytes \<Rightarrow> bool" where
  "tls_holds s p \<longleftrightarrow> (\<exists>t fs. concat (to_in s) = t @ tls_stream fs \<and> length t = to_remain s \<and>
     (to_firstResponse s \<longrightarrow> t = []) \<and> tls_ok (to_firstResponse s) fs \<and> p = t @ concat (map snd fs))"

definition tls_todo :: "tls_obfs \<Rightarrow> nat" where
  "tls_todo s = seg_size (to_in s)"

lemma tls_read_step:
  assumes "concat (to_in s) = tls_stream fs" "tls_ok (k = 105) fs" "k = 3 \<or> k = 105" "to_remain s = 0" "\<not> to_firstResponse s"
    and "0 < n" "tls_read n k s = (d, e, s')"
  shows "case e of None \<Rightarrow> length d \<le> n \<and> tls_todo s' < tls_todo s \<and> (\<exists>p'. concat (map snd fs) = d @ p' \<and> tls_holds s' p')
    | Some x \<Rightarrow> x = EOF \<and> concat (map snd fs) = [] \<and> d = []"
proof (cases fs)
  case Nil
  moreover from assms(3) have "0 < k" by auto
  ultimately show ?thesis using assms(1,7) by (auto simp: tls_read_def ReadFull_empty)
next
  case (Cons f gs)
  obtain h q where f: "f = (h, q)" by fastforce
  from assms(2,3) Cons f have h: "length h = k" "length q < 65536" "tls_ok False gs" by auto
  from assms(1) Cons f have "concat (to_in s) = h @ be16 (length q) @ q @ tls_stream gs" by simp
  from this h(1) obtain c1 where c1: "ReadFull k (to_in s) = (h, None, c1)" "concat c1 = be16 (length q) @ q @ tls_stream gs"
    "seg_size c1 + k \<le> seg_size (to_in s)" by (rule ReadFull_append)
  from c1(2) length_be16 obtain c2 where c2: "ReadFull 2 c1 = (be16 (length q), None, c2)" "concat c2 = q @ tls_stream gs"
    "seg_size c2 + 2 \<le> seg_size c1" by (rule ReadFull_append)
  note v = be16_val_be16 [OF h(2)]
  show ?thesis
  proof (cases "n < length q")
    case True
    with c2(2) have "c2 \<noteq> []" by auto
    with conn_Read_some [OF assms(6)] obtain x c3 where c3: "conn_Read n c2 = (x, None, c3)" "length x \<le> n" "concat c2 = x @ concat c3"
      "seg_size c3 < seg_size c2" by blast
    from assms(7) True have e: "e = None" "d = x" "s' = s\<lparr>to_in := c3, to_remain := length q - length x\<rparr>"
      by (auto simp: tls_read_def c1(1) c2(1) v c3(1) Let_def)
    from c3(2) True have x: "x = take (length x) q" and r: "concat c3 = drop (length x) q @ tls_stream gs"
      using arg_cong [OF c3(3), of "take (length x)"] arg_cong [OF c3(3), of "drop (length x)"] c2(2) by auto
    have "tls_holds s' (drop (length x) q @ concat (map snd gs))"
      unfolding tls_holds_def using r h(3) assms(5) e(3) by (intro exI [of _ "drop (length x) q"] exI [of _ gs]) auto
    moreover have "concat (map snd fs) = x @ drop (length x) q @ concat (map snd gs)"
      using x Cons f by (metis append.assoc append_take_drop_id concat.simps(2) list.simps(9) snd_conv)
    ultimately show ?thesis using c3(2,4) c2(3) c1(3) e by (auto simp: tls_todo_def)
  next
    case False
    from c2(2) obtain c3 where c3: "ReadFull (length q) c2 = (q, None, c3)" "concat c3 = tls_stream gs"
      "seg_size c3 + length q \<le> seg_size c2" by (auto elim: ReadFull_append)
    from assms(7) False have e: "e = None" "d = q" "s' = s\<lparr>to_in := c3\<rparr>"
      by (auto simp: tls_read_def c1(1) c2(1) v c3(1) Let_def)
    have "tls_holds s' (concat (map snd gs))" using assms(4,5) h(3) c3(2) e(3) by (auto simp: tls_holds_def)
    then show ?thesis using e c3(3) c2(3) c1(3) False Cons f by (auto simp: tls_todo_def)
  qed
qed

lemma tls_step:
  assumes "tls_holds s p" "0 < n" "tls_Read n s = (d, e, s')"
  shows "case e of None \<Rightarrow> length d \<le> n \<and> tls_todo s' < tls_todo s \<and> (\<exists>p'. p = d @ p' \<and> tls_holds s' p')
    | Some x \<Rightarrow> x = EOF \<and> p = [] \<and> d = []"
proof -
  from assms(1) obtain t fs where s: "concat (to_in s) = t @ tls_stream fs" "length t = to_remain s"
    "to_firstResponse s \<longrightarrow> t = []" "tls_ok (to_firstResponse s) fs" and p: "p = t @ concat (map snd fs)" by (auto simp: tls_holds_def)
  show ?thesis
  proof (cases "0 < to_remain s")
    case True
    define l where "l = (if n < to_remain s then n else to_remain s)"
    have l: "l \<le> length t" "l \<le> n" "0 < l" using True assms(2) s(2) by (auto simp: l_def)
    have t: "t = take l t @ drop l t" by simp
    from s(1) have "concat (to_in s) = take l t @ drop l t @ tls_stream fs" by (metis append.assoc append_take_drop_id)
    moreover have "length (take l t) = l" using l(1) by simp
    ultimately obtain c where c: "ReadFull l (to_in s) = (take l t, None, c)" "concat c = drop l t @ tls_stream fs"
      "seg_size c + l \<le> seg_size (to_in s)" by (rule ReadFull_append)
    from assms(3) True have e: "e = None" "d = take l t" "s' = s\<lparr>to_in := c, to_remain := to_remain s - l\<rparr>"
      using l(1) by (auto simp: tls_Read_def l_def [symmetric] c(1) Let_def min_absorb2)
    have nf: "\<not> to_firstResponse s" using True s(2,3) by auto
    then have "tls_holds s' (drop l t @ concat (map snd fs))"
      unfolding tls_holds_def using c(2) s(2,4) e(3) by (intro exI [of _ "drop l t"] exI [of _ fs]) auto
    moreover have "p = take l t @ drop l t @ concat (map snd fs)" by (simp add: p)
    ultimately show ?thesis using e c(3) l by (auto simp: tls_todo_def)
  next
    case False
    with s(2) have t: "t = []" "to_remain s = 0" by auto
    show ?thesis
    proof (cases "to_firstResponse s")
      case True
      with assms(3) False have "tls_read n 105 (s\<lparr>to_firstResponse := False\<rparr>) = (d, e, s')" by (simp add: tls_Read_def)
      from tls_read_step [OF _ _ _ _ _ assms(2) this, of fs] s True t p show ?thesis by (cases e) (simp_all add: tls_todo_def)
    next
      case nf: False
      with assms(3) False have "tls_read n 3 s = (d, e, s')" by (simp add: tls_Read_def)
      from tls_read_step [OF _ _ _ _ _ assms(2) this, of fs] s nf t p show ?thesis by (cases e) simp_all
    qed
  qed
qed

text \<open>
  The first write goes out in a client hello, as its session ticket.  The time and the two random
  values of the hello are parameters.
\<close>

definition be32 :: "nat \<Rightarrow> bytes" where
  "be32 n = be16 (n div 65536) @ be16 n"

definition tls_suites :: bytes where
  "tls_suites =
     [0xc0, 0x2c, 0xc0, 0x30, 0x00, 0x9f, 0xcc, 0xa9, 0xcc, 0xa8, 0xcc, 0xaa, 0xc0, 0x2b, 0xc0, 0x2f,
      0x00, 0x9e, 0xc0, 0x24, 0xc0, 0x28, 0x00, 0x6b, 0xc0, 0x23, 0xc0, 0x27, 0x00, 0x67, 0xc0, 0x0a,
      0xc0, 0x14, 0x00, 0x39, 0xc0, 0x09, 0xc0, 0x13, 0x00, 0x33, 0x00, 0x9d, 0x00, 0x9c, 0x00, 0x3d,
      0x00, 0x3c, 0x00, 0x35, 0x00, 0x2f, 0x00, 0xff]"

definition tls_groups :: bytes where
  "tls_groups =
     [0x00, 0x0b, 0x00, 0x04, 0x03, 0x01, 0x00, 0x02,
      0x00, 0x0a, 0x00, 0x0a, 0x00, 0x08, 0x00, 0x1d, 0x00, 0x17, 0x00, 0x19, 0x00, 0x18,
      0x00, 0x0d, 0x00, 0x20, 0x00, 0x1e, 0x06, 0x01, 0x06, 0x02, 0x06, 0x03, 0x05,
      0x01, 0x05, 0x02, 0x05, 0x03, 0x04, 0x01, 0x04, 0x02, 0x04, 0x03, 0x03, 0x01,
      0x03, 0x02, 0x03, 0x03, 0x02, 0x01, 0x02, 0x02, 0x02, 0x03,
      0x00, 0x16, 0x00, 0x00,
      0x00, 0x17, 0x00, 0x00]"

record hello_random =
  hr_now :: nat
  hr_random :: bytes
  hr_session :: bytes

definition makeClientHelloMsg :: "hello_random \<Rightarrow> bytes \<Rightarrow> bytes \<Rightarrow> bytes" where
  "makeClientHelloMsg r data server =
     [22] @ [0x03, 0x01] @ be16 (212 + length data + length server) @
     [1, 0] @ be16 (208 + length data + length server) @ [0x03, 0x03] @
     be32 (hr_now r) @ hr_random r @ [32] @ hr_session r @
     [0x00, 0x38] @ tls_suites @
     [0x01, 0x00] @
     be16 (79 + length data + length server) @
     [0x00, 0x23] @ be16 (length data) @ data @
     [0x00, 0x00] @ be16 (length server + 5) @ be16 (length server + 3) @ [0] @ be16 (length server) @ server @
     tls_groups"

definition obfs_chunkSize :: nat where "obfs_chunkSize = 16384"

definition tls_write :: "hello_random \<Rightarrow> bytes \<Rightarrow> tls_obfs \<Rightarrow> nat \<times> bool \<times> tls_obfs" where
  "tls_write r b s =
     (case conn_Write (if to_firstRequest s then makeClientHelloMsg r b (to_server s) else [0x17, 0x03, 0x03] @ be16 (length b) @ b)
        (to_wire s) of
        (ok, w) \<Rightarrow> (length b, ok, s\<lparr>to_wire := w, to_firstRequest := False\<rparr>))"

function tls_Write :: "hello_random \<Rightarrow> bytes \<Rightarrow> tls_obfs \<Rightarrow> nat \<times> bool \<times> tls_obfs" where
  "tls_Write r b s =
     (if b = [] then (0, True, s)
      else
        let k = (if length b < obfs_chunkSize then length b else obfs_chunkSize) in
        case tls_write r (take k b) s of
          (n, False, s) \<Rightarrow> (n, False, s)
        | (n, True, s) \<Rightarrow> (case tls_Write r (drop k b) s of (m, ok, s) \<Rightarrow> (if ok then k + m else m, ok, s)))"
  by pat_completeness auto
termination by (relation "measure (length \<circ> fst \<circ> snd)") (auto simp: obfs_chunkSize_def)

declare tls_Write.simps [simp del]

text \<open>The lengths in the hello are those of its parts, and the ticket is the data.\<close>

lemma hello_layout:
  assumes "length (hr_random r) = 28" "length (hr_session r) = 32" "212 + length data + length server < 65536"
    and "m = makeClientHelloMsg r data server"
  shows "take 3 m = [22, 3, 1] \<and> be16_val (drop 3 m) = length m - 5 \<and> be16_val (drop 7 m) = length m - 9 \<and>
    be16_val (drop 136 m) = length m - 138 \<and> be16_val (drop 140 m) = length data \<and> take (length data) (drop 142 m) = data"
proof -
  let ?a = "[22, 3, 1] @ be16 (212 + length data + length server)"
  let ?b = "[1, 0] @ be16 (208 + length data + length server)"
  let ?c = "[3, 3] @ be32 (hr_now r) @ hr_random r @ [32] @ hr_session r @ [0, 0x38] @ tls_suites @ [1, 0]"
  let ?e = "[0, 0] @ be16 (length server + 5) @ be16 (length server + 3) @ [0] @ be16 (length server) @ server @ tls_groups"
  have m: "m = ?a @ ?b @ ?c @ be16 (79 + length data + length server) @ [0, 0x23] @ be16 (length data) @ data @ ?e"
    by (simp add: assms(4) makeClientHelloMsg_def)
  have lc: "length ?c = 127" by (simp add: be32_def assms(1,2) tls_suites_def)
  have l: "length m = 217 + length data + length server" by (simp add: m be32_def assms(1,2) tls_suites_def tls_groups_def)
  have v: "be16_val (be16 k @ x) = be16_val (be16 k)" for k x by (simp add: be16_val_def be16_def)
  show ?thesis
  proof (intro conjI)
    show "take 3 m = [22, 3, 1]" by (simp add: m)
    have "drop 3 m = be16 (212 + length data + length server) @ drop 5 m" by (simp add: m be16_def)
    then show "be16_val (drop 3 m) = length m - 5" using assms(3) by (simp only: v l be16_val_be16)
    have "drop 7 m = be16 (208 + length data + length server) @ drop 9 m" by (simp add: m be16_def)
    then show "be16_val (drop 7 m) = length m - 9" using assms(3) by (simp add: v l be16_val_be16)
    have d: "drop (9 + 127 + k) m = drop k (be16 (79 + length data + length server) @ [0, 0x23] @ be16 (length data) @ data @ ?e)" for k
    proof -
      have gen: "xs = x @ y \<Longrightarrow> length x = j \<Longrightarrow> drop (j + k) xs = drop k y" for xs x y :: bytes and j by simp
      show ?thesis
        by (rule gen [of _ "?a @ ?b @ ?c"]) (simp_all add: m be32_def assms(1,2) tls_suites_def)
    qed
    from d [of 0] show "be16_val (drop 136 m) = length m - 138" using assms(3) by (simp add: v l be16_val_be16)
    from d [of 4] show "be16_val (drop 140 m) = length data" using assms(3) by (simp add: v be16_val_be16)
    from d [of 6] show "take (length data) (drop 142 m) = data" by simp
  qed
qed

definition tls_sent :: "tls_obfs \<Rightarrow> bytes \<Rightarrow> bool" where
  "tls_sent s p \<longleftrightarrow> \<not> to_firstRequest s \<and> (\<exists>fs. emitted (to_wire s) = tls_stream fs \<and> tls_ok False fs \<and> p = concat (map snd fs))"

lemma tls_write_step:
  assumes "tls_sent s p" "tls_write r b s = (n, ok, s')" "length b < 65536"
  shows "n = length b" "tls_sent s' (if ok then p @ b else p)"
proof -
  from assms(1) obtain fs where nf: "\<not> to_firstRequest s" and fs: "emitted (to_wire s) = tls_stream fs" "tls_ok False fs" "p = concat (map snd fs)"
    by (auto simp: tls_sent_def)
  from assms(2) show "n = length b" by (auto simp: tls_write_def split: prod.splits)
  show "tls_sent s' (if ok then p @ b else p)"
  proof (cases ok)
    case True
    with assms(2) nf have "emitted (to_wire s') = emitted (to_wire s) @ tls_stream [([0x17, 3, 3], b)]" "\<not> to_firstRequest s'"
      by (auto simp: tls_write_def conn_Write_def split: if_splits)
    with fs assms(3) True show ?thesis
      by (auto simp: tls_sent_def tls_ok_append tls_stream_append intro!: exI [of _ "fs @ [([0x17, 3, 3], b)]"])
  next
    case False
    with assms(2) nf have "to_wire s' = to_wire s" "\<not> to_firstRequest s'"
      by (auto simp: tls_write_def conn_Write_def split: if_splits)
    with fs False show ?thesis by (auto simp: tls_sent_def)
  qed
qed

lemma tls_Write_step:
  "tls_sent s p \<Longrightarrow> tls_Write r b s = (n, ok, s') \<Longrightarrow> (\<exists>k. tls_sent s' (p @ take k b)) \<and> (ok \<longrightarrow> n = length b \<and> tls_sent s' (p @ b))"
proof (induction r b s arbitrary: n p rule: tls_Write.induct)
  case (1 r b s)
  show ?case
  proof (cases "b = []")
    case True
    with "1.prems" show ?thesis by (auto simp: tls_Write.simps)
  next
    case False
    define k where "k = (if length b < obfs_chunkSize then length b else obfs_chunkSize)"
    obtain m x s1 where w: "tls_write r (take k b) s = (m, x, s1)" by (metis surj_pair)
    have "length (take k b) < 65536" by (auto simp: k_def obfs_chunkSize_def)
    note w' = tls_write_step [OF "1.prems"(1) w this]
    show ?thesis
    proof (cases x)
      case xF: False
      with "1.prems"(2) False w have "s' = s1" "\<not> ok" by (auto simp: tls_Write.simps [of r b] Let_def k_def [symmetric])
      moreover from w'(2) xF have "tls_sent s1 (p @ take 0 b)" by simp
      ultimately show ?thesis by blast
    next
      case True
      obtain j y s2 where h: "tls_Write r (drop k b) s1 = (j, y, s2)" by (metis surj_pair)
      with "1.prems"(2) False w True have e: "ok = y" "s' = s2" "ok \<longrightarrow> n = k + j"
        by (auto simp: tls_Write.simps [of r b] Let_def k_def [symmetric])
      from w'(2) True have "tls_sent s1 (p @ take k b)" by simp
      from "1.IH" [OF False k_def w [symmetric] refl _ this] True h e obtain i where
        i: "tls_sent s' (p @ take k b @ take i (drop k b))" "ok \<longrightarrow> j = length (drop k b) \<and> tls_sent s' (p @ take k b @ drop k b)" by auto
      have "take k b @ take i (drop k b) = take (k + i) b" by (simp add: take_add)
      moreover have "k \<le> length b" by (simp add: k_def)
      ultimately show ?thesis using i e(3) by (metis append_take_drop_id le_add_diff_inverse length_drop)
    qed
  qed
qed

interpretation tls: stream_pair tls_Read tls_holds tls_todo 1 EOF "tls_Write r" "\<lambda>b. True" "\<lambda>b. b" length tls_sent tls_sent
  "\<lambda>s c. concat c = emitted (to_wire s)" "\<lambda>c. NewTLSObfs c w server \<lparr>to_firstRequest := False, to_firstResponse := False\<rparr>" for r w server
proof (unfold_locales, goal_cases)
  case (1 s p n d s') with tls_step [of s p n d] show ?case by fastforce
next
  case (2 s p n d e s') with tls_step [of s p n d] show ?case by fastforce
next
  case (3 s p b n s') with tls_Write_step [OF 3(1,3)] show ?case by simp
next
  case (4 s p b n s') with tls_Write_step [OF 4(1,3)] show ?case by simp
next
  case (6 s p c) then show ?case by (auto simp: tls_sent_def tls_holds_def NewTLSObfs_def)
qed

text \<open>The end of a stream in the middle of a record's length is not reported.\<close>

lemma tls_length_error_dropped:
  "tls_Read 5 ((NewTLSObfs [[0x17, 3, 3, 0]] w server)\<lparr>to_firstResponse := False\<rparr>) =
     ([], None, (NewTLSObfs [] w server)\<lparr>to_firstResponse := False\<rparr>)"
  by (simp add: tls_Read_def tls_read_def NewTLSObfs_def)

section \<open>HTTP\<close>

text \<open>
  The first bytes of the peer are an HTTP response whose head is skipped; they are looked for in
  one read of at most 20480 bytes.  The request that carries the first write is serialised by
  \<open>net/http\<close>, a parameter.
\<close>

fun index_of :: "bytes \<Rightarrow> bytes \<Rightarrow> nat option" where
  "index_of sep [] = (if sep = [] then Some 0 else None)"
| "index_of sep (x # xs) = (if take (length sep) (x # xs) = sep then Some 0 else map_option Suc (index_of sep xs))"

definition crlf2 :: bytes where "crlf2 = [13, 10, 13, 10]"

definition RelayBufferSize :: nat where "RelayBufferSize = 20 * 1024"

record http_obfs =
  ho_in :: segs
  ho_wire :: wire
  ho_host :: string
  ho_port :: string
  ho_buf :: "bytes option"
  ho_offset :: nat
  ho_firstRequest :: bool
  ho_firstResponse :: bool

definition NewHTTPObfs :: "segs \<Rightarrow> wire \<Rightarrow> string \<Rightarrow> string \<Rightarrow> http_obfs" where
  "NewHTTPObfs c w host port =
     \<lparr>ho_in = c, ho_wire = w, ho_host = host, ho_port = port, ho_buf = None, ho_offset = 0,
      ho_firstRequest = True, ho_firstResponse = True\<rparr>"

definition ho_Read :: "nat \<Rightarrow> http_obfs \<Rightarrow> http_obfs read_result" where
  "ho_Read n s =
     (case ho_buf s of
        Some buf \<Rightarrow>
          let d = take n (drop (ho_offset s) buf); offset = ho_offset s + length d in
          (d, None, s\<lparr>ho_offset := offset, ho_buf := if offset = length buf then None else Some buf\<rparr>)
      | None \<Rightarrow>
          if ho_firstResponse s then
            (case conn_Read RelayBufferSize (ho_in s) of
               (d, Some e, c) \<Rightarrow> ([], Some e, s\<lparr>ho_in := c\<rparr>)
             | (buf, None, c) \<Rightarrow>
                 (case index_of crlf2 buf of
                    None \<Rightarrow> ([], Some EOF, s\<lparr>ho_in := c\<rparr>)
                  | Some idx \<Rightarrow>
                      let s = s\<lparr>ho_in := c, ho_firstResponse := False\<rparr>; d = take n (drop (idx + 4) buf) in
                      if length d < length buf - (idx + 4)
                      then (d, None, s\<lparr>ho_buf := Some buf, ho_offset := idx + 4 + length d\<rparr>)
                      else (d, None, s)))
          else (case conn_Read n (ho_in s) of (d, e, c) \<Rightarrow> (d, e, s\<lparr>ho_in := c\<rparr>)))"

text \<open>The request: its host, and the first write as its body.\<close>

definition ho_request_host :: "http_obfs \<Rightarrow> string" where
  "ho_request_host s = (if ho_port s \<noteq> ''80'' then ho_host s @ '':'' @ ho_port s else ho_host s)"

definition ho_Write :: "(string \<Rightarrow> bytes \<Rightarrow> bytes) \<Rightarrow> bytes \<Rightarrow> http_obfs \<Rightarrow> nat \<times> bool \<times> http_obfs" where
  "ho_Write request b s =
     (if ho_firstRequest s then
        (case conn_Write (request (ho_request_host s) b) (ho_wire s) of
           (ok, w) \<Rightarrow> (length b, ok, s\<lparr>ho_wire := w, ho_firstRequest := False\<rparr>))
      else (case conn_Write b (ho_wire s) of (ok, w) \<Rightarrow> (if ok then length b else 0, ok, s\<lparr>ho_wire := w\<rparr>)))"

text \<open>The first segment holds the head of the response, and what is left of the stream.\<close>

definition ho_holds :: "http_obfs \<Rightarrow> bytes \<Rightarrow> bool" where
  "ho_holds s p \<longleftrightarrow> buf_ok (ho_buf s) (ho_offset s) \<and>
     (if ho_firstResponse s then
        ho_buf s = None \<and> (\<exists>first c idx. ho_in s = first # c \<and> length first \<le> RelayBufferSize \<and> index_of crlf2 first = Some idx \<and>
          p = drop (idx + 4) first @ concat c)
      else p = pending (ho_buf s) (ho_offset s) @ concat (ho_in s))"

definition ho_todo :: "http_obfs \<Rightarrow> nat" where
  "ho_todo s = seg_size (ho_in s) + length (pending (ho_buf s) (ho_offset s)) + (if ho_firstResponse s then 1 else 0)"

lemma ho_step:
  assumes "ho_holds s p" "0 < n" "ho_Read n s = (d, e, s')"
  shows "case e of None \<Rightarrow> length d \<le> n \<and> ho_todo s' < ho_todo s \<and> (\<exists>p'. p = d @ p' \<and> ho_holds s' p')
    | Some x \<Rightarrow> x = EOF \<and> p = [] \<and> d = []"
proof (cases "ho_buf s")
  case (Some b)
  with assms(1) have ok: "buf_ok (Some b) (ho_offset s)" and nf: "\<not> ho_firstResponse s" and p: "p = drop (ho_offset s) b @ concat (ho_in s)"
    by (auto simp: ho_holds_def split: if_splits)
  define k where "k = ho_offset s + length d"
  define b' where "b' = (if k = length b then None else Some b)"
  from assms(3) Some have e: "e = None" "d = take n (drop (ho_offset s) b)" "s' = s\<lparr>ho_offset := k, ho_buf := b'\<rparr>"
    by (auto simp: ho_Read_def Let_def k_def b'_def)
  note f = buffered_read [OF ok assms(2) e(2) b'_def [unfolded k_def], folded k_def]
  have "ho_holds s' (pending b' k @ concat (ho_in s))" using nf f(3) by (auto simp: e(3) ho_holds_def)
  then show ?thesis using f nf by (auto simp: e(1,3) p Some ho_todo_def)
next
  case None
  show ?thesis
  proof (cases "ho_firstResponse s")
    case True
    with assms(1) obtain first c idx where f: "ho_in s = first # c" "length first \<le> RelayBufferSize" "index_of crlf2 first = Some idx"
      and p: "p = drop (idx + 4) first @ concat c" by (auto simp: ho_holds_def)
    let ?s = "s\<lparr>ho_in := c, ho_firstResponse := False\<rparr>"
    from assms(3) None True f have e: "e = None" "d = take n (drop (idx + 4) first)"
      "s' = (if length d < length first - (idx + 4) then ?s\<lparr>ho_buf := Some first, ho_offset := idx + 4 + length d\<rparr> else ?s)"
      by (auto simp: ho_Read_def conn_Read_def RelayBufferSize_def Let_def split: if_splits)
    have "ho_holds s' (drop n (drop (idx + 4) first) @ concat c)"
      using None e(2) by (auto simp: e(3) ho_holds_def buf_ok_def min_def add.commute split: if_splits)
    moreover have "p = d @ drop n (drop (idx + 4) first) @ concat c" unfolding p e(2) append_assoc [symmetric] append_take_drop_id ..
    moreover have "ho_todo s' < ho_todo s" using True f(1) e(2) None by (auto simp: e(3) ho_todo_def seg_size_def)
    ultimately show ?thesis using e(1,2) by auto
  next
    case False
    with assms(1) None have p: "p = concat (ho_in s)" by (auto simp: ho_holds_def)
    show ?thesis
    proof (cases "ho_in s = []")
      case True
      with assms(2,3) False None p show ?thesis by (auto simp: ho_Read_def conn_Read_def)
    next
      case ne: False
      from conn_Read_some [OF assms(2) ne] obtain x c where c: "conn_Read n (ho_in s) = (x, None, c)" "length x \<le> n"
        "concat (ho_in s) = x @ concat c" "seg_size c < seg_size (ho_in s)" by blast
      with assms(3) False None have "e = None" "d = x" "s' = s\<lparr>ho_in := c\<rparr>" by (auto simp: ho_Read_def)
      with c p False None show ?thesis by (auto simp: ho_todo_def ho_holds_def)
    qed
  qed
qed

interpretation ho: stream_reader ho_Read ho_holds ho_todo 1 EOF
proof (unfold_locales, goal_cases)
  case (1 s p n d s') with ho_step [of s p n d] show ?case by fastforce
next
  case (2 s p n d e s') with ho_step [of s p n d] show ?case by fastforce
qed

text \<open>A response head that arrives in two segments ends the connection.\<close>

lemma ho_head_split:
  assumes "index_of crlf2 (take RelayBufferSize first) = None"
  shows "fst (snd (ho_Read n (NewHTTPObfs (first # c) w host port))) = Some EOF"
  using assms by (simp add: ho_Read_def NewHTTPObfs_def conn_Read_def RelayBufferSize_def)

end
