(* ===== verification/ClashMux.thy ===== *)
theory ClashMux
  imports ClashWire
begin

text \<open>
  \<open>transport/v2ray-plugin/mux.go\<close>: one session of a multiplexed connection.  The status of a frame
  is read without \<open>io.ReadFull\<close>, so the stream is understood when no frame is cut, as over a
  websocket, where every write of the peer is one message.
\<close>

definition SessionStatusNew :: byte where "SessionStatusNew = 1"
definition SessionStatusKeep :: byte where "SessionStatusKeep = 2"
definition SessionStatusEnd :: byte where "SessionStatusEnd = 3"
definition SessionStatusKeepAlive :: byte where "SessionStatusKeepAlive = 4"
definition OptionNone :: byte where "OptionNone = 0"
definition OptionData :: byte where "OptionData = 1"

record mux_option =
  mo_ID :: bytes
  mo_Port :: nat
  mo_Host :: string
  mo_Type :: string

record mux =
  mx_in :: segs
  mx_wire :: wire
  mx_id :: bytes
  mx_status :: bytes
  mx_otb :: "bytes option"
  mx_remain :: nat

text \<open>Reading into a buffer that keeps what the read does not reach.\<close>

definition into :: "bytes \<Rightarrow> bytes \<Rightarrow> bytes" where
  "into d buf = d @ drop (length d) buf"

lemma conn_Read_size: "conn_Read n c = (d, e, c') \<Longrightarrow> seg_size c' \<le> seg_size c"
  by (auto simp: conn_Read_def seg_size_def split: if_splits list.splits)

function mux_loop :: "nat \<Rightarrow> mux \<Rightarrow> mux read_result" where
  "mux_loop n m =
     (case ReadFull 2 (mx_in m) of
        (d, Some e, c) \<Rightarrow> ([], Some e, m\<lparr>mx_in := c\<rparr>)
      | (metalen, None, c) \<Rightarrow>
          if 512 < be16_val metalen then ([], Some (IoErr ''invalid metalen''), m\<lparr>mx_in := c\<rparr>)
          else (case ReadFull 2 c of
             (d, Some e, c) \<Rightarrow> ([], Some e, m\<lparr>mx_in := c, mx_id := into d (mx_id m)\<rparr>)
           | (sid, None, c) \<Rightarrow>
               (case conn_Read 2 c of
                  (d, Some e, c) \<Rightarrow> ([], Some e, m\<lparr>mx_in := c, mx_id := sid\<rparr>)
                | (d, None, c) \<Rightarrow>
                    let status = into d (mx_status m); m = m\<lparr>mx_in := c, mx_id := sid, mx_status := status\<rparr> in
                    if status ! 0 = SessionStatusKeepAlive \<or> status ! 1 \<noteq> OptionData then mux_loop n m
                    else (case ReadFull 2 c of
                       (d, Some e, c) \<Rightarrow> ([], Some e, m\<lparr>mx_in := c\<rparr>)
                     | (dlen, None, c) \<Rightarrow>
                         let dataLen = be16_val dlen in
                         (case conn_Read (min dataLen n) c of
                            (d, e, c) \<Rightarrow> (d, e, m\<lparr>mx_in := c, mx_remain := dataLen - length d\<rparr>))))))"
  by pat_completeness auto

termination
proof (relation "measure (\<lambda>(n, m). seg_size (mx_in m))", goal_cases)
  case 2
  then show ?case by (auto dest!: ReadFull_None [OF sym] conn_Read_size [OF sym])
qed simp

declare mux_loop.simps [simp del]

definition mux_Read :: "nat \<Rightarrow> mux \<Rightarrow> mux read_result" where
  "mux_Read n m =
     (if mx_remain m \<noteq> 0 then
        (case conn_Read (if n < mx_remain m then n else mx_remain m) (mx_in m) of
           (d, Some e, c) \<Rightarrow> ([], Some e, m\<lparr>mx_in := c\<rparr>)
         | (d, None, c) \<Rightarrow> (d, None, m\<lparr>mx_in := c, mx_remain := mx_remain m - length d\<rparr>))
      else mux_loop n m)"

definition mux_Write :: "bytes \<Rightarrow> mux \<Rightarrow> nat \<times> bool \<times> mux" where
  "mux_Write b m =
     (case (case mx_otb m of
              None \<Rightarrow> (True, m)
            | Some otb \<Rightarrow> (case conn_Write otb (mx_wire m) of
                (False, w) \<Rightarrow> (False, m\<lparr>mx_wire := w\<rparr>)
              | (True, w) \<Rightarrow> (True, m\<lparr>mx_wire := w, mx_otb := None\<rparr>))) of
        (False, m) \<Rightarrow> (0, False, m)
      | (True, m) \<Rightarrow>
          let buf = be16 4 @ mx_id m @ [SessionStatusKeep, OptionData] @ be16 (length b) @ b in
          (case conn_Write buf (mx_wire m) of (ok, w) \<Rightarrow> (if ok then length buf else 0, ok, m\<lparr>mx_wire := w\<rparr>)))"

text \<open>The connection below is closed when the last frame was written.\<close>

definition mux_Close :: "mux \<Rightarrow> bool \<times> mux" where
  "mux_Close m =
     (case conn_Write ([0, 4] @ mx_id m @ [SessionStatusEnd, OptionNone]) (mx_wire m) of (ok, w) \<Rightarrow> (ok, m\<lparr>mx_wire := w\<rparr>))"

definition mux_target :: "string \<Rightarrow> bytes" where
  "mux_target host =
     (case parse_ip host of
        None \<Rightarrow> 2 # bytes_of host
      | Some ip \<Rightarrow> (case to4 ip of Some ipv4 \<Rightarrow> 1 # ipv4 | None \<Rightarrow> 3 # ip))"

definition NewMux :: "segs \<Rightarrow> wire \<Rightarrow> mux_option \<Rightarrow> mux" where
  "NewMux c w option =
     (let netType = (if mo_Type option = ''udp'' then 2 else 1);
          metadata = mo_ID option @ [SessionStatusNew, OptionNone] @ [netType] @ be16 (mo_Port option) @ mux_target (mo_Host option)
      in \<lparr>mx_in = c, mx_wire = w, mx_id = mo_ID option, mx_status = [0, 0],
          mx_otb = Some (be16 (length metadata) @ metadata), mx_remain = 0\<rparr>)"

section \<open>Frames\<close>

text \<open>A frame of the session: one with data, or one whose data is not taken.\<close>

datatype frame = DataFrame bytes byte bytes | ControlFrame bytes byte byte

fun frame_bytes :: "frame \<Rightarrow> bytes" where
  "frame_bytes (DataFrame i st d) = be16 4 @ i @ [st, OptionData] @ be16 (length d) @ d"
| "frame_bytes (ControlFrame i st opts) = be16 4 @ i @ [st, opts]"

fun frame_ok :: "frame \<Rightarrow> bool" where
  "frame_ok (DataFrame i st d) \<longleftrightarrow> length i = 2 \<and> st \<noteq> SessionStatusKeepAlive \<and> length d < 65536"
| "frame_ok (ControlFrame i st opts) \<longleftrightarrow> length i = 2 \<and> (st = SessionStatusKeepAlive \<or> opts \<noteq> OptionData)"

fun frame_data :: "frame \<Rightarrow> bytes" where
  "frame_data (DataFrame i st d) = d"
| "frame_data (ControlFrame i st opts) = []"

definition mux_holds :: "mux \<Rightarrow> bytes \<Rightarrow> bool" where
  "mux_holds m p \<longleftrightarrow> length (mx_status m) = 2 \<and> (\<exists>t fs. mx_in m = (if t = [] then [] else [t]) @ map frame_bytes fs \<and>
     length t = mx_remain m \<and> list_all frame_ok fs \<and> p = t @ concat (map frame_data fs))"

definition mux_todo :: "mux \<Rightarrow> nat" where
  "mux_todo m = seg_size (mx_in m)"

lemma into_full: "length d = length buf \<Longrightarrow> into d buf = d"
  by (simp add: into_def)

lemma ReadFull_seg: "length x = n \<Longrightarrow> 0 < n \<Longrightarrow> r \<noteq> [] \<Longrightarrow> ReadFull n ((x @ r) # ss) = (x, None, r # ss)"
  by simp

lemma conn_Read_seg: "length x = n \<Longrightarrow> 0 < n \<Longrightarrow> conn_Read n ((x @ r) # ss) = (x, None, if r = [] then ss else r # ss)"
  by (simp add: conn_Read_def)

lemma mux_loop_step:
  assumes "mx_in m = map frame_bytes fs" "list_all frame_ok fs" "0 < n" "length (mx_status m) = 2" "mx_remain m = 0"
    and "mux_loop n m = (d, e, m')"
  shows "case e of None \<Rightarrow> length d \<le> n \<and> mux_todo m' < mux_todo m \<and> (\<exists>p'. concat (map frame_data fs) = d @ p' \<and> mux_holds m' p')
    | Some x \<Rightarrow> x = EOF \<and> concat (map frame_data fs) = [] \<and> d = []"
  using assms
proof (induction fs arbitrary: m)
  case Nil
  then show ?case by (auto simp: mux_loop.simps)
next
  case (Cons f fs)
  have v4: "be16_val (be16 4) = 4" by (rule be16_val_be16) simp
  show ?case
  proof (cases f)
    case (ControlFrame i st opts)
    with Cons.prems have i: "length i = 2" "st = SessionStatusKeepAlive \<or> opts \<noteq> OptionData"
      and inn: "mx_in m = (be16 4 @ i @ [st, opts]) # map frame_bytes fs" by auto
    let ?m = "m\<lparr>mx_in := map frame_bytes fs, mx_id := i, mx_status := [st, opts]\<rparr>"
    have "mux_loop n m = mux_loop n ?m"
      using i Cons.prems(4)
      by (subst mux_loop.simps) (auto simp: inn ReadFull_seg v4 conn_Read_seg [of "[st, opts]" _ "[]", simplified] into_def Let_def)
    with Cons.prems(6) have r: "mux_loop n ?m = (d, e, m')" by simp
    have "mux_todo ?m < mux_todo m" by (simp add: mux_todo_def inn seg_size_def)
    with Cons.IH [OF _ _ Cons.prems(3) _ _ r] Cons.prems(2,5) ControlFrame show ?thesis by (cases e) auto
  next
    case (DataFrame i st q)
    with Cons.prems have i: "length i = 2" "st \<noteq> SessionStatusKeepAlive" "length q < 65536"
      and inn: "mx_in m = (be16 4 @ i @ [st, OptionData] @ be16 (length q) @ q) # map frame_bytes fs" by auto
    note v = be16_val_be16 [OF i(3)]
    have c1: "ReadFull 2 (mx_in m) = (be16 4, None, (i @ [st, OptionData] @ be16 (length q) @ q) # map frame_bytes fs)"
      unfolding inn by (rule ReadFull_seg) auto
    have c2: "ReadFull 2 ((i @ [st, OptionData] @ be16 (length q) @ q) # map frame_bytes fs) =
        (i, None, ([st, OptionData] @ be16 (length q) @ q) # map frame_bytes fs)" using i(1) by (intro ReadFull_seg) auto
    have c3: "conn_Read 2 (([st, OptionData] @ be16 (length q) @ q) # map frame_bytes fs) =
        ([st, OptionData], None, (be16 (length q) @ q) # map frame_bytes fs)" by (subst conn_Read_seg) (auto simp: be16_def)
    let ?rest = "(if q = [] then [] else [q]) @ map frame_bytes fs"
    have c4: "ReadFull 2 ((be16 (length q) @ q) # map frame_bytes fs) = (be16 (length q), None, ?rest)" by simp
    have st: "into [st, OptionData] (mx_status m) = [st, OptionData]" using Cons.prems(4) by (simp add: into_full)
    obtain x c where x: "conn_Read (min (length q) n) ?rest = (x, None, c)" "length x \<le> n" "q = x @ drop (length x) q"
        "c = (if drop (length x) q = [] then [] else [drop (length x) q]) @ map frame_bytes fs"
      using Cons.prems(3) by (cases "q = []"; cases "n < length q") (auto simp: conn_Read_def min_def)
    let ?m = "m\<lparr>mx_in := c, mx_id := i, mx_status := [st, OptionData], mx_remain := length q - length x\<rparr>"
    have "mux_loop n m = (x, None, ?m)"
      by (subst mux_loop.simps) (simp add: c1 c2 c3 c4 st v v4 x(1) i(2) Let_def del: ReadFull.simps append_Cons append_Nil append.simps append_assoc)
    with Cons.prems(6) have e: "e = None" "d = x" "m' = ?m" by auto
    have "mux_holds m' (drop (length x) q @ concat (map frame_data fs))"
      unfolding mux_holds_def e(3) using Cons.prems(2) x(4) by (auto intro!: exI [of _ "drop (length x) q"] exI [of _ fs])
    moreover have "concat (map frame_data (f # fs)) = x @ drop (length x) q @ concat (map frame_data fs)"
      using x(3) DataFrame by (metis append.assoc concat.simps(2) frame_data.simps(1) list.simps(9))
    moreover have "mux_todo m' < mux_todo m" by (auto simp: mux_todo_def e(3) x(4) inn seg_size_def)
    ultimately show ?thesis using e x(2) by auto
  qed
qed

lemma mux_step:
  assumes "mux_holds m p" "0 < n" "mux_Read n m = (d, e, m')"
  shows "case e of None \<Rightarrow> length d \<le> n \<and> mux_todo m' < mux_todo m \<and> (\<exists>p'. p = d @ p' \<and> mux_holds m' p')
    | Some x \<Rightarrow> x = EOF \<and> p = [] \<and> d = []"
proof -
  from assms(1) obtain t fs where m: "mx_in m = (if t = [] then [] else [t]) @ map frame_bytes fs"
     "length t = mx_remain m" "list_all frame_ok fs" "length (mx_status m) = 2" and p: "p = t @ concat (map frame_data fs)"
    by (auto simp: mux_holds_def)
  show ?thesis
  proof (cases "t = []")
    case True
    with m(2) assms(3) have "mux_loop n m = (d, e, m')" by (simp add: mux_Read_def)
    from mux_loop_step [OF _ m(3) assms(2) m(4) _ this] m True p show ?thesis by (cases e) auto
  next
    case False
    let ?l = "if n < mx_remain m then n else mx_remain m"
    from m(1) False have "mx_in m = t # map frame_bytes fs" by simp
    moreover have "mx_remain m \<noteq> 0" using m(2) False by (metis length_0_conv)
    ultimately have e: "e = None" "d = take ?l t"
      "m' = m\<lparr>mx_in := (if drop ?l t = [] then [] else [drop ?l t]) @ map frame_bytes fs, mx_remain := mx_remain m - ?l\<rparr>"
      using assms(2,3) m(2) by (auto simp: mux_Read_def conn_Read_def split: if_splits)
    have "mux_holds m' (drop ?l t @ concat (map frame_data fs))"
      unfolding mux_holds_def e(3) using m by (auto intro!: exI [of _ "drop ?l t"] exI [of _ fs])
    moreover have "p = take ?l t @ drop ?l t @ concat (map frame_data fs)" unfolding p append_assoc [symmetric] append_take_drop_id ..
    moreover have "mux_todo m' < mux_todo m" using m(1,2) False assms(2) by (auto simp: mux_todo_def e(3) seg_size_def)
    ultimately show ?thesis using e(1,2) by auto
  qed
qed

text \<open>What the session has written after its first frame, one message for each write.\<close>

definition mux_sent :: "mux \<Rightarrow> bytes \<Rightarrow> bool" where
  "mux_sent m p \<longleftrightarrow> mx_otb m = None \<and> length (mx_id m) = 2 \<and>
     (\<exists>fs. wr_out (mx_wire m) = map frame_bytes fs \<and> list_all frame_ok fs \<and> p = concat (map frame_data fs))"

definition mux_session :: "bytes \<Rightarrow> nat \<Rightarrow> segs \<Rightarrow> mux" where
  "mux_session i room c = \<lparr>mx_in = c, mx_wire = \<lparr>wr_out = [], wr_room = room\<rparr>, mx_id = i, mx_status = [0, 0], mx_otb = None, mx_remain = 0\<rparr>"

lemma mux_Write_step:
  assumes "mux_sent m p" "length b < 65536" "mux_Write b m = (n, ok, m')"
  shows "if ok then n = length b + 8 \<and> mux_sent m' (p @ b) else mux_sent m' p"
proof -
  from assms(1) obtain fs where o: "mx_otb m = None" "length (mx_id m) = 2"
    and fs: "wr_out (mx_wire m) = map frame_bytes fs" "list_all frame_ok fs" "p = concat (map frame_data fs)" by (auto simp: mux_sent_def)
  let ?f = "DataFrame (mx_id m) SessionStatusKeep b"
  have f: "frame_ok ?f" using o(2) assms(2) by (simp add: SessionStatusKeep_def SessionStatusKeepAlive_def)
  show ?thesis
  proof (cases "wr_room (mx_wire m) = 0")
    case True
    with assms(3) o fs show ?thesis by (auto simp: mux_Write_def conn_Write_def mux_sent_def Let_def)
  next
    case False
    with assms(3) o(1) have e: "ok" "n = length b + 8" "mx_otb m' = None" "mx_id m' = mx_id m"
      "wr_out (mx_wire m') = wr_out (mx_wire m) @ [frame_bytes ?f]"
      using o(2) by (auto simp: mux_Write_def conn_Write_def Let_def)
    from e(5) fs f have "wr_out (mx_wire m') = map frame_bytes (fs @ [?f])" "list_all frame_ok (fs @ [?f])"
      "p @ b = concat (map frame_data (fs @ [?f]))" by simp_all
    with e o(2) show ?thesis unfolding mux_sent_def by (metis)
  qed
qed

text \<open>
  The count that \<open>Write\<close> returns includes the eight bytes of the frame, against the contract of
  \<open>io.Writer\<close>; the ciphers above ignore it.
\<close>

lemma mux_Write_count:
  "mux_sent m p \<Longrightarrow> length b < 65536 \<Longrightarrow> mux_Write b m = (n, True, m') \<Longrightarrow> n = length b + 8"
  using mux_Write_step [of m p b n True m'] by simp

text \<open>A longer write is sent with its length modulo \<open>2 ^ 16\<close>.\<close>

lemma mux_Write_long:
  "frame_bytes (DataFrame i st (replicate 65536 x)) = be16 4 @ i @ [st, OptionData] @ be16 0 @ replicate 65536 x"
  by (simp add: be16_def)

interpretation mux: stream_pair mux_Read mux_holds mux_todo 1 EOF mux_Write "\<lambda>b. length b < 65536" "\<lambda>b. b" "\<lambda>b. length b + 8" mux_sent mux_sent
  "\<lambda>m c. c = wr_out (mx_wire m)" "mux_session i room" for i room
proof (unfold_locales, goal_cases)
  case (1 s p n d s') with mux_step [of s p n d] show ?case by fastforce
next
  case (2 s p n d e s') with mux_step [of s p n d] show ?case by fastforce
next
  case (3 m p b n m') with mux_Write_step [OF 3] show ?case by simp
next
  case (4 m p b n m') with mux_Write_step [OF 4] have "mux_sent m' (p @ take 0 b)" by simp
  then show ?case by blast
next
  case (6 m p c) then show ?case by (auto simp: mux_sent_def mux_holds_def mux_session_def)
qed

text \<open>
  A status that arrives in two segments is read short: the second byte is the one of the frame
  before, and the rest of the frame is taken for further frames: the data is lost.
\<close>

lemma mux_status_split:
  "mux_Read 2 (mux_session [1, 2] 0 [be16 4 @ [1, 2, SessionStatusKeep], [OptionData] @ be16 2 @ [7, 8]]) =
     ([], Some EOF, (mux_session [1, 2] 0 [])\<lparr>mx_id := [2, 7], mx_status := [8, 0]\<rparr>)"
  by (simp add: mux_Read_def mux_session_def mux_loop.simps conn_Read_def be16_def be16_val_def into_def SessionStatusKeep_def
      SessionStatusKeepAlive_def OptionData_def Let_def)

text \<open>
  What one end of a session writes into the multiplexed connection, each write less than
  65536 bytes, the other end reads, whatever its buffers are, when frames arrive whole; and then
  it sees the end of the stream.
\<close>

theorem mux_read_back:
  assumes "list_all (\<lambda>b. length b < 65536) bs" "length i = 2"
    and "write_all mux_Write bs (mux_session i room []) = (n, done_all, m)"
    and "list_all (\<lambda>n. 1 \<le> n) ns" "seg_size (wr_out (mx_wire m)) < length ns"
  shows "\<exists>k. drain mux_Read ns (mux_session j 0 (wr_out (mx_wire m))) = (take k (concat bs), Some EOF) \<and>
    (done_all \<longrightarrow> drain mux_Read ns (mux_session j 0 (wr_out (mx_wire m))) = (concat bs, Some EOF))"
proof -
  have "mux_sent ((mux_session i room [])) []"
    using assms(2) by (simp add: mux_sent_def mux_session_def)
  from mux.read_back [OF this assms(1,3) refl assms(4)] assms(5) show ?thesis by (auto simp: mux_todo_def mux_session_def)
qed

definition mux_demo :: mux where
  "mux_demo = \<lparr>mx_in = [], mx_wire = \<lparr>wr_out = [[0, 4, 1, 2, 2, 1, 0, 3, 5, 6, 7], [0, 4, 1, 2, 2, 1, 0, 1, 8]], wr_room = 1\<rparr>,
     mx_id = [1, 2], mx_status = [0, 0], mx_otb = None, mx_remain = 0\<rparr>"

lemma mux_demo_write: "write_all mux_Write [[5, 6, 7], [8]] (mux_session [1, 2] 3 []) = (20, True, mux_demo)"
  by (simp add: mux_demo_def mux_session_def mux_Write_def conn_Write_def be16_def SessionStatusKeep_def OptionData_def Let_def)

theorem mux_read_back_witness:
  "drain mux_Read (replicate 30 2) (mux_session [0, 0] 0 (wr_out (mx_wire mux_demo))) = ([5, 6, 7, 8], Some EOF)"
  using mux_read_back [OF _ _ mux_demo_write, of "replicate 30 2"]
  by (simp add: list_all_iff seg_size_def mux_demo_def)

end
