(* ===== verification/ClashTrojan.thy ===== *)
theory ClashTrojan
  imports ClashWire ClashSocks
begin

text \<open>
  \<open>transport/trojan/trojan.go\<close>: the header of a Trojan connection and the packets that carry UDP
  inside it.  The hash of the password is a parameter; TLS and websocket lie below.
\<close>

section \<open>Writing\<close>

definition trojan_maxLength :: nat where "trojan_maxLength = 8192"

definition crlf :: bytes where "crlf = [13, 10]"

definition CommandTCP :: byte where "CommandTCP = 1"
definition CommandUDP :: byte where "CommandUDP = 3"

record trojan_option =
  tjo_Password :: string
  tjo_ALPN :: "string list"
  tjo_ServerName :: string
  tjo_SkipCertVerify :: bool

text \<open>The TLS options of a connection, plain or over a websocket.\<close>

definition trojan_alpn :: "string list \<Rightarrow> trojan_option \<Rightarrow> string list" where
  "trojan_alpn alpn option = (if length (tjo_ALPN option) \<noteq> 0 then tjo_ALPN option else alpn)"

definition defaultALPN :: "string list" where "defaultALPN = [''h2'', ''http/1.1'']"
definition defaultWebsocketALPN :: "string list" where "defaultWebsocketALPN = [''http/1.1'']"

definition nibble_char :: "nat \<Rightarrow> byte" where
  "nibble_char n = (if n < 10 then of_nat (48 + n) else of_nat (87 + n))"

definition hex_encode :: "bytes \<Rightarrow> bytes" where
  "hex_encode b = concat (map (\<lambda>x. [nibble_char (unat x div 16), nibble_char (unat x mod 16)]) b)"

definition hexSha224 :: "(bytes \<Rightarrow> bytes) \<Rightarrow> string \<Rightarrow> bytes" where
  "hexSha224 sha224 password = hex_encode (sha224 (bytes_of password))"

definition trojan_WriteHeader :: "bytes \<Rightarrow> byte \<Rightarrow> Addr \<Rightarrow> wire \<Rightarrow> bool \<times> wire" where
  "trojan_WriteHeader hexPassword command socks5Addr w = conn_Write (hexPassword @ crlf @ [command] @ socks5Addr @ crlf) w"

definition packet_bytes :: "Addr \<Rightarrow> bytes \<Rightarrow> bytes" where
  "packet_bytes addr payload = addr @ be16 (length payload) @ crlf @ payload"

definition trojan_writePacket :: "Addr \<Rightarrow> bytes \<Rightarrow> wire \<Rightarrow> nat \<times> bool \<times> wire" where
  "trojan_writePacket addr payload w =
     (case conn_Write (packet_bytes addr payload) w of (ok, w) \<Rightarrow> (if ok then length (packet_bytes addr payload) else 0, ok, w))"

function packet_loop :: "Addr \<Rightarrow> bytes \<Rightarrow> nat \<Rightarrow> wire \<Rightarrow> nat \<times> bool \<times> wire" where
  "packet_loop addr payload offset w =
     (let total = length payload;
          cursor = (if total < offset + trojan_maxLength then total else offset + trojan_maxLength) in
      case trojan_writePacket addr (take (cursor - offset) (drop offset payload)) w of
        (n, False, w) \<Rightarrow> (offset + n, False, w)
      | (n, True, w) \<Rightarrow> if total \<le> cursor then (total, True, w) else packet_loop addr payload cursor w)"
  by pat_completeness auto
termination by (relation "measure (\<lambda>(addr, payload, offset, w). length payload - offset)") (auto simp: trojan_maxLength_def)

declare packet_loop.simps [simp del]

definition trojan_WritePacket :: "Addr \<Rightarrow> bytes \<Rightarrow> wire \<Rightarrow> nat \<times> bool \<times> wire" where
  "trojan_WritePacket addr payload w =
     (if length payload \<le> trojan_maxLength then trojan_writePacket addr payload w else packet_loop addr payload 0 w)"

section \<open>Reading\<close>

text \<open>
  Addresses are read with \<open>io.ReadFull\<close> only, so \<open>ReadAddr\<close> sees the bytes whatever the cuts are.
\<close>

definition read_addr :: "nat \<Rightarrow> segs \<Rightarrow> (socks_err + Addr) \<times> segs" where
  "read_addr len_b c =
     (case ReadAddr len_b \<lparr>sk_in = concat c, sk_out = [], sk_room = 0\<rparr> of
        (r, s) \<Rightarrow> (r, snd (snd (ReadFull (length (concat c) - length (sk_in s)) c))))"

type_synonym udp_addr = "(bytes \<times> nat) option"

text \<open>The address, the bytes read, and how many bytes of the packet are left.\<close>

definition trojan_ReadPacket :: "nat \<Rightarrow> segs \<Rightarrow> ((string + udp_addr \<times> bytes \<times> nat) \<times> segs) go" where
  "trojan_ReadPacket len_payload c =
     (case read_addr len_payload c of
        (Inl e, c) \<Rightarrow> Inr (Inl ''read addr error'', c)
      | (Inr addr, c) \<Rightarrow>
          go_bind (Addr_UDPAddr addr) (\<lambda>uAddr.
            (case ReadFull 2 c of
               (d, Some e, c) \<Rightarrow> Inr (Inl ''read length error'', c)
             | (d, None, c) \<Rightarrow>
                 let total = be16_val d in
                 if trojan_maxLength < total then Inr (Inl ''packet invalid'', c)
                 else (case ReadFull 2 c of
                    (d, Some e, c) \<Rightarrow> Inr (Inl ''read crlf error'', c)
                  | (d, None, c) \<Rightarrow>
                      let l = (if total < len_payload then total else len_payload) in
                      (case ReadFull l c of
                         (d, Some e, c) \<Rightarrow> Inr (Inl ''read packet error'', c)
                       | (d, None, c) \<Rightarrow> Inr (Inr (uAddr, d, total - l), c))))))"

record trojan_packet_conn =
  tj_in :: segs
  tj_wire :: wire
  tj_remain :: nat
  tj_rAddr :: udp_addr

definition trojan_WriteTo :: "bytes \<Rightarrow> string \<Rightarrow> trojan_packet_conn \<Rightarrow> nat \<times> bool \<times> trojan_packet_conn" where
  "trojan_WriteTo b addr pc =
     (case trojan_WritePacket (case ParseAddr addr of None \<Rightarrow> [] | Some a \<Rightarrow> a) b (tj_wire pc) of
        (n, ok, w) \<Rightarrow> (n, ok, pc\<lparr>tj_wire := w\<rparr>))"

definition trojan_ReadFrom ::
  "nat \<Rightarrow> trojan_packet_conn \<Rightarrow> (bytes \<times> udp_addr \<times> io_err option \<times> trojan_packet_conn) go" where
  "trojan_ReadFrom n pc =
     (if tj_remain pc \<noteq> 0 then
        (let l = (if tj_remain pc < n then tj_remain pc else n) in
         case conn_Read l (tj_in pc) of
           (d, Some e, c) \<Rightarrow> Inr ([], None, Some e, pc\<lparr>tj_in := c\<rparr>)
         | (d, None, c) \<Rightarrow>
             let remain = tj_remain pc - length d in
             Inr (d, tj_rAddr pc, None, pc\<lparr>tj_in := c, tj_remain := remain, tj_rAddr := if remain = 0 then None else tj_rAddr pc\<rparr>))
      else
        go_bind (trojan_ReadPacket n (tj_in pc)) (\<lambda>(r, c).
          case r of
            Inl e \<Rightarrow> Inr ([], None, Some (IoErr e), pc\<lparr>tj_in := c\<rparr>)
          | Inr (addr, d, remain) \<Rightarrow>
              Inr (d, addr, None, if remain \<noteq> 0 then pc\<lparr>tj_in := c, tj_remain := remain, tj_rAddr := addr\<rparr> else pc\<lparr>tj_in := c\<rparr>)))"

section \<open>Packets arrive with their addresses\<close>

lemma read_addr_wf:
  assumes "SplitAddr a = Some a" "concat c = a @ r" "MaxAddrLen \<le> n"
  obtains c' where "read_addr n c = (Inr a, c')" "concat c' = r" "seg_size c' + length a \<le> seg_size c"
proof -
  have "ReadAddr n = ReadAddr MaxAddrLen" using assms(3) by (simp add: ReadAddr_def)
  with ReadAddr_wf [OF assms(1), of r "[]" 0] assms(2)
  have "ReadAddr n \<lparr>sk_in = concat c, sk_out = [], sk_room = 0\<rparr> = (Inr a, \<lparr>sk_in = r, sk_out = [], sk_room = 0\<rparr>)" by simp
  moreover from assms(2) obtain c' where "ReadFull (length a) c = (a, None, c')" "concat c' = r" "seg_size c' + length a \<le> seg_size c"
    by (auto elim: ReadFull_append)
  ultimately show ?thesis using assms(2) by (intro that [of c']) (simp_all add: read_addr_def)
qed

lemma UDPAddr_wf: "SplitAddr a = Some a \<Longrightarrow> \<exists>u. Addr_UDPAddr a = Inr u"
  by (erule SplitAddr_id_cases) (auto simp: Addr_UDPAddr_def Let_def)

definition udp_of :: "Addr \<Rightarrow> udp_addr" where
  "udp_of a = (case Addr_UDPAddr a of Inl e \<Rightarrow> None | Inr u \<Rightarrow> u)"

lemma ReadPacket_wf:
  assumes "SplitAddr a = Some a" "concat c = packet_bytes a q @ r" "MaxAddrLen \<le> n" "length q \<le> trojan_maxLength"
  obtains c' where "trojan_ReadPacket n c = Inr (Inr (udp_of a, take n q, length q - n), c')" "concat c' = drop n q @ r"
    "seg_size c' < seg_size c"
proof -
  obtain u where u: "Addr_UDPAddr a = Inr u" using UDPAddr_wf [OF assms(1)] by blast
  from assms(2) have "concat c = a @ be16 (length q) @ crlf @ q @ r" by (simp add: packet_bytes_def)
  with assms(1,3) obtain c1 where c1: "read_addr n c = (Inr a, c1)" "concat c1 = be16 (length q) @ crlf @ q @ r"
    "seg_size c1 + length a \<le> seg_size c" by (auto elim: read_addr_wf)
  from c1(2) obtain c2 where c2: "ReadFull 2 c1 = (be16 (length q), None, c2)" "concat c2 = crlf @ q @ r" "seg_size c2 + 2 \<le> seg_size c1"
    by (auto elim: ReadFull_append)
  have "length crlf = 2" by (simp add: crlf_def)
  with c2(2) obtain c3 where c3: "ReadFull 2 c2 = (crlf, None, c3)" "concat c3 = q @ r" "seg_size c3 + 2 \<le> seg_size c2"
    by (rule ReadFull_append)
  let ?l = "if length q < n then length q else n"
  from c3(2) have "concat c3 = take ?l q @ drop ?l q @ r" by simp
  then obtain c4 where c4: "ReadFull ?l c3 = (take ?l q, None, c4)" "concat c4 = drop ?l q @ r" "seg_size c4 + ?l \<le> seg_size c3"
    by (rule ReadFull_append) simp
  have v: "be16_val (be16 (length q)) = length q" using assms(4) by (intro be16_val_be16) (simp add: trojan_maxLength_def)
  have t: "take ?l q = take n q" "drop ?l q = drop n q" "length q - ?l = length q - n" by auto
  have "trojan_ReadPacket n c = Inr (Inr (udp_of a, take n q, length q - n), c4)"
    using assms(4) by (simp add: trojan_ReadPacket_def c1(1) u c2(1) c3(1) v udp_of_def Let_def) (use c4(1) t in auto)
  with c4 c3(3) c2(3) c1(3) t show ?thesis by (intro that [of c4]) auto
qed

text \<open>A byte with the address it came from; a reader needs a buffer that takes an address.\<close>

definition tagged :: "udp_addr \<Rightarrow> bytes \<Rightarrow> (byte \<times> udp_addr) list" where
  "tagged a d = map (\<lambda>b. (b, a)) d"

definition tagged_ReadFrom :: "nat \<Rightarrow> trojan_packet_conn \<Rightarrow> (byte \<times> udp_addr) list \<times> io_err option \<times> trojan_packet_conn" where
  "tagged_ReadFrom n pc =
     (case trojan_ReadFrom n pc of
        Inl e \<Rightarrow> ([], Some (IoErr ''panic''), pc)
      | Inr (d, addr, e, pc) \<Rightarrow> (tagged addr d, e, pc))"

definition packets_ok :: "(Addr \<times> bytes) list \<Rightarrow> bool" where
  "packets_ok ps \<longleftrightarrow> list_all (\<lambda>(a, q). SplitAddr a = Some a \<and> length q \<le> trojan_maxLength) ps"

definition packets_data :: "(Addr \<times> bytes) list \<Rightarrow> (byte \<times> udp_addr) list" where
  "packets_data ps = concat (map (\<lambda>(a, q). tagged (udp_of a) q) ps)"

definition packets_stream :: "(Addr \<times> bytes) list \<Rightarrow> bytes" where
  "packets_stream ps = concat (map (\<lambda>(a, q). packet_bytes a q) ps)"

definition trojan_holds :: "trojan_packet_conn \<Rightarrow> (byte \<times> udp_addr) list \<Rightarrow> bool" where
  "trojan_holds pc p \<longleftrightarrow> (\<exists>t ps. concat (tj_in pc) = t @ packets_stream ps \<and> length t = tj_remain pc \<and> packets_ok ps \<and>
     p = tagged (tj_rAddr pc) t @ packets_data ps)"

definition trojan_todo :: "trojan_packet_conn \<Rightarrow> nat" where
  "trojan_todo pc = seg_size (tj_in pc)"

lemma tagged_append: "tagged a (x @ y) = tagged a x @ tagged a y"
  by (simp add: tagged_def)

lemma read_addr_empty: "concat c = [] \<Longrightarrow> MaxAddrLen \<le> n \<Longrightarrow> \<exists>e c'. read_addr n c = (Inl e, c')"
proof -
  assume c: "concat c = []" and n: "MaxAddrLen \<le> n"
  from n have "\<exists>s. ReadAddr n \<lparr>sk_in = [], sk_out = [], sk_room = 0\<rparr> = (Inl ErrRead, s)"
    by (simp add: ReadAddr_def sk_read_def read_full_def sk_bind_def)
  then show ?thesis unfolding read_addr_def c by auto
qed

lemma trojan_step:
  assumes "trojan_holds pc p" "MaxAddrLen \<le> n" "tagged_ReadFrom n pc = (d, e, pc')"
  shows "case e of None \<Rightarrow> length d \<le> n \<and> trojan_todo pc' < trojan_todo pc \<and> (\<exists>p'. p = d @ p' \<and> trojan_holds pc' p')
    | Some x \<Rightarrow> x = IoErr ''read addr error'' \<and> p = [] \<and> d = []"
proof -
  from assms(1) obtain t ps where s: "concat (tj_in pc) = t @ packets_stream ps" "length t = tj_remain pc" "packets_ok ps"
    and p: "p = tagged (tj_rAddr pc) t @ packets_data ps" by (auto simp: trojan_holds_def)
  have n: "0 < n" using assms(2) by (simp add: MaxAddrLen_def)
  show ?thesis
  proof (cases "tj_remain pc = 0")
    case False
    define l where "l = (if tj_remain pc < n then tj_remain pc else n)"
    have l: "0 < l" "l \<le> n" "l \<le> length t" using False n s(2) by (auto simp: l_def)
    from s l have "tj_in pc \<noteq> []" by auto
    with conn_Read_some [OF l(1)] obtain x c where c: "conn_Read l (tj_in pc) = (x, None, c)" "length x \<le> l"
      "concat (tj_in pc) = x @ concat c" "seg_size c < seg_size (tj_in pc)" by blast
    have x: "x = take (length x) t" "concat c = drop (length x) t @ packets_stream ps"
      using arg_cong [OF c(3), of "take (length x)"] arg_cong [OF c(3), of "drop (length x)"] s(1) c(2) l(3) by auto
    let ?r = "tj_remain pc - length x"
    let ?pc = "pc\<lparr>tj_in := c, tj_remain := ?r, tj_rAddr := if ?r = 0 then None else tj_rAddr pc\<rparr>"
    from assms(3) False have e: "e = None" "d = tagged (tj_rAddr pc) x" "pc' = ?pc"
      by (auto simp: tagged_ReadFrom_def trojan_ReadFrom_def l_def [symmetric] c(1) Let_def)
    have "trojan_holds pc' (tagged (tj_rAddr pc) (drop (length x) t) @ packets_data ps)"
      unfolding trojan_holds_def e(3) using x(2) s(2,3)
      by (intro exI [of _ "drop (length x) t"] exI [of _ ps]) (auto simp: tagged_def)
    moreover have "t = x @ drop (length x) t" using x(1) by (metis append_take_drop_id)
    then have "p = d @ tagged (tj_rAddr pc) (drop (length x) t) @ packets_data ps"
      unfolding p e(2) by (metis append.assoc tagged_append)
    ultimately show ?thesis using c(2,4) l(2) e by (auto simp: trojan_todo_def tagged_def)
  next
    case True
    with s(2) have t: "t = []" by simp
    show ?thesis
    proof (cases ps)
      case Nil
      with s(1) t have "concat (tj_in pc) = []" by (simp add: packets_stream_def)
      from read_addr_empty [OF this assms(2)] obtain y c where "read_addr n (tj_in pc) = (Inl y, c)" by blast
      with assms(3) True t Nil p show ?thesis
        by (auto simp: tagged_ReadFrom_def trojan_ReadFrom_def trojan_ReadPacket_def tagged_def packets_data_def)
    next
      case (Cons f gs)
      obtain a q where f: "f = (a, q)" by fastforce
      from s(3) Cons f have a: "SplitAddr a = Some a" "length q \<le> trojan_maxLength" "packets_ok gs" by (auto simp: packets_ok_def)
      from s(1) t Cons f have "concat (tj_in pc) = packet_bytes a q @ packets_stream gs" by (simp add: packets_stream_def)
      with a(1,2) assms(2) obtain c where c: "trojan_ReadPacket n (tj_in pc) = Inr (Inr (udp_of a, take n q, length q - n), c)"
        "concat c = drop n q @ packets_stream gs" "seg_size c < seg_size (tj_in pc)" by (auto elim: ReadPacket_wf)
      from assms(3) True have e: "e = None" "d = tagged (udp_of a) (take n q)"
        "pc' = (if length q - n \<noteq> 0 then pc\<lparr>tj_in := c, tj_remain := length q - n, tj_rAddr := udp_of a\<rparr> else pc\<lparr>tj_in := c\<rparr>)"
        by (auto simp: tagged_ReadFrom_def trojan_ReadFrom_def c(1))
      have "trojan_holds pc' (tagged (udp_of a) (drop n q) @ packets_data gs)"
        unfolding trojan_holds_def e(3) using c(2) a(3) True
        by (intro exI [of _ "drop n q"] exI [of _ gs]) (auto simp: tagged_def)
      moreover have "p = d @ tagged (udp_of a) (drop n q) @ packets_data gs"
        unfolding append_assoc [symmetric] e(2) tagged_append [symmetric] append_take_drop_id
        using p t Cons f by (simp add: packets_data_def tagged_def)
      ultimately show ?thesis using e c(3) by (auto simp: trojan_todo_def tagged_def)
    qed
  qed
qed

lemma packets_append:
  "packets_stream (ps @ qs) = packets_stream ps @ packets_stream qs" "packets_data (ps @ qs) = packets_data ps @ packets_data qs"
  "packets_ok (ps @ qs) \<longleftrightarrow> packets_ok ps \<and> packets_ok qs"
  by (simp_all add: packets_stream_def packets_data_def packets_ok_def)

lemma packets_single:
  "packets_stream [(a, q)] = packet_bytes a q" "packets_data [(a, q)] = tagged (udp_of a) q"
  "packets_ok [(a, q)] \<longleftrightarrow> SplitAddr a = Some a \<and> length q \<le> trojan_maxLength"
  by (simp_all add: packets_stream_def packets_data_def packets_ok_def)

lemma packets_none: "packets_stream [] = []" "packets_data [] = []" "packets_ok []"
  by (simp_all add: packets_stream_def packets_data_def packets_ok_def)

text \<open>What a write of \<open>b\<close> to the address \<open>a\<close> adds to the stream: packets with a beginning of \<open>b\<close>.\<close>

definition wrote :: "Addr \<Rightarrow> bytes \<Rightarrow> bool \<Rightarrow> wire \<Rightarrow> wire \<Rightarrow> bool" where
  "wrote a b ok w w' \<longleftrightarrow> (\<exists>ps k. emitted w' = emitted w @ packets_stream ps \<and> packets_ok ps \<and>
     packets_data ps = tagged (udp_of a) (take k b) \<and> (ok \<longrightarrow> take k b = b))"

lemma trojan_writePacket_step:
  assumes "SplitAddr a = Some a" "length b \<le> trojan_maxLength" "trojan_writePacket a b w = (n, ok, w')"
  shows "wrote a b ok w w' \<and> (ok \<longrightarrow> n = length (packet_bytes a b) \<and> emitted w' = emitted w @ packet_bytes a b)"
proof (cases ok)
  case True
  with assms(3) have e: "n = length (packet_bytes a b)" "emitted w' = emitted w @ packet_bytes a b"
    by (auto simp: trojan_writePacket_def conn_Write_def split: if_splits)
  with assms(1,2) have "wrote a b ok w w'"
    unfolding wrote_def by (intro exI [of _ "[(a, b)]"] exI [of _ "length b"]) (simp add: packets_single)
  with e show ?thesis by simp
next
  case False
  with assms(3) have "w' = w" by (auto simp: trojan_writePacket_def conn_Write_def split: if_splits)
  with False have "wrote a b ok w w'"
    unfolding wrote_def by (intro exI [of _ "[]"] exI [of _ 0]) (simp add: packets_none tagged_def)
  with False show ?thesis by simp
qed

lemma packet_loop_step:
  "packet_loop a b offset w = (n, ok, w') \<Longrightarrow> SplitAddr a = Some a \<Longrightarrow>
     wrote a (drop offset b) ok w w' \<and> (ok \<longrightarrow> n = length b)"
proof (induction a b offset w arbitrary: n rule: packet_loop.induct)
  case (1 a b offset w)
  define cursor where "cursor = (if length b < offset + trojan_maxLength then length b else offset + trojan_maxLength)"
  let ?q = "take (cursor - offset) (drop offset b)"
  obtain m x w1 where wr: "trojan_writePacket a ?q w = (m, x, w1)" by (metis surj_pair)
  have lq: "length ?q \<le> trojan_maxLength" by (auto simp: cursor_def)
  note st = trojan_writePacket_step [OF "1.prems"(2) lq wr]
  show ?case
  proof (cases x)
    case False
    with "1.prems"(1) wr have e: "\<not> ok" "w' = w1" by (auto simp: packet_loop.simps [of a b offset] Let_def cursor_def [symmetric])
    from st obtain ps k where "emitted w1 = emitted w @ packets_stream ps" "packets_ok ps" "packets_data ps = tagged (udp_of a) (take k ?q)"
      by (auto simp: wrote_def)
    moreover have "take k ?q = take (min k (cursor - offset)) (drop offset b)" by simp
    ultimately have "wrote a (drop offset b) ok w w'" unfolding wrote_def e(2) using e(1) by metis
    with e show ?thesis by simp
  next
    case x: True
    show ?thesis
    proof (cases "length b \<le> cursor")
      case True
      with "1.prems"(1) wr x have e: "ok" "n = length b" "w' = w1"
        by (auto simp: packet_loop.simps [of a b offset] Let_def cursor_def [symmetric])
      from True have "?q = drop offset b" by simp
      with st e x show ?thesis by simp
    next
      case False
      with "1.prems"(1) wr x have r: "packet_loop a b cursor w1 = (n, ok, w')"
        by (auto simp: packet_loop.simps [of a b offset] Let_def cursor_def [symmetric])
      from "1.IH" [OF refl cursor_def wr [symmetric] refl _ False r "1.prems"(2)] x
      obtain ps k where ps: "emitted w' = emitted w1 @ packets_stream ps" "packets_ok ps" "packets_data ps = tagged (udp_of a) (take k (drop cursor b))"
        "ok \<longrightarrow> take k (drop cursor b) = drop cursor b" "ok \<longrightarrow> n = length b" by (auto simp: wrote_def)
      have c: "offset \<le> cursor" "cursor \<le> length b" using False by (auto simp: cursor_def split: if_splits)
      have d: "drop offset b = ?q @ drop cursor b"
        using c by (metis append_take_drop_id drop_drop le_add_diff_inverse2)
      then have t: "take (length ?q + k) (drop offset b) = ?q @ take k (drop cursor b)" by (metis append_eq_conv_conj take_add append_take_drop_id)
      have "wrote a (drop offset b) ok w w'"
        unfolding wrote_def
      proof (intro exI conjI)
        show "emitted w' = emitted w @ packets_stream ((a, ?q) # ps)"
          using st x ps(1) packets_append(1) [of "[(a, ?q)]" ps] by (simp add: packets_single)
        show "packets_ok ((a, ?q) # ps)" using packets_append(3) [of "[(a, ?q)]" ps] ps(2) lq "1.prems"(2) by (simp add: packets_single)
        show "packets_data ((a, ?q) # ps) = tagged (udp_of a) (take (length ?q + k) (drop offset b))"
          using packets_append(2) [of "[(a, ?q)]" ps] ps(3) unfolding t tagged_append by (simp add: packets_single)
        show "ok \<longrightarrow> take (length ?q + k) (drop offset b) = drop offset b" unfolding t using ps(4) d by simp
      qed
      with ps(5) show ?thesis by simp
    qed
  qed
qed

definition packet_count :: "string \<times> bytes \<Rightarrow> nat" where
  "packet_count x = (case x of (addr, b) \<Rightarrow> if length b \<le> trojan_maxLength then length (packet_bytes (the (ParseAddr addr)) b) else length b)"

definition trojan_sent :: "trojan_packet_conn \<Rightarrow> (byte \<times> udp_addr) list \<Rightarrow> bool" where
  "trojan_sent pc p \<longleftrightarrow> (\<exists>ps. emitted (tj_wire pc) = packets_stream ps \<and> packets_ok ps \<and> p = packets_data ps)"

definition trojan_PacketConn :: "nat \<Rightarrow> segs \<Rightarrow> trojan_packet_conn" where
  "trojan_PacketConn room c = \<lparr>tj_in = c, tj_wire = \<lparr>wr_out = [], wr_room = room\<rparr>, tj_remain = 0, tj_rAddr = None\<rparr>"

definition addressed :: "string \<times> bytes \<Rightarrow> (byte \<times> udp_addr) list" where
  "addressed x = (case x of (addr, b) \<Rightarrow> tagged (udp_of (the (ParseAddr addr))) b)"

lemma trojan_WriteTo_step:
  assumes "trojan_sent pc p" "ParseAddr addr = Some a" "trojan_WriteTo b addr pc = (n, ok, pc')"
  shows "\<exists>k. trojan_sent pc' (p @ take k (addressed (addr, b))) \<and>
    (ok \<longrightarrow> n = packet_count (addr, b) \<and> take k (addressed (addr, b)) = addressed (addr, b))"
proof -
  from assms(2,3) obtain w' where w: "trojan_WritePacket a b (tj_wire pc) = (n, ok, w')" and pc': "pc' = pc\<lparr>tj_wire := w'\<rparr>"
    by (auto simp: trojan_WriteTo_def split: prod.splits)
  note wf = ParseAddr_wf [OF assms(2)]
  have "wrote a b ok (tj_wire pc) w' \<and> (ok \<longrightarrow> n = packet_count (addr, b))"
    using w trojan_writePacket_step [OF wf, of b "tj_wire pc" n ok w'] packet_loop_step [OF _ wf, of b 0 "tj_wire pc" n ok w']
    by (auto simp: trojan_WritePacket_def packet_count_def assms(2) split: if_splits)
  then obtain ps k where ps: "emitted w' = emitted (tj_wire pc) @ packets_stream ps" "packets_ok ps"
    "packets_data ps = tagged (udp_of a) (take k b)" "ok \<longrightarrow> take k b = b" "ok \<longrightarrow> n = packet_count (addr, b)" by (auto simp: wrote_def)
  from assms(1) obtain qs where qs: "emitted (tj_wire pc) = packets_stream qs" "packets_ok qs" "p = packets_data qs" by (auto simp: trojan_sent_def)
  have t: "take k (addressed (addr, b)) = tagged (udp_of a) (take k b)" by (simp add: addressed_def assms(2) tagged_def take_map)
  have "trojan_sent pc' (p @ take k (addressed (addr, b)))"
    unfolding trojan_sent_def t by (intro exI [of _ "qs @ ps"]) (simp add: packets_append qs ps pc')
  moreover have "ok \<longrightarrow> take k (addressed (addr, b)) = addressed (addr, b)"
    unfolding t using ps(4) by (simp add: addressed_def assms(2))
  ultimately show ?thesis using ps(5) by blast
qed

interpretation trojan: stream_pair tagged_ReadFrom trojan_holds trojan_todo MaxAddrLen "IoErr ''read addr error''"
  "\<lambda>(addr, b). trojan_WriteTo b addr" "\<lambda>(addr, b). ParseAddr addr \<noteq> None" addressed packet_count trojan_sent trojan_sent
  "\<lambda>pc c. concat c = emitted (tj_wire pc)" "trojan_PacketConn room" for room
proof (unfold_locales, goal_cases)
  case (1 s p n d s') from trojan_step [OF this] show ?case by simp
next
  case (2 s p n d e s') from trojan_step [OF this] show ?case by simp
next
  case (3 pc p x n pc')
  then obtain addr b a where x: "x = (addr, b)" "ParseAddr addr = Some a" by auto
  from trojan_WriteTo_step [OF 3(1) x(2), of b n True pc'] 3(3) x(1) show ?case by auto
next
  case (4 pc p x n pc')
  then obtain addr b a where x: "x = (addr, b)" "ParseAddr addr = Some a" by auto
  from trojan_WriteTo_step [OF 4(1) x(2), of b n False pc'] 4(3) x(1) show ?case by auto
next
  case (6 pc p c) then show ?case by (auto simp: trojan_sent_def trojan_holds_def trojan_PacketConn_def tagged_def)
qed


text \<open>
  The count of a packet that is not split includes its head, so \<open>WriteTo\<close> answers with more than
  the length of what it was given.
\<close>

lemma WriteTo_overcounts:
  assumes "ParseAddr addr = Some a" "length b \<le> trojan_maxLength"
  shows "length b + 4 < packet_count (addr, b)"
  using assms ParseAddr_wf [OF assms(1)] SplitAddr_id_cases [of a "a \<noteq> []"]
  by (auto simp: packet_count_def packet_bytes_def crlf_def)

definition tj_addr :: string where
  "tj_addr = v4_string [1, 2, 3, 4] @ CHR '':'' # itoa 5"

lemma tj_addr: "ParseAddr tj_addr = Some [1, 1, 2, 3, 4, 0, 5]"
  using ParseAddr_v4 [of "[1, 2, 3, 4]" 5] by (simp add: tj_addr_def port_bytes_def)

definition tj_demo :: trojan_packet_conn where
  "tj_demo = \<lparr>tj_in = [], tj_wire = \<lparr>wr_out = [[1, 1, 2, 3, 4, 0, 5, 0, 2, 13, 10, 8, 9]], wr_room = 2\<rparr>, tj_remain = 0, tj_rAddr = None\<rparr>"

lemma tj_demo_write:
  "write_all (\<lambda>(addr, b). trojan_WriteTo b addr) [(tj_addr, [8, 9])] (trojan_PacketConn 3 []) = (13, True, tj_demo)"
  by (simp add: trojan_WriteTo_def tj_addr trojan_WritePacket_def trojan_writePacket_def trojan_maxLength_def packet_bytes_def
      conn_Write_def be16_def crlf_def tj_demo_def trojan_PacketConn_def)


end
