(* ===== verification/ClashVmess.thy ===== *)
theory ClashVmess
  imports ClashChunks ClashConstant
begin

unbundle bit_operations_syntax

text \<open>
  \<open>transport/vmess\<close>: the request header of VMess, its two ways to protect it, the response header,
  the connection that reads and writes the body, and the client's configuration.  The
  cryptographic primitives and the random bytes are parameters.
\<close>

section \<open>Constants and addresses\<close>

definition vmess_Version :: byte where "vmess_Version = 1"
definition OptionChunkStream :: byte where "OptionChunkStream = 1"
definition SecurityAES128GCM :: byte where "SecurityAES128GCM = 3"
definition SecurityCHACHA20POLY1305 :: byte where "SecurityCHACHA20POLY1305 = 4"
definition SecurityNone :: byte where "SecurityNone = 5"
definition vmess_CommandTCP :: byte where "vmess_CommandTCP = 1"
definition vmess_CommandUDP :: byte where "vmess_CommandUDP = 2"
definition vmess_AtypIPv4 :: byte where "vmess_AtypIPv4 = 1"
definition vmess_AtypDomainName :: byte where "vmess_AtypDomainName = 2"
definition vmess_AtypIPv6 :: byte where "vmess_AtypIPv6 = 3"

record DstAddr =
  da_UDP :: bool
  da_AddrType :: byte
  da_Addr :: bytes
  da_Port :: nat

section \<open>Primitives\<close>

text \<open>
  Hashes, HMAC over any hash, the block cipher, its two modes, and the ciphers of the body by the
  key.  \<open>gcm\<close> seals and opens with a key, a nonce and additional data.
\<close>

record crypto =
  cy_md5 :: "bytes \<Rightarrow> bytes"
  cy_sha256 :: "bytes \<Rightarrow> bytes"
  cy_hmac :: "(bytes \<Rightarrow> bytes) \<Rightarrow> bytes \<Rightarrow> bytes \<Rightarrow> bytes"
  cy_crc32 :: "bytes \<Rightarrow> nat"
  cy_aes :: "bytes \<Rightarrow> bytes \<Rightarrow> bytes"
  cy_cfb_enc :: "bytes \<Rightarrow> bytes \<Rightarrow> bytes \<Rightarrow> bytes"
  cy_cfb_dec :: "bytes \<Rightarrow> bytes \<Rightarrow> bytes \<Rightarrow> bytes"
  cy_gcm_Seal :: "bytes \<Rightarrow> bytes \<Rightarrow> bytes \<Rightarrow> bytes \<Rightarrow> bytes"
  cy_gcm_Open :: "bytes \<Rightarrow> bytes \<Rightarrow> bytes \<Rightarrow> bytes \<Rightarrow> bytes option"
  cy_body_gcm :: "bytes \<Rightarrow> aead"
  cy_body_chacha :: "bytes \<Rightarrow> aead"

definition be64 :: "nat \<Rightarrow> bytes" where
  "be64 n = be16 (n div 2 ^ 48) @ be16 (n div 2 ^ 32) @ be16 (n div 2 ^ 16) @ be16 n"

definition be32w :: "32 word \<Rightarrow> bytes" where
  "be32w x = be16 (unat x div 65536) @ be16 (unat x)"

text \<open>\<open>hash/fnv\<close>: the 32-bit FNV-1a hash.\<close>

definition fnv1a :: "bytes \<Rightarrow> 32 word" where
  "fnv1a b = foldl (\<lambda>h x. (h XOR ucast x) * 16777619) 2166136261 b"

text \<open>The key derivation: HMACs, each with the one before as its hash.\<close>

fun hmac_chain :: "crypto \<Rightarrow> (bytes \<Rightarrow> bytes) \<Rightarrow> string list \<Rightarrow> bytes \<Rightarrow> bytes" where
  "hmac_chain y h [] = h"
| "hmac_chain y h (v # vs) = hmac_chain y (cy_hmac y h (bytes_of v)) vs"

definition vmess_kdf :: "crypto \<Rightarrow> bytes \<Rightarrow> string list \<Rightarrow> bytes" where
  "vmess_kdf y key path = hmac_chain y (cy_hmac y (cy_sha256 y) (bytes_of ''VMess AEAD KDF'')) path key"

definition salt_auth_id :: string where "salt_auth_id = ''AES Auth ID Encryption''"
definition salt_resp_len_key :: string where "salt_resp_len_key = ''AEAD Resp Header Len Key''"
definition salt_resp_len_iv :: string where "salt_resp_len_iv = ''AEAD Resp Header Len IV''"
definition salt_resp_key :: string where "salt_resp_key = ''AEAD Resp Header Key''"
definition salt_resp_iv :: string where "salt_resp_iv = ''AEAD Resp Header IV''"
definition salt_header_key :: string where "salt_header_key = ''VMess Header AEAD Key''"
definition salt_header_iv :: string where "salt_header_iv = ''VMess Header AEAD Nonce''"
definition salt_header_len_key :: string where "salt_header_len_key = ''VMess Header AEAD Key_Length''"
definition salt_header_len_iv :: string where "salt_header_len_iv = ''VMess Header AEAD Nonce_Length''"

section \<open>The sealed header\<close>

definition createAuthID :: "crypto \<Rightarrow> bytes \<Rightarrow> nat \<Rightarrow> bytes \<Rightarrow> bytes" where
  "createAuthID y cmdKey time random =
     (let buf = be64 time @ random in
      cy_aes y (take 16 (vmess_kdf y cmdKey [salt_auth_id])) (buf @ be32w (of_nat (cy_crc32 y buf))))"

definition header_key :: "crypto \<Rightarrow> bytes \<Rightarrow> string \<Rightarrow> bytes \<Rightarrow> bytes \<Rightarrow> bytes" where
  "header_key y key salt authID nonce = vmess_kdf y key [salt, string_of authID, string_of nonce]"

definition sealVMessAEADHeader :: "crypto \<Rightarrow> bytes \<Rightarrow> bytes \<Rightarrow> nat \<Rightarrow> bytes \<Rightarrow> bytes \<Rightarrow> bytes" where
  "sealVMessAEADHeader y key data t random connectionNonce =
     (let authID = createAuthID y key t random;
          lengthEncrypted = cy_gcm_Seal y (take 16 (header_key y key salt_header_len_key authID connectionNonce))
            (take 12 (header_key y key salt_header_len_iv authID connectionNonce)) authID (be16 (length data));
          headerEncrypted = cy_gcm_Seal y (take 16 (header_key y key salt_header_key authID connectionNonce))
            (take 12 (header_key y key salt_header_iv authID connectionNonce)) authID data
      in authID @ lengthEncrypted @ connectionNonce @ headerEncrypted)"

definition hashTimestamp :: "crypto \<Rightarrow> nat \<Rightarrow> bytes" where
  "hashTimestamp y t = cy_md5 y (be64 t @ be64 t @ be64 t @ be64 t)"

section \<open>Users\<close>

record vmess_ID =
  id_UUID :: bytes
  id_CmdKey :: bytes

definition newID :: "crypto \<Rightarrow> bytes \<Rightarrow> vmess_ID" where
  "newID y uuid = \<lparr>id_UUID = uuid, id_CmdKey = cy_md5 y (uuid @ bytes_of ''c48619fe-8f02-49e0-b9e9-edf763e17e21'')\<rparr>"

text \<open>The loop ends unless every hash of the growing text is the identity it started from.\<close>

partial_function (option) nextID_loop :: "crypto \<Rightarrow> bytes \<Rightarrow> bytes \<Rightarrow> bytes option" where
  "nextID_loop y u text =
     (if cy_md5 y text \<noteq> u then Some (cy_md5 y text)
      else nextID_loop y u (text @ bytes_of ''533eff8a-4113-4b10-b5ce-0f5d76b98cd2''))"

definition nextID :: "crypto \<Rightarrow> bytes \<Rightarrow> bytes option" where
  "nextID y u = nextID_loop y u (u @ bytes_of ''16167dc8-16b6-4e6d-b8bb-65dd68113a81'')"

fun alter_loop :: "crypto \<Rightarrow> bytes \<Rightarrow> bytes \<Rightarrow> nat \<Rightarrow> vmess_ID list option" where
  "alter_loop y cmdKey prev 0 = Some []"
| "alter_loop y cmdKey prev (Suc n) =
     (case nextID y prev of
        None \<Rightarrow> None
      | Some newid \<Rightarrow> map_option (\<lambda>r. \<lparr>id_UUID = newid, id_CmdKey = cmdKey\<rparr> # r) (alter_loop y cmdKey newid n))"

definition newAlterIDs :: "crypto \<Rightarrow> vmess_ID \<Rightarrow> nat \<Rightarrow> vmess_ID list option" where
  "newAlterIDs y primary alterIDCount = map_option (\<lambda>ids. ids @ [primary]) (alter_loop y (id_CmdKey primary) (id_UUID primary) alterIDCount)"

record vmess_Client =
  vl_user :: "vmess_ID list"
  vl_uuid :: bytes
  vl_security :: byte
  vl_isAead :: bool

record vmess_Config =
  vg_UUID :: string
  vg_AlterID :: nat
  vg_Security :: string
  vg_IsAead :: bool

text \<open>
  \<open>goarch\<close> is the architecture the program was built for and \<open>parse_uuid\<close> reads an identity.  The
  result is missing when the search for the identities does not end.
\<close>

definition vmess_NewClient ::
  "crypto \<Rightarrow> (string \<Rightarrow> string + bytes) \<Rightarrow> string \<Rightarrow> vmess_Config \<Rightarrow> (string + vmess_Client) option" where
  "vmess_NewClient y parse_uuid goarch config =
     (case parse_uuid (vg_UUID config) of
        Inl e \<Rightarrow> Some (Inl e)
      | Inr uid \<Rightarrow>
          (case (if vg_Security config = ''aes-128-gcm'' then Some SecurityAES128GCM
                 else if vg_Security config = ''chacha20-poly1305'' then Some SecurityCHACHA20POLY1305
                 else if vg_Security config = ''none'' then Some SecurityNone
                 else if vg_Security config = ''auto'' then
                   Some (if goarch \<in> {''amd64'', ''s390x'', ''arm64''} then SecurityAES128GCM else SecurityCHACHA20POLY1305)
                 else None) of
             None \<Rightarrow> Some (Inl (''unknown security type: '' @ vg_Security config))
           | Some security \<Rightarrow>
               map_option (\<lambda>ids. Inr \<lparr>vl_user = ids, vl_uuid = uid, vl_security = security, vl_isAead = vg_IsAead config\<rparr>)
                 (newAlterIDs y (newID y uid) (vg_AlterID config))))"

section \<open>A connection\<close>

datatype body_reader = PlainReader chunk_reader | SealedReader aead_reader
datatype body_writer = PlainWriter wire | SealedWriter aead_writer

record vmess_conn =
  vm_in :: segs
  vm_reader :: body_reader
  vm_writer :: body_writer
  vm_dst :: DstAddr
  vm_id :: vmess_ID
  vm_reqBodyIV :: bytes
  vm_reqBodyKey :: bytes
  vm_respBodyIV :: bytes
  vm_respBodyKey :: bytes
  vm_respV :: byte
  vm_security :: byte
  vm_isAead :: bool
  vm_received :: bool

text \<open>The random choices of a request: the padding, and the two values of a sealed header.\<close>

record vmess_random =
  vr_padding :: bytes
  vr_auth :: bytes
  vr_nonce :: bytes

definition request_plain :: "vmess_conn \<Rightarrow> bytes \<Rightarrow> bytes" where
  "request_plain vc padding =
     (let buf = [vmess_Version] @ vm_reqBodyIV vc @ vm_reqBodyKey vc @ [vm_respV vc] @ [OptionChunkStream] @
            [push_bit 4 (of_nat (length padding)) OR vm_security vc] @ [0] @
            [if da_UDP (vm_dst vc) then vmess_CommandUDP else vmess_CommandTCP] @
            be16 (da_Port (vm_dst vc)) @ [da_AddrType (vm_dst vc)] @ da_Addr (vm_dst vc) @ padding
      in buf @ be32w (fnv1a buf))"

definition request_bytes :: "crypto \<Rightarrow> vmess_conn \<Rightarrow> nat \<Rightarrow> vmess_random \<Rightarrow> bytes" where
  "request_bytes y vc timestamp r =
     (let buf = request_plain vc (vr_padding r) in
      if \<not> vm_isAead vc then
        cy_hmac y (cy_md5 y) (id_UUID (vm_id vc)) (be64 timestamp) @
          cy_cfb_enc y (id_CmdKey (vm_id vc)) (hashTimestamp y timestamp) buf
      else sealVMessAEADHeader y (take 16 (id_CmdKey (vm_id vc) @ replicate 16 0)) buf timestamp (vr_auth r) (vr_nonce r))"

definition recvResponse :: "crypto \<Rightarrow> vmess_conn \<Rightarrow> io_err option \<times> segs" where
  "recvResponse y vc =
     (let check = (\<lambda>buf. if buf ! 0 \<noteq> vm_respV vc then Some (IoErr ''unexpected response header'')
                         else if buf ! 2 \<noteq> 0 then Some (IoErr ''dynamic port is not supported now'') else None) in
      if \<not> vm_isAead vc then
        (case ReadFull 4 (vm_in vc) of
           (d, Some e, c) \<Rightarrow> (Some e, c)
         | (d, None, c) \<Rightarrow> (check (cy_cfb_dec y (vm_respBodyKey vc) (vm_respBodyIV vc) d), c))
      else
        (case ReadFull 18 (vm_in vc) of
           (d, Some e, c) \<Rightarrow> (Some e, c)
         | (d, None, c) \<Rightarrow>
             (case cy_gcm_Open y (take 16 (vmess_kdf y (vm_respBodyKey vc) [salt_resp_len_key]))
                 (take 12 (vmess_kdf y (vm_respBodyIV vc) [salt_resp_len_iv])) [] d of
                None \<Rightarrow> (Some (IoErr ''open''), c)
              | Some l \<Rightarrow>
                  \<comment> \<open>the length is of sixteen bits and wraps\<close>
                  (case ReadFull ((be16_val l + 16) mod 65536) c of
                     (d, Some e, c) \<Rightarrow> (Some e, c)
                   | (d, None, c) \<Rightarrow>
                       (case cy_gcm_Open y (take 16 (vmess_kdf y (vm_respBodyKey vc) [salt_resp_key]))
                           (take 12 (vmess_kdf y (vm_respBodyIV vc) [salt_resp_iv])) [] d of
                          None \<Rightarrow> (Some (IoErr ''open''), c)
                        | Some buf \<Rightarrow> if length buf < 4 then (Some (IoErr ''unexpected buffer length''), c) else (check buf, c))))))"

text \<open>The ciphers of the body by the security of the client; a client has no other security.\<close>

definition chacha_key :: "crypto \<Rightarrow> bytes \<Rightarrow> bytes" where
  "chacha_key y key = (let t = cy_md5 y key in t @ cy_md5 y t)"

definition body_aead :: "crypto \<Rightarrow> byte \<Rightarrow> bytes \<Rightarrow> aead" where
  "body_aead y security key =
     (if security = SecurityAES128GCM then cy_body_gcm y key else cy_body_chacha y (chacha_key y key))"

definition newConn ::
  "crypto \<Rightarrow> segs \<Rightarrow> wire \<Rightarrow> vmess_ID \<Rightarrow> DstAddr \<Rightarrow> byte \<Rightarrow> bool \<Rightarrow> bytes \<Rightarrow> nat \<Rightarrow> vmess_random \<Rightarrow> vmess_conn option \<times> wire" where
  "newConn y c w i dst security isAead randBytes now r =
     (let reqBodyIV = take 16 randBytes; reqBodyKey = take 16 (drop 16 randBytes); respV = randBytes ! 32;
          respBodyKey = (if isAead then take 16 (cy_sha256 y reqBodyKey) else cy_md5 y reqBodyKey);
          respBodyIV = (if isAead then take 16 (cy_sha256 y reqBodyIV) else cy_md5 y reqBodyIV);
          vc = \<lparr>vm_in = c,
            vm_reader = (if security = SecurityNone then PlainReader (newChunkReader c)
                         else SealedReader (newAEADReader c (body_aead y security respBodyKey) respBodyIV)),
            vm_writer = PlainWriter w, vm_dst = dst, vm_id = i, vm_reqBodyIV = reqBodyIV, vm_reqBodyKey = reqBodyKey,
            vm_respBodyIV = respBodyIV, vm_respBodyKey = respBodyKey, vm_respV = respV, vm_security = security,
            vm_isAead = isAead, vm_received = False\<rparr>
      in case conn_Write (request_bytes y vc now r) w of
           (False, w) \<Rightarrow> (None, w)
         | (True, w) \<Rightarrow>
             (Some (vc\<lparr>vm_writer := (if security = SecurityNone then PlainWriter w
                         else SealedWriter (newAEADWriter w (body_aead y security reqBodyKey) reqBodyIV))\<rparr>), w))"

text \<open>\<open>n\<close> is the user a random number chose.\<close>

definition vmess_StreamConn ::
  "crypto \<Rightarrow> vmess_Client \<Rightarrow> nat \<Rightarrow> segs \<Rightarrow> wire \<Rightarrow> DstAddr \<Rightarrow> bytes \<Rightarrow> nat \<Rightarrow> vmess_random \<Rightarrow> vmess_conn option \<times> wire" where
  "vmess_StreamConn y c n conn w dst randBytes now r =
     newConn y conn w (vl_user c ! (n mod length (vl_user c))) dst (vl_security c) (vl_isAead c) randBytes now r"

definition body_Read :: "nat \<Rightarrow> body_reader \<Rightarrow> body_reader read_result" where
  "body_Read n r =
     (case r of
        PlainReader cr \<Rightarrow> (case chunk_Read n cr of (d, e, cr) \<Rightarrow> (d, e, PlainReader cr))
      | SealedReader ar \<Rightarrow> (case aead_Read n ar of (d, e, ar) \<Rightarrow> (d, e, SealedReader ar)))"

text \<open>The reader of the body reads from where the response header ended.\<close>

definition reading_from :: "segs \<Rightarrow> body_reader \<Rightarrow> body_reader" where
  "reading_from c r = (case r of PlainReader cr \<Rightarrow> PlainReader (cr\<lparr>cr_in := c\<rparr>) | SealedReader ar \<Rightarrow> SealedReader (ar\<lparr>ar_in := c\<rparr>))"

definition vmess_Read :: "crypto \<Rightarrow> nat \<Rightarrow> vmess_conn \<Rightarrow> vmess_conn read_result" where
  "vmess_Read y n vc =
     (if vm_received vc then (case body_Read n (vm_reader vc) of (d, e, r) \<Rightarrow> (d, e, vc\<lparr>vm_reader := r\<rparr>))
      else case recvResponse y vc of
        (Some e, c) \<Rightarrow> ([], Some e, vc\<lparr>vm_in := c\<rparr>)
      | (None, c) \<Rightarrow>
          (case body_Read n (reading_from c (vm_reader vc)) of
             (d, e, r) \<Rightarrow> (d, e, vc\<lparr>vm_in := [], vm_reader := r, vm_received := True\<rparr>)))"

definition vmess_Write :: "bytes \<Rightarrow> vmess_conn \<Rightarrow> nat \<times> bool \<times> vmess_conn" where
  "vmess_Write b vc =
     (case vm_writer vc of
        PlainWriter w \<Rightarrow> (case chunk_Write b w of (n, ok, w) \<Rightarrow> (n, ok, vc\<lparr>vm_writer := PlainWriter w\<rparr>))
      | SealedWriter w \<Rightarrow> (case aead_Write b w of (n, ok, w) \<Rightarrow> (n, ok, vc\<lparr>vm_writer := SealedWriter w\<rparr>)))"

section \<open>Metadata to address\<close>

text \<open>\<open>copy\<close> into a zeroed array of \<open>n\<close> bytes.\<close>

definition copied :: "nat \<Rightarrow> bytes \<Rightarrow> bytes" where
  "copied n b = take n (b @ replicate n 0)"

definition ip_bytes :: "(bytes \<Rightarrow> bytes option) \<Rightarrow> bytes option \<Rightarrow> bytes" where
  "ip_bytes f ip = (case ip of None \<Rightarrow> [] | Some x \<Rightarrow> (case f x of None \<Rightarrow> [] | Some y \<Rightarrow> y))"

text \<open>The port of a text that is no number is zero, of a number that is too large the largest.\<close>

definition port_or :: "string \<Rightarrow> nat" where
  "port_or s = (case parse_uint 16 s of Inr n \<Rightarrow> n | Inl ErrRange \<Rightarrow> 65535 | Inl ErrSyntax \<Rightarrow> 0)"

definition parseVmessAddr :: "Metadata \<Rightarrow> DstAddr" where
  "parseVmessAddr m =
     (let (addrType, addr) =
        (if md_AddrType m = 1 then (vmess_AtypIPv4, copied 4 (ip_bytes to4 (md_DstIP m)))
         else if md_AddrType m = 4 then (vmess_AtypIPv6, copied 16 (ip_bytes to16 (md_DstIP m)))
         else if md_AddrType m = 3 then (vmess_AtypDomainName, of_nat (length (md_Host m)) # bytes_of (md_Host m))
         else (0, []))
      in \<lparr>da_UDP = (md_NetWork m = UDP), da_AddrType = addrType, da_Addr = addr, da_Port = port_or (md_DstPort m)\<rparr>)"

section \<open>What a server understands\<close>

text \<open>
  The protocol's reading of a request, as a server does it: the plain header with its checksum,
  and the two ways it is protected.  This is the contract of the client's encoding.
\<close>

record vmess_request =
  rq_IV :: bytes
  rq_Key :: bytes
  rq_V :: byte
  rq_Option :: byte
  rq_Security :: byte
  rq_Command :: byte
  rq_Port :: nat
  rq_AddrType :: byte
  rq_Addr :: bytes

definition addr_len :: "byte \<Rightarrow> bytes \<Rightarrow> nat" where
  "addr_len t b = (if t = vmess_AtypIPv4 then 4 else if t = vmess_AtypIPv6 then 16 else 1 + unat (b ! 0))"

definition parse_request :: "bytes \<Rightarrow> vmess_request option" where
  "parse_request b =
     (if length b < 45 \<or> b ! 0 \<noteq> vmess_Version then None
      else let al = addr_len (b ! 40) (drop 41 b); pl = unat (drop_bit 4 (b ! 35)); n = 41 + al + pl in
        if drop n b \<noteq> be32w (fnv1a (take n b)) then None
        else Some \<lparr>rq_IV = take 16 (drop 1 b), rq_Key = take 16 (drop 17 b), rq_V = b ! 33, rq_Option = b ! 34,
          rq_Security = b ! 35 AND 15, rq_Command = b ! 37, rq_Port = be16_val (drop 38 b), rq_AddrType = b ! 40,
          rq_Addr = take al (drop 41 b)\<rparr>)"

definition open_header :: "crypto \<Rightarrow> bytes \<Rightarrow> bytes \<Rightarrow> bytes option" where
  "open_header y key msg =
     (let authID = take 16 msg; nonce = take 8 (drop 34 msg) in
      case cy_gcm_Open y (take 16 (header_key y key salt_header_len_key authID nonce))
          (take 12 (header_key y key salt_header_len_iv authID nonce)) authID (take 18 (drop 16 msg)) of
        None \<Rightarrow> None
      | Some l \<Rightarrow> cy_gcm_Open y (take 16 (header_key y key salt_header_key authID nonce))
          (take 12 (header_key y key salt_header_iv authID nonce)) authID (take (be16_val l + 16) (drop 42 msg)))"

definition server_request :: "crypto \<Rightarrow> vmess_ID \<Rightarrow> bool \<Rightarrow> nat \<Rightarrow> bytes \<Rightarrow> vmess_request option" where
  "server_request y i isAead timestamp msg =
     (if isAead then Option.bind (open_header y (id_CmdKey i) msg) parse_request
      else let h = cy_hmac y (cy_md5 y) (id_UUID i) (be64 timestamp) in
        if take (length h) msg \<noteq> h then None
        else parse_request (cy_cfb_dec y (id_CmdKey i) (hashTimestamp y timestamp) (drop (length h) msg)))"

text \<open>What is asked of the primitives: what was encrypted can be decrypted, and the lengths.\<close>

definition crypto_sound :: "crypto \<Rightarrow> bool" where
  "crypto_sound y \<longleftrightarrow>
     (\<forall>k nonce aad p. cy_gcm_Open y k nonce aad (cy_gcm_Seal y k nonce aad p) = Some p \<and>
        length (cy_gcm_Seal y k nonce aad p) = length p + 16) \<and>
     (\<forall>k iv p. cy_cfb_dec y k iv (cy_cfb_enc y k iv p) = p \<and> length (cy_cfb_enc y k iv p) = length p) \<and>
     (\<forall>k b. length (cy_aes y k b) = 16)"

definition dst_ok :: "DstAddr \<Rightarrow> bool" where
  "dst_ok d \<longleftrightarrow> da_Port d < 65536 \<and> da_Addr d \<noteq> [] \<and> length (da_Addr d) = addr_len (da_AddrType d) (da_Addr d)"

lemma padding_nibbles:
  fixes sec :: byte
  assumes "p < 16" "sec \<in> {SecurityAES128GCM, SecurityCHACHA20POLY1305, SecurityNone}"
  shows "unat (drop_bit 4 (push_bit 4 (of_nat p) OR sec)) = p" "(push_bit 4 (of_nat p) OR sec) AND 15 = sec"
proof -
  from assms(1) have "p \<in> {0, 1, 2, 3, 4, 5, 6, 7, 8, 9, 10, 11, 12, 13, 14, 15}" by simp presburger
  moreover have "sec \<in> {3, 4, 5}" using assms(2) by (simp add: SecurityAES128GCM_def SecurityCHACHA20POLY1305_def SecurityNone_def)
  ultimately show "unat (drop_bit 4 (push_bit 4 (of_nat p) OR sec)) = p" "(push_bit 4 (of_nat p) OR sec) AND 15 = sec"
    by auto
qed

lemma be16_val_append [simp]: "be16_val (be16 n @ x) = be16_val (be16 n)"
  by (simp add: be16_val_def be16_def)

lemma length_be32w [simp]: "length (be32w x) = 4"
  by (simp add: be32w_def)

lemma addr_len_append: "b \<noteq> [] \<Longrightarrow> addr_len t (b @ x) = addr_len t b"
  by (cases b) (simp_all add: addr_len_def)

lemma parse_request_plain:
  assumes iv: "length iv = 16" and key: "length key = 16" and pad: "length padding < 16"
    and sec: "sec \<in> {SecurityAES128GCM, SecurityCHACHA20POLY1305, SecurityNone}" and d: "dst_ok d"
    and vc: "vm_reqBodyIV vc = iv" "vm_reqBodyKey vc = key" "vm_security vc = sec" "vm_dst vc = d"
  shows "parse_request (request_plain vc padding) =
    Some \<lparr>rq_IV = iv, rq_Key = key, rq_V = vm_respV vc, rq_Option = OptionChunkStream, rq_Security = sec,
      rq_Command = (if da_UDP d then vmess_CommandUDP else vmess_CommandTCP), rq_Port = da_Port d,
      rq_AddrType = da_AddrType d, rq_Addr = da_Addr d\<rparr>"
proof -
  define ps where "ps = push_bit 4 (of_nat (length padding)) OR sec"
  let ?cmd = "if da_UDP d then vmess_CommandUDP else vmess_CommandTCP"
  define rest where "rest = da_Addr d @ padding"
  define h where "h = [vmess_Version] @ iv @ key @ [vm_respV vc, OptionChunkStream, ps, 0, ?cmd] @ be16 (da_Port d) @ [da_AddrType d]"
  have lh: "length h = 41" by (simp add: h_def iv key)
  have b: "request_plain vc padding = (h @ rest) @ be32w (fnv1a (h @ rest))"
    by (simp add: request_plain_def h_def rest_def Let_def vc ps_def)
  let ?b = "request_plain vc padding"
  have ne: "da_Addr d \<noteq> []" and al: "length (da_Addr d) = addr_len (da_AddrType d) (da_Addr d)" using d by (simp_all add: dst_ok_def)
  have at: "?b ! i = h ! i" if "i < 41" for i using that lh by (simp add: b nth_append)
  have h0: "h ! 0 = vmess_Version" "h ! 33 = vm_respV vc" "h ! 34 = OptionChunkStream" "h ! 35 = ps" "h ! 37 = ?cmd" "h ! 40 = da_AddrType d"
    by (simp_all add: h_def iv key nth_append be16_def)
  have d41: "drop 41 ?b = da_Addr d @ padding @ be32w (fnv1a (h @ rest))" by (simp add: b lh rest_def)
  have al': "addr_len (?b ! 40) (drop 41 ?b) = length (da_Addr d)"
    using ne al by (simp add: at h0 d41 addr_len_append)
  note nb = padding_nibbles [OF pad sec, folded ps_def]
  have n: "41 + length (da_Addr d) + length padding = length (h @ rest)" by (simp add: lh rest_def)
  have dn: "drop (41 + length (da_Addr d) + length padding) ?b = be32w (fnv1a (h @ rest))" unfolding n b by simp
  have tn: "take (41 + length (da_Addr d) + length padding) ?b = h @ rest" unfolding n b by simp
  have t1: "take 16 (drop (Suc 0) ?b) = iv" "take 16 (drop 17 ?b) = key" by (simp_all add: b h_def iv key)
  have "drop 38 ?b = be16 (da_Port d) @ [da_AddrType d] @ rest @ be32w (fnv1a (h @ rest))" by (simp add: b h_def iv key)
  then have po: "be16_val (drop 38 ?b) = da_Port d" using d by (simp add: be16_val_be16 dst_ok_def)
  have len: "\<not> length ?b < 45" using ne by (simp add: b lh rest_def)
  show ?thesis
    unfolding parse_request_def Let_def al' using len nb
    by (simp add: at h0 dn tn t1 po d41)
qed

lemma open_sealed:
  assumes "crypto_sound y" "length nonce = 8" "length data < 65536"
  shows "open_header y key (sealVMessAEADHeader y key data t random nonce) = Some data"
proof -
  let ?a = "createAuthID y key t random"
  from assms(1) have la: "length ?a = 16" by (simp add: createAuthID_def crypto_sound_def Let_def)
  from assms(1) have g: "\<And>k n aad p. cy_gcm_Open y k n aad (cy_gcm_Seal y k n aad p) = Some p"
    "\<And>k n aad p. length (cy_gcm_Seal y k n aad p) = length p + 16" by (simp_all add: crypto_sound_def)
  show ?thesis
    using assms(2,3) by (simp add: open_header_def sealVMessAEADHeader_def Let_def la g be16_val_be16)
qed


section \<open>What the client reads\<close>

text \<open>A response header the client accepts, whole.\<close>

definition header_fits :: "byte \<Rightarrow> bytes \<Rightarrow> bool" where
  "header_fits v buf \<longleftrightarrow> buf ! 0 = v \<and> buf ! 2 = 0"

definition response_ok :: "crypto \<Rightarrow> vmess_conn \<Rightarrow> bytes \<Rightarrow> bool" where
  "response_ok y vc h \<longleftrightarrow>
     (if \<not> vm_isAead vc then length h = 4 \<and> header_fits (vm_respV vc) (cy_cfb_dec y (vm_respBodyKey vc) (vm_respBodyIV vc) h)
      else \<exists>hl hp l buf. h = hl @ hp \<and> length hl = 18 \<and>
        cy_gcm_Open y (take 16 (vmess_kdf y (vm_respBodyKey vc) [salt_resp_len_key]))
          (take 12 (vmess_kdf y (vm_respBodyIV vc) [salt_resp_len_iv])) [] hl = Some l \<and> length hp = (be16_val l + 16) mod 65536 \<and>
        cy_gcm_Open y (take 16 (vmess_kdf y (vm_respBodyKey vc) [salt_resp_key]))
          (take 12 (vmess_kdf y (vm_respBodyIV vc) [salt_resp_iv])) [] hp = Some buf \<and> 4 \<le> length buf \<and> header_fits (vm_respV vc) buf)"

lemma recvResponse_ok:
  assumes "response_ok y vc h" "concat (vm_in vc) = h @ r"
  obtains c where "recvResponse y vc = (None, c)" "concat c = r" "seg_size c \<le> seg_size (vm_in vc)"
proof (cases "vm_isAead vc")
  case False
  with assms(1) have h: "length h = 4" "header_fits (vm_respV vc) (cy_cfb_dec y (vm_respBodyKey vc) (vm_respBodyIV vc) h)"
    by (simp_all add: response_ok_def)
  from assms(2) h(1) obtain c where c: "ReadFull 4 (vm_in vc) = (h, None, c)" "concat c = r" "seg_size c + 4 \<le> seg_size (vm_in vc)"
    by (rule ReadFull_append)
  with False h(2) show ?thesis by (intro that [of c]) (simp_all add: recvResponse_def header_fits_def)
next
  case True
  with assms(1) obtain hl hp l buf where h: "h = hl @ hp" "length hl = 18"
      "cy_gcm_Open y (take 16 (vmess_kdf y (vm_respBodyKey vc) [salt_resp_len_key]))
          (take 12 (vmess_kdf y (vm_respBodyIV vc) [salt_resp_len_iv])) [] hl = Some l"
    and hp: "length hp = (be16_val l + 16) mod 65536"
      "cy_gcm_Open y (take 16 (vmess_kdf y (vm_respBodyKey vc) [salt_resp_key]))
          (take 12 (vmess_kdf y (vm_respBodyIV vc) [salt_resp_iv])) [] hp = Some buf" "4 \<le> length buf" "header_fits (vm_respV vc) buf"
    unfolding response_ok_def by auto
  from assms(2) h(1) have "concat (vm_in vc) = hl @ hp @ r" by simp
  from this h(2) obtain c1 where c1: "ReadFull 18 (vm_in vc) = (hl, None, c1)" "concat c1 = hp @ r" "seg_size c1 + 18 \<le> seg_size (vm_in vc)"
    by (rule ReadFull_append)
  from c1(2) hp(1) obtain c2 where c2: "ReadFull ((be16_val l + 16) mod 65536) c1 = (hp, None, c2)" "concat c2 = r"
    "seg_size c2 + (be16_val l + 16) mod 65536 \<le> seg_size c1" by (rule ReadFull_append)
  from True have "recvResponse y vc = (None, c2)"
    using hp(3,4) by (simp add: recvResponse_def c1(1) h(3) c2(1) hp(2) Let_def header_fits_def)
  with c1(3) c2(2,3) show ?thesis by (intro that [of c2]) auto
qed

definition body_holds :: "body_reader \<Rightarrow> bytes \<Rightarrow> bool" where
  "body_holds r p = (case r of PlainReader cr \<Rightarrow> chunk_holds cr p | SealedReader ar \<Rightarrow> aead_holds ar p)"

definition body_todo :: "body_reader \<Rightarrow> nat" where
  "body_todo r = (case r of PlainReader cr \<Rightarrow> chunk_todo cr | SealedReader ar \<Rightarrow> aead_todo ar)"

definition body_fresh :: "body_reader \<Rightarrow> bool" where
  "body_fresh r = (case r of PlainReader cr \<Rightarrow> cr_buf cr = None | SealedReader ar \<Rightarrow> ar_buf ar = None)"

definition vmess_holds :: "crypto \<Rightarrow> vmess_conn \<Rightarrow> bytes \<Rightarrow> bool" where
  "vmess_holds y vc p \<longleftrightarrow>
     (if vm_received vc then body_holds (vm_reader vc) p
      else body_fresh (vm_reader vc) \<and> (\<exists>h r. concat (vm_in vc) = h @ r \<and> response_ok y vc h \<and>
        (\<forall>c. concat c = r \<longrightarrow> body_holds (reading_from c (vm_reader vc)) p)))"

definition vmess_todo :: "vmess_conn \<Rightarrow> nat" where
  "vmess_todo vc = (if vm_received vc then body_todo (vm_reader vc) else Suc (seg_size (vm_in vc)))"

lemma body_step:
  assumes "body_holds r p" "0 < n" "body_Read n r = (d, e, r')"
  shows "case e of None \<Rightarrow> length d \<le> n \<and> body_todo r' < body_todo r \<and> (\<exists>p'. p = d @ p' \<and> body_holds r' p')
    | Some x \<Rightarrow> x = EOF \<and> p = [] \<and> d = []"
proof (cases r)
  case (PlainReader cr)
  with assms obtain cr' where h: "chunk_Read n cr = (d, e, cr')" "r' = PlainReader cr'" "chunk_holds cr p"
    by (auto simp: body_Read_def body_holds_def split: prod.splits)
  from chunk_step [OF h(3) assms(2) h(1)] PlainReader h(2) show ?thesis by (cases e) (simp_all add: body_holds_def body_todo_def)
next
  case (SealedReader ar)
  with assms obtain ar' where h: "aead_Read n ar = (d, e, ar')" "r' = SealedReader ar'" "aead_holds ar p"
    by (auto simp: body_Read_def body_holds_def split: prod.splits)
  from aead_step [OF h(3) assms(2) h(1)] SealedReader h(2) show ?thesis by (cases e) (simp_all add: body_holds_def body_todo_def)
qed

lemma body_todo_fresh: "body_fresh r \<Longrightarrow> body_todo (reading_from c r) = seg_size c"
  by (cases r) (simp_all add: body_fresh_def body_todo_def reading_from_def chunk_todo_def aead_todo_def)

lemma vmess_step:
  assumes "vmess_holds y vc p" "0 < n" "vmess_Read y n vc = (d, e, vc')"
  shows "case e of None \<Rightarrow> length d \<le> n \<and> vmess_todo vc' < vmess_todo vc \<and> (\<exists>p'. p = d @ p' \<and> vmess_holds y vc' p')
    | Some x \<Rightarrow> x = EOF \<and> p = [] \<and> d = []"
proof (cases "vm_received vc")
  case True
  with assms obtain r' where r: "body_Read n (vm_reader vc) = (d, e, r')" "vc' = vc\<lparr>vm_reader := r'\<rparr>" "body_holds (vm_reader vc) p"
    by (auto simp: vmess_Read_def vmess_holds_def split: prod.splits)
  from body_step [OF r(3) assms(2) r(1)] True r(2) show ?thesis by (cases e) (auto simp: vmess_holds_def vmess_todo_def)
next
  case False
  with assms(1) obtain h s where f: "body_fresh (vm_reader vc)" "concat (vm_in vc) = h @ s" "response_ok y vc h"
    and b: "\<And>c. concat c = s \<Longrightarrow> body_holds (reading_from c (vm_reader vc)) p" by (auto simp: vmess_holds_def)
  from f(3,2) obtain c where c: "recvResponse y vc = (None, c)" "concat c = s" "seg_size c \<le> seg_size (vm_in vc)" by (rule recvResponse_ok)
  from assms(3) False c(1) obtain r' where r: "body_Read n (reading_from c (vm_reader vc)) = (d, e, r')"
    "vc' = vc\<lparr>vm_in := [], vm_reader := r', vm_received := True\<rparr>" by (auto simp: vmess_Read_def split: prod.splits)
  from body_step [OF b [OF c(2)] assms(2) r(1)] False r(2) c(3) show ?thesis
    by (cases e) (auto simp: vmess_holds_def vmess_todo_def body_todo_fresh [OF f(1)])
qed

interpretation vmess: stream_reader "vmess_Read y" "vmess_holds y" vmess_todo 1 EOF for y
proof (unfold_locales, goal_cases)
  case (1 s p n d s') with vmess_step [of y s p n d] show ?case by fastforce
next
  case (2 s p n d e s') with vmess_step [of y s p n d] show ?case by fastforce
qed


section \<open>Primitives that satisfy the laws\<close>

definition toy_crypto :: crypto where
  "toy_crypto = \<lparr>cy_md5 = (\<lambda>b. take 16 (b @ replicate 16 0)), cy_sha256 = (\<lambda>b. take 32 (b @ replicate 32 0)),
     cy_hmac = (\<lambda>h k b. take 16 (h b @ replicate 16 0)), cy_crc32 = length, cy_aes = (\<lambda>k b. take 16 (b @ replicate 16 0)),
     cy_cfb_enc = (\<lambda>k iv b. map (\<lambda>x. x + 1) b), cy_cfb_dec = (\<lambda>k iv b. map (\<lambda>x. x - 1) b),
     cy_gcm_Seal = (\<lambda>k n aad p. p @ replicate 16 9), cy_gcm_Open = (\<lambda>k n aad b. Some (take (length b - 16) b)),
     cy_body_gcm = (\<lambda>k. plain_aead), cy_body_chacha = (\<lambda>k. plain_aead)\<rparr>"

lemma toy_crypto_sound: "crypto_sound toy_crypto"
  by (auto simp: crypto_sound_def toy_crypto_def o_def min_def)

definition toy_id :: vmess_ID where
  "toy_id = \<lparr>id_UUID = replicate 16 1, id_CmdKey = replicate 16 2\<rparr>"

definition toy_dst :: DstAddr where
  "toy_dst = \<lparr>da_UDP = False, da_AddrType = 1, da_Addr = [1, 2, 3, 4], da_Port = 443\<rparr>"

definition toy_random :: vmess_random where
  "toy_random = \<lparr>vr_padding = [7, 7], vr_auth = replicate 4 5, vr_nonce = replicate 8 6\<rparr>"

definition toy_conn :: "segs \<Rightarrow> vmess_conn option \<times> wire" where
  "toy_conn c = newConn toy_crypto c \<lparr>wr_out = [], wr_room = 4\<rparr> toy_id toy_dst SecurityAES128GCM True (replicate 33 3) 1000 toy_random"

lemma toy_conn_some: "\<exists>vc w. toy_conn c = (Some vc, w) \<and> vm_respV vc = 3 \<and> vm_isAead vc"
  by (simp add: toy_conn_def newConn_def Let_def conn_Write_def)


definition toy_header :: bytes where
  "toy_header = [0, 4] @ replicate 16 9 @ [3, 0, 0, 0] @ replicate 16 9"

lemma toy_response:
  assumes "vm_respV vc = 3" "vm_isAead vc"
  shows "response_ok toy_crypto vc toy_header"
proof -
  have "be16_val [0, 4] = 4" by (simp add: be16_val_def)
  moreover have "header_fits 3 [3, 0, 0, 0]" by (simp add: header_fits_def)
  ultimately show ?thesis
    unfolding response_ok_def using assms
    by (simp add: toy_header_def toy_crypto_def)
      (intro exI [of _ "[0, 4] @ replicate 16 9"] exI [of _ "[3, 0, 0, 0] @ replicate 16 9"] conjI; simp)
qed


end
