(* ===== verification/ClashGun.thy ===== *)
theory ClashGun
  imports ClashWire
begin

text \<open>
  \<open>transport/gun/gun.go\<close> and \<open>transport/snell/snell.go\<close>: a stream in the messages of gRPC, and the
  header and the reply of Snell.  HTTP/2 and the cipher of Snell lie below and are the connection
  that is read and written.
\<close>

section \<open>Numbers of variable length\<close>

fun uvarint :: "nat \<Rightarrow> bytes" where
  "uvarint n = (if n < 128 then [of_nat n] else of_nat (n mod 128 + 128) # uvarint (n div 128))"

declare uvarint.simps [simp del]

function ReadUvarint :: "nat \<Rightarrow> nat \<Rightarrow> segs \<Rightarrow> nat option \<times> segs" where
  "ReadUvarint i x c =
     (case ReadFull 1 c of
        (d, Some e, c) \<Rightarrow> (None, c)
      | (d, None, c) \<Rightarrow>
          let b = unat (d ! 0) in
          if 10 \<le> i then (None, c)
          else if b < 128 then (if i = 9 \<and> 1 < b then (None, c) else (Some (x + b * 2 ^ (7 * i)), c))
          else ReadUvarint (Suc i) (x + (b - 128) * 2 ^ (7 * i)) c)"
  by pat_completeness auto
termination by (relation "measure (\<lambda>(i, x, c). 10 - i)") auto

declare ReadUvarint.simps [simp del]

lemma ReadFull_byte:
  assumes "concat c = [x] @ r"
  obtains c' where "ReadFull 1 c = ([x], None, c')" "concat c' = r" "seg_size c' + 1 \<le> seg_size c"
proof (rule ReadFull_append [OF assms])
  show "length [x] = 1" by simp
qed (rule that)

lemma ReadUvarint_uvarint:
  "n * 2 ^ (7 * i) < 2 ^ 64 \<Longrightarrow> i < 10 \<Longrightarrow> concat c = uvarint n @ r \<Longrightarrow>
     \<exists>c'. ReadUvarint i x c = (Some (x + n * 2 ^ (7 * i)), c') \<and> concat c' = r \<and> seg_size c' < seg_size c"
proof (induction n arbitrary: i x c rule: uvarint.induct)
  case (1 n)
  show ?case
  proof (cases "n < 128")
    case True
    with "1.prems"(3) have "concat c = [of_nat n] @ r" by (simp add: uvarint.simps)
    then obtain c1 where c1: "ReadFull 1 c = ([of_nat n], None, c1)" "concat c1 = r" "seg_size c1 + 1 \<le> seg_size c"
      by (rule ReadFull_byte)
    have u: "unat (of_nat n :: byte) = n" using True by (intro unat_byte) simp
    have "\<not> (i = 9 \<and> 1 < n)"
    proof
      assume a: "i = 9 \<and> 1 < n"
      then have "n * 2 ^ 63 < 2 ^ 64" using "1.prems"(1) by simp
      with a show False by simp
    qed
    with c1 True "1.prems"(2) show ?thesis by (intro exI [of _ c1]) (auto simp: ReadUvarint.simps [of i x c] u Let_def)
  next
    case False
    let ?b = "n mod 128 + 128"
    define b :: byte where "b = of_nat ?b"
    from False "1.prems"(3) have "concat c = [b] @ uvarint (n div 128) @ r" by (simp add: uvarint.simps [of n] b_def)
    then obtain c1 where c1: "ReadFull 1 c = ([b], None, c1)" "concat c1 = uvarint (n div 128) @ r" "seg_size c1 + 1 \<le> seg_size c"
      by (rule ReadFull_byte)
    have "?b < 256" using mod_less_divisor [of 128 n] by linarith
    then have u: "unat b = ?b" unfolding b_def by (rule unat_byte)
    have nd: "n mod 128 + n div 128 * 128 = n" by simp
    have e: "n div 128 * 2 ^ (7 * Suc i) = n div 128 * 128 * 2 ^ (7 * i)" by (simp add: power_add)
    also have "\<dots> \<le> n * 2 ^ (7 * i)" by (intro mult_le_mono1) (simp add: times_div_less_eq_dividend)
    also note "1.prems"(1)
    finally have l: "n div 128 * 2 ^ (7 * Suc i) < 2 ^ 64" .
    have "i \<noteq> 9"
    proof
      assume "i = 9"
      with "1.prems"(1) have "n * 2 ^ 63 < 2 ^ 64" by simp
      with False show False by simp
    qed
    with "1.prems"(2) have i: "Suc i < 10" by simp
    from "1.IH" [OF False l i c1(2), of "x + (?b - 128) * 2 ^ (7 * i)"] obtain c2 where
      c2: "ReadUvarint (Suc i) (x + (?b - 128) * 2 ^ (7 * i)) c1 = (Some (x + (?b - 128) * 2 ^ (7 * i) + n div 128 * 2 ^ (7 * Suc i)), c2)"
        "concat c2 = r" "seg_size c2 < seg_size c1" by blast
    have "x + (?b - 128) * 2 ^ (7 * i) + n div 128 * 2 ^ (7 * Suc i) = x + (n mod 128 + n div 128 * 128) * 2 ^ (7 * i)"
      unfolding e add_mult_distrib by (simp only: add_diff_cancel_right' add.assoc)
    then have s: "x + (?b - 128) * 2 ^ (7 * i) + n div 128 * 2 ^ (7 * Suc i) = x + n * 2 ^ (7 * i)" unfolding nd .
    have "ReadUvarint i x c = ReadUvarint (Suc i) (x + (?b - 128) * 2 ^ (7 * i)) c1"
      using "1.prems"(2) by (subst ReadUvarint.simps) (simp add: c1(1) [simplified] u Let_def)
    with c2 c1(3) show ?thesis unfolding s by auto
  qed
qed

section \<open>A connection in gRPC messages\<close>

text \<open>
  The response of the request is there, or the request failed; the pipe of the request is the
  wire.  A length is an \<open>int\<close>, so one of at least \<open>2 ^ 63\<close> is negative and the slice panics.
\<close>

record gun_conn =
  gn_err :: "io_err option"
  gn_response :: bool
  gn_br :: segs
  gn_remain :: nat
  gn_writer :: wire

definition gun_Read :: "nat \<Rightarrow> gun_conn \<Rightarrow> gun_conn read_result go" where
  "gun_Read n g =
     (case gn_err g of
        Some e \<Rightarrow> Inr ([], Some e, g)
      | None \<Rightarrow>
          if 0 < gn_remain g then
            (let size = (if n < gn_remain g then n else gn_remain g) in
             case ReadFull size (gn_br g) of (d, e, c) \<Rightarrow> Inr (d, e, g\<lparr>gn_br := c, gn_remain := gn_remain g - length d\<rparr>))
          else if \<not> gn_response g then Inr ([], Some (IoErr ''use of closed network connection''), g)
          else (case ReadFull 6 (gn_br g) of
             (d, Some e, c) \<Rightarrow> Inr ([], Some EOF, g\<lparr>gn_br := c\<rparr>)
           | (d, None, c) \<Rightarrow>
               (case ReadUvarint 0 0 c of
                  (None, c) \<Rightarrow> Inr ([], Some (IoErr ''invalid length''), g\<lparr>gn_br := c\<rparr>)
                | (Some len, c) \<Rightarrow>
                    if 2 ^ 63 \<le> len then Inl IndexOutOfRange
                    else
                      let size = (if n < len then n else len) in
                      (case ReadFull size c of
                         (d, Some e, c) \<Rightarrow> Inr (d, Some e, g\<lparr>gn_br := c\<rparr>)
                       | (d, None, c) \<Rightarrow> Inr (d, None, g\<lparr>gn_br := c, gn_remain := (if 0 < len - length d then len - length d else gn_remain g)\<rparr>)))))"

definition be32g :: "nat \<Rightarrow> bytes" where
  "be32g n = be16 (n div 65536) @ be16 n"

definition gun_message :: "bytes \<Rightarrow> bytes" where
  "gun_message b =
     (let varuint = uvarint (length b) in [0] @ be32g (length varuint + 1 + length b) @ [0x0A] @ varuint @ b)"

definition gun_Write :: "bytes \<Rightarrow> gun_conn \<Rightarrow> nat \<times> bool \<times> gun_conn" where
  "gun_Write b g = (case conn_Write (gun_message b) (gn_writer g) of (ok, w) \<Rightarrow> (length b, ok, g\<lparr>gn_writer := w\<rparr>))"

text \<open>A peer that announces a length of \<open>2 ^ 63\<close> ends the process.\<close>

lemma gun_length_panics:
  "gun_Read n \<lparr>gn_err = None, gn_response = True, gn_br = [[0, 0, 0, 0, 0, 0], [128, 128, 128, 128, 128, 128, 128, 128, 128, 1]], gn_remain = 0, gn_writer = w\<rparr> =
     Inl IndexOutOfRange"
  by (simp add: gun_Read_def ReadUvarint.simps Let_def)

text \<open>The messages of a stream, and a reader in the middle of one.\<close>

definition gun_stream :: "bytes list \<Rightarrow> bytes" where
  "gun_stream ps = concat (map gun_message ps)"

definition gun_ok :: "bytes list \<Rightarrow> bool" where
  "gun_ok ps \<longleftrightarrow> list_all (\<lambda>p. length p < 2 ^ 63) ps"

definition gun_holds :: "gun_conn \<Rightarrow> bytes \<Rightarrow> bool" where
  "gun_holds g p \<longleftrightarrow> gn_err g = None \<and> gn_response g \<and>
     (\<exists>t ps. concat (gn_br g) = t @ gun_stream ps \<and> length t = gn_remain g \<and> gun_ok ps \<and> p = t @ concat ps)"

definition gun_todo :: "gun_conn \<Rightarrow> nat" where
  "gun_todo g = seg_size (gn_br g)"

definition gun_rd :: "nat \<Rightarrow> gun_conn \<Rightarrow> gun_conn read_result" where
  "gun_rd n g = (case gun_Read n g of Inl e \<Rightarrow> ([], Some (IoErr ''panic''), g) | Inr r \<Rightarrow> r)"

lemma gun_step:
  assumes "gun_holds g p" "0 < n" "gun_rd n g = (d, e, g')"
  shows "case e of None \<Rightarrow> length d \<le> n \<and> gun_todo g' < gun_todo g \<and> (\<exists>p'. p = d @ p' \<and> gun_holds g' p')
    | Some x \<Rightarrow> x = EOF \<and> p = [] \<and> d = []"
proof -
  from assms(1) obtain t ps where g: "gn_err g = None" "gn_response g" "concat (gn_br g) = t @ gun_stream ps"
    "length t = gn_remain g" "gun_ok ps" and p: "p = t @ concat ps" by (auto simp: gun_holds_def)
  show ?thesis
  proof (cases "0 < gn_remain g")
    case True
    define l where "l = (if n < gn_remain g then n else gn_remain g)"
    have l: "l \<le> length t" "l \<le> n" "0 < l" using True assms(2) g(4) by (auto simp: l_def)
    from g(3) have "concat (gn_br g) = take l t @ drop l t @ gun_stream ps" by (metis append.assoc append_take_drop_id)
    moreover have "length (take l t) = l" using l(1) by simp
    ultimately obtain c where c: "ReadFull l (gn_br g) = (take l t, None, c)" "concat c = drop l t @ gun_stream ps"
      "seg_size c + l \<le> seg_size (gn_br g)" by (rule ReadFull_append)
    from assms(3) True g(1) have e: "e = None" "d = take l t" "g' = g\<lparr>gn_br := c, gn_remain := gn_remain g - l\<rparr>"
      using l(1) by (auto simp: gun_rd_def gun_Read_def l_def [symmetric] c(1) Let_def min_absorb2)
    have "gun_holds g' (drop l t @ concat ps)"
      unfolding gun_holds_def using c(2) g e(3) by (intro conjI exI [of _ "drop l t"] exI [of _ ps]) auto
    moreover have "p = take l t @ drop l t @ concat ps" by (simp add: p)
    ultimately show ?thesis using e c(3) l by (auto simp: gun_todo_def)
  next
    case False
    with g(4) have t: "t = []" "gn_remain g = 0" by auto
    show ?thesis
    proof (cases ps)
      case Nil
      with g t have "concat (gn_br g) = []" by (simp add: gun_stream_def)
      then have "ReadFull 6 (gn_br g) = ([], Some EOF, [])" by (rule ReadFull_empty) simp
      with assms(3) g(1,2) t Nil p show ?thesis by (auto simp: gun_rd_def gun_Read_def)
    next
      case (Cons q qs)
      from g(5) Cons have q: "length q < 2 ^ 63" "gun_ok qs" by (simp_all add: gun_ok_def)
      let ?h = "[0] @ be32g (length (uvarint (length q)) + 1 + length q) @ [0x0A]"
      have lh: "length ?h = 6" by (simp add: be32g_def)
      from g(3) t Cons have "concat (gn_br g) = ?h @ uvarint (length q) @ q @ gun_stream qs"
        by (simp add: gun_stream_def gun_message_def Let_def)
      from this lh obtain c1 where c1: "ReadFull 6 (gn_br g) = (?h, None, c1)" "concat c1 = uvarint (length q) @ q @ gun_stream qs"
        "seg_size c1 + 6 \<le> seg_size (gn_br g)" by (rule ReadFull_append)
      have "length q * 2 ^ (7 * 0) < 2 ^ 64" using q(1) by simp
      from ReadUvarint_uvarint [OF this _ c1(2), of 0] obtain c2 where
        c2: "ReadUvarint 0 0 c1 = (Some (length q), c2)" "concat c2 = q @ gun_stream qs" "seg_size c2 < seg_size c1" by auto
      define l where "l = (if n < length q then n else length q)"
      from c2(2) have "concat c2 = take l q @ drop l q @ gun_stream qs" by (metis append.assoc append_take_drop_id)
      moreover have "length (take l q) = l" by (simp add: l_def)
      ultimately obtain c3 where c3: "ReadFull l c2 = (take l q, None, c3)" "concat c3 = drop l q @ gun_stream qs"
        "seg_size c3 + l \<le> seg_size c2" by (rule ReadFull_append)
      have ll: "length (take l q) = l" "l \<le> length q" "l \<le> n" by (auto simp: l_def)
      have e: "e = None" "d = take l q" "g' = g\<lparr>gn_br := c3, gn_remain := length q - l\<rparr>"
        using assms(3) g(1,2) t(2) q(1) ll
        by (auto simp: gun_rd_def gun_Read_def c1(1) c2(1) c3(1) l_def [symmetric] Let_def not_le)
      have "gun_holds g' (drop l q @ concat qs)"
        unfolding gun_holds_def using c3(2) g(1,2) q(2) e(3)
        by (intro conjI exI [of _ "drop l q"] exI [of _ qs]) auto
      moreover have "p = take l q @ drop l q @ concat qs" by (simp add: p t Cons)
      ultimately show ?thesis using e ll c1(3) c2(3) c3(3) by (auto simp: gun_todo_def)
    qed
  qed
qed

definition gun_sent :: "gun_conn \<Rightarrow> bytes \<Rightarrow> bool" where
  "gun_sent g p \<longleftrightarrow> (\<exists>ps. emitted (gn_writer g) = gun_stream ps \<and> gun_ok ps \<and> p = concat ps)"

definition gun_answer :: "segs \<Rightarrow> gun_conn" where
  "gun_answer c = \<lparr>gn_err = None, gn_response = True, gn_br = c, gn_remain = 0, gn_writer = \<lparr>wr_out = [], wr_room = 0\<rparr>\<rparr>"

interpretation gun: stream_pair gun_rd gun_holds gun_todo 1 EOF gun_Write "\<lambda>b. length b < 2 ^ 63" "\<lambda>b. b" length gun_sent gun_sent
  "\<lambda>g c. concat c = emitted (gn_writer g)" gun_answer
proof (unfold_locales, goal_cases)
  case (1 s p n d s') with gun_step [of s p n d] show ?case by fastforce
next
  case (2 s p n d e s') with gun_step [of s p n d] show ?case by fastforce
next
  case (3 g p b n g')
  then obtain ps where "emitted (gn_writer g) = gun_stream ps" "gun_ok ps" "p = concat ps" by (auto simp: gun_sent_def)
  with 3 show ?case
    by (auto simp: gun_Write_def conn_Write_def gun_sent_def gun_stream_def gun_ok_def split: if_splits intro!: exI [of _ "ps @ [b]"])
next
  case (4 g p b n g')
  then have "gn_writer g' = gn_writer g" by (auto simp: gun_Write_def conn_Write_def split: if_splits)
  with 4(1) have "gun_sent g' (p @ take 0 b)" by (simp add: gun_sent_def)
  then show ?case by blast
next
  case (6 g p c) then show ?case by (auto simp: gun_sent_def gun_holds_def gun_answer_def)
qed

section \<open>Snell\<close>

definition CommandConnect :: byte where "CommandConnect = 1"
definition CommandConnectV2 :: byte where "CommandConnectV2 = 5"
definition CommandTunnel :: byte where "CommandTunnel = 0"
definition CommandError :: byte where "CommandError = 2"
definition snell_Version :: byte where "snell_Version = 1"
definition Version1 :: int where "Version1 = 1"
definition Version2 :: int where "Version2 = 2"

record snell_conn =
  sn_in :: segs
  sn_wire :: wire
  sn_reply :: bool

definition snell_Read :: "nat \<Rightarrow> snell_conn \<Rightarrow> snell_conn read_result" where
  "snell_Read n s =
     (let inner = (\<lambda>s. case conn_Read n (sn_in s) of (d, e, c) \<Rightarrow> (d, e, s\<lparr>sn_in := c\<rparr>)) in
      if sn_reply s then inner s
      else
        let s = s\<lparr>sn_reply := True\<rparr> in
        (case ReadFull 1 (sn_in s) of
           (d, Some e, c) \<Rightarrow> ([], Some e, s\<lparr>sn_in := c\<rparr>)
         | (d, None, c) \<Rightarrow>
             if d ! 0 = CommandTunnel then inner (s\<lparr>sn_in := c\<rparr>)
             else if d ! 0 \<noteq> CommandError then ([], Some (IoErr ''command not support''), s\<lparr>sn_in := c\<rparr>)
             else (case ReadFull 1 c of
                (d, Some e, c) \<Rightarrow> ([], Some e, s\<lparr>sn_in := c\<rparr>)
              | (code, None, c) \<Rightarrow>
                  (case ReadFull 1 c of
                     (d, Some e, c) \<Rightarrow> ([], Some e, s\<lparr>sn_in := c\<rparr>)
                   | (len, None, c) \<Rightarrow>
                       (case ReadFull (unat (len ! 0)) c of
                          (d, Some e, c) \<Rightarrow> ([], Some e, s\<lparr>sn_in := c\<rparr>)
                        | (msg, None, c) \<Rightarrow>
                            ([], Some (IoErr (''server reported code: '' @ itoa (unat (code ! 0)) @ '', message: '' @ string_of msg)),
                             s\<lparr>sn_in := c\<rparr>))))))"

definition snell_header :: "string \<Rightarrow> nat \<Rightarrow> int \<Rightarrow> bytes" where
  "snell_header host port version =
     [snell_Version, if version = Version2 then CommandConnectV2 else CommandConnect, 0, of_nat (length host)] @
     bytes_of host @ be16 port"

definition snell_WriteHeader :: "string \<Rightarrow> nat \<Rightarrow> int \<Rightarrow> snell_conn \<Rightarrow> bool \<times> snell_conn" where
  "snell_WriteHeader host port version s =
     (case conn_Write (snell_header host port version) (sn_wire s) of (ok, w) \<Rightarrow> (ok, s\<lparr>sn_wire := w\<rparr>))"

definition HalfClose :: "snell_conn \<Rightarrow> bool \<times> snell_conn" where
  "HalfClose s =
     (case conn_Write [] (sn_wire s) of
        (False, w) \<Rightarrow> (False, s\<lparr>sn_wire := w\<rparr>)
      | (True, w) \<Rightarrow> (True, s\<lparr>sn_wire := w, sn_reply := False\<rparr>))"

text \<open>A name of 256 bytes is announced as empty.\<close>

lemma snell_long_name: "length host = 256 \<Longrightarrow> snell_header host port version ! 3 = 0"
  by (simp add: snell_header_def)

definition snell_holds :: "snell_conn \<Rightarrow> bytes \<Rightarrow> bool" where
  "snell_holds s p \<longleftrightarrow> concat (sn_in s) = (if sn_reply s then p else CommandTunnel # p)"

definition snell_todo :: "snell_conn \<Rightarrow> nat" where
  "snell_todo s = seg_size (sn_in s) + (if sn_reply s then 0 else 1)"

lemma snell_step:
  assumes "snell_holds s p" "0 < n" "snell_Read n s = (d, e, s')"
  shows "case e of None \<Rightarrow> length d \<le> n \<and> snell_todo s' < snell_todo s \<and> (\<exists>p'. p = d @ p' \<and> snell_holds s' p')
    | Some x \<Rightarrow> x = EOF \<and> p = [] \<and> d = []"
proof -
  have inner: "case e of None \<Rightarrow> length d \<le> n \<and> snell_todo s' < snell_todo u \<and> (\<exists>p'. p = d @ p' \<and> snell_holds s' p')
      | Some x \<Rightarrow> x = EOF \<and> p = [] \<and> d = []"
    if u: "sn_reply u" "concat (sn_in u) = p" "(case conn_Read n (sn_in u) of (d, e, c) \<Rightarrow> (d, e, u\<lparr>sn_in := c\<rparr>)) = (d, e, s')" for u
  proof (cases "sn_in u = []")
    case True
    with u assms(2) show ?thesis by (auto simp: conn_Read_none)
  next
    case False
    from conn_Read_some [OF assms(2) False] obtain x c where "conn_Read n (sn_in u) = (x, None, c)" "length x \<le> n"
      "concat (sn_in u) = x @ concat c" "seg_size c < seg_size (sn_in u)" by blast
    with u show ?thesis by (auto simp: snell_todo_def snell_holds_def)
  qed
  show ?thesis
  proof (cases "sn_reply s")
    case True
    with assms inner [of s] show ?thesis by (auto simp: snell_Read_def snell_holds_def)
  next
    case False
    with assms(1) have "concat (sn_in s) = [CommandTunnel] @ p" by (simp add: snell_holds_def)
    then obtain c where c: "ReadFull 1 (sn_in s) = ([CommandTunnel], None, c)" "concat c = p" "seg_size c + 1 \<le> seg_size (sn_in s)"
      by (rule ReadFull_byte)
    let ?u = "s\<lparr>sn_reply := True, sn_in := c\<rparr>"
    from assms(3) False have "(case conn_Read n (sn_in ?u) of (d, e, c) \<Rightarrow> (d, e, ?u\<lparr>sn_in := c\<rparr>)) = (d, e, s')"
      by (simp add: snell_Read_def c(1) [simplified] Let_def)
    from inner [OF _ _ this] c(2,3) False show ?thesis by (cases e) (auto simp: snell_todo_def)
  qed
qed

interpretation snell: stream_reader snell_Read snell_holds snell_todo 1 EOF
proof (unfold_locales, goal_cases)
  case (1 s p n d s') with snell_step [of s p n d] show ?case by fastforce
next
  case (2 s p n d e s') with snell_step [of s p n d] show ?case by fastforce
qed

end
