(* ===== verification/ClashOutbound.thy ===== *)
theory ClashOutbound
  imports ClashHttp ClashObfs ClashMux ClashTrojan ClashVmess ClashGun
begin

text \<open>
  \<open>adapter/outbound\<close>: how every protocol dials its server and what it puts between the connection
  and the tunnel.  A connection is known by its number; the network below it, the TLS handshake,
  the websocket, HTTP/2 and the ciphers are layers that are opened on it and written through, both
  parameters.
\<close>

section \<open>Common parts\<close>

datatype dial_option = WithInterface string | WithRoutingMark int

record Basic_opt =
  bo_Interface :: string
  bo_RoutingMark :: int

record Base =
  ob_name :: string
  ob_addr :: string
  ob_iface :: string
  ob_tp :: AdapterType
  ob_udp :: bool
  ob_rmark :: int

record BaseOption =
  bs_Name :: string
  bs_Addr :: string
  bs_Type :: AdapterType
  bs_UDP :: bool
  bs_Interface :: string
  bs_RoutingMark :: int

definition NewBase :: "BaseOption \<Rightarrow> Base" where
  "NewBase opt = \<lparr>ob_name = bs_Name opt, ob_addr = bs_Addr opt, ob_iface = bs_Interface opt, ob_tp = bs_Type opt,
     ob_udp = bs_UDP opt, ob_rmark = bs_RoutingMark opt\<rparr>"

definition DialOptions :: "Base \<Rightarrow> dial_option list \<Rightarrow> dial_option list" where
  "DialOptions b opts =
     (let opts = (if ob_iface b \<noteq> [] then opts @ [WithInterface (ob_iface b)] else opts)
      in if ob_rmark b \<noteq> 0 then opts @ [WithRoutingMark (ob_rmark b)] else opts)"

text \<open>The address of SOCKS for a target; of a name longer than 255 bytes the length wraps.\<close>

definition serializesSocksAddr :: "Metadata \<Rightarrow> bytes" where
  "serializesSocksAddr m =
     (let aType = (of_int (md_AddrType m) :: byte); p = port_or (md_DstPort m); port = [of_nat (p div 256), of_nat (p mod 256)] in
      if md_AddrType m = 3 then [aType, of_nat (length (md_Host m))] @ bytes_of (md_Host m) @ port
      else if md_AddrType m = 1 then [aType] @ ip_bytes to4 (md_DstIP m) @ port
      else if md_AddrType m = 4 then [aType] @ ip_bytes to16 (md_DstIP m) @ port
      else [])"

section \<open>Connections and layers\<close>

record tls_config =
  tc_ServerName :: string
  tc_Skip :: bool
  tc_NextProtos :: "string list"

record ws_config =
  wc_Host :: string
  wc_Port :: string
  wc_Path :: string
  wc_Headers :: header
  wc_TLS :: "tls_config option"
  wc_MaxEarlyData :: int
  wc_EarlyDataHeaderName :: string

record gun_config =
  gc_ServiceName :: string
  gc_Host :: string

datatype layer =
    TLSLayer tls_config
  | WebsocketLayer ws_config
  | HTTPLayer string string "string list" "string \<rightharpoonup> string list"
  | H2Layer "string list" string
  | GunLayer tls_config gun_config
  | TLSObfsLayer string
  | HTTPObfsLayer string string
  | MuxLayer
  | CipherLayer string
  | SnellLayer bytes int
  | VmessLayer DstAddr

datatype out_err = OutMsg string | OutSocks socks_err

record peer =
  pe_in :: segs
  pe_wire :: wire

record net =
  nt_peer :: "nat \<Rightarrow> peer"
  nt_open :: "nat list"
  nt_next :: nat

record dial_env =
  de_Dial :: "string \<Rightarrow> dial_option list \<Rightarrow> string + peer"
  de_Open :: "layer list \<Rightarrow> layer \<Rightarrow> peer \<Rightarrow> string option \<times> peer"
  de_Write :: "layer list \<Rightarrow> bytes \<Rightarrow> peer \<Rightarrow> string option \<times> peer"
  de_Listen :: "dial_option list \<Rightarrow> string option"
  de_ResolveIP :: "string \<Rightarrow> string + bytes"

definition net_dial :: "dial_env \<Rightarrow> string \<Rightarrow> dial_option list \<Rightarrow> net \<Rightarrow> (string + nat) \<times> net" where
  "net_dial E addr opts N =
     (case de_Dial E addr opts of
        Inl e \<Rightarrow> (Inl e, N)
      | Inr p \<Rightarrow> (Inr (nt_next N), N\<lparr>nt_peer := (nt_peer N)(nt_next N := p), nt_open := nt_next N # nt_open N, nt_next := Suc (nt_next N)\<rparr>))"

definition net_close :: "nat \<Rightarrow> net \<Rightarrow> net" where
  "net_close i N = N\<lparr>nt_open := filter (\<lambda>j. j \<noteq> i) (nt_open N)\<rparr>"

definition on_peer :: "nat \<Rightarrow> (peer \<Rightarrow> 'a \<times> peer) \<Rightarrow> net \<Rightarrow> 'a \<times> net" where
  "on_peer i f N = (case f (nt_peer N i) of (a, p) \<Rightarrow> (a, N\<lparr>nt_peer := (nt_peer N)(i := p)\<rparr>))"

text \<open>An exchange that reads with \<open>io.ReadFull\<close> only sees the bytes, not the cuts.\<close>

definition exchange :: "'a sock_io \<Rightarrow> peer \<Rightarrow> (socks_err + 'a) \<times> peer" where
  "exchange m p =
     (case m \<lparr>sk_in = concat (pe_in p), sk_out = [], sk_room = wr_room (pe_wire p)\<rparr> of
        (r, s) \<Rightarrow> (r, \<lparr>pe_in = snd (snd (ReadFull (length (concat (pe_in p)) - length (sk_in s)) (pe_in p))),
          pe_wire = (pe_wire p)\<lparr>wr_out := wr_out (pe_wire p) @ [sk_out s], wr_room := sk_room s\<rparr>\<rparr>))"

definition safeConnClose :: "nat \<Rightarrow> out_err option \<Rightarrow> net \<Rightarrow> net" where
  "safeConnClose i err N = (if err \<noteq> None then net_close i N else N)"

text \<open>A connection of the tunnel: its number, its layers from below, and its chain.\<close>

record out_conn =
  oc_id :: nat
  oc_layers :: "layer list"
  oc_chain :: "string list"

definition NewConn :: "nat \<Rightarrow> layer list \<Rightarrow> Base \<Rightarrow> out_conn" where
  "NewConn i ls a = \<lparr>oc_id = i, oc_layers = ls, oc_chain = [ob_name a]\<rparr>"

definition AppendToChains :: "out_conn \<Rightarrow> string \<Rightarrow> out_conn" where
  "AppendToChains c name = c\<lparr>oc_chain := oc_chain c @ [name]\<rparr>"

text \<open>
  What the adapters share: dial the server, and run \<open>StreamConn\<close> on the connection.  The deferred
  \<open>safeConnClose(c, err)\<close> has its arguments from the moment of the \<open>defer\<close>, where \<open>err\<close> is nil.
\<close>

type_synonym stream_conn = "nat \<Rightarrow> net \<Rightarrow> (out_err + layer list) \<times> net"

definition dial_stream :: "dial_env \<Rightarrow> Base \<Rightarrow> dial_option list \<Rightarrow> stream_conn \<Rightarrow> net \<Rightarrow> (out_err + out_conn) \<times> net" where
  "dial_stream E b opts stream N =
     (case net_dial E (ob_addr b) (DialOptions b opts) N of
        (Inl e, N) \<Rightarrow> (Inl (OutMsg (ob_addr b @ '' connect error: '' @ e)), N)
      | (Inr i, N) \<Rightarrow>
          let deferred = safeConnClose i None in
          (case stream i N of
             (Inl e, N) \<Rightarrow> (Inl e, deferred N)
           | (Inr ls, N) \<Rightarrow> (Inr (NewConn i ls b), deferred N)))"

definition open_layer :: "dial_env \<Rightarrow> nat \<Rightarrow> layer list \<Rightarrow> layer \<Rightarrow> net \<Rightarrow> string option \<times> net" where
  "open_layer E i ls l = on_peer i (de_Open E ls l)"

definition write_layers :: "dial_env \<Rightarrow> nat \<Rightarrow> layer list \<Rightarrow> bytes \<Rightarrow> net \<Rightarrow> string option \<times> net" where
  "write_layers E i ls b = on_peer i (de_Write E ls b)"

section \<open>SOCKS5\<close>

record Socks5_opt =
  so_Basic :: Basic_opt
  so_Name :: string
  so_Server :: string
  so_Port :: nat
  so_UserName :: string
  so_Password :: string
  so_TLS :: bool
  so_UDP :: bool
  so_SkipCertVerify :: bool

record Socks5 =
  s5_base :: Base
  s5_user :: string
  s5_pass :: string
  s5_tls :: "tls_config option"

definition NewSocks5 :: "Socks5_opt \<Rightarrow> Socks5" where
  "NewSocks5 option =
     \<lparr>s5_base = \<lparr>ob_name = so_Name option, ob_addr = join_host_port (so_Server option) (itoa (so_Port option)),
        ob_iface = bo_Interface (so_Basic option), ob_tp = AT_Socks5, ob_udp = so_UDP option, ob_rmark = 0\<rparr>,
      s5_user = so_UserName option, s5_pass = so_Password option,
      s5_tls = (if so_TLS option then
         Some \<lparr>tc_ServerName = so_Server option, tc_Skip = so_SkipCertVerify option, tc_NextProtos = []\<rparr> else None)\<rparr>"

definition s5_credentials :: "Socks5 \<Rightarrow> socks_user option" where
  "s5_credentials ss = (if s5_user ss \<noteq> [] then Some \<lparr>us_Username = s5_user ss, us_Password = s5_pass ss\<rparr> else None)"

definition Socks5_StreamConn :: "dial_env \<Rightarrow> Socks5 \<Rightarrow> Metadata \<Rightarrow> stream_conn" where
  "Socks5_StreamConn E ss m i N =
     (let ls = (case s5_tls ss of None \<Rightarrow> [] | Some cfg \<Rightarrow> [TLSLayer cfg]) in
      case (case s5_tls ss of None \<Rightarrow> (None, N) | Some cfg \<Rightarrow> open_layer E i [] (TLSLayer cfg) N) of
        (Some e, N) \<Rightarrow> (Inl (OutMsg (ob_addr (s5_base ss) @ '' connect error: '' @ e)), N)
      | (None, N) \<Rightarrow>
          (case on_peer i (exchange (ClientHandshake (serializesSocksAddr m) 1 (s5_credentials ss))) N of
             (Inl e, N) \<Rightarrow> (Inl (OutSocks e), N)
           | (Inr a, N) \<Rightarrow> (Inr ls, N)))"

definition Socks5_DialContext :: "dial_env \<Rightarrow> Socks5 \<Rightarrow> Metadata \<Rightarrow> dial_option list \<Rightarrow> net \<Rightarrow> (out_err + out_conn) \<times> net" where
  "Socks5_DialContext E ss m opts = dial_stream E (s5_base ss) opts (Socks5_StreamConn E ss m)"

text \<open>
  UDP: the connection of the association stays open beside the packet socket.  The address the
  server binds is where the packets go; an unspecified one is replaced by the server's.
\<close>

definition resolveUDPAddr :: "dial_env \<Rightarrow> string \<Rightarrow> string + bytes \<times> nat" where
  "resolveUDPAddr E address =
     (case split_host_port address of
        Inl e \<Rightarrow> Inl ''split''
      | Inr (host, port) \<Rightarrow>
          (case de_ResolveIP E host of
             Inl e \<Rightarrow> Inl e
           | Inr ip \<Rightarrow> (case parse_uint 16 port of Inl e \<Rightarrow> Inl ''invalid port'' | Inr p \<Rightarrow> Inr (ip, p))))"

definition IsUnspecified :: "bytes \<Rightarrow> bool" where
  "IsUnspecified ip \<longleftrightarrow> to4 ip = Some [0, 0, 0, 0] \<or> ip = replicate 16 0"

definition Socks5_ListenPacket ::
  "dial_env \<Rightarrow> Socks5 \<Rightarrow> Metadata \<Rightarrow> dial_option list \<Rightarrow> net \<Rightarrow> (out_err + nat \<times> bytes \<times> nat) go \<times> net" where
  "Socks5_ListenPacket E ss m opts N =
     (case net_dial E (ob_addr (s5_base ss)) (DialOptions (s5_base ss) opts) N of
        (Inl e, N) \<Rightarrow> (Inr (Inl (OutMsg (ob_addr (s5_base ss) @ '' connect error: '' @ e))), N)
      | (Inr i, N) \<Rightarrow>
          (case (case s5_tls ss of None \<Rightarrow> (None, N) | Some cfg \<Rightarrow> open_layer E i [] (TLSLayer cfg) N) of
             \<comment> \<open>the failed TLS connection fails the handshake too, and is closed\<close>
             (Some e, N) \<Rightarrow> (Inr (Inl (OutMsg (''client hanshake error: '' @ e))), net_close i N)
           | (None, N) \<Rightarrow>
               (case on_peer i (exchange (ClientHandshake (serializesSocksAddr m) 3 (s5_credentials ss))) N of
                  (Inl e, N) \<Rightarrow> (Inr (Inl (OutSocks e)), N)
                | (Inr bindAddr, N) \<Rightarrow>
                    (case de_Listen E (DialOptions (s5_base ss) opts) of
                       Some e \<Rightarrow> (Inr (Inl (OutMsg e)), N)
                     | None \<Rightarrow>
                         (go_bind (Addr_UDPAddr bindAddr) (\<lambda>u.
                            case u of
                              None \<Rightarrow> Inr (Inl (OutMsg ''invalid UDP bind address''))
                            | Some (ip, port) \<Rightarrow>
                                if IsUnspecified ip then
                                  (case resolveUDPAddr E (ob_addr (s5_base ss)) of
                                     Inl e \<Rightarrow> Inr (Inl (OutMsg e))
                                   | Inr (server, p) \<Rightarrow> Inr (Inr (i, server, port)))
                                else Inr (Inr (i, ip, port))), N)))))"

text \<open>
  The packet connection of a SOCKS5 server: what is written gets the header of SOCKS, what is read
  is decoded from the whole buffer, of which the packet fills the first \<open>n\<close> bytes.  The length that
  is returned is an \<open>int\<close>.
\<close>

definition socks_WriteTo :: "net_addr \<Rightarrow> bytes \<Rightarrow> string + bytes" where
  "socks_WriteTo addr b = EncodeUDPPacket (ParseAddrToSocksAddr addr) b"

definition socks_ReadFrom :: "bytes \<Rightarrow> nat \<Rightarrow> (string + int \<times> (bytes \<times> nat) \<times> bytes) go" where
  "socks_ReadFrom b n =
     (case DecodeUDPPacket b of
        (Some e, addr, payload) \<Rightarrow> Inr (Inl e)
      | (None, None, payload) \<Rightarrow> Inr (Inl ''parse udp addr error'')
      | (None, Some addr, payload) \<Rightarrow>
          go_bind (Addr_UDPAddr addr) (\<lambda>u.
            case u of
              None \<Rightarrow> Inr (Inl ''parse udp addr error'')
            | Some udpAddr \<Rightarrow> Inr (Inr (int n - int (length addr) - 3, udpAddr, payload @ drop (length payload) b))))"

text \<open>The same for Shadowsocks, whose packets have no fragment number, decoded from what was read.\<close>

definition ss_WriteTo :: "net_addr \<Rightarrow> bytes \<Rightarrow> string + bytes" where
  "ss_WriteTo addr b =
     (case EncodeUDPPacket (ParseAddrToSocksAddr addr) b of Inl e \<Rightarrow> Inl e | Inr packet \<Rightarrow> Inr (drop 3 packet))"

definition ss_ReadFrom :: "bytes \<Rightarrow> nat \<Rightarrow> (string + int \<times> (bytes \<times> nat) \<times> bytes) go" where
  "ss_ReadFrom b n =
     (case SplitAddr (take n b) of
        None \<Rightarrow> Inr (Inl ''parse addr error'')
      | Some addr \<Rightarrow>
          go_bind (Addr_UDPAddr addr) (\<lambda>u.
            case u of
              None \<Rightarrow> Inr (Inl ''parse addr error'')
            | Some udpAddr \<Rightarrow> Inr (Inr (int n - int (length addr), udpAddr,
                drop (length addr) b @ drop (length b - length addr) b))))"

section \<open>HTTP\<close>

record Http_opt =
  hp_Basic :: Basic_opt
  hp_Name :: string
  hp_Server :: string
  hp_Port :: nat
  hp_UserName :: string
  hp_Password :: string
  hp_TLS :: bool
  hp_SNI :: string
  hp_SkipCertVerify :: bool

record Http =
  ht_base :: Base
  ht_user :: string
  ht_pass :: string
  ht_tls :: "tls_config option"

definition NewHttp :: "Http_opt \<Rightarrow> Http" where
  "NewHttp option =
     \<lparr>ht_base = \<lparr>ob_name = hp_Name option, ob_addr = join_host_port (hp_Server option) (itoa (hp_Port option)),
        ob_iface = bo_Interface (hp_Basic option), ob_tp = AT_Http, ob_udp = False, ob_rmark = 0\<rparr>,
      ht_user = hp_UserName option, ht_pass = hp_Password option,
      ht_tls = (if hp_TLS option then
         Some \<lparr>tc_ServerName = (if hp_SNI option \<noteq> [] then hp_SNI option else hp_Server option),
           tc_Skip = hp_SkipCertVerify option, tc_NextProtos = []\<rparr> else None)\<rparr>"

text \<open>
  \<open>base64.StdEncoding\<close>; the request and the head of the response in the form of \<open>net/http\<close>.  The
  response is read through a buffer that is dropped with what else it holds: the whole segments
  up to the end of the head.
\<close>

definition b64_char :: "nat \<Rightarrow> char" where
  "b64_char n =
     (if n < 26 then char_of (n + 65) else if n < 52 then char_of (n + 71) else if n < 62 then char_of (n - 4)
      else if n = 62 then CHR ''+'' else CHR ''/'')"

fun b64_encode :: "nat list \<Rightarrow> string" where
  "b64_encode [] = []"
| "b64_encode [a] = [b64_char (a div 4), b64_char (a mod 4 * 16), CHR ''='', CHR ''='']"
| "b64_encode [a, b] = [b64_char (a div 4), b64_char (a mod 4 * 16 + b div 16), b64_char (b mod 16 * 4), CHR ''='']"
| "b64_encode (a # b # c # s) =
     [b64_char (a div 4), b64_char (a mod 4 * 16 + b div 16), b64_char (b mod 16 * 4 + c div 64), b64_char (c mod 64)] @ b64_encode s"

definition EncodeToString :: "string \<Rightarrow> string" where
  "EncodeToString s = b64_encode (map of_char s)"

record http_codec =
  hc_Request :: "string \<Rightarrow> header \<Rightarrow> bytes"
  hc_Response :: "bytes \<Rightarrow> string + nat \<times> string"

fun read_head :: "segs \<Rightarrow> bytes \<Rightarrow> bytes option \<times> segs" where
  "read_head c seen =
     (case index_of crlf2 seen of
        Some idx \<Rightarrow> (Some (take (idx + 4) seen), c)
      | None \<Rightarrow> (case c of [] \<Rightarrow> (None, []) | s # ss \<Rightarrow> read_head ss (seen @ s)))"

declare read_head.simps [simp del]

definition http_credentials :: "Http \<Rightarrow> header" where
  "http_credentials h =
     (let header = [''Proxy-Connection'' \<mapsto> [''Keep-Alive'']] in
      if ht_user h \<noteq> [] \<and> ht_pass h \<noteq> [] then
        header(''Proxy-Authorization'' \<mapsto> [''Basic '' @ EncodeToString (ht_user h @ '':'' @ ht_pass h)])
      else header)"

definition shakeHand :: "http_codec \<Rightarrow> Http \<Rightarrow> Metadata \<Rightarrow> peer \<Rightarrow> out_err option \<times> peer" where
  "shakeHand C h m p =
     (case conn_Write (hc_Request C (RemoteAddress m) (http_credentials h)) (pe_wire p) of
        (False, w) \<Rightarrow> (Some (OutMsg ''write''), p\<lparr>pe_wire := w\<rparr>)
      | (True, w) \<Rightarrow>
          (case read_head (pe_in p) [] of
             (None, c) \<Rightarrow> (Some (OutMsg ''unexpected EOF''), \<lparr>pe_in = c, pe_wire = w\<rparr>)
           | (Some head, c) \<Rightarrow>
               (case hc_Response C head of
                  Inl e \<Rightarrow> (Some (OutMsg e), \<lparr>pe_in = c, pe_wire = w\<rparr>)
                | Inr (code, status) \<Rightarrow>
                    (if code = StatusOK then None
                     else if code = StatusProxyAuthRequired then Some (OutMsg ''HTTP need auth'')
                     else if code = 405 then Some (OutMsg ''CONNECT method not allowed by proxy'')
                     else if 500 \<le> code then Some (OutMsg status)
                     else Some (OutMsg (''can not connect remote err code: '' @ itoa code)),
                     \<lparr>pe_in = c, pe_wire = w\<rparr>))))"

definition Http_StreamConn :: "dial_env \<Rightarrow> http_codec \<Rightarrow> Http \<Rightarrow> Metadata \<Rightarrow> stream_conn" where
  "Http_StreamConn E C h m i N =
     (let ls = (case ht_tls h of None \<Rightarrow> [] | Some cfg \<Rightarrow> [TLSLayer cfg]) in
      case (case ht_tls h of None \<Rightarrow> (None, N) | Some cfg \<Rightarrow> open_layer E i [] (TLSLayer cfg) N) of
        (Some e, N) \<Rightarrow> (Inl (OutMsg (ob_addr (ht_base h) @ '' connect error: '' @ e)), N)
      | (None, N) \<Rightarrow>
          (case on_peer i (shakeHand C h m) N of
             (Some e, N) \<Rightarrow> (Inl e, N)
           | (None, N) \<Rightarrow> (Inr ls, N)))"

definition Http_DialContext ::
  "dial_env \<Rightarrow> http_codec \<Rightarrow> Http \<Rightarrow> Metadata \<Rightarrow> dial_option list \<Rightarrow> net \<Rightarrow> (out_err + out_conn) \<times> net" where
  "Http_DialContext E C h m opts = dial_stream E (ht_base h) opts (Http_StreamConn E C h m)"

section \<open>Direct and reject\<close>

definition NewDirect :: Base where
  "NewDirect = \<lparr>ob_name = ''DIRECT'', ob_addr = [], ob_iface = [], ob_tp = AT_Direct, ob_udp = True, ob_rmark = 0\<rparr>"

definition Direct_DialContext :: "dial_env \<Rightarrow> Base \<Rightarrow> Metadata \<Rightarrow> dial_option list \<Rightarrow> net \<Rightarrow> (out_err + out_conn) \<times> net" where
  "Direct_DialContext E d m opts N =
     (case net_dial E (RemoteAddress m) (DialOptions d opts) N of
        (Inl e, N) \<Rightarrow> (Inl (OutMsg e), N)
      | (Inr i, N) \<Rightarrow> (Inr (NewConn i [] d), N))"

definition Direct_ListenPacket :: "dial_env \<Rightarrow> Base \<Rightarrow> dial_option list \<Rightarrow> string + unit" where
  "Direct_ListenPacket E d opts = (case de_Listen E (DialOptions d opts) of Some e \<Rightarrow> Inl e | None \<Rightarrow> Inr ())"

definition NewReject :: Base where
  "NewReject = \<lparr>ob_name = ''REJECT'', ob_addr = [], ob_iface = [], ob_tp = AT_Reject, ob_udp = True, ob_rmark = 0\<rparr>"

text \<open>The connection of a reject is at its end.\<close>

definition nop_Read :: "nat \<Rightarrow> bytes \<times> io_err option" where
  "nop_Read n = ([], Some EOF)"

definition nop_Write :: "bytes \<Rightarrow> nat \<times> io_err option" where
  "nop_Write b = (0, Some EOF)"

section \<open>Trojan\<close>

definition hd_Add :: "string \<Rightarrow> string \<Rightarrow> header \<Rightarrow> header" where
  "hd_Add k v h = h(canonical k \<mapsto> (case h (canonical k) of None \<Rightarrow> [] | Some vs \<Rightarrow> vs) @ [v])"

text \<open>The headers of an option, in the order the map is gone through.\<close>

definition added_headers :: "(string \<times> string) list \<Rightarrow> header" where
  "added_headers hs = fold (\<lambda>(k, v). hd_Add k v) hs Map.empty"

text \<open>Host and port of an address that splits, and empty texts of one that does not.\<close>

definition split_addr :: "string \<Rightarrow> string \<times> string" where
  "split_addr addr = (case split_host_port addr of Inl e \<Rightarrow> ([], []) | Inr hp \<Rightarrow> hp)"

record WS_opt =
  wo_Path :: string
  wo_Headers :: "(string \<times> string) list"
  wo_MaxEarlyData :: int
  wo_EarlyDataHeaderName :: string

record Trojan_opt =
  to_Basic :: Basic_opt
  to_Name :: string
  to_Server :: string
  to_Port :: nat
  to_Password :: string
  to_ALPN :: "string list"
  to_SNI :: string
  to_SkipCertVerify :: bool
  to_UDP :: bool
  to_Network :: string
  to_GrpcServiceName :: string
  to_WSOpts :: WS_opt

record Trojan =
  tr_base :: Base
  tr_instance :: trojan_option
  tr_hexPassword :: bytes
  tr_option :: Trojan_opt
  tr_gun :: "(tls_config \<times> gun_config) option"

definition NewTrojan :: "(bytes \<Rightarrow> bytes) \<Rightarrow> Trojan_opt \<Rightarrow> Trojan" where
  "NewTrojan sha224 option =
     (let tOption = \<lparr>tjo_Password = to_Password option, tjo_ALPN = to_ALPN option,
            tjo_ServerName = (if to_SNI option \<noteq> [] then to_SNI option else to_Server option),
            tjo_SkipCertVerify = to_SkipCertVerify option\<rparr>
      in \<lparr>tr_base = \<lparr>ob_name = to_Name option, ob_addr = join_host_port (to_Server option) (itoa (to_Port option)),
            ob_iface = bo_Interface (to_Basic option), ob_tp = AT_Trojan, ob_udp = to_UDP option, ob_rmark = 0\<rparr>,
          tr_instance = tOption, tr_hexPassword = hexSha224 sha224 (to_Password option), tr_option = option,
          tr_gun = (if to_Network option = ''grpc'' then
             Some (\<lparr>tc_ServerName = tjo_ServerName tOption, tc_Skip = tjo_SkipCertVerify tOption, tc_NextProtos = to_ALPN option\<rparr>,
               \<lparr>gc_ServiceName = to_GrpcServiceName option, gc_Host = tjo_ServerName tOption\<rparr>) else None)\<rparr>)"

definition trojan_tls :: "string list \<Rightarrow> trojan_option \<Rightarrow> tls_config" where
  "trojan_tls alpn option =
     \<lparr>tc_ServerName = tjo_ServerName option, tc_Skip = tjo_SkipCertVerify option, tc_NextProtos = trojan_alpn alpn option\<rparr>"

definition trojan_layer :: "Trojan \<Rightarrow> layer" where
  "trojan_layer t =
     (if to_Network (tr_option t) = ''ws'' then
        (let (host, port) = split_addr (ob_addr (tr_base t)); opts = to_WSOpts (tr_option t) in
         WebsocketLayer \<lparr>wc_Host = (if to_SNI (tr_option t) \<noteq> [] then to_SNI (tr_option t) else host), wc_Port = port,
           wc_Path = wo_Path opts, wc_Headers = added_headers (wo_Headers opts),
           wc_TLS = Some (trojan_tls defaultWebsocketALPN (tr_instance t)), wc_MaxEarlyData = 0, wc_EarlyDataHeaderName = []\<rparr>)
      else TLSLayer (trojan_tls defaultALPN (tr_instance t)))"

definition trojan_header :: "Trojan \<Rightarrow> byte \<Rightarrow> Metadata \<Rightarrow> bytes" where
  "trojan_header t command m = tr_hexPassword t @ crlf @ [command] @ serializesSocksAddr m @ crlf"

definition trojan_over :: "dial_env \<Rightarrow> Trojan \<Rightarrow> byte \<Rightarrow> layer \<Rightarrow> Metadata \<Rightarrow> stream_conn" where
  "trojan_over E t command l m i N =
     (case open_layer E i [] l N of
        (Some e, N) \<Rightarrow> (Inl (OutMsg (ob_addr (tr_base t) @ '' connect error: '' @ e)), N)
      | (None, N) \<Rightarrow>
          (case write_layers E i [l] (trojan_header t command m) N of
             (Some e, N) \<Rightarrow> (Inl (OutMsg e), N)
           | (None, N) \<Rightarrow> (Inr [l], N)))"

definition trojan_stream_layer :: "Trojan \<Rightarrow> layer" where
  "trojan_stream_layer t = (case tr_gun t of Some (cfg, gcfg) \<Rightarrow> GunLayer cfg gcfg | None \<Rightarrow> trojan_layer t)"

definition Trojan_StreamConn :: "dial_env \<Rightarrow> Trojan \<Rightarrow> Metadata \<Rightarrow> stream_conn" where
  "Trojan_StreamConn E t m = trojan_over E t CommandTCP (trojan_stream_layer t) m"

text \<open>
  Without options of the caller the transport of gRPC dials by itself, with the adapter's options
  (at its first use: the connections it keeps belong to the library of HTTP/2).
\<close>

definition Trojan_DialContext :: "dial_env \<Rightarrow> Trojan \<Rightarrow> Metadata \<Rightarrow> dial_option list \<Rightarrow> net \<Rightarrow> (out_err + out_conn) \<times> net" where
  "Trojan_DialContext E t m opts N =
     (case tr_gun t of
        Some (cfg, gcfg) \<Rightarrow>
          if opts = [] then
            (case net_dial E (ob_addr (tr_base t)) (DialOptions (tr_base t) []) N of
               (Inl e, N) \<Rightarrow> (Inl (OutMsg (ob_addr (tr_base t) @ '' connect error: '' @ e)), N)
             | (Inr i, N) \<Rightarrow>
                 (case trojan_over E t CommandTCP (GunLayer cfg gcfg) m i N of
                    (Inl e, N) \<Rightarrow> (Inl e, net_close i N)
                  | (Inr ls, N) \<Rightarrow> (Inr (NewConn i ls (tr_base t)), N)))
          else dial_stream E (tr_base t) opts (Trojan_StreamConn E t m) N
      | None \<Rightarrow> dial_stream E (tr_base t) opts (Trojan_StreamConn E t m) N)"

text \<open>UDP: the layer is the plain one also for gRPC when the caller has options.\<close>

definition Trojan_ListenPacket :: "dial_env \<Rightarrow> Trojan \<Rightarrow> Metadata \<Rightarrow> dial_option list \<Rightarrow> net \<Rightarrow> (out_err + out_conn) \<times> net" where
  "Trojan_ListenPacket E t m opts N =
     (case tr_gun t of
        Some (cfg, gcfg) \<Rightarrow>
          if opts = [] then dial_stream E (tr_base t) [] (trojan_over E t CommandUDP (GunLayer cfg gcfg) m) N
          else dial_stream E (tr_base t) opts (trojan_over E t CommandUDP (trojan_layer t) m) N
      | None \<Rightarrow> dial_stream E (tr_base t) opts (trojan_over E t CommandUDP (trojan_layer t) m) N)"

section \<open>VMess\<close>

record Vmess_opt =
  vo_Basic :: Basic_opt
  vo_Name :: string
  vo_Server :: string
  vo_Port :: nat
  vo_UUID :: string
  vo_AlterID :: nat
  vo_Cipher :: string
  vo_UDP :: bool
  vo_Network :: string
  vo_TLS :: bool
  vo_SkipCertVerify :: bool
  vo_ServerName :: string
  vo_HTTPMethod :: string
  vo_HTTPPath :: "string list"
  vo_HTTPHeaders :: "string \<rightharpoonup> string list"
  vo_H2Host :: "string list"
  vo_H2Path :: string
  vo_GrpcServiceName :: string
  vo_WSOpts :: WS_opt
  vo_WSHeaders :: "(string \<times> string) list"
  vo_WSPath :: string

record Vmess =
  vs_base :: Base
  vs_client :: vmess_Client
  vs_option :: Vmess_opt
  vs_gun :: "(tls_config \<times> gun_config) option"

definition vmess_addr :: "Vmess_opt \<Rightarrow> string" where
  "vmess_addr option = join_host_port (vo_Server option) (itoa (vo_Port option))"

definition vmess_gun :: "Vmess_opt \<Rightarrow> tls_config \<times> gun_config" where
  "vmess_gun option =
     (let name = (if vo_ServerName option = [] then fst (split_addr (vmess_addr option)) else vo_ServerName option) in
      (\<lparr>tc_ServerName = name, tc_Skip = vo_SkipCertVerify option, tc_NextProtos = []\<rparr>,
       \<lparr>gc_ServiceName = vo_GrpcServiceName option, gc_Host = name\<rparr>))"

definition NewVmess :: "crypto \<Rightarrow> (string \<Rightarrow> string + bytes) \<Rightarrow> string \<Rightarrow> Vmess_opt \<Rightarrow> (string + Vmess) option" where
  "NewVmess y parse_uuid goarch option =
     (case vmess_NewClient y parse_uuid goarch \<lparr>vg_UUID = vo_UUID option, vg_AlterID = vo_AlterID option mod 65536,
         vg_Security = to_lower (vo_Cipher option), vg_IsAead = (vo_AlterID option = 0)\<rparr> of
        None \<Rightarrow> None
      | Some (Inl e) \<Rightarrow> Some (Inl e)
      | Some (Inr client) \<Rightarrow>
          Some (if vo_Network option \<in> {''h2'', ''grpc''} \<and> \<not> vo_TLS option then Inl ''TLS must be true with h2/grpc network''
          else Inr \<lparr>vs_base = \<lparr>ob_name = vo_Name option, ob_addr = vmess_addr option, ob_iface = bo_Interface (vo_Basic option),
              ob_tp = AT_Vmess, ob_udp = vo_UDP option, ob_rmark = 0\<rparr>,
            vs_client = client,
            vs_option = (if vo_Network option = ''h2'' \<and> vo_H2Host option = [] then option\<lparr>vo_H2Host := [''www.example.com'']\<rparr> else option),
            vs_gun = (if vo_Network option = ''grpc'' then Some (vmess_gun option) else None)\<rparr>))"

text \<open>The options of the websocket, with the deprecated ones where the new ones are empty.\<close>

definition ws_path :: "Vmess_opt \<Rightarrow> string" where
  "ws_path option = (if wo_Path (vo_WSOpts option) = [] then vo_WSPath option else wo_Path (vo_WSOpts option))"

definition ws_headers :: "Vmess_opt \<Rightarrow> (string \<times> string) list" where
  "ws_headers option = (if wo_Headers (vo_WSOpts option) = [] then vo_WSHeaders option else wo_Headers (vo_WSOpts option))"

definition vmess_ws :: "Vmess_opt \<Rightarrow> string \<Rightarrow> ws_config" where
  "vmess_ws option addr =
     (let (host, port) = split_addr addr; headers = added_headers (ws_headers option) in
      \<lparr>wc_Host = host, wc_Port = port, wc_Path = ws_path option, wc_Headers = headers,
       wc_TLS = (if vo_TLS option then
          Some \<lparr>tc_ServerName = (if vo_ServerName option \<noteq> [] then vo_ServerName option
                  else if hd_Get ''Host'' headers \<noteq> [] then hd_Get ''Host'' headers else host),
                tc_Skip = vo_SkipCertVerify option, tc_NextProtos = [''http/1.1'']\<rparr> else None),
       wc_MaxEarlyData = wo_MaxEarlyData (vo_WSOpts option), wc_EarlyDataHeaderName = wo_EarlyDataHeaderName (vo_WSOpts option)\<rparr>)"

definition vmess_tls :: "Vmess_opt \<Rightarrow> string \<Rightarrow> string list \<Rightarrow> layer" where
  "vmess_tls option addr protos =
     TLSLayer \<lparr>tc_ServerName = (if vo_ServerName option \<noteq> [] then vo_ServerName option else fst (split_addr addr)),
       tc_Skip = vo_SkipCertVerify option, tc_NextProtos = protos\<rparr>"

text \<open>What \<open>StreamConn\<close> puts between the connection and VMess, from below.\<close>

definition vmess_layers :: "Vmess \<Rightarrow> layer list" where
  "vmess_layers v =
     (let option = vs_option v; addr = ob_addr (vs_base v) in
      if vo_Network option = ''ws'' then [WebsocketLayer (vmess_ws option addr)]
      else if vo_Network option = ''http'' then
        (if vo_TLS option then [vmess_tls option addr []] else []) @
        [HTTPLayer (fst (split_addr addr)) (vo_HTTPMethod option) (vo_HTTPPath option) (vo_HTTPHeaders option)]
      else if vo_Network option = ''h2'' then [vmess_tls option addr [''h2''], H2Layer (vo_H2Host option) (vo_H2Path option)]
      else if vo_Network option = ''grpc'' then
        [(case vs_gun v of Some (cfg, gcfg) \<Rightarrow> GunLayer cfg gcfg
          | None \<Rightarrow> GunLayer \<lparr>tc_ServerName = [], tc_Skip = False, tc_NextProtos = []\<rparr> \<lparr>gc_ServiceName = [], gc_Host = []\<rparr>)]
      else if vo_TLS option then [vmess_tls option addr []] else [])"

fun open_layers :: "dial_env \<Rightarrow> nat \<Rightarrow> layer list \<Rightarrow> layer list \<Rightarrow> net \<Rightarrow> string option \<times> net" where
  "open_layers E i below [] N = (None, N)"
| "open_layers E i below (l # ls) N =
     (case open_layer E i below l N of
        (Some e, N) \<Rightarrow> (Some e, N)
      | (None, N) \<Rightarrow> open_layers E i (below @ [l]) ls N)"

definition Vmess_StreamConn :: "dial_env \<Rightarrow> Vmess \<Rightarrow> Metadata \<Rightarrow> stream_conn" where
  "Vmess_StreamConn E v m i N =
     (let ls = vmess_layers v @ [VmessLayer (parseVmessAddr m)] in
      case open_layers E i [] ls N of
        (Some e, N) \<Rightarrow> (Inl (OutMsg e), N)
      | (None, N) \<Rightarrow> (Inr ls, N))"

text \<open>
  The transport of gRPC, without options of the caller, dials the same address with the adapter's
  options and opens the same layers; as with Trojan, this is its first use, because the connections
  it keeps belong to the library of HTTP/2.
\<close>

definition Vmess_DialContext :: "dial_env \<Rightarrow> Vmess \<Rightarrow> Metadata \<Rightarrow> dial_option list \<Rightarrow> net \<Rightarrow> (out_err + out_conn) \<times> net" where
  "Vmess_DialContext E v m opts N = dial_stream E (vs_base v) opts (Vmess_StreamConn E v m) N"

text \<open>UDP needs an address, so a name is resolved first.\<close>

definition Vmess_ListenPacket :: "dial_env \<Rightarrow> Vmess \<Rightarrow> Metadata \<Rightarrow> dial_option list \<Rightarrow> net \<Rightarrow> (out_err + out_conn \<times> UDPAddr option) \<times> net" where
  "Vmess_ListenPacket E v m opts N =
     (case (if Resolved m then Inr m else
              (case de_ResolveIP E (md_Host m) of Inl e \<Rightarrow> Inl e | Inr ip \<Rightarrow> Inr (m\<lparr>md_DstIP := Some ip\<rparr>))) of
        Inl e \<Rightarrow> (Inl (OutMsg ''can't resolve ip''), N)
      | Inr m \<Rightarrow>
          (case dial_stream E (vs_base v) opts (\<lambda>i N.
             case Vmess_StreamConn E v m i N of
               (Inl (OutMsg e), N) \<Rightarrow> (Inl (OutMsg (''new vmess client error: '' @ e)), N)
             | r \<Rightarrow> r) N of
             (Inl e, N) \<Rightarrow> (Inl e, N)
           | (Inr c, N) \<Rightarrow> (Inr (c, Metadata_UDPAddr m), N)))"

section \<open>Shadowsocks and Snell\<close>

record obfs_option =
  oo_Mode :: string
  oo_Host :: string

record v2ray_option =
  v2_Mode :: string
  v2_Host :: string
  v2_Path :: string
  v2_TLS :: bool
  v2_Headers :: "(string \<times> string) list"
  v2_SkipCertVerify :: bool
  v2_Mux :: bool

datatype ss_plugin = NoPlugin | ObfsPlugin obfs_option | V2rayPlugin v2ray_option

record ShadowSocks_opt =
  sk_Basic :: Basic_opt
  sk_Name :: string
  sk_Server :: string
  sk_Port :: nat
  sk_Password :: string
  sk_Cipher :: string
  sk_UDP :: bool
  sk_Plugin :: string

record ShadowSocks =
  sw_base :: Base
  sw_cipher :: string
  sw_plugin :: ss_plugin

text \<open>
  \<open>pick\<close> is the choice of the cipher, which fails or names it; \<open>obfs\<close> and \<open>v2ray\<close> are what the
  option decoder makes of the plugin's options.
\<close>

definition NewShadowSocks ::
  "(string \<Rightarrow> string \<Rightarrow> string + string) \<Rightarrow> string + obfs_option \<Rightarrow> string + v2ray_option \<Rightarrow> ShadowSocks_opt \<Rightarrow> string + ShadowSocks" where
  "NewShadowSocks pick obfs v2ray option =
     (let addr = join_host_port (sk_Server option) (itoa (sk_Port option)) in
      case pick (sk_Cipher option) (sk_Password option) of
        Inl e \<Rightarrow> Inl (''ss '' @ addr @ '' initialize error: '' @ e)
      | Inr ciph \<Rightarrow>
          (case
             (if sk_Plugin option = ''obfs'' then
                (case obfs of
                   Inl e \<Rightarrow> Inl (''ss '' @ addr @ '' initialize obfs error: '' @ e)
                 | Inr o' \<Rightarrow> if oo_Mode o' \<notin> {''tls'', ''http''} then Inl (''ss '' @ addr @ '' obfs mode error: '' @ oo_Mode o')
                            else Inr (ObfsPlugin o'))
              else if sk_Plugin option = ''v2ray-plugin'' then
                (case v2ray of
                   Inl e \<Rightarrow> Inl (''ss '' @ addr @ '' initialize v2ray-plugin error: '' @ e)
                 | Inr o' \<Rightarrow> if v2_Mode o' \<noteq> ''websocket'' then Inl (''ss '' @ addr @ '' obfs mode error: '' @ v2_Mode o')
                            else Inr (V2rayPlugin o'))
              else Inr NoPlugin) of
             Inl e \<Rightarrow> Inl e
           | Inr plugin \<Rightarrow>
               Inr \<lparr>sw_base = \<lparr>ob_name = sk_Name option, ob_addr = addr, ob_iface = bo_Interface (sk_Basic option),
                   ob_tp = AT_Shadowsocks, ob_udp = sk_UDP option, ob_rmark = 0\<rparr>,
                 sw_cipher = ciph, sw_plugin = plugin\<rparr>))"

definition v2ray_layers :: "v2ray_option \<Rightarrow> layer list" where
  "v2ray_layers option =
     (let headers = added_headers (v2_Headers option) in
      [WebsocketLayer \<lparr>wc_Host = v2_Host option, wc_Port = [], wc_Path = v2_Path option, wc_Headers = headers,
         wc_TLS = (if v2_TLS option then
            Some \<lparr>tc_ServerName = (if hd_Get ''Host'' headers \<noteq> [] then hd_Get ''Host'' headers else v2_Host option),
              tc_Skip = v2_SkipCertVerify option, tc_NextProtos = [''http/1.1'']\<rparr> else None),
         wc_MaxEarlyData = 0, wc_EarlyDataHeaderName = []\<rparr>] @ (if v2_Mux option then [MuxLayer] else []))"

definition obfs_layers :: "obfs_option \<Rightarrow> string \<Rightarrow> layer list" where
  "obfs_layers option addr =
     (if oo_Mode option = ''tls'' then [TLSObfsLayer (oo_Host option)]
      else if oo_Mode option = ''http'' then [HTTPObfsLayer (oo_Host option) (snd (split_addr addr))]
      else [])"

definition ss_layers :: "ShadowSocks \<Rightarrow> layer list" where
  "ss_layers ss =
     (case sw_plugin ss of
        NoPlugin \<Rightarrow> []
      | ObfsPlugin option \<Rightarrow> obfs_layers option (ob_addr (sw_base ss))
      | V2rayPlugin option \<Rightarrow> v2ray_layers option)"

definition ShadowSocks_StreamConn :: "dial_env \<Rightarrow> ShadowSocks \<Rightarrow> Metadata \<Rightarrow> stream_conn" where
  "ShadowSocks_StreamConn E ss m i N =
     (let ls = ss_layers ss @ [CipherLayer (sw_cipher ss)] in
      case open_layers E i [] ls N of
        (Some e, N) \<Rightarrow> (Inl (OutMsg (ob_addr (sw_base ss) @ '' connect error: '' @ e)), N)
      | (None, N) \<Rightarrow>
          (case write_layers E i ls (serializesSocksAddr m) N of
             (Some e, N) \<Rightarrow> (Inl (OutMsg e), N)
           | (None, N) \<Rightarrow> (Inr ls, N)))"

definition ShadowSocks_DialContext :: "dial_env \<Rightarrow> ShadowSocks \<Rightarrow> Metadata \<Rightarrow> dial_option list \<Rightarrow> net \<Rightarrow> (out_err + out_conn) \<times> net" where
  "ShadowSocks_DialContext E ss m opts = dial_stream E (sw_base ss) opts (ShadowSocks_StreamConn E ss m)"

definition ShadowSocks_ListenPacket :: "dial_env \<Rightarrow> ShadowSocks \<Rightarrow> dial_option list \<Rightarrow> string + bytes \<times> nat" where
  "ShadowSocks_ListenPacket E ss opts =
     (case de_Listen E (DialOptions (sw_base ss) opts) of
        Some e \<Rightarrow> Inl e
      | None \<Rightarrow> resolveUDPAddr E (ob_addr (sw_base ss)))"

record Snell_opt =
  sl_Basic :: Basic_opt
  sl_Name :: string
  sl_Server :: string
  sl_Port :: nat
  sl_Psk :: string
  sl_Version :: int

record Snell =
  sx_base :: Base
  sx_psk :: bytes
  sx_obfs :: obfs_option
  sx_version :: int

definition NewSnell :: "string + obfs_option \<Rightarrow> Snell_opt \<Rightarrow> string + Snell" where
  "NewSnell obfs option =
     (let addr = join_host_port (sl_Server option) (itoa (sl_Port option)) in
      case obfs of
        Inl e \<Rightarrow> Inl (''snell '' @ addr @ '' initialize obfs error: '' @ e)
      | Inr o' \<Rightarrow>
          if oo_Mode o' \<notin> {''tls'', ''http'', ''''} then Inl (''snell '' @ addr @ '' obfs mode error: '' @ oo_Mode o')
          else
            let version = (if sl_Version option = 0 then Version1 else sl_Version option) in
            if version \<noteq> Version1 \<and> version \<noteq> Version2 then Inl ''snell version error''
            else Inr \<lparr>sx_base = \<lparr>ob_name = sl_Name option, ob_addr = addr, ob_iface = bo_Interface (sl_Basic option),
                   ob_tp = AT_Snell, ob_udp = False, ob_rmark = 0\<rparr>,
                 sx_psk = bytes_of (sl_Psk option), sx_obfs = o', sx_version = version\<rparr>)"

definition snell_layers :: "Snell \<Rightarrow> layer list" where
  "snell_layers s = obfs_layers (sx_obfs s) (ob_addr (sx_base s)) @ [SnellLayer (sx_psk s) (sx_version s)]"

text \<open>
  \<open>uint\<close> of \<open>ParseInt\<close> with sixteen bits, of which the header keeps sixteen: a port above 32767 is
  out of range and becomes 32767.
\<close>

definition snell_port :: "string \<Rightarrow> nat" where
  "snell_port s = nat (fst (parse_int 16 s) mod 65536)"

definition Snell_StreamConn :: "dial_env \<Rightarrow> Snell \<Rightarrow> Metadata \<Rightarrow> stream_conn" where
  "Snell_StreamConn E s m i N =
     (let ls = snell_layers s in
      case open_layers E i [] ls N of
        (Some e, N) \<Rightarrow> (Inl (OutMsg e), N)
      | (None, N) \<Rightarrow>
          (case write_layers E i ls (snell_header (Metadata_String m) (snell_port (md_DstPort m)) (sx_version s)) N of
             (Some e, N) \<Rightarrow> (Inl (OutMsg e), N)
           | (None, N) \<Rightarrow> (Inr ls, N)))"

text \<open>
  The pool of connections of version 2, oldest first: \<open>Get\<close> drops those that are too old, \<open>Put\<close>
  keeps at most ten.
\<close>

record 'a pool_entry =
  pl_elm :: 'a
  pl_time :: int

definition pool_size :: nat where "pool_size = 10"
definition pool_maxAge :: int where "pool_maxAge = 15000"

fun pool_GetContext :: "int \<Rightarrow> int \<Rightarrow> 'a pool_entry list \<Rightarrow> 'a option \<times> 'a list \<times> 'a pool_entry list" where
  "pool_GetContext maxAge now [] = (None, [], [])"
| "pool_GetContext maxAge now (e # ch) =
     (if maxAge \<noteq> 0 \<and> maxAge < (now - pl_time e) then
        (case pool_GetContext maxAge now ch of (r, evicted, ch) \<Rightarrow> (r, pl_elm e # evicted, ch))
      else (Some (pl_elm e), [], ch))"

definition pool_Put :: "nat \<Rightarrow> 'a \<Rightarrow> int \<Rightarrow> 'a pool_entry list \<Rightarrow> 'a list \<times> 'a pool_entry list" where
  "pool_Put cap item now ch =
     (if length ch < cap then ([], ch @ [\<lparr>pl_elm = item, pl_time = now\<rparr>]) else ([item], ch))"

type_synonym snell_pool = "(nat \<times> layer list) pool_entry list"

text \<open>\<open>now\<close> in milliseconds; evicted connections are closed; an empty pool dials a new one.\<close>

definition Snell_DialContext ::
  "dial_env \<Rightarrow> Snell \<Rightarrow> Metadata \<Rightarrow> dial_option list \<Rightarrow> int \<Rightarrow> snell_pool \<Rightarrow> net \<Rightarrow> (out_err + out_conn) \<times> snell_pool \<times> net" where
  "Snell_DialContext E s m opts now pool N =
     (if sx_version s = Version2 \<and> opts = [] then
        (case pool_GetContext pool_maxAge now pool of
           (r, evicted, pool) \<Rightarrow>
             let N = fold (\<lambda>(i, ls). net_close i) evicted N in
             (case (case r of
                      Some c \<Rightarrow> (Inr c, N)
                    | None \<Rightarrow>
                        (case net_dial E (ob_addr (sx_base s)) (DialOptions (sx_base s) []) N of
                           (Inl e, N) \<Rightarrow> (Inl (OutMsg e), N)
                         | (Inr i, N) \<Rightarrow>
                             (case open_layers E i [] (snell_layers s) N of
                                (Some e, N) \<Rightarrow> (Inl (OutMsg e), N)
                              | (None, N) \<Rightarrow> (Inr (i, snell_layers s), N)))) of
                (Inl e, N) \<Rightarrow> (Inl e, pool, N)
              | (Inr (i, ls), N) \<Rightarrow>
                  (case write_layers E i ls (snell_header (Metadata_String m) (port_or (md_DstPort m)) (sx_version s)) N of
                     (None, N) \<Rightarrow> (Inr (NewConn i ls (sx_base s)), pool, N)
                   | (Some e, N) \<Rightarrow>
                       \<comment> \<open>closed, unless the end signal goes through and the connection is kept\<close>
                       (case write_layers E i ls [] N of
                          (Some e', N) \<Rightarrow> (Inl (OutMsg e), pool, net_close i N)
                        | (None, N) \<Rightarrow>
                            (case pool_Put pool_size (i, ls) now pool of
                               (gone, pool) \<Rightarrow> (Inl (OutMsg e), pool, fold (\<lambda>(i, ls). net_close i) gone N))))))
      else (case dial_stream E (sx_base s) opts (Snell_StreamConn E s m) N of (r, N) \<Rightarrow> (r, pool, N)))"

section \<open>Relaying over SOCKS5\<close>

text \<open>Metadata of a target that the address of SOCKS carries.\<close>

definition dialable :: "Metadata \<Rightarrow> bool" where
  "dialable m \<longleftrightarrow>
     (\<exists>p<65536. md_DstPort m = itoa p) \<and>
     (md_AddrType m = 3 \<and> md_Host m \<noteq> [] \<and> length (md_Host m) \<le> 252 \<and> last (md_Host m) \<noteq> CHR ''.'' \<or>
      md_AddrType m = 1 \<and> md_Host m = [] \<and> (\<exists>ip ip4. md_DstIP m = Some ip \<and> to4 ip = Some ip4) \<or>
      md_AddrType m = 4 \<and> md_Host m = [] \<and> (\<exists>ip. md_DstIP m = Some ip \<and> length ip = 16))"

lemma port_or_itoa: "p < 65536 \<Longrightarrow> port_or (itoa p) = p"
  by (simp add: port_or_def parse_uint_itoa)

lemma port16_of: "p < 65536 \<Longrightarrow> port16 (of_nat (p div 256)) (of_nat (p mod 256)) = p"
  by (simp add: port16_def unat_of_nat mult.commute)

lemma ip_string_to4: "to4 ip = Some ip4 \<Longrightarrow> ip_string ip = v4_string ip4"
  by (auto simp: ip_string_def to4_def)

text \<open>The address is well formed, and its text is the one of the metadata.\<close>

lemma serializes_target:
  assumes "dialable m"
  shows "plain_target (serializesSocksAddr m)" "Addr_String (serializesSocksAddr m) = Inr (RemoteAddress m)"
    "uint (serializesSocksAddr m ! 0) = md_AddrType m"
proof -
  from assms obtain p where p: "p < 65536" "md_DstPort m = itoa p" by (auto simp: dialable_def)
  note ser = serializesSocksAddr_def Let_def p(2) port_or_itoa [OF p(1)] ip_bytes_def
  consider (name) "md_AddrType m = 3" "md_Host m \<noteq> []" "length (md_Host m) \<le> 252" "last (md_Host m) \<noteq> CHR ''.''"
    | (v4) ip ip4 where "md_AddrType m = 1" "md_Host m = []" "md_DstIP m = Some ip" "to4 ip = Some ip4"
    | (v6) ip where "md_AddrType m = 4" "md_Host m = []" "md_DstIP m = Some ip" "length ip = 16"
    using assms by (auto simp: dialable_def)
  then have "plain_target (serializesSocksAddr m) \<and> Addr_String (serializesSocksAddr m) = Inr (RemoteAddress m) \<and>
      uint (serializesSocksAddr m ! 0) = md_AddrType m"
  proof cases
    case name
    let ?l = "of_nat (length (md_Host m)) :: byte"
    have l: "unat ?l = length (md_Host m)" using name(3) by (simp add: unat_of_nat)
    have nz: "?l \<noteq> 0" using l name(2) by (metis length_0_conv unat_0)
    have "bytes_of (md_Host m) ! (length (md_Host m) - 1) = of_char (last (md_Host m))"
      using name(2) by (simp add: bytes_of_def last_conv_nth)
    moreover have "\<dots> \<noteq> (of_char (CHR ''.'') :: byte)" using name(4) by (metis char_byte_roundtrip)
    ultimately have dot: "bytes_of (md_Host m) ! (length (md_Host m) - 1) \<noteq> of_char (CHR ''.'')" by simp
    define r where "r = bytes_of (md_Host m) @ [of_nat (p div 256), of_nat (p mod 256)]"
    have s: "serializesSocksAddr m = 3 # ?l # r" using name(1) by (simp add: ser r_def)
    have r: "length r = unat ?l + 2" "take (unat ?l) r = bytes_of (md_Host m)" "r ! unat ?l = of_nat (p div 256)"
        "r ! Suc (unat ?l) = of_nat (p mod 256)" "r ! (unat ?l - 1) \<noteq> of_char (CHR ''.'')"
      using dot name(2) by (simp_all add: r_def l nth_append bytes_of_def)
    have "SplitAddr (3 # ?l # r) = Some (3 # ?l # r)" using r(1) by (simp add: SplitAddr_def)
    then have "plain_target (3 # ?l # r)" using nz r(5) name(2,3) l by (simp add: plain_target_def nth_Cons')
    moreover have "Addr_String (3 # ?l # r) = Inr (join_host_port (md_Host m) (itoa p))"
      using r by (simp add: Addr_String_def Let_def port16_of [OF p(1)] nth_Cons')
    ultimately show ?thesis using name(1,2) by (simp add: s RemoteAddress_def Metadata_String_def p(2))
  next
    case v4
    from to4_length [OF v4(4)] v4 show ?thesis
      by (simp add: ser plain_target_def SplitAddr_def Addr_String_def RemoteAddress_def Metadata_String_def nth_append
          port16_of [OF p(1)] ip_string_to4 [OF v4(4)] ip_string_to4 [of ip4 ip4] to4_def)
  next
    case v6
    then show ?thesis
      by (simp add: ser plain_target_def SplitAddr_def Addr_String_def RemoteAddress_def Metadata_String_def nth_append
          port16_of [OF p(1)] to16_def)
  qed
  then show "plain_target (serializesSocksAddr m)" "Addr_String (serializesSocksAddr m) = Inr (RemoteAddress m)"
    "uint (serializesSocksAddr m ! 0) = md_AddrType m" by simp_all
qed

lemma exchange_ok:
  assumes "concat (pe_in p) = x @ y"
    and "m \<lparr>sk_in = x @ y, sk_out = [], sk_room = wr_room (pe_wire p)\<rparr> = (Inr a, \<lparr>sk_in = y, sk_out = os, sk_room = k\<rparr>)"
  obtains p' where "exchange m p = (Inr a, p')" "concat (pe_in p') = y" "emitted (pe_wire p') = emitted (pe_wire p) @ os"
proof -
  from ReadFull_append [of "pe_in p" x y "length x"] assms(1) obtain c where
    "ReadFull (length x) (pe_in p) = (x, None, c)" "concat c = y" by auto
  with assms have "exchange m p = (Inr a, \<lparr>pe_in = c, pe_wire = (pe_wire p)\<lparr>wr_out := wr_out (pe_wire p) @ [os], wr_room := k\<rparr>\<rparr>)"
    by (simp add: exchange_def)
  with that \<open>concat c = y\<close> show ?thesis by simp
qed

text \<open>
  C34. Two instances chained by SOCKS5 without TLS understand each other: for credentials that the
  second accepts, the adapter of the first succeeds on a connection to the listener of the second,
  and what the listener hands to its tunnel names the target of the first, an address or a name of
  up to 252 bytes.  Neither reads beyond the handshake.
\<close>

theorem socks_relay:
  assumes "dialable m" "ParseAddr local = Some laddr" "accepted auth (s5_credentials ss)" "s5_tls ss = None"
  shows "\<exists>cout sout m' k.
    handleSocks auth local remote \<lparr>sk_in = cout @ x, sk_out = [], sk_room = 3\<rparr> =
      Inr (Passed m', \<lparr>sk_in = x, sk_out = sout, sk_room = k\<rparr>) \<and>
    RemoteAddress m' = RemoteAddress m \<and> md_AddrType m' = md_AddrType m \<and> md_NetWork m' = TCP \<and>
    (\<forall>N i. concat (pe_in (nt_peer N i)) = sout @ y \<longrightarrow> wr_room (pe_wire (nt_peer N i)) = 3 \<longrightarrow>
       (\<exists>N'. Socks5_StreamConn E ss m i N = (Inr [], N') \<and> concat (pe_in (nt_peer N' i)) = y \<and>
         emitted (pe_wire (nt_peer N' i)) = emitted (pe_wire (nt_peer N i)) @ cout))"
proof -
  let ?a = "serializesSocksAddr m"
  note t = serializes_target [OF assms(1)]
  from t(1) have "SplitAddr ?a = Some ?a" by (simp add: plain_target_def)
  from handshake_run [OF this _ assms(2,3), of 1 x y] obtain cout sout k l where
    r: "ServerHandshake auth local \<lparr>sk_in = cout @ x, sk_out = [], sk_room = 3\<rparr> =
        (Inr (?a, 1), \<lparr>sk_in = x, sk_out = sout, sk_room = k\<rparr>)"
      "ClientHandshake ?a 1 (s5_credentials ss) \<lparr>sk_in = sout @ y, sk_out = [], sk_room = 3\<rparr> =
        (Inr laddr, \<lparr>sk_in = y, sk_out = cout, sk_room = l\<rparr>)" "hd cout = 5" "cout \<noteq> []" by auto
  from NewSocket_target [OF t(1)] obtain m' where m': "NewSocket ?a remote SOCKS5 = Inr m'" "names_target ?a m'"
    "md_NetWork m' = TCP" by blast
  from r have "handleSocks auth local remote \<lparr>sk_in = cout @ x, sk_out = [], sk_room = 3\<rparr> =
        Inr (Passed m', \<lparr>sk_in = x, sk_out = sout, sk_room = k\<rparr>)"
    by (cases cout) (simp_all add: handleSocks_def HandleSocks5_def m'(1))
  moreover have "RemoteAddress m' = RemoteAddress m \<and> md_AddrType m' = md_AddrType m"
    using m'(2) t by (simp add: names_target_def)
  moreover have "\<exists>N'. Socks5_StreamConn E ss m i N = (Inr [], N') \<and> concat (pe_in (nt_peer N' i)) = y \<and>
         emitted (pe_wire (nt_peer N' i)) = emitted (pe_wire (nt_peer N i)) @ cout"
    if i: "concat (pe_in (nt_peer N i)) = sout @ y" "wr_room (pe_wire (nt_peer N i)) = 3" for N i
    by (rule exchange_ok [OF i(1), of "ClientHandshake ?a 1 (s5_credentials ss)" laddr cout l])
      (use r(2) i(2) in \<open>simp_all add: Socks5_StreamConn_def assms(4) on_peer_def\<close>)
  ultimately show ?thesis using m'(3) by blast
qed

definition relay_demo :: Metadata where
  "relay_demo = zero_metadata\<lparr>md_Host := ''host'', md_DstPort := itoa 80, md_AddrType := 3\<rparr>"

definition relay_adapter :: Socks5 where
  "relay_adapter = NewSocks5 \<lparr>so_Basic = \<lparr>bo_Interface = [], bo_RoutingMark = 7\<rparr>, so_Name = ''up'', so_Server = ''10.0.0.2'', so_Port = 1080,
     so_UserName = ''me'', so_Password = ''pw'', so_TLS = False, so_UDP = True, so_SkipCertVerify = False\<rparr>"

theorem socks_relay_witness:
  "\<exists>cout sout m' k. handleSocks (Some (\<lambda>u p. u = ''me'')) (v4_string [127, 0, 0, 1] @ CHR '':'' # itoa 1080) ''10.0.0.1:5000''
      \<lparr>sk_in = cout @ [], sk_out = [], sk_room = 3\<rparr> = Inr (Passed m', \<lparr>sk_in = [], sk_out = sout, sk_room = k\<rparr>) \<and>
    RemoteAddress m' = RemoteAddress relay_demo"
proof -
  have "dialable relay_demo" by (auto simp: dialable_def relay_demo_def zero_metadata_def)
  moreover have "ParseAddr (v4_string [127, 0, 0, 1] @ CHR '':'' # itoa 1080) = Some (1 # [127, 0, 0, 1] @ port_bytes 1080)"
    by (rule ParseAddr_v4) simp_all
  moreover have "accepted (Some (\<lambda>u p. u = ''me'')) (s5_credentials relay_adapter)" "s5_tls relay_adapter = None"
    by (simp_all add: accepted_def s5_credentials_def relay_adapter_def NewSocks5_def)
  ultimately show ?thesis
    using socks_relay [of relay_demo _ _ "Some (\<lambda>u p. u = ''me'')" relay_adapter "''10.0.0.1:5000''" "[]" "[]"] by blast
qed

section \<open>TLS below the protocols\<close>

fun tls_of :: "layer \<Rightarrow> tls_config option" where
  "tls_of (TLSLayer cfg) = Some cfg"
| "tls_of (WebsocketLayer ws) = wc_TLS ws"
| "tls_of (GunLayer cfg gcfg) = Some cfg"
| "tls_of l = None"

lemma split_addr_join: "CHR ''['' \<notin> set h \<Longrightarrow> CHR '']'' \<notin> set h \<Longrightarrow> split_addr (join_host_port h (itoa p)) = (h, itoa p)"
  by (auto simp: split_addr_def split_join_host_port dest: itoa_digits)

lemma dial_stream_Inr:
  "dial_stream E b opts stream N = (Inr c, N') \<Longrightarrow>
     \<exists>i N1 N2. net_dial E (ob_addr b) (DialOptions b opts) N = (Inr i, N1) \<and> stream i N1 = (Inr (oc_layers c), N2) \<and>
       oc_id c = i \<and> oc_chain c = [ob_name b]"
  by (auto simp: dial_stream_def Let_def NewConn_def split: prod.splits sum.splits)

lemma NewVmess_Inr:
  assumes "NewVmess y parse_uuid goarch option = Some (Inr v)"
  shows "ob_addr (vs_base v) = vmess_addr option" "vs_gun v = (if vo_Network option = ''grpc'' then Some (vmess_gun option) else None)"
    "vo_Network option \<in> {''h2'', ''grpc''} \<Longrightarrow> vo_TLS option" "ob_rmark (vs_base v) = 0"
    "\<exists>h. vs_option v = option\<lparr>vo_H2Host := h\<rparr>"
proof -
  have o: "vs_option v = (if vo_Network option = ''h2'' \<and> vo_H2Host option = [] then option\<lparr>vo_H2Host := [''www.example.com'']\<rparr> else option) \<and>
      ob_addr (vs_base v) = vmess_addr option \<and> vs_gun v = (if vo_Network option = ''grpc'' then Some (vmess_gun option) else None) \<and>
      (vo_Network option \<in> {''h2'', ''grpc''} \<longrightarrow> vo_TLS option) \<and> ob_rmark (vs_base v) = 0"
    using assms unfolding NewVmess_def by (auto split: option.split_asm sum.split_asm if_split_asm)
  then have "vs_option v = option\<lparr>vo_H2Host := vo_H2Host (vs_option v)\<rparr>" by (cases option) simp
  then show "\<exists>h. vs_option v = option\<lparr>vo_H2Host := h\<rparr>" by (rule exI)
  from o show "ob_addr (vs_base v) = vmess_addr option" "vs_gun v = (if vo_Network option = ''grpc'' then Some (vmess_gun option) else None)"
    "vo_Network option \<in> {''h2'', ''grpc''} \<Longrightarrow> vo_TLS option" "ob_rmark (vs_base v) = 0" by simp_all
qed

text \<open>The name a server's certificate has to bear.\<close>

definition vmess_name :: "Vmess_opt \<Rightarrow> string" where
  "vmess_name option =
     (let host = hd_Get ''Host'' (added_headers (ws_headers option)) in
      if vo_ServerName option \<noteq> [] then vo_ServerName option
      else if vo_Network option = ''ws'' \<and> host \<noteq> [] then host else vo_Server option)"

text \<open>
  C35. With the option \<open>tls\<close> a connection of VMess never runs in the clear: whatever the transport,
  its lowest layer is TLS, which asks for the configured server name, the \<open>Host\<close> header of a
  websocket or the server itself, in this order, and skips the certificate only when told to.  The
  request goes into the topmost layer and names the target of the metadata.
\<close>

theorem vmess_tls_lowest:
  assumes "NewVmess y parse_uuid goarch option = Some (Inr v)" "vo_TLS option"
    and "CHR ''['' \<notin> set (vo_Server option)" "CHR '']'' \<notin> set (vo_Server option)"
    and "Vmess_DialContext E v m opts N = (Inr c, N')"
  shows "\<exists>l ls cfg. oc_layers c = l # ls @ [VmessLayer (parseVmessAddr m)] \<and> tls_of l = Some cfg \<and>
    tc_ServerName cfg = vmess_name option \<and> tc_Skip cfg = vo_SkipCertVerify option"
proof -
  note new = NewVmess_Inr [OF assms(1)]
  obtain h where h: "vs_option v = option\<lparr>vo_H2Host := h\<rparr>" using new(5) by blast
  have addr: "split_addr (vmess_addr option) = (vo_Server option, itoa (vo_Port option))"
    using split_addr_join [OF assms(3,4)] by (simp add: vmess_addr_def)
  from dial_stream_Inr [OF assms(5) [unfolded Vmess_DialContext_def]] obtain i N1 N2 where
    "Vmess_StreamConn E v m i N1 = (Inr (oc_layers c), N2)" by blast
  then have "oc_layers c = vmess_layers v @ [VmessLayer (parseVmessAddr m)]"
    by (auto simp: Vmess_StreamConn_def Let_def split: prod.split_asm option.split_asm)
  moreover have "\<exists>l ls cfg. vmess_layers v = l # ls \<and> tls_of l = Some cfg \<and>
      tc_ServerName cfg = vmess_name option \<and> tc_Skip cfg = vo_SkipCertVerify option"
    using assms(2) by (auto simp: vmess_layers_def Let_def h new(1,2) vmess_name_def vmess_ws_def vmess_tls_def vmess_gun_def addr
        ws_headers_def)
  ultimately show ?thesis by auto
qed

definition calm_env :: dial_env where
  "calm_env = \<lparr>de_Dial = (\<lambda>addr opts. Inr \<lparr>pe_in = [], pe_wire = \<lparr>wr_out = [], wr_room = 9\<rparr>\<rparr>), de_Open = (\<lambda>ls l p. (None, p)),
     de_Write = (\<lambda>ls b p. (None, p)), de_Listen = (\<lambda>opts. None), de_ResolveIP = (\<lambda>h. Inr [10, 0, 0, 2])\<rparr>"

definition demo_vmess :: Vmess_opt where
  "demo_vmess = \<lparr>vo_Basic = \<lparr>bo_Interface = [], bo_RoutingMark = 0\<rparr>, vo_Name = ''v'', vo_Server = ''a.example'', vo_Port = 443,
     vo_UUID = [], vo_AlterID = 0, vo_Cipher = ''none'', vo_UDP = False, vo_Network = ''ws'', vo_TLS = True, vo_SkipCertVerify = False,
     vo_ServerName = [], vo_HTTPMethod = [], vo_HTTPPath = [], vo_HTTPHeaders = Map.empty, vo_H2Host = [], vo_H2Path = [],
     vo_GrpcServiceName = [], vo_WSOpts = \<lparr>wo_Path = [], wo_Headers = [(''Host'', ''b.example'')], wo_MaxEarlyData = 0,
     wo_EarlyDataHeaderName = []\<rparr>, vo_WSHeaders = [], vo_WSPath = ''/p''\<rparr>"

theorem vmess_tls_lowest_witness:
  "\<exists>v c N' l ls cfg. NewVmess toy_crypto (\<lambda>s. Inr (replicate 16 1)) ''amd64'' demo_vmess = Some (Inr v) \<and>
     Vmess_DialContext calm_env v relay_demo [] \<lparr>nt_peer = (\<lambda>i. undefined), nt_open = [], nt_next = 0\<rparr> = (Inr c, N') \<and>
     oc_layers c = l # ls \<and> tls_of l = Some cfg \<and> tc_ServerName cfg = ''b.example'' \<and> \<not> tc_Skip cfg"
proof -
  have "to_lower ''none'' = ''none''" by code_simp
  then obtain v where v: "NewVmess toy_crypto (\<lambda>s. Inr (replicate 16 1)) ''amd64'' demo_vmess = Some (Inr v)"
    by (simp add: NewVmess_def demo_vmess_def vmess_NewClient_def newAlterIDs_def)
  have "\<exists>N'. open_layers calm_env i below ls N = (None, N')" for i below ls N
    by (induction ls arbitrary: below N) (simp_all add: open_layer_def on_peer_def calm_env_def)
  then have stream: "\<exists>ls N'. Vmess_StreamConn calm_env v relay_demo i N = (Inr ls, N')" for i N
    unfolding Vmess_StreamConn_def Let_def by (metis (no_types, lifting) case_prod_conv option.simps(4))
  have "\<exists>i N1. net_dial calm_env addr opts N = (Inr i, N1)" for addr opts N by (simp add: net_dial_def calm_env_def)
  with stream obtain c N' where
    c: "Vmess_DialContext calm_env v relay_demo [] \<lparr>nt_peer = (\<lambda>i. undefined), nt_open = [], nt_next = 0\<rparr> = (Inr c, N')"
    unfolding Vmess_DialContext_def dial_stream_def Let_def by (metis (no_types, lifting) case_prod_conv sum.simps(6))
  have "vmess_name demo_vmess = ''b.example''" by code_simp
  with vmess_tls_lowest [OF v _ _ _ c] show ?thesis
    using v c by (fastforce simp: demo_vmess_def)
qed

text \<open>Trojan always has TLS, with the configured name or the server's.\<close>

lemma trojan_tls_lowest:
  assumes "Trojan_DialContext E (NewTrojan sha224 option) m opts N = (Inr c, N')"
  shows "\<exists>l cfg. oc_layers c = [l] \<and> tls_of l = Some cfg \<and> tc_Skip cfg = to_SkipCertVerify option \<and>
    tc_ServerName cfg = (if to_SNI option \<noteq> [] then to_SNI option else to_Server option)"
proof -
  have over: "trojan_over E t command l m i M = (Inr ls, M') \<Longrightarrow> ls = [l]" for t command l i M ls M'
    by (auto simp: trojan_over_def split: prod.splits option.splits)
  show ?thesis
    using assms by (auto simp: Trojan_DialContext_def NewTrojan_def Let_def Trojan_StreamConn_def trojan_stream_layer_def
        trojan_layer_def trojan_tls_def NewConn_def split: prod.splits sum.splits option.splits if_splits
        dest!: dial_stream_Inr over)
qed

section \<open>What is left open and what is lost\<close>

text \<open>A layer or a handshake that fails leaves the connection open: the deferred close does nothing.\<close>

definition keeps_open :: "stream_conn \<Rightarrow> bool" where
  "keeps_open f \<longleftrightarrow> (\<forall>i N. nt_open (snd (f i N)) = nt_open N)"

lemma on_peer_open [simp]: "nt_open (snd (on_peer i f N)) = nt_open N" "on_peer i f N = (r, N') \<Longrightarrow> nt_open N' = nt_open N"
  by (auto simp: on_peer_def split: prod.splits)

lemma layers_open [simp]:
  "open_layer E i ls l N = (r, N') \<Longrightarrow> nt_open N' = nt_open N"
  "write_layers E i ls b N = (r, N') \<Longrightarrow> nt_open N' = nt_open N"
  by (simp_all add: open_layer_def write_layers_def)

lemma open_layers_open: "open_layers E i below ls N = (r, N') \<Longrightarrow> nt_open N' = nt_open N"
  by (induction E i below ls N rule: open_layers.induct) (auto split: prod.splits option.splits dest: layers_open(1))

lemma streams_keep_open:
  "keeps_open (Socks5_StreamConn E ss m)" "keeps_open (Http_StreamConn E C h m)" "keeps_open (trojan_over E t command l m)"
  "keeps_open (Vmess_StreamConn E v m)" "keeps_open (ShadowSocks_StreamConn E sh m)" "keeps_open (Snell_StreamConn E sn m)"
  by (auto simp: keeps_open_def Socks5_StreamConn_def Http_StreamConn_def trojan_over_def Vmess_StreamConn_def
      ShadowSocks_StreamConn_def Snell_StreamConn_def Let_def split: prod.splits option.splits sum.splits
      dest!: open_layers_open layers_open on_peer_open(2))

lemma dial_stream_open:
  assumes "keeps_open stream" "dial_stream E b opts stream N = (r, N')"
  shows "nt_open N' = (case net_dial E (ob_addr b) (DialOptions b opts) N of (Inl e, _) \<Rightarrow> nt_open N | (Inr i, _) \<Rightarrow> i # nt_open N)"
proof (cases "net_dial E (ob_addr b) (DialOptions b opts) N")
  case (Pair q N1)
  then have "nt_open N1 = (case q of Inl e \<Rightarrow> nt_open N | Inr i \<Rightarrow> i # nt_open N)"
    by (auto simp: net_dial_def split: sum.splits)
  moreover have "nt_open (snd (stream i N1)) = nt_open N1" for i using assms(1) by (simp add: keeps_open_def)
  ultimately show ?thesis using assms(2) Pair
    by (auto simp: dial_stream_def Let_def safeConnClose_def split: prod.splits sum.splits)
      (metis snd_conv)+
qed

lemma failed_stream_stays_open:
  assumes "net_dial E (ob_addr (s5_base ss)) (DialOptions (s5_base ss) opts) N = (Inr i, N1)"
    and "Socks5_DialContext E ss m opts N = (Inl e, N')"
  shows "i \<in> set (nt_open N')"
  using dial_stream_open [OF streams_keep_open(1) assms(2) [unfolded Socks5_DialContext_def]] assms(1) by simp

text \<open>The routing mark of an option reaches no dial.\<close>

lemma routing_mark_lost: "WithRoutingMark k \<notin> set (DialOptions (s5_base (NewSocks5 option)) [])"
  by (simp add: DialOptions_def NewSocks5_def)

text \<open>A packet that is shorter than what the buffer held before is read with the rest of it.\<close>

lemma socks_ReadFrom_stale:
  assumes "a = 1 # r" "length r = 6" "n \<le> length a + 3"
  shows "\<exists>u q. socks_ReadFrom ([0, 0, 0] @ a @ p) n = Inr (Inr (int n - 10, u, q)) \<and> int n - 10 \<le> 0"
  using assms by (simp add: socks_ReadFrom_def DecodeUDPPacket_def SplitAddr_def Addr_UDPAddr_def Let_def)

lemma snell_port_clamped: "p < 65536 \<Longrightarrow> snell_port (itoa p) = min p 32767"
  using parse_int_itoa [of p 16] by (simp add: snell_port_def min_def)

text \<open>What a server sends after its answer to \<open>CONNECT\<close>, in the same segment, is gone.\<close>

lemma read_head_drops: "index_of crlf2 s = Some idx \<Longrightarrow> read_head (s # c) [] = (Some (take (idx + 4) s), c)"
  by (simp add: read_head.simps [of "s # c" "[]"] read_head.simps [of c s] crlf2_def)

section \<open>The pool\<close>

lemma pool_GetContext_spec:
  assumes "pool_GetContext maxAge now ch = (r, evicted, ch')" "0 < maxAge"
  shows "evicted = map pl_elm (takeWhile (\<lambda>e. maxAge < now - pl_time e) ch) \<and>
    (case dropWhile (\<lambda>e. maxAge < now - pl_time e) ch of
       [] \<Rightarrow> r = None \<and> ch' = [] | e # es \<Rightarrow> r = Some (pl_elm e) \<and> ch' = es)"
  using assms by (induction maxAge now ch arbitrary: r evicted ch' rule: pool_GetContext.induct) (auto split: if_splits prod.splits)

end
