(* ===== verification/ClashRelay.thy ===== *)
theory ClashRelay
  imports ClashTunnel ClashObfs
begin

text \<open>
  \<open>tunnel/statistic\<close>, the relay of \<open>tunnel/connection.go\<close> and with them the whole of
  \<open>handleTCPConn\<close>: the connections that are open and the bytes they moved, and the copying of
  the two directions of a connection, whose steps interleave.
\<close>

section \<open>Connections and counters\<close>

record trackerInfo =
  ti_Metadata :: Metadata
  ti_UploadTotal :: int
  ti_DownloadTotal :: int
  ti_Start :: int
  ti_Chain :: "string list"
  ti_Rule :: string
  ti_RulePayload :: string

text \<open>The counters are \<open>int64\<close>; the temporary ones become the speed once a second.\<close>

record 'i Manager =
  mg_connections :: "'i \<rightharpoonup> trackerInfo"
  mg_uploadTemp :: int
  mg_downloadTemp :: int
  mg_uploadBlip :: int
  mg_downloadBlip :: int
  mg_uploadTotal :: int
  mg_downloadTotal :: int

definition DefaultManager :: "'i Manager" where
  "DefaultManager = \<lparr>mg_connections = Map.empty, mg_uploadTemp = 0, mg_downloadTemp = 0, mg_uploadBlip = 0, mg_downloadBlip = 0,
     mg_uploadTotal = 0, mg_downloadTotal = 0\<rparr>"

definition mg_Join :: "'i \<Rightarrow> trackerInfo \<Rightarrow> 'i Manager \<Rightarrow> 'i Manager" where
  "mg_Join i c m = m\<lparr>mg_connections := (mg_connections m)(i \<mapsto> c)\<rparr>"

definition mg_Leave :: "'i \<Rightarrow> 'i Manager \<Rightarrow> 'i Manager" where
  "mg_Leave i m = m\<lparr>mg_connections := (mg_connections m)(i := None)\<rparr>"

definition PushUploaded :: "int \<Rightarrow> 'i Manager \<Rightarrow> 'i Manager" where
  "PushUploaded n m = m\<lparr>mg_uploadTemp := wrap64 (mg_uploadTemp m + n), mg_uploadTotal := wrap64 (mg_uploadTotal m + n)\<rparr>"

definition PushDownloaded :: "int \<Rightarrow> 'i Manager \<Rightarrow> 'i Manager" where
  "PushDownloaded n m =
     m\<lparr>mg_downloadTemp := wrap64 (mg_downloadTemp m + n), mg_downloadTotal := wrap64 (mg_downloadTotal m + n)\<rparr>"

definition mg_Now :: "'i Manager \<Rightarrow> int \<times> int" where
  "mg_Now m = (mg_uploadBlip m, mg_downloadBlip m)"

definition mg_Snapshot :: "'i Manager \<Rightarrow> int \<times> int \<times> ('i \<rightharpoonup> trackerInfo)" where
  "mg_Snapshot m = (mg_uploadTotal m, mg_downloadTotal m, mg_connections m)"

definition ResetStatistic :: "'i Manager \<Rightarrow> 'i Manager" where
  "ResetStatistic m = m\<lparr>mg_uploadTemp := 0, mg_uploadBlip := 0, mg_uploadTotal := 0, mg_downloadTemp := 0, mg_downloadBlip := 0,
     mg_downloadTotal := 0\<rparr>"

definition mg_tick :: "'i Manager \<Rightarrow> 'i Manager" where
  "mg_tick m = m\<lparr>mg_uploadBlip := mg_uploadTemp m, mg_uploadTemp := 0, mg_downloadBlip := mg_downloadTemp m, mg_downloadTemp := 0\<rparr>"

text \<open>The counters of a connection are only seen while it is registered.\<close>

definition track_upload :: "'i \<Rightarrow> int \<Rightarrow> 'i Manager \<Rightarrow> 'i Manager" where
  "track_upload i n m =
     (let m = PushUploaded n m in
      m\<lparr>mg_connections := (mg_connections m)(i := map_option (\<lambda>c. c\<lparr>ti_UploadTotal := wrap64 (ti_UploadTotal c + n)\<rparr>) (mg_connections m i))\<rparr>)"

definition track_download :: "'i \<Rightarrow> int \<Rightarrow> 'i Manager \<Rightarrow> 'i Manager" where
  "track_download i n m =
     (let m = PushDownloaded n m in
      m\<lparr>mg_connections := (mg_connections m)(i := map_option (\<lambda>c. c\<lparr>ti_DownloadTotal := wrap64 (ti_DownloadTotal c + n)\<rparr>) (mg_connections m i))\<rparr>)"

definition NewTracker :: "'i \<Rightarrow> int \<Rightarrow> string list \<Rightarrow> Metadata \<Rightarrow> rule option \<Rightarrow> 'i Manager \<Rightarrow> 'i Manager" where
  "NewTracker i now chain metadata rule m =
     mg_Join i \<lparr>ti_Metadata = metadata, ti_UploadTotal = 0, ti_DownloadTotal = 0, ti_Start = now, ti_Chain = chain,
       ti_Rule = (case rule of None \<Rightarrow> [] | Some r \<Rightarrow> RuleType_String (Rule_Type r)),
       ti_RulePayload = (case rule of None \<Rightarrow> [] | Some r \<Rightarrow> Rule_Payload r)\<rparr> m"

section \<open>The relay\<close>

text \<open>
  \<open>left\<close> is the client and \<open>right\<close> the tracked connection.  Each direction is a loop of
  \<open>io.CopyBuffer\<close>, whose step reads once and writes what it read; when a direction ends, it sets
  the read deadline of the connection it wrote to, so the next read of the other direction fails.
\<close>

record 'i relay =
  rl_left :: segs
  rl_right :: segs
  rl_lwire :: wire
  rl_rwire :: wire
  rl_up :: bool
  rl_down :: bool
  rl_manager :: "'i Manager"

definition relay_up :: "'i \<Rightarrow> 'i relay \<Rightarrow> 'i relay" where
  "relay_up i s =
     (if \<not> rl_up s then s
      else if \<not> rl_down s then s\<lparr>rl_up := False\<rparr>
      else case conn_Read RelayBufferSize (rl_left s) of
        (d, Some e, c) \<Rightarrow> s\<lparr>rl_left := c, rl_up := False\<rparr>
      | (d, None, c) \<Rightarrow>
          if d = [] then s\<lparr>rl_left := c\<rparr>
          else (case conn_Write d (rl_rwire s) of
             (False, w) \<Rightarrow> s\<lparr>rl_left := c, rl_rwire := w, rl_up := False, rl_manager := track_upload i 0 (rl_manager s)\<rparr>
           | (True, w) \<Rightarrow> s\<lparr>rl_left := c, rl_rwire := w, rl_manager := track_upload i (int (length d)) (rl_manager s)\<rparr>))"

definition relay_down :: "'i \<Rightarrow> 'i relay \<Rightarrow> 'i relay" where
  "relay_down i s =
     (if \<not> rl_down s then s
      else if \<not> rl_up s then s\<lparr>rl_down := False, rl_manager := track_download i 0 (rl_manager s)\<rparr>
      else case conn_Read RelayBufferSize (rl_right s) of
        (d, Some e, c) \<Rightarrow> s\<lparr>rl_right := c, rl_down := False, rl_manager := track_download i 0 (rl_manager s)\<rparr>
      | (d, None, c) \<Rightarrow>
          let s = s\<lparr>rl_right := c, rl_manager := track_download i (int (length d)) (rl_manager s)\<rparr> in
          if d = [] then s
          else (case conn_Write d (rl_lwire s) of
             (False, w) \<Rightarrow> s\<lparr>rl_lwire := w, rl_down := False\<rparr>
           | (True, w) \<Rightarrow> s\<lparr>rl_lwire := w\<rparr>))"

text \<open>An order of steps: true for a step of the upload.\<close>

definition relay_run :: "'i \<Rightarrow> bool list \<Rightarrow> 'i relay \<Rightarrow> 'i relay" where
  "relay_run i sched s = fold (\<lambda>up. if up then relay_up i else relay_down i) sched s"

section \<open>A TCP connection from its arrival to its end\<close>

text \<open>
  Of a dialled connection: its chain, what the server will send on it and how many writes it
  takes.  The scheduler is a parameter, which the end of the relay needs to be long enough.
\<close>

record 'conn remote =
  rm_Chains :: "'conn \<Rightarrow> string list"
  rm_stream :: "'conn \<Rightarrow> segs \<times> wire"

definition start_relay :: "segs \<Rightarrow> wire \<Rightarrow> segs \<Rightarrow> wire \<Rightarrow> 'i Manager \<Rightarrow> 'i relay" where
  "start_relay cin cw rin rw g = \<lparr>rl_left = cin, rl_right = rin, rl_lwire = cw, rl_rwire = rw, rl_up = True, rl_down = True, rl_manager = g\<rparr>"

definition serveTCP ::
  "('w, 'p, 'conn) tunnel_env \<Rightarrow> 'conn remote \<Rightarrow> 'i \<Rightarrow> bool list \<Rightarrow> segs \<Rightarrow> wire \<Rightarrow> Metadata \<Rightarrow> ('p, 'd) tunnel \<Rightarrow> 'w \<Rightarrow> 'i Manager \<Rightarrow>
     'i relay option go \<times> ('p, 'd) tunnel \<times> 'w \<times> 'i Manager" where
  "serveTCP env R i sched cin cw m t w g =
     (if \<not> Valid m then (Inr None, t, w, g)
      else case preHandleMetadata env (te_now env w) m t of
        Inl pn \<Rightarrow> (Inl pn, t, w, g)
      | Inr (Some err, m, t) \<Rightarrow> (Inr None, t, w, g)
      | Inr (None, m, t) \<Rightarrow>
          (case resolveMetadata env m t w of
             ((None, _), m, t, w) \<Rightarrow> (Inl NilDereference, t, w, g)
           | ((Some proxy, rule), m, t, w) \<Rightarrow>
               (case te_DialContext env proxy (Pure m) w of
                  (Inl err, w) \<Rightarrow> (Inr None, t, w, g)
                | (Inr conn, w) \<Rightarrow>
                    let g = NewTracker i (te_now env w) (rm_Chains R conn) m rule g;
                        (rin, rw) = rm_stream R conn;
                        s = relay_run i sched (start_relay cin cw rin rw g);
                        s = s\<lparr>rl_manager := mg_Leave i (rl_manager s)\<rparr>
                    in (Inr (Some s), t, w, rl_manager s))))"

section \<open>What is copied\<close>

lemma track_simps [simp]:
  "dom (mg_connections (track_upload i n m)) = dom (mg_connections m)" "dom (mg_connections (track_download i n m)) = dom (mg_connections m)"
  "mg_uploadTotal (track_upload i n m) = wrap64 (mg_uploadTotal m + n)" "mg_uploadTotal (track_download i n m) = mg_uploadTotal m"
  "mg_downloadTotal (track_download i n m) = wrap64 (mg_downloadTotal m + n)" "mg_downloadTotal (track_upload i n m) = mg_downloadTotal m"
  by (auto simp: track_upload_def track_download_def PushUploaded_def PushDownloaded_def Let_def split: if_splits)

lemma track_others: "j \<noteq> i \<Longrightarrow> mg_connections (track_upload i n m) j = mg_connections m j"
    "j \<noteq> i \<Longrightarrow> mg_connections (track_download i n m) j = mg_connections m j"
  by (simp_all add: track_upload_def track_download_def PushUploaded_def PushDownloaded_def Let_def)

lemma wrap64_add: "wrap64 (wrap64 a + b) = wrap64 (a + b)"
proof -
  have "take_bit 64 (signed_take_bit 63 a) = take_bit 64 a" by (simp add: take_bit_signed_take_bit)
  then have "take_bit 64 (signed_take_bit 63 a + b) = take_bit 64 (a + b)"
    by (metis take_bit_add)
  then show ?thesis unfolding wrap64_def by (simp add: signed_take_bit_eq_iff_take_bit_eq)
qed

lemma wrap64_idem [simp]: "wrap64 (wrap64 a) = wrap64 a"
  using wrap64_add [of a 0] by simp

text \<open>
  What the relay keeps, from the streams \<open>x\<close> and \<open>y\<close> of the two ends: each end has been sent a
  beginning of the other's stream, nothing is lost while a direction runs, and the counters have
  counted the bytes.
\<close>

definition relayed :: "'i Manager \<Rightarrow> 'i \<Rightarrow> bytes \<Rightarrow> bytes \<Rightarrow> 'i relay \<Rightarrow> bool" where
  "relayed g i x y s \<longleftrightarrow>
     (\<exists>lost. x = emitted (rl_rwire s) @ lost @ concat (rl_left s) \<and> (rl_up s \<longrightarrow> lost = [])) \<and>
     (\<exists>lost. y = emitted (rl_lwire s) @ lost @ concat (rl_right s) \<and> (rl_down s \<longrightarrow> lost = []) \<and>
        mg_downloadTotal (rl_manager s) = wrap64 (mg_downloadTotal g + int (length (emitted (rl_lwire s) @ lost)))) \<and>
     mg_uploadTotal (rl_manager s) = wrap64 (mg_uploadTotal g + int (length (emitted (rl_rwire s)))) \<and>
     (\<forall>j. j \<noteq> i \<longrightarrow> mg_connections (rl_manager s) j = mg_connections g j)"

lemma conn_Read_concat: "conn_Read n c = (d, e, c') \<Longrightarrow> concat c = d @ concat c'"
  by (auto simp: conn_Read_def split: if_splits list.splits)

lemma relay_up_relayed: "relayed g i x y s \<Longrightarrow> relayed g i x y (relay_up i s)"
proof -
  assume r: "relayed g i x y s"
  show ?thesis
  proof (cases "rl_up s \<and> rl_down s")
    case True
    obtain d e c where c: "conn_Read RelayBufferSize (rl_left s) = (d, e, c)" by (cases "conn_Read RelayBufferSize (rl_left s)")
    note cc = conn_Read_concat [OF c]
    show ?thesis
    proof (cases "e = None \<and> d \<noteq> []")
      case True
      show ?thesis
        by (rule conn_Write_cases [of d "rl_rwire s"])
          (use r True \<open>rl_up s \<and> rl_down s\<close> c cc in \<open>auto simp: relayed_def relay_up_def track_others wrap64_add add.assoc\<close>)
    qed (use r True c cc in \<open>cases e; auto simp: relayed_def relay_up_def\<close>)
  qed (use r in \<open>auto simp: relayed_def relay_up_def\<close>)
qed

lemma relay_down_relayed: "relayed g i x y s \<Longrightarrow> relayed g i x y (relay_down i s)"
proof -
  assume r: "relayed g i x y s"
  show ?thesis
  proof (cases "rl_up s \<and> rl_down s")
    case True
    obtain d e c where c: "conn_Read RelayBufferSize (rl_right s) = (d, e, c)" by (cases "conn_Read RelayBufferSize (rl_right s)")
    note cc = conn_Read_concat [OF c]
    have e: "e \<noteq> None \<Longrightarrow> d = []" using c by (auto simp: conn_Read_def split: if_splits list.splits)
    show ?thesis
    proof (cases "e = None \<and> d \<noteq> []")
      case True
      show ?thesis
        by (rule conn_Write_cases [of d "rl_lwire s"])
          (use r True \<open>rl_up s \<and> rl_down s\<close> c cc in \<open>auto simp: relayed_def relay_down_def Let_def track_others wrap64_add add.assoc\<close>)
    qed (use r True c cc e in \<open>cases e; auto simp: relayed_def relay_down_def Let_def track_others\<close>)
  qed (use r in \<open>auto simp: relayed_def relay_down_def track_others\<close>)
qed

lemma relay_run_relayed: "relayed g i x y s \<Longrightarrow> relayed g i x y (relay_run i sched s)"
  unfolding relay_run_def by (induction sched arbitrary: s) (simp_all add: relay_up_relayed relay_down_relayed)

text \<open>Enough steps of both directions end the relay: every step uses up input or stops.\<close>

definition relay_size :: "'i relay \<Rightarrow> nat" where
  "relay_size s = (if rl_up s then Suc (seg_size (rl_left s)) else 0) + (if rl_down s then Suc (seg_size (rl_right s)) else 0)"

lemma conn_Read_decreases: "conn_Read RelayBufferSize c = (d, None, c') \<Longrightarrow> seg_size c' < seg_size c"
  by (auto simp: conn_Read_def seg_size_def RelayBufferSize_def split: if_splits list.splits)

lemma relay_step_size:
  "relay_size (relay_up i s) \<le> relay_size s - (if rl_up s then 1 else 0)"
  "relay_size (relay_down i s) \<le> relay_size s - (if rl_down s then 1 else 0)"
  by (auto simp: relay_size_def relay_up_def relay_down_def Let_def split: prod.splits option.splits bool.splits dest!: conn_Read_decreases)

lemma relay_flags: "rl_up (relay_run i sched s) \<Longrightarrow> rl_up s" "rl_down (relay_run i sched s) \<Longrightarrow> rl_down s"
proof -
  have up: "rl_up (relay_up i s) \<Longrightarrow> rl_up s" "rl_up (relay_down i s) = rl_up s" for s :: "'a relay"
    by (auto simp: relay_up_def relay_down_def Let_def split: prod.splits option.splits bool.splits if_splits)
  have down: "rl_down (relay_down i s) \<Longrightarrow> rl_down s" "rl_down (relay_up i s) = rl_down s" for s :: "'a relay"
    by (auto simp: relay_up_def relay_down_def Let_def split: prod.splits option.splits bool.splits if_splits)
  show "rl_up (relay_run i sched s) \<Longrightarrow> rl_up s"
    unfolding relay_run_def by (induction sched arbitrary: s) (fastforce simp: up(2) dest: up(1) split: if_splits)+
  show "rl_down (relay_run i sched s) \<Longrightarrow> rl_down s"
    unfolding relay_run_def by (induction sched arbitrary: s) (fastforce simp: down(2) dest: down(1) split: if_splits)+
qed

lemma relay_run_Cons: "relay_run i (b # sched) s = relay_run i sched (if b then relay_up i s else relay_down i s)"
  by (simp add: relay_run_def)

lemma relay_run_up: "rl_up (relay_run i sched s) \<Longrightarrow> relay_size (relay_run i sched s) + length (filter (\<lambda>b. b) sched) \<le> relay_size s"
proof (induction sched arbitrary: s)
  case (Cons b sched)
  from Cons.prems have r: "rl_up (relay_run i sched (if b then relay_up i s else relay_down i s))" by (simp only: relay_run_Cons)
  have "0 < relay_size s" using relay_flags(1) [OF Cons.prems] by (simp add: relay_size_def)
  then show ?case using Cons.IH [OF r] relay_step_size [of i s] relay_flags(1) [OF Cons.prems]
    by (cases b) (simp_all add: relay_run_Cons)
qed (simp add: relay_run_def)

lemma relay_run_down: "rl_down (relay_run i sched s) \<Longrightarrow> relay_size (relay_run i sched s) + length (filter Not sched) \<le> relay_size s"
proof (induction sched arbitrary: s)
  case (Cons b sched)
  from Cons.prems have r: "rl_down (relay_run i sched (if b then relay_up i s else relay_down i s))" by (simp only: relay_run_Cons)
  have "0 < relay_size s" using relay_flags(2) [OF Cons.prems] by (simp add: relay_size_def)
  then show ?case using Cons.IH [OF r] relay_step_size [of i s] relay_flags(2) [OF Cons.prems]
    by (cases b) (simp_all add: relay_run_Cons)
qed (simp add: relay_run_def)

lemma relay_ends:
  "relay_size s < length (filter (\<lambda>b. b) sched) \<Longrightarrow> relay_size s < length (filter Not sched) \<Longrightarrow>
     \<not> rl_up (relay_run i sched s) \<and> \<not> rl_down (relay_run i sched s)"
  using relay_run_up [of i sched s] relay_run_down [of i sched s] by auto

section \<open>The connection as a whole\<close>

lemma serveTCP_dial:
  "serveTCP env R i sched cin cw m t w g = (Inr (Some s), t', w', g') \<Longrightarrow>
     \<exists>conn m' rule. handleTCPConn env m t w = (Inr (Some conn), t', w') \<and>
       (\<exists>now. let g1 = NewTracker i now (rm_Chains R conn) m' rule g;
         s1 = relay_run i sched (start_relay cin cw (fst (rm_stream R conn)) (snd (rm_stream R conn)) g1)
        in s = s1\<lparr>rl_manager := mg_Leave i (rl_manager s1)\<rparr> \<and> g' = rl_manager s)"
  by (fastforce simp: serveTCP_def handleTCPConn_def Let_def split: if_splits sum.splits prod.splits option.splits)


definition demo_remote :: "string remote" where
  "demo_remote = \<lparr>rm_Chains = (\<lambda>c. [c]), rm_stream = (\<lambda>c. ([[7, 8]], \<lparr>wr_out = [], wr_room = 9\<rparr>))\<rparr>"


text \<open>A client that has sent its last byte and waits for the answer does not get it.\<close>

lemma half_close_loses: "emitted (rl_lwire (relay_run i (True # sched) (start_relay [] cw rin rw g))) = emitted cw"
proof -
  have "\<not> rl_up s \<Longrightarrow> rl_lwire (relay_run i sched s) = rl_lwire s" for s :: "'a relay"
  proof (induction sched arbitrary: s)
    case (Cons b sched)
    then show ?case
      by (cases b) (auto simp: relay_run_Cons relay_up_def relay_down_def)
  qed (simp add: relay_run_def)
  then show ?thesis by (simp add: relay_run_Cons relay_up_def start_relay_def conn_Read_def RelayBufferSize_def)
qed

end
