(* ===== verification/ClashPackets.thy ===== *)
theory ClashPackets
  imports ClashRelay
begin

text \<open>
  The UDP side of the tunnel: \<open>handleUDPConn\<close> of \<open>tunnel/tunnel.go\<close>, \<open>handleUDPToRemote\<close> and
  \<open>handleUDPToLocal\<close> of \<open>tunnel/connection.go\<close>, and the table of \<open>component/nat/table.go\<close>.  Workers
  and goroutines share the table, so the program is a transition system: a task is a goroutine
  between two of its accesses to what is shared, and any task may take the next step.
\<close>

section \<open>The table\<close>

text \<open>One \<open>sync.Map\<close> holds connections and locks, both known by number.\<close>

datatype nat_item = ItemConn nat | ItemLock nat

type_synonym nat_table = "string \<rightharpoonup> nat_item"

definition nat_Set :: "string \<Rightarrow> nat \<Rightarrow> nat_table \<Rightarrow> nat_table" where
  "nat_Set key pc t = t(key \<mapsto> ItemConn pc)"

definition nat_Get :: "string \<Rightarrow> nat_table \<Rightarrow> nat option go" where
  "nat_Get key t = (case t key of None \<Rightarrow> Inr None | Some (ItemConn pc) \<Rightarrow> Inr (Some pc) | Some (ItemLock c) \<Rightarrow> Inl TypeAssertion)"

definition nat_GetOrCreateLock :: "string \<Rightarrow> nat \<Rightarrow> nat_table \<Rightarrow> ((nat \<times> bool) \<times> nat_table) go" where
  "nat_GetOrCreateLock key fresh t =
     (case t key of
        None \<Rightarrow> Inr ((fresh, False), t(key \<mapsto> ItemLock fresh))
      | Some (ItemLock c) \<Rightarrow> Inr ((c, True), t)
      | Some (ItemConn pc) \<Rightarrow> Inl TypeAssertion)"

definition nat_Delete :: "string \<Rightarrow> nat_table \<Rightarrow> nat_table" where
  "nat_Delete key t = t(key := None)"

section \<open>The state\<close>

text \<open>
  A packet is known by the address it came from, to which answers are written back.  Of a
  packet connection: the adapter, whether it is open, and as a history the client it was made
  for, what was sent on it and what was received.
\<close>

record udp_packet =
  up_key :: string
  up_data :: bytes
  up_meta :: Metadata

record 'p packet_conn =
  uc_key :: string
  uc_proxy :: 'p
  uc_open :: bool
  uc_sent :: "(bytes \<times> UDPAddr) list"
  uc_got :: "(bytes \<times> UDPAddr) list"

text \<open>
  The tasks of \<open>handleUDPConn\<close>: after the table had no connection (\<open>Missed\<close>); with a lock another
  goroutine made, before and in \<open>cond.Wait\<close>, and woken (\<open>Late\<close>, \<open>Asleep\<close>, \<open>Awake\<close>); with its own lock
  (\<open>Creating\<close>), the connection made (\<open>Created\<close>) and in the table (\<open>Entered\<close>), and its deferred
  steps (\<open>Unlocking\<close>, \<open>Broadcasting\<close>).  \<open>Relaying\<close> and \<open>Forgetting\<close> are \<open>handleUDPToLocal\<close>.
\<close>

datatype task =
    Done
  | Missed udp_packet Metadata "UDPAddr option"
  | Late udp_packet Metadata nat
  | Asleep udp_packet Metadata nat
  | Awake udp_packet Metadata
  | Creating udp_packet Metadata "UDPAddr option" nat
  | Created udp_packet Metadata nat nat
  | Entered udp_packet Metadata nat
  | Unlocking string nat
  | Broadcasting nat
  | Relaying udp_packet nat "UDPAddr option"
  | Forgetting string

record ('w, 'p, 'd) udp =
  uu_tunnel :: "('p, 'd) tunnel"
  uu_world :: 'w
  uu_nat :: nat_table
  uu_conns :: "nat \<rightharpoonup> 'p packet_conn"
  uu_next :: nat
  uu_tasks :: "task list"
  uu_manager :: "nat Manager"
  uu_in :: "udp_packet list"
  uu_back :: "(string \<times> bytes \<times> UDPAddr) list"

text \<open>
  \<open>ue_Listen\<close> is \<open>ListenPacketContext\<close> of an adapter, which gives the chain, and \<open>ue_WriteTo\<close> whether
  a write on an open connection goes through.
\<close>

record ('w, 'p, 'conn) udp_env =
  ue_tunnel :: "('w, 'p, 'conn) tunnel_env"
  ue_Listen :: "'p \<Rightarrow> Metadata \<Rightarrow> 'w \<Rightarrow> (string + string list) \<times> 'w"
  ue_WriteTo :: "nat \<Rightarrow> bytes \<Rightarrow> UDPAddr \<Rightarrow> 'w \<Rightarrow> bool \<times> 'w"

section \<open>Packets to the remote side\<close>

definition udp_write :: "('w, 'p, 'conn) udp_env \<Rightarrow> nat \<Rightarrow> bytes \<Rightarrow> UDPAddr \<Rightarrow> ('w, 'p, 'd) udp \<Rightarrow> ('w, 'p, 'd) udp" where
  "udp_write E k b a s =
     (case uu_conns s k of
        Some c \<Rightarrow>
          if uc_open c then
            (case ue_WriteTo E k b a (uu_world s) of
               (True, w) \<Rightarrow> s\<lparr>uu_world := w, uu_conns := (uu_conns s)(k \<mapsto> c\<lparr>uc_sent := uc_sent c @ [(b, a)]\<rparr>),
                   uu_manager := track_upload k (int (length b)) (uu_manager s)\<rparr>
             | (False, w) \<Rightarrow> s\<lparr>uu_world := w\<rparr>)
          else s
      | None \<Rightarrow> s)"

definition handleUDPToRemote :: "('w, 'p, 'conn) udp_env \<Rightarrow> udp_packet \<Rightarrow> nat \<Rightarrow> Metadata \<Rightarrow> ('w, 'p, 'd) udp \<Rightarrow> ('w, 'p, 'd) udp" where
  "handleUDPToRemote E p k m s =
     (case (if Resolved m then (Inr m, uu_world s)
            else case te_ResolveIP (ue_tunnel E) (md_Host m) (uu_world s) of
              (Inl e, w) \<Rightarrow> (Inl e, w) | (Inr ip, w) \<Rightarrow> (Inr (m\<lparr>md_DstIP := Some ip\<rparr>), w)) of
        (Inl e, w) \<Rightarrow> s\<lparr>uu_world := w\<rparr>
      | (Inr m, w) \<Rightarrow>
          (case Metadata_UDPAddr m of
             None \<Rightarrow> s\<lparr>uu_world := w\<rparr>
           | Some a \<Rightarrow> udp_write E k (up_data p) a (s\<lparr>uu_world := w\<rparr>)))"

text \<open>\<open>handle\<close>: false when the table has no connection for the client.\<close>

definition udp_handle :: "('w, 'p, 'conn) udp_env \<Rightarrow> udp_packet \<Rightarrow> Metadata \<Rightarrow> ('w, 'p, 'd) udp \<Rightarrow> (bool \<times> ('w, 'p, 'd) udp) go" where
  "udp_handle E p m s =
     go_bind (nat_Get (up_key p) (uu_nat s)) (\<lambda>r.
       case r of None \<Rightarrow> Inr (False, s) | Some k \<Rightarrow> Inr (True, handleUDPToRemote E p k m s))"

section \<open>The arrival of a packet\<close>

definition IsExistFakeIP :: "bytes option \<Rightarrow> ('p, 'd) tunnel \<Rightarrow> bool go" where
  "IsExistFakeIP ip t =
     (case tn_mapper t of None \<Rightarrow> Inr False | Some h \<Rightarrow> eh_IsExistFakeIP (case ip of None \<Rightarrow> [] | Some b \<Rightarrow> b) h)"

definition spawn :: "task \<Rightarrow> ('w, 'p, 'd) udp \<Rightarrow> ('w, 'p, 'd) udp" where
  "spawn t s = s\<lparr>uu_tasks := uu_tasks s @ [t]\<rparr>"

definition handleUDPConn :: "('w, 'p, 'conn) udp_env \<Rightarrow> udp_packet \<Rightarrow> ('w, 'p, 'd) udp \<Rightarrow> ('w, 'p, 'd) udp go" where
  "handleUDPConn E p s =
     (let m = up_meta p; s = s\<lparr>uu_in := uu_in s @ [p]\<rparr> in
      if \<not> Valid m then Inr s
      else
        go_bind (IsExistFakeIP (md_DstIP m) (uu_tunnel s)) (\<lambda>fake.
          let fAddr = (if fake then Metadata_UDPAddr m else None) in
          go_bind (preHandleMetadata (ue_tunnel E) (te_now (ue_tunnel E) (uu_world s)) m (uu_tunnel s)) (\<lambda>(err, m, t).
            let s = s\<lparr>uu_tunnel := t\<rparr> in
            case err of
              Some e \<Rightarrow> Inr s
            | None \<Rightarrow>
                go_bind (udp_handle E p m s) (\<lambda>(handled, s).
                  Inr (if handled then s else spawn (Missed p m fAddr) s)))))"

section \<open>The steps of the goroutines\<close>

text \<open>What happens to a relaying goroutine: a packet, which the client may refuse, or an error or time limit.\<close>

datatype udp_event = Received bytes UDPAddr bool | Failed

definition set_task :: "nat \<Rightarrow> task \<Rightarrow> ('w, 'p, 'd) udp \<Rightarrow> ('w, 'p, 'd) udp" where
  "set_task i t s = s\<lparr>uu_tasks := (uu_tasks s)[i := t]\<rparr>"

definition wake :: "nat \<Rightarrow> task \<Rightarrow> task" where
  "wake c t = (case t of Asleep p m c' \<Rightarrow> if c' = c then Awake p m else t | _ \<Rightarrow> t)"

definition close_conn :: "nat \<Rightarrow> ('w, 'p, 'd) udp \<Rightarrow> ('w, 'p, 'd) udp" where
  "close_conn k s =
     s\<lparr>uu_conns := (uu_conns s)(k := map_option (\<lambda>c. c\<lparr>uc_open := False\<rparr>) (uu_conns s k)), uu_manager := mg_Leave k (uu_manager s)\<rparr>"

definition udp_create :: "('w, 'p, 'conn) udp_env \<Rightarrow> nat \<Rightarrow> udp_packet \<Rightarrow> Metadata \<Rightarrow> UDPAddr option \<Rightarrow> nat \<Rightarrow> ('w, 'p, 'd) udp \<Rightarrow> ('w, 'p, 'd) udp go" where
  "udp_create E i p m fAddr c s =
     (case resolveMetadata (ue_tunnel E) m (uu_tunnel s) (uu_world s) of
        ((None, _), m, t, w) \<Rightarrow> Inl NilDereference
      | ((Some proxy, rule), m, t, w) \<Rightarrow>
          (case ue_Listen E proxy (Pure m) w of
             (Inl err, w) \<Rightarrow> Inr (set_task i (Unlocking (up_key p @ ''-lock'') c) (s\<lparr>uu_tunnel := t, uu_world := w\<rparr>))
           | (Inr chain, w) \<Rightarrow>
               let k = uu_next s in
               Inr (spawn (Relaying p k fAddr) (set_task i (Created p m c k)
                 (s\<lparr>uu_tunnel := t, uu_world := w, uu_next := Suc k,
                    uu_conns := (uu_conns s)(k \<mapsto> \<lparr>uc_key = up_key p, uc_proxy = proxy, uc_open = True, uc_sent = [], uc_got = []\<rparr>),
                    uu_manager := NewTracker k (te_now (ue_tunnel E) w) chain m rule (uu_manager s)\<rparr>)))))"

definition udp_relay :: "nat \<Rightarrow> udp_event \<Rightarrow> udp_packet \<Rightarrow> nat \<Rightarrow> UDPAddr option \<Rightarrow> ('w, 'p, 'd) udp \<Rightarrow> ('w, 'p, 'd) udp" where
  "udp_relay i ev p k fAddr s =
     (case uu_conns s k of
        None \<Rightarrow> s
      | Some c \<Rightarrow>
          (case (if uc_open c then ev else Failed) of
             Failed \<Rightarrow> set_task i (Forgetting (up_key p)) (close_conn k (s\<lparr>uu_manager := track_download k 0 (uu_manager s)\<rparr>))
           | Received b from ok \<Rightarrow>
               let s = s\<lparr>uu_conns := (uu_conns s)(k \<mapsto> c\<lparr>uc_got := uc_got c @ [(b, from)]\<rparr>),
                     uu_manager := track_download k (int (length b)) (uu_manager s)\<rparr>;
                   addr = (case fAddr of Some a \<Rightarrow> a | None \<Rightarrow> from) in
               if ok then s\<lparr>uu_back := uu_back s @ [(up_key p, b, addr)]\<rparr>
               else set_task i (Forgetting (up_key p)) (close_conn k s)))"

definition udp_task :: "('w, 'p, 'conn) udp_env \<Rightarrow> udp_event \<Rightarrow> nat \<Rightarrow> ('w, 'p, 'd) udp \<Rightarrow> ('w, 'p, 'd) udp go" where
  "udp_task E ev i s =
     (case uu_tasks s ! i of
        Missed p m fAddr \<Rightarrow>
          go_bind (nat_GetOrCreateLock (up_key p @ ''-lock'') (uu_next s) (uu_nat s)) (\<lambda>((c, loaded), t).
            Inr (if loaded then set_task i (Late p m c) s
                 else set_task i (Creating p m fAddr c) (s\<lparr>uu_nat := t, uu_next := Suc (uu_next s)\<rparr>)))
      | Late p m c \<Rightarrow> Inr (set_task i (Asleep p m c) s)
      | Awake p m \<Rightarrow> go_bind (udp_handle E p m s) (\<lambda>(_, s). Inr (set_task i Done s))
      | Creating p m fAddr c \<Rightarrow> udp_create E i p m fAddr c s
      | Created p m c k \<Rightarrow> Inr (set_task i (Entered p m c) (s\<lparr>uu_nat := nat_Set (up_key p) k (uu_nat s)\<rparr>))
      | Entered p m c \<Rightarrow> go_bind (udp_handle E p m s) (\<lambda>(_, s). Inr (set_task i (Unlocking (up_key p @ ''-lock'') c) s))
      | Unlocking lockKey c \<Rightarrow> Inr (set_task i (Broadcasting c) (s\<lparr>uu_nat := nat_Delete lockKey (uu_nat s)\<rparr>))
      | Broadcasting c \<Rightarrow> Inr (set_task i Done (s\<lparr>uu_tasks := map (wake c) (uu_tasks s)\<rparr>))
      | Relaying p k fAddr \<Rightarrow> Inr (udp_relay i ev p k fAddr s)
      | Forgetting key \<Rightarrow> Inr (set_task i Done (s\<lparr>uu_nat := nat_Delete key (uu_nat s)\<rparr>))
      | _ \<Rightarrow> Inr s)"

text \<open>The key of a client is an address, which ends in a digit of its port.\<close>

definition client_key :: "string \<Rightarrow> bool" where
  "client_key key \<longleftrightarrow> key \<noteq> [] \<and> last key \<noteq> CHR ''k''"

definition start_udp :: "('p, 'd) tunnel \<Rightarrow> 'w \<Rightarrow> ('w, 'p, 'd) udp" where
  "start_udp t w = \<lparr>uu_tunnel = t, uu_world = w, uu_nat = Map.empty, uu_conns = Map.empty, uu_next = 0, uu_tasks = [],
     uu_manager = DefaultManager, uu_in = [], uu_back = []\<rparr>"

text \<open>
  The reachable states: a packet arrives, a task takes a step, a connection is closed through the
  API, the tunnel is reconfigured.
\<close>

inductive udp_reachable :: "('w, 'p, 'conn) udp_env \<Rightarrow> ('w, 'p, 'd) udp \<Rightarrow> bool" for E where
  start: "udp_reachable E (start_udp t w)"
| arrive: "udp_reachable E s \<Longrightarrow> client_key (up_key p) \<Longrightarrow> handleUDPConn E p s = Inr s' \<Longrightarrow> udp_reachable E s'"
| task: "udp_reachable E s \<Longrightarrow> i < length (uu_tasks s) \<Longrightarrow> udp_task E ev i s = Inr s' \<Longrightarrow> udp_reachable E s'"
| close: "udp_reachable E s \<Longrightarrow> udp_reachable E (close_conn k s)"
| configure: "udp_reachable E s \<Longrightarrow> udp_reachable E (s\<lparr>uu_tunnel := t\<rparr>)"

text \<open>The API closes one connection or, in the order of \<open>visit\<close>, all that are listed.\<close>

definition closeConnection :: "nat \<Rightarrow> ('w, 'p, 'd) udp \<Rightarrow> ('w, 'p, 'd) udp" where
  "closeConnection i s = (if mg_connections (uu_manager s) i \<noteq> None then close_conn i s else s)"

definition closeAllConnections :: "nat list \<Rightarrow> ('w, 'p, 'd) udp \<Rightarrow> ('w, 'p, 'd) udp" where
  "closeAllConnections visit s = fold close_conn (filter (\<lambda>i. mg_connections (uu_manager s) i \<noteq> None) visit) s"

section \<open>The invariant\<close>

definition conn_of :: "('w, 'p, 'd) udp \<Rightarrow> nat \<Rightarrow> string \<Rightarrow> bool" where
  "conn_of s k key \<longleftrightarrow> (\<exists>c. uu_conns s k = Some c \<and> uc_key c = key)"

definition arrived :: "('w, 'p, 'd) udp \<Rightarrow> udp_packet \<Rightarrow> bool" where
  "arrived s p \<longleftrightarrow> p \<in> set (uu_in s) \<and> client_key (up_key p)"

fun task_ok :: "('w, 'p, 'd) udp \<Rightarrow> task \<Rightarrow> bool" where
  "task_ok s (Missed p m f) = arrived s p"
| "task_ok s (Late p m c) = arrived s p"
| "task_ok s (Asleep p m c) = arrived s p"
| "task_ok s (Awake p m) = arrived s p"
| "task_ok s (Creating p m f c) = arrived s p"
| "task_ok s (Created p m c k) = (arrived s p \<and> conn_of s k (up_key p))"
| "task_ok s (Entered p m c) = arrived s p"
| "task_ok s (Relaying p k f) = (arrived s p \<and> conn_of s k (up_key p))"
| "task_ok s t = True"

fun item_ok :: "('w, 'p, 'd) udp \<Rightarrow> string \<Rightarrow> nat_item \<Rightarrow> bool" where
  "item_ok s key (ItemConn k) = (client_key key \<and> conn_of s k key)"
| "item_ok s key (ItemLock c) = (\<not> client_key key)"

definition conn_ok :: "('w, 'p, 'd) udp \<Rightarrow> nat \<Rightarrow> 'p packet_conn \<Rightarrow> bool" where
  "conn_ok s k c \<longleftrightarrow> k < uu_next s \<and> (\<forall>(b, a)\<in>set (uc_sent c). \<exists>p\<in>set (uu_in s). up_key p = uc_key c \<and> up_data p = b)"

definition back_ok :: "('w, 'p, 'd) udp \<Rightarrow> string \<times> bytes \<times> UDPAddr \<Rightarrow> bool" where
  "back_ok s e \<longleftrightarrow> (case e of (key, b, a) \<Rightarrow> \<exists>k c from. uu_conns s k = Some c \<and> uc_key c = key \<and> (b, from) \<in> set (uc_got c))"

definition udp_ok :: "('w, 'p, 'd) udp \<Rightarrow> bool" where
  "udp_ok s \<longleftrightarrow>
     (\<forall>key x. uu_nat s key = Some x \<longrightarrow> item_ok s key x) \<and> (\<forall>t\<in>set (uu_tasks s). task_ok s t) \<and>
     (\<forall>k c. uu_conns s k = Some c \<longrightarrow> conn_ok s k c) \<and> (\<forall>e\<in>set (uu_back s). back_ok s e) \<and>
     dom (mg_connections (uu_manager s)) = {k. \<exists>c. uu_conns s k = Some c \<and> uc_open c}"

text \<open>Connections keep their client and their history, and no packet is forgotten.\<close>

definition grows :: "('w, 'p, 'd) udp \<Rightarrow> ('w, 'p, 'd) udp \<Rightarrow> bool" where
  "grows s s' \<longleftrightarrow>
     (\<forall>k c. uu_conns s k = Some c \<longrightarrow> (\<exists>c'. uu_conns s' k = Some c' \<and> uc_key c' = uc_key c \<and> set (uc_got c) \<subseteq> set (uc_got c'))) \<and>
     set (uu_in s) \<subseteq> set (uu_in s') \<and> uu_next s \<le> uu_next s'"

lemma grows_conn_of: "grows s s' \<Longrightarrow> conn_of s k key \<Longrightarrow> conn_of s' k key"
  by (fastforce simp: grows_def conn_of_def)

lemma grows_arrived: "grows s s' \<Longrightarrow> arrived s p \<Longrightarrow> arrived s' p"
  by (auto simp: grows_def arrived_def)

lemma grows_task: "grows s s' \<Longrightarrow> task_ok s t \<Longrightarrow> task_ok s' t"
  by (cases t) (auto intro: grows_conn_of grows_arrived)

lemma grows_item: "grows s s' \<Longrightarrow> item_ok s key x \<Longrightarrow> item_ok s' key x"
  by (cases x) (auto intro: grows_conn_of)

lemma grows_back: "grows s s' \<Longrightarrow> back_ok s e \<Longrightarrow> back_ok s' e"
  unfolding grows_def back_ok_def by (cases e) (fastforce dest!: spec)

lemma grows_conn: "grows s s' \<Longrightarrow> conn_ok s k c \<Longrightarrow> conn_ok s' k c"
  unfolding grows_def conn_ok_def by fastforce

text \<open>What a change of one part has to show.\<close>

lemma udp_okI:
  assumes "udp_ok s" "grows s s'"
    and "\<And>key x. uu_nat s' key = Some x \<Longrightarrow> uu_nat s key = Some x \<or> item_ok s' key x"
    and "\<And>t. t \<in> set (uu_tasks s') \<Longrightarrow> t \<in> set (uu_tasks s) \<or> task_ok s' t"
    and "\<And>k c. uu_conns s' k = Some c \<Longrightarrow> uu_conns s k = Some c \<or> conn_ok s' k c"
    and "\<And>e. e \<in> set (uu_back s') \<Longrightarrow> e \<in> set (uu_back s) \<or> back_ok s' e"
    and "dom (mg_connections (uu_manager s')) = {k. \<exists>c. uu_conns s' k = Some c \<and> uc_open c}"
  shows "udp_ok s'"
  unfolding udp_ok_def
proof (intro conjI allI impI ballI)
  show "item_ok s' key x" if "uu_nat s' key = Some x" for key x
    using assms(3) [OF that] assms(1) grows_item [OF assms(2)] by (auto simp: udp_ok_def)
  show "task_ok s' t" if "t \<in> set (uu_tasks s')" for t
    using assms(4) [OF that] assms(1) grows_task [OF assms(2)] by (auto simp: udp_ok_def)
  show "conn_ok s' k c" if "uu_conns s' k = Some c" for k c
    using assms(5) [OF that] assms(1) grows_conn [OF assms(2)] by (auto simp: udp_ok_def)
  show "back_ok s' e" if "e \<in> set (uu_back s')" for e
    using assms(6) [OF that] assms(1) grows_back [OF assms(2), of e] unfolding udp_ok_def by blast
qed (rule assms(7))

lemma udp_ok_tracked: "udp_ok s \<Longrightarrow> dom (mg_connections (uu_manager s)) = {k. \<exists>c. uu_conns s k = Some c \<and> uc_open c}"
  by (simp add: udp_ok_def)

lemma set_task_ok: "udp_ok s \<Longrightarrow> task_ok s t \<Longrightarrow> udp_ok (set_task i t s)"
  by (rule udp_okI [of s])
    (auto simp: set_task_def grows_def udp_ok_tracked conn_of_def arrived_def dest!: subsetD [OF set_update_subset_insert] elim!: task_ok.elims)

lemma spawn_ok: "udp_ok s \<Longrightarrow> task_ok s t \<Longrightarrow> udp_ok (spawn t s)"
  by (rule udp_okI [of s])
    (auto simp: spawn_def grows_def udp_ok_tracked conn_of_def arrived_def elim!: task_ok.elims)

lemma task_ok_cong:
  "task_ok (set_task i t s) u = task_ok s u" "task_ok (spawn t s) u = task_ok s u"
  "task_ok (s\<lparr>uu_tunnel := tn\<rparr>) u = task_ok s u" "task_ok (s\<lparr>uu_world := w\<rparr>) u = task_ok s u" "task_ok (s\<lparr>uu_nat := n\<rparr>) u = task_ok s u"
  by (cases u; simp add: set_task_def spawn_def arrived_def conn_of_def)+

lemma environment_ok: "udp_ok s \<Longrightarrow> udp_ok (s\<lparr>uu_tunnel := t, uu_world := w\<rparr>)" "udp_ok s \<Longrightarrow> udp_ok (s\<lparr>uu_tunnel := t\<rparr>)"
    "udp_ok s \<Longrightarrow> udp_ok (s\<lparr>uu_world := w\<rparr>)"
  by (rule udp_okI [of s], (auto simp: grows_def udp_ok_tracked) [7])+

lemma close_conn_ok: "udp_ok s \<Longrightarrow> udp_ok (close_conn k s)"
proof (rule udp_okI [of s])
  assume s: "udp_ok s"
  show "grows s (close_conn k s)" by (auto simp: grows_def close_conn_def)
  show "uu_conns s j = Some c \<or> conn_ok (close_conn k s) j c" if "uu_conns (close_conn k s) j = Some c" for j c
    using s that by (fastforce simp: udp_ok_def close_conn_def conn_ok_def split: if_splits)
  show "dom (mg_connections (uu_manager (close_conn k s))) = {j. \<exists>c. uu_conns (close_conn k s) j = Some c \<and> uc_open c}"
    using udp_ok_tracked [OF s] by (auto simp: close_conn_def mg_Leave_def)
qed (auto simp: close_conn_def)

lemma udp_write_ok:
  assumes "udp_ok s" "arrived s p" "conn_of s k (up_key p)"
  shows "udp_ok (udp_write E k (up_data p) a s) \<and> grows s (udp_write E k (up_data p) a s)"
proof (cases "uu_conns s k")
  case (Some c)
  show ?thesis
  proof (cases "uc_open c \<and> fst (ue_WriteTo E k (up_data p) a (uu_world s))")
    case True
    obtain w where w: "ue_WriteTo E k (up_data p) a (uu_world s) = (True, w)" using True by (metis prod.collapse)
    let ?s = "udp_write E k (up_data p) a s"
    have s': "?s = s\<lparr>uu_world := w, uu_conns := (uu_conns s)(k \<mapsto> c\<lparr>uc_sent := uc_sent c @ [(up_data p, a)]\<rparr>),
        uu_manager := track_upload k (int (length (up_data p))) (uu_manager s)\<rparr>"
      using True Some w by (simp add: udp_write_def)
    have g: "grows s ?s" using Some by (auto simp: grows_def s')
    moreover have "udp_ok ?s"
    proof (rule udp_okI [OF assms(1) g])
      have "conn_ok s k c" using assms(1) Some by (simp add: udp_ok_def)
      then have "conn_ok ?s k (c\<lparr>uc_sent := uc_sent c @ [(up_data p, a)]\<rparr>)"
        using assms(2,3) Some by (auto simp: conn_ok_def s' conn_of_def arrived_def)
      then show "uu_conns s j = Some d \<or> conn_ok ?s j d" if "uu_conns ?s j = Some d" for j d
        using that by (auto simp: s' split: if_splits)
      show "dom (mg_connections (uu_manager ?s)) = {j. \<exists>c. uu_conns ?s j = Some c \<and> uc_open c}"
        using udp_ok_tracked [OF assms(1)] Some by (auto simp: s')
    qed (auto simp: s')
    ultimately show ?thesis by simp
  next
    case False
    then show ?thesis using assms(1) Some environment_ok(3) [OF assms(1)]
      by (auto simp: udp_write_def grows_def split: prod.split bool.split)
  qed
qed (use assms(1) in \<open>simp add: udp_write_def grows_def\<close>)

lemma arrived_world [simp]: "arrived (s\<lparr>uu_world := w\<rparr>) p = arrived s p" "conn_of (s\<lparr>uu_world := w\<rparr>) k key = conn_of s k key"
  by (simp_all add: arrived_def conn_of_def)

lemma toRemote_ok:
  assumes "udp_ok s" "arrived s p" "conn_of s k (up_key p)"
  shows "udp_ok (handleUDPToRemote E p k m s) \<and> grows s (handleUDPToRemote E p k m s)"
proof -
  have w: "udp_ok (s\<lparr>uu_world := w\<rparr>)" "grows s (s\<lparr>uu_world := w\<rparr>)" for w using environment_ok(3) [OF assms(1)] by (auto simp: grows_def)
  have u: "udp_ok (udp_write E k (up_data p) a (s\<lparr>uu_world := w\<rparr>)) \<and> grows s (udp_write E k (up_data p) a (s\<lparr>uu_world := w\<rparr>))" for a w
    using udp_write_ok [OF w(1) [of w], of p k E a] assms by (auto simp: grows_def)
  obtain r v where r: "(if Resolved m then (Inr m, uu_world s)
      else case te_ResolveIP (ue_tunnel E) (md_Host m) (uu_world s) of
        (Inl e, w) \<Rightarrow> (Inl e, w) | (Inr ip, w) \<Rightarrow> (Inr (m\<lparr>md_DstIP := Some ip\<rparr>), w)) = (r, v)" by fastforce
  show ?thesis unfolding handleUDPToRemote_def r using w [of v] u by (auto split: sum.split option.split)
qed

lemma handle_ok:
  assumes "udp_ok s" "arrived s p" "udp_handle E p m s = Inr (r, s')"
  shows "udp_ok s' \<and> grows s s'"
proof (cases "uu_nat s (up_key p)")
  case None
  then show ?thesis using assms by (simp add: udp_handle_def nat_Get_def grows_def)
next
  case (Some x)
  then have "item_ok s (up_key p) x" using assms(1) by (simp add: udp_ok_def)
  with Some assms toRemote_ok [OF assms(1,2)] show ?thesis
    by (cases x) (auto simp: udp_handle_def nat_Get_def)
qed

lemma nat_table_ok:
  assumes "udp_ok s" "client_key key"
  shows "\<exists>r. nat_Get key (uu_nat s) = Inr r" "\<exists>r. nat_GetOrCreateLock (key @ ''-lock'') c (uu_nat s) = Inr r"
proof -
  have i: "uu_nat s k = Some x \<Longrightarrow> item_ok s k x" for k x using assms(1) by (simp add: udp_ok_def)
  show "\<exists>r. nat_Get key (uu_nat s) = Inr r" using i [of key] assms(2)
    by (auto simp: nat_Get_def split: option.split nat_item.split)
  have "\<not> client_key (key @ ''-lock'')" by (simp add: client_key_def)
  with i [of "key @ ''-lock''"] show "\<exists>r. nat_GetOrCreateLock (key @ ''-lock'') c (uu_nat s) = Inr r"
    by (auto simp: nat_GetOrCreateLock_def split: option.split nat_item.split)
qed

lemma set_nat_ok:
  assumes "udp_ok s" "\<And>key x. n key = Some x \<Longrightarrow> uu_nat s key = Some x \<or> item_ok s key x" "uu_next s \<le> m"
  shows "udp_ok (s\<lparr>uu_nat := n, uu_next := m\<rparr>)"
proof (rule udp_okI [OF assms(1)])
  show "uu_nat s key = Some x \<or> item_ok (s\<lparr>uu_nat := n, uu_next := m\<rparr>) key x"
    if "uu_nat (s\<lparr>uu_nat := n, uu_next := m\<rparr>) key = Some x" for key x
    using assms(2) [of key x] that by (cases x) (auto simp: conn_of_def)
qed (use assms in \<open>auto simp: grows_def udp_ok_tracked\<close>)

lemma set_nat_ok': "udp_ok s \<Longrightarrow> (\<And>key x. n key = Some x \<Longrightarrow> uu_nat s key = Some x \<or> item_ok s key x) \<Longrightarrow> udp_ok (s\<lparr>uu_nat := n\<rparr>)"
  using set_nat_ok [of s n "uu_next s"] by simp

lemma delete_ok: "udp_ok s \<Longrightarrow> udp_ok (s\<lparr>uu_nat := nat_Delete key (uu_nat s)\<rparr>)"
  by (rule set_nat_ok') (auto simp: nat_Delete_def split: if_splits)

lemma arrive_ok:
  assumes "udp_ok s" "client_key (up_key p)" "handleUDPConn E p s = Inr s'"
  shows "udp_ok s'"
proof -
  let ?s = "s\<lparr>uu_in := uu_in s @ [p]\<rparr>"
  have s: "udp_ok ?s" by (rule udp_okI [OF assms(1)]) (use assms(1) in \<open>auto simp: grows_def udp_ok_tracked\<close>)
  have arr: "arrived ?s p" using assms(2) by (simp add: arrived_def)
  have "udp_ok (?s\<lparr>uu_tunnel := t\<rparr>) \<and> arrived (?s\<lparr>uu_tunnel := t\<rparr>) p" for t :: "('b, 'c) tunnel"
    using environment_ok(2) [OF s, of t] arr by (simp add: arrived_def)
  then have "udp_ok (if handled then s2 else spawn (Missed p m f) s2)"
    if "udp_handle E p m (?s\<lparr>uu_tunnel := t\<rparr>) = Inr (handled, s2)" for t m f handled s2
    using handle_ok [OF _ _ that] spawn_ok [of s2 "Missed p m f"] by (auto intro: grows_arrived)
  with s environment_ok(2) [OF s] assms(3) show ?thesis
    by (fastforce simp: handleUDPConn_def Let_def go_bind_Inr split: if_splits prod.splits option.splits)
qed

lemma create_ok:
  assumes "udp_ok s" "arrived s p" "udp_create E i p m f c s = Inr s'"
  shows "udp_ok s'"
proof -
  obtain px rl m' t w where r: "resolveMetadata (ue_tunnel E) m (uu_tunnel s) (uu_world s) = ((px, rl), m', t, w)" by (metis prod.collapse)
  with assms(3) obtain proxy where px: "px = Some proxy" by (cases px) (auto simp: udp_create_def)
  obtain q v where q: "ue_Listen E proxy (Pure m') w = (q, v)" by fastforce
  show ?thesis
  proof (cases q)
    case (Inl e)
    have "udp_ok (s\<lparr>uu_tunnel := t, uu_world := v\<rparr>)" by (rule environment_ok(1) [OF assms(1)])
    with Inl assms(3) r px q show ?thesis by (auto simp: udp_create_def intro!: set_task_ok)
  next
    case (Inr chain)
    let ?k = "uu_next s"
    let ?c = "\<lparr>uc_key = up_key p, uc_proxy = proxy, uc_open = True, uc_sent = [], uc_got = []\<rparr>"
    define u where "u = s\<lparr>uu_tunnel := t, uu_world := v, uu_next := Suc ?k, uu_conns := (uu_conns s)(?k \<mapsto> ?c),
        uu_manager := NewTracker ?k (te_now (ue_tunnel E) v) chain m' rl (uu_manager s)\<rparr>"
    have fresh: "uu_conns s ?k = None" using assms(1) by (force simp: udp_ok_def conn_ok_def)
    have g: "grows s u" using fresh by (auto simp: grows_def u_def)
    have "udp_ok u"
    proof (rule udp_okI [OF assms(1) g])
      show "uu_conns s j = Some d \<or> conn_ok u j d" if "uu_conns u j = Some d" for j d
        using that by (auto simp: u_def conn_ok_def split: if_splits)
      show "dom (mg_connections (uu_manager u)) = {j. \<exists>d. uu_conns u j = Some d \<and> uc_open d}"
        using udp_ok_tracked [OF assms(1)] fresh by (auto simp: u_def NewTracker_def mg_Join_def)
    qed (auto simp: u_def)
    moreover have "arrived u p" "conn_of u ?k (up_key p)" using assms(2) by (simp_all add: u_def arrived_def conn_of_def)
    ultimately have "udp_ok (spawn (Relaying p ?k f) (set_task i (Created p m' c ?k) u))"
      by (intro spawn_ok set_task_ok) (simp_all only: task_ok_cong, simp_all)
    with Inr assms(3) r px q show ?thesis by (simp add: udp_create_def Let_def u_def)
  qed
qed

lemma relay_ok:
  assumes "udp_ok s" "arrived s p" "conn_of s k (up_key p)"
  shows "udp_ok (udp_relay i ev p k f s)"
proof -
  obtain c where c: "uu_conns s k = Some c" "uc_key c = up_key p" using assms(3) by (auto simp: conn_of_def)
  have g: "udp_ok (s\<lparr>uu_manager := track_download k n (uu_manager s)\<rparr>)" for n
    by (rule udp_okI [OF assms(1)]) (use assms(1) in \<open>auto simp: grows_def udp_ok_tracked\<close>)
  show ?thesis
  proof (cases "if uc_open c then ev else Failed")
    case Failed
    then show ?thesis using c g by (simp add: udp_relay_def close_conn_ok set_task_ok)
  next
    case (Received b src ok)
    then have o: "uc_open c" by (simp split: if_splits)
    define u where "u = s\<lparr>uu_conns := (uu_conns s)(k \<mapsto> c\<lparr>uc_got := uc_got c @ [(b, src)]\<rparr>),
        uu_manager := track_download k (int (length b)) (uu_manager s)\<rparr>"
    have gr: "grows s u" using c by (auto simp: grows_def u_def)
    have u: "udp_ok u"
    proof (rule udp_okI [OF assms(1) gr])
      have "conn_ok s k c" using assms(1) c by (simp add: udp_ok_def)
      then have "conn_ok u k (c\<lparr>uc_got := uc_got c @ [(b, src)]\<rparr>)" by (simp add: conn_ok_def u_def)
      then show "uu_conns s j = Some d \<or> conn_ok u j d" if "uu_conns u j = Some d" for j d
        using that by (auto simp: u_def split: if_splits)
      show "dom (mg_connections (uu_manager u)) = {j. \<exists>d. uu_conns u j = Some d \<and> uc_open d}"
        using udp_ok_tracked [OF assms(1)] c o by (auto simp: u_def)
    qed (auto simp: u_def)
    have "udp_ok (u\<lparr>uu_back := uu_back u @ [(up_key p, b, a)]\<rparr>)" for a
    proof (rule udp_okI [OF u])
      show "e \<in> set (uu_back u) \<or> back_ok (u\<lparr>uu_back := uu_back u @ [(up_key p, b, a)]\<rparr>) e"
        if "e \<in> set (uu_back (u\<lparr>uu_back := uu_back u @ [(up_key p, b, a)]\<rparr>))" for e
        using that c by (auto simp: back_ok_def u_def)
    qed (use u in \<open>auto simp: grows_def udp_ok_tracked\<close>)
    then show ?thesis using Received c close_conn_ok [OF u] by (auto simp: udp_relay_def Let_def u_def set_task_ok)
  qed
qed

lemma missed_ok:
  assumes "udp_ok s" "arrived s p" "udp_task E ev i s = Inr s'" "uu_tasks s ! i = Missed p m f"
  shows "udp_ok s'"
proof -
  from assms(3,4) obtain c loaded t where l: "nat_GetOrCreateLock (up_key p @ ''-lock'') (uu_next s) (uu_nat s) = Inr ((c, loaded), t)"
    and s': "s' = (if loaded then set_task i (Late p m c) s else set_task i (Creating p m f c) (s\<lparr>uu_nat := t, uu_next := Suc (uu_next s)\<rparr>))"
    by (auto simp: udp_task_def go_bind_Inr)
  have "udp_ok (s\<lparr>uu_nat := t, uu_next := Suc (uu_next s)\<rparr>)" if "\<not> loaded"
  proof (rule set_nat_ok [OF assms(1)])
    show "uu_nat s key = Some x \<or> item_ok s key x" if "t key = Some x" for key x
      using l that \<open>\<not> loaded\<close>
      by (auto simp: nat_GetOrCreateLock_def client_key_def split: option.splits nat_item.splits if_splits)
  qed simp
  with assms(1,2) show ?thesis by (auto simp: s' arrived_def intro!: set_task_ok)
qed

lemma wake_ok: "task_ok s t \<Longrightarrow> task_ok s (wake c t)"
  by (cases t) (auto simp: wake_def)

lemma task_step_ok:
  assumes "udp_ok s" "i < length (uu_tasks s)" "udp_task E ev i s = Inr s'"
  shows "udp_ok s'"
proof -
  have t: "task_ok s (uu_tasks s ! i)" using assms(1,2) by (simp add: udp_ok_def)
  show ?thesis
  proof (cases "uu_tasks s ! i")
    case (Awake p m)
    with t assms(3) obtain r u where "udp_handle E p m s = Inr (r, u)" "s' = set_task i Done u"
      by (auto simp: udp_task_def go_bind_Inr)
    then show ?thesis using handle_ok [OF assms(1), of p E m r u] t Awake by (auto intro: set_task_ok)
  next
    case (Entered p m c)
    with t assms(3) obtain r u where "udp_handle E p m s = Inr (r, u)" "s' = set_task i (Unlocking (up_key p @ ''-lock'') c) u"
      by (auto simp: udp_task_def go_bind_Inr)
    then show ?thesis using handle_ok [OF assms(1), of p E m r u] t Entered by (auto intro: set_task_ok)
  next
    case (Created p m c k)
    have "udp_ok (s\<lparr>uu_nat := nat_Set (up_key p) k (uu_nat s)\<rparr>)"
      by (rule set_nat_ok' [OF assms(1)]) (use t Created in \<open>auto simp: nat_Set_def arrived_def split: if_splits\<close>)
    then show ?thesis using t assms(3) Created by (auto simp: udp_task_def arrived_def intro!: set_task_ok)
  next
    case (Broadcasting c)
    have "udp_ok (s\<lparr>uu_tasks := map (wake c) (uu_tasks s)\<rparr>)"
    proof (rule udp_okI [OF assms(1)])
      show "u \<in> set (uu_tasks s) \<or> task_ok (s\<lparr>uu_tasks := map (wake c) (uu_tasks s)\<rparr>) u"
        if "u \<in> set (uu_tasks (s\<lparr>uu_tasks := map (wake c) (uu_tasks s)\<rparr>))" for u
      proof -
        from that obtain v where "v \<in> set (uu_tasks s)" "u = wake c v" by auto
        then have "task_ok s u" using assms(1) by (auto simp: udp_ok_def intro: wake_ok)
        then have "task_ok (s\<lparr>uu_tasks := map (wake c) (uu_tasks s)\<rparr>) u" by (cases u) (auto simp: arrived_def conn_of_def)
        then show ?thesis ..
      qed
    qed (use assms(1) in \<open>auto simp: grows_def udp_ok_tracked\<close>)
    then show ?thesis using assms(3) Broadcasting by (auto simp: udp_task_def intro!: set_task_ok)
  next
    case (Missed p m f)
    then show ?thesis using missed_ok [OF assms(1) _ assms(3)] t by simp
  next
    case (Creating p m f c)
    then show ?thesis using create_ok [OF assms(1), of p E i m f c s'] t assms(3) by (simp add: udp_task_def)
  next
    case (Relaying p k f)
    then show ?thesis using relay_ok [OF assms(1), of p k i ev f] t assms(3) by (auto simp: udp_task_def)
  next
    case (Forgetting key)
    then show ?thesis using delete_ok [OF assms(1), of key] assms(3) by (auto simp: udp_task_def intro!: set_task_ok)
  next
    case (Unlocking key c)
    then show ?thesis using delete_ok [OF assms(1), of key] assms(3) by (auto simp: udp_task_def intro!: set_task_ok)
  qed (use assms t in \<open>auto simp: udp_task_def intro!: set_task_ok\<close>)
qed

lemma udp_reachable_ok: "udp_reachable E s \<Longrightarrow> udp_ok s"
proof (induction rule: udp_reachable.induct)
  case (start t w)
  then show ?case by (simp add: udp_ok_def start_udp_def DefaultManager_def)
qed (auto intro: arrive_ok task_step_ok close_conn_ok environment_ok(2))

text \<open>
  C40. Under every interleaving of the goroutines, UDP clients do not see each other: a connection is
  used for one client, what is sent on it came from this client, and what is written back to a
  client was received on a connection of its own.  The table never mixes locks and connections, so
  its type assertions hold, and the connections the API lists are exactly those that are open.
\<close>

theorem udp_isolated:
  assumes "udp_reachable E s"
  shows "(\<forall>k c b a. uu_conns s k = Some c \<longrightarrow> (b, a) \<in> set (uc_sent c) \<longrightarrow> (\<exists>p\<in>set (uu_in s). up_key p = uc_key c \<and> up_data p = b)) \<and>
    (\<forall>key b a. (key, b, a) \<in> set (uu_back s) \<longrightarrow>
       (\<exists>k c src. uu_conns s k = Some c \<and> uc_key c = key \<and> (b, src) \<in> set (uc_got c))) \<and>
    (\<forall>key k. uu_nat s key = Some (ItemConn k) \<longrightarrow> (\<exists>c. uu_conns s k = Some c \<and> uc_key c = key)) \<and>
    (\<forall>key c. client_key key \<longrightarrow> (\<exists>r. nat_Get key (uu_nat s) = Inr r) \<and> (\<exists>r. nat_GetOrCreateLock (key @ ''-lock'') c (uu_nat s) = Inr r)) \<and>
    dom (mg_connections (uu_manager s)) = {k. \<exists>c. uu_conns s k = Some c \<and> uc_open c}"
proof -
  have s: "udp_ok s" by (rule udp_reachable_ok [OF assms])
  have 1: "conn_ok s k c" if "uu_conns s k = Some c" for k c using s that by (simp add: udp_ok_def)
  have 2: "back_ok s e" if "e \<in> set (uu_back s)" for e using s that unfolding udp_ok_def by blast
  have 3: "item_ok s key x" if "uu_nat s key = Some x" for key x using s that by (simp add: udp_ok_def)
  show ?thesis
  proof (intro conjI allI impI)
    show "\<exists>p\<in>set (uu_in s). up_key p = uc_key c \<and> up_data p = b" if "uu_conns s k = Some c" "(b, a) \<in> set (uc_sent c)" for k c b a
      using 1 [OF that(1)] that(2) by (auto simp: conn_ok_def)
    show "\<exists>k c src. uu_conns s k = Some c \<and> uc_key c = key \<and> (b, src) \<in> set (uc_got c)" if "(key, b, a) \<in> set (uu_back s)" for key b a
      using 2 [OF that] by (simp add: back_ok_def)
    show "\<exists>c. uu_conns s k = Some c \<and> uc_key c = key" if "uu_nat s key = Some (ItemConn k)" for key k
      using 3 [OF that] by (simp add: conn_of_def)
  qed (use nat_table_ok [OF s] udp_ok_tracked [OF s] in blast)+
qed

section \<open>A run\<close>

definition demo_udp_env :: "(nat, string, string) udp_env" where
  "demo_udp_env = \<lparr>ue_tunnel = demo_tunnel_env, ue_Listen = (\<lambda>p m w. (Inr [p], w)), ue_WriteTo = (\<lambda>k b a w. (True, w))\<rparr>"

definition demo_packet :: udp_packet where
  "demo_packet = \<lparr>up_key = ''10.0.0.9:5000'', up_data = [1, 2], up_meta = zero_metadata\<lparr>md_NetWork := UDP, md_AddrType := AtypIPv4,
     md_DstIP := Some [10, 0, 0, 1], md_DstPort := ''53''\<rparr>\<rparr>"

definition udp_run :: "('w, 'p, 'conn) udp_env \<Rightarrow> (nat \<times> udp_event) list \<Rightarrow> ('w, 'p, 'd) udp \<Rightarrow> ('w, 'p, 'd) udp go" where
  "udp_run E steps s = fold (\<lambda>(i, ev) r. go_bind r (\<lambda>s. if i < length (uu_tasks s) then udp_task E ev i s else Inr s)) steps (Inr s)"

lemma udp_run_Inl: "fold (\<lambda>(i, ev) r. go_bind r (\<lambda>s. if i < length (uu_tasks s) then udp_task E ev i s else Inr s)) steps (Inl pn) = Inl pn"
  by (induction steps) auto

lemma udp_run_reachable: "udp_reachable E s \<Longrightarrow> udp_run E steps s = Inr s' \<Longrightarrow> udp_reachable E s'"
proof (induction steps arbitrary: s)
  case (Cons e steps)
  obtain i ev where e: "e = (i, ev)" by fastforce
  show ?case
  proof (cases "if i < length (uu_tasks s) then udp_task E ev i s else Inr s")
    case (Inl pn)
    then show ?thesis using Cons.prems(2) by (simp add: udp_run_def e udp_run_Inl)
  next
    case (Inr u)
    then have "udp_reachable E u" using Cons.prems(1) by (auto split: if_splits intro: udp_reachable.task)
    moreover have "udp_run E steps u = Inr s'" using Cons.prems(2) Inr by (simp add: udp_run_def e)
    ultimately show ?thesis by (rule Cons.IH)
  qed
qed (simp add: udp_run_def)

definition demo_start :: "(nat, string, unit) udp" where
  "demo_start = start_udp (demo_tunnel\<lparr>tn_mode := Direct\<rparr>) 0"

lemma demo_arrives: "\<exists>s. handleUDPConn demo_udp_env demo_packet demo_start = Inr s \<and> uu_tasks s = [Missed demo_packet (up_meta demo_packet) None] \<and>
    uu_nat s = Map.empty \<and> uu_conns s = Map.empty \<and> uu_tunnel s = demo_tunnel\<lparr>tn_mode := Direct\<rparr> \<and> uu_world s = 0 \<and> uu_next s = 0"
proof -
  have "parse_ip [] = None" by code_simp
  then show ?thesis
    by (simp add: handleUDPConn_def demo_packet_def demo_start_def start_udp_def Valid_def IsExistFakeIP_def demo_tunnel_def
        preHandleMetadata_def host_to_ip_def needLookupIP_def tn_MappingEnabled_def udp_handle_def nat_Get_def spawn_def Let_def zero_metadata_def)
qed

theorem udp_isolated_witness:
  "\<exists>(s :: (nat, string, unit) udp) k c. udp_reachable demo_udp_env s \<and> uu_conns s k = Some c \<and> [1, 2] \<in> fst ` set (uc_sent c) \<and>
     (\<exists>p\<in>set (uu_in s). up_key p = uc_key c \<and> up_data p = [1, 2])"
proof -
  obtain s where s: "handleUDPConn demo_udp_env demo_packet demo_start = Inr s" "uu_tasks s = [Missed demo_packet (up_meta demo_packet) None]"
    "uu_nat s = Map.empty" "uu_conns s = Map.empty" "uu_tunnel s = demo_tunnel\<lparr>tn_mode := Direct\<rparr>" "uu_world s = 0" "uu_next s = 0"
    using demo_arrives by blast
  have "client_key (up_key demo_packet)" by (simp add: client_key_def demo_packet_def)
  then have r: "udp_reachable demo_udp_env s"
    using udp_reachable.arrive [OF udp_reachable.start _ s(1) [unfolded demo_start_def]] by blast
  have "\<exists>u a. udp_run demo_udp_env [(0, Failed), (0, Failed), (0, Failed), (0, Failed)] s = Inr u \<and>
      (\<exists>c. uu_conns u 1 = Some c \<and> uc_sent c = [([1, 2], a)])"
    using s(2-7)
    by (simp add: udp_run_def udp_task_def nat_GetOrCreateLock_def set_task_def udp_create_def resolveMetadata_def demo_tunnel_def
        demo_udp_env_def spawn_def Let_def nat_Set_def udp_handle_def nat_Get_def handleUDPToRemote_def demo_packet_def Resolved_def
        Metadata_UDPAddr_def udp_write_def Pure_def zero_metadata_def)
  then obtain u a c where u: "udp_run demo_udp_env [(0, Failed), (0, Failed), (0, Failed), (0, Failed)] s = Inr u"
    "uu_conns u 1 = Some c" "uc_sent c = [([1, 2], a)]" by blast
  note ru = udp_run_reachable [OF r u(1)]
  from conjunct1 [OF udp_isolated [OF ru]] u(2,3) have "\<exists>p\<in>set (uu_in u). up_key p = uc_key c \<and> up_data p = [1, 2]" by simp
  with ru u(2,3) show ?thesis by (intro exI [of _ u] exI [of _ 1] exI [of _ c]) simp
qed

lemma fold_close_listed:
  "mg_connections (uu_manager (fold close_conn is u)) i = (if i \<in> set is then None else mg_connections (uu_manager u) i)"
  by (induction "is" arbitrary: u) (auto simp: close_conn_def mg_Leave_def)

lemma closeAll_closes:
  assumes "udp_reachable E s" "dom (mg_connections (uu_manager s)) \<subseteq> set visit"
  shows "udp_reachable E (closeAllConnections visit s)" "mg_connections (uu_manager (closeAllConnections visit s)) = Map.empty"
proof -
  have "udp_reachable E u \<Longrightarrow> udp_reachable E (fold close_conn is u)" for "is" and u
    by (induction "is" arbitrary: u) (auto intro: udp_reachable.close)
  then show "udp_reachable E (closeAllConnections visit s)" using assms(1) by (simp add: closeAllConnections_def)
  show "mg_connections (uu_manager (closeAllConnections visit s)) = Map.empty"
    using assms(2) by (auto simp: closeAllConnections_def fold_close_listed fun_eq_iff)
qed

section \<open>Lost packets and dead sessions\<close>

text \<open>
  A goroutine that found the lock but reaches \<open>cond.Wait\<close> only after the broadcast sleeps for
  good: nobody is left who could wake it, and its packet is lost.
\<close>

lemma broadcast_missed:
  assumes "i < length (uu_tasks s)" "j < length (uu_tasks s)" "i \<noteq> j" "uu_tasks s ! i = Late p m c" "uu_tasks s ! j = Broadcasting c"
    and "udp_task E ev j s = Inr s1" "udp_task E ev' i s1 = Inr s2"
  shows "uu_tasks s2 ! i = Asleep p m c" "uu_tasks s2 ! j = Done"
proof -
  from assms(5,6) have s1: "s1 = set_task j Done (s\<lparr>uu_tasks := map (wake c) (uu_tasks s)\<rparr>)" by (simp add: udp_task_def)
  with assms(1-4) have i: "uu_tasks s1 ! i = Late p m c" "length (uu_tasks s1) = length (uu_tasks s)" "uu_tasks s1 ! j = Done"
    by (simp_all add: set_task_def wake_def)
  with assms(7) have "s2 = set_task i (Asleep p m c) s1" by (simp add: udp_task_def)
  with i assms(1-3) show "uu_tasks s2 ! i = Asleep p m c" "uu_tasks s2 ! j = Done" by (simp_all add: set_task_def)
qed

text \<open>A table whose entry is a closed connection swallows every packet of the client.\<close>

lemma closed_session_entered:
  assumes "uu_tasks s ! i = Created p m c k" "uu_conns s k = Some cn" "\<not> uc_open cn" "udp_task E ev i s = Inr s'"
  shows "uu_nat s' (up_key p) = Some (ItemConn k)" "uu_conns s' k = Some cn"
  using assms by (auto simp: udp_task_def set_task_def nat_Set_def)

lemma closed_toRemote:
  assumes "uu_conns u k = Some cn" "\<not> uc_open cn"
  shows "\<exists>v. handleUDPToRemote E p k m u = u\<lparr>uu_world := v\<rparr>"
proof -
  obtain r v where r: "(if Resolved m then (Inr m, uu_world u)
      else case te_ResolveIP (ue_tunnel E) (md_Host m) (uu_world u) of
        (Inl e, w) \<Rightarrow> (Inl e, w) | (Inr ip, w) \<Rightarrow> (Inr (m\<lparr>md_DstIP := Some ip\<rparr>), w)) = (r, v)" by fastforce
  have "handleUDPToRemote E p k m u = u\<lparr>uu_world := v\<rparr>"
    unfolding handleUDPToRemote_def r using assms by (auto simp: udp_write_def split: sum.split option.split)
  then show ?thesis ..
qed

lemma closed_session_swallows:
  assumes "uu_nat s (up_key p) = Some (ItemConn k)" "uu_conns s k = Some cn" "\<not> uc_open cn" "handleUDPConn E p s = Inr s'"
  shows "uu_nat s' = uu_nat s \<and> uu_conns s' = uu_conns s \<and> uu_tasks s' = uu_tasks s \<and> uu_back s' = uu_back s"
proof -
  have h: "\<exists>v. udp_handle E p m (s\<lparr>uu_in := i, uu_tunnel := t\<rparr>) = Inr (True, s\<lparr>uu_in := i, uu_tunnel := t, uu_world := v\<rparr>)" for m i t
    using closed_toRemote [of "s\<lparr>uu_in := i, uu_tunnel := t\<rparr>" k cn E p m] assms(1-3) by (simp add: udp_handle_def nat_Get_def)
  show ?thesis
  proof (cases "Valid (up_meta p)")
    case True
    from assms(4) True obtain fake where fake: "IsExistFakeIP (md_DstIP (up_meta p)) (uu_tunnel s) = Inr fake"
      by (auto simp: handleUDPConn_def Let_def go_bind_Inr)
    from assms(4) True obtain err m t where
      "preHandleMetadata (ue_tunnel E) (te_now (ue_tunnel E) (uu_world s)) (up_meta p) (uu_tunnel s) = Inr (err, m, t)"
      by (auto simp: handleUDPConn_def Let_def go_bind_Inr)
    with fake assms(4) True h [where m = m and i = "uu_in s @ [p]" and t = t] show ?thesis by (cases err) (auto simp: handleUDPConn_def Let_def)
  qed (use assms(4) in \<open>auto simp: handleUDPConn_def\<close>)
qed

text \<open>Both happen: the relay of a connection that fails at once closes it before it is entered.\<close>

lemma closed_session_reachable:
  "\<exists>(s :: (nat, string, unit) udp) k c. udp_reachable demo_udp_env s \<and> uu_nat s (up_key demo_packet) = Some (ItemConn k) \<and>
     uu_conns s k = Some c \<and> \<not> uc_open c \<and> uu_tasks s = [Done, Done]"
proof -
  obtain s where s: "handleUDPConn demo_udp_env demo_packet demo_start = Inr s" "uu_tasks s = [Missed demo_packet (up_meta demo_packet) None]"
    "uu_nat s = Map.empty" "uu_conns s = Map.empty" "uu_tunnel s = demo_tunnel\<lparr>tn_mode := Direct\<rparr>" "uu_world s = 0" "uu_next s = 0"
    using demo_arrives by blast
  have "client_key (up_key demo_packet)" by (simp add: client_key_def demo_packet_def)
  then have r: "udp_reachable demo_udp_env s"
    using udp_reachable.arrive [OF udp_reachable.start _ s(1) [unfolded demo_start_def]] by blast
  have "\<exists>u c. udp_run demo_udp_env [(0, Failed), (0, Failed), (1, Failed), (1, Failed), (0, Failed), (0, Failed), (0, Failed), (0, Failed)] s = Inr u \<and>
      uu_nat u (up_key demo_packet) = Some (ItemConn 1) \<and> uu_conns u 1 = Some c \<and> \<not> uc_open c \<and> uu_tasks u = [Done, Done]"
    using s(2-7)
    by (simp add: udp_run_def udp_task_def nat_GetOrCreateLock_def set_task_def udp_create_def resolveMetadata_def demo_tunnel_def
        demo_udp_env_def spawn_def Let_def nat_Set_def udp_handle_def nat_Get_def handleUDPToRemote_def demo_packet_def Resolved_def
        Metadata_UDPAddr_def udp_write_def Pure_def zero_metadata_def udp_relay_def close_conn_def nat_Delete_def wake_def)
  then show ?thesis using udp_run_reachable [OF r] by blast
qed

end
