(* ===== verification/Spec2Isabelle.thy ===== *)
theory Spec2Isabelle
  imports AppRouter ClashTunnel ClashGroups ClashSocks ClashStructure ClashHub ClashHttp ClashObfs ClashMux ClashTrojan ClashOutbound ClashPackets
begin

text \<open>
  proxypoolCheck fetches lists of proxies from proxypool servers, tests them, publishes those
  that work in several formats, and serves them itself through a local HTTP and SOCKS5 port
  that goes direct for domestic targets.  Its repository holds a copy of the clash proxy core
  under \<open>local/clash\<close>.  This development models both in HOL, as functions on explicit
  states, and proves what the parts promise.

  \<^bold>\<open>The program itself.\<close>
  \<^item> \<open>AppConfig\<close>: \<open>config/config.go\<close>, the options with their defaults and reloading.
  \<^item> \<open>AppRules\<close>: \<open>internal/app/rules.go\<close>, domain and network matchers, the two forms
    of rule files, the routing decision \<open>ShouldDirect\<close> and its specification.
  \<^item> \<open>AppEnv\<close>: \<open>internal/cache\<close>, the world outside and the state all parts share.
  \<^item> \<open>AppFetch\<close>, \<open>AppDownload\<close>, \<open>AppTask\<close>: \<open>get.go\<close>, \<open>retry.go\<close>, \<open>rules_download.go\<close>,
    \<open>selector.go\<close>, \<open>task.go\<close> and \<open>cron.go\<close>: one update from request to publication.
  \<^item> \<open>AppMixed\<close>: \<open>mixed_server.go\<close>, one connection from its first byte to the dial.
  \<^item> \<open>AppRouter\<close>: \<open>api/router.go\<close> and \<open>main.go\<close>: the routes, the start-up, and the
    program as a transition system whose reachable states keep the invariant \<open>app_ok\<close>.

  \<^bold>\<open>The clash core.\<close>
  \<^item> \<open>ClashConstant\<close>: enumerations and metadata.  \<open>ClashLru\<close>, \<open>ClashTrie\<close>, \<open>ClashFakeip\<close>:
    the cache, the domain trie and the pool of fake addresses.
  \<^item> \<open>ClashRules\<close>, \<open>ClashTunnel\<close>: the rule types, their parser, the enhancer of the resolver
    and the handling of a connection in \<open>tunnel/tunnel.go\<close>.
  \<^item> \<open>ClashMurmur\<close>, \<open>ClashJump\<close>, \<open>ClashProxy\<close>, \<open>ClashGroups\<close>: the hash functions, proxies with
    their histories, health checks, providers, and the five kinds of proxy group.
  \<^item> \<open>ClashSocks\<close>, \<open>ClashSocks4\<close>, \<open>ClashHttp\<close>, \<open>ClashInbound\<close>: the handshakes of SOCKS5 and SOCKS4,
    the HTTP proxy with its check of credentials, and \<open>adapter/inbound\<close>, which turns a target
    into metadata.
  \<^item> \<open>ClashStructure\<close>, \<open>ClashPeel\<close>, \<open>ClashDag\<close>: the reflective option decoder and the
    dependency sort of proxy groups.
  \<^item> \<open>ClashProvider\<close>: \<open>adapter/parser.go\<close> with the options of every protocol, provider files
    and the fetcher.  \<open>ClashConfig\<close>: \<open>config/config.go\<close> and \<open>outboundgroup/parser.go\<close>, the
    configuration file with its proxies, groups, rules, hosts and name servers.
  \<^item> \<open>ClashDns\<close>, \<open>ClashCachefile\<close>, \<open>ClashListener\<close>, \<open>ClashHub\<close>: the resolver and the DNS server, the
    database of stored selections and fake addresses, the ports that are opened and closed, and
    \<open>hub\<close>: the executor that applies a configuration and the REST API, as a transition system.
  \<^item> \<open>ClashWire\<close>: a connection as the segments that arrive and the writes that leave it, and two
    interfaces: \<open>stream_reader\<close>, whose law says what one read delivers, and \<open>stream_pair\<close>, which adds
    the writer; whoever satisfies them reads back what was written, however the network cuts it.
  \<^item> \<open>ClashChunks\<close>, \<open>ClashObfs\<close>, \<open>ClashMux\<close>, \<open>ClashTrojan\<close>, \<open>ClashVmess\<close>, \<open>ClashGun\<close>: the framings under
    \<open>transport\<close>, each an interpretation of these interfaces, with the requests of VMess, Trojan
    and Snell.  \<open>ClashOutbound\<close>: \<open>adapter/outbound\<close>, which dials a server and stacks the layers.

  \<open>GoPrelude\<close> and \<open>GoNet\<close> hold what the sources use of Go's standard library: strings,
  numbers, panics as values, addresses and networks.

  \<^bold>\<open>How the code is read.\<close>  A struct is a record, an enumeration a datatype, an error a value
  of a sum, a panic the left side of the type \<open>go\<close>; machine integers are words or carry their
  wrap-around.  What is not in the repository (the network, the clock, the file system, YAML
  and JSON decoders, the proxypool library, the country database, cryptography) is a parameter
  of the definitions that use it.  Locks are taken and released inside one operation, so an
  operation is one step.  Health checks run one after another.  White space and letter case are
  those of ASCII.  A \<open>range\<close> over a map takes its order from a parameter where the order can
  be seen.  Loops are structural recursions or functions with termination proofs; the search
  for a free fake address runs at most once around the pool, so its fuel is the size of the
  pool; the jump hash terminates because its bucket grows.

  \<^bold>\<open>Not modelled.\<close>  The embedded page and its templates; platform code (process lookup,
  socket options, interfaces, DHCP) and the accept loops of the listeners; ShadowsocksR and the
  ciphers of Shadowsocks, whose substance is cryptography outside the repository; the
  libraries of TLS, the websocket, HTTP/2 and DNS messages, which are parameters of what uses
  them; JSON views; background goroutines beyond the step they perform.
\<close>

end
